(* ===== verification/Mwe_Prelude.thy ===== *)
theory Mwe_Prelude
  imports Main "HOL-Library.Sublist"
begin

text \<open>
  The shared vocabulary of the development.

  A Rust \<open>&str\<close> is its UTF-8 byte sequence: a \<^typ>\<open>string\<close> whose characters are bytes, so
  \<open>length\<close> is Rust's \<open>len()\<close> and every offset is a byte offset. A Rust \<open>char\<close> is the byte
  sequence that encodes it (\<open>utf8_chars\<close> splits a string into them). This theory models the
  functions of the Rust standard library the engine calls on strings (\<open>find\<close>, \<open>split_once\<close>,
  \<open>splitn\<close>, \<open>trim\<close>, \<open>lines\<close>, \<dots>) and proves the facts about them the components share.
\<close>

section \<open>Named collections\<close>

named_theorems str_simps \<open>unfolding rules of the string operations\<close>
named_theorems find_dests \<open>what a successful search says about its offset\<close>

section \<open>Options as iterators\<close>

text \<open>\<open>opt.iter()\<close>: no element or one.\<close>

definition opt_list :: "'a option \<Rightarrow> 'a list" where
  "opt_list x = (case x of None \<Rightarrow> [] | Some y \<Rightarrow> [y])"

lemma opt_list_simps [simp]: "opt_list None = []" "opt_list (Some y) = [y]"
  by (simp_all add: opt_list_def)

lemma set_opt_list [simp]: "set (opt_list x) = set_option x"
  by (cases x) auto

text \<open>\<open>opt.is_some_and(p)\<close>.\<close>

definition is_some_and :: "('a \<Rightarrow> bool) \<Rightarrow> 'a option \<Rightarrow> bool" where
  "is_some_and P x = (case x of None \<Rightarrow> False | Some y \<Rightarrow> P y)"

lemma is_some_and_simps [simp]: "\<not> is_some_and P None" "is_some_and P (Some y) = P y"
  by (simp_all add: is_some_and_def)

lemma is_some_and_iff: "is_some_and P x \<longleftrightarrow> (\<exists>y. x = Some y \<and> P y)"
  by (cases x) auto

section \<open>Prefixes, suffixes and slices\<close>

definition starts_with :: "'a list \<Rightarrow> 'a list \<Rightarrow> bool" where
  "starts_with p s \<longleftrightarrow> take (length p) s = p"

definition ends_with :: "'a list \<Rightarrow> 'a list \<Rightarrow> bool" where
  "ends_with p s \<longleftrightarrow> length p \<le> length s \<and> drop (length s - length p) s = p"

definition strip_prefix :: "'a list \<Rightarrow> 'a list \<Rightarrow> 'a list option" where
  "strip_prefix p s = (if starts_with p s then Some (drop (length p) s) else None)"

definition strip_suffix :: "'a list \<Rightarrow> 'a list \<Rightarrow> 'a list option" where
  "strip_suffix p s = (if ends_with p s then Some (take (length s - length p) s) else None)"

text \<open>The slice \<open>&s[a..b]\<close> for \<open>a \<le> b \<le> len\<close>; the panicking form is \<open>checked_slice\<close> below.\<close>

definition slice :: "'a list \<Rightarrow> nat \<Rightarrow> nat \<Rightarrow> 'a list" where
  "slice s a b = take (b - a) (drop a s)"

lemma starts_with_iff: "starts_with p s \<longleftrightarrow> (\<exists>t. s = p @ t)"
  unfolding starts_with_def by (metis append_eq_conv_conj append_take_drop_id)

lemma starts_with_simps [simp]:
  "starts_with [] s"
  "\<not> starts_with (x # p) []"
  "starts_with (x # p) (y # s) \<longleftrightarrow> x = y \<and> starts_with p s"
  by (auto simp: starts_with_def)

lemma starts_with_length: "starts_with p s \<Longrightarrow> length p \<le> length s"
  by (auto simp: starts_with_iff)

lemma starts_with_append [simp]: "starts_with p (p @ s)"
  by (simp add: starts_with_def)

lemma strip_prefix_Some_iff: "strip_prefix p s = Some t \<longleftrightarrow> s = p @ t"
  by (auto simp: strip_prefix_def starts_with_iff)

lemma strip_prefix_None_iff: "strip_prefix p s = None \<longleftrightarrow> \<not> starts_with p s"
  by (simp add: strip_prefix_def)

lemma strip_prefix_simps [simp]:
  "strip_prefix [] s = Some s"
  "strip_prefix (x # p) [] = None"
  "strip_prefix (x # p) (y # s) = (if x = y then strip_prefix p s else None)"
  by (auto simp: strip_prefix_def)

lemma slice_self [simp]: "slice s a a = []"
  by (simp add: slice_def)

lemma slice_all [simp]: "slice s 0 (length s) = s"
  by (simp add: slice_def)

lemma slice_to_end: "slice s a (length s) = drop a s"
  by (simp add: slice_def)

lemma length_slice [simp]: "b \<le> length s \<Longrightarrow> length (slice s a b) = b - a"
  by (simp add: slice_def)

lemma slice_append:
  assumes "a \<le> b" "b \<le> c"
  shows "slice s a b @ slice s b c = slice s a c"
proof -
  have "drop b s = drop (b - a) (drop a s)" and "c - a = (b - a) + (c - b)"
    using assms by simp_all
  then show ?thesis
    unfolding slice_def by (metis take_add)
qed

lemma nth_slice: "a \<le> b \<Longrightarrow> b \<le> length s \<Longrightarrow> i < b - a \<Longrightarrow> slice s a b ! i = s ! (a + i)"
  by (simp add: slice_def)

section \<open>Searching\<close>

text \<open>\<open>haystack.find(needle)\<close>: the first offset at which the needle occurs.\<close>

fun find_sub :: "'a list \<Rightarrow> 'a list \<Rightarrow> nat option" where
  "find_sub n [] = (if n = [] then Some 0 else None)"
| "find_sub n (x # xs) =
     (if starts_with n (x # xs) then Some 0 else map_option Suc (find_sub n xs))"

definition find_from :: "'a list \<Rightarrow> 'a list \<Rightarrow> nat \<Rightarrow> nat option" where
  "find_from haystack needle from = map_option (\<lambda>p. p + from) (find_sub needle (drop from haystack))"

definition contains_sub :: "'a list \<Rightarrow> 'a list \<Rightarrow> bool" where
  "contains_sub s n \<longleftrightarrow> find_sub n s \<noteq> None"

lemma find_sub_starts: "find_sub n h = Some i \<Longrightarrow> starts_with n (drop i h)"
  by (induction n h arbitrary: i rule: find_sub.induct) (auto split: if_splits)

lemma find_sub_bound: "find_sub n h = Some i \<Longrightarrow> i + length n \<le> length h"
proof (induction n h arbitrary: i rule: find_sub.induct)
  case (2 n x xs)
  then show ?case
    by (auto split: if_splits dest: starts_with_length)
qed (auto split: if_splits)

lemma find_sub_least: "find_sub n h = Some i \<Longrightarrow> j < i \<Longrightarrow> \<not> starts_with n (drop j h)"
proof (induction n h arbitrary: i j rule: find_sub.induct)
  case (2 n x xs)
  then show ?case by (cases j) (auto split: if_splits)
qed (auto split: if_splits)

lemma find_sub_None: "find_sub n h = None \<Longrightarrow> j \<le> length h \<Longrightarrow> \<not> starts_with n (drop j h)"
proof (induction n h arbitrary: j rule: find_sub.induct)
  case (1 n)
  then show ?case by (cases n) (auto split: if_splits)
next
  case (2 n x xs)
  then show ?case by (cases j) (auto split: if_splits)
qed

lemma contains_sub_iff: "contains_sub s n \<longleftrightarrow> (\<exists>u v. s = u @ n @ v)"
proof
  assume "contains_sub s n"
  then obtain i where i: "find_sub n s = Some i" by (auto simp: contains_sub_def)
  then obtain v where "drop i s = n @ v"
    using find_sub_starts starts_with_iff by metis
  then have "s = take i s @ n @ v" by (metis append_take_drop_id)
  then show "\<exists>u v. s = u @ n @ v" by blast
next
  assume "\<exists>u v. s = u @ n @ v"
  then obtain u v where s: "s = u @ n @ v" by blast
  show "contains_sub s n"
  proof (rule ccontr)
    assume "\<not> contains_sub s n"
    then have "find_sub n s = None" by (simp add: contains_sub_def)
    from find_sub_None [OF this, of "length u"] s show False by simp
  qed
qed

lemma find_from_bounds [find_dests]:
  assumes "find_from h n k = Some i"
  shows "k \<le> i" and "k \<le> length h \<Longrightarrow> i + length n \<le> length h"
proof -
  from assms obtain p where p: "find_sub n (drop k h) = Some p" and i: "i = p + k"
    by (auto simp: find_from_def)
  from i show "k \<le> i" by simp
  from find_sub_bound [OF p] i show "k \<le> length h \<Longrightarrow> i + length n \<le> length h" by simp
qed

lemma find_from_range:
  assumes "find_from h n k = Some i" "n \<noteq> []"
  shows "k \<le> i \<and> i + length n \<le> length h"
proof -
  have "k \<le> length h"
  proof (rule ccontr)
    assume "\<not> k \<le> length h"
    then have "drop k h = []" by simp
    with assms show False by (simp add: find_from_def)
  qed
  with find_from_bounds [OF assms(1)] show ?thesis by blast
qed

lemma find_from_starts: "find_from h n k = Some i \<Longrightarrow> starts_with n (drop i h)"
  unfolding find_from_def by (auto dest: find_sub_starts simp: add.commute)

lemma find_from_least:
  assumes "find_from h n k = Some i" "k \<le> j" "j < i"
  shows "\<not> starts_with n (drop j h)"
proof -
  from assms obtain p where p: "find_sub n (drop k h) = Some p" and i: "i = p + k"
    by (auto simp: find_from_def)
  from assms i have "j - k < p" by simp
  from find_sub_least [OF p this] assms(2) show ?thesis by simp
qed

lemma find_from_None: "find_from h n k = None \<Longrightarrow> k \<le> j \<Longrightarrow> j \<le> length h \<Longrightarrow> \<not> starts_with n (drop j h)"
  using find_sub_None [of n "drop k h" "j - k"] by (auto simp: find_from_def)

lemma find_from_eqI:
  assumes "starts_with n (drop i h)" "k \<le> i" "i \<le> length h"
    and "\<And>j. k \<le> j \<Longrightarrow> j < i \<Longrightarrow> \<not> starts_with n (drop j h)"
  shows "find_from h n k = Some i"
proof (cases "find_from h n k")
  case None
  with find_from_None assms(1-3) show ?thesis by blast
next
  case (Some i')
  have "\<not> i < i'" using find_from_least [OF Some assms(2)] assms(1) by blast
  moreover have "\<not> i' < i"
    using assms(4) find_from_starts [OF Some] find_from_bounds(1) [OF Some] by blast
  ultimately show ?thesis using Some by simp
qed

lemma find_from_append:
  "find_from (pre @ h) n (length pre + k) = map_option ((+) (length pre)) (find_from h n k)"
  by (simp add: find_from_def option.map_comp comp_def add_ac)

lemma slice_append_left [simp]: "slice (pre @ h) (length pre + a) (length pre + b) = slice h a b"
  by (simp add: slice_def)

lemma slice_append_right: "b \<le> length h \<Longrightarrow> slice (h @ t) a b = slice h a b"
  by (simp add: slice_def)

lemma starts_with_drop_nth:
  "starts_with n (drop i h) \<Longrightarrow> j < length n \<Longrightarrow> i + j < length h \<and> h ! (i + j) = n ! j"
proof -
  assume s: "starts_with n (drop i h)" and j: "j < length n"
  from s obtain t where t: "drop i h = n @ t" by (auto simp: starts_with_iff)
  then have len: "length n \<le> length h - i" by (metis length_append length_drop le_add1)
  with j have "i + j < length h" by linarith
  moreover have "h ! (i + j) = drop i h ! j" using \<open>i + j < length h\<close> by simp
  ultimately show ?thesis using t j by (simp add: nth_append)
qed

lemma slice_match: "starts_with n (drop i h) \<Longrightarrow> slice h i (i + length n) = n"
  by (simp add: slice_def starts_with_def)

lemma find_from_slice:
  assumes "find_from h n k = Some i"
  shows "slice h i (i + length n) = n"
  using assms by (rule slice_match [OF find_from_starts])

text \<open>Nothing before the first match contains the pattern.\<close>

lemma find_from_free:
  assumes "find_from h n k = Some i" "n \<noteq> []"
  shows "\<not> contains_sub (slice h k i) n"
proof
  assume "contains_sub (slice h k i) n"
  then obtain u v where "slice h k i = u @ n @ v" by (auto simp: contains_sub_iff)
  then obtain w where w: "drop k h = u @ n @ v @ w"
    unfolding slice_def by (metis append.assoc append_take_drop_id)
  from \<open>slice h k i = u @ n @ v\<close> have "length u + length n \<le> i - k"
    unfolding slice_def by (metis append.assoc le_add1 length_append length_take min.cobounded2 order_trans)
  with assms have "k + length u < i" by (cases n) auto
  moreover have "starts_with n (drop (k + length u) h)"
    using w by (metis add.commute append_eq_conv_conj drop_drop starts_with_append)
  ultimately show False using find_from_least [OF assms(1), of "k + length u"] by simp
qed

section \<open>Splitting\<close>

text \<open>\<open>s.split_once(c)\<close> for a one-byte pattern.\<close>

definition split_once :: "'a \<Rightarrow> 'a list \<Rightarrow> ('a list \<times> 'a list) option" where
  "split_once c s =
     (if c \<in> set s then Some (takeWhile (\<lambda>x. x \<noteq> c) s, tl (dropWhile (\<lambda>x. x \<noteq> c) s)) else None)"

text \<open>\<open>s.split(c)\<close>: never empty, one piece more than there are separators.\<close>

fun split_on :: "'a \<Rightarrow> 'a list \<Rightarrow> 'a list list" where
  "split_on c [] = [[]]"
| "split_on c (x # xs) =
     (if x = c then [] # split_on c xs
      else case split_on c xs of [] \<Rightarrow> [[x]] | p # ps \<Rightarrow> (x # p) # ps)"

text \<open>\<open>s.splitn(n, c)\<close>: at most \<open>n\<close> pieces, the last one keeps the rest.\<close>

fun splitn :: "nat \<Rightarrow> 'a \<Rightarrow> 'a list \<Rightarrow> 'a list list" where
  "splitn 0 c s = []"
| "splitn (Suc 0) c s = [s]"
| "splitn (Suc (Suc n)) c s =
     (case split_once c s of None \<Rightarrow> [s] | Some (a, b) \<Rightarrow> a # splitn (Suc n) c b)"

text \<open>\<open>pieces.join(sep)\<close>.\<close>

fun join :: "'a list \<Rightarrow> 'a list list \<Rightarrow> 'a list" where
  "join sep [] = []"
| "join sep [p] = p"
| "join sep (p # q # ps) = p @ sep @ join sep (q # ps)"

text \<open>\<open>s.rfind(c)\<close> for a one-byte pattern, as the split around the last occurrence.\<close>

definition rsplit_once :: "'a \<Rightarrow> 'a list \<Rightarrow> ('a list \<times> 'a list) option" where
  "rsplit_once c s = map_option (\<lambda>(a, b). (rev b, rev a)) (split_once c (rev s))"

lemma split_once_Some_iff: "split_once c s = Some (a, b) \<longleftrightarrow> s = a @ c # b \<and> c \<notin> set a"
proof
  assume "split_once c s = Some (a, b)"
  then have c: "c \<in> set s" and a: "a = takeWhile (\<lambda>x. x \<noteq> c) s"
    and b: "b = tl (dropWhile (\<lambda>x. x \<noteq> c) s)"
    by (auto simp: split_once_def split: if_splits)
  from c have ne: "dropWhile (\<lambda>x. x \<noteq> c) s \<noteq> []" by (auto simp: dropWhile_eq_Nil_conv)
  then have "hd (dropWhile (\<lambda>x. x \<noteq> c) s) = c" using hd_dropWhile by blast
  with ne b have "dropWhile (\<lambda>x. x \<noteq> c) s = c # b" by (metis list.collapse)
  then have "s = a @ c # b" using a by (metis takeWhile_dropWhile_id)
  moreover have "c \<notin> set a" using a by (auto dest: set_takeWhileD)
  ultimately show "s = a @ c # b \<and> c \<notin> set a" by simp
next
  assume "s = a @ c # b \<and> c \<notin> set a"
  then show "split_once c s = Some (a, b)"
    by (auto simp: split_once_def takeWhile_append dropWhile_append takeWhile_eq_all_conv)
qed

lemma split_once_None_iff: "split_once c s = None \<longleftrightarrow> c \<notin> set s"
  by (simp add: split_once_def)

lemma rsplit_once_Some_iff: "rsplit_once c s = Some (a, b) \<longleftrightarrow> s = a @ c # b \<and> c \<notin> set b"
proof -
  have "rsplit_once c s = Some (a, b) \<longleftrightarrow> split_once c (rev s) = Some (rev b, rev a)"
    unfolding rsplit_once_def by (cases "split_once c (rev s)") auto
  also have "\<dots> \<longleftrightarrow> rev s = rev b @ c # rev a \<and> c \<notin> set b"
    by (simp add: split_once_Some_iff)
  also have "\<dots> \<longleftrightarrow> s = a @ c # b \<and> c \<notin> set b"
    by (metis (no_types, lifting) append.assoc append_Cons append_Nil rev.simps(2) rev_append rev_rev_ident)
  finally show ?thesis .
qed

lemma split_on_free: "c \<notin> set p \<Longrightarrow> split_on c p = [p]"
  by (induction p) auto

lemma split_on_append: "c \<notin> set p \<Longrightarrow> split_on c (p @ c # s) = p # split_on c s"
  by (induction p) auto

lemma split_on_join:
  "ps \<noteq> [] \<Longrightarrow> \<forall>p \<in> set ps. c \<notin> set p \<Longrightarrow> split_on c (join [c] ps) = ps"
  by (induction "[c]" ps rule: join.induct) (auto simp: split_on_free split_on_append)

lemma set_join: "set (join sep ps) \<subseteq> set sep \<union> (\<Union>p \<in> set ps. set p)"
  by (induction sep ps rule: join.induct) auto

lemma split_on_nonempty [simp]: "split_on c s \<noteq> []"
  by (induction s) (auto split: list.splits)


section \<open>Bytes and UTF-8\<close>

definition byte :: "char \<Rightarrow> nat" where
  "byte c = of_char c"

definition is_cont :: "char \<Rightarrow> bool" where
  "is_cont c \<longleftrightarrow> 128 \<le> byte c \<and> byte c < 192"

definition is_ascii :: "char \<Rightarrow> bool" where
  "is_ascii c \<longleftrightarrow> byte c < 128"

definition is_ascii_digit :: "char \<Rightarrow> bool" where
  "is_ascii_digit c \<longleftrightarrow> 48 \<le> byte c \<and> byte c \<le> 57"

definition is_ascii_lowercase :: "char \<Rightarrow> bool" where
  "is_ascii_lowercase c \<longleftrightarrow> 97 \<le> byte c \<and> byte c \<le> 122"

definition is_ascii_uppercase :: "char \<Rightarrow> bool" where
  "is_ascii_uppercase c \<longleftrightarrow> 65 \<le> byte c \<and> byte c \<le> 90"

definition to_ascii_lower :: "char \<Rightarrow> char" where
  "to_ascii_lower c = (if is_ascii_uppercase c then char_of (byte c + 32) else c)"

abbreviation newline :: char where
  "newline \<equiv> CHR 0x0A"

abbreviation carriage_return :: char where
  "carriage_return \<equiv> CHR 0x0D"

text \<open>
  What every \<open>&str\<close> guarantees and the scanners rely on: a continuation byte is never the first
  byte and never follows an ASCII byte.
\<close>

fun utf8_from :: "bool \<Rightarrow> string \<Rightarrow> bool" where
  "utf8_from after_ascii [] = True"
| "utf8_from after_ascii (b # bs) = (\<not> (after_ascii \<and> is_cont b) \<and> utf8_from (is_ascii b) bs)"

abbreviation str_ok :: "string \<Rightarrow> bool" where
  "str_ok s \<equiv> utf8_from True s"

text \<open>\<open>s.is_char_boundary(i)\<close> and the slice \<open>&s[a..b]\<close>, \<^const>\<open>None\<close> where Rust panics.\<close>

definition is_char_boundary :: "string \<Rightarrow> nat \<Rightarrow> bool" where
  "is_char_boundary s i \<longleftrightarrow> i = 0 \<or> i = length s \<or> (i < length s \<and> \<not> is_cont (s ! i))"

definition checked_slice :: "string \<Rightarrow> nat \<Rightarrow> nat \<Rightarrow> string option" where
  "checked_slice s a b =
     (if a \<le> b \<and> b \<le> length s \<and> is_char_boundary s a \<and> is_char_boundary s b
      then Some (slice s a b) else None)"

lemma utf8_from_True: "utf8_from True s \<Longrightarrow> utf8_from x s"
  by (cases s) auto

lemma utf8_from_nth:
  "utf8_from x s \<Longrightarrow> Suc i < length s \<Longrightarrow> is_ascii (s ! i) \<Longrightarrow> \<not> is_cont (s ! Suc i)"
proof (induction x s arbitrary: i rule: utf8_from.induct)
  case (2 x b bs)
  then show ?case by (cases i; cases bs) auto
qed simp

lemma is_ascii_not_cont: "is_ascii c \<Longrightarrow> \<not> is_cont c"
  by (simp add: is_ascii_def is_cont_def)

lemma boundary_at_ascii: "i < length s \<Longrightarrow> is_ascii (s ! i) \<Longrightarrow> is_char_boundary s i"
  by (simp add: is_char_boundary_def is_ascii_not_cont)

lemma boundary_after_ascii:
  assumes "str_ok s" "i < length s" "is_ascii (s ! i)"
  shows "is_char_boundary s (Suc i)"
proof (cases "Suc i = length s")
  case True
  then show ?thesis by (simp add: is_char_boundary_def)
next
  case False
  with assms have "Suc i < length s" by simp
  with utf8_from_nth [OF assms(1) this assms(3)] show ?thesis
    by (simp add: is_char_boundary_def)
qed

lemma is_char_boundary_0 [simp]: "is_char_boundary s 0"
  by (simp add: is_char_boundary_def)

lemma is_char_boundary_length [simp]: "is_char_boundary s (length s)"
  by (simp add: is_char_boundary_def)

lemma boundary_of_match:
  assumes "str_ok h" "starts_with n (drop i h)" "n \<noteq> []" "\<forall>c \<in> set n. is_ascii c"
  shows "is_char_boundary h i" and "is_char_boundary h (i + length n)"
proof -
  have first: "i < length h \<and> h ! i = n ! 0"
    using starts_with_drop_nth [OF assms(2), of 0] assms(3) by simp
  moreover have "n ! 0 \<in> set n" using assms(3) by simp
  ultimately have "is_ascii (h ! i)" using assms(4) by metis
  with first show "is_char_boundary h i" by (simp add: boundary_at_ascii)
  let ?k = "length n - 1"
  have last: "i + ?k < length h \<and> h ! (i + ?k) = n ! ?k"
    using starts_with_drop_nth [OF assms(2), of ?k] assms(3) by simp
  moreover have "n ! ?k \<in> set n" using assms(3) by simp
  ultimately have "is_ascii (h ! (i + ?k))" using assms(4) by metis
  with last have "is_char_boundary h (Suc (i + ?k))"
    using boundary_after_ascii assms(1) by blast
  moreover have "Suc (i + ?k) = i + length n" using assms(3) by (cases n) auto
  ultimately show "is_char_boundary h (i + length n)" by (simp only:)
qed

text \<open>The \<open>char\<close>s of a string, each as the bytes that encode it.\<close>

function utf8_chars :: "string \<Rightarrow> string list" where
  "utf8_chars [] = []"
| "utf8_chars (b # bs) = (b # takeWhile is_cont bs) # utf8_chars (dropWhile is_cont bs)"
  by pat_completeness auto
termination
  by (relation "measure length") (auto simp: less_Suc_eq_le length_dropWhile_le)

lemma concat_utf8_chars [simp]: "concat (utf8_chars s) = s"
  by (induction s rule: utf8_chars.induct) simp_all

lemma utf8_chars_ascii: "\<forall>c \<in> set s. is_ascii c \<Longrightarrow> utf8_chars s = map (\<lambda>c. [c]) s"
proof (induction s rule: utf8_chars.induct)
  case (2 b bs)
  then have "\<forall>c \<in> set bs. \<not> is_cont c" by (auto simp: is_ascii_not_cont)
  then have "takeWhile is_cont bs = [] \<and> dropWhile is_cont bs = bs"
    by (cases bs) auto
  with 2 show ?case by simp
qed simp

section \<open>White space, lines\<close>

text \<open>\<open>char::is_whitespace\<close>: the code points with the Unicode property White\_Space.\<close>

definition whitespace_chars :: "string list" where
  "whitespace_chars =
     [[CHR 0x09], [CHR 0x0A], [CHR 0x0B], [CHR 0x0C], [CHR 0x0D], [CHR 0x20],
      [CHR 0xC2, CHR 0x85], [CHR 0xC2, CHR 0xA0], [CHR 0xE1, CHR 0x9A, CHR 0x80],
      [CHR 0xE2, CHR 0x80, CHR 0x80], [CHR 0xE2, CHR 0x80, CHR 0x81], [CHR 0xE2, CHR 0x80, CHR 0x82],
      [CHR 0xE2, CHR 0x80, CHR 0x83], [CHR 0xE2, CHR 0x80, CHR 0x84], [CHR 0xE2, CHR 0x80, CHR 0x85],
      [CHR 0xE2, CHR 0x80, CHR 0x86], [CHR 0xE2, CHR 0x80, CHR 0x87], [CHR 0xE2, CHR 0x80, CHR 0x88],
      [CHR 0xE2, CHR 0x80, CHR 0x89], [CHR 0xE2, CHR 0x80, CHR 0x8A], [CHR 0xE2, CHR 0x80, CHR 0xA8],
      [CHR 0xE2, CHR 0x80, CHR 0xA9], [CHR 0xE2, CHR 0x80, CHR 0xAF], [CHR 0xE2, CHR 0x81, CHR 0x9F],
      [CHR 0xE3, CHR 0x80, CHR 0x80]]"

definition is_whitespace :: "string \<Rightarrow> bool" where
  "is_whitespace ch \<longleftrightarrow> ch \<in> set whitespace_chars"

definition is_ascii_whitespace :: "char \<Rightarrow> bool" where
  "is_ascii_whitespace c \<longleftrightarrow> c \<in> {CHR 0x20, CHR 0x09, CHR 0x0A, CHR 0x0C, CHR 0x0D}"

definition trim_start :: "string \<Rightarrow> string" where
  "trim_start s = concat (dropWhile is_whitespace (utf8_chars s))"

definition trim_end :: "string \<Rightarrow> string" where
  "trim_end s = concat (rev (dropWhile is_whitespace (rev (utf8_chars s))))"

definition trim :: "string \<Rightarrow> string" where
  "trim s = concat (rev (dropWhile is_whitespace (rev (dropWhile is_whitespace (utf8_chars s)))))"

definition blank :: "string \<Rightarrow> bool" where
  "blank s \<longleftrightarrow> trim s = []"

text \<open>\<open>s.split_ascii_whitespace()\<close>: the maximal runs without ASCII white space.\<close>

definition split_ascii_whitespace :: "string \<Rightarrow> string list" where
  "split_ascii_whitespace s =
     filter (\<lambda>w. w \<noteq> [])
       (split_on CHR 0x20 (map (\<lambda>c. if is_ascii_whitespace c then CHR 0x20 else c) s))"

lemma split_ascii_whitespace_join:
  assumes "\<forall>w \<in> set ws. w \<noteq> [] \<and> (\<forall>c \<in> set w. \<not> is_ascii_whitespace c)"
  shows "split_ascii_whitespace (join '' '' ws) = ws"
proof (cases "ws = []")
  case True
  then show ?thesis by (simp add: split_ascii_whitespace_def)
next
  case False
  have space: "is_ascii_whitespace CHR 0x20" by (simp add: is_ascii_whitespace_def)
  let ?f = "\<lambda>c. if is_ascii_whitespace c then CHR 0x20 else c"
  have "map ?f (join '' '' ws) = join '' '' ws"
    using set_join [of "'' ''" ws] assms by (intro map_idI) fastforce
  moreover have "split_on CHR 0x20 (join '' '' ws) = ws"
    using False assms space by (intro split_on_join) auto
  moreover have "filter (\<lambda>w. w \<noteq> []) ws = ws"
    using assms by (simp add: filter_id_conv)
  ultimately show ?thesis by (simp add: split_ascii_whitespace_def)
qed

text \<open>\<open>s.split_inclusive('\n')\<close> and \<open>s.lines()\<close>.\<close>

fun split_lines_inclusive :: "string \<Rightarrow> string list" where
  "split_lines_inclusive [] = []"
| "split_lines_inclusive (c # cs) =
     (if c = newline then [newline] # split_lines_inclusive cs
      else case split_lines_inclusive cs of [] \<Rightarrow> [[c]] | l # ls \<Rightarrow> (c # l) # ls)"

definition strip_line_end :: "string \<Rightarrow> string" where
  "strip_line_end l =
     (case strip_suffix [newline] l of None \<Rightarrow> l
      | Some m \<Rightarrow> (case strip_suffix [carriage_return] m of None \<Rightarrow> m | Some k \<Rightarrow> k))"

definition lines :: "string \<Rightarrow> string list" where
  "lines s = map strip_line_end (split_lines_inclusive s)"

lemma concat_split_lines_inclusive [simp]: "concat (split_lines_inclusive s) = s"
  by (induction s) (auto split: list.splits)

lemma concat_rev_dropWhile_prefix: "\<exists>t. concat cs = concat (rev (dropWhile P (rev cs))) @ t"
proof -
  have "cs = rev (dropWhile P (rev cs)) @ rev (takeWhile P (rev cs))"
    by (metis rev_append rev_rev_ident takeWhile_dropWhile_id)
  then show ?thesis by (metis concat_append)
qed

lemma trim_empty [simp]: "trim [] = []"
  by (simp add: trim_def)

section \<open>Decimal numerals\<close>

text \<open>The \<open>Display\<close> form of an unsigned integer.\<close>

fun show_nat :: "nat \<Rightarrow> string" where
  "show_nat n = (if n < 10 then [char_of (48 + n)] else show_nat (n div 10) @ [char_of (48 + n mod 10)])"

declare show_nat.simps [simp del]

lemma show_nat_digits: "c \<in> set (show_nat n) \<Longrightarrow> is_ascii_digit c"
proof (induction n rule: show_nat.induct)
  case (1 n)
  have dig: "\<And>k. k < 10 \<Longrightarrow> is_ascii_digit (char_of (48 + k :: nat))"
    by (simp add: is_ascii_digit_def byte_def)
  show ?case
  proof (cases "n < 10")
    case True
    with "1.prems" dig show ?thesis by (simp add: show_nat.simps [of n])
  next
    case False
    with "1.prems" have "c \<in> set (show_nat (n div 10)) \<or> c = char_of (48 + n mod 10)"
      by (auto simp: show_nat.simps [of n])
    with "1.IH" False dig [of "n mod 10"] show ?thesis by auto
  qed
qed

lemma show_nat_nonempty [simp]: "show_nat n \<noteq> []"
  by (subst show_nat.simps) simp

section \<open>Invariants of step relations\<close>

text \<open>
  The components that keep state are step relations with an invariant; the locale carries the step
  case to every reachable state.
\<close>

locale stepping =
  fixes step :: "'s \<Rightarrow> 's \<Rightarrow> bool"
    and inv :: "'s \<Rightarrow> bool"
  assumes step_keeps: "inv s \<Longrightarrow> step s s' \<Longrightarrow> inv s'"
begin

lemma reachable_keeps: "rtranclp step s s' \<Longrightarrow> inv s \<Longrightarrow> inv s'"
  by (induction rule: rtranclp_induct) (auto intro: step_keeps)

end

text \<open>A transition system that implements another through an abstraction function.\<close>

locale simulation = stepping step inv
  for step :: "'s \<Rightarrow> 's \<Rightarrow> bool" and inv :: "'s \<Rightarrow> bool" +
  fixes astep :: "'a \<Rightarrow> 'a \<Rightarrow> bool" and abstr :: "'s \<Rightarrow> 'a"
  assumes simulates: "inv s \<Longrightarrow> step s s' \<Longrightarrow> astep (abstr s) (abstr s')"
begin

lemma reachable_simulates:
  assumes "rtranclp step s s'" "inv s"
  shows "rtranclp astep (abstr s) (abstr s')"
  using assms
proof (induction rule: rtranclp_induct)
  case (step y z)
  then have "inv y" by (blast intro: reachable_keeps)
  with step show ?case by (meson rtranclp.rtrancl_into_rtrancl simulates)
qed simp

end

end
