(* ===== verification/Mwe_Types.thy ===== *)
theory Mwe_Types
  imports Mwe_Prelude "HOL-Library.List_Lexorder" "HOL-Library.Char_ord"
begin

text \<open>
  The shared identifiers and the ACL data model of \<open>crates/mwe-core/src/types.rs\<close>: principals with
  their wire form, fact ids (UUIDv7), catalog ids, wiki slugs and ids, region attributes. Each parser
  is the Rust parser branch by branch, with its error enum as the left summand.

  Shown: the principal wire form round-trips, an accepted fact id or catalog id has exactly the
  documented shape, and joining a parent id with a child slug stays inside the id grammar.
\<close>

section \<open>Principals\<close>

datatype principal = User string | Group string

definition global_principal :: principal where
  "global_principal = Group ''global''"

fun is_global :: "principal \<Rightarrow> bool" where
  "is_global (Group gid) = (gid = ''global'')"
| "is_global (User _) = False"

datatype principal_parse_error =
    PrincipalEmpty
  | MissingPrefix string
  | EmptyId string

definition principal_from_str :: "string \<Rightarrow> principal_parse_error + principal" where
  "principal_from_str s =
     (if s = [] then Inl PrincipalEmpty
      else if s = ''global'' then Inr global_principal
      else case strip_prefix ''user:'' s of
        Some ident \<Rightarrow> (if ident = [] then Inl (EmptyId s) else Inr (User ident))
      | None \<Rightarrow>
        (case strip_prefix ''group:'' s of
           Some ident \<Rightarrow> (if ident = [] then Inl (EmptyId s) else Inr (Group ident))
         | None \<Rightarrow> Inl (MissingPrefix s)))"

fun principal_to_string :: "principal \<Rightarrow> string" where
  "principal_to_string (User ident) = ''user:'' @ ident"
| "principal_to_string (Group ident) =
     (if ident = ''global'' then ''global'' else ''group:'' @ ident)"

fun principal_id :: "principal \<Rightarrow> string" where
  "principal_id (User ident) = ident"
| "principal_id (Group ident) = ident"

section \<open>Access-control lists and fact ids\<close>

record acl =
  acl_subject :: "principal option"
  acl_allow :: "principal list"
  acl_excluded :: "principal list"

datatype fact_id = FactId (fact_id_str: string)

text \<open>Fact ids are compared as the text column they are stored in.\<close>

instantiation fact_id :: linorder
begin

definition less_eq_fact_id :: "fact_id \<Rightarrow> fact_id \<Rightarrow> bool" where
  "less_eq_fact_id a b \<longleftrightarrow> fact_id_str a \<le> fact_id_str b"

definition less_fact_id :: "fact_id \<Rightarrow> fact_id \<Rightarrow> bool" where
  "less_fact_id a b \<longleftrightarrow> fact_id_str a < fact_id_str b"

instance
  by standard (auto simp: less_eq_fact_id_def less_fact_id_def fact_id.expand)

end

datatype fact_id_parse_error = FactIdInvalidFormat string

definition is_ascii_lower_hex :: "char \<Rightarrow> bool" where
  "is_ascii_lower_hex b \<longleftrightarrow>
     (48 \<le> byte b \<and> byte b \<le> 57) \<or> (97 \<le> byte b \<and> byte b \<le> 102)"

definition dash_positions :: "nat list" where
  "dash_positions = [8, 13, 18, 23]"

fun fact_id_bytes_ok :: "nat \<Rightarrow> string \<Rightarrow> bool" where
  "fact_id_bytes_ok i [] = True"
| "fact_id_bytes_ok i (b # bs) =
     ((if i \<in> set dash_positions then b = CHR ''-'' else is_ascii_lower_hex b) \<and>
      fact_id_bytes_ok (Suc i) bs)"

definition fact_id_parse :: "string \<Rightarrow> fact_id_parse_error + fact_id" where
  "fact_id_parse s =
     (if length s \<noteq> 36 then Inl (FactIdInvalidFormat s)
      else if \<not> fact_id_bytes_ok 0 s then Inl (FactIdInvalidFormat s)
      else if s ! 14 \<noteq> CHR ''7'' then Inl (FactIdInvalidFormat s)
      else if s ! 19 \<notin> {CHR ''8'', CHR ''9'', CHR ''a'', CHR ''b''} then Inl (FactIdInvalidFormat s)
      else Inr (FactId s))"

section \<open>Catalog ids\<close>

datatype catalog_id = CatalogId (catalog_id_str: string)

datatype catalog_id_parse_error = CatalogIdInvalidFormat string

definition catalog_id_parse :: "string \<Rightarrow> catalog_id_parse_error + catalog_id" where
  "catalog_id_parse s =
     (case strip_prefix ''c-'' s of
        None \<Rightarrow> Inl (CatalogIdInvalidFormat s)
      | Some rest \<Rightarrow>
        (case splitn 5 CHR ''-'' rest of
           [p0, p1, p2, p3, p4] \<Rightarrow>
             (let valid_date = length p0 = 4 \<and> length p1 = 2 \<and> length p2 = 2 \<and>
                    list_all is_ascii_digit p0 \<and> list_all is_ascii_digit p1 \<and>
                    list_all is_ascii_digit p2;
                  valid_kind = p3 \<noteq> [] \<and> list_all is_ascii_lowercase p3
              in (case rsplit_once CHR ''.'' p4 of
                    None \<Rightarrow> Inl (CatalogIdInvalidFormat s)
                  | Some (nnn, ext) \<Rightarrow>
                    (let valid_nnn = nnn \<noteq> [] \<and> list_all is_ascii_digit nnn;
                         valid_ext = ext \<noteq> [] \<and>
                           list_all (\<lambda>b. is_ascii_lowercase b \<or> is_ascii_digit b) ext
                     in if valid_date \<and> valid_kind \<and> valid_nnn \<and> valid_ext
                        then Inr (CatalogId s) else Inl (CatalogIdInvalidFormat s))))
         | _ \<Rightarrow> Inl (CatalogIdInvalidFormat s)))"

section \<open>Wiki slugs and wiki ids\<close>

datatype wiki_slug = WikiSlug (wiki_slug_str: string)

datatype wiki_name_error =
    NameEmpty
  | EdgeDash string
  | DoubleDash string
  | InvalidChar string string

abbreviation degree_sign :: string where
  "degree_sign \<equiv> [CHR 0xC2, CHR 0xB0]"

definition wiki_name_char_ok :: "string \<Rightarrow> bool" where
  "wiki_name_char_ok ch \<longleftrightarrow>
     (case ch of [c] \<Rightarrow> is_ascii_lowercase c \<or> is_ascii_digit c \<or> c = CHR ''-'' | _ \<Rightarrow> ch = degree_sign)"

definition wiki_slug_parse :: "string \<Rightarrow> wiki_name_error + wiki_slug" where
  "wiki_slug_parse s =
     (if s = [] then Inl NameEmpty
      else if starts_with ''-'' s \<or> ends_with ''-'' s then Inl (EdgeDash s)
      else if contains_sub s ''--'' then Inl (DoubleDash s)
      else case List.find (\<lambda>c. \<not> wiki_name_char_ok c) (utf8_chars s) of
        Some c \<Rightarrow> Inl (InvalidChar s c)
      | None \<Rightarrow> Inr (WikiSlug s))"

datatype wiki_id = WikiId (wiki_id_str: string)

definition wiki_id_parse :: "string \<Rightarrow> wiki_name_error + wiki_id" where
  "wiki_id_parse s =
     (if s = [] then Inl NameEmpty
      else if starts_with ''-'' s \<or> ends_with ''-'' s then Inl (EdgeDash s)
      else if contains_sub s ''--'' then Inl (DoubleDash s)
      else case List.find (\<lambda>c. \<not> wiki_name_char_ok c) (utf8_chars s) of
        Some c \<Rightarrow> Inl (InvalidChar s c)
      | None \<Rightarrow> Inr (WikiId s))"

definition wiki_root :: wiki_id where
  "wiki_root = WikiId ''root''"

definition child_of :: "wiki_id \<Rightarrow> wiki_slug \<Rightarrow> wiki_id" where
  "child_of parent child =
     (if wiki_id_str parent = ''root'' then WikiId (wiki_slug_str child)
      else WikiId (wiki_id_str parent @ ''-'' @ wiki_slug_str child))"

section \<open>Region attributes\<close>

record region_attrs =
  ra_acl :: acl
  ra_sender :: "principal option"
  ra_fact_id :: "fact_id option"
  ra_subject_external :: "string option"

definition default_acl :: acl where
  "default_acl = \<lparr>acl_subject = None, acl_allow = [], acl_excluded = []\<rparr>"

definition default_region_attrs :: region_attrs where
  "default_region_attrs =
     \<lparr>ra_acl = default_acl, ra_sender = None, ra_fact_id = None, ra_subject_external = None\<rparr>"


section \<open>Principals: the wire form\<close>

lemma principal_from_str_to_string:
  assumes "principal_id p \<noteq> []"
  shows "principal_from_str (principal_to_string p) = Inr p"
  using assms by (cases p) (auto simp: principal_from_str_def global_principal_def strip_prefix_def starts_with_def)

lemma principal_to_string_inject [simp]: "principal_to_string p = principal_to_string q \<longleftrightarrow> p = q"
  by (cases p; cases q) auto

lemma principal_from_str_Inr:
  assumes "principal_from_str s = Inr p"
  shows "principal_id p \<noteq> [] \<and> (principal_to_string p = s \<or> s = ''group:global'')"
  using assms
  by (auto simp: principal_from_str_def global_principal_def strip_prefix_Some_iff
           split: if_splits option.splits)

lemma is_global_iff: "is_global p \<longleftrightarrow> p = global_principal"
  by (cases p) (auto simp: global_principal_def)

section \<open>Fact ids: exactly the UUIDv7 shape\<close>

lemma fact_id_bytes_ok_iff:
  "fact_id_bytes_ok k s \<longleftrightarrow>
     (\<forall>i < length s. if k + i \<in> set dash_positions then s ! i = CHR ''-''
                    else is_ascii_lower_hex (s ! i))"
proof (induction k s rule: fact_id_bytes_ok.induct)
  case (2 k b bs)
  then show ?case by (auto simp: less_Suc_eq_0_disj)
qed simp

lemma fact_id_parse_Inr_str: "fact_id_parse s = Inr f \<Longrightarrow> fact_id_str f = s"
  by (auto simp: fact_id_parse_def split: if_splits)

lemma fact_id_bytes_ok_chars:
  "fact_id_bytes_ok k s \<Longrightarrow> c \<in> set s \<Longrightarrow> is_ascii_lower_hex c \<or> c = CHR ''-''"
  by (induction k s rule: fact_id_bytes_ok.induct) (auto split: if_splits)

lemma fact_id_parse_shape:
  assumes "fact_id_parse s = Inr f"
  shows "length s = 36" "c \<in> set s \<Longrightarrow> is_ascii_lower_hex c \<or> c = CHR ''-''"
  using assms fact_id_bytes_ok_chars [of 0 s c] by (auto simp: fact_id_parse_def split: if_splits)

section \<open>Catalog ids: exactly the documented grammar\<close>

lemma split_once_append: "c \<notin> set a \<Longrightarrow> split_once c (a @ c # b) = Some (a, b)"
  by (simp add: split_once_Some_iff)

lemma splitn_five_iff:
  "splitn 5 c s = [a, b, d, e, f] \<longleftrightarrow>
     s = a @ c # b @ c # d @ c # e @ c # f \<and>
     c \<notin> set a \<and> c \<notin> set b \<and> c \<notin> set d \<and> c \<notin> set e" (is "?l \<longleftrightarrow> ?r")
proof
  assume ?l
  then show ?r
    by (auto simp: numeral_eq_Suc split_once_Some_iff split: option.splits)
next
  assume ?r
  then show ?l by (simp add: numeral_eq_Suc split_once_append)
qed

lemma digit_lower_neq:
  "is_ascii_digit c \<Longrightarrow> c \<noteq> CHR ''-''" "is_ascii_lowercase c \<Longrightarrow> c \<noteq> CHR ''-''"
  "is_ascii_digit c \<Longrightarrow> c \<noteq> CHR ''.''" "is_ascii_lowercase c \<Longrightarrow> c \<noteq> CHR ''.''"
  by (auto simp: is_ascii_digit_def is_ascii_lowercase_def byte_def)

lemma all_digits_no_dash: "list_all is_ascii_digit s \<Longrightarrow> CHR ''-'' \<notin> set s"
  by (auto simp: list_all_iff dest: digit_lower_neq)

lemma all_lower_no_dash: "list_all is_ascii_lowercase s \<Longrightarrow> CHR ''-'' \<notin> set s"
  by (auto simp: list_all_iff dest: digit_lower_neq)

lemma alnum_no_dot:
  "list_all (\<lambda>b. is_ascii_lowercase b \<or> is_ascii_digit b) s \<Longrightarrow> CHR ''.'' \<notin> set s"
  by (auto simp: list_all_iff dest: digit_lower_neq)

lemma catalog_id_parse_accepts:
  assumes "length y = 4" "length m = 2" "length d = 2"
    and "list_all is_ascii_digit y" "list_all is_ascii_digit m" "list_all is_ascii_digit d"
    and "k \<noteq> []" "list_all is_ascii_lowercase k"
    and "n \<noteq> []" "list_all is_ascii_digit n"
    and "e \<noteq> []" "list_all (\<lambda>b. is_ascii_lowercase b \<or> is_ascii_digit b) e"
  shows "catalog_id_parse (''c-'' @ y @ ''-'' @ m @ ''-'' @ d @ ''-'' @ k @ ''-'' @ n @ ''.'' @ e) =
           Inr (CatalogId (''c-'' @ y @ ''-'' @ m @ ''-'' @ d @ ''-'' @ k @ ''-'' @ n @ ''.'' @ e))"
proof -
  let ?rest = "y @ ''-'' @ m @ ''-'' @ d @ ''-'' @ k @ ''-'' @ n @ ''.'' @ e"
  have "splitn 5 CHR ''-'' ?rest = [y, m, d, k, n @ ''.'' @ e]"
    using assms by (simp add: splitn_five_iff all_digits_no_dash all_lower_no_dash)
  moreover have "rsplit_once CHR ''.'' (n @ ''.'' @ e) = Some (n, e)"
    using assms by (simp add: rsplit_once_Some_iff alnum_no_dot)
  ultimately show ?thesis
    using assms by (simp add: catalog_id_parse_def)
qed

lemma catalog_id_parse_Inr:
  assumes "catalog_id_parse s = Inr cid"
  obtains y m d k n e where
    "s = ''c-'' @ y @ ''-'' @ m @ ''-'' @ d @ ''-'' @ k @ ''-'' @ n @ ''.'' @ e"
    "cid = CatalogId s" "length y = 4" "length m = 2" "length d = 2"
    "list_all is_ascii_digit y" "list_all is_ascii_digit m" "list_all is_ascii_digit d"
    "k \<noteq> []" "list_all is_ascii_lowercase k" "n \<noteq> []" "list_all is_ascii_digit n"
    "e \<noteq> []" "list_all (\<lambda>b. is_ascii_lowercase b \<or> is_ascii_digit b) e"
proof -
  from assms obtain rest where rest: "strip_prefix ''c-'' s = Some rest"
    by (auto simp: catalog_id_parse_def split: option.splits)
  with assms obtain y m d k l where parts: "splitn 5 CHR ''-'' rest = [y, m, d, k, l]"
    by (auto simp: catalog_id_parse_def split: list.splits)
  with assms rest obtain n e where "rsplit_once CHR ''.'' l = Some (n, e)"
    by (auto simp: catalog_id_parse_def split: option.splits)
  with assms rest parts show thesis
    by (intro that [of y m d k n e])
      (auto simp: catalog_id_parse_def splitn_five_iff rsplit_once_Some_iff strip_prefix_Some_iff
            split: if_splits)
qed

lemma catalog_id_parse_chars:
  assumes "catalog_id_parse s = Inr cid" "c \<in> set s"
  shows "is_ascii_digit c \<or> is_ascii_lowercase c \<or> c = CHR ''-'' \<or> c = CHR ''.''"
proof -
  have "is_ascii_lowercase CHR ''c''" by (simp add: is_ascii_lowercase_def byte_def)
  with assms show ?thesis
    by (elim catalog_id_parse_Inr) (auto simp: list_all_iff)
qed

section \<open>Wiki ids: closed under taking a child\<close>

lemma utf8_chars_append:
  "b = [] \<or> \<not> is_cont (hd b) \<Longrightarrow> utf8_chars (a @ b) = utf8_chars a @ utf8_chars b"
proof (induction a rule: utf8_chars.induct)
  case (2 x xs)
  have "takeWhile is_cont (xs @ b) = takeWhile is_cont xs"
    and "dropWhile is_cont (xs @ b) = dropWhile is_cont xs @ b"
    using "2.prems" by (induction xs; cases b; auto)+
  with 2 show ?case by simp
qed simp

lemma contains_double_dash:
  "contains_sub s ''--'' \<longleftrightarrow> \<not> successively (\<lambda>x y. \<not> (x = CHR ''-'' \<and> y = CHR ''-'')) s"
proof (induction s rule: induct_list012)
  case (3 x y zs)
  then show ?case by (auto simp: contains_sub_def)
qed (auto simp: contains_sub_def)

lemma wiki_id_parse_Inr_iff:
  "wiki_id_parse s = Inr i \<longleftrightarrow>
     i = WikiId s \<and> s \<noteq> [] \<and> hd s \<noteq> CHR ''-'' \<and> last s \<noteq> CHR ''-'' \<and>
     successively (\<lambda>x y. \<not> (x = CHR ''-'' \<and> y = CHR ''-'')) s \<and>
     (\<forall>c \<in> set (utf8_chars s). wiki_name_char_ok c)"
proof -
  have "starts_with ''-'' s \<longleftrightarrow> s \<noteq> [] \<and> hd s = CHR ''-''" by (cases s) auto
  moreover have "s \<noteq> [] \<Longrightarrow> ends_with ''-'' s \<longleftrightarrow> last s = CHR ''-''"
    by (cases s rule: rev_cases) (auto simp: ends_with_def)
  ultimately show ?thesis
    by (auto simp: wiki_id_parse_def contains_double_dash find_None_iff find_Some_iff
             split: option.splits)
qed

lemma wiki_slug_parse_Inr_iff:
  "wiki_slug_parse s = Inr i \<longleftrightarrow> i = WikiSlug s \<and> wiki_id_parse s = Inr (WikiId s)"
  by (auto simp: wiki_slug_parse_def wiki_id_parse_def split: option.splits)

lemma wiki_name_first_byte:
  assumes "\<forall>c \<in> set (utf8_chars s). wiki_name_char_ok c" "s \<noteq> []"
  shows "\<not> is_cont (hd s)"
proof -
  obtain b bs where s: "s = b # bs" using assms(2) by (cases s) auto
  with assms(1) have "wiki_name_char_ok (b # takeWhile is_cont bs)" by simp
  with s show ?thesis
    by (auto simp: wiki_name_char_ok_def is_cont_def is_ascii_lowercase_def is_ascii_digit_def byte_def
             split: list.splits)
qed


section \<open>Properties\<close>

text \<open>
  the wire form of a principal. Parsing accepts exactly the printed forms of the principals
  with a non-empty identifier, plus the one alias \<open>group:global\<close> of the builtin group; so printing
  and parsing are inverse, and no two principals share a wire form.
\<close>

lemma principal_wire_form:
  "principal_from_str s = Inr p \<longleftrightarrow>
     principal_id p \<noteq> [] \<and>
     (s = principal_to_string p \<or> (p = global_principal \<and> s = ''group:global''))"
proof
  assume parsed: "principal_from_str s = Inr p"
  then have "principal_id p \<noteq> []" and "principal_to_string p = s \<or> s = ''group:global''"
    using principal_from_str_Inr by auto
  moreover have "s = ''group:global'' \<Longrightarrow> p = global_principal"
    using parsed by (simp add: principal_from_str_def global_principal_def)
  ultimately show "principal_id p \<noteq> [] \<and>
     (s = principal_to_string p \<or> (p = global_principal \<and> s = ''group:global''))"
    by auto
next
  assume "principal_id p \<noteq> [] \<and>
     (s = principal_to_string p \<or> (p = global_principal \<and> s = ''group:global''))"
  then show "principal_from_str s = Inr p"
    by (auto simp: principal_from_str_to_string)
      (simp add: principal_from_str_def global_principal_def)
qed

text \<open>
  A catalog id is accepted exactly when it has the documented shape
  \<open>c-YYYY-MM-DD-<kind>-NNN.<ext>\<close> with four, two and two digits, a non-empty lowercase kind, a
  non-empty number and a non-empty lowercase alphanumeric extension, and it is stored verbatim.
\<close>

lemma catalog_id_grammar:
  "catalog_id_parse s = Inr cid \<longleftrightarrow>
     cid = CatalogId s \<and>
     (\<exists>y m d k n e.
        s = ''c-'' @ y @ ''-'' @ m @ ''-'' @ d @ ''-'' @ k @ ''-'' @ n @ ''.'' @ e \<and>
        length y = 4 \<and> length m = 2 \<and> length d = 2 \<and>
        list_all is_ascii_digit (y @ m @ d @ n) \<and> n \<noteq> [] \<and>
        k \<noteq> [] \<and> list_all is_ascii_lowercase k \<and>
        e \<noteq> [] \<and> list_all (\<lambda>b. is_ascii_lowercase b \<or> is_ascii_digit b) e)"
  (is "?parsed \<longleftrightarrow> ?shape")
proof
  assume ?parsed
  then show ?shape
    by (elim catalog_id_parse_Inr) (auto intro!: exI)
next
  assume ?shape
  then show ?parsed
    by (auto intro: catalog_id_parse_accepts [simplified])
qed

text \<open>
  The id of a child wiki is again a valid wiki id. Whatever valid parent id and valid slug the
  forge joins, the result passes the id parser (no edge dash, no double dash, the same charset).
\<close>

lemma child_of_valid:
  assumes "wiki_id_parse (wiki_id_str parent) = Inr parent"
    and "wiki_slug_parse (wiki_slug_str child) = Inr child"
  shows "wiki_id_parse (wiki_id_str (child_of parent child)) = Inr (child_of parent child)"
proof (cases "wiki_id_str parent = ''root''")
  case True
  with assms(2) show ?thesis
    by (simp add: child_of_def wiki_slug_parse_Inr_iff)
next
  case False
  let ?p = "wiki_id_str parent" and ?c = "wiki_slug_str child"
  from assms have p: "wiki_id_parse ?p = Inr (WikiId ?p)" and c: "wiki_id_parse ?c = Inr (WikiId ?c)"
    by (simp_all add: wiki_slug_parse_Inr_iff)
  then have ne: "?p \<noteq> []" "?c \<noteq> []"
    and ok: "\<forall>x \<in> set (utf8_chars ?p). wiki_name_char_ok x" "\<forall>x \<in> set (utf8_chars ?c). wiki_name_char_ok x"
    by (auto simp: wiki_id_parse_Inr_iff)
  have "\<not> is_cont CHR ''-''" by (simp add: is_cont_def byte_def)
  then have chars: "utf8_chars (?p @ ''-'' @ ?c) = utf8_chars ?p @ [''-''] @ utf8_chars ?c"
    using wiki_name_first_byte [OF ok(2) ne(2)] ne
    by (cases ?c) (simp_all add: utf8_chars_append)
  have "wiki_name_char_ok ''-''" by (simp add: wiki_name_char_ok_def)
  with p c ne ok chars have "wiki_id_parse (?p @ ''-'' @ ?c) = Inr (WikiId (?p @ ''-'' @ ?c))"
    by (auto simp: wiki_id_parse_Inr_iff successively_append_iff successively_Cons)
  with False show ?thesis by (simp add: child_of_def)
qed

lemma child_of_valid_witness:
  "wiki_id_parse (wiki_id_str (child_of (WikiId ''alice'') (WikiSlug ''acmecorp''))) =
     Inr (WikiId ''alice-acmecorp'')"
proof -
  have "wiki_id_parse (wiki_id_str (WikiId ''alice'')) = Inr (WikiId ''alice'')"
    and "wiki_slug_parse (wiki_slug_str (WikiSlug ''acmecorp'')) = Inr (WikiSlug ''acmecorp'')"
    by code_simp+
  from child_of_valid [OF this] show ?thesis by (simp add: child_of_def)
qed

end
