(* ===== verification/Mwe_Tokens.thy ===== *)
theory Mwe_Tokens
  imports Mwe_Types
begin

text \<open>
  Identity: the tokens of \<open>crates/mwe-core/src/jwt.rs\<close> with their revocation list, the delegations of
  \<open>delegations.rs\<close>, the consumer registry of \<open>consumers.rs\<close> and the middleware of
  \<open>crates/mwe-mcp-server/src/mcp/auth.rs\<close> that turns a request into an identity.

  Instants are nanoseconds (\<open>int\<close>), the claims hold seconds as on the wire. Signing and verifying are
  the crate \<open>jsonwebtoken\<close>: \<open>te_decode secret seconds token\<close> is its \<open>decode\<close> under the validation the
  code sets up. JSON lists, \<open>DateTime::from_timestamp\<close> and \<open>HeaderValue::to_str\<close> are parameters too.
\<close>

section \<open>Clock\<close>

definition duration_seconds :: "int \<Rightarrow> int" where
  "duration_seconds s = s * 1000000000"

text \<open>\<open>DateTime::timestamp\<close>: whole seconds, rounded down.\<close>

definition timestamp :: "int \<Rightarrow> int" where
  "timestamp now = now div 1000000000"

lemma duration_seconds_mono [simp]: "duration_seconds a \<le> duration_seconds b \<longleftrightarrow> a \<le> b"
  by (simp add: duration_seconds_def)

lemma timestamp_mono: "a \<le> b \<Longrightarrow> timestamp a \<le> timestamp b"
  by (simp add: timestamp_def zdiv_mono1)

section \<open>Claims\<close>

definition MIN_SECRET_BYTES :: nat where
  "MIN_SECRET_BYTES = 32"

definition BLACKLIST_REFRESH_INTERVAL :: int where
  "BLACKLIST_REFRESH_INTERVAL = duration_seconds 60"

datatype consumer_class = Standard | Smart

definition is_smart :: "consumer_class \<Rightarrow> bool" where
  "is_smart c \<longleftrightarrow> c = Smart"

definition is_standard :: "consumer_class \<Rightarrow> bool" where
  "is_standard c \<longleftrightarrow> c = Standard"

datatype consumer_profile = Local | Web

record token_claims =
  tc_sender_id :: string
  tc_device_label :: string
  tc_rate_limit_id :: string
  tc_jti :: string
  tc_iat :: int
  tc_exp :: int
  tc_is_admin :: bool
  tc_consumer_id :: "string option"
  tc_consumer_class :: consumer_class
  tc_profile :: consumer_profile
  tc_session_gen :: "int option"

definition i64_max :: int where
  "i64_max = 2 ^ 63 - 1"

text \<open>\<open>TokenClaims::new\<close>: the fresh \<open>jti\<close> and the lifetime in whole seconds are arguments.\<close>

definition claims_new :: "int \<Rightarrow> string \<Rightarrow> string \<Rightarrow> string \<Rightarrow> string \<Rightarrow> int \<Rightarrow> token_claims" where
  "claims_new now jti sender_id device_label rate_limit_id ttl =
     \<lparr>tc_sender_id = sender_id, tc_device_label = device_label, tc_rate_limit_id = rate_limit_id,
      tc_jti = jti, tc_iat = timestamp now,
      tc_exp = timestamp now + (if ttl \<le> i64_max then ttl else i64_max),
      tc_is_admin = False, tc_consumer_id = None, tc_consumer_class = Standard, tc_profile = Local,
      tc_session_gen = None\<rparr>"

datatype jwt_error_kind =
    KindInvalidSignature
  | KindInvalidAlgorithm
  | KindExpiredSignature
  | KindInvalidToken
  | KindBase64
  | KindJson
  | KindUtf8
  | KindOther

datatype token_error =
    WeakSecret nat nat
  | MalformedToken string
  | InvalidSignature
  | TokenExpired int int
  | Revoked string
  | TokenOther string

definition token_secret_new :: "string \<Rightarrow> token_error + string" where
  "token_secret_new bytes =
     (if length bytes < MIN_SECRET_BYTES then Inl (WeakSecret (length bytes) MIN_SECRET_BYTES) else Inr bytes)"

fun token_error_from :: "jwt_error_kind \<times> string \<Rightarrow> token_error" where
  "token_error_from (KindInvalidSignature, _) = InvalidSignature"
| "token_error_from (KindInvalidAlgorithm, _) = InvalidSignature"
| "token_error_from (KindExpiredSignature, _) = TokenExpired 0 0"
| "token_error_from (KindInvalidToken, msg) = MalformedToken msg"
| "token_error_from (KindBase64, msg) = MalformedToken msg"
| "token_error_from (KindJson, msg) = MalformedToken msg"
| "token_error_from (KindUtf8, msg) = MalformedToken msg"
| "token_error_from (KindOther, msg) = TokenOther msg"

section \<open>Revocations\<close>

record revocation =
  rv_jti :: string
  rv_revoked_at :: int
  rv_expires_at :: int
  rv_reason :: string
  rv_revoked_by :: string

type_synonym revocations = "revocation list"

record token_env =
  te_decode :: "string \<Rightarrow> int \<Rightarrow> string \<Rightarrow> (jwt_error_kind \<times> string) + token_claims"
  te_encode :: "string \<Rightarrow> token_claims \<Rightarrow> string"
  te_from_timestamp :: "int \<Rightarrow> int option"
  te_parse_list :: "string \<Rightarrow> string list option"
  te_list_json :: "string list \<Rightarrow> string"
  te_to_str :: "string \<Rightarrow> string option"

definition verify_offline :: "token_env \<Rightarrow> string \<Rightarrow> int \<Rightarrow> string \<Rightarrow> token_error + token_claims" where
  "verify_offline env secret now token =
     (case te_decode env secret (timestamp now) token of
        Inl e \<Rightarrow> Inl (token_error_from e)
      | Inr claims \<Rightarrow> Inr claims)"

definition exp_instant :: "token_env \<Rightarrow> int \<Rightarrow> int \<Rightarrow> int" where
  "exp_instant env now original_exp =
     (case te_from_timestamp env original_exp of None \<Rightarrow> now | Some t \<Rightarrow> t)"

definition revoke :: "token_env \<Rightarrow> int \<Rightarrow> string \<Rightarrow> string \<Rightarrow> string \<Rightarrow> int \<Rightarrow> revocations \<Rightarrow> revocations" where
  "revoke env now jti reason revoked_by original_exp tab =
     filter (\<lambda>r. rv_jti r \<noteq> jti) tab @
     [\<lparr>rv_jti = jti, rv_revoked_at = now, rv_expires_at = exp_instant env now original_exp,
       rv_reason = reason, rv_revoked_by = revoked_by\<rparr>]"

definition revoke_once ::
  "token_env \<Rightarrow> int \<Rightarrow> string \<Rightarrow> string \<Rightarrow> string \<Rightarrow> int \<Rightarrow> revocations \<Rightarrow> revocations \<times> bool" where
  "revoke_once env now jti reason revoked_by original_exp tab =
     (if jti \<in> set (map rv_jti tab) then (tab, False)
      else (tab @ [\<lparr>rv_jti = jti, rv_revoked_at = now, rv_expires_at = exp_instant env now original_exp,
                    rv_reason = reason, rv_revoked_by = revoked_by\<rparr>], True))"

text \<open>\<open>housekeeping::purge_expired_revocations\<close>.\<close>

definition purge_expired_revocations :: "int \<Rightarrow> revocations \<Rightarrow> revocations \<times> nat" where
  "purge_expired_revocations now tab =
     (filter (\<lambda>r. \<not> rv_expires_at r < now) tab, length (filter (\<lambda>r. rv_expires_at r < now) tab))"

section \<open>Snapshots with a time to live\<close>

text \<open>
  The blacklist and the delegations are read through an in-memory snapshot that is reloaded once it is
  sixty seconds old. The locale is what the two caches share; its lemma is the promise the comments
  make: what the table says since \<open>r\<close> is what the snapshot says from \<open>r + ttl\<close> on.
\<close>

locale ttl_cache =
  fixes refreshed_at :: "'c \<Rightarrow> int option"
    and snapshot :: "'c \<Rightarrow> 'v"
    and load :: "'db \<Rightarrow> 'v option"
    and access :: "'db \<Rightarrow> int \<Rightarrow> 'c \<Rightarrow> 'c option"
    and ttl :: int
  assumes access_fresh: "refreshed_at c = Some t \<Longrightarrow> now - t < ttl \<Longrightarrow> access db now c = Some c"
    and access_stale: "\<forall>t. refreshed_at c = Some t \<longrightarrow> ttl \<le> now - t \<Longrightarrow> access db now c = Some c' \<Longrightarrow>
      load db = Some (snapshot c') \<and> refreshed_at c' = Some now"
begin

definition settled :: "int \<Rightarrow> ('v \<Rightarrow> bool) \<Rightarrow> int \<Rightarrow> 'c \<Rightarrow> bool" where
  "settled r Q clock c \<longleftrightarrow> (\<forall>t. refreshed_at c = Some t \<longrightarrow> t \<le> clock \<and> (r < t \<longrightarrow> Q (snapshot c)))"

lemma settled_later: "settled r Q clock c \<Longrightarrow> clock \<le> now \<Longrightarrow> settled r Q now c"
  unfolding settled_def by fastforce

lemma access_cases:
  assumes "access db now c = Some c'"
  obtains (kept) t where "c' = c" "refreshed_at c = Some t" "now - t < ttl"
  | (loaded) "load db = Some (snapshot c')" "refreshed_at c' = Some now"
proof (cases "\<exists>t. refreshed_at c = Some t \<and> now - t < ttl")
  case True
  then obtain t where t: "refreshed_at c = Some t" "now - t < ttl" by blast
  with access_fresh [OF t] assms have "c' = c" by simp
  then show ?thesis using t by (rule kept)
next
  case False
  then have "\<forall>t. refreshed_at c = Some t \<longrightarrow> ttl \<le> now - t" by (simp add: not_less)
  from access_stale [OF this assms] show ?thesis by (intro loaded) simp_all
qed

lemma access_settled:
  assumes "settled r Q clock c" "clock \<le> now" "access db now c = Some c'"
    and "r < now \<Longrightarrow> \<forall>v. load db = Some v \<longrightarrow> Q v"
  shows "settled r Q now c'"
  using assms(3)
proof (cases rule: access_cases)
  case (kept t)
  then show ?thesis using assms(1,2) settled_later by simp
next
  case loaded
  then show ?thesis using assms(4) by (auto simp: settled_def)
qed

lemma access_late:
  assumes "settled r Q clock c" "clock \<le> now" "access db now c = Some c'"
    and "r + ttl \<le> now" "\<forall>v. load db = Some v \<longrightarrow> Q v" "0 \<le> ttl"
  shows "Q (snapshot c')"
  using assms(3)
proof (cases rule: access_cases)
  case (kept t)
  then show ?thesis using assms(1,4) by (auto simp: settled_def)
next
  case loaded
  then show ?thesis using assms(5) by simp
qed

end

section \<open>The revocation cache\<close>

record blacklist_cache =
  bc_revoked :: "string list"
  bc_refreshed_at :: "int option"

definition blacklist_cache_new :: blacklist_cache where
  "blacklist_cache_new = \<lparr>bc_revoked = [], bc_refreshed_at = None\<rparr>"

definition blacklist_refresh :: "revocations \<Rightarrow> int \<Rightarrow> blacklist_cache \<Rightarrow> blacklist_cache" where
  "blacklist_refresh tab now cache =
     cache\<lparr>bc_revoked := map rv_jti tab, bc_refreshed_at := Some now\<rparr>"

definition needs_refresh :: "int \<Rightarrow> int \<Rightarrow> int option \<Rightarrow> bool" where
  "needs_refresh ttl now refreshed = (case refreshed of None \<Rightarrow> True | Some t \<Rightarrow> ttl \<le> now - t)"

definition is_revoked :: "revocations \<Rightarrow> int \<Rightarrow> string \<Rightarrow> blacklist_cache \<Rightarrow> blacklist_cache \<times> bool" where
  "is_revoked tab now jti cache =
     (let cache = (if needs_refresh BLACKLIST_REFRESH_INTERVAL now (bc_refreshed_at cache)
                   then blacklist_refresh tab now cache else cache)
      in (cache, jti \<in> set (bc_revoked cache)))"

definition verify ::
  "token_env \<Rightarrow> string \<Rightarrow> revocations \<Rightarrow> int \<Rightarrow> string \<Rightarrow> blacklist_cache
    \<Rightarrow> blacklist_cache \<times> (token_error + token_claims)" where
  "verify env secret tab now token cache =
     (case verify_offline env secret now token of
        Inl e \<Rightarrow> (cache, Inl e)
      | Inr claims \<Rightarrow>
          (case is_revoked tab now (tc_jti claims) cache of
             (cache', True) \<Rightarrow> (cache', Inl (Revoked (tc_jti claims)))
           | (cache', False) \<Rightarrow> (cache', Inr claims)))"

interpretation bl: ttl_cache bc_refreshed_at bc_revoked "\<lambda>tab. Some (map rv_jti tab)"
  "\<lambda>tab now cache. Some (fst (is_revoked tab now jti cache))" BLACKLIST_REFRESH_INTERVAL for jti
  by unfold_locales
    (auto simp: is_revoked_def Let_def needs_refresh_def blacklist_refresh_def split: option.splits)

lemma is_revoked_snd: "snd (is_revoked tab now jti cache) \<longleftrightarrow> jti \<in> set (bc_revoked (fst (is_revoked tab now jti cache)))"
  by (simp add: is_revoked_def Let_def)

lemma is_revoked_fst: "fst (is_revoked tab now jti cache) = fst (is_revoked tab now jti' cache)"
  by (simp add: is_revoked_def Let_def)

section \<open>Runs over the revocation list\<close>

datatype token_op =
    TokRevoke string string string int
  | TokRevokeOnce string string string int
  | TokPurge
  | TokRefresh
  | TokVerify string

fun run_token_op ::
  "token_env \<Rightarrow> string \<Rightarrow> int \<Rightarrow> token_op \<Rightarrow> revocations \<times> blacklist_cache \<Rightarrow> revocations \<times> blacklist_cache" where
  "run_token_op env secret now (TokRevoke jti reason by_whom e) (tab, cache) =
     (revoke env now jti reason by_whom e tab, cache)"
| "run_token_op env secret now (TokRevokeOnce jti reason by_whom e) (tab, cache) =
     (fst (revoke_once env now jti reason by_whom e tab), cache)"
| "run_token_op env secret now TokPurge (tab, cache) = (fst (purge_expired_revocations now tab), cache)"
| "run_token_op env secret now TokRefresh (tab, cache) = (tab, blacklist_refresh tab now cache)"
| "run_token_op env secret now (TokVerify token) (tab, cache) = (tab, fst (verify env secret tab now token cache))"

text \<open>
  A revocation carries the expiry of the token it revokes, or a later one (the logout handler counts
  from its own clock): \<open>X\<close> is the expiry of each token id, in seconds. Years after 9999 do not occur.
\<close>

definition last_second :: int where
  "last_second = 253402300799"

fun op_carries_exp :: "(string \<Rightarrow> int) \<Rightarrow> token_op \<Rightarrow> bool" where
  "op_carries_exp X (TokRevoke jti _ _ e) = (X jti \<le> e \<and> e \<le> last_second)"
| "op_carries_exp X (TokRevokeOnce jti _ _ e) = (X jti \<le> e \<and> e \<le> last_second)"
| "op_carries_exp X _ = True"

definition timestamps_ok :: "token_env \<Rightarrow> bool" where
  "timestamps_ok env \<longleftrightarrow> (\<forall>s. 0 \<le> s \<and> s \<le> last_second \<longrightarrow> te_from_timestamp env s = Some (duration_seconds s))"

inductive token_step ::
  "token_env \<Rightarrow> string \<Rightarrow> (string \<Rightarrow> int) \<Rightarrow> int \<times> revocations \<times> blacklist_cache
    \<Rightarrow> int \<times> revocations \<times> blacklist_cache \<Rightarrow> bool" for env secret X where
  token_step_op: "clock \<le> now \<Longrightarrow> op_carries_exp X op \<Longrightarrow>
    token_step env secret X (clock, s) (now, run_token_op env secret now op s)"

definition cache_not_ahead :: "int \<times> revocations \<times> blacklist_cache \<Rightarrow> bool" where
  "cache_not_ahead s \<longleftrightarrow> (\<forall>t. bc_refreshed_at (snd (snd s)) = Some t \<longrightarrow> t \<le> fst s)"

text \<open>From the revocation at \<open>r\<close> until the token's own expiry: the row stays, and every snapshot since has it.\<close>

definition revoked_since ::
  "(string \<Rightarrow> int) \<Rightarrow> string \<Rightarrow> int \<Rightarrow> int \<times> revocations \<times> blacklist_cache \<Rightarrow> bool" where
  "revoked_since X jti r s \<longleftrightarrow> (case s of (clock, tab, cache) \<Rightarrow>
     clock \<le> duration_seconds (X jti) \<longrightarrow>
       (\<exists>row \<in> set tab. rv_jti row = jti) \<and>
       (\<forall>row \<in> set tab. rv_jti row = jti \<longrightarrow> duration_seconds (X jti) \<le> rv_expires_at row) \<and>
       (\<forall>t. bc_refreshed_at cache = Some t \<longrightarrow> t \<le> clock \<and> (r < t \<longrightarrow> jti \<in> set (bc_revoked cache))))"

lemma verify_cache: "fst (verify env secret tab now token cache) \<in> {cache, blacklist_refresh tab now cache}"
  by (simp add: verify_def is_revoked_def Let_def split: sum.splits bool.splits)

lemma exp_instant_late:
  assumes "timestamps_ok env" "0 \<le> X jti" "X jti \<le> e" "e \<le> last_second"
  shows "duration_seconds (X jti) \<le> exp_instant env now e"
  using assms by (simp add: timestamps_ok_def exp_instant_def)

lemma revoked_since_refresh:
  assumes "revoked_since X jti r (clock, tab, cache)" "clock \<le> now"
  shows "revoked_since X jti r (now, tab, blacklist_refresh tab now cache)"
  using assms by (force simp: revoked_since_def blacklist_refresh_def)

lemma revoked_since_later:
  assumes "revoked_since X jti r (clock, tab, cache)" "clock \<le> now"
  shows "revoked_since X jti r (now, tab, cache)"
  using assms by (fastforce simp: revoked_since_def)

lemma revoked_since_table:
  assumes "revoked_since X jti r (clock, tab, cache)" "clock \<le> now"
    and "now \<le> duration_seconds (X jti) \<Longrightarrow> jti \<in> rv_jti ` set tab'"
    and "\<And>row. row \<in> set tab' \<Longrightarrow> rv_jti row = jti \<Longrightarrow> row \<in> set tab \<or> duration_seconds (X jti) \<le> rv_expires_at row"
  shows "revoked_since X jti r (now, tab', cache)"
  using assms by (fastforce simp: revoked_since_def)

lemma revoked_since_step:
  assumes "revoked_since X jti r s" "token_step env secret X s s'" "timestamps_ok env" "0 \<le> X jti"
  shows "revoked_since X jti r s'"
  using assms(2,1)
proof cases
  case (token_step_op clock now op st)
  obtain tab cache where st: "st = (tab, cache)" by (cases st)
  note inv = assms(1) [unfolded token_step_op(1) st]
  have in_tab: "jti \<in> rv_jti ` set tab" if "now \<le> duration_seconds (X jti)"
    using inv that token_step_op(3) by (fastforce simp: revoked_since_def)
  show ?thesis
  proof (cases op)
    case (TokRevoke j reason by_whom e)
    then show ?thesis
      using in_tab token_step_op(3,4) exp_instant_late [of env X jti e now] assms(3,4)
      unfolding token_step_op(2) st
      by (auto simp: revoke_def intro!: revoked_since_table [OF inv])
  next
    case (TokRevokeOnce j reason by_whom e)
    then show ?thesis
      using in_tab token_step_op(3,4) exp_instant_late [of env X jti e now] assms(3,4)
      unfolding token_step_op(2) st
      by (auto simp: revoke_once_def intro!: revoked_since_table [OF inv])
  next
    case TokPurge
    have "jti \<in> rv_jti ` {row \<in> set tab. \<not> rv_expires_at row < now}" if "now \<le> duration_seconds (X jti)"
      using in_tab [OF that] inv that token_step_op(3) by (fastforce simp: revoked_since_def)
    then show ?thesis
      unfolding token_step_op(2) st TokPurge
      by (auto simp: purge_expired_revocations_def intro!: revoked_since_table [OF inv token_step_op(3)])
  next
    case TokRefresh
    then show ?thesis
      using revoked_since_refresh [OF inv token_step_op(3)] unfolding token_step_op(2) st by simp
  next
    case (TokVerify token)
    then show ?thesis
      using verify_cache [of env secret tab now token cache]
        revoked_since_refresh [OF inv token_step_op(3)] revoked_since_later [OF inv token_step_op(3)]
      unfolding token_step_op(2) st by auto
  qed
qed

lemma cache_not_ahead_step:
  assumes "cache_not_ahead s" "token_step env secret X s s'"
  shows "cache_not_ahead s'"
  using assms(2,1)
proof cases
  case (token_step_op clock now op st)
  obtain tab cache where st: "st = (tab, cache)" by (cases st)
  have "snd (run_token_op env secret now op (tab, cache)) \<in> {cache, blacklist_refresh tab now cache}"
    using verify_cache by (cases op) auto
  then show ?thesis
    using assms(1) token_step_op(3) unfolding token_step_op(1,2) st
    by (auto simp: cache_not_ahead_def blacklist_refresh_def)
qed

interpretation token_run: stepping "token_step env secret X" cache_not_ahead for env secret X
  by unfold_locales (rule cache_not_ahead_step)

lemma token_run_revoked:
  assumes "rtranclp (token_step env secret X) s s'" "revoked_since X jti r s" "timestamps_ok env" "0 \<le> X jti"
  shows "revoked_since X jti r s'"
  using assms by (induction rule: rtranclp_induct) (auto intro: revoked_since_step)

lemma verify_revoked:
  assumes "revoked_since X jti r (clock, tab, cache)" "clock \<le> now" "now \<le> duration_seconds (X jti)"
    and "r + BLACKLIST_REFRESH_INTERVAL \<le> now"
    and "snd (verify env secret tab now token cache) = Inr claims"
  shows "tc_jti claims \<noteq> jti"
proof
  assume jti: "tc_jti claims = jti"
  have s: "bl.settled r (\<lambda>v. jti \<in> set v) clock cache" and j: "jti \<in> set (map rv_jti tab)"
    using assms(1-3) by (force simp: revoked_since_def bl.settled_def)+
  have "jti \<in> set (bc_revoked (fst (is_revoked tab now jti cache)))"
    using bl.access_late [OF s assms(2) refl assms(4)] j
    by (simp add: BLACKLIST_REFRESH_INTERVAL_def duration_seconds_def)
  then have "snd (is_revoked tab now jti cache)" by (simp add: is_revoked_snd)
  then show False
    using assms(5) jti by (auto simp: verify_def split: sum.splits prod.splits bool.splits)
qed

lemma revoke_revoked_since:
  assumes "cache_not_ahead (clock, tab, cache)" "clock \<le> r" "timestamps_ok env" "0 \<le> X jti" "X jti \<le> e" "e \<le> last_second"
  shows "revoked_since X jti r (r, revoke env r jti reason by_whom e tab, cache)"
  using assms exp_instant_late [of env X jti e r] by (force simp: revoked_since_def cache_not_ahead_def revoke_def)

text \<open>
  C30: a revoked token is out within a minute. Whatever else happens on the server after a revocation at
  \<open>r\<close> (other revocations and redemptions, the housekeeping sweep, cache reloads, requests), from
  \<open>r + 60 s\<close> until the token's own expiry no request is accepted with a token of that id, although
  requests are judged by a snapshot of the list that may be a minute old.
\<close>

theorem revocation_within_a_minute:
  assumes "rtranclp (token_step env secret X) (t0, [], blacklist_cache_new) (c1, tab1, cache1)" "c1 \<le> r"
    and "X jti \<le> e" "e \<le> last_second" "0 \<le> X jti" "timestamps_ok env"
    and "rtranclp (token_step env secret X) (r, run_token_op env secret r (TokRevoke jti reason by_whom e) (tab1, cache1))
           (c, tab, cache)"
    and "c \<le> now" "r + duration_seconds 60 \<le> now" "now \<le> duration_seconds (X jti)"
    and "snd (verify env secret tab now token cache) = Inr claims"
  shows "tc_jti claims \<noteq> jti"
proof -
  have "cache_not_ahead (c1, tab1, cache1)"
    using token_run.reachable_keeps [OF assms(1)] by (simp add: cache_not_ahead_def blacklist_cache_new_def)
  then have "revoked_since X jti r (r, revoke env r jti reason by_whom e tab1, cache1)"
    using assms(2,6,5,3,4) by (rule revoke_revoked_since)
  then have "revoked_since X jti r (c, tab, cache)"
    using token_run_revoked [OF assms(7)] assms(5,6) by simp
  then show ?thesis
    using assms(8,10,9,11) unfolding BLACKLIST_REFRESH_INTERVAL_def [symmetric] by (rule verify_revoked)
qed

section \<open>A concrete verifier\<close>

text \<open>Two known tokens; \<open>leeway\<close> seconds after its expiry a token is still accepted, as the crate does.\<close>

definition sample_claims :: "string \<Rightarrow> token_claims" where
  "sample_claims jti = (claims_new 0 jti ''alice'' ''cli'' ''default'' 3600)\<lparr>tc_consumer_id := Some ''bot''\<rparr>"

definition sample_decode :: "int \<Rightarrow> string \<Rightarrow> int \<Rightarrow> string \<Rightarrow> (jwt_error_kind \<times> string) + token_claims" where
  "sample_decode leeway secret secs token =
     (if token = ''tok-a'' \<or> token = ''tok-b''
      then let claims = sample_claims token
           in if tc_exp claims < secs - leeway then Inl (KindExpiredSignature, []) else Inr claims
      else Inl (KindInvalidToken, []))"

text \<open>A concrete encoding of lists: every byte is announced, a full stop ends a string.\<close>

fun sample_list_json :: "string list \<Rightarrow> string" where
  "sample_list_json [] = []"
| "sample_list_json ([] # ss) = CHR ''.'' # sample_list_json ss"
| "sample_list_json ((c # s) # ss) = CHR ''c'' # c # sample_list_json (s # ss)"

fun sample_parse_list :: "string \<Rightarrow> string list option" where
  "sample_parse_list [] = Some []"
| "sample_parse_list [x] = (if x = CHR ''.'' then Some [[]] else None)"
| "sample_parse_list (x # c # rest) =
     (if x = CHR ''.'' then map_option ((#) []) (sample_parse_list (c # rest))
      else case sample_parse_list rest of Some (s # ss) \<Rightarrow> Some ((c # s) # ss) | _ \<Rightarrow> None)"

lemma sample_parse_stop: "sample_parse_list (CHR ''.'' # r) = map_option ((#) []) (sample_parse_list r)"
  by (cases r) auto

lemma sample_list_roundtrip [simp]: "sample_parse_list (sample_list_json xs) = Some xs"
  by (induction xs rule: sample_list_json.induct) (simp_all add: sample_parse_stop del: sample_parse_list.simps(2))

definition sample_env :: token_env where
  "sample_env = \<lparr>te_decode = sample_decode 60, te_encode = (\<lambda>_ claims. tc_jti claims),
     te_from_timestamp = (\<lambda>s. Some (duration_seconds s)),
     te_parse_list = sample_parse_list, te_list_json = sample_list_json, te_to_str = Some\<rparr>"

lemma sample_timestamps_ok: "timestamps_ok sample_env"
  by (simp add: timestamps_ok_def sample_env_def)

theorem revocation_within_a_minute_witness:
  "snd (verify sample_env ''k'' (revoke sample_env 5 ''tok-a'' ''lost'' ''alice'' 3600 []) (duration_seconds 70)
     ''tok-b'' blacklist_cache_new) = Inr (sample_claims ''tok-b'') \<and> tc_jti (sample_claims ''tok-b'') \<noteq> ''tok-a''"
proof -
  let ?tab = "revoke sample_env 5 ''tok-a'' ''lost'' ''alice'' 3600 []"
  have ok: "snd (verify sample_env ''k'' ?tab (duration_seconds 70) ''tok-b'' blacklist_cache_new) = Inr (sample_claims ''tok-b'')"
    by code_simp
  have "tc_jti (sample_claims ''tok-b'') \<noteq> ''tok-a''"
  proof (rule revocation_within_a_minute [of sample_env "''k''" "\<lambda>_. 3600" 0 0 "[]" blacklist_cache_new 5 "''tok-a''" 3600
        "''lost''" "''alice''" 5 ?tab blacklist_cache_new "duration_seconds 70"])
    show "snd (verify sample_env ''k'' ?tab (duration_seconds 70) ''tok-b'' blacklist_cache_new) = Inr (sample_claims ''tok-b'')"
      by (rule ok)
  qed (simp_all add: sample_timestamps_ok last_second_def duration_seconds_def)
  with ok show ?thesis by blast
qed

text \<open>
  Past its expiry a revoked token comes back: the sweep drops the row at the expiry, the verifier
  accepts the token for another minute of leeway.
\<close>

lemma revoked_token_revives:
  "let tab = revoke sample_env 5 ''tok-a'' ''lost'' ''alice'' 3600 [];
       later = duration_seconds 3610
   in snd (verify sample_env ''k'' tab later ''tok-a'' blacklist_cache_new) = Inl (Revoked ''tok-a'')
    \<and> snd (verify sample_env ''k'' (fst (purge_expired_revocations later tab)) later ''tok-a'' blacklist_cache_new)
        = Inr (sample_claims ''tok-a'')"
  by code_simp

end
