(* ===== verification/Mwe_Identity.thy ===== *)
theory Mwe_Identity
  imports Mwe_Tokens
begin

text \<open>
  Who a request speaks for: the delegations of \<open>crates/mwe-core/src/delegations.rs\<close>, the consumer
  registry of \<open>consumers.rs\<close>, the identity of \<open>crates/mwe-mcp-server/src/mcp/state.rs\<close> and the middleware
  of \<open>mcp/auth.rs\<close>. The stamp of the agent's wiki metadata is file I/O and not part of the state.
\<close>

section \<open>Delegations\<close>

record delegation_row =
  dg_consumer_id :: string
  dg_allowed_json :: string
  dg_granted_at :: int
  dg_granted_by :: string

type_synonym delegations = "delegation_row list"
type_synonym delegation_map = "string \<rightharpoonup> string set"

definition DELEGATION_REFRESH_INTERVAL :: int where
  "DELEGATION_REFRESH_INTERVAL = duration_seconds 60"

datatype delegation_error = MalformedAllowedList string

record delegation_cache =
  dc_map :: delegation_map
  dc_refreshed_at :: "int option"

definition delegation_cache_new :: delegation_cache where
  "delegation_cache_new = \<lparr>dc_map = Map.empty, dc_refreshed_at = None\<rparr>"

fun load_delegations :: "token_env \<Rightarrow> delegations \<Rightarrow> delegation_map \<Rightarrow> delegation_error + delegation_map" where
  "load_delegations env [] acc = Inr acc"
| "load_delegations env (r # rs) acc =
     (case te_parse_list env (dg_allowed_json r) of
        None \<Rightarrow> Inl (MalformedAllowedList (dg_consumer_id r))
      | Some allowed \<Rightarrow> load_delegations env rs (acc(dg_consumer_id r \<mapsto> set allowed)))"

definition delegation_refresh ::
  "token_env \<Rightarrow> delegations \<Rightarrow> int \<Rightarrow> delegation_cache \<Rightarrow> delegation_error + delegation_cache" where
  "delegation_refresh env rows now cache =
     (case load_delegations env rows Map.empty of
        Inl e \<Rightarrow> Inl e
      | Inr m \<Rightarrow> Inr (cache\<lparr>dc_map := m, dc_refreshed_at := Some now\<rparr>))"

definition delegation_access ::
  "token_env \<Rightarrow> delegations \<Rightarrow> int \<Rightarrow> delegation_cache \<Rightarrow> delegation_error + delegation_cache" where
  "delegation_access env rows now cache =
     (if needs_refresh DELEGATION_REFRESH_INTERVAL now (dc_refreshed_at cache)
      then delegation_refresh env rows now cache else Inr cache)"

definition delegated :: "delegation_map \<Rightarrow> string \<Rightarrow> string \<Rightarrow> bool" where
  "delegated m consumer_id sender_id \<longleftrightarrow> is_some_and (\<lambda>allowed. sender_id \<in> allowed) (m consumer_id)"

definition is_allowed ::
  "token_env \<Rightarrow> delegations \<Rightarrow> int \<Rightarrow> string \<Rightarrow> string \<Rightarrow> delegation_cache
    \<Rightarrow> delegation_cache \<times> (delegation_error + bool)" where
  "is_allowed env rows now consumer_id sender_id cache =
     (case delegation_access env rows now cache of
        Inl e \<Rightarrow> (cache, Inl e)
      | Inr cache' \<Rightarrow> (cache', Inr (delegated (dc_map cache') consumer_id sender_id)))"

definition delegation_upsert ::
  "token_env \<Rightarrow> int \<Rightarrow> string \<Rightarrow> string list \<Rightarrow> string \<Rightarrow> delegations \<Rightarrow> delegations" where
  "delegation_upsert env now consumer_id allowed granted_by rows =
     (let row = \<lparr>dg_consumer_id = consumer_id, dg_allowed_json = te_list_json env allowed,
                 dg_granted_at = now, dg_granted_by = granted_by\<rparr>
      in if consumer_id \<in> set (map dg_consumer_id rows)
         then map (\<lambda>r. if dg_consumer_id r = consumer_id then row else r) rows
         else rows @ [row])"

interpretation dl: ttl_cache dc_refreshed_at dc_map
  "\<lambda>rows. case load_delegations env rows Map.empty of Inl _ \<Rightarrow> None | Inr m \<Rightarrow> Some m"
  "\<lambda>rows now cache. case delegation_access env rows now cache of Inl _ \<Rightarrow> None | Inr c \<Rightarrow> Some c"
  DELEGATION_REFRESH_INTERVAL for env
  by unfold_locales
    (auto simp: delegation_access_def delegation_refresh_def needs_refresh_def split: option.splits sum.splits if_splits)

section \<open>The consumer registry\<close>

record consumer_row =
  cs_consumer_id :: string
  cs_display_name :: "string option"
  cs_callback_url :: "string option"
  cs_kinds_subscribed :: "string option"
  cs_metadata :: "string option"
  cs_consumer_secret :: string
  cs_registered_at :: int
  cs_system_user_id :: "string option"

record register_request =
  rq_consumer_id :: string
  rq_display_name :: "string option"
  rq_callback_url :: "string option"
  rq_kinds_json :: "string option"
  rq_metadata_json :: "string option"
  rq_system_user_id :: "string option"

record register_outcome =
  ro_fresh_registration :: bool
  ro_consumer_secret :: "string option"
  ro_registered_at :: int

type_synonym consumers = "consumer_row list"

definition find_consumer :: "consumers \<Rightarrow> string \<Rightarrow> consumer_row option" where
  "find_consumer tab cid = List.find (\<lambda>r. cs_consumer_id r = cid) tab"

text \<open>The random secret is an argument. \<open>sql_coalesce\<close> is SQL's \<open>COALESCE\<close> of two values.\<close>

definition sql_coalesce :: "'a option \<Rightarrow> 'a option \<Rightarrow> 'a option" where
  "sql_coalesce a b = (case a of None \<Rightarrow> b | Some _ \<Rightarrow> a)"

definition register :: "int \<Rightarrow> string \<Rightarrow> register_request \<Rightarrow> consumers \<Rightarrow> consumers \<times> register_outcome" where
  "register now secret req tab =
     (case find_consumer tab (rq_consumer_id req) of
        Some existing \<Rightarrow>
          (map (\<lambda>r. if cs_consumer_id r = rq_consumer_id req
                    then r\<lparr>cs_display_name := rq_display_name req, cs_callback_url := rq_callback_url req,
                           cs_kinds_subscribed := rq_kinds_json req, cs_metadata := rq_metadata_json req,
                           cs_system_user_id := sql_coalesce (rq_system_user_id req) (cs_system_user_id r)\<rparr>
                    else r) tab,
           \<lparr>ro_fresh_registration = False, ro_consumer_secret = None,
            ro_registered_at = cs_registered_at existing\<rparr>)
      | None \<Rightarrow>
          (tab @ [\<lparr>cs_consumer_id = rq_consumer_id req, cs_display_name = rq_display_name req,
                   cs_callback_url = rq_callback_url req, cs_kinds_subscribed = rq_kinds_json req,
                   cs_metadata = rq_metadata_json req, cs_consumer_secret = secret,
                   cs_registered_at = now, cs_system_user_id = rq_system_user_id req\<rparr>],
           \<lparr>ro_fresh_registration = True, ro_consumer_secret = Some secret, ro_registered_at = now\<rparr>))"

definition is_registered :: "consumers \<Rightarrow> string \<Rightarrow> bool" where
  "is_registered tab cid \<longleftrightarrow> 0 < length (filter (\<lambda>r. cs_consumer_id r = cid) tab)"

definition system_user_for :: "consumers \<Rightarrow> string \<Rightarrow> string option" where
  "system_user_for tab cid = (case find_consumer tab cid of None \<Rightarrow> None | Some r \<Rightarrow> cs_system_user_id r)"

text \<open>\<open>enrollment::mark_agent\<close> on the users' \<open>is_agent\<close> column.\<close>

definition mark_agent :: "string \<Rightarrow> (string \<times> bool) list \<Rightarrow> (string \<times> bool) list" where
  "mark_agent user users = map (\<lambda>(u, a). if u = user then (u, True) else (u, a)) users"

definition ensure_agent_identity ::
  "int \<Rightarrow> string \<Rightarrow> string \<Rightarrow> string \<Rightarrow> consumers \<times> (string \<times> bool) list \<Rightarrow> consumers \<times> (string \<times> bool) list" where
  "ensure_agent_identity now secret consumer_id system_user s =
     (case s of (tab, users) \<Rightarrow>
        if system_user_for tab consumer_id = Some system_user then s
        else (fst (register now secret
                \<lparr>rq_consumer_id = consumer_id, rq_display_name = None, rq_callback_url = None,
                 rq_kinds_json = None, rq_metadata_json = None, rq_system_user_id = Some system_user\<rparr> tab),
              mark_agent system_user users))"

section \<open>The identity of a request\<close>

record identity_profile =
  ip_sender_id :: string
  ip_token_sender_id :: string
  ip_device_label :: string
  ip_rate_limit_id :: string
  ip_token_jti :: string
  ip_consumer_id :: "string option"
  ip_token_is_admin :: bool
  ip_consumer_class :: consumer_class
  ip_profile :: consumer_profile

definition from_claims :: "token_claims \<Rightarrow> identity_profile" where
  "from_claims c =
     \<lparr>ip_sender_id = tc_sender_id c, ip_token_sender_id = tc_sender_id c, ip_device_label = tc_device_label c,
      ip_rate_limit_id = tc_rate_limit_id c, ip_token_jti = tc_jti c, ip_consumer_id = tc_consumer_id c,
      ip_token_is_admin = tc_is_admin c, ip_consumer_class = tc_consumer_class c, ip_profile = tc_profile c\<rparr>"

definition speaks_for_itself :: "identity_profile \<Rightarrow> bool" where
  "speaks_for_itself p \<longleftrightarrow> ip_token_sender_id p = ip_sender_id p"

definition is_admin :: "identity_profile \<Rightarrow> bool" where
  "is_admin p \<longleftrightarrow> ip_token_is_admin p \<and> speaks_for_itself p"

definition eq_ignore_ascii_case :: "string \<Rightarrow> string \<Rightarrow> bool" where
  "eq_ignore_ascii_case a b \<longleftrightarrow> map to_ascii_lower a = map to_ascii_lower b"

definition extract_bearer :: "token_env \<Rightarrow> string option \<Rightarrow> string option" where
  "extract_bearer env header =
     (case header of
        None \<Rightarrow> None
      | Some bytes \<Rightarrow>
          (case te_to_str env bytes of
             None \<Rightarrow> None
           | Some raw \<Rightarrow>
               (case split_once CHR '' '' raw of
                  None \<Rightarrow> None
                | Some (scheme, token) \<Rightarrow>
                    if eq_ignore_ascii_case scheme ''bearer'' then Some (trim token) else None)))"

datatype act_as_request = ActAsAbsent | ActAsMalformed | ActAsRequested string

definition resolve_act_as :: "token_env \<Rightarrow> string option \<Rightarrow> act_as_request" where
  "resolve_act_as env header =
     (case header of
        None \<Rightarrow> ActAsAbsent
      | Some raw \<Rightarrow>
          (case te_to_str env raw of
             None \<Rightarrow> ActAsMalformed
           | Some v \<Rightarrow> if trim v = [] then ActAsMalformed else ActAsRequested (trim v)))"

record mcp_state =
  ms_revocations :: revocations
  ms_blacklist :: blacklist_cache
  ms_delegations :: delegations
  ms_delegation_cache :: delegation_cache
  ms_consumers :: consumers
  ms_users :: "(string \<times> bool) list"

datatype auth_response =
    Unauthorized string
  | Forbidden string
  | InternalError string
  | Authenticated identity_profile

record http_request =
  hr_authorization :: "string option"
  hr_act_as :: "string option"

definition wire_agent :: "int \<Rightarrow> string \<Rightarrow> identity_profile \<Rightarrow> mcp_state \<Rightarrow> mcp_state" where
  "wire_agent now fresh p s =
     (case ip_consumer_id p of
        Some cid \<Rightarrow>
          if is_standard (ip_consumer_class p)
          then (case ensure_agent_identity now fresh cid (ip_sender_id p) (ms_consumers s, ms_users s) of
                  (cs, us) \<Rightarrow> s\<lparr>ms_consumers := cs, ms_users := us\<rparr>)
          else s
      | None \<Rightarrow> s)"

definition act_as :: "token_env \<Rightarrow> int \<Rightarrow> act_as_request \<Rightarrow> identity_profile \<Rightarrow> mcp_state \<Rightarrow> mcp_state \<times> auth_response" where
  "act_as env now request p s =
     (case request of
        ActAsAbsent \<Rightarrow> (s, Authenticated p)
      | ActAsMalformed \<Rightarrow> (s, Forbidden ''act_as_malformed'')
      | ActAsRequested target \<Rightarrow>
          if \<not> is_standard (ip_consumer_class p) then (s, Forbidden ''act_as_requires_standard'')
          else (case ip_consumer_id p of
                  None \<Rightarrow> (s, Forbidden ''act_as_requires_consumer'')
                | Some cid \<Rightarrow>
                    (case is_allowed env (ms_delegations s) now cid target (ms_delegation_cache s) of
                       (cache, Inl _) \<Rightarrow> (s\<lparr>ms_delegation_cache := cache\<rparr>, InternalError ''delegation_lookup_failed'')
                     | (cache, Inr allowed) \<Rightarrow>
                         (s\<lparr>ms_delegation_cache := cache\<rparr>,
                          if \<not> allowed then Forbidden ''act_as_not_delegated''
                          else Authenticated (p\<lparr>ip_sender_id := target\<rparr>)))))"

definition jwt_auth_middleware ::
  "token_env \<Rightarrow> string \<Rightarrow> int \<Rightarrow> string \<Rightarrow> http_request \<Rightarrow> mcp_state \<Rightarrow> mcp_state \<times> auth_response" where
  "jwt_auth_middleware env secret now fresh req s =
     (case extract_bearer env (hr_authorization req) of
        None \<Rightarrow> (s, Unauthorized ''missing_bearer'')
      | Some token \<Rightarrow>
          (case verify env secret (ms_revocations s) now token (ms_blacklist s) of
             (bl, Inl (Revoked _)) \<Rightarrow> (s\<lparr>ms_blacklist := bl\<rparr>, Unauthorized ''token_revoked'')
           | (bl, Inl _) \<Rightarrow> (s\<lparr>ms_blacklist := bl\<rparr>, Unauthorized ''invalid_token'')
           | (bl, Inr claims) \<Rightarrow>
               act_as env now (resolve_act_as env (hr_act_as req)) (from_claims claims)
                 (wire_agent now fresh (from_claims claims) (s\<lparr>ms_blacklist := bl\<rparr>))))"

section \<open>Nobody is spoken for without a delegation\<close>

lemma act_as_cases:
  assumes "act_as env now request p s = (s', Authenticated q)"
  obtains (own) "q = p"
  | (other) cid target where "q = p\<lparr>ip_sender_id := target\<rparr>" "is_standard (ip_consumer_class p)" "ip_consumer_id p = Some cid"
      "is_allowed env (ms_delegations s) now cid target (ms_delegation_cache s) = (ms_delegation_cache s', Inr True)"
  using assms by (auto simp: act_as_def split: act_as_request.splits if_splits option.splits prod.splits sum.splits)

lemma is_allowed_True:
  "is_allowed env rows now cid u cache = (cache', Inr True) \<Longrightarrow>
     delegation_access env rows now cache = Inr cache' \<and> delegated (dc_map cache') cid u"
  by (auto simp: is_allowed_def split: sum.splits)

lemma middleware_Authenticated:
  assumes "jwt_auth_middleware env secret now fresh req s = (s', Authenticated p)"
  obtains token bl claims where "extract_bearer env (hr_authorization req) = Some token"
    "verify env secret (ms_revocations s) now token (ms_blacklist s) = (bl, Inr claims)"
    "act_as env now (resolve_act_as env (hr_act_as req)) (from_claims claims)
       (wire_agent now fresh (from_claims claims) (s\<lparr>ms_blacklist := bl\<rparr>)) = (s', Authenticated p)"
  using assms by (auto simp: jwt_auth_middleware_def split: option.splits prod.splits sum.splits token_error.splits)

lemma wire_agent_frame [simp]:
  "ms_delegations (wire_agent now fresh p s) = ms_delegations s"
  "ms_delegation_cache (wire_agent now fresh p s) = ms_delegation_cache s"
  "ms_revocations (wire_agent now fresh p s) = ms_revocations s"
  by (simp_all add: wire_agent_def split: option.splits prod.splits)

text \<open>
  C10: nobody is spoken for without a delegation. A request the middleware lets through carries the
  identity of a token that verified; its effective sender is the token's own, or another person whom the
  delegation snapshot in use grants to that token's consumer. Only a standard consumer can speak for
  another, and no request that does carries the administrator's role, whatever the token says.
\<close>

theorem acting_for_needs_delegation:
  assumes "jwt_auth_middleware env secret now fresh req s = (s', Authenticated p)"
  shows "\<exists>token claims.
      extract_bearer env (hr_authorization req) = Some token
    \<and> snd (verify env secret (ms_revocations s) now token (ms_blacklist s)) = Inr claims
    \<and> p = (from_claims claims)\<lparr>ip_sender_id := ip_sender_id p\<rparr>
    \<and> (ip_sender_id p = tc_sender_id claims
       \<or> tc_consumer_class claims = Standard \<and> \<not> is_admin p
         \<and> (\<exists>cid. tc_consumer_id claims = Some cid \<and> delegated (dc_map (ms_delegation_cache s')) cid (ip_sender_id p)))"
proof -
  obtain token bl claims where token: "extract_bearer env (hr_authorization req) = Some token"
    and claims: "verify env secret (ms_revocations s) now token (ms_blacklist s) = (bl, Inr claims)"
    and act: "act_as env now (resolve_act_as env (hr_act_as req)) (from_claims claims)
       (wire_agent now fresh (from_claims claims) (s\<lparr>ms_blacklist := bl\<rparr>)) = (s', Authenticated p)"
    using assms by (rule middleware_Authenticated)
  from act have "p = (from_claims claims)\<lparr>ip_sender_id := ip_sender_id p\<rparr> \<and> (ip_sender_id p = tc_sender_id claims
       \<or> tc_consumer_class claims = Standard \<and> \<not> is_admin p
         \<and> (\<exists>cid. tc_consumer_id claims = Some cid \<and> delegated (dc_map (ms_delegation_cache s')) cid (ip_sender_id p)))"
  proof (cases rule: act_as_cases)
    case own
    then show ?thesis by (simp add: from_claims_def)
  next
    case (other cid target)
    then show ?thesis
      using is_allowed_True by (auto simp: from_claims_def is_admin_def speaks_for_itself_def is_standard_def)
  qed
  with token claims show ?thesis by auto
qed

section \<open>A withdrawn delegation ends within a minute\<close>

datatype mcp_op =
    McpDelegate string "string list" string
  | McpReloadDelegations
  | McpRequest string http_request

fun run_mcp_op :: "token_env \<Rightarrow> string \<Rightarrow> int \<Rightarrow> mcp_op \<Rightarrow> mcp_state \<Rightarrow> mcp_state" where
  "run_mcp_op env secret now (McpDelegate cid allowed admin) s =
     s\<lparr>ms_delegations := delegation_upsert env now cid allowed admin (ms_delegations s)\<rparr>"
| "run_mcp_op env secret now McpReloadDelegations s =
     (case delegation_refresh env (ms_delegations s) now (ms_delegation_cache s) of
        Inl _ \<Rightarrow> s | Inr cache \<Rightarrow> s\<lparr>ms_delegation_cache := cache\<rparr>)"
| "run_mcp_op env secret now (McpRequest fresh req) s = fst (jwt_auth_middleware env secret now fresh req s)"

fun grants :: "string \<Rightarrow> string \<Rightarrow> mcp_op \<Rightarrow> bool" where
  "grants cid user (McpDelegate c allowed _) = (c = cid \<and> user \<in> set allowed)"
| "grants cid user _ = False"

inductive mcp_step ::
  "token_env \<Rightarrow> string \<Rightarrow> (mcp_op \<Rightarrow> bool) \<Rightarrow> int \<times> mcp_state \<Rightarrow> int \<times> mcp_state \<Rightarrow> bool" for env secret permitted where
  mcp_step_op: "clock \<le> now \<Longrightarrow> permitted op \<Longrightarrow> mcp_step env secret permitted (clock, s) (now, run_mcp_op env secret now op s)"

definition json_lists_ok :: "token_env \<Rightarrow> bool" where
  "json_lists_ok env \<longleftrightarrow> (\<forall>xs. te_parse_list env (te_list_json env xs) = Some xs)"

definition row_withholds :: "token_env \<Rightarrow> string \<Rightarrow> string \<Rightarrow> delegation_row \<Rightarrow> bool" where
  "row_withholds env cid user row \<longleftrightarrow>
     (dg_consumer_id row = cid \<longrightarrow> (\<forall>xs. te_parse_list env (dg_allowed_json row) = Some xs \<longrightarrow> user \<notin> set xs))"

definition withheld_since :: "token_env \<Rightarrow> string \<Rightarrow> string \<Rightarrow> int \<Rightarrow> int \<times> mcp_state \<Rightarrow> bool" where
  "withheld_since env cid user r s \<longleftrightarrow>
     (\<forall>row \<in> set (ms_delegations (snd s)). row_withholds env cid user row)
     \<and> dl.settled r (\<lambda>m. \<not> delegated m cid user) (fst s) (ms_delegation_cache (snd s))"

lemma load_withholds:
  assumes "load_delegations env rows acc = Inr m" "\<forall>row \<in> set rows. row_withholds env cid user row" "\<not> delegated acc cid user"
  shows "\<not> delegated m cid user"
  using assms
  by (induction env rows acc rule: load_delegations.induct)
    (auto simp: row_withholds_def delegated_def split: option.splits)

lemma middleware_delegations:
  "ms_delegations (fst (jwt_auth_middleware env secret now fresh req s)) = ms_delegations s"
  "ms_delegation_cache (fst (jwt_auth_middleware env secret now fresh req s)) = ms_delegation_cache s \<or>
   delegation_access env (ms_delegations s) now (ms_delegation_cache s) =
     Inr (ms_delegation_cache (fst (jwt_auth_middleware env secret now fresh req s)))"
  by (auto simp: jwt_auth_middleware_def act_as_def is_allowed_def
      split: option.splits prod.splits sum.splits token_error.splits act_as_request.splits)

lemma withheld_load:
  assumes "withheld_since env cid user r (clock, s)"
  shows "\<forall>v. (case load_delegations env (ms_delegations s) Map.empty of Inl _ \<Rightarrow> None | Inr m \<Rightarrow> Some m) = Some v \<longrightarrow> \<not> delegated v cid user"
  using assms load_withholds [of env "ms_delegations s" Map.empty]
  by (auto simp: withheld_since_def delegated_def split: sum.splits)

lemma withheld_cache:
  assumes "withheld_since env cid user r (clock, s)" "clock \<le> now"
    and "delegation_access env (ms_delegations s) now (ms_delegation_cache s) = Inr cache'"
  shows "dl.settled r (\<lambda>m. \<not> delegated m cid user) now cache'"
  using assms dl.access_settled [of r _ clock "ms_delegation_cache s" now env "ms_delegations s" cache'] withheld_load [OF assms(1)]
  by (simp add: withheld_since_def)

lemma delegation_upsert_row:
  "row \<in> set (delegation_upsert env now cid allowed admin rows) \<Longrightarrow>
     row \<in> set rows \<and> dg_consumer_id row \<noteq> cid \<or> dg_consumer_id row = cid \<and> dg_allowed_json row = te_list_json env allowed"
  by (auto simp: delegation_upsert_def Let_def split: if_splits)

lemma withheld_step:
  assumes "withheld_since env cid user r s" "mcp_step env secret (\<lambda>op. \<not> grants cid user op) s s'" "json_lists_ok env"
  shows "withheld_since env cid user r s'"
  using assms(2)
proof cases
  case (mcp_step_op clock now op st)
  note inv = assms(1) [unfolded mcp_step_op(1)]
  have later: "dl.settled r (\<lambda>m. \<not> delegated m cid user) now (ms_delegation_cache st)"
    using inv dl.settled_later mcp_step_op(3) by (fastforce simp: withheld_since_def)
  show ?thesis
  proof (cases op)
    case (McpDelegate c allowed admin)
    have "row_withholds env cid user row" if "row \<in> set (delegation_upsert env now c allowed admin (ms_delegations st))" for row
      using delegation_upsert_row [OF that] inv mcp_step_op(4) assms(3) McpDelegate
      by (auto simp: withheld_since_def row_withholds_def json_lists_ok_def)
    then show ?thesis
      using later McpDelegate unfolding mcp_step_op(2) by (simp add: withheld_since_def)
  next
    case McpReloadDelegations
    have "dl.settled r (\<lambda>m. \<not> delegated m cid user) now c"
      if "delegation_refresh env (ms_delegations st) now (ms_delegation_cache st) = Inr c" for c
      using that withheld_load [OF inv] by (auto simp: delegation_refresh_def dl.settled_def split: sum.splits)
    then show ?thesis
      using inv later McpReloadDelegations unfolding mcp_step_op(2)
      by (auto simp: withheld_since_def split: sum.splits)
  next
    case (McpRequest fresh req)
    then show ?thesis
      using inv later withheld_cache [OF inv mcp_step_op(3)] middleware_delegations [of env secret now fresh req st]
      unfolding mcp_step_op(2) by (auto simp: withheld_since_def)
  qed
qed

lemma withheld_run:
  assumes "rtranclp (mcp_step env secret (\<lambda>op. \<not> grants cid user op)) s s'" "withheld_since env cid user r s" "json_lists_ok env"
  shows "withheld_since env cid user r s'"
  using assms by (induction rule: rtranclp_induct) (auto intro: withheld_step)

definition delegation_clock_ok :: "int \<times> mcp_state \<Rightarrow> bool" where
  "delegation_clock_ok s \<longleftrightarrow> (\<forall>t. dc_refreshed_at (ms_delegation_cache (snd s)) = Some t \<longrightarrow> t \<le> fst s)"

lemma access_refreshed:
  "delegation_access env rows now c = Inr c' \<Longrightarrow> dc_refreshed_at c' \<in> {dc_refreshed_at c, Some now}"
  by (auto simp: delegation_access_def delegation_refresh_def split: if_splits sum.splits)

lemma delegation_clock_step:
  assumes "delegation_clock_ok s" "mcp_step env secret permitted s s'"
  shows "delegation_clock_ok s'"
  using assms(2)
proof cases
  case (mcp_step_op clock now op st)
  have "dc_refreshed_at (ms_delegation_cache (run_mcp_op env secret now op st)) \<in>
      {dc_refreshed_at (ms_delegation_cache st), Some now}"
  proof (cases op)
    case (McpRequest fresh req)
    then show ?thesis
      using middleware_delegations(2) [of env secret now fresh req st] access_refreshed by fastforce
  qed (auto simp: delegation_refresh_def split: sum.splits)
  then show ?thesis
    using assms(1) mcp_step_op(3) unfolding mcp_step_op(1,2) by (auto simp: delegation_clock_ok_def)
qed

interpretation mcp_run: stepping "mcp_step env secret permitted" delegation_clock_ok for env secret permitted
  by unfold_locales (rule delegation_clock_step)

lemma withdraw_withheld:
  assumes "delegation_clock_ok (clock, s)" "clock \<le> r" "user \<notin> set allowed" "json_lists_ok env"
  shows "withheld_since env cid user r (r, run_mcp_op env secret r (McpDelegate cid allowed admin) s)"
proof -
  have "row_withholds env cid user row" if "row \<in> set (delegation_upsert env r cid allowed admin (ms_delegations s))" for row
    using delegation_upsert_row [OF that] assms(3,4) by (auto simp: row_withholds_def json_lists_ok_def)
  moreover have "dl.settled r (\<lambda>m. \<not> delegated m cid user) r (ms_delegation_cache s)"
    using assms(1,2) by (force simp: delegation_clock_ok_def dl.settled_def)
  ultimately show ?thesis by (simp add: withheld_since_def)
qed

text \<open>
  C31: a withdrawn delegation ends within a minute. Once an administrator has saved a list of persons
  for a consumer that leaves somebody out, and as long as nobody is put back in, no request of that
  consumer from sixty seconds later on speaks for that person (the token's own person apart), whatever
  requests and reloads happened in between.
\<close>

theorem withdrawn_delegation_ends:
  assumes "rtranclp (mcp_step env secret (\<lambda>_. True)) (t0, s0) (c1, s1)"
    and "dc_refreshed_at (ms_delegation_cache s0) = None" "c1 \<le> r"
    and "json_lists_ok env" "user \<notin> set allowed"
    and "rtranclp (mcp_step env secret (\<lambda>op. \<not> grants cid user op))
           (r, run_mcp_op env secret r (McpDelegate cid allowed admin) s1) (c, s)"
    and "c \<le> now" "r + duration_seconds 60 \<le> now"
    and "snd (jwt_auth_middleware env secret now fresh req s) = Authenticated p"
    and "ip_consumer_id p = Some cid" "ip_sender_id p = user"
  shows "ip_token_sender_id p = user"
proof -
  have "delegation_clock_ok (c1, s1)"
    using mcp_run.reachable_keeps [OF assms(1)] assms(2) by (simp add: delegation_clock_ok_def)
  then have "withheld_since env cid user r (r, run_mcp_op env secret r (McpDelegate cid allowed admin) s1)"
    using assms(3,5,4) by (rule withdraw_withheld)
  then have inv: "withheld_since env cid user r (c, s)"
    using withheld_run [OF assms(6)] assms(4) by simp
  obtain s' where "jwt_auth_middleware env secret now fresh req s = (s', Authenticated p)"
    using assms(9) by (metis prod.collapse)
  then obtain bl claims where
    "act_as env now (resolve_act_as env (hr_act_as req)) (from_claims claims)
       (wire_agent now fresh (from_claims claims) (s\<lparr>ms_blacklist := bl\<rparr>)) = (s', Authenticated p)"
    by (rule middleware_Authenticated)
  then show ?thesis
  proof (cases rule: act_as_cases)
    case own
    then show ?thesis using assms(11) by (simp add: from_claims_def)
  next
    case (other cid' target)
    then have cid: "cid' = cid" "target = user" using assms(10,11) by simp_all
    with other(4) have access: "delegation_access env (ms_delegations s) now (ms_delegation_cache s) = Inr (ms_delegation_cache s')"
      and yes: "delegated (dc_map (ms_delegation_cache s')) cid user"
      using is_allowed_True by fastforce+
    have "\<not> delegated (dc_map (ms_delegation_cache s')) cid user"
      using dl.access_late [of r "\<lambda>m. \<not> delegated m cid user" c "ms_delegation_cache s" now env "ms_delegations s"]
        inv assms(7,8) access withheld_load [OF inv]
      by (simp add: withheld_since_def DELEGATION_REFRESH_INTERVAL_def duration_seconds_def)
    with yes show ?thesis by contradiction
  qed
qed

section \<open>Registration\<close>

text \<open>
  Registering again never changes the secret, the registration time or an existing binding to a system
  user, and never hands the secret out a second time.
\<close>

lemma register_keeps_identity:
  assumes "find_consumer tab cid = Some r"
  shows "\<exists>r'. find_consumer (fst (register now secret req tab)) cid = Some r'
    \<and> cs_consumer_secret r' = cs_consumer_secret r \<and> cs_registered_at r' = cs_registered_at r
    \<and> (rq_system_user_id req = None \<longrightarrow> cs_system_user_id r' = cs_system_user_id r)"
    and "rq_consumer_id req = cid \<Longrightarrow> ro_consumer_secret (snd (register now secret req tab)) = None"
proof -
  have *: "find_consumer (map f tab) cid = map_option f (find_consumer tab cid)"
    if "\<And>q. cs_consumer_id (f q) = cs_consumer_id q" for f
    unfolding find_consumer_def by (induction tab) (simp_all add: that)
  have "find_consumer (tab @ xs) cid = Some r" for xs
    using assms unfolding find_consumer_def by (induction tab) (auto split: if_splits)
  then show "\<exists>r'. find_consumer (fst (register now secret req tab)) cid = Some r'
    \<and> cs_consumer_secret r' = cs_consumer_secret r \<and> cs_registered_at r' = cs_registered_at r
    \<and> (rq_system_user_id req = None \<longrightarrow> cs_system_user_id r' = cs_system_user_id r)"
    using assms by (auto simp: register_def * sql_coalesce_def split: option.splits)
  show "rq_consumer_id req = cid \<Longrightarrow> ro_consumer_secret (snd (register now secret req tab)) = None"
    using assms by (auto simp: register_def)
qed

section \<open>A concrete server\<close>

definition sample_server :: mcp_state where
  "sample_server = \<lparr>ms_revocations = [], ms_blacklist = blacklist_cache_new,
     ms_delegations = delegation_upsert sample_env 0 ''bot'' [''bob'', ''carol''] ''alice'' [],
     ms_delegation_cache = delegation_cache_new, ms_consumers = [], ms_users = [(''alice'', False)]\<rparr>"

definition bot_request :: "string \<Rightarrow> http_request" where
  "bot_request user = \<lparr>hr_authorization = Some ''Bearer tok-a'', hr_act_as = Some user\<rparr>"

theorem acting_for_needs_delegation_witness:
  "\<exists>cid. tc_consumer_id (sample_claims ''tok-a'') = Some cid
    \<and> delegated (dc_map (ms_delegation_cache (fst (jwt_auth_middleware sample_env ''k'' 7 ''fresh'' (bot_request ''bob'') sample_server)))) cid ''bob''"
proof -
  let ?r = "jwt_auth_middleware sample_env ''k'' 7 ''fresh'' (bot_request ''bob'') sample_server"
    and ?p = "(from_claims (sample_claims ''tok-a''))\<lparr>ip_sender_id := ''bob''\<rparr>"
  have "snd ?r = Authenticated ?p"
    by code_simp
  then have r: "?r = (fst ?r, Authenticated ?p)"
    by (metis prod.collapse)
  have "extract_bearer sample_env (hr_authorization (bot_request ''bob'')) = Some ''tok-a''"
    "snd (verify sample_env ''k'' (ms_revocations sample_server) 7 ''tok-a'' (ms_blacklist sample_server)) = Inr (sample_claims ''tok-a'')"
    "tc_sender_id (sample_claims ''tok-a'') = ''alice''"
    by code_simp+
  with acting_for_needs_delegation [OF r] show ?thesis by auto
qed

lemma sample_lists_ok: "json_lists_ok sample_env"
  by (simp add: json_lists_ok_def sample_env_def)

theorem withdrawn_delegation_ends_witness:
  "let s = run_mcp_op sample_env ''k'' 5 (McpDelegate ''bot'' [''alice''] ''root'') sample_server;
       out = jwt_auth_middleware sample_env ''k'' (duration_seconds 70) ''fresh'' (bot_request ''alice'') s
   in snd out = Authenticated (from_claims (sample_claims ''tok-a''))
    \<and> ip_token_sender_id (from_claims (sample_claims ''tok-a'')) = ''alice''"
proof -
  let ?s = "run_mcp_op sample_env ''k'' 5 (McpDelegate ''bot'' [] ''root'') sample_server"
    and ?t = "run_mcp_op sample_env ''k'' 5 (McpDelegate ''bot'' [''alice''] ''root'') sample_server"
    and ?req = "\<lparr>hr_authorization = Some ''Bearer tok-a'', hr_act_as = None\<rparr>"
    and ?p = "from_claims (sample_claims ''tok-a'')"
  have "ip_token_sender_id ?p = ''alice''"
  proof (rule withdrawn_delegation_ends [of sample_env "''k''" 0 sample_server 0 sample_server 5 "''alice''" "[]" "''bot''"
        "''root''" 5 ?s "duration_seconds 70" "''fresh''" ?req])
    show "snd (jwt_auth_middleware sample_env ''k'' (duration_seconds 70) ''fresh'' ?req ?s) = Authenticated ?p"
      "ip_consumer_id ?p = Some ''bot''" "ip_sender_id ?p = ''alice''"
      by code_simp+
  qed (simp_all add: sample_lists_ok sample_server_def delegation_cache_new_def duration_seconds_def)
  moreover have "snd (jwt_auth_middleware sample_env ''k'' (duration_seconds 70) ''fresh'' (bot_request ''alice'') ?t) = Authenticated ?p"
    by code_simp
  ultimately show ?thesis by simp
qed

end
