(* ===== verification/Mwe_RateLimit.thy ===== *)
theory Mwe_RateLimit
  imports Mwe_Types "HOL-Library.Word"
begin

text \<open>
  The two in-memory rate limiters: the per-token ceilings of the tool surface
  (\<open>crates/mwe-mcp-server/src/mcp/ratelimit.rs\<close>, with the profiles of
  \<open>crates/mwe-core/src/config.rs\<close>) and the fixed window of the dashboard
  (\<open>crates/mwe-dashboard/src/ratelimit.rs\<close>).

  An \<open>Instant\<close> and a \<open>Duration\<close> are nanoseconds as naturals, so \<open>duration_since\<close> and \<open>saturating_sub\<close>
  are the truncated subtraction. Counters keep their width: \<open>count += 1\<close> wraps in a release build.
  A call made under the lock is one transition of the map of buckets.
\<close>

section \<open>Profiles\<close>

record rate_limit_profile =
  calls_per_minute :: "32 word"
  calls_per_hour :: "32 word"
  model_calls_per_minute :: "32 word"
  model_calls_per_hour :: "32 word"

definition default_profile :: rate_limit_profile where
  "default_profile = \<lparr>calls_per_minute = 120, calls_per_hour = 3000,
     model_calls_per_minute = 30, model_calls_per_hour = 600\<rparr>"

definition dashboard_profile :: rate_limit_profile where
  "dashboard_profile = \<lparr>calls_per_minute = 600, calls_per_hour = 15000,
     model_calls_per_minute = 120, model_calls_per_hour = 2400\<rparr>"

type_synonym rate_limits_config = "string \<rightharpoonup> rate_limit_profile"

definition config_profile :: "rate_limits_config \<Rightarrow> string \<Rightarrow> rate_limit_profile" where
  "config_profile profiles rate_limit_id =
     (case profiles rate_limit_id of
        Some p \<Rightarrow> p
      | None \<Rightarrow>
          if rate_limit_id = ''dashboard'' then dashboard_profile
          else (case profiles ''default'' of Some p \<Rightarrow> p | None \<Rightarrow> default_profile))"

section \<open>One window\<close>

definition from_secs :: "nat \<Rightarrow> nat" where
  "from_secs s = s * 1000000000"

definition as_secs :: "nat \<Rightarrow> nat" where
  "as_secs d = d div 1000000000"

definition MINUTE :: nat where
  "MINUTE = from_secs 60"

definition HOUR :: nat where
  "HOUR = from_secs (60 * 60)"

definition PRUNE_AFTER :: nat where
  "PRUNE_AFTER = from_secs (2 * 60 * 60)"

record window =
  win_start :: nat
  win_count :: "32 word"

definition window_new :: "nat \<Rightarrow> window" where
  "window_new now = \<lparr>win_start = now, win_count = 0\<rparr>"

definition window_hit :: "nat \<Rightarrow> nat \<Rightarrow> window \<Rightarrow> window \<times> 32 word" where
  "window_hit now len w =
     (let w1 = (if len \<le> now - win_start w then w\<lparr>win_start := now, win_count := 0\<rparr> else w);
          w2 = w1\<lparr>win_count := win_count w1 + 1\<rparr>
      in (w2, win_count w2))"

definition retry_after :: "nat \<Rightarrow> nat \<Rightarrow> window \<Rightarrow> nat" where
  "retry_after now len w = (let elapsed = now - win_start w; left = len - elapsed in max (as_secs left) 1)"

section \<open>The limiter of the tool surface\<close>

datatype ceiling = CallsPerMinute | CallsPerHour | ModelCallsPerMinute | ModelCallsPerHour

fun ceiling_key :: "ceiling \<Rightarrow> string" where
  "ceiling_key CallsPerMinute = ''calls_per_minute''"
| "ceiling_key CallsPerHour = ''calls_per_hour''"
| "ceiling_key ModelCallsPerMinute = ''model_calls_per_minute''"
| "ceiling_key ModelCallsPerHour = ''model_calls_per_hour''"

record refusal =
  rf_ceiling :: ceiling
  rf_limit :: "32 word"
  rf_retry_after_secs :: nat

record buckets =
  bk_calls_minute :: window
  bk_calls_hour :: window
  bk_model_minute :: window
  bk_model_hour :: window
  bk_last_seen :: nat

definition buckets_new :: "nat \<Rightarrow> buckets" where
  "buckets_new now = \<lparr>bk_calls_minute = window_new now, bk_calls_hour = window_new now,
     bk_model_minute = window_new now, bk_model_hour = window_new now, bk_last_seen = now\<rparr>"

type_synonym limiter = "string \<rightharpoonup> buckets"

definition retained :: "nat \<Rightarrow> buckets option \<Rightarrow> buckets option" where
  "retained now ob =
     (case ob of None \<Rightarrow> None | Some b \<Rightarrow> if now - bk_last_seen b < PRUNE_AFTER then Some b else None)"

definition retain :: "nat \<Rightarrow> limiter \<Rightarrow> limiter" where
  "retain now m = (\<lambda>k. retained now (m k))"

definition or_insert_new :: "nat \<Rightarrow> buckets option \<Rightarrow> buckets" where
  "or_insert_new now ob = (case ob of Some b \<Rightarrow> b | None \<Rightarrow> buckets_new now)"

definition find_refusal :: "(bool \<times> ceiling \<times> 32 word \<times> nat) list \<Rightarrow> refusal option" where
  "find_refusal over =
     (case List.find fst over of
        None \<Rightarrow> None
      | Some (_, c, lim, secs) \<Rightarrow> Some \<lparr>rf_ceiling = c, rf_limit = lim, rf_retry_after_secs = secs\<rparr>)"

definition check_bucket ::
  "rate_limit_profile \<Rightarrow> nat \<Rightarrow> bool \<Rightarrow> buckets \<Rightarrow> buckets \<times> refusal option" where
  "check_bucket limits now spends_model b =
     (let (w_cm, calls_minute) = window_hit now MINUTE (bk_calls_minute b);
          (w_ch, calls_hour) = window_hit now HOUR (bk_calls_hour b);
          (w_mm, model_minute) = (if spends_model then window_hit now MINUTE (bk_model_minute b)
                                  else (bk_model_minute b, 0));
          (w_mh, model_hour) = (if spends_model then window_hit now HOUR (bk_model_hour b)
                                else (bk_model_hour b, 0))
      in (\<lparr>bk_calls_minute = w_cm, bk_calls_hour = w_ch, bk_model_minute = w_mm, bk_model_hour = w_mh,
           bk_last_seen = bk_last_seen b\<rparr>,
          find_refusal
            [(spends_model \<and> model_minute > model_calls_per_minute limits, ModelCallsPerMinute,
              model_calls_per_minute limits, retry_after now MINUTE w_mm),
             (calls_minute > calls_per_minute limits, CallsPerMinute,
              calls_per_minute limits, retry_after now MINUTE w_cm),
             (spends_model \<and> model_hour > model_calls_per_hour limits, ModelCallsPerHour,
              model_calls_per_hour limits, retry_after now HOUR w_mh),
             (calls_hour > calls_per_hour limits, CallsPerHour,
              calls_per_hour limits, retry_after now HOUR w_ch)]))"

definition bucket_key :: "string \<Rightarrow> string \<Rightarrow> string" where
  "bucket_key rate_limit_id token = rate_limit_id @ [char_of (0x1f :: nat)] @ token"

definition check_at ::
  "rate_limits_config \<Rightarrow> nat \<Rightarrow> string \<Rightarrow> string \<Rightarrow> bool \<Rightarrow> limiter \<Rightarrow> limiter \<times> (refusal + unit)" where
  "check_at config now token rate_limit_id spends_model m =
     (let limits = config_profile config rate_limit_id;
          key = bucket_key rate_limit_id token;
          guard = retain now m;
          bucket = (or_insert_new now (guard key))\<lparr>bk_last_seen := now\<rparr>;
          (bucket', over) = check_bucket limits now spends_model bucket
      in (guard(key \<mapsto> bucket'), case over of None \<Rightarrow> Inr () | Some r \<Rightarrow> Inl r))"

section \<open>The limiter of the dashboard\<close>

definition DASH_PRUNE_AFTER :: nat where
  "DASH_PRUNE_AFTER = from_secs 3600"

definition dash_check ::
  "nat \<Rightarrow> string \<Rightarrow> 32 word \<Rightarrow> nat \<Rightarrow> (string \<rightharpoonup> window) \<Rightarrow> (string \<rightharpoonup> window) \<times> bool" where
  "dash_check now key max_hits win_len m =
     (let g = (\<lambda>k. case m k of
                     None \<Rightarrow> None
                   | Some w \<Rightarrow> if now - win_start w \<le> DASH_PRUNE_AFTER then Some w else None);
          w = (case g key of Some w \<Rightarrow> w | None \<Rightarrow> window_new now);
          w1 = (if now - win_start w > win_len then w\<lparr>win_start := now, win_count := 0\<rparr> else w);
          w2 = w1\<lparr>win_count := win_count w1 + 1\<rparr>;
          allowed = (win_count w2 \<le> max_hits)
      in (g(key \<mapsto> w2), allowed))"

section \<open>Counting what one window admits\<close>

text \<open>
  Fix a stretch of time \<open>[a, a + len)\<close> and a limit. \<open>metered\<close> relates a window (or its absence) at clock
  \<open>t\<close> to the number \<open>N\<close> of counted calls it admitted inside the stretch and the number \<open>n\<close> of calls so
  far: a window that began before the stretch admitted at most its count, one that began inside it at
  most the limit more. The stretch is too short for a second roll-over.
\<close>

definition metered :: "nat \<Rightarrow> nat \<Rightarrow> nat \<Rightarrow> nat \<Rightarrow> nat \<Rightarrow> nat \<Rightarrow> window option \<Rightarrow> bool" where
  "metered a len lim t N n wo \<longleftrightarrow> N \<le> 2 * lim \<and> (t < a \<longrightarrow> N = 0) \<and>
     (case wo of
        None \<Rightarrow> t < a + len \<longrightarrow> N \<le> lim
      | Some w \<Rightarrow> win_start w \<le> t \<and> unat (win_count w) \<le> n \<and>
          (t < a + len \<longrightarrow> N \<le> (if win_start w < a then 0 else lim) + min (unat (win_count w)) lim))"

lemma metered_init [simp]: "metered a len lim t 0 n None"
  by (simp add: metered_def)

lemma metered_tick: "metered a len lim t N n wo \<Longrightarrow> t \<le> now \<Longrightarrow> n \<le> n' \<Longrightarrow> metered a len lim now N n' wo"
  by (auto simp: metered_def split: option.splits)

lemma metered_drop:
  "metered a len lim now N n (Some w) \<Longrightarrow> win_start w + len \<le> now \<Longrightarrow> metered a len lim now N n None"
  by (auto simp: metered_def)

lemma metered_new: "metered a len lim now N n None \<Longrightarrow> metered a len lim now N n (Some (window_new now))"
  by (auto simp: metered_def window_new_def)

lemma unat_suc: "Suc n < 2 ^ 32 \<Longrightarrow> unat (c :: 32 word) \<le> n \<Longrightarrow> unat (c + 1) = Suc (unat c)"
  using unat_add_lem [of c 1] by simp

lemma metered_hit:
  assumes m: "metered a len lim now N n (Some w)" and n: "Suc n < 2 ^ 32" and len: "0 < len"
    and d: "d = (if P \<and> a \<le> now \<and> now < a + len \<and> unat (snd (window_hit now len w)) \<le> lim then 1 else 0)"
  shows "metered a len lim now (N + d) (Suc n) (Some (fst (window_hit now len w)))"
proof (cases "len \<le> now - win_start w")
  case True
  then have "win_start w < a" if "now < a + len"
    using len that by linarith
  then have "N \<le> lim" if "now < a + len"
    using m that by (simp add: metered_def)
  then show ?thesis
    using m d True by (auto simp: metered_def window_hit_def Let_def)
next
  case False
  have "unat (win_count w) \<le> n"
    using m by (simp add: metered_def)
  then have "unat (win_count w + 1) = Suc (unat (win_count w))"
    using n by (simp add: unat_suc)
  then show ?thesis
    using m d False by (auto simp: metered_def window_hit_def Let_def)
qed

section \<open>Runs of the limiter\<close>

record tool_call =
  tc_now :: nat
  tc_token :: string
  tc_rate_limit_id :: string
  tc_spends_model :: bool

definition call_key :: "tool_call \<Rightarrow> string" where
  "call_key c = bucket_key (tc_rate_limit_id c) (tc_token c)"

definition check_call :: "rate_limits_config \<Rightarrow> tool_call \<Rightarrow> limiter \<Rightarrow> limiter \<times> (refusal + unit)" where
  "check_call config c = check_at config (tc_now c) (tc_token c) (tc_rate_limit_id c) (tc_spends_model c)"

fun run_calls :: "rate_limits_config \<Rightarrow> tool_call list \<Rightarrow> limiter \<Rightarrow> (tool_call \<times> (refusal + unit)) list" where
  "run_calls config [] m = []"
| "run_calls config (c # cs) m =
     (c, snd (check_call config c m)) # run_calls config cs (fst (check_call config c m))"

text \<open>The admitted calls of one token inside \<open>[a, a + len)\<close>, counting only those \<open>counts\<close> selects.\<close>

definition admitted_here ::
  "(bool \<Rightarrow> bool) \<Rightarrow> string \<Rightarrow> string \<Rightarrow> nat \<Rightarrow> nat \<Rightarrow> tool_call \<times> (refusal + unit) \<Rightarrow> bool" where
  "admitted_here counts token rid a len co \<longleftrightarrow>
     tc_token (fst co) = token \<and> tc_rate_limit_id (fst co) = rid \<and> counts (tc_spends_model (fst co))
     \<and> snd co = Inr () \<and> a \<le> tc_now (fst co) \<and> tc_now (fst co) < a + len"

definition admitted_calls ::
  "(bool \<Rightarrow> bool) \<Rightarrow> rate_limits_config \<Rightarrow> tool_call list \<Rightarrow> string \<Rightarrow> string \<Rightarrow> nat \<Rightarrow> nat \<Rightarrow> nat" where
  "admitted_calls counts config calls token rid a len =
     length (filter (admitted_here counts token rid a len) (run_calls config calls Map.empty))"

lemma check_bucket_last_seen [simp]: "bk_last_seen (fst (check_bucket l now s b)) = bk_last_seen b"
  by (simp add: check_bucket_def split_beta Let_def)

text \<open>The bucket a call leaves behind, and its verdict, depend on the bucket the sweep leaves it.\<close>

definition next_bucket :: "rate_limits_config \<Rightarrow> tool_call \<Rightarrow> buckets option \<Rightarrow> buckets \<times> refusal option" where
  "next_bucket config c ob =
     check_bucket (config_profile config (tc_rate_limit_id c)) (tc_now c) (tc_spends_model c)
       ((or_insert_new (tc_now c) (retained (tc_now c) ob))\<lparr>bk_last_seen := tc_now c\<rparr>)"

lemma check_call_bucket:
  "fst (check_call config c m) k =
     (if k = call_key c then Some (fst (next_bucket config c (m k))) else retained (tc_now c) (m k))"
  by (auto simp: check_call_def check_at_def next_bucket_def call_key_def retain_def split_beta Let_def)

lemma check_call_verdict:
  "snd (check_call config c m) =
     (case snd (next_bucket config c (m (call_key c))) of None \<Rightarrow> Inr () | Some r \<Rightarrow> Inl r)"
  by (simp add: check_call_def check_at_def next_bucket_def call_key_def retain_def split_beta Let_def)

text \<open>
  One axis of the limiter: the window it counts in, its length, its ceiling and the calls it counts.
\<close>

locale axis =
  fixes win :: "buckets \<Rightarrow> window" and len :: nat
    and lim :: "rate_limit_profile \<Rightarrow> 32 word" and counts :: "bool \<Rightarrow> bool"
  assumes win_new: "win (buckets_new now) = window_new now"
    and win_seen: "win (b\<lparr>bk_last_seen := t\<rparr>) = win b"
    and win_counted: "counts s \<Longrightarrow> win (fst (check_bucket l now s b)) = fst (window_hit now len (win b))"
    and win_uncounted: "\<not> counts s \<Longrightarrow> win (fst (check_bucket l now s b)) = win b"
    and within: "counts s \<Longrightarrow> snd (check_bucket l now s b) = None \<Longrightarrow> snd (window_hit now len (win b)) \<le> lim l"
    and len_pos: "0 < len"
    and len_le: "len \<le> PRUNE_AFTER"
begin

definition axis_ok :: "nat \<Rightarrow> nat \<Rightarrow> nat \<Rightarrow> nat \<Rightarrow> nat \<Rightarrow> buckets option \<Rightarrow> bool" where
  "axis_ok a L t N n ob \<longleftrightarrow> metered a len L t N n (map_option win ob)
     \<and> (\<forall>b. ob = Some b \<longrightarrow> win_start (win b) \<le> bk_last_seen b)"

lemma axis_ok_retained:
  assumes "axis_ok a L now N n ob"
  shows "axis_ok a L now N n (retained now ob)"
proof (cases ob)
  case (Some b)
  then show ?thesis
    using assms metered_drop [of a len L now N n "win b"] len_pos len_le
    by (auto simp: axis_ok_def retained_def not_less)
qed (use assms in \<open>simp add: retained_def\<close>)

lemma axis_ok_entry:
  assumes "axis_ok a L now N n ob"
  shows "axis_ok a L now N n (Some ((or_insert_new now ob)\<lparr>bk_last_seen := now\<rparr>))"
  using assms metered_new [of a len L now N n]
  by (auto simp: axis_ok_def or_insert_new_def win_new win_seen metered_def window_new_def split: option.splits)

lemma axis_ok_call:
  assumes ok: "axis_ok a L (tc_now c) N n ob" and n: "Suc n < 2 ^ 32"
    and L: "tc_rate_limit_id c = rid \<Longrightarrow> L = unat (lim (config_profile config rid))"
    and d: "d = (if tc_rate_limit_id c = rid \<and> Q \<and> counts (tc_spends_model c)
        \<and> snd (next_bucket config c ob) = None \<and> a \<le> tc_now c \<and> tc_now c < a + len then 1 else 0)"
  shows "axis_ok a L (tc_now c) (N + d) (Suc n) (Some (fst (next_bucket config c ob)))"
proof -
  define now where "now = tc_now c"
  define s where "s = tc_spends_model c"
  define l where "l = config_profile config (tc_rate_limit_id c)"
  define b where "b = (or_insert_new now (retained now ob))\<lparr>bk_last_seen := now\<rparr>"
  have nb: "next_bucket config c ob = check_bucket l now s b"
    by (simp add: next_bucket_def now_def s_def l_def b_def)
  have b: "axis_ok a L now N n (Some b)"
    unfolding b_def now_def using ok by (intro axis_ok_entry axis_ok_retained)
  show ?thesis
  proof (cases "counts s")
    case True
    let ?d = "if (tc_rate_limit_id c = rid \<and> Q \<and> snd (next_bucket config c ob) = None) \<and> a \<le> now \<and> now < a + len
        \<and> unat (snd (window_hit now len (win b))) \<le> L then 1 else 0"
    have "unat (snd (window_hit now len (win b))) \<le> L" if "snd (next_bucket config c ob) = None" "tc_rate_limit_id c = rid"
      using within [OF True, of l now b] that L by (simp add: nb l_def word_le_nat_alt)
    then have "d = ?d"
      using d True by (auto simp: s_def now_def)
    then have "metered a len L now (N + d) (Suc n) (Some (fst (window_hit now len (win b))))"
      using b n len_pos
      by (intro metered_hit [where P = "tc_rate_limit_id c = rid \<and> Q \<and> snd (next_bucket config c ob) = None"])
        (simp_all add: axis_ok_def)
    moreover have "win_start (fst (window_hit now len (win b))) \<le> now"
      using calculation by (simp add: metered_def)
    ultimately show ?thesis
      using True by (simp add: axis_ok_def nb win_counted b_def flip: now_def)
  next
    case False
    then have "d = 0"
      using d by (simp add: s_def)
    then show ?thesis
      using b False metered_tick [of a len L now N n _ now "Suc n"]
      by (auto simp: axis_ok_def nb win_uncounted simp flip: now_def)
  qed
qed

lemma run_ceiling:
  assumes "axis_ok a (unat (lim (config_profile config rid))) t N n (m (bucket_key rid token))"
    and "sorted (map tc_now cs)" "\<forall>c \<in> set cs. t \<le> tc_now c" "n + length cs < 2 ^ 32"
  shows "N + length (filter (admitted_here counts token rid a len) (run_calls config cs m))
           \<le> 2 * unat (lim (config_profile config rid))"
  using assms
proof (induction cs arbitrary: t N n m)
  case Nil
  then show ?case
    by (simp add: axis_ok_def metered_def)
next
  case (Cons c cs)
  let ?L = "unat (lim (config_profile config rid))" and ?k = "bucket_key rid token"
    and ?co = "(c, snd (check_call config c m))"
  let ?d = "if admitted_here counts token rid a len ?co then 1 else 0"
  have ok: "axis_ok a ?L (tc_now c) N n (m ?k)"
    using Cons.prems(1,3) metered_tick [of a len ?L t N n _ "tc_now c" n] by (auto simp: axis_ok_def)
  have "axis_ok a ?L (tc_now c) (N + ?d) (Suc n) (fst (check_call config c m) ?k)"
  proof (cases "call_key c = ?k")
    case True
    have "axis_ok a ?L (tc_now c) (N + ?d) (Suc n) (Some (fst (next_bucket config c (m ?k))))"
      using ok Cons.prems(4) True
      by (intro axis_ok_call [where rid = rid and config = config and Q = "tc_token c = token"])
        (auto simp: admitted_here_def check_call_verdict split: option.splits)
    then show ?thesis
      using True by (simp add: check_call_bucket)
  next
    case False
    then have "\<not> admitted_here counts token rid a len ?co"
      by (auto simp: admitted_here_def call_key_def)
    moreover have "axis_ok a ?L (tc_now c) N (Suc n) (m ?k)"
      using ok metered_tick [of a len ?L "tc_now c" N n _ "tc_now c" "Suc n"] by (auto simp: axis_ok_def)
    ultimately show ?thesis
      using False by (simp add: check_call_bucket axis_ok_retained)
  qed
  then have "N + ?d + length (filter (admitted_here counts token rid a len) (run_calls config cs (fst (check_call config c m))))
      \<le> 2 * ?L"
    using Cons.prems(2,4) by (intro Cons.IH) (auto simp: sorted_append)
  then show ?case
    by (simp split: if_splits)
qed

lemma ceiling:
  assumes "sorted (map tc_now calls)" "length calls < 2 ^ 32"
  shows "admitted_calls counts config calls token rid a len \<le> 2 * unat (lim (config_profile config rid))"
  unfolding admitted_calls_def
  using assms run_ceiling [of a config rid 0 0 0 Map.empty token calls] by (simp add: axis_ok_def)

end

lemmas check_bucket_simps = check_bucket_def buckets_new_def split_beta Let_def find_refusal_def
  MINUTE_def HOUR_def PRUNE_AFTER_def from_secs_def

interpretation calls_minute: axis bk_calls_minute MINUTE calls_per_minute "\<lambda>_. True"
  by unfold_locales (auto simp: check_bucket_simps split: if_splits)

interpretation calls_hour: axis bk_calls_hour HOUR calls_per_hour "\<lambda>_. True"
  by unfold_locales (auto simp: check_bucket_simps split: if_splits)

interpretation model_minute: axis bk_model_minute MINUTE model_calls_per_minute id
  by unfold_locales (auto simp: check_bucket_simps split: if_splits)

interpretation model_hour: axis bk_model_hour HOUR model_calls_per_hour id
  by unfold_locales (auto simp: check_bucket_simps split: if_splits)

text \<open>
  C27: the ceilings hold. However calls of any number of tokens are interleaved, in any stretch of a
  minute (an hour) a token is granted at most twice its minute (hour) ceiling, once for each of the two
  windows the stretch can touch, and the same holds of the calls that spend a model and their own
  ceilings, as long as the process has served fewer than 2^32 calls.
\<close>

theorem ceilings_hold:
  assumes "sorted (map tc_now calls)" "length calls < 2 ^ 32"
  shows "admitted_calls (\<lambda>_. True) config calls token rid a MINUTE
           \<le> 2 * unat (calls_per_minute (config_profile config rid))
       \<and> admitted_calls (\<lambda>_. True) config calls token rid a HOUR
           \<le> 2 * unat (calls_per_hour (config_profile config rid))
       \<and> admitted_calls id config calls token rid a MINUTE
           \<le> 2 * unat (model_calls_per_minute (config_profile config rid))
       \<and> admitted_calls id config calls token rid a HOUR
           \<le> 2 * unat (model_calls_per_hour (config_profile config rid))"
  using calls_minute.ceiling [OF assms] calls_hour.ceiling [OF assms] model_minute.ceiling [OF assms]
    model_hour.ceiling [OF assms] by blast

lemma retained_retained: "t \<le> t' \<Longrightarrow> retained t' (retained t ob) = retained t' ob"
  by (auto simp: retained_def split: option.splits)

lemma next_bucket_cong:
  "retained (tc_now c) ob = retained (tc_now c) ob' \<Longrightarrow> next_bucket config c ob = next_bucket config c ob'"
  by (simp add: next_bucket_def)

lemma run_calls_isolated:
  assumes "\<forall>t \<ge> t0. retained t (m k) = retained t (m' k)"
    and "sorted (map tc_now calls)" "\<forall>c \<in> set calls. t0 \<le> tc_now c"
  shows "filter (\<lambda>co. call_key (fst co) = k) (run_calls config calls m) =
         run_calls config (filter (\<lambda>c. call_key c = k) calls) m'"
  using assms
proof (induction calls arbitrary: t0 m m')
  case (Cons c cs)
  have same: "next_bucket config c (m k) = next_bucket config c (m' k)"
    using Cons.prems(1,3) by (intro next_bucket_cong) simp
  have later: "\<forall>d \<in> set cs. tc_now c \<le> tc_now d" "sorted (map tc_now cs)"
    using Cons.prems(2) by auto
  show ?case
  proof (cases "call_key c = k")
    case True
    have "\<forall>t \<ge> tc_now c. retained t (fst (check_call config c m) k) = retained t (fst (check_call config c m') k)"
      using same True by (simp add: check_call_bucket)
    then show ?thesis
      using Cons.IH [OF _ later(2,1)] True same by (simp add: check_call_verdict)
  next
    case False
    have "\<forall>t \<ge> tc_now c. retained t (fst (check_call config c m) k) = retained t (m' k)"
      using Cons.prems(1,3) False by (simp add: check_call_bucket retained_retained)
    then show ?thesis
      using Cons.IH [OF _ later(2,1)] False by simp
  qed
qed simp

text \<open>
  one token's traffic is that token's business. With a clock that does not run backwards, the
  verdicts on the calls of one bucket are the same whether or not other tokens call in between, the
  sweep of idle buckets included.
\<close>

lemma tokens_are_isolated:
  assumes "sorted (map tc_now calls)"
  shows "filter (\<lambda>co. call_key (fst co) = k) (run_calls config calls Map.empty) =
         run_calls config (filter (\<lambda>c. call_key c = k) calls) Map.empty"
  by (rule run_calls_isolated [of 0]) (use assms in auto)

section \<open>Runs of the dashboard's limiter\<close>

record dash_hit =
  dh_now :: nat
  dh_key :: string
  dh_max :: "32 word"
  dh_window :: nat

definition dash_check_hit :: "dash_hit \<Rightarrow> (string \<rightharpoonup> window) \<Rightarrow> (string \<rightharpoonup> window) \<times> bool" where
  "dash_check_hit h = dash_check (dh_now h) (dh_key h) (dh_max h) (dh_window h)"

fun run_hits :: "dash_hit list \<Rightarrow> (string \<rightharpoonup> window) \<Rightarrow> (dash_hit \<times> bool) list" where
  "run_hits [] m = []"
| "run_hits (h # hs) m = (h, snd (dash_check_hit h m)) # run_hits hs (fst (dash_check_hit h m))"

definition dash_swept :: "nat \<Rightarrow> window option \<Rightarrow> window option" where
  "dash_swept now wo =
     (case wo of None \<Rightarrow> None | Some w \<Rightarrow> if now - win_start w \<le> DASH_PRUNE_AFTER then Some w else None)"

definition dash_entry :: "nat \<Rightarrow> window option \<Rightarrow> window" where
  "dash_entry now wo = (case dash_swept now wo of Some w \<Rightarrow> w | None \<Rightarrow> window_new now)"

lemma dash_check_as_hit:
  "fst (dash_check_hit h m) k =
     (if k = dh_key h then Some (fst (window_hit (dh_now h) (Suc (dh_window h)) (dash_entry (dh_now h) (m k))))
      else dash_swept (dh_now h) (m k))"
  "snd (dash_check_hit h m) \<longleftrightarrow>
     snd (window_hit (dh_now h) (Suc (dh_window h)) (dash_entry (dh_now h) (m (dh_key h)))) \<le> dh_max h"
  by (auto simp: dash_check_hit_def dash_check_def window_hit_def dash_entry_def dash_swept_def Let_def Suc_le_eq)

lemma metered_dash_swept:
  assumes "metered a len lim now N n wo" "len \<le> Suc DASH_PRUNE_AFTER" "0 < len"
  shows "metered a len lim now N n (dash_swept now wo)"
  using assms metered_drop [of a len lim now N n]
  by (auto simp: dash_swept_def split: option.splits)

lemma metered_dash_entry:
  assumes "metered a len lim now N n wo" "len \<le> Suc DASH_PRUNE_AFTER" "0 < len"
  shows "metered a len lim now N n (Some (dash_entry now wo))"
  using metered_dash_swept [OF assms] metered_new [of a len lim now N n]
  by (auto simp: dash_entry_def split: option.splits)

definition allowed_here :: "string \<Rightarrow> nat \<Rightarrow> nat \<Rightarrow> dash_hit \<times> bool \<Rightarrow> bool" where
  "allowed_here k a ln hb \<longleftrightarrow> dh_key (fst hb) = k \<and> snd hb \<and> a \<le> dh_now (fst hb) \<and> dh_now (fst hb) \<le> a + ln"

lemma run_hits_ceiling:
  assumes "metered a (Suc ln) (unat mx) t N n (m k)" "ln \<le> DASH_PRUNE_AFTER"
    and "sorted (map dh_now hs)" "\<forall>h \<in> set hs. t \<le> dh_now h" "n + length hs < 2 ^ 32"
    and "\<forall>h \<in> set hs. dh_key h = k \<longrightarrow> dh_max h = mx \<and> dh_window h = ln"
  shows "N + length (filter (allowed_here k a ln) (run_hits hs m)) \<le> 2 * unat mx"
  using assms
proof (induction hs arbitrary: t N n m)
  case Nil
  then show ?case
    by (simp add: metered_def)
next
  case (Cons h hs)
  let ?d = "if allowed_here k a ln (h, snd (dash_check_hit h m)) then 1 else 0"
  have ok: "metered a (Suc ln) (unat mx) (dh_now h) N n (m k)"
    using Cons.prems(1,4) metered_tick by fastforce
  have "metered a (Suc ln) (unat mx) (dh_now h) (N + ?d) (Suc n) (fst (dash_check_hit h m) k)"
  proof (cases "dh_key h = k")
    case True
    have "metered a (Suc ln) (unat mx) (dh_now h) (N + ?d) (Suc n)
        (Some (fst (window_hit (dh_now h) (Suc ln) (dash_entry (dh_now h) (m k)))))"
      using Cons.prems(2,5,6) True metered_dash_entry [OF ok]
      by (intro metered_hit [where P = True]) (auto simp: allowed_here_def dash_check_as_hit word_le_nat_alt less_Suc_eq_le)
    then show ?thesis
      using True Cons.prems(6) by (simp add: dash_check_as_hit)
  next
    case False
    then have "\<not> allowed_here k a ln (h, snd (dash_check_hit h m))"
      by (simp add: allowed_here_def)
    moreover have "metered a (Suc ln) (unat mx) (dh_now h) N (Suc n) (dash_swept (dh_now h) (m k))"
      using metered_dash_swept [OF ok] Cons.prems(2) metered_tick by fastforce
    ultimately show ?thesis
      using False by (simp add: dash_check_as_hit)
  qed
  then have "N + ?d + length (filter (allowed_here k a ln) (run_hits hs (fst (dash_check_hit h m)))) \<le> 2 * unat mx"
    using Cons.prems by (intro Cons.IH) auto
  then show ?case
    by (simp split: if_splits)
qed

text \<open>
  the limiter of the login form, the recovery route, the second factor and the client registration
  bounds guessing. For a key that is always checked against the same limit and a window of at most an
  hour, any stretch as long as the window lets at most twice the limit through, whatever other keys are
  checked in between.
\<close>

lemma guesses_are_bounded:
  assumes "sorted (map dh_now hits)" "length hits < 2 ^ 32" "ln \<le> from_secs 3600"
    and "\<forall>h \<in> set hits. dh_key h = k \<longrightarrow> dh_max h = mx \<and> dh_window h = ln"
  shows "length (filter (allowed_here k a ln) (run_hits hits Map.empty)) \<le> 2 * unat mx"
  using run_hits_ceiling [of a ln mx 0 0 0 Map.empty k hits] assms by (simp add: DASH_PRUNE_AFTER_def)

section \<open>Concrete runs\<close>

text \<open>
  The advice of a refusal is rounded down: a second and a half before the end of the window the caller
  is told to come back in one second, and is then still in the window that refused it.
\<close>

lemma retry_after_lands_in_the_same_window:
  "let w = \<lparr>win_start = 0, win_count = 121\<rparr>; now = 58500000000 in
     retry_after now MINUTE w = 1 \<and> win_start (fst (window_hit (now + from_secs 1) MINUTE w)) = win_start w"
  by (simp add: retry_after_def MINUTE_def from_secs_def as_secs_def window_hit_def Let_def)

definition sample_calls :: "tool_call list" where
  "sample_calls =
     [\<lparr>tc_now = 0, tc_token = ''t1'', tc_rate_limit_id = ''default'', tc_spends_model = True\<rparr>,
      \<lparr>tc_now = 5, tc_token = ''t2'', tc_rate_limit_id = ''default'', tc_spends_model = False\<rparr>,
      \<lparr>tc_now = 9, tc_token = ''t1'', tc_rate_limit_id = ''default'', tc_spends_model = True\<rparr>]"

theorem ceilings_hold_witness:
  "admitted_calls (\<lambda>_. True) Map.empty sample_calls ''t1'' ''default'' 0 MINUTE \<le> 240
   \<and> admitted_calls id Map.empty sample_calls ''t1'' ''default'' 0 MINUTE \<le> 60"
  using ceilings_hold [of sample_calls Map.empty "''t1''" "''default''" 0]
  by (simp add: sample_calls_def config_profile_def default_profile_def)

lemma tokens_are_isolated_witness:
  "filter (\<lambda>co. call_key (fst co) = bucket_key ''default'' ''t1'') (run_calls Map.empty sample_calls Map.empty) =
   run_calls Map.empty [sample_calls ! 0, sample_calls ! 2] Map.empty"
  using tokens_are_isolated [of sample_calls "bucket_key ''default'' ''t1''" Map.empty]
  by (simp add: sample_calls_def call_key_def bucket_key_def del: run_calls.simps)

lemma guesses_are_bounded_witness:
  "length (filter (allowed_here ''login'' 0 (from_secs 900))
     (run_hits [\<lparr>dh_now = 0, dh_key = ''login'', dh_max = 1, dh_window = from_secs 900\<rparr>,
                \<lparr>dh_now = 1, dh_key = ''login'', dh_max = 1, dh_window = from_secs 900\<rparr>,
                \<lparr>dh_now = 2, dh_key = ''login'', dh_max = 1, dh_window = from_secs 900\<rparr>] Map.empty)) \<le> 2"
  using guesses_are_bounded
    [of "[\<lparr>dh_now = 0, dh_key = ''login'', dh_max = 1, dh_window = from_secs 900\<rparr>,
          \<lparr>dh_now = 1, dh_key = ''login'', dh_max = 1, dh_window = from_secs 900\<rparr>,
          \<lparr>dh_now = 2, dh_key = ''login'', dh_max = 1, dh_window = from_secs 900\<rparr>]" "from_secs 900" "''login''" 1 0]
  by (simp add: from_secs_def del: run_hits.simps)

end
