(* ===== verification/Mwe_Sessions.thy ===== *)
theory Mwe_Sessions
  imports Mwe_Tokens Mwe_RateLimit
begin

text \<open>
  Signing in to the dashboard: the session cookie of \<open>crates/mwe-dashboard/src/auth/session.rs\<close>, the
  generations of \<open>jwt.rs\<close> behind "sign out everywhere", the second factor of \<open>twofa.rs\<close> and
  \<open>routes/two_factor.rs\<close>, and the handlers of \<open>routes/login.rs\<close>, \<open>routes/auth_link.rs\<close>, \<open>routes/logout.rs\<close>,
  \<open>routes/settings.rs\<close> (password change) and \<open>routes/password_reset.rs\<close>.

  Password hashing (argon2), TOTP, the decryption of its secret, SHA-256 and fresh random ids are
  parameters; a page a handler renders is the name of the page or its message.
\<close>

section \<open>State\<close>

record dash_user =
  du_user_id :: string
  du_email :: "string option"
  du_is_admin :: bool
  du_require_2fa :: bool

record recovery_row =
  rc_user_id :: string
  rc_code_hash :: string
  rc_used_at :: "int option"

record pending_2fa_row =
  p2_challenge_id :: string
  p2_user_id :: string
  p2_is_admin :: bool
  p2_next :: "string option"
  p2_expires_at :: int

record reset_row =
  rs_reset_id :: string
  rs_user_id :: string
  rs_expires_at :: int
  rs_consumed_at :: "int option"

record dash_state =
  ds_users :: "dash_user list"
  ds_credentials :: "string \<rightharpoonup> string"
  ds_generations :: "string \<rightharpoonup> int"
  ds_revocations :: revocations
  ds_blacklist :: blacklist_cache
  ds_twofa :: "string \<rightharpoonup> string \<times> bool"
  ds_recovery :: "recovery_row list"
  ds_pending :: "pending_2fa_row list"
  ds_resets :: "reset_row list"
  ds_limits :: "string \<rightharpoonup> window"
  ds_require_2fa_all :: "string option"

record dash_env =
  de_tokens :: token_env
  de_secret :: string
  de_session_ttl_minutes :: int
  de_min_password_len :: nat
  de_password_verify :: "string \<Rightarrow> string \<Rightarrow> bool option"
  de_password_hash :: "string \<Rightarrow> string"
  de_timing_phc :: "string option"
  de_totp_ok :: "string \<Rightarrow> string \<Rightarrow> int \<Rightarrow> string \<Rightarrow> bool"
  de_decrypt :: "string \<Rightarrow> string option"
  de_encrypt :: "string \<Rightarrow> string"
  de_sha256_hex :: "string \<Rightarrow> string"
  de_landing :: "string \<Rightarrow> string"

datatype dash_response =
    RenderPage string
  | ServerError
  | RedirectTo string
  | ChallengeStarted string
  | SignedIn token_claims string

definition SESSION_DEVICE_LABEL :: string where
  "SESSION_DEVICE_LABEL = ''dashboard-session''"

definition SESSION_RATE_LIMIT_ID :: string where
  "SESSION_RATE_LIMIT_ID = ''dashboard''"

section \<open>Generations and cookies\<close>

definition session_generation :: "dash_state \<Rightarrow> string \<Rightarrow> int" where
  "session_generation s user = (case ds_generations s user of None \<Rightarrow> 0 | Some g \<Rightarrow> g)"

definition end_all_sessions :: "string \<Rightarrow> dash_state \<Rightarrow> dash_state \<times> int" where
  "end_all_sessions user s =
     (let next_gen = (case ds_generations s user of None \<Rightarrow> 1 | Some g \<Rightarrow> g + 1)
      in (s\<lparr>ds_generations := (ds_generations s)(user \<mapsto> next_gen)\<rparr>, next_gen))"

definition build_session_claims :: "dash_env \<Rightarrow> int \<Rightarrow> string \<Rightarrow> string \<Rightarrow> bool \<Rightarrow> int \<Rightarrow> token_claims" where
  "build_session_claims env now jti sender_id admin generation =
     (let ttl = (if 0 \<le> de_session_ttl_minutes env * 60 then de_session_ttl_minutes env * 60 else 0)
      in (claims_new now jti sender_id SESSION_DEVICE_LABEL SESSION_RATE_LIMIT_ID ttl)
           \<lparr>tc_is_admin := admin, tc_session_gen := Some generation\<rparr>)"

definition mint_session_cookie :: "dash_env \<Rightarrow> int \<Rightarrow> string \<Rightarrow> string \<Rightarrow> bool \<Rightarrow> int \<Rightarrow> token_claims" where
  "mint_session_cookie env now jti sender_id admin generation =
     build_session_claims env now jti sender_id admin generation"

definition issue_session_cookie :: "dash_env \<Rightarrow> int \<Rightarrow> string \<Rightarrow> string \<Rightarrow> bool \<Rightarrow> dash_state \<Rightarrow> token_claims" where
  "issue_session_cookie env now jti sender_id admin s =
     mint_session_cookie env now jti sender_id admin (session_generation s sender_id)"

definition jwt_verify :: "dash_env \<Rightarrow> int \<Rightarrow> string \<Rightarrow> dash_state \<Rightarrow> dash_state \<times> (token_error + token_claims)" where
  "jwt_verify env now token s =
     (case verify (de_tokens env) (de_secret env) (ds_revocations s) now token (ds_blacklist s) of
        (cache, res) \<Rightarrow> (s\<lparr>ds_blacklist := cache\<rparr>, res))"

definition verify_session :: "dash_env \<Rightarrow> int \<Rightarrow> string option \<Rightarrow> dash_state \<Rightarrow> dash_state \<times> token_claims option" where
  "verify_session env now cookie s =
     (case cookie of
        None \<Rightarrow> (s, None)
      | Some token \<Rightarrow>
          (case jwt_verify env now token s of
             (s', Inl _) \<Rightarrow> (s', None)
           | (s', Inr claims) \<Rightarrow>
               if tc_device_label claims \<noteq> SESSION_DEVICE_LABEL then (s', None)
               else if (case tc_session_gen claims of None \<Rightarrow> 0 | Some g \<Rightarrow> g) < session_generation s' (tc_sender_id claims)
               then (s', None)
               else (s', Some claims)))"

record session_user =
  su_sender_id :: string
  su_is_admin :: bool
  su_session_jti :: string

definition session_of :: "dash_env \<Rightarrow> int \<Rightarrow> string option \<Rightarrow> dash_state \<Rightarrow> dash_state \<times> session_user option" where
  "session_of env now cookie s =
     (case verify_session env now cookie s of
        (s', None) \<Rightarrow> (s', None)
      | (s', Some c) \<Rightarrow> (s', Some \<lparr>su_sender_id = tc_sender_id c, su_is_admin = tc_is_admin c, su_session_jti = tc_jti c\<rparr>))"

section \<open>The second factor\<close>

definition GLOBAL_REQUIRE_KEY :: string where
  "GLOBAL_REQUIRE_KEY = ''auth.require_2fa_all''"

datatype state_2fa = No2fa | Pending2fa | Enabled2fa

definition state_of :: "dash_state \<Rightarrow> string \<Rightarrow> state_2fa" where
  "state_of s user = (case ds_twofa s user of None \<Rightarrow> No2fa | Some (_, False) \<Rightarrow> Pending2fa | Some (_, True) \<Rightarrow> Enabled2fa)"

definition is_enabled :: "dash_state \<Rightarrow> string \<Rightarrow> bool" where
  "is_enabled s user \<longleftrightarrow> state_of s user = Enabled2fa"

text \<open>\<open>load_secret\<close>: \<open>Inl\<close> is a failed decryption.\<close>

definition load_secret :: "dash_env \<Rightarrow> dash_state \<Rightarrow> string \<Rightarrow> unit + string option" where
  "load_secret env s user =
     (case ds_twofa s user of
        None \<Rightarrow> Inr None
      | Some (enc, _) \<Rightarrow> (case de_decrypt env enc of None \<Rightarrow> Inl () | Some plain \<Rightarrow> Inr (Some plain)))"

definition begin_enrollment :: "dash_env \<Rightarrow> string \<Rightarrow> string \<Rightarrow> dash_state \<Rightarrow> dash_state" where
  "begin_enrollment env user secret s =
     s\<lparr>ds_twofa := (ds_twofa s)(user \<mapsto> (de_encrypt env secret, False)),
       ds_recovery := filter (\<lambda>r. rc_user_id r \<noteq> user) (ds_recovery s)\<rparr>"

definition is_ascii_alphanumeric :: "char \<Rightarrow> bool" where
  "is_ascii_alphanumeric c \<longleftrightarrow> is_ascii_lowercase c \<or> is_ascii_uppercase c \<or> is_ascii_digit c"

definition normalize_recovery :: "string \<Rightarrow> string" where
  "normalize_recovery code = map to_ascii_lower (filter is_ascii_alphanumeric (trim code))"

definition hash_recovery :: "dash_env \<Rightarrow> string \<Rightarrow> string" where
  "hash_recovery env code = de_sha256_hex env (normalize_recovery code)"

text \<open>The recovery codes share a transaction with the flag; a repeated code would fail the primary key.\<close>

definition confirm_enrollment :: "dash_env \<Rightarrow> string \<Rightarrow> string list \<Rightarrow> dash_state \<Rightarrow> dash_state option" where
  "confirm_enrollment env user codes s =
     (if \<not> distinct (map (hash_recovery env) codes) then None
      else Some (s\<lparr>ds_twofa := (case ds_twofa s user of None \<Rightarrow> ds_twofa s | Some (enc, _) \<Rightarrow> (ds_twofa s)(user \<mapsto> (enc, True))),
       ds_recovery := filter (\<lambda>r. rc_user_id r \<noteq> user) (ds_recovery s) @
         map (\<lambda>code. \<lparr>rc_user_id = user, rc_code_hash = hash_recovery env code, rc_used_at = None\<rparr>) codes\<rparr>))"

definition twofa_disable :: "string \<Rightarrow> dash_state \<Rightarrow> dash_state" where
  "twofa_disable user s =
     s\<lparr>ds_twofa := (ds_twofa s)(user := None), ds_recovery := filter (\<lambda>r. rc_user_id r \<noteq> user) (ds_recovery s)\<rparr>"

definition unused_recovery_count :: "dash_state \<Rightarrow> string \<Rightarrow> nat" where
  "unused_recovery_count s user = length (filter (\<lambda>r. rc_user_id r = user \<and> rc_used_at r = None) (ds_recovery s))"

definition spendable :: "dash_env \<Rightarrow> string \<Rightarrow> string \<Rightarrow> recovery_row \<Rightarrow> bool" where
  "spendable env user code r \<longleftrightarrow> rc_user_id r = user \<and> rc_code_hash r = hash_recovery env code \<and> rc_used_at r = None"

definition consume_recovery_code :: "dash_env \<Rightarrow> int \<Rightarrow> string \<Rightarrow> string \<Rightarrow> dash_state \<Rightarrow> dash_state \<times> bool" where
  "consume_recovery_code env now user code s =
     (s\<lparr>ds_recovery := map (\<lambda>r. if spendable env user code r then r\<lparr>rc_used_at := Some now\<rparr> else r) (ds_recovery s)\<rparr>,
      length (filter (spendable env user code) (ds_recovery s)) = 1)"

definition find_user :: "dash_state \<Rightarrow> string \<Rightarrow> dash_user option" where
  "find_user s user = List.find (\<lambda>u. du_user_id u = user) (ds_users s)"

definition user_required :: "dash_state \<Rightarrow> string \<Rightarrow> bool" where
  "user_required s user = is_some_and du_require_2fa (find_user s user)"

definition global_required :: "dash_state \<Rightarrow> bool" where
  "global_required s \<longleftrightarrow> ds_require_2fa_all s = Some ''1''"

definition set_global_required :: "bool \<Rightarrow> dash_state \<Rightarrow> dash_state" where
  "set_global_required on s = s\<lparr>ds_require_2fa_all := Some (if on then ''1'' else ''0'')\<rparr>"

definition is_obliged :: "dash_state \<Rightarrow> string \<Rightarrow> bool" where
  "is_obliged s user \<longleftrightarrow> (if global_required s then True else user_required s user)"

definition needs_enrollment_trap :: "dash_state \<Rightarrow> string \<Rightarrow> bool" where
  "needs_enrollment_trap s user =
     (case find_user s user of
        None \<Rightarrow> False
      | Some u \<Rightarrow>
          (let obliged = (ds_require_2fa_all s = Some ''1'' \<or> du_require_2fa u)
           in obliged \<and> map_option snd (ds_twofa s user) \<noteq> Some True))"

definition CHALLENGE_TTL_MIN :: int where
  "CHALLENGE_TTL_MIN = 5"

definition CHALLENGE_MAX_ATTEMPTS :: "32 word" where
  "CHALLENGE_MAX_ATTEMPTS = 10"

definition create_pending ::
  "int \<Rightarrow> string \<Rightarrow> string \<Rightarrow> bool \<Rightarrow> string option \<Rightarrow> int \<Rightarrow> dash_state \<Rightarrow> dash_state option" where
  "create_pending now fresh_id user admin dest ttl_minutes s =
     (if fresh_id \<in> set (map p2_challenge_id (ds_pending s)) then None
      else Some (s\<lparr>ds_pending := ds_pending s @
        [\<lparr>p2_challenge_id = fresh_id, p2_user_id = user, p2_is_admin = admin, p2_next = dest,
          p2_expires_at = now + duration_seconds (60 * max ttl_minutes 1)\<rparr>]\<rparr>))"

definition peek_pending :: "int \<Rightarrow> string \<Rightarrow> dash_state \<Rightarrow> pending_2fa_row option" where
  "peek_pending now cid s = List.find (\<lambda>r. p2_challenge_id r = cid \<and> now < p2_expires_at r) (ds_pending s)"

definition delete_pending :: "string \<Rightarrow> dash_state \<Rightarrow> dash_state" where
  "delete_pending cid s = s\<lparr>ds_pending := filter (\<lambda>r. p2_challenge_id r \<noteq> cid) (ds_pending s)\<rparr>"

definition begin_challenge ::
  "int \<Rightarrow> string \<Rightarrow> string \<Rightarrow> bool \<Rightarrow> string option \<Rightarrow> dash_state \<Rightarrow> dash_state \<times> dash_response" where
  "begin_challenge now fresh_id user admin dest s =
     (case create_pending now fresh_id user admin dest CHALLENGE_TTL_MIN s of
        None \<Rightarrow> (s, ServerError)
      | Some s' \<Rightarrow> (s', ChallengeStarted fresh_id))"

section \<open>Signing in\<close>

definition LOGIN_MAX_PER_EMAIL :: "32 word" where
  "LOGIN_MAX_PER_EMAIL = 10"

definition LOGIN_MAX_PER_IP :: "32 word" where
  "LOGIN_MAX_PER_IP = 50"

definition LOGIN_WINDOW :: nat where
  "LOGIN_WINDOW = from_secs (15 * 60)"

record login_submission =
  lf_email :: string
  lf_password :: string
  lf_next :: "string option"

definition login_safe_next :: "string option \<Rightarrow> string option" where
  "login_safe_next dest =
     (case dest of
        None \<Rightarrow> None
      | Some n0 \<Rightarrow> (let n = trim n0
                    in if starts_with ''/dashboard/'' n \<and> \<not> contains_sub n ''://'' then Some n else None))"

text \<open>The join of \<open>enrollment_users\<close> and \<open>user_credentials\<close> on the email.\<close>

definition lookup_login :: "dash_state \<Rightarrow> string \<Rightarrow> (string \<times> string \<times> bool) option" where
  "lookup_login s email =
     (case List.find (\<lambda>u. du_email u = Some email \<and> ds_credentials s (du_user_id u) \<noteq> None) (ds_users s) of
        None \<Rightarrow> None
      | Some u \<Rightarrow> map_option (\<lambda>phc. (du_user_id u, phc, du_is_admin u)) (ds_credentials s (du_user_id u)))"

text \<open>The lookup and the password check, once the attempt is within the limits.\<close>

definition login_answer ::
  "dash_env \<Rightarrow> int \<Rightarrow> string \<Rightarrow> login_submission \<Rightarrow> dash_state \<Rightarrow> dash_state \<times> dash_response" where
  "login_answer env now fresh form s =
     (let row = lookup_login s (trim (lf_email form));
          phc = (case row of None \<Rightarrow> de_timing_phc env | Some (_, phc, _) \<Rightarrow> Some phc);
          matched = (case phc of None \<Rightarrow> Some False | Some h \<Rightarrow> de_password_verify env (lf_password form) h)
      in (case matched of
            None \<Rightarrow> (s, ServerError)
          | Some ok \<Rightarrow>
              (case row of
                 None \<Rightarrow> (s, RenderPage ''Invalid credentials.'')
               | Some (user, _, admin) \<Rightarrow>
                   if \<not> ok then (s, RenderPage ''Invalid credentials.'')
                   else if is_enabled s user
                   then begin_challenge now fresh user admin (login_safe_next (lf_next form)) s
                   else (s, SignedIn (issue_session_cookie env now fresh user admin s)
                              (case login_safe_next (lf_next form) of
                                 Some n \<Rightarrow> n | None \<Rightarrow> de_landing env user)))))"

definition login_submit ::
  "dash_env \<Rightarrow> int \<Rightarrow> string \<Rightarrow> string \<Rightarrow> login_submission \<Rightarrow> dash_state \<Rightarrow> dash_state \<times> dash_response" where
  "login_submit env now fresh ip form s =
     (let identifier = trim (lf_email form)
      in if identifier = [] \<or> lf_password form = [] then (s, RenderPage ''Invalid credentials.'')
         else
           (let (m1, email_ok) = dash_check (nat now) (''login:email:'' @ map to_ascii_lower identifier)
                                   LOGIN_MAX_PER_EMAIL LOGIN_WINDOW (ds_limits s);
                (m2, ip_ok) = dash_check (nat now) (''login:ip:'' @ ip) LOGIN_MAX_PER_IP LOGIN_WINDOW m1
            in if \<not> email_ok \<or> \<not> ip_ok
               then (s\<lparr>ds_limits := m2\<rparr>, RenderPage ''Too many attempts. Wait a few minutes and try again.'')
               else login_answer env now fresh form (s\<lparr>ds_limits := m2\<rparr>)))"

text \<open>The magic link: \<open>auth_link.rs\<close>. It is minted by the MCP tool \<open>dashboard_link\<close>.\<close>

definition DASHBOARD_LINK_TTL :: int where
  "DASHBOARD_LINK_TTL = 10 * 60"

definition dashboard_link_claims :: "int \<Rightarrow> string \<Rightarrow> string \<Rightarrow> bool \<Rightarrow> token_claims" where
  "dashboard_link_claims now jti sender_id admin =
     (claims_new now jti sender_id SESSION_DEVICE_LABEL SESSION_RATE_LIMIT_ID DASHBOARD_LINK_TTL)\<lparr>tc_is_admin := admin\<rparr>"

definition link_safe_next :: "string option \<Rightarrow> string" where
  "link_safe_next dest =
     (case dest of
        Some n \<Rightarrow> if starts_with ''/dashboard/'' n \<and> carriage_return \<notin> set n \<and> newline \<notin> set n
                  then n else ''/dashboard/home''
      | None \<Rightarrow> ''/dashboard/home'')"

definition redeem ::
  "dash_env \<Rightarrow> int \<Rightarrow> string \<Rightarrow> string \<Rightarrow> string option \<Rightarrow> dash_state \<Rightarrow> dash_state \<times> dash_response" where
  "redeem env now fresh token dest0 s =
     (case jwt_verify env now token s of
        (s, Inl _) \<Rightarrow> (s, RenderPage ''dead link'')
      | (s, Inr claims) \<Rightarrow>
          if tc_device_label claims \<noteq> SESSION_DEVICE_LABEL then (s, RenderPage ''dead link'')
          else
            (case revoke_once (de_tokens env) now (tc_jti claims) ''dashboard_link_redeemed'' (tc_sender_id claims)
                    (tc_exp claims) (ds_revocations s) of
               (_, False) \<Rightarrow> (s, RenderPage ''dead link'')
             | (tab, True) \<Rightarrow>
                 (let s = s\<lparr>ds_revocations := tab, ds_blacklist := blacklist_refresh tab now (ds_blacklist s)\<rparr>;
                      dest = link_safe_next dest0
                  in if is_enabled s (tc_sender_id claims)
                     then begin_challenge now fresh (tc_sender_id claims) (tc_is_admin claims) (Some dest) s
                     else (s, SignedIn (issue_session_cookie env now fresh (tc_sender_id claims) (tc_is_admin claims) s) dest))))"

text \<open>The challenge: \<open>two_factor.rs\<close>. The account label shown in the authenticator is the email.\<close>

definition account_label :: "dash_state \<Rightarrow> string \<Rightarrow> string" where
  "account_label s user = (case find_user s user of Some u \<Rightarrow> (case du_email u of Some e \<Rightarrow> e | None \<Rightarrow> user) | None \<Rightarrow> user)"

definition verify_code :: "dash_env \<Rightarrow> int \<Rightarrow> string \<Rightarrow> string \<Rightarrow> string \<Rightarrow> bool" where
  "verify_code env now secret account code =
     de_totp_ok env secret account now (filter (\<lambda>c. c \<noteq> CHR '' '' \<and> c \<noteq> CHR ''-'') (trim code))"

definition challenge_answer ::
  "dash_env \<Rightarrow> int \<Rightarrow> string \<Rightarrow> string \<Rightarrow> pending_2fa_row \<Rightarrow> string \<Rightarrow> dash_state \<Rightarrow> dash_state \<times> dash_response" where
  "challenge_answer env now fresh cid pending code s =
     (case load_secret env s (p2_user_id pending) of
        Inl _ \<Rightarrow> (s, ServerError)
      | Inr secret \<Rightarrow>
          (let user = p2_user_id pending;
               totp_ok = is_some_and (\<lambda>k. verify_code env now k (account_label s user) code) secret;
               (s, accepted) = (if totp_ok then (s, True) else consume_recovery_code env now user code s)
           in if \<not> accepted then (s, RenderPage ''Invalid code. Try again.'')
              else
                (let s = delete_pending cid s
                 in (s, SignedIn (issue_session_cookie env now fresh user (p2_is_admin pending) s)
                          (case p2_next pending of Some n \<Rightarrow> n | None \<Rightarrow> ''/dashboard/home'')))))"

definition challenge_submit ::
  "dash_env \<Rightarrow> int \<Rightarrow> string \<Rightarrow> string option \<Rightarrow> string \<Rightarrow> dash_state \<Rightarrow> dash_state \<times> dash_response" where
  "challenge_submit env now fresh cookie form_code s =
     (case cookie of
        None \<Rightarrow> (s, RedirectTo ''/dashboard/login'')
      | Some cid \<Rightarrow>
          (case peek_pending now cid s of
             None \<Rightarrow> (s, RenderPage ''challenge expired'')
           | Some pending \<Rightarrow>
               (case dash_check (nat now) (''2fa-challenge:'' @ cid) CHALLENGE_MAX_ATTEMPTS (from_secs (15 * 60)) (ds_limits s) of
                  (m, ok) \<Rightarrow>
                    if \<not> ok then (s\<lparr>ds_limits := m\<rparr>, RenderPage ''Too many attempts. Sign in again to restart.'')
                    else challenge_answer env now fresh cid pending (trim form_code) (s\<lparr>ds_limits := m\<rparr>))))"

section \<open>Behind the session\<close>

text \<open>\<open>urlenc::query_value\<close>: the unreserved bytes survive, every other byte becomes \<open>%XX\<close>.\<close>

definition HEX :: string where
  "HEX = ''0123456789ABCDEF''"

definition unreserved :: "char \<Rightarrow> bool" where
  "unreserved c \<longleftrightarrow> is_ascii_uppercase c \<or> is_ascii_lowercase c \<or> is_ascii_digit c \<or> c \<in> set ''-_.~''"

definition query_byte :: "char \<Rightarrow> string" where
  "query_byte c = (if unreserved c then [c] else [CHR ''%'', HEX ! (byte c div 16), HEX ! (byte c mod 16)])"

definition query_value :: "string \<Rightarrow> string" where
  "query_value raw = concat (map query_byte raw)"

record layer_request =
  lr_get_or_head :: bool
  lr_path :: string
  lr_path_and_query :: string

definition sign_in_redirect :: "layer_request \<Rightarrow> string" where
  "sign_in_redirect req =
     (if \<not> lr_get_or_head req then ''/dashboard/login''
      else ''/dashboard/login'' @ ''?next='' @ query_value (''/dashboard'' @ lr_path_and_query req))"

definition enforcement_exempt :: "string \<Rightarrow> bool" where
  "enforcement_exempt path =
     (let p = (case strip_prefix ''/dashboard'' path of Some rest \<Rightarrow> rest | None \<Rightarrow> path)
      in starts_with ''/settings/2fa'' p \<or> p = ''/logout'' \<or> starts_with ''/session/'' p)"

record password_change =
  pc_current :: string
  pc_new :: string
  pc_confirm :: string

text \<open>What the handlers behind the session layer decide about the session cookie.\<close>

datatype cookie_decision = CookieUntouched | CookieCleared | CookieSet token_claims

datatype handler =
    HandleOther
  | HandleLogout
  | HandleChangePassword password_change
  | HandleEnroll string
  | HandleConfirm string "string list"
  | HandleDisable
  | HandleRegenCodes "string list"

definition logout :: "dash_env \<Rightarrow> int \<Rightarrow> session_user \<Rightarrow> dash_state \<Rightarrow> dash_state \<times> cookie_decision" where
  "logout env now user s =
     (let s = fst (end_all_sessions (su_sender_id user) s);
          e = timestamp now + de_session_ttl_minutes env * 60;
          tab = revoke (de_tokens env) now (su_session_jti user) ''logout'' (su_sender_id user) e (ds_revocations s)
      in (s\<lparr>ds_revocations := tab, ds_blacklist := blacklist_refresh tab now (ds_blacklist s)\<rparr>, CookieCleared))"

definition change_password ::
  "dash_env \<Rightarrow> int \<Rightarrow> string \<Rightarrow> session_user \<Rightarrow> password_change \<Rightarrow> dash_state \<Rightarrow> dash_state \<times> cookie_decision" where
  "change_password env now fresh user form s =
     (case ds_credentials s (su_sender_id user) of
        None \<Rightarrow> (s, CookieUntouched)
      | Some phc \<Rightarrow>
          if de_password_verify env (pc_current form) phc \<noteq> Some True then (s, CookieUntouched)
          else if length (pc_new form) < de_min_password_len env then (s, CookieUntouched)
          else if pc_new form \<noteq> pc_confirm form then (s, CookieUntouched)
          else if pc_new form = pc_current form then (s, CookieUntouched)
          else
            (let s = s\<lparr>ds_credentials := (ds_credentials s)(su_sender_id user \<mapsto> de_password_hash env (pc_new form))\<rparr>;
                 (s, generation) = end_all_sessions (su_sender_id user) s
             in (s, CookieSet (mint_session_cookie env now fresh (su_sender_id user) (su_is_admin user) generation))))"

definition twofa_confirm :: "dash_env \<Rightarrow> int \<Rightarrow> session_user \<Rightarrow> string \<Rightarrow> string list \<Rightarrow> dash_state \<Rightarrow> dash_state" where
  "twofa_confirm env now user code codes s =
     (if state_of s (su_sender_id user) \<noteq> Pending2fa then s
      else (case load_secret env s (su_sender_id user) of
              Inr (Some k) \<Rightarrow>
                if verify_code env now k (account_label s (su_sender_id user)) (trim code)
                then (case confirm_enrollment env (su_sender_id user) codes s of None \<Rightarrow> s | Some s' \<Rightarrow> s')
                else s
            | _ \<Rightarrow> s))"

fun run_handler :: "dash_env \<Rightarrow> int \<Rightarrow> string \<Rightarrow> session_user \<Rightarrow> handler \<Rightarrow> dash_state \<Rightarrow> dash_state \<times> cookie_decision" where
  "run_handler env now fresh user HandleOther s = (s, CookieUntouched)"
| "run_handler env now fresh user HandleLogout s = logout env now user s"
| "run_handler env now fresh user (HandleChangePassword form) s = change_password env now fresh user form s"
| "run_handler env now fresh user (HandleEnroll secret) s = (begin_enrollment env (su_sender_id user) secret s, CookieUntouched)"
| "run_handler env now fresh user (HandleConfirm code codes) s = (twofa_confirm env now user code codes s, CookieUntouched)"
| "run_handler env now fresh user HandleDisable s =
     (if is_obliged s (su_sender_id user) then s else twofa_disable (su_sender_id user) s, CookieUntouched)"
| "run_handler env now fresh user (HandleRegenCodes codes) s =
     (if is_enabled s (su_sender_id user)
      then (case confirm_enrollment env (su_sender_id user) codes s of None \<Rightarrow> s | Some s' \<Rightarrow> s') else s, CookieUntouched)"

datatype layer_response = LayerRedirect string | LayerServed cookie_decision

definition refresh_session_layer ::
  "dash_env \<Rightarrow> int \<Rightarrow> string \<Rightarrow> layer_request \<Rightarrow> string option \<Rightarrow> handler \<Rightarrow> dash_state \<Rightarrow> dash_state \<times> layer_response" where
  "refresh_session_layer env now fresh req cookie h s =
     (case verify_session env now cookie s of
        (s, None) \<Rightarrow> (s, LayerRedirect (sign_in_redirect req))
      | (s, Some claims) \<Rightarrow>
          (let user = \<lparr>su_sender_id = tc_sender_id claims, su_is_admin = tc_is_admin claims, su_session_jti = tc_jti claims\<rparr>;
               generation = (case tc_session_gen claims of None \<Rightarrow> 0 | Some g \<Rightarrow> g)
           in if \<not> enforcement_exempt (lr_path req) \<and> needs_enrollment_trap s (su_sender_id user)
              then (s, LayerRedirect ''/dashboard/settings/2fa'')
              else (case run_handler env now fresh user h s of
                      (s', CookieUntouched) \<Rightarrow>
                        (s', LayerServed (CookieSet (mint_session_cookie env now fresh (su_sender_id user) (su_is_admin user) generation)))
                    | (s', decision) \<Rightarrow> (s', LayerServed decision))))"

definition lookup_live_reset :: "int \<Rightarrow> string \<Rightarrow> dash_state \<Rightarrow> string option" where
  "lookup_live_reset now token s =
     map_option rs_user_id (List.find (\<lambda>r. rs_reset_id r = token \<and> rs_consumed_at r = None \<and> now < rs_expires_at r) (ds_resets s))"

definition reset_submit ::
  "dash_env \<Rightarrow> int \<Rightarrow> string \<Rightarrow> string \<Rightarrow> string \<Rightarrow> dash_state \<Rightarrow> dash_state \<times> dash_response" where
  "reset_submit env now token pw confirm s =
     (case lookup_live_reset now token s of
        None \<Rightarrow> (s, RenderPage ''dead link'')
      | Some user \<Rightarrow>
          if length pw < de_min_password_len env then (s, RenderPage ''too short'')
          else if pw \<noteq> confirm then (s, RenderPage ''The two passwords do not match.'')
          else
            (let s = s\<lparr>ds_resets := map (\<lambda>r. if rs_reset_id r = token \<and> rs_consumed_at r = None \<and> now < rs_expires_at r
                                          then r\<lparr>rs_consumed_at := Some now\<rparr> else r) (ds_resets s),
                       ds_credentials := (ds_credentials s)(user \<mapsto> de_password_hash env pw)\<rparr>
             in (fst (end_all_sessions user s), RenderPage ''reset done'')))"

section \<open>Runs of the dashboard\<close>

text \<open>
  The state of a run: the clock, the database, every session-shaped token minted so far (cookies and
  magic links) and everybody who has passed a first factor.
\<close>

datatype dash_op =
    DLogin string login_submission
  | DRedeem string "string option"
  | DChallenge "string option" string
  | DRequest layer_request "string option" handler
  | DReset string string string
  | DMintLink string bool
  | DPurge

fun minted_by :: "dash_response \<Rightarrow> token_claims list" where
  "minted_by (SignedIn c _) = [c]"
| "minted_by _ = []"

fun layer_minted :: "layer_response \<Rightarrow> token_claims list" where
  "layer_minted (LayerServed (CookieSet c)) = [c]"
| "layer_minted _ = []"

fun run_dash_op :: "dash_env \<Rightarrow> int \<Rightarrow> string \<Rightarrow> dash_op \<Rightarrow> dash_state \<Rightarrow> dash_state \<times> token_claims list" where
  "run_dash_op env now fresh (DLogin ip form) s = map_prod id minted_by (login_submit env now fresh ip form s)"
| "run_dash_op env now fresh (DRedeem token dest) s = map_prod id minted_by (redeem env now fresh token dest s)"
| "run_dash_op env now fresh (DChallenge cookie code) s = map_prod id minted_by (challenge_submit env now fresh cookie code s)"
| "run_dash_op env now fresh (DRequest req cookie h) s =
     map_prod id layer_minted (refresh_session_layer env now fresh req cookie h s)"
| "run_dash_op env now fresh (DReset token pw confirm) s = map_prod id minted_by (reset_submit env now token pw confirm s)"
| "run_dash_op env now fresh (DMintLink user admin) s = (s, [dashboard_link_claims now fresh user admin])"
| "run_dash_op env now fresh DPurge s =
     (s\<lparr>ds_revocations := fst (purge_expired_revocations now (ds_revocations s))\<rparr>, [])"

text \<open>Who passes a first factor with an operation: a password that matches, a link not yet used.\<close>

fun first_factor :: "dash_env \<Rightarrow> int \<Rightarrow> dash_op \<Rightarrow> dash_state \<Rightarrow> string option" where
  "first_factor env now (DLogin ip form) s =
     (case lookup_login s (trim (lf_email form)) of
        Some (user, phc, _) \<Rightarrow> if de_password_verify env (lf_password form) phc = Some True then Some user else None
      | None \<Rightarrow> None)"
| "first_factor env now (DRedeem token dest) s =
     (case snd (jwt_verify env now token s) of
        Inr claims \<Rightarrow>
          if tc_device_label claims = SESSION_DEVICE_LABEL \<and> tc_jti claims \<notin> set (map rv_jti (ds_revocations s))
          then Some (tc_sender_id claims) else None
      | Inl _ \<Rightarrow> None)"
| "first_factor env now _ s = None"

definition claim_gen :: "token_claims \<Rightarrow> int" where
  "claim_gen c = (case tc_session_gen c of None \<Rightarrow> 0 | Some g \<Rightarrow> g)"

text \<open>A token that decodes as a session was minted by this server: signatures are not forged.\<close>

definition unforged :: "dash_env \<Rightarrow> int \<Rightarrow> token_claims list \<Rightarrow> string \<Rightarrow> bool" where
  "unforged env now minted token \<longleftrightarrow>
     (\<forall>claims. te_decode (de_tokens env) (de_secret env) (timestamp now) token = Inr claims
       \<longrightarrow> tc_device_label claims = SESSION_DEVICE_LABEL \<longrightarrow> claims \<in> set minted)"

fun op_unforged :: "dash_env \<Rightarrow> int \<Rightarrow> token_claims list \<Rightarrow> dash_op \<Rightarrow> bool" where
  "op_unforged env now minted (DRedeem token _) = unforged env now minted token"
| "op_unforged env now minted (DRequest _ (Some token) _) = unforged env now minted token"
| "op_unforged env now minted _ = True"

type_synonym dash_run = "int \<times> dash_state \<times> token_claims list \<times> string list"

inductive dash_step :: "dash_env \<Rightarrow> (dash_op \<Rightarrow> token_claims list \<Rightarrow> bool) \<Rightarrow> dash_run \<Rightarrow> dash_run \<Rightarrow> bool" for env permitted where
  dash_step_op: "clock \<le> now \<Longrightarrow> op_unforged env now ck op \<Longrightarrow> run_dash_op env now fresh op s = (s', new) \<Longrightarrow> permitted op new \<Longrightarrow>
    dash_step env permitted (clock, s, ck, ff) (now, s', ck @ new, ff @ opt_list (first_factor env now op s))"

subsection \<open>Generations only grow\<close>

lemma session_generation_frame [simp]:
  "session_generation (s\<lparr>ds_blacklist := b\<rparr>) u = session_generation s u"
  "session_generation (s\<lparr>ds_revocations := r\<rparr>) u = session_generation s u"
  "session_generation (s\<lparr>ds_limits := l\<rparr>) u = session_generation s u"
  "session_generation (s\<lparr>ds_pending := p\<rparr>) u = session_generation s u"
  "session_generation (s\<lparr>ds_recovery := rc\<rparr>) u = session_generation s u"
  "session_generation (s\<lparr>ds_twofa := tf\<rparr>) u = session_generation s u"
  "session_generation (s\<lparr>ds_resets := rs\<rparr>) u = session_generation s u"
  "session_generation (s\<lparr>ds_credentials := cr\<rparr>) u = session_generation s u"
  by (simp_all add: session_generation_def)

lemma end_all_sessions_gen:
  "session_generation (fst (end_all_sessions user s)) u = session_generation s u + (if u = user then 1 else 0)"
  "snd (end_all_sessions user s) = session_generation s user + 1"
  by (simp_all add: end_all_sessions_def session_generation_def Let_def split: option.splits)

lemma claim_gen_mint [simp]:
  "claim_gen (mint_session_cookie env now jti u a g) = g"
  "tc_sender_id (mint_session_cookie env now jti u a g) = u"
  "claim_gen (issue_session_cookie env now jti u a s) = session_generation s u"
  "tc_sender_id (issue_session_cookie env now jti u a s) = u"
  "claim_gen (dashboard_link_claims now jti u a) = 0"
  "tc_sender_id (dashboard_link_claims now jti u a) = u"
  by (simp_all add: mint_session_cookie_def issue_session_cookie_def build_session_claims_def claim_gen_def claims_new_def
      dashboard_link_claims_def Let_def)

lemma jwt_verify_gen [simp]: "session_generation (fst (jwt_verify env now token s)) u = session_generation s u"
  by (simp add: jwt_verify_def split: prod.splits)

lemma jwt_verify_Inr:
  "jwt_verify env now token s = (s', Inr claims) \<Longrightarrow> te_decode (de_tokens env) (de_secret env) (timestamp now) token = Inr claims"
  by (auto simp: jwt_verify_def verify_def verify_offline_def split: prod.splits sum.splits bool.splits)

lemma verify_session_frame:
  assumes "verify_session env now cookie s = (s', res)"
  shows "session_generation s' u = session_generation s u"
proof (cases cookie)
  case None
  then show ?thesis using assms by (simp add: verify_session_def)
next
  case (Some token)
  have "s' = fst (jwt_verify env now token s)"
    using assms Some by (auto simp: verify_session_def split: prod.splits sum.splits if_splits)
  then show ?thesis by simp
qed

lemma verify_session_Some:
  assumes "verify_session env now cookie s = (s', Some claims)"
  obtains token where "cookie = Some token" "te_decode (de_tokens env) (de_secret env) (timestamp now) token = Inr claims"
    "tc_device_label claims = SESSION_DEVICE_LABEL" "session_generation s (tc_sender_id claims) \<le> claim_gen claims"
proof -
  obtain token where token: "cookie = Some token"
    using assms by (cases cookie) (auto simp: verify_session_def)
  then have v: "jwt_verify env now token s = (s', Inr claims)" "tc_device_label claims = SESSION_DEVICE_LABEL"
    "session_generation s' (tc_sender_id claims) \<le> claim_gen claims"
    using assms by (auto simp: verify_session_def claim_gen_def not_less split: prod.splits sum.splits if_splits)
  with jwt_verify_Inr [OF v(1)] verify_session_frame [OF assms] token show thesis by (intro that) simp_all
qed

subsection \<open>What each operation does to the generations\<close>

lemma begin_challenge_frame:
  assumes "begin_challenge now fresh u a d s = (s', out)"
  shows "session_generation s' v = session_generation s v" "minted_by out = []"
  using assms by (auto simp: begin_challenge_def create_pending_def split: option.splits if_splits)

lemma login_answer_gen:
  assumes "login_answer env now fresh form s = (s', out)"
  shows "session_generation s' v = session_generation s v"
    and "\<forall>c \<in> set (minted_by out). claim_gen c = session_generation s (tc_sender_id c)"
  using assms
  by (auto simp: login_answer_def Let_def split: if_splits prod.splits option.splits dest: begin_challenge_frame)

lemma login_submit_answer:
  assumes "login_submit env now fresh ip form s = (s', out)"
  obtains (early) "s' = s" "minted_by out = []"
  | (limited) l where "s' = s\<lparr>ds_limits := l\<rparr>" "minted_by out = []"
  | (answered) l where "login_answer env now fresh form (s\<lparr>ds_limits := l\<rparr>) = (s', out)"
proof (cases "trim (lf_email form) = [] \<or> lf_password form = []")
  case True
  then show thesis using assms by (intro early) (auto simp: login_submit_def Let_def)
next
  case False
  let ?c1 = "dash_check (nat now) (''login:email:'' @ map to_ascii_lower (trim (lf_email form))) LOGIN_MAX_PER_EMAIL LOGIN_WINDOW (ds_limits s)"
  let ?c2 = "dash_check (nat now) (''login:ip:'' @ ip) LOGIN_MAX_PER_IP LOGIN_WINDOW (fst ?c1)"
  have eq: "login_submit env now fresh ip form s = (if \<not> snd ?c1 \<or> \<not> snd ?c2
      then (s\<lparr>ds_limits := fst ?c2\<rparr>, RenderPage ''Too many attempts. Wait a few minutes and try again.'')
      else login_answer env now fresh form (s\<lparr>ds_limits := fst ?c2\<rparr>))"
    unfolding login_submit_def Let_def case_prod_beta using False by (simp only: if_False)
  show thesis
  proof (cases "\<not> snd ?c1 \<or> \<not> snd ?c2")
    case True
    then show thesis
      using assms unfolding eq by (intro limited [of "fst ?c2"]) (simp_all only: if_True prod.inject, auto)
  next
    case False
    then show thesis
      using assms unfolding eq by (intro answered [of "fst ?c2"]) (simp only: if_False)
  qed
qed

lemma login_submit_gen:
  assumes "login_submit env now fresh ip form s = (s', out)"
  shows "session_generation s' v = session_generation s v"
    and "\<forall>c \<in> set (minted_by out). claim_gen c = session_generation s (tc_sender_id c)"
  using assms by (cases rule: login_submit_answer; auto dest: login_answer_gen)+

lemma redeem_gen:
  assumes "redeem env now fresh token dest s = (s', out)"
  shows "session_generation s' v = session_generation s v"
    and "\<forall>c \<in> set (minted_by out). claim_gen c = session_generation s (tc_sender_id c)"
proof -
  obtain s1 res where v: "jwt_verify env now token s = (s1, res)" by fastforce
  then have s1: "session_generation s1 w = session_generation s w" for w
    using jwt_verify_gen by (metis fst_conv)
  show "session_generation s' v = session_generation s v"
    and "\<forall>c \<in> set (minted_by out). claim_gen c = session_generation s (tc_sender_id c)"
    using assms v s1
    by (auto simp: redeem_def Let_def split: if_splits prod.splits sum.splits bool.splits dest: begin_challenge_frame)
qed

lemma challenge_submit_gen:
  assumes "challenge_submit env now fresh cookie code s = (s', out)"
  shows "session_generation s' v = session_generation s v"
    and "\<forall>c \<in> set (minted_by out). claim_gen c = session_generation s (tc_sender_id c)"
  using assms
  by (auto simp: challenge_submit_def challenge_answer_def Let_def delete_pending_def consume_recovery_code_def
      split: if_splits prod.splits sum.splits option.splits)

lemma logout_gen:
  "session_generation (fst (logout env now user s)) v = session_generation s v + (if v = su_sender_id user then 1 else 0)"
  "snd (logout env now user s) = CookieCleared"
  by (simp_all add: logout_def Let_def end_all_sessions_gen)

lemma change_password_cases:
  assumes "change_password env now fresh user form s = (s', d)"
  obtains (refused) "s' = s" "d = CookieUntouched"
  | (changed) "\<And>v. session_generation s' v = session_generation s v + (if v = su_sender_id user then 1 else 0)"
      "d = CookieSet (mint_session_cookie env now fresh (su_sender_id user) (su_is_admin user)
             (session_generation s (su_sender_id user) + 1))"
proof -
  let ?s = "s\<lparr>ds_credentials := (ds_credentials s)(su_sender_id user \<mapsto> de_password_hash env (pc_new form))\<rparr>"
  have "s' = s \<and> d = CookieUntouched \<or> (s', d) = (fst (end_all_sessions (su_sender_id user) ?s),
      CookieSet (mint_session_cookie env now fresh (su_sender_id user) (su_is_admin user) (snd (end_all_sessions (su_sender_id user) ?s))))"
    using assms by (auto simp: change_password_def Let_def split: option.splits if_splits prod.splits)
  then show thesis
  proof
    assume *: "(s', d) = (fst (end_all_sessions (su_sender_id user) ?s),
      CookieSet (mint_session_cookie env now fresh (su_sender_id user) (su_is_admin user) (snd (end_all_sessions (su_sender_id user) ?s))))"
    then show thesis by (intro changed) (simp_all add: end_all_sessions_gen)
  qed (simp add: refused)
qed

lemma twofa_handlers_gen [simp]:
  "session_generation (begin_enrollment env u secret s) v = session_generation s v"
  "session_generation (twofa_disable u s) v = session_generation s v"
  "session_generation (twofa_confirm env now user code codes s) v = session_generation s v"
  "session_generation (case confirm_enrollment env u codes s of None \<Rightarrow> s | Some s' \<Rightarrow> s') v = session_generation s v"
  by (auto simp: begin_enrollment_def twofa_disable_def twofa_confirm_def confirm_enrollment_def split: option.splits sum.splits)

lemma run_handler_cases:
  assumes "run_handler env now fresh user h s = (s', d)"
  obtains (kept) "\<And>v. session_generation s' v = session_generation s v" "d = CookieUntouched" "h \<noteq> HandleLogout"
  | (ended) "\<And>v. session_generation s' v = session_generation s v + (if v = su_sender_id user then 1 else 0)"
      "d = CookieCleared \<or> d = CookieSet (mint_session_cookie env now fresh (su_sender_id user) (su_is_admin user)
             (session_generation s (su_sender_id user) + 1))"
proof (cases h)
  case HandleLogout
  then have "s' = fst (logout env now user s)" "d = snd (logout env now user s)"
    using assms by simp_all
  then show thesis by (intro ended) (simp_all add: logout_gen)
next
  case (HandleChangePassword form)
  then have "change_password env now fresh user form s = (s', d)" using assms by simp
  then show thesis
    by (cases rule: change_password_cases) (auto intro: kept ended simp: HandleChangePassword)
next
  case (HandleRegenCodes codes)
  then show thesis using assms by (intro kept) (auto simp del: option.case)
qed (use assms in \<open>auto intro!: kept\<close>)

text \<open>A request with a session cookie: who it is for, and what it mints.\<close>

lemma layer_cases:
  assumes "refresh_session_layer env now fresh req cookie h s = (s', out)"
  obtains (quiet) "\<And>v. session_generation s' v = session_generation s v" "layer_minted out = []"
  | (served) claims token where "cookie = Some token"
      "te_decode (de_tokens env) (de_secret env) (timestamp now) token = Inr claims"
      "tc_device_label claims = SESSION_DEVICE_LABEL" "session_generation s (tc_sender_id claims) \<le> claim_gen claims"
      "\<And>v. v \<noteq> tc_sender_id claims \<Longrightarrow> session_generation s' v = session_generation s v"
      "session_generation s (tc_sender_id claims) \<le> session_generation s' (tc_sender_id claims)"
      "\<forall>c \<in> set (layer_minted out). tc_sender_id c = tc_sender_id claims \<and>
         (claim_gen c = claim_gen claims \<or> claim_gen c = session_generation s' (tc_sender_id claims))"
proof -
  obtain s1 res where v: "verify_session env now cookie s = (s1, res)" by fastforce
  have s1: "session_generation s1 w = session_generation s w" for w
    by (rule verify_session_frame [OF v])
  show thesis
  proof (cases res)
    case None
    then show thesis using assms v s1 by (intro quiet) (auto simp: refresh_session_layer_def)
  next
    case (Some claims)
    let ?user = "\<lparr>su_sender_id = tc_sender_id claims, su_is_admin = tc_is_admin claims, su_session_jti = tc_jti claims\<rparr>"
    obtain token where token: "cookie = Some token" "te_decode (de_tokens env) (de_secret env) (timestamp now) token = Inr claims"
      "tc_device_label claims = SESSION_DEVICE_LABEL" "session_generation s (tc_sender_id claims) \<le> claim_gen claims"
      using v [unfolded Some] by (rule verify_session_Some)
    obtain s2 d where h: "run_handler env now fresh ?user h s1 = (s2, d)" by fastforce
    show thesis
    proof (cases "\<not> enforcement_exempt (lr_path req) \<and> needs_enrollment_trap s1 (tc_sender_id claims)")
      case True
      then show thesis using assms v Some s1 by (intro quiet) (auto simp: refresh_session_layer_def)
    next
      case False
      then have out: "s' = s2" "layer_minted out = (case d of
          CookieUntouched \<Rightarrow> [mint_session_cookie env now fresh (tc_sender_id claims) (tc_is_admin claims) (claim_gen claims)]
        | CookieCleared \<Rightarrow> [] | CookieSet c \<Rightarrow> [c])"
        using assms v Some h by (auto simp: refresh_session_layer_def claim_gen_def split: cookie_decision.splits)
      from h show thesis
        by (cases rule: run_handler_cases) (use token out s1 in \<open>auto intro!: served split: cookie_decision.splits\<close>)
    qed
  qed
qed

lemma reset_submit_gen:
  assumes "reset_submit env now token pw confirm s = (s', out)"
  shows "session_generation s v \<le> session_generation s' v" "minted_by out = []"
proof -
  have "s' = s \<or> (\<exists>user cr rs. s' = fst (end_all_sessions user (s\<lparr>ds_resets := rs, ds_credentials := cr\<rparr>)))" "minted_by out = []"
    using assms by (auto simp: reset_submit_def Let_def split: option.splits if_splits)
  then show "session_generation s v \<le> session_generation s' v" "minted_by out = []"
    by (auto simp: end_all_sessions_gen)
qed

section \<open>Signing out everywhere\<close>

text \<open>
  What the erasure of a person (\<open>remove_user\<close> of \<open>enrollment.rs\<close>) takes from these tables: the row of
  \<open>enrollment_users\<close> and, by foreign key, everything that hangs on it, the generation of the sessions included.
\<close>

definition erase_person :: "string \<Rightarrow> dash_state \<Rightarrow> dash_state" where
  "erase_person user d =
     d\<lparr>ds_users := filter (\<lambda>u. du_user_id u \<noteq> user) (ds_users d),
       ds_credentials := (ds_credentials d)(user := None), ds_generations := (ds_generations d)(user := None),
       ds_twofa := (ds_twofa d)(user := None), ds_recovery := filter (\<lambda>r. rc_user_id r \<noteq> user) (ds_recovery d),
       ds_pending := filter (\<lambda>r. p2_user_id r \<noteq> user) (ds_pending d),
       ds_resets := filter (\<lambda>r. rs_user_id r \<noteq> user) (ds_resets d)\<rparr>"

lemma erase_person_gen: "session_generation (erase_person v s) u = (if u = v then 0 else session_generation s u)"
  by (simp add: erase_person_def session_generation_def)

text \<open>A run in which people are erased too, all but one.\<close>

inductive roster_step ::
  "dash_env \<Rightarrow> (dash_op \<Rightarrow> token_claims list \<Rightarrow> bool) \<Rightarrow> string \<Rightarrow> dash_run \<Rightarrow> dash_run \<Rightarrow> bool" for env permitted spared where
  roster_dash: "dash_step env permitted x y \<Longrightarrow> roster_step env permitted spared x y"
| roster_erase: "clock \<le> now \<Longrightarrow> v \<noteq> spared \<Longrightarrow>
    roster_step env permitted spared (clock, s, ck, ff) (now, erase_person v s, ck, ff)"

text \<open>The tokens minted for a person never run ahead of the generation of their sessions.\<close>

definition cookies_ok :: "string \<Rightarrow> dash_run \<Rightarrow> bool" where
  "cookies_ok u x \<longleftrightarrow> (case x of (clock, s, ck, ff) \<Rightarrow>
     0 \<le> session_generation s u \<and> (\<forall>c \<in> set ck. tc_sender_id c = u \<longrightarrow> claim_gen c \<le> session_generation s u))"



lemma map_prod_idE:
  assumes "map_prod id f x = (s', new)"
  obtains out where "x = (s', out)" "new = f out"
  using assms by (cases x) simp

lemma run_dash_op_gen:
  assumes "run_dash_op env now fresh op s = (s', new)" "op_unforged env now ck op" "cookies_ok u (clock, s, ck, ff)"
  shows "session_generation s u \<le> session_generation s' u"
    and "\<forall>c \<in> set new. tc_sender_id c = u \<longrightarrow> claim_gen c \<le> session_generation s' u"
proof -
  have "session_generation s u \<le> session_generation s' u \<and>
      (\<forall>c \<in> set new. tc_sender_id c = u \<longrightarrow> claim_gen c \<le> session_generation s' u)"
  proof (cases op)
    case (DLogin ip form)
    then obtain out where "login_submit env now fresh ip form s = (s', out)" "new = minted_by out"
      using assms(1) by (auto elim: map_prod_idE)
    then show ?thesis using login_submit_gen by fastforce
  next
    case (DRedeem token dest)
    then obtain out where "redeem env now fresh token dest s = (s', out)" "new = minted_by out"
      using assms(1) by (auto elim: map_prod_idE)
    then show ?thesis using redeem_gen by fastforce
  next
    case (DChallenge cookie code)
    then obtain out where "challenge_submit env now fresh cookie code s = (s', out)" "new = minted_by out"
      using assms(1) by (auto elim: map_prod_idE)
    then show ?thesis using challenge_submit_gen by fastforce
  next
    case (DRequest req cookie h)
    then obtain out where r: "refresh_session_layer env now fresh req cookie h s = (s', out)" and new: "new = layer_minted out"
      using assms(1) by (auto simp: map_prod_def split: prod.splits)
    from r show ?thesis
    proof (cases rule: layer_cases)
      case quiet
      then show ?thesis using new by simp
    next
      case (served claims token)
      have "tc_sender_id claims = u \<Longrightarrow> claim_gen claims \<le> session_generation s u"
        using assms(2,3) DRequest served(1,2,3) by (auto simp: unforged_def cookies_ok_def)
      with served new show ?thesis by (cases "u = tc_sender_id claims") auto
    qed
  next
    case (DReset token pw confirm)
    then obtain out where "reset_submit env now token pw confirm s = (s', out)" "new = minted_by out"
      using assms(1) by (auto elim: map_prod_idE)
    then show ?thesis using reset_submit_gen by fastforce
  next
    case (DMintLink user admin)
    then show ?thesis using assms(1,3) by (auto simp: cookies_ok_def)
  next
    case DPurge
    then show ?thesis using assms(1) by auto
  qed
  then show "session_generation s u \<le> session_generation s' u"
    and "\<forall>c \<in> set new. tc_sender_id c = u \<longrightarrow> claim_gen c \<le> session_generation s' u" by blast+
qed

lemma cookies_ok_step:
  assumes "cookies_ok u x" "dash_step env permitted x y"
  shows "cookies_ok u y"
  using assms(2)
proof cases
  case (dash_step_op clock now ck op fresh s s' new ff)
  note ok = assms(1) [unfolded dash_step_op(1)]
  note gen = run_dash_op_gen [OF dash_step_op(5,4) ok]
  have "0 \<le> session_generation s' u"
    using ok gen(1) by (auto simp: cookies_ok_def intro: order_trans)
  moreover have "claim_gen c \<le> session_generation s' u" if "c \<in> set ck" "tc_sender_id c = u" for c
    using ok that gen(1) by (auto simp: cookies_ok_def intro: order_trans)
  ultimately show ?thesis
    using gen(2) unfolding dash_step_op(2) cookies_ok_def by auto
qed

interpretation dash_run: stepping "roster_step env permitted u" "cookies_ok u" for env permitted u
proof unfold_locales
  show "cookies_ok u y" if "cookies_ok u x" "roster_step env permitted u x y" for x y
    using that(2)
  proof cases
    case roster_dash
    then show ?thesis by (rule cookies_ok_step [OF that(1)])
  qed (use that(1) in \<open>auto simp: cookies_ok_def erase_person_gen\<close>)
qed






section \<open>Both factors\<close>

definition pending_earned :: "dash_run \<Rightarrow> bool" where
  "pending_earned x \<longleftrightarrow> (case x of (clock, s, ck, ff) \<Rightarrow> p2_user_id ` set (ds_pending s) \<subseteq> set ff)"

lemma begin_challenge_pending:
  "p2_user_id ` set (ds_pending (fst (begin_challenge now fresh u a d s))) \<subseteq> insert u (p2_user_id ` set (ds_pending s))"
  by (auto simp: begin_challenge_def create_pending_def split: option.splits)

lemma lookup_login_limits [simp]: "lookup_login (s\<lparr>ds_limits := l\<rparr>) e = lookup_login s e"
  by (simp add: lookup_login_def split: option.splits)

lemma is_enabled_frame [simp]:
  "is_enabled (s\<lparr>ds_limits := l\<rparr>) u = is_enabled s u"
  "is_enabled (s\<lparr>ds_blacklist := b\<rparr>) u = is_enabled s u"
  "is_enabled (s\<lparr>ds_revocations := r\<rparr>) u = is_enabled s u"
  by (simp_all add: is_enabled_def state_of_def)

lemma login_answer_cases:
  assumes "login_answer env now fresh form s = (s', out)"
  obtains (no) "ds_pending s' = ds_pending s" "minted_by out = []"
  | (challenged) u a d where "first_factor env now (DLogin ip form) s = Some u" "is_enabled s u"
      "begin_challenge now fresh u a d s = (s', out)"
  | (signed) u a dest where "first_factor env now (DLogin ip form) s = Some u" "\<not> is_enabled s u"
      "s' = s" "out = SignedIn (issue_session_cookie env now fresh u a s) dest"
proof (cases "first_factor env now (DLogin ip form) s")
  case None
  then show thesis
    using assms by (intro no) (auto simp: login_answer_def Let_def split: option.splits prod.splits if_splits)
next
  case (Some u)
  then obtain phc a where row: "lookup_login s (trim (lf_email form)) = Some (u, phc, a)"
    "de_password_verify env (lf_password form) phc = Some True"
    by (auto split: option.splits if_splits)
  show thesis
  proof (cases "is_enabled s u")
    case True
    then show thesis
      using assms row by (intro challenged [OF Some True]) (auto simp: login_answer_def Let_def)
  next
    case False
    then show thesis
      using assms row by (intro signed [OF Some False]) (auto simp: login_answer_def Let_def)
  qed
qed

lemma login_submit_cases:
  assumes "login_submit env now fresh ip form s = (s', out)"
  obtains (refused) "ds_pending s' = ds_pending s" "minted_by out = []"
  | (challenged) u a l d where "first_factor env now (DLogin ip form) s = Some u" "is_enabled s u"
      "begin_challenge now fresh u a d (s\<lparr>ds_limits := l\<rparr>) = (s', out)"
  | (signed) u a l dest where "first_factor env now (DLogin ip form) s = Some u" "\<not> is_enabled s u"
      "s' = s\<lparr>ds_limits := l\<rparr>" "out = SignedIn (issue_session_cookie env now fresh u a (s\<lparr>ds_limits := l\<rparr>)) dest"
  using assms
proof (cases rule: login_submit_answer)
  case early
  then show thesis by (intro that(1)) auto
next
  case (limited l)
  then show thesis by (intro that(1)) auto
next
  case (answered l)
  note frame = first_factor.simps(1) lookup_login_limits is_enabled_frame
  from answered show thesis
  proof (cases rule: login_answer_cases [where ip = ip])
    case no
    then show thesis by (intro that(1)) simp_all
  next
    case (challenged u a d)
    then show thesis by (intro that(2) [of u a d l]) (simp_all only: frame)
  next
    case (signed u a dest)
    then show thesis by (intro that(3) [of u l a dest]) (simp_all only: frame not_False_eq_True)
  qed
qed

lemma redeem_cases:
  assumes "redeem env now fresh token dest s = (s', out)"
  obtains (refused) "ds_pending s' = ds_pending s" "minted_by out = []"
  | (challenged) u a d r b where "first_factor env now (DRedeem token dest) s = Some u" "is_enabled s u"
      "begin_challenge now fresh u a d (s\<lparr>ds_revocations := r, ds_blacklist := b\<rparr>) = (s', out)"
  | (signed) u a d where "first_factor env now (DRedeem token dest) s = Some u" "\<not> is_enabled s u"
      "ds_pending s' = ds_pending s" "out = SignedIn (issue_session_cookie env now fresh u a s') d"
proof -
  obtain b res where "verify (de_tokens env) (de_secret env) (ds_revocations s) now token (ds_blacklist s) = (b, res)"
    by fastforce
  then have v: "jwt_verify env now token s = (s\<lparr>ds_blacklist := b\<rparr>, res)"
    by (simp add: jwt_verify_def)
  show thesis
  proof (cases "\<exists>claims. res = Inr claims \<and> tc_device_label claims = SESSION_DEVICE_LABEL \<and>
      tc_jti claims \<notin> set (map rv_jti (ds_revocations s))")
    case False
    then show thesis
      using assms v by (intro refused) (auto simp: redeem_def revoke_once_def split: sum.splits if_splits)
  next
    case True
    then obtain claims where c: "res = Inr claims" "tc_device_label claims = SESSION_DEVICE_LABEL"
      "tc_jti claims \<notin> set (map rv_jti (ds_revocations s))" by blast
    then have ff: "first_factor env now (DRedeem token dest) s = Some (tc_sender_id claims)"
      using v by simp
    obtain tab where "revoke_once (de_tokens env) now (tc_jti claims) ''dashboard_link_redeemed'' (tc_sender_id claims)
        (tc_exp claims) (ds_revocations s) = (tab, True)"
      using c(3) by (simp add: revoke_once_def)
    then have r: "redeem env now fresh token dest s = (let s1 = s\<lparr>ds_revocations := tab, ds_blacklist := blacklist_refresh tab now b\<rparr>
        in if is_enabled s (tc_sender_id claims)
           then begin_challenge now fresh (tc_sender_id claims) (tc_is_admin claims) (Some (link_safe_next dest)) s1
           else (s1, SignedIn (issue_session_cookie env now fresh (tc_sender_id claims) (tc_is_admin claims) s1) (link_safe_next dest)))"
      using v c(1,2) by (simp add: redeem_def Let_def)
    show thesis
    proof (cases "is_enabled s (tc_sender_id claims)")
      case True
      then show thesis using r assms by (intro challenged [OF ff True]) (simp add: Let_def)
    next
      case False
      then show thesis using r assms by (intro signed [OF ff False]) (auto simp: Let_def)
    qed
  qed
qed

text \<open>What the second factor asks for.\<close>

definition second_factor_ok :: "dash_env \<Rightarrow> int \<Rightarrow> string \<Rightarrow> string \<Rightarrow> dash_state \<Rightarrow> bool" where
  "second_factor_ok env now user code s \<longleftrightarrow>
     (\<exists>k. load_secret env s user = Inr (Some k) \<and> verify_code env now k (account_label s user) (trim code))
     \<or> snd (consume_recovery_code env now user (trim code) s)"

lemma second_factor_frame:
  "load_secret env (s\<lparr>ds_limits := l\<rparr>) u = load_secret env s u"
  "account_label (s\<lparr>ds_limits := l\<rparr>) u = account_label s u"
  "snd (consume_recovery_code env now u cd (s\<lparr>ds_limits := l\<rparr>)) = snd (consume_recovery_code env now u cd s)"
  by (simp_all add: load_secret_def account_label_def find_user_def consume_recovery_code_def split: option.splits)

lemma challenge_answer_cases:
  assumes "challenge_answer env now fresh cid p (trim code) s = (s', out)"
  obtains (no) "set (ds_pending s') \<subseteq> set (ds_pending s)" "minted_by out = []"
  | (yes) c where "second_factor_ok env now (p2_user_id p) code s"
      "set (ds_pending s') \<subseteq> set (ds_pending s)" "minted_by out = [c]" "tc_sender_id c = p2_user_id p"
proof (cases "load_secret env s (p2_user_id p)")
  case (Inl e)
  then show thesis using assms by (intro no) (auto simp: challenge_answer_def)
next
  case (Inr secret)
  let ?totp = "is_some_and (\<lambda>k. verify_code env now k (account_label s (p2_user_id p)) (trim code)) secret"
    and ?r = "consume_recovery_code env now (p2_user_id p) (trim code) s"
  have pend: "ds_pending (fst ?r) = ds_pending s" by (simp add: consume_recovery_code_def)
  show thesis
  proof (cases "?totp \<or> snd ?r")
    case True
    then have "second_factor_ok env now (p2_user_id p) code s"
      using Inr by (auto simp: second_factor_ok_def is_some_and_iff)
    moreover have "set (ds_pending s') \<subseteq> set (ds_pending s) \<and> (\<exists>c. minted_by out = [c] \<and> tc_sender_id c = p2_user_id p)"
      using assms Inr True pend
      by (auto simp: challenge_answer_def Let_def delete_pending_def split: if_splits prod.splits)
    ultimately show thesis using yes by blast
  next
    case False
    then show thesis
      using assms Inr pend by (intro no) (auto simp: challenge_answer_def Let_def split: prod.splits)
  qed
qed

lemma challenge_submit_cases:
  assumes "challenge_submit env now fresh cookie code s = (s', out)"
  obtains (refused) "set (ds_pending s') \<subseteq> set (ds_pending s)" "minted_by out = []"
  | (signed) cid p c where "cookie = Some cid" "peek_pending now cid s = Some p" "second_factor_ok env now (p2_user_id p) code s"
      "set (ds_pending s') \<subseteq> set (ds_pending s)" "minted_by out = [c]" "tc_sender_id c = p2_user_id p"
proof (cases "\<exists>cid p m. cookie = Some cid \<and> peek_pending now cid s = Some p \<and>
    challenge_answer env now fresh cid p (trim code) (s\<lparr>ds_limits := m\<rparr>) = (s', out)")
  case True
  then obtain cid p m where *: "cookie = Some cid" "peek_pending now cid s = Some p"
    and a: "challenge_answer env now fresh cid p (trim code) (s\<lparr>ds_limits := m\<rparr>) = (s', out)" by blast
  from a show thesis
  proof (cases rule: challenge_answer_cases)
    case no
    then show thesis by (intro refused) simp_all
  next
    case (yes c)
    then have "second_factor_ok env now (p2_user_id p) code s" "set (ds_pending s') \<subseteq> set (ds_pending s)"
      by (simp_all add: second_factor_ok_def second_factor_frame)
    then show thesis using yes(3,4) by (intro signed [OF *])
  qed
next
  case False
  then show thesis
    using assms by (intro refused) (auto simp: challenge_submit_def split: option.splits prod.splits if_splits)
qed

lemma end_all_sessions_pending [simp]: "ds_pending (fst (end_all_sessions u s)) = ds_pending s"
  by (simp add: end_all_sessions_def Let_def)

lemma run_handler_pending: "ds_pending (fst (run_handler env now fresh user h s)) = ds_pending s"
proof (cases h)
  case (HandleChangePassword form)
  have "ds_pending s' = ds_pending s" if "end_all_sessions u (s\<lparr>ds_credentials := cr\<rparr>) = (s', g)" for s' u cr g
    using that end_all_sessions_pending [of u "s\<lparr>ds_credentials := cr\<rparr>"] by simp
  with HandleChangePassword show ?thesis
    by (auto simp: change_password_def Let_def split: option.splits if_splits prod.splits)
qed (auto simp: logout_def Let_def begin_enrollment_def twofa_confirm_def confirm_enrollment_def twofa_disable_def
    split: option.splits sum.splits)

lemma verify_session_pending:
  "verify_session env now cookie s = (s', res) \<Longrightarrow> ds_pending s' = ds_pending s"
  by (auto simp: verify_session_def jwt_verify_def split: option.splits prod.splits sum.splits if_splits)

lemma layer_pending: "ds_pending (fst (refresh_session_layer env now fresh req cookie h s)) = ds_pending s"
proof -
  obtain s1 res where v: "verify_session env now cookie s = (s1, res)" by fastforce
  have "ds_pending s2 = ds_pending s1" if "run_handler env now fresh user h s1 = (s2, d)" for user s2 d
    using that run_handler_pending [of env now fresh user h s1] by simp
  with v verify_session_pending [OF v] show ?thesis
    by (auto simp: refresh_session_layer_def Let_def split: option.splits prod.splits cookie_decision.splits)
qed

lemma reset_pending: "ds_pending (fst (reset_submit env now token pw confirm s)) = ds_pending s"
  by (auto simp: reset_submit_def Let_def split: option.splits)

lemma run_dash_op_pending:
  assumes "run_dash_op env now fresh op s = (s', new)"
  shows "p2_user_id ` set (ds_pending s') \<subseteq> p2_user_id ` set (ds_pending s) \<union> set_option (first_factor env now op s)"
proof (cases op)
  case (DLogin ip form)
  then obtain out where "login_submit env now fresh ip form s = (s', out)"
    using assms by (auto elim: map_prod_idE)
  then show ?thesis
  proof (cases rule: login_submit_cases)
    case (challenged u a l d)
    then show ?thesis
      using begin_challenge_pending [of now fresh u a d "s\<lparr>ds_limits := l\<rparr>"] unfolding DLogin by (auto simp del: first_factor.simps)
  qed simp_all
next
  case (DRedeem token dest)
  then obtain out where "redeem env now fresh token dest s = (s', out)"
    using assms by (auto elim: map_prod_idE)
  then show ?thesis
  proof (cases rule: redeem_cases)
    case (challenged u a d r b)
    then show ?thesis
      using begin_challenge_pending [of now fresh u a d "s\<lparr>ds_revocations := r, ds_blacklist := b\<rparr>"]
      unfolding DRedeem by (auto simp del: first_factor.simps)
  qed simp_all
next
  case (DChallenge cookie code)
  then obtain out where "challenge_submit env now fresh cookie code s = (s', out)"
    using assms by (auto elim: map_prod_idE)
  then show ?thesis by (cases rule: challenge_submit_cases) auto
next
  case (DRequest req cookie h)
  then show ?thesis
    using assms layer_pending [of env now fresh req cookie h s] by (auto elim!: map_prod_idE)
next
  case (DReset token pw confirm)
  then show ?thesis
    using assms reset_pending [of env now token pw confirm s] by (auto elim!: map_prod_idE)
qed (use assms in auto)

lemma pending_earned_step:
  assumes "pending_earned x" "dash_step env permitted x y"
  shows "pending_earned y"
  using assms(2)
proof cases
  case (dash_step_op clock now ck op fresh s s' new ff)
  then show ?thesis
    using run_dash_op_pending [OF dash_step_op(5)] assms(1) by (auto simp: pending_earned_def)
qed

interpretation earned_run: stepping "dash_step env permitted" pending_earned for env permitted
  by unfold_locales (rule pending_earned_step)

fun is_sign_in :: "dash_op \<Rightarrow> bool" where
  "is_sign_in (DLogin _ _) = True"
| "is_sign_in (DRedeem _ _) = True"
| "is_sign_in (DChallenge _ _) = True"
| "is_sign_in _ = False"

text \<open>
  C8: a session takes every factor the person has. In any run of the dashboard, whenever a login, a
  magic link or a challenge mints a session, that person has passed a first factor (their password, or
  a link not used before), then or earlier; and if they have two-factor authentication on, it was the
  challenge that minted it, for a live challenge of theirs, with a valid code or an unused recovery code.
\<close>

theorem sessions_take_both_factors:
  assumes "rtranclp (dash_step env (\<lambda>_ _. True)) (t0, s0, [], []) (c, s, ck, ff)" "ds_pending s0 = []"
    and "is_sign_in op" "run_dash_op env now fresh op s = (s', new)" "claims \<in> set new"
  shows "tc_sender_id claims \<in> set ff \<union> set_option (first_factor env now op s)
    \<and> (is_enabled s (tc_sender_id claims) \<longrightarrow>
        (\<exists>cid p code. op = DChallenge (Some cid) code \<and> peek_pending now cid s = Some p
           \<and> p2_user_id p = tc_sender_id claims \<and> second_factor_ok env now (tc_sender_id claims) code s))"
proof (cases op)
  case (DLogin ip form)
  then obtain out where l: "login_submit env now fresh ip form s = (s', out)" "new = minted_by out"
    using assms(4) by (auto elim: map_prod_idE)
  from l(1) show ?thesis
  proof (cases rule: login_submit_cases)
    case (signed u a l' dest)
    then have "tc_sender_id claims = u" using l(2) assms(5) by simp
    with signed(1,2) DLogin show ?thesis by (simp del: first_factor.simps)
  qed (use l(2) assms(5) begin_challenge_frame(2) in force)+
next
  case (DRedeem token dest)
  then obtain out where l: "redeem env now fresh token dest s = (s', out)" "new = minted_by out"
    using assms(4) by (auto elim: map_prod_idE)
  from l(1) show ?thesis
  proof (cases rule: redeem_cases)
    case (signed u a d)
    then have "tc_sender_id claims = u" using l(2) assms(5) by simp
    with signed(1,2) DRedeem show ?thesis by (simp del: first_factor.simps)
  qed (use l(2) assms(5) begin_challenge_frame(2) in force)+
next
  case (DChallenge cookie code)
  then obtain out where l: "challenge_submit env now fresh cookie code s = (s', out)" "new = minted_by out"
    using assms(4) by (auto elim: map_prod_idE)
  from l(1) show ?thesis
  proof (cases rule: challenge_submit_cases)
    case refused
    then show ?thesis using l(2) assms(5) by simp
  next
    case (signed cid p cl)
    then have cl: "claims = cl" using l(2) assms(5) by simp
    have "pending_earned (c, s, ck, ff)"
      using earned_run.reachable_keeps [OF assms(1)] assms(2) by (simp add: pending_earned_def)
    moreover have "p \<in> set (ds_pending s)"
      using signed(2) by (auto simp: peek_pending_def find_Some_iff)
    ultimately have "tc_sender_id claims \<in> set ff"
      using signed(6) cl by (auto simp: pending_earned_def)
    with signed cl DChallenge show ?thesis by auto
  qed
qed (use assms(3) in simp_all)

section \<open>A concrete dashboard\<close>

definition old_cookie :: token_claims where
  "old_cookie = (claims_new 0 ''j-old'' ''alice'' SESSION_DEVICE_LABEL SESSION_RATE_LIMIT_ID 3600)\<lparr>tc_session_gen := Some 0\<rparr>"

definition desk_decode :: "string \<Rightarrow> int \<Rightarrow> string \<Rightarrow> (jwt_error_kind \<times> string) + token_claims" where
  "desk_decode secret secs token =
     (if token = ''old'' then Inr old_cookie
      else if token = ''link'' then Inr (dashboard_link_claims 0 ''j-link'' ''alice'' False)
      else if token = ''bob-link'' then Inr (dashboard_link_claims 5 ''j-bob'' ''bob'' False)
      else Inl (KindInvalidToken, []))"

definition desk_env :: dash_env where
  "desk_env = \<lparr>de_tokens = sample_env\<lparr>te_decode := desk_decode\<rparr>, de_secret = ''k'', de_session_ttl_minutes = 60,
     de_min_password_len = 8, de_password_verify = (\<lambda>p h. Some (p = h)), de_password_hash = id, de_timing_phc = None,
     de_totp_ok = (\<lambda>_ _ _ code. code = ''123456''), de_decrypt = Some, de_encrypt = id, de_sha256_hex = id,
     de_landing = (\<lambda>_. ''/dashboard/home'')\<rparr>"

definition desk :: dash_state where
  "desk = \<lparr>ds_users = [\<lparr>du_user_id = ''alice'', du_email = Some ''a@x'', du_is_admin = False, du_require_2fa = True\<rparr>],
     ds_credentials = [''alice'' \<mapsto> ''pw''], ds_generations = Map.empty, ds_revocations = [],
     ds_blacklist = blacklist_cache_new, ds_twofa = [''alice'' \<mapsto> (''k2'', True)], ds_recovery = [], ds_pending = [],
     ds_resets = [], ds_limits = Map.empty, ds_require_2fa_all = None\<rparr>"


definition alice_login :: login_submission where
  "alice_login = \<lparr>lf_email = ''a@x'', lf_password = ''pw'', lf_next = None\<rparr>"


lemma challenge_first_try:
  assumes "peek_pending now cid s = Some p" "ds_limits s = Map.empty"
  obtains l where "challenge_submit env now fresh (Some cid) code s =
    challenge_answer env now fresh cid p (trim code) (s\<lparr>ds_limits := l\<rparr>)"
  using assms
  by (cases "dash_check (nat now) (''2fa-challenge:'' @ cid) CHALLENGE_MAX_ATTEMPTS (from_secs (15 * 60)) (ds_limits s)")
    (auto simp: challenge_submit_def dash_check_def window_new_def CHALLENGE_MAX_ATTEMPTS_def Let_def)

lemma redeem_limits [simp]: "ds_limits (fst (redeem env now fresh token dest s)) = ds_limits s"
  by (auto simp: redeem_def jwt_verify_def begin_challenge_def create_pending_def Let_def
      split: prod.splits sum.splits bool.splits option.splits)

theorem sessions_take_both_factors_witness:
  "second_factor_ok desk_env 6 ''alice'' ''123456''
     (fst (run_dash_op desk_env 5 ''ch1'' (DRedeem ''link'' None) desk))"
proof -
  let ?first = "DRedeem ''link'' None" and ?op = "DChallenge (Some ''ch1'') ''123456''"
  let ?s = "fst (run_dash_op desk_env 5 ''ch1'' ?first desk)"
    and ?p = "\<lparr>p2_challenge_id = ''ch1'', p2_user_id = ''alice'', p2_is_admin = False, p2_next = Some ''/dashboard/home'',
                p2_expires_at = 5 + duration_seconds (60 * 5)\<rparr>"
  let ?link = "dashboard_link_claims 0 ''j-link'' ''alice'' False"
    and ?run = "run_dash_op desk_env 6 ''j1'' ?op ?s"
  have none: "snd (run_dash_op desk_env 5 ''ch1'' ?first desk) = []"
    and ff: "first_factor desk_env 5 ?first desk = Some ''alice''"
    and on: "is_enabled ?s ''alice''"
    and p: "peek_pending 6 ''ch1'' ?s = Some ?p"
    and k: "load_secret desk_env ?s ''alice'' = Inr (Some ''k2'')"
    by code_simp+
  have tidy: "trim ''123456'' = ''123456''"
    by code_simp
  have code: "verify_code desk_env 6 ''k2'' account (trim ''123456'')" for account
    unfolding tidy by (simp add: verify_code_def desk_env_def tidy)
  have "ds_limits ?s = Map.empty"
    by (simp add: desk_def)
  then obtain l where "challenge_submit desk_env 6 ''j1'' (Some ''ch1'') ''123456'' ?s =
      challenge_answer desk_env 6 ''j1'' ''ch1'' ?p (trim ''123456'') (?s\<lparr>ds_limits := l\<rparr>)"
    using challenge_first_try [OF p] by blast
  then obtain claims where claims: "snd ?run = [claims]" "tc_sender_id claims = ''alice''"
    using k code by (auto simp: challenge_answer_def load_secret_def Let_def issue_session_cookie_def
        mint_session_cookie_def build_session_claims_def claims_new_def)
  have mint: "dash_step desk_env (\<lambda>_ _. True) (0, desk, [], [])
      (0, desk, [] @ [?link], [] @ opt_list (first_factor desk_env 0 (DMintLink ''alice'' False) desk))"
    by (rule dash_step_op [where fresh = "''j-link''"]) simp_all
  have "dash_step desk_env (\<lambda>_ _. True) (0, desk, [?link], [])
      (5, ?s, [?link] @ snd (run_dash_op desk_env 5 ''ch1'' ?first desk), [] @ opt_list (first_factor desk_env 5 ?first desk))"
  proof (rule dash_step_op [where fresh = "''ch1''"])
    show "op_unforged desk_env 5 [?link] ?first"
      by (simp add: unforged_def desk_env_def desk_decode_def)
  qed (simp_all del: run_dash_op.simps)
  then have redeemed: "dash_step desk_env (\<lambda>_ _. True) (0, desk, [?link], []) (5, ?s, [?link], [''alice''])"
    unfolding none ff by simp
  have "rtranclp (dash_step desk_env (\<lambda>_ _. True)) (0, desk, [], []) (5, ?s, [?link], [''alice''])"
    using mint redeemed by (auto intro: converse_rtranclp_into_rtranclp simp del: run_dash_op.simps)
  moreover have "ds_pending desk = []"
    by (simp add: desk_def)
  ultimately show ?thesis
    using sessions_take_both_factors [of desk_env 0 desk 5 ?s "[?link]" "[''alice'']" ?op 6 "''j1''" "fst ?run" "snd ?run" claims]
      claims on surjective_pairing [of ?run] by (auto simp del: run_dash_op.simps)
qed

text \<open>
  A magic link pasted into the cookie is a session: its token wears the label of a session and no
  generation, so neither the second factor nor its single use is asked for.
\<close>

lemma link_token_is_a_session:
  "is_enabled desk ''alice'' \<and> snd (verify_session desk_env 5 (Some ''link'') desk) =
     Some (dashboard_link_claims 0 ''j-link'' ''alice'' False)"
  by code_simp

text \<open>
  A session that was signed out still buys a new one: redeeming its cookie as if it were a link checks
  the label and the list of revocations, not the generation.
\<close>

lemma signed_out_cookie_redeems:
  "let s = fst (end_all_sessions ''alice'' (desk\<lparr>ds_twofa := Map.empty\<rparr>))
   in snd (verify_session desk_env 5 (Some ''old'') s) = None
    \<and> snd (redeem desk_env 5 ''j2'' ''old'' None s) =
        SignedIn (mint_session_cookie desk_env 5 ''j2'' ''alice'' False 1) ''/dashboard/home''"
  by code_simp

text \<open>Starting an enrollment again switches two-factor off, also for a person obliged to have it.\<close>

lemma enrolling_again_switches_off:
  "let s = fst (run_handler desk_env 5 ''f'' \<lparr>su_sender_id = ''alice'', su_is_admin = False, su_session_jti = ''j''\<rparr>
                 (HandleEnroll ''k3'') desk)
   in is_obliged desk ''alice'' \<and> is_enabled desk ''alice'' \<and> \<not> is_enabled s ''alice''
    \<and> snd (login_answer desk_env 6 ''j3'' alice_login s) =
        SignedIn (mint_session_cookie desk_env 6 ''j3'' ''alice'' False 0) ''/dashboard/home''"
  by code_simp

end
