(* ===== verification/Mwe_Slug.thy ===== *)
theory Mwe_Slug
  imports Mwe_Types
begin

text \<open>
  Slug derivation and collision resolution of \<open>crates/mwe-core/src/slug.rs\<close>. Unicode normalisation
  (\<open>nfkd\<close>, giving the list of characters) and the combining-mark test come from the crate
  \<open>unicode_normalization\<close> and are parameters; nothing is assumed about them.
\<close>

section \<open>Definitions\<close>

datatype slug_error = InvalidTitle string | CollisionCapExceeded string

definition char_to_ascii_lowercase :: "string \<Rightarrow> string" where
  "char_to_ascii_lowercase ch = (case ch of [c] \<Rightarrow> [to_ascii_lower c] | _ \<Rightarrow> ch)"

text \<open>One character of the loop, over the output and the flag \<open>last_was_dash\<close>.\<close>

definition slug_step :: "(string \<Rightarrow> bool) \<Rightarrow> string \<Rightarrow> string \<times> bool \<Rightarrow> string \<times> bool" where
  "slug_step is_combining_mark c0 st =
     (if is_combining_mark c0 then st
      else let c = char_to_ascii_lowercase c0
           in if (case c of [b] \<Rightarrow> is_ascii_lowercase b \<or> is_ascii_digit b | _ \<Rightarrow> False)
              then (fst st @ c, False)
              else if \<not> snd st then (fst st @ ''-'', True)
              else st)"

definition slug_chars :: "(string \<Rightarrow> bool) \<Rightarrow> string list \<Rightarrow> string" where
  "slug_chars is_combining_mark cs = fst (fold (slug_step is_combining_mark) cs ([], True))"

definition derive_slug ::
  "(string \<Rightarrow> string list) \<Rightarrow> (string \<Rightarrow> bool) \<Rightarrow> string \<Rightarrow> slug_error + string" where
  "derive_slug nfkd is_combining_mark title =
     (let out = slug_chars is_combining_mark (nfkd title);
          out = (if ends_with ''-'' out then butlast out else out)
      in if out = [] then Inl (InvalidTitle title) else Inr out)"

definition collision_numbers :: "nat list" where
  "collision_numbers = [2..<100]"

definition resolve_collision :: "string \<Rightarrow> (string \<Rightarrow> bool) \<Rightarrow> slug_error + string" where
  "resolve_collision base exists =
     (if \<not> exists base then Inr base
      else case List.find (\<lambda>n. \<not> exists (base @ degree_sign @ show_nat n)) collision_numbers of
             Some n \<Rightarrow> Inr (base @ degree_sign @ show_nat n)
           | None \<Rightarrow> Inl (CollisionCapExceeded base))"

section \<open>The shape of a slug under construction\<close>

definition slug_byte :: "char \<Rightarrow> bool" where
  "slug_byte c \<longleftrightarrow> is_ascii_lowercase c \<or> is_ascii_digit c"

abbreviation no_double_dash :: "string \<Rightarrow> bool" where
  "no_double_dash \<equiv> successively (\<lambda>x y. \<not> (x = CHR ''-'' \<and> y = CHR ''-''))"

definition slug_prefix :: "string \<Rightarrow> bool \<Rightarrow> bool" where
  "slug_prefix out last_was_dash \<longleftrightarrow>
     (\<forall>c \<in> set out. slug_byte c \<or> c = CHR ''-'') \<and> no_double_dash out \<and>
     (out \<noteq> [] \<longrightarrow> hd out \<noteq> CHR ''-'') \<and>
     (last_was_dash \<longleftrightarrow> out = [] \<or> last out = CHR ''-'')"

lemma slug_byte_not_dash: "slug_byte c \<Longrightarrow> c \<noteq> CHR ''-''"
  by (auto simp: slug_byte_def dest: digit_lower_neq)

lemma slug_prefix_push:
  "slug_prefix out d \<Longrightarrow> slug_byte b \<Longrightarrow> slug_prefix (out @ [b]) False"
  "slug_prefix out False \<Longrightarrow> slug_prefix (out @ ''-'') True"
  by (auto simp: slug_prefix_def successively_append_iff slug_byte_not_dash hd_append
      dest: slug_byte_not_dash)

lemma slug_step_prefix:
  assumes "slug_prefix (fst st) (snd st)"
  shows "slug_prefix (fst (slug_step cm c st)) (snd (slug_step cm c st))"
  using assms slug_prefix_push [of "fst st"]
  by (auto simp: slug_step_def slug_byte_def Let_def split: list.splits)

lemma slug_chars_prefix: "\<exists>d. slug_prefix (slug_chars cm cs) d"
proof -
  have "slug_prefix (fst st) (snd st) \<Longrightarrow>
      slug_prefix (fst (fold (slug_step cm) cs st)) (snd (fold (slug_step cm) cs st))" for st
  proof (induction cs arbitrary: st)
    case (Cons c cs)
    from Cons.IH [OF slug_step_prefix [OF Cons.prems]] show ?case by simp
  qed simp
  moreover have "slug_prefix [] True" by (simp add: slug_prefix_def)
  ultimately show ?thesis unfolding slug_chars_def by (metis fst_conv snd_conv)
qed

lemma slug_bytes_name:
  assumes "\<forall>c \<in> set s. slug_byte c \<or> c = CHR ''-''"
  shows "\<forall>c \<in> set (utf8_chars s). wiki_name_char_ok c"
proof -
  have "\<forall>c \<in> set s. is_ascii c"
    using assms by (auto simp: slug_byte_def is_ascii_def is_ascii_lowercase_def is_ascii_digit_def byte_def)
  then show ?thesis
    using assms by (auto simp: utf8_chars_ascii wiki_name_char_ok_def slug_byte_def)
qed

lemma butlast_slug_prefix:
  assumes "slug_prefix out d" "last out = CHR ''-''" "out \<noteq> []"
  shows "slug_prefix (butlast out) (butlast out = [])"
proof -
  obtain xs where xs: "out = xs @ ''-''" using assms(2,3) by (metis append_butlast_last_id)
  with assms(1) show ?thesis
    by (auto simp: slug_prefix_def successively_append_iff)
qed

lemma ends_with_dash: "ends_with ''-'' s \<longleftrightarrow> s \<noteq> [] \<and> last s = CHR ''-''"
  by (cases s rule: rev_cases) (auto simp: ends_with_def)

lemma find_upt_None: "List.find P [a..<b] = None \<Longrightarrow> a \<le> m \<and> m < b \<longrightarrow> \<not> P m"
  by (auto simp: find_None_iff)

lemma find_upt_Some:
  assumes "List.find P [a..<b] = Some n"
  shows "a \<le> n \<and> n < b \<and> P n \<and> (\<forall>m. a \<le> m \<and> m < n \<longrightarrow> \<not> P m)"
proof -
  obtain i where i: "i < b - a" "n = a + i" "P n" "\<forall>j < i. \<not> P (a + j)"
    using assms by (auto simp: find_Some_iff)
  have "\<not> P m" if "a \<le> m" "m < n" for m
    using i(4) [rule_format, of "m - a"] that i(2) by simp
  with i show ?thesis by auto
qed

lemmas find_collision_None = find_upt_None [where a = 2 and b = 100, folded collision_numbers_def]
lemmas find_collision_Some = find_upt_Some [where a = 2 and b = 100, folded collision_numbers_def]

section \<open>Properties\<close>

text \<open>
  Whatever the Unicode tables do, a derived slug is made of lowercase ASCII letters and digits in
  non-empty groups joined by single dashes; in particular it is always accepted by the slug parser,
  so forging a wiki from a title never fails at that point.
\<close>

lemma derive_slug_valid:
  assumes "derive_slug nfkd is_combining_mark title = Inr s"
  shows "wiki_slug_parse s = Inr (WikiSlug s) \<and> (\<forall>c \<in> set s. is_ascii_lowercase c \<or> is_ascii_digit c \<or> c = CHR ''-'')"
proof -
  let ?out = "slug_chars is_combining_mark (nfkd title)"
  obtain d where pre: "slug_prefix ?out d" using slug_chars_prefix by blast
  have "slug_prefix s False"
  proof (cases "ends_with ''-'' ?out")
    case True
    with assms have "s = butlast ?out" "s \<noteq> []"
      by (auto simp: derive_slug_def Let_def split: if_splits)
    with True butlast_slug_prefix [OF pre] show ?thesis by (simp add: ends_with_dash)
  next
    case False
    with assms have "s = ?out" "s \<noteq> []" by (auto simp: derive_slug_def Let_def split: if_splits)
    with pre False show ?thesis by (auto simp: slug_prefix_def ends_with_dash)
  qed
  then show ?thesis
    using slug_bytes_name [of s]
    by (auto simp: slug_prefix_def wiki_slug_parse_Inr_iff wiki_id_parse_Inr_iff slug_byte_def)
qed

lemma derive_slug_valid_witness:
  "wiki_slug_parse ''acme-corp'' = Inr (WikiSlug ''acme-corp'') \<and>
   list_all (\<lambda>c. is_ascii_lowercase c \<or> is_ascii_digit c \<or> c = CHR ''-'') ''acme-corp''"
proof -
  have "derive_slug (map (\<lambda>c. [c])) (\<lambda>_. False) ''acme & corp!'' = Inr ''acme-corp''"
    by code_simp
  then show ?thesis unfolding list_all_iff by (rule derive_slug_valid)
qed

text \<open>
  Collision resolution returns a free name, the base itself or the base with the smallest free
  number from 2 to 99, and gives up only when the base and all ninety-eight numbered candidates are
  taken.
\<close>

lemma resolve_collision_smallest_free:
  "case resolve_collision base exists of
     Inr s \<Rightarrow> \<not> exists s \<and>
       (s = base \<or>
        (\<exists>n. 2 \<le> n \<and> n \<le> 99 \<and> s = base @ degree_sign @ show_nat n \<and> exists base \<and>
             (\<forall>m. 2 \<le> m \<and> m < n \<longrightarrow> exists (base @ degree_sign @ show_nat m))))
   | Inl e \<Rightarrow> e = CollisionCapExceeded base \<and> exists base \<and>
       (\<forall>n. 2 \<le> n \<and> n \<le> 99 \<longrightarrow> exists (base @ degree_sign @ show_nat n))"
proof (cases "exists base")
  case False
  then show ?thesis by (simp add: resolve_collision_def)
next
  case True
  let ?P = "\<lambda>n. \<not> exists (base @ degree_sign @ show_nat n)"
  show ?thesis
  proof (cases "List.find ?P collision_numbers")
    case None
    with True find_collision_None [OF None] show ?thesis
      by (auto simp: resolve_collision_def)
  next
    case (Some n)
    with True find_collision_Some [OF Some] show ?thesis
      by (auto simp: resolve_collision_def intro!: disjI2 exI [of _ n])
  qed
qed

lemma resolve_collision_smallest_free_witness:
  "resolve_collision ''notes'' (\<lambda>s. s \<in> {''notes'', ''notes'' @ degree_sign @ ''2''}) =
     Inr (''notes'' @ degree_sign @ ''3'') \<and> \<not> ''notes'' @ degree_sign @ ''3'' \<in> {''notes'', ''notes'' @ degree_sign @ ''2''}"
proof -
  let ?ex = "\<lambda>s. s \<in> {''notes'', ''notes'' @ degree_sign @ ''2''}"
  have eq: "resolve_collision ''notes'' ?ex = Inr (''notes'' @ degree_sign @ ''3'')" by code_simp
  from resolve_collision_smallest_free [of "''notes''" ?ex] show ?thesis
    unfolding eq by simp
qed

end
