(* ===== verification/Mwe_OAuth.thy ===== *)
theory Mwe_OAuth
  imports Mwe_Identity Mwe_Sessions Mwe_Slug "HOL-Library.Multiset"
begin

text \<open>
  The inbound OAuth server: the store of \<open>crates/mwe-core/src/oauth_server.rs\<close> (clients, authorization
  codes, rotating refresh tokens), the endpoints of \<open>crates/mwe-dashboard/src/routes/webagentoauth.rs\<close>
  (registration, consent, token), the disconnect action of \<open>routes/tokens.rs\<close>, and the sweeps of
  \<open>crates/mwe-core/src/housekeeping.rs\<close> over its tables. Tables are lists in insertion order, which is
  the order of SQLite's row ids; times are instants in nanoseconds, as in the tokens' theory. SHA-256,
  the JSON of a list of strings, the tokens' signature and the random secrets are parameters: a step is
  given the secret it draws, or none when the generator fails. Descriptions of errors are left out.
\<close>

section \<open>Errors\<close>

datatype oauth_error =
    OAuthDb
  | OAuthJson
  | InvalidGrant
  | PkceMismatch
  | ClientMismatch
  | RedirectMismatch
  | OAuthRng

fun oauth_code :: "oauth_error \<Rightarrow> string" where
  "oauth_code ClientMismatch = ''invalid_client''"
| "oauth_code OAuthDb = ''server_error''"
| "oauth_code OAuthJson = ''server_error''"
| "oauth_code OAuthRng = ''server_error''"
| "oauth_code _ = ''invalid_grant''"

section \<open>The store\<close>

record client_row =
  cl_client_id :: string
  cl_client_name :: string
  cl_redirect_uris_json :: string
  cl_created_at :: int

record client_registration =
  cr_client_id :: string
  cr_client_name :: string
  cr_redirect_uris :: "string list"
  cr_created_at :: int

record auth_code_grant =
  cg_client_id :: string
  cg_redirect_uri :: string
  cg_code_challenge :: string
  cg_sender_id :: string
  cg_consumer_id :: string
  cg_wiki_id :: string

record code_row =
  co_code_hash :: string
  co_grant :: auth_code_grant
  co_expires_at :: int

record refresh_grant =
  rg_client_id :: string
  rg_sender_id :: string
  rg_consumer_id :: string
  rg_wiki_id :: string

record refresh_row =
  rf_token_hash :: string
  rf_grant :: refresh_grant
  rf_created_at :: int
  rf_expires_at :: int
  rf_revoked_at :: "int option"

text \<open>
  The wikis on disk come with their marker \<open>is_agent\<close>; \<open>None\<close> is a deployment without the memory
  subsystem. \<open>oe_push_ok\<close> says whether \<open>wiki_admin::push\<close> creates the wiki of that sender and connection.
\<close>

record oauth_env =
  oe_dash :: dash_env
  oe_s256 :: "string \<Rightarrow> string"
  oe_push_ok :: "string \<Rightarrow> string \<Rightarrow> bool"

record oauth_state =
  oa_dash :: dash_state
  oa_clients :: "client_row list"
  oa_codes :: "code_row list"
  oa_refresh :: "refresh_row list"
  oa_consumers :: consumers
  oa_delegations :: delegations
  oa_wikis :: "(string \<times> bool) list option"

definition hash_secret :: "oauth_env \<Rightarrow> string \<Rightarrow> string" where
  "hash_secret env = de_sha256_hex (oe_dash env)"

definition verify_pkce_s256 :: "oauth_env \<Rightarrow> string \<Rightarrow> string \<Rightarrow> bool" where
  "verify_pkce_s256 env verifier challenge \<longleftrightarrow> oe_s256 env verifier = challenge"

definition expiry :: "int \<Rightarrow> int \<Rightarrow> int" where
  "expiry now ttl = now + duration_seconds (if ttl \<le> i64_max then ttl else i64_max)"

definition is_expired :: "int \<Rightarrow> int \<Rightarrow> bool" where
  "is_expired now t \<longleftrightarrow> t \<le> now"

definition register_client ::
  "oauth_env \<Rightarrow> int \<Rightarrow> string option \<Rightarrow> string \<Rightarrow> string list \<Rightarrow> oauth_state \<Rightarrow> oauth_state \<times> (oauth_error + client_registration)" where
  "register_client env now fresh client_name redirect_uris s =
     (case fresh of
        None \<Rightarrow> (s, Inl OAuthRng)
      | Some client_id \<Rightarrow>
          (let trimmed = trim client_name;
               name = (if trimmed = [] then ''client'' else trimmed)
           in if client_id \<in> set (map cl_client_id (oa_clients s)) then (s, Inl OAuthDb)
              else (s\<lparr>oa_clients := oa_clients s @
                       [\<lparr>cl_client_id = client_id, cl_client_name = name,
                         cl_redirect_uris_json = te_list_json (de_tokens (oe_dash env)) redirect_uris, cl_created_at = now\<rparr>]\<rparr>,
                    Inr \<lparr>cr_client_id = client_id, cr_client_name = name, cr_redirect_uris = redirect_uris,
                         cr_created_at = now\<rparr>)))"

definition lookup_client :: "oauth_env \<Rightarrow> string \<Rightarrow> oauth_state \<Rightarrow> oauth_error + client_registration option" where
  "lookup_client env client_id s =
     (case List.find (\<lambda>r. cl_client_id r = client_id) (oa_clients s) of
        None \<Rightarrow> Inr None
      | Some r \<Rightarrow>
          (case te_parse_list (de_tokens (oe_dash env)) (cl_redirect_uris_json r) of
             None \<Rightarrow> Inl OAuthJson
           | Some uris \<Rightarrow>
               Inr (Some \<lparr>cr_client_id = client_id, cr_client_name = cl_client_name r, cr_redirect_uris = uris,
                          cr_created_at = cl_created_at r\<rparr>)))"

text \<open>\<open>DELETE \<dots> WHERE expires_at < now\<close>, of issuing a code and of \<open>housekeeping::purge_expired_auth_codes\<close>.\<close>

definition purge_expired_auth_codes :: "int \<Rightarrow> oauth_state \<Rightarrow> oauth_state \<times> nat" where
  "purge_expired_auth_codes now s =
     (s\<lparr>oa_codes := filter (\<lambda>r. \<not> co_expires_at r < now) (oa_codes s)\<rparr>,
      length (filter (\<lambda>r. co_expires_at r < now) (oa_codes s)))"

definition issue_auth_code ::
  "oauth_env \<Rightarrow> int \<Rightarrow> string option \<Rightarrow> auth_code_grant \<Rightarrow> int \<Rightarrow> oauth_state \<Rightarrow> oauth_state \<times> (oauth_error + string)" where
  "issue_auth_code env now fresh g ttl s =
     (let s = fst (purge_expired_auth_codes now s)
      in (case fresh of
            None \<Rightarrow> (s, Inl OAuthRng)
          | Some code \<Rightarrow>
              if hash_secret env code \<in> set (map co_code_hash (oa_codes s)) then (s, Inl OAuthDb)
              else (s\<lparr>oa_codes := oa_codes s @
                       [\<lparr>co_code_hash = hash_secret env code, co_grant = g, co_expires_at = expiry now ttl\<rparr>]\<rparr>,
                    Inr code)))"

definition consume_auth_code ::
  "oauth_env \<Rightarrow> int \<Rightarrow> string \<Rightarrow> string \<Rightarrow> string \<Rightarrow> string \<Rightarrow> oauth_state \<Rightarrow> oauth_state \<times> (oauth_error + auth_code_grant)" where
  "consume_auth_code env now code client_id redirect_uri code_verifier s =
     (let h = hash_secret env code;
          s' = s\<lparr>oa_codes := filter (\<lambda>r. co_code_hash r \<noteq> h) (oa_codes s)\<rparr>
      in (s',
          case List.find (\<lambda>r. co_code_hash r = h) (oa_codes s) of
            None \<Rightarrow> Inl InvalidGrant
          | Some row \<Rightarrow>
              if is_expired now (co_expires_at row) then Inl InvalidGrant
              else if cg_client_id (co_grant row) \<noteq> client_id then Inl ClientMismatch
              else if cg_redirect_uri (co_grant row) \<noteq> redirect_uri then Inl RedirectMismatch
              else if \<not> verify_pkce_s256 env code_verifier (cg_code_challenge (co_grant row)) then Inl PkceMismatch
              else Inr (co_grant row)))"

definition same_connection :: "refresh_grant \<Rightarrow> refresh_grant \<Rightarrow> bool" where
  "same_connection a b \<longleftrightarrow>
     rg_sender_id a = rg_sender_id b \<and> rg_consumer_id a = rg_consumer_id b \<and> rg_wiki_id a = rg_wiki_id b"

definition stale :: "int \<Rightarrow> refresh_row \<Rightarrow> bool" where
  "stale now r \<longleftrightarrow> rf_revoked_at r \<noteq> None \<or> rf_expires_at r < now"

definition prune_connection_stale :: "int \<Rightarrow> refresh_grant \<Rightarrow> refresh_row list \<Rightarrow> refresh_row list" where
  "prune_connection_stale now g = filter (\<lambda>r. \<not> (same_connection (rf_grant r) g \<and> stale now r))"

definition insert_refresh ::
  "oauth_env \<Rightarrow> int \<Rightarrow> string \<Rightarrow> refresh_grant \<Rightarrow> int \<Rightarrow> refresh_row list \<Rightarrow> refresh_row list option" where
  "insert_refresh env now token g ttl tab =
     (if hash_secret env token \<in> set (map rf_token_hash tab) then None
      else Some (tab @ [\<lparr>rf_token_hash = hash_secret env token, rf_grant = g, rf_created_at = now,
                         rf_expires_at = expiry now ttl, rf_revoked_at = None\<rparr>]))"

definition issue_refresh_token ::
  "oauth_env \<Rightarrow> int \<Rightarrow> string option \<Rightarrow> refresh_grant \<Rightarrow> int \<Rightarrow> oauth_state \<Rightarrow> oauth_state \<times> (oauth_error + string)" where
  "issue_refresh_token env now fresh g ttl s =
     (case fresh of
        None \<Rightarrow> (s, Inl OAuthRng)
      | Some token \<Rightarrow>
          (case insert_refresh env now token g ttl (oa_refresh s) of
             None \<Rightarrow> (s, Inl OAuthDb)
           | Some tab \<Rightarrow> (s\<lparr>oa_refresh := prune_connection_stale now g tab\<rparr>, Inr token)))"

text \<open>The transaction: an error on the way leaves the table as it was.\<close>

definition rotate_refresh_token ::
  "oauth_env \<Rightarrow> int \<Rightarrow> string option \<Rightarrow> string \<Rightarrow> int \<Rightarrow> oauth_state
    \<Rightarrow> oauth_state \<times> (oauth_error + string \<times> refresh_grant)" where
  "rotate_refresh_token env now fresh refresh_token ttl s =
     (let h = hash_secret env refresh_token
      in (case List.find (\<lambda>r. rf_token_hash r = h \<and> rf_revoked_at r = None) (oa_refresh s) of
            None \<Rightarrow> (s, Inl InvalidGrant)
          | Some row \<Rightarrow>
              if is_expired now (rf_expires_at row) then (s, Inl InvalidGrant)
              else
                (let tab = map (\<lambda>r. if rf_token_hash r = h then r\<lparr>rf_revoked_at := Some now\<rparr> else r) (oa_refresh s);
                     g = rf_grant row
                 in (case fresh of
                       None \<Rightarrow> (s, Inl OAuthRng)
                     | Some new_token \<Rightarrow>
                         (case insert_refresh env now new_token g ttl tab of
                            None \<Rightarrow> (s, Inl OAuthDb)
                          | Some tab' \<Rightarrow>
                              (s\<lparr>oa_refresh := prune_connection_stale now g tab'\<rparr>, Inr (new_token, g)))))))"

definition revoke_connection :: "int \<Rightarrow> string \<Rightarrow> string \<Rightarrow> oauth_state \<Rightarrow> oauth_state \<times> nat" where
  "revoke_connection now sender consumer s =
     (let hit = (\<lambda>r. rg_sender_id (rf_grant r) = sender \<and> rg_consumer_id (rf_grant r) = consumer \<and> rf_revoked_at r = None)
      in (s\<lparr>oa_refresh := map (\<lambda>r. if hit r then r\<lparr>rf_revoked_at := Some now\<rparr> else r) (oa_refresh s)\<rparr>,
          length (filter hit (oa_refresh s))))"

section \<open>Redirects\<close>

text \<open>
  The part of a text before the first of the given characters is \<open>split([\<dots>]).next()\<close>; the whole text
  when there is none.
\<close>

definition until_any :: "string \<Rightarrow> string \<Rightarrow> string" where
  "until_any stops s = takeWhile (\<lambda>c. c \<notin> set stops) s"

definition is_loopback_redirect :: "string \<Rightarrow> bool" where
  "is_loopback_redirect uri =
     (case strip_prefix ''http://'' uri of
        None \<Rightarrow> False
      | Some rest \<Rightarrow>
          (let host = (case strip_prefix ''['' rest of
                         Some after \<Rightarrow> until_any '']'' after
                       | None \<Rightarrow> until_any ''/:'' rest)
           in host \<in> {''localhost'', ''127.0.0.1'', ''::1''}))"

definition loopback_key :: "string \<Rightarrow> string" where
  "loopback_key uri =
     (let rest = (case strip_prefix ''http://'' uri of Some rest \<Rightarrow> rest | None \<Rightarrow> uri);
          authority = until_any ''/'' rest;
          path = drop (length authority) rest;
          host = (if CHR '']'' \<in> set authority then until_any '']'' authority @ '']'' else until_any '':'' authority)
      in host @ path)"

definition redirect_matches :: "string \<Rightarrow> string \<Rightarrow> bool" where
  "redirect_matches registered presented \<longleftrightarrow>
     registered = presented \<or>
     (is_loopback_redirect registered \<and> is_loopback_redirect presented
      \<and> loopback_key registered = loopback_key presented)"

definition profile_for_client :: "oauth_env \<Rightarrow> string \<Rightarrow> oauth_state \<Rightarrow> consumer_profile" where
  "profile_for_client env client_id s =
     (case lookup_client env client_id s of
        Inr (Some c) \<Rightarrow>
          if cr_redirect_uris c \<noteq> [] \<and> list_all is_loopback_redirect (cr_redirect_uris c) then Local else Web
      | _ \<Rightarrow> Web)"

definition split_scheme :: "string \<Rightarrow> string \<times> string" where
  "split_scheme uri =
     (case find_sub ''://'' uri of
        Some i \<Rightarrow> (take i uri, drop (i + 3) uri)
      | None \<Rightarrow> ([], uri))"

definition redirect_target_label :: "string \<Rightarrow> string" where
  "redirect_target_label redirect_uri =
     (if is_loopback_redirect redirect_uri then ''a consumer on this computer''
      else (case split_scheme redirect_uri of
              (scheme, rest) \<Rightarrow>
                (let authority = until_any ''/?#'' rest
                 in if scheme = [] then authority else scheme @ ''://'' @ authority)))"

definition redirect_back :: "string \<Rightarrow> string \<Rightarrow> string \<Rightarrow> string option \<Rightarrow> string" where
  "redirect_back redirect_uri key v st =
     (let query = key @ ''='' @ query_value v
                  @ (case st of Some x \<Rightarrow> ''&state='' @ query_value x | None \<Rightarrow> []);
          sep = (if CHR ''?'' \<in> set redirect_uri then ''&'' else ''?'')
      in redirect_uri @ sep @ query)"

text \<open>\<open>slugify\<close>: the loop over the characters, then the trailing dashes.\<close>

definition slugify_step :: "string \<Rightarrow> string \<times> bool \<Rightarrow> string \<times> bool" where
  "slugify_step ch st =
     (let c = char_to_ascii_lowercase ch
      in if (case c of [b] \<Rightarrow> is_ascii_lowercase b \<or> is_ascii_uppercase b \<or> is_ascii_digit b | _ \<Rightarrow> False)
         then (fst st @ c, False)
         else if fst st \<noteq> [] \<and> \<not> snd st then (fst st @ ''-'', True)
         else st)"

definition slugify :: "string \<Rightarrow> string" where
  "slugify s =
     (let out = fst (fold slugify_step (utf8_chars s) ([], False))
      in rev (dropWhile (\<lambda>c. c = CHR ''-'') (rev out)))"

definition connection_slug :: "string \<Rightarrow> string \<Rightarrow> string" where
  "connection_slug input client_name =
     (let base = (if trim input = [] then client_name else input);
          s = slugify base
      in if s = [] then ''agent'' else s)"

section \<open>The endpoints\<close>

datatype oauth_response =
    OAuthErr nat string
  | ClientCreated client_registration
  | TokenIssued refresh_grant token_claims string
  | ConsentError string
  | ConsentPage "string option"
  | OAuthRedirect string
  | ConsentGranted auth_code_grant string string
  | Disconnected nat
  | Swept
  | NotOAuth

definition ACCESS_TTL :: int where
  "ACCESS_TTL = 60 * 60"

definition REFRESH_TTL :: int where
  "REFRESH_TTL = 60 * 60 * 24 * 30"

definition CODE_TTL :: int where
  "CODE_TTL = 60 * 5"

definition REGISTER_MAX_PER_IP :: "32 word" where
  "REGISTER_MAX_PER_IP = 20"

definition REGISTER_WINDOW :: nat where
  "REGISTER_WINDOW = from_secs 3600"

definition store_error :: "oauth_error \<Rightarrow> oauth_response" where
  "store_error e = (if oauth_code e = ''server_error'' then OAuthErr 500 (oauth_code e) else OAuthErr 400 (oauth_code e))"

definition oauth_register ::
  "oauth_env \<Rightarrow> int \<Rightarrow> string option \<Rightarrow> string \<Rightarrow> string option \<Rightarrow> string list \<Rightarrow> oauth_state \<Rightarrow> oauth_state \<times> oauth_response" where
  "oauth_register env now fresh ip client_name redirect_uris s =
     (case dash_check (nat now) (''oauth-register:ip:'' @ ip) REGISTER_MAX_PER_IP REGISTER_WINDOW (ds_limits (oa_dash s)) of
        (m, ok) \<Rightarrow>
          (let s = s\<lparr>oa_dash := (oa_dash s)\<lparr>ds_limits := m\<rparr>\<rparr>
           in if \<not> ok then (s, OAuthErr 429 ''invalid_client_metadata'')
              else if redirect_uris = [] then (s, OAuthErr 400 ''invalid_client_metadata'')
              else (case register_client env now fresh (case client_name of Some n \<Rightarrow> n | None \<Rightarrow> []) redirect_uris s of
                      (s, Inr reg) \<Rightarrow> (s, ClientCreated reg)
                    | (s, Inl e) \<Rightarrow> (s, store_error e))))"

record token_form =
  tf_grant_type :: string
  tf_code :: "string option"
  tf_redirect_uri :: "string option"
  tf_client_id :: "string option"
  tf_code_verifier :: "string option"
  tf_refresh_token :: "string option"

definition resolve_is_admin :: "oauth_state \<Rightarrow> string \<Rightarrow> bool" where
  "resolve_is_admin s sender = is_some_and du_is_admin (find_user (oa_dash s) sender)"

definition mint_token_response ::
  "oauth_env \<Rightarrow> int \<Rightarrow> string \<Rightarrow> refresh_grant \<Rightarrow> string \<Rightarrow> oauth_state \<Rightarrow> oauth_response" where
  "mint_token_response env now jti g refresh_token s =
     TokenIssued g
       ((claims_new now jti (rg_sender_id g) (rg_consumer_id g) ''default'' ACCESS_TTL)
          \<lparr>tc_is_admin := resolve_is_admin s (rg_sender_id g), tc_consumer_id := Some (rg_consumer_id g),
           tc_consumer_class := Smart, tc_profile := profile_for_client env (rg_client_id g) s\<rparr>)
       refresh_token"

definition refresh_grant_of :: "auth_code_grant \<Rightarrow> refresh_grant" where
  "refresh_grant_of g =
     \<lparr>rg_client_id = cg_client_id g, rg_sender_id = cg_sender_id g, rg_consumer_id = cg_consumer_id g,
      rg_wiki_id = cg_wiki_id g\<rparr>"

definition token_authorization_code ::
  "oauth_env \<Rightarrow> int \<Rightarrow> string option \<Rightarrow> string \<Rightarrow> token_form \<Rightarrow> oauth_state \<Rightarrow> oauth_state \<times> oauth_response" where
  "token_authorization_code env now fresh jti form s =
     (case (tf_code form, tf_client_id form, tf_redirect_uri form, tf_code_verifier form) of
        (Some code, Some client_id, Some redirect_uri, Some verifier) \<Rightarrow>
          (case consume_auth_code env now code client_id redirect_uri verifier s of
             (s, Inl e) \<Rightarrow> (s, store_error e)
           | (s, Inr g) \<Rightarrow>
               (case issue_refresh_token env now fresh (refresh_grant_of g) REFRESH_TTL s of
                  (s, Inl e) \<Rightarrow> (s, store_error e)
                | (s, Inr t) \<Rightarrow> (s, mint_token_response env now jti (refresh_grant_of g) t s)))
      | _ \<Rightarrow> (s, OAuthErr 400 ''invalid_request''))"

definition token_refresh ::
  "oauth_env \<Rightarrow> int \<Rightarrow> string option \<Rightarrow> string \<Rightarrow> token_form \<Rightarrow> oauth_state \<Rightarrow> oauth_state \<times> oauth_response" where
  "token_refresh env now fresh jti form s =
     (case tf_refresh_token form of
        None \<Rightarrow> (s, OAuthErr 400 ''invalid_request'')
      | Some refresh \<Rightarrow>
          (case rotate_refresh_token env now fresh refresh REFRESH_TTL s of
             (s, Inl e) \<Rightarrow> (s, store_error e)
           | (s, Inr (t, g)) \<Rightarrow> (s, mint_token_response env now jti g t s)))"

definition token_endpoint ::
  "oauth_env \<Rightarrow> int \<Rightarrow> string option \<Rightarrow> string \<Rightarrow> token_form \<Rightarrow> oauth_state \<Rightarrow> oauth_state \<times> oauth_response" where
  "token_endpoint env now fresh jti form s =
     (if tf_grant_type form = ''authorization_code'' then token_authorization_code env now fresh jti form s
      else if tf_grant_type form = ''refresh_token'' then token_refresh env now fresh jti form s
      else (s, OAuthErr 400 ''unsupported_grant_type''))"

section \<open>Consent\<close>

record authorize_params =
  ap_response_type :: string
  ap_client_id :: string
  ap_redirect_uri :: string
  ap_code_challenge :: string
  ap_code_challenge_method :: string
  ap_state :: "string option"

record consent_form = authorize_params +
  cf_decision :: string
  cf_connection :: string

definition session_sender :: "oauth_env \<Rightarrow> int \<Rightarrow> string option \<Rightarrow> oauth_state \<Rightarrow> oauth_state \<times> string option" where
  "session_sender env now cookie s =
     (case cookie of
        None \<Rightarrow> (s, None)
      | Some token \<Rightarrow>
          (case jwt_verify (oe_dash env) now token (oa_dash s) of
             (d, Inr claims) \<Rightarrow> (s\<lparr>oa_dash := d\<rparr>, Some (tc_sender_id claims))
           | (d, Inl _) \<Rightarrow> (s\<lparr>oa_dash := d\<rparr>, None)))"

definition validate_client ::
  "oauth_env \<Rightarrow> 'a authorize_params_scheme \<Rightarrow> oauth_state \<Rightarrow> oauth_response + client_registration" where
  "validate_client env p s =
     (if ap_response_type p \<noteq> ''code'' then Inl (ConsentError ''Unsupported response_type'')
      else if trim (ap_code_challenge p) = [] \<or> ap_code_challenge_method p \<noteq> ''S256''
      then Inl (ConsentError ''A PKCE code_challenge with method S256 is required'')
      else (case lookup_client env (ap_client_id p) s of
              Inr (Some client) \<Rightarrow>
                if list_ex (\<lambda>u. redirect_matches u (ap_redirect_uri p)) (cr_redirect_uris client) then Inr client
                else Inl (ConsentError ''The redirect_uri does not match this registration of the client'')
            | Inr None \<Rightarrow> Inl (ConsentError ''Unknown client_id'')
            | Inl _ \<Rightarrow> Inl (ConsentError ''Internal error validating the client'')))"

definition authorize_get ::
  "oauth_env \<Rightarrow> int \<Rightarrow> string option \<Rightarrow> string \<Rightarrow> authorize_params \<Rightarrow> oauth_state \<Rightarrow> oauth_state \<times> oauth_response" where
  "authorize_get env now cookie uri p s =
     (case validate_client env p s of
        Inl page \<Rightarrow> (s, page)
      | Inr client \<Rightarrow>
          (case session_sender env now cookie s of
             (s, None) \<Rightarrow> (s, OAuthRedirect (''/dashboard/login?next='' @ query_value uri))
           | (s, Some _) \<Rightarrow> (s, ConsentPage None)))"

definition stamp_agent_marker :: "string \<Rightarrow> oauth_state \<Rightarrow> oauth_state" where
  "stamp_agent_marker wiki s =
     s\<lparr>oa_wikis := map_option (map (\<lambda>(w, a). if w = wiki then (w, True) else (w, a))) (oa_wikis s)\<rparr>"

definition ensure_dedicated_wiki ::
  "oauth_env \<Rightarrow> string \<Rightarrow> string \<Rightarrow> wiki_slug \<Rightarrow> oauth_state \<Rightarrow> oauth_state \<times> (oauth_response + wiki_id)" where
  "ensure_dedicated_wiki env sender connection slug s =
     (case oa_wikis s of
        None \<Rightarrow> (s, Inl (ConsentError ''This deployment has no memory subsystem to host the wiki''))
      | Some wikis \<Rightarrow>
          (case wiki_id_parse sender of
             Inl _ \<Rightarrow> (s, Inl (ConsentError ''Your identity wiki id is invalid''))
           | Inr parent \<Rightarrow>
               (let w = child_of parent slug
                in if wiki_id_str w \<in> set (map fst wikis) then (stamp_agent_marker (wiki_id_str w) s, Inr w)
                   else if oe_push_ok env sender connection
                   then (stamp_agent_marker (wiki_id_str w) (s\<lparr>oa_wikis := Some (wikis @ [(wiki_id_str w, False)])\<rparr>), Inr w)
                   else (s, Inl (ConsentError ''Could not create the dedicated wiki'')))))"

definition consent_request :: "string \<Rightarrow> string \<Rightarrow> register_request" where
  "consent_request connection client_name =
     \<lparr>rq_consumer_id = connection, rq_display_name = Some client_name, rq_callback_url = None,
      rq_kinds_json = None, rq_metadata_json = None, rq_system_user_id = None\<rparr>"

definition consent_approved ::
  "oauth_env \<Rightarrow> int \<Rightarrow> string option \<Rightarrow> string \<Rightarrow> consent_form \<Rightarrow> client_registration \<Rightarrow> string \<Rightarrow> oauth_state
    \<Rightarrow> oauth_state \<times> oauth_response" where
  "consent_approved env now fresh consumer_secret f client sender s =
     (let connection = connection_slug (cf_connection f) (cr_client_name client)
      in (case wiki_slug_parse connection of
            Inl _ \<Rightarrow> (s, ConsentPage (Some ''cannot be used''))
          | Inr slug \<Rightarrow>
              if system_user_for (oa_consumers s) connection \<noteq> None
              then (s, ConsentPage (Some ''belongs to a registered consumer''))
              else
                (case ensure_dedicated_wiki env sender connection slug s of
                   (s, Inl page) \<Rightarrow> (s, page)
                 | (s, Inr w) \<Rightarrow>
                     (let s = s\<lparr>oa_consumers := fst (register now consumer_secret
                                 (consent_request connection (cr_client_name client)) (oa_consumers s))\<rparr>;
                          g = \<lparr>cg_client_id = ap_client_id f, cg_redirect_uri = ap_redirect_uri f,
                               cg_code_challenge = ap_code_challenge f, cg_sender_id = sender,
                               cg_consumer_id = connection, cg_wiki_id = wiki_id_str w\<rparr>
                      in (case issue_auth_code env now fresh g CODE_TTL s of
                            (s, Inr code) \<Rightarrow> (s, ConsentGranted g code (redirect_back (ap_redirect_uri f) ''code'' code (ap_state f)))
                          | (s, Inl _) \<Rightarrow> (s, ConsentError ''Could not issue the authorization code''))))))"

definition authorize_post ::
  "oauth_env \<Rightarrow> int \<Rightarrow> string option \<Rightarrow> string \<Rightarrow> string option \<Rightarrow> consent_form \<Rightarrow> oauth_state
    \<Rightarrow> oauth_state \<times> oauth_response" where
  "authorize_post env now fresh consumer_secret cookie f s =
     (case validate_client env f s of
        Inl page \<Rightarrow> (s, page)
      | Inr client \<Rightarrow>
          (case session_sender env now cookie s of
             (s, None) \<Rightarrow> (s, OAuthRedirect ''/dashboard/login'')
           | (s, Some sender) \<Rightarrow>
               if cf_decision f \<noteq> ''approve''
               then (s, OAuthRedirect (redirect_back (ap_redirect_uri f) ''error'' ''access_denied'' (ap_state f)))
               else consent_approved env now fresh consumer_secret f client sender s))"

section \<open>Disconnecting and the sweeps\<close>

definition connection_revoke_submit :: "int \<Rightarrow> string \<Rightarrow> string \<Rightarrow> oauth_state \<Rightarrow> oauth_state \<times> oauth_response" where
  "connection_revoke_submit now sender0 consumer0 s =
     (let sender = trim sender0; consumer = trim consumer0
      in if sender = [] \<or> consumer = [] then (s, OAuthErr 422 ''sender_id and consumer_id are required'')
         else (case revoke_connection now sender consumer s of (s, n) \<Rightarrow> (s, Disconnected n)))"

text \<open>
  The newest stale row of a connection that has no active row stays; the rows are in the order of
  their row ids, so the newest of a list is the last.
\<close>

definition active_refresh :: "int \<Rightarrow> refresh_row \<Rightarrow> bool" where
  "active_refresh now r \<longleftrightarrow> rf_revoked_at r = None \<and> now \<le> rf_expires_at r"

fun keep_newest_stale :: "int \<Rightarrow> refresh_row list \<Rightarrow> refresh_row list \<Rightarrow> refresh_row list" where
  "keep_newest_stale now tab [] = []"
| "keep_newest_stale now tab (r # rest) =
     (if stale now r \<and>
         (list_ex (\<lambda>a. same_connection (rf_grant a) (rf_grant r) \<and> active_refresh now a) tab
          \<or> list_ex (\<lambda>r2. same_connection (rf_grant r2) (rf_grant r) \<and> stale now r2) rest)
      then keep_newest_stale now tab rest
      else r # keep_newest_stale now tab rest)"

definition prune_stale_refresh_rows :: "int \<Rightarrow> oauth_state \<Rightarrow> oauth_state \<times> nat" where
  "prune_stale_refresh_rows now s =
     (let kept = keep_newest_stale now (oa_refresh s) (oa_refresh s)
      in (s\<lparr>oa_refresh := kept\<rparr>, length (oa_refresh s) - length kept))"

definition wiki_gone :: "string list \<Rightarrow> string \<Rightarrow> bool" where
  "wiki_gone present raw = (case wiki_id_parse raw of Inl _ \<Rightarrow> True | Inr i \<Rightarrow> wiki_id_str i \<notin> set present)"

definition web_consumer :: "consumers \<Rightarrow> string \<Rightarrow> bool" where
  "web_consumer tab cid \<longleftrightarrow> list_ex (\<lambda>c. cs_consumer_id c = cid \<and> cs_system_user_id c = None) tab"

definition drop_consumer :: "string \<Rightarrow> oauth_state \<times> nat \<times> nat \<Rightarrow> oauth_state \<times> nat \<times> nat" where
  "drop_consumer cid acc =
     (case acc of
        (s, consumers_removed, delegations_removed) \<Rightarrow>
          (s\<lparr>oa_refresh := filter (\<lambda>r. rg_consumer_id (rf_grant r) \<noteq> cid) (oa_refresh s),
             oa_codes := filter (\<lambda>r. cg_consumer_id (co_grant r) \<noteq> cid) (oa_codes s),
             oa_delegations := filter (\<lambda>d. dg_consumer_id d \<noteq> cid) (oa_delegations s),
             oa_consumers := filter (\<lambda>c. \<not> (cs_consumer_id c = cid \<and> cs_system_user_id c = None)) (oa_consumers s)\<rparr>,
           consumers_removed + (if web_consumer (oa_consumers s) cid then 1 else 0),
           delegations_removed + length (filter (\<lambda>d. dg_consumer_id d = cid) (oa_delegations s))))"

definition sweep_dangling_consumers :: "string list option \<Rightarrow> oauth_state \<Rightarrow> oauth_state \<times> nat \<times> nat" where
  "sweep_dangling_consumers walked s =
     (case walked of
        None \<Rightarrow> (s, 0, 0)
      | Some present \<Rightarrow>
          (let bindings = filter (\<lambda>(c, _). web_consumer (oa_consumers s) c)
                            (map (\<lambda>r. (rg_consumer_id (rf_grant r), rg_wiki_id (rf_grant r))) (oa_refresh s));
               by_consumer = sort (remdups (map fst bindings));
               dangling = filter (\<lambda>c. list_all (\<lambda>(c', w). c' = c \<longrightarrow> wiki_gone present w) bindings) by_consumer
           in fold drop_consumer dangling (s, 0, 0)))"

text \<open>The sweeps of \<open>housekeeping::run\<close> that touch these tables, in its order.\<close>

definition housekeeping_run :: "int \<Rightarrow> string list option \<Rightarrow> oauth_state \<Rightarrow> oauth_state" where
  "housekeeping_run now walked s =
     (let s = fst (purge_expired_auth_codes now s);
          s = fst (sweep_dangling_consumers walked s);
          s = fst (prune_stale_refresh_rows now s)
      in s\<lparr>oa_dash := (oa_dash s)\<lparr>ds_revocations := fst (purge_expired_revocations now (ds_revocations (oa_dash s)))\<rparr>\<rparr>)"

section \<open>Histories\<close>

datatype oauth_op =
    ORegister string "string option" "string list"
  | OAuthorizeGet "string option" string authorize_params
  | OAuthorizePost "string option" consent_form
  | OToken token_form
  | ODisconnect string string
  | OHousekeeping "string list option"
  | ODash dash_op

text \<open>\<open>fresh\<close> is the secret the operation draws; \<open>jti\<close> the other random identifier it may need.\<close>

fun run_oauth_op ::
  "oauth_env \<Rightarrow> int \<Rightarrow> string option \<Rightarrow> string \<Rightarrow> oauth_op \<Rightarrow> oauth_state \<Rightarrow> oauth_state \<times> oauth_response" where
  "run_oauth_op env now fresh jti (ORegister ip name uris) s = oauth_register env now fresh ip name uris s"
| "run_oauth_op env now fresh jti (OAuthorizeGet cookie uri p) s = authorize_get env now cookie uri p s"
| "run_oauth_op env now fresh jti (OAuthorizePost cookie f) s = authorize_post env now fresh jti cookie f s"
| "run_oauth_op env now fresh jti (OToken f) s = token_endpoint env now fresh jti f s"
| "run_oauth_op env now fresh jti (ODisconnect sender consumer) s = connection_revoke_submit now sender consumer s"
| "run_oauth_op env now fresh jti (OHousekeeping walked) s = (housekeeping_run now walked s, Swept)"
| "run_oauth_op env now fresh jti (ODash op) s =
     (s\<lparr>oa_dash := fst (run_dash_op (oe_dash env) now jti op (oa_dash s))\<rparr>, NotOAuth)"

text \<open>What the history records: the consents that issued a code, and the codes that were exchanged.\<close>

fun consent_of :: "oauth_response \<Rightarrow> auth_code_grant option" where
  "consent_of (ConsentGranted g code url) = Some g"
| "consent_of _ = None"

definition exchange_of :: "oauth_env \<Rightarrow> int \<Rightarrow> oauth_op \<Rightarrow> oauth_state \<Rightarrow> auth_code_grant option" where
  "exchange_of env now op s =
     (case op of
        OToken f \<Rightarrow>
          if tf_grant_type f \<noteq> ''authorization_code'' then None
          else (case (tf_code f, tf_client_id f, tf_redirect_uri f, tf_code_verifier f) of
                  (Some code, Some client_id, Some redirect_uri, Some verifier) \<Rightarrow>
                    (case snd (consume_auth_code env now code client_id redirect_uri verifier s) of
                       Inr g \<Rightarrow> Some g | Inl _ \<Rightarrow> None)
                | _ \<Rightarrow> None)
      | _ \<Rightarrow> None)"

type_synonym oauth_run = "oauth_state \<times> auth_code_grant list \<times> auth_code_grant list"

inductive oauth_step ::
  "oauth_env \<Rightarrow> (int \<Rightarrow> string option \<Rightarrow> oauth_op \<Rightarrow> oauth_state \<Rightarrow> bool) \<Rightarrow> oauth_run \<Rightarrow> oauth_run \<Rightarrow> bool" for env permitted where
  oauth_step_op: "permitted now fresh op s \<Longrightarrow> run_oauth_op env now fresh jti op s = (s', resp) \<Longrightarrow>
    oauth_step env permitted (s, consents, exchanges)
      (s', consents @ opt_list (consent_of resp), exchanges @ opt_list (exchange_of env now op s))"

section \<open>What an operation does to the tables\<close>

lemma session_sender_frame:
  assumes "session_sender env now cookie s = (s1, r)"
  obtains d where "s1 = s\<lparr>oa_dash := d\<rparr>"
proof (cases cookie)
  case None
  with assms that [of "oa_dash s"] show thesis by (simp add: session_sender_def)
next
  case (Some token)
  with assms that show thesis
    by (auto simp: session_sender_def split: prod.splits sum.splits)
qed

lemma session_sender_Some:
  "snd (session_sender env now cookie s) = Some sender \<longleftrightarrow>
     (\<exists>token claims. cookie = Some token \<and> snd (jwt_verify (oe_dash env) now token (oa_dash s)) = Inr claims
       \<and> sender = tc_sender_id claims)"
  by (cases cookie) (auto simp: session_sender_def split: prod.splits sum.splits)

lemma ensure_dedicated_wiki_frame:
  assumes "ensure_dedicated_wiki env sender connection slug s = (s1, r)"
  obtains ws where "s1 = s\<lparr>oa_wikis := ws\<rparr>" "\<forall>p. r = Inl p \<longrightarrow> consent_of p = None"
  using assms that [of "oa_wikis s"]
  by (fastforce simp: ensure_dedicated_wiki_def stamp_agent_marker_def Let_def split: option.splits sum.splits if_splits)

abbreviation live_codes :: "int \<Rightarrow> code_row list \<Rightarrow> code_row list" where
  "live_codes now \<equiv> filter (\<lambda>r. \<not> co_expires_at r < now)"

lemma issue_auth_code_cases:
  assumes "issue_auth_code env now fresh g ttl s = (s', res)"
  obtains (failed) e where "res = Inl e" "s' = s\<lparr>oa_codes := live_codes now (oa_codes s)\<rparr>"
  | (issued) code where "fresh = Some code" "res = Inr code"
      "s' = s\<lparr>oa_codes := live_codes now (oa_codes s) @
               [\<lparr>co_code_hash = hash_secret env code, co_grant = g, co_expires_at = expiry now ttl\<rparr>]\<rparr>"
  using assms
  by (auto simp: issue_auth_code_def purge_expired_auth_codes_def Let_def split: option.splits if_splits)

lemma consent_approved_cases:
  assumes "consent_approved env now fresh secret f client sender s = (s', resp)"
  obtains (refused) "consent_of resp = None" "oa_codes s' \<in> {oa_codes s, live_codes now (oa_codes s)}"
      "oa_refresh s' = oa_refresh s"
  | (granted) g code where "fresh = Some code"
      "resp = ConsentGranted g code (redirect_back (ap_redirect_uri f) ''code'' code (ap_state f))"
      "cg_client_id g = ap_client_id f" "cg_redirect_uri g = ap_redirect_uri f"
      "cg_code_challenge g = ap_code_challenge f" "cg_sender_id g = sender"
      "cg_consumer_id g = connection_slug (cf_connection f) (cr_client_name client)"
      "system_user_for (oa_consumers s) (cg_consumer_id g) = None"
      "oa_codes s' = live_codes now (oa_codes s) @
         [\<lparr>co_code_hash = hash_secret env code, co_grant = g, co_expires_at = expiry now CODE_TTL\<rparr>]"
      "oa_refresh s' = oa_refresh s"
proof -
  let ?c = "connection_slug (cf_connection f) (cr_client_name client)"
  show thesis
  proof (cases "\<exists>slug. wiki_slug_parse ?c = Inr slug \<and> system_user_for (oa_consumers s) ?c = None")
    case False
    with assms show thesis
      by (intro refused) (auto simp: consent_approved_def Let_def split: sum.splits if_splits)
  next
    case True
    then obtain slug where slug: "wiki_slug_parse ?c = Inr slug" and free: "system_user_for (oa_consumers s) ?c = None"
      by blast
    obtain s1 r where e: "ensure_dedicated_wiki env sender ?c slug s = (s1, r)" by fastforce
    then obtain ws where s1: "s1 = s\<lparr>oa_wikis := ws\<rparr>" and page: "\<forall>p. r = Inl p \<longrightarrow> consent_of p = None"
      by (rule ensure_dedicated_wiki_frame)
    show thesis
    proof (cases r)
      case (Inl p)
      with assms slug free e s1 page show thesis
        by (intro refused) (auto simp: consent_approved_def Let_def)
    next
      case (Inr w)
      let ?s2 = "s1\<lparr>oa_consumers := fst (register now secret (consent_request ?c (cr_client_name client)) (oa_consumers s1))\<rparr>"
        and ?g = "\<lparr>cg_client_id = ap_client_id f, cg_redirect_uri = ap_redirect_uri f, cg_code_challenge = ap_code_challenge f,
                   cg_sender_id = sender, cg_consumer_id = ?c, cg_wiki_id = wiki_id_str w\<rparr>"
      obtain s3 res where i: "issue_auth_code env now fresh ?g CODE_TTL ?s2 = (s3, res)" by fastforce
      then have out: "(s', resp) = (case res of
          Inr code \<Rightarrow> (s3, ConsentGranted ?g code (redirect_back (ap_redirect_uri f) ''code'' code (ap_state f)))
        | Inl _ \<Rightarrow> (s3, ConsentError ''Could not issue the authorization code''))"
        using assms slug free e Inr by (auto simp: consent_approved_def Let_def split: sum.splits)
      from i show thesis
      proof (cases rule: issue_auth_code_cases)
        case (failed err)
        with out s1 show thesis by (intro refused) simp_all
      next
        case (issued code)
        with out s1 free show thesis by (intro granted [of code ?g]) simp_all
      qed
    qed
  qed
qed

lemma authorize_post_cases:
  assumes "authorize_post env now fresh secret cookie f s = (s', resp)"
  obtains (refused) "consent_of resp = None" "oa_codes s' \<in> {oa_codes s, live_codes now (oa_codes s)}"
      "oa_refresh s' = oa_refresh s"
  | (granted) client sender g code where "validate_client env f s = Inr client"
      "snd (session_sender env now cookie s) = Some sender" "cf_decision f = ''approve''" "fresh = Some code"
      "resp = ConsentGranted g code (redirect_back (ap_redirect_uri f) ''code'' code (ap_state f))"
      "cg_client_id g = ap_client_id f" "cg_redirect_uri g = ap_redirect_uri f"
      "cg_code_challenge g = ap_code_challenge f" "cg_sender_id g = sender"
      "cg_consumer_id g = connection_slug (cf_connection f) (cr_client_name client)"
      "system_user_for (oa_consumers s) (cg_consumer_id g) = None"
      "oa_codes s' = live_codes now (oa_codes s) @
         [\<lparr>co_code_hash = hash_secret env code, co_grant = g, co_expires_at = expiry now CODE_TTL\<rparr>]"
      "oa_refresh s' = oa_refresh s"
proof (cases "validate_client env f s")
  case (Inl page)
  then have "consent_of page = None"
    by (auto simp: validate_client_def split: if_splits sum.splits option.splits)
  with assms Inl show thesis by (intro refused) (auto simp: authorize_post_def)
next
  case (Inr client)
  obtain s1 r where ss: "session_sender env now cookie s = (s1, r)" by fastforce
  then obtain d where s1: "s1 = s\<lparr>oa_dash := d\<rparr>" by (rule session_sender_frame)
  show thesis
  proof (cases "\<exists>sender. r = Some sender \<and> cf_decision f = ''approve''")
    case False
    with assms Inr ss s1 show thesis
      by (intro refused) (auto simp: authorize_post_def split: option.splits if_splits)
  next
    case True
    then obtain sender where r: "r = Some sender" "cf_decision f = ''approve''" by blast
    then have "consent_approved env now fresh secret f client sender s1 = (s', resp)"
      using assms Inr ss by (simp add: authorize_post_def)
    then show thesis
    proof (cases rule: consent_approved_cases)
      case refused
      with s1 show thesis by (intro that(1)) simp_all
    next
      case (granted g code)
      with Inr ss r s1 show thesis by (intro that(2) [of client sender code g]) simp_all
    qed
  qed
qed

lemma consume_auth_code_Inr:
  assumes "snd (consume_auth_code env now code cid uri verifier s) = Inr g"
  obtains row where "row \<in> set (oa_codes s)" "co_grant row = g" "co_code_hash row = hash_secret env code"
    "cg_client_id g = cid" "cg_redirect_uri g = uri" "oe_s256 env verifier = cg_code_challenge g"
    "now < co_expires_at row"
proof (cases "List.find (\<lambda>r. co_code_hash r = hash_secret env code) (oa_codes s)")
  case None
  with assms show thesis by (simp add: consume_auth_code_def)
next
  case (Some row)
  then have "row \<in> set (oa_codes s)" "co_code_hash row = hash_secret env code"
    by (auto simp: find_Some_iff)
  with assms Some show thesis
    by (intro that [of row])
      (auto simp: consume_auth_code_def Let_def verify_pkce_s256_def is_expired_def split: if_splits)
qed

lemma issue_refresh_token_cases:
  assumes "issue_refresh_token env now fresh g ttl s = (s', res)"
  obtains (failed) e where "res = Inl e" "s' = s"
  | (issued) token where "fresh = Some token" "res = Inr token"
      "s' = s\<lparr>oa_refresh := prune_connection_stale now g (oa_refresh s @
        [\<lparr>rf_token_hash = hash_secret env token, rf_grant = g, rf_created_at = now,
          rf_expires_at = expiry now ttl, rf_revoked_at = None\<rparr>])\<rparr>"
  using assms by (auto simp: issue_refresh_token_def insert_refresh_def split: option.splits if_splits)

lemma rotate_refresh_token_cases:
  assumes "rotate_refresh_token env now fresh refresh ttl s = (s', res)"
  obtains (failed) e where "res = Inl e" "s' = s"
  | (rotated) token row where "fresh = Some token" "res = Inr (token, rf_grant row)"
      "row \<in> set (oa_refresh s)" "rf_token_hash row = hash_secret env refresh" "rf_revoked_at row = None"
      "now < rf_expires_at row" "hash_secret env token \<noteq> hash_secret env refresh"
      "s' = s\<lparr>oa_refresh := prune_connection_stale now (rf_grant row)
        (map (\<lambda>r. if rf_token_hash r = hash_secret env refresh then r\<lparr>rf_revoked_at := Some now\<rparr> else r) (oa_refresh s) @
        [\<lparr>rf_token_hash = hash_secret env token, rf_grant = rf_grant row, rf_created_at = now,
          rf_expires_at = expiry now ttl, rf_revoked_at = None\<rparr>])\<rparr>"
proof (cases "List.find (\<lambda>r. rf_token_hash r = hash_secret env refresh \<and> rf_revoked_at r = None) (oa_refresh s)")
  case None
  with assms failed show thesis by (auto simp: rotate_refresh_token_def)
next
  case (Some row)
  then have row: "row \<in> set (oa_refresh s)" "rf_token_hash row = hash_secret env refresh" "rf_revoked_at row = None"
    by (auto simp: find_Some_iff)
  let ?tab = "map (\<lambda>r. if rf_token_hash r = hash_secret env refresh then r\<lparr>rf_revoked_at := Some now\<rparr> else r) (oa_refresh s)"
  have known: "hash_secret env refresh \<in> set (map rf_token_hash ?tab)"
    using row by (force simp: image_iff)
  show thesis
  proof (cases "is_expired now (rf_expires_at row) \<or> fresh = None
      \<or> (\<exists>t. fresh = Some t \<and> hash_secret env t \<in> set (map rf_token_hash ?tab))")
    case True
    with assms Some failed show thesis
      by (auto simp: rotate_refresh_token_def insert_refresh_def Let_def split: if_splits)
  next
    case False
    then obtain token where token: "fresh = Some token" "hash_secret env token \<notin> set (map rf_token_hash ?tab)"
      and unexpired: "now < rf_expires_at row"
      by (auto simp: is_expired_def)
    have "hash_secret env token \<noteq> hash_secret env refresh" using known token(2) by metis
    moreover have "insert_refresh env now token (rf_grant row) ttl ?tab = Some (?tab @
        [\<lparr>rf_token_hash = hash_secret env token, rf_grant = rf_grant row, rf_created_at = now,
          rf_expires_at = expiry now ttl, rf_revoked_at = None\<rparr>])"
      unfolding insert_refresh_def using token(2) by (rule if_not_P)
    ultimately show thesis
      using assms Some row token(1) unexpired
      by (intro rotated [of token row]) (simp_all add: rotate_refresh_token_def is_expired_def Let_def)
  qed
qed

abbreviation new_refresh_row :: "oauth_env \<Rightarrow> int \<Rightarrow> string \<Rightarrow> refresh_grant \<Rightarrow> refresh_row" where
  "new_refresh_row env now token g \<equiv>
     \<lparr>rf_token_hash = hash_secret env token, rf_grant = g, rf_created_at = now,
      rf_expires_at = expiry now REFRESH_TTL, rf_revoked_at = None\<rparr>"

fun issues :: "oauth_response \<Rightarrow> bool" where
  "issues (TokenIssued g claims refresh) = True"
| "issues _ = False"

lemma issues_store_error [simp]: "\<not> issues (store_error e)"
  by (simp add: store_error_def)

lemma issues_mint [simp]: "issues (mint_token_response env now jti g t s)"
  by (simp add: mint_token_response_def)

lemma consent_of_token [simp]:
  "consent_of (store_error e) = None" "consent_of (mint_token_response env now jti g t s) = None"
  by (simp_all add: store_error_def mint_token_response_def)

lemma token_authorization_code_cases:
  assumes "token_authorization_code env now fresh jti f s = (s', resp)" "tf_grant_type f = ''authorization_code''"
  obtains (incomplete) "s' = s" "\<not> issues resp" "consent_of resp = None" "exchange_of env now (OToken f) s = None"
      "resp = OAuthErr 400 ''invalid_request''"
  | (burned) code where "tf_code f = Some code" "\<not> issues resp" "consent_of resp = None"
      "s' = s\<lparr>oa_codes := filter (\<lambda>r. co_code_hash r \<noteq> hash_secret env code) (oa_codes s)\<rparr>"
  | (exchanged) code g token where "tf_code f = Some code" "exchange_of env now (OToken f) s = Some g" "fresh = Some token"
      "resp = mint_token_response env now jti (refresh_grant_of g) token s'"
      "oa_codes s' = filter (\<lambda>r. co_code_hash r \<noteq> hash_secret env code) (oa_codes s)"
      "oa_refresh s' = prune_connection_stale now (refresh_grant_of g)
         (oa_refresh s @ [new_refresh_row env now token (refresh_grant_of g)])"
proof (cases "\<exists>code cid uri v. tf_code f = Some code \<and> tf_client_id f = Some cid \<and> tf_redirect_uri f = Some uri
    \<and> tf_code_verifier f = Some v")
  case False
  with assms show thesis
    by (intro incomplete) (auto simp: token_authorization_code_def exchange_of_def split: option.splits)
next
  case True
  then obtain code cid uri v where f: "tf_code f = Some code" "tf_client_id f = Some cid" "tf_redirect_uri f = Some uri"
    "tf_code_verifier f = Some v" by blast
  obtain s1 r where c: "consume_auth_code env now code cid uri v s = (s1, r)" by fastforce
  then have s1: "s1 = s\<lparr>oa_codes := filter (\<lambda>r. co_code_hash r \<noteq> hash_secret env code) (oa_codes s)\<rparr>"
    by (simp add: consume_auth_code_def Let_def)
  show thesis
  proof (cases r)
    case (Inl e)
    with assms f c s1 show thesis by (intro burned [of code]) (auto simp: token_authorization_code_def)
  next
    case (Inr g)
    then have x: "exchange_of env now (OToken f) s = Some g"
      using f c assms(2) by (simp add: exchange_of_def)
    obtain s2 res where i: "issue_refresh_token env now fresh (refresh_grant_of g) REFRESH_TTL s1 = (s2, res)" by fastforce
    then show thesis
    proof (cases rule: issue_refresh_token_cases)
      case (failed e)
      with assms f c s1 i Inr show thesis by (intro burned [of code]) (auto simp: token_authorization_code_def)
    next
      case (issued token)
      with assms f c s1 i Inr x show thesis
        by (intro exchanged [of code g token]) (auto simp: token_authorization_code_def)
    qed
  qed
qed

lemma token_refresh_cases:
  assumes "token_refresh env now fresh jti f s = (s', resp)"
  obtains (refused) "s' = s" "\<not> issues resp" "consent_of resp = None"
  | (rotated) token refresh row where "tf_refresh_token f = Some refresh" "fresh = Some token"
      "row \<in> set (oa_refresh s)" "rf_token_hash row = hash_secret env refresh" "rf_revoked_at row = None"
      "resp = mint_token_response env now jti (rf_grant row) token s'" "oa_codes s' = oa_codes s"
      "hash_secret env token \<noteq> hash_secret env refresh"
      "oa_refresh s' = prune_connection_stale now (rf_grant row)
         (map (\<lambda>r. if rf_token_hash r = hash_secret env refresh then r\<lparr>rf_revoked_at := Some now\<rparr> else r) (oa_refresh s)
          @ [new_refresh_row env now token (rf_grant row)])"
proof (cases "tf_refresh_token f")
  case None
  with assms show thesis by (intro refused) (auto simp: token_refresh_def)
next
  case (Some refresh)
  obtain s1 res where r: "rotate_refresh_token env now fresh refresh REFRESH_TTL s = (s1, res)" by fastforce
  then show thesis
  proof (cases rule: rotate_refresh_token_cases)
    case (failed e)
    with assms Some r show thesis by (intro refused) (auto simp: token_refresh_def)
  next
    case (rotated token row)
    with assms Some r show thesis
      by (intro that(2) [of refresh token row]) (auto simp: token_refresh_def)
  qed
qed

text \<open>
  One operation at a time: \<open>op_tables\<close> says where a code and a live refresh token of the new state come
  from, and that the codes, counted with the one just exchanged, are those there were and the one just
  consented to.
\<close>

definition live_refresh :: "refresh_row \<Rightarrow> bool" where
  "live_refresh r \<longleftrightarrow> rf_revoked_at r = None"

definition tables_follow ::
  "oauth_env \<Rightarrow> string option \<Rightarrow> auth_code_grant option \<Rightarrow> auth_code_grant option \<Rightarrow> oauth_state \<Rightarrow> oauth_state \<Rightarrow> bool" where
  "tables_follow env fresh consent exchange s s' \<longleftrightarrow>
     mset (map co_grant (oa_codes s')) + mset (opt_list exchange) \<subseteq># mset (map co_grant (oa_codes s)) + mset (opt_list consent)
     \<and> (\<forall>r \<in> set (oa_codes s'). r \<in> set (oa_codes s) \<or> (\<exists>f. fresh = Some f \<and> co_code_hash r = hash_secret env f))
     \<and> (\<forall>r \<in> set (oa_refresh s'). live_refresh r \<longrightarrow> r \<in> set (oa_refresh s) \<or>
          (\<exists>f. fresh = Some f \<and> rf_token_hash r = hash_secret env f) \<and>
          ((\<exists>g. exchange = Some g \<and> rf_grant r = refresh_grant_of g) \<or>
           (\<exists>r0 \<in> set (oa_refresh s). live_refresh r0 \<and> rf_grant r = rf_grant r0)))"

lemma tables_follow_live:
  assumes "tables_follow env fresh consent exchange s s'" "r \<in> set (oa_refresh s')" "live_refresh r"
  obtains (old) "r \<in> set (oa_refresh s)"
  | (exchanged) f g where "fresh = Some f" "rf_token_hash r = hash_secret env f" "exchange = Some g"
      "rf_grant r = refresh_grant_of g"
  | (rotated) f r0 where "fresh = Some f" "rf_token_hash r = hash_secret env f" "r0 \<in> set (oa_refresh s)" "live_refresh r0"
      "rf_grant r = rf_grant r0"
proof -
  from assms(1) have "\<forall>r \<in> set (oa_refresh s'). live_refresh r \<longrightarrow> r \<in> set (oa_refresh s) \<or>
      (\<exists>f. fresh = Some f \<and> rf_token_hash r = hash_secret env f) \<and>
      ((\<exists>g. exchange = Some g \<and> rf_grant r = refresh_grant_of g) \<or>
       (\<exists>r0 \<in> set (oa_refresh s). live_refresh r0 \<and> rf_grant r = rf_grant r0))"
    unfolding tables_follow_def by (elim conjE)
  from bspec [OF this assms(2)] assms(3) that show thesis by blast
qed

lemma tables_follow_code:
  assumes "tables_follow env fresh consent exchange s s'" "r \<in> set (oa_codes s')"
  shows "r \<in> set (oa_codes s) \<or> (\<exists>f. fresh = Some f \<and> co_code_hash r = hash_secret env f)"
  using assms(1) unfolding tables_follow_def by (elim conjE) (rule bspec [OF _ assms(2)])

lemma tables_follow_shrink:
  assumes "mset (oa_codes s') \<subseteq># mset (oa_codes s)" "set (filter live_refresh (oa_refresh s')) \<subseteq> set (oa_refresh s)"
  shows "tables_follow env fresh None None s s'"
  using assms image_mset_subseteq_mono [OF assms(1), of co_grant] mset_subset_eqD [OF assms(1)]
  by (auto simp: tables_follow_def)

lemma mset_filter_subset [simp]: "mset (filter P xs) \<subseteq># mset xs"
  by (simp add: multiset_filter_subset)

lemma set_keep_newest_stale: "set (keep_newest_stale now tab rows) \<subseteq> set rows"
  by (induction rows) auto

lemma drop_consumers_shrink:
  "fold drop_consumer cs acc = (s', n, d) \<Longrightarrow> acc = (s, n0, d0) \<Longrightarrow>
     mset (oa_codes s') \<subseteq># mset (oa_codes s) \<and> set (oa_refresh s') \<subseteq> set (oa_refresh s)"
proof (induction cs arbitrary: acc s n0 d0)
  case (Cons c cs)
  obtain s1 n1 d1 where s1: "drop_consumer c acc = (s1, n1, d1)" by (metis prod_cases3)
  have "mset (oa_codes s') \<subseteq># mset (oa_codes s1) \<and> set (oa_refresh s') \<subseteq> set (oa_refresh s1)"
    using Cons.prems(1) s1 by (intro Cons.IH [of "drop_consumer c acc"]) simp_all
  moreover have "oa_codes s1 = filter (\<lambda>r. cg_consumer_id (co_grant r) \<noteq> c) (oa_codes s)" "set (oa_refresh s1) \<subseteq> set (oa_refresh s)"
    using Cons.prems(2) s1 by (auto simp: drop_consumer_def)
  ultimately show ?case by (metis mset_filter_subset subset_mset.order_trans subset_trans)
qed simp

lemma sweep_shrinks:
  "mset (oa_codes (fst (sweep_dangling_consumers walked s))) \<subseteq># mset (oa_codes s)"
  "set (oa_refresh (fst (sweep_dangling_consumers walked s))) \<subseteq> set (oa_refresh s)"
proof -
  have "mset (oa_codes (fst (fold drop_consumer cs (s, 0, 0)))) \<subseteq># mset (oa_codes s) \<and>
      set (oa_refresh (fst (fold drop_consumer cs (s, 0, 0)))) \<subseteq> set (oa_refresh s)" for cs
    by (metis drop_consumers_shrink prod_cases3 fst_conv)
  then show "mset (oa_codes (fst (sweep_dangling_consumers walked s))) \<subseteq># mset (oa_codes s)"
    "set (oa_refresh (fst (sweep_dangling_consumers walked s))) \<subseteq> set (oa_refresh s)"
    by (simp_all add: sweep_dangling_consumers_def Let_def split: option.split)
qed

lemma housekeeping_shrinks:
  "mset (oa_codes (housekeeping_run now walked s)) \<subseteq># mset (oa_codes s)"
  "set (oa_refresh (housekeeping_run now walked s)) \<subseteq> set (oa_refresh s)"
  using sweep_shrinks [of walked "fst (purge_expired_auth_codes now s)"] set_keep_newest_stale
  by (auto simp: housekeeping_run_def prune_stale_refresh_rows_def purge_expired_auth_codes_def Let_def
      intro: subset_mset.order_trans dest!: subsetD)

lemma consume_removes:
  assumes "row \<in> set rows" "co_code_hash row = h"
  shows "add_mset (co_grant row) (mset (map co_grant (filter (\<lambda>r. co_code_hash r \<noteq> h) rows))) \<subseteq># mset (map co_grant rows)"
proof -
  have "add_mset row (mset (filter (\<lambda>r. co_code_hash r \<noteq> h) rows)) \<subseteq># mset rows"
    using assms by (induction rows) (auto intro: subset_mset.order_trans)
  from image_mset_subseteq_mono [OF this, of co_grant] show ?thesis by simp
qed

lemma exchange_of_row:
  assumes "exchange_of env now (OToken f) s = Some g"
  obtains row code where "tf_code f = Some code" "row \<in> set (oa_codes s)" "co_grant row = g"
    "co_code_hash row = hash_secret env code" "tf_grant_type f = ''authorization_code''"
    "tf_client_id f = Some (cg_client_id g)" "tf_redirect_uri f = Some (cg_redirect_uri g)"
    "map_option (oe_s256 env) (tf_code_verifier f) = Some (cg_code_challenge g)"
  using assms
  by (auto simp: exchange_of_def split: if_splits option.splits sum.splits elim!: consume_auth_code_Inr)

lemma exchange_of_other: "tf_grant_type f \<noteq> ''authorization_code'' \<Longrightarrow> exchange_of env now (OToken f) s = None"
  by (simp add: exchange_of_def)

lemma prune_connection_stale_subset: "set (prune_connection_stale now g tab) \<subseteq> set tab"
  by (auto simp: prune_connection_stale_def)

lemma token_code_tables:
  assumes "token_authorization_code env now fresh jti f s = (s', resp)" "tf_grant_type f = ''authorization_code''"
  shows "tables_follow env fresh None (exchange_of env now (OToken f) s) s s'"
proof (cases "exchange_of env now (OToken f) s")
  case None
  with assms show ?thesis
    by (auto intro!: tables_follow_shrink elim!: token_authorization_code_cases)
next
  case (Some g)
  then obtain row code where row: "tf_code f = Some code" "row \<in> set (oa_codes s)" "co_grant row = g"
    "co_code_hash row = hash_secret env code" by (rule exchange_of_row)
  note burn = consume_removes [OF row(2,4)]
  from assms show ?thesis
  proof (cases rule: token_authorization_code_cases)
    case (exchanged code' g' token)
    with burn row Some show ?thesis
      by (auto simp: tables_follow_def dest!: subsetD [OF prune_connection_stale_subset])
  qed (use burn row Some in \<open>auto simp: tables_follow_def\<close>)
qed

lemma token_refresh_tables:
  assumes "token_refresh env now fresh jti f s = (s', resp)"
  shows "tables_follow env fresh None None s s'"
  using assms
proof (cases rule: token_refresh_cases)
  case refused
  then show ?thesis by (auto intro: tables_follow_shrink)
next
  case (rotated token refresh row)
  then show ?thesis
    by (auto simp: tables_follow_def live_refresh_def intro!: bexI [of _ row]
        dest!: subsetD [OF prune_connection_stale_subset] split: if_splits)
qed

lemma authorize_post_tables:
  assumes "authorize_post env now fresh secret cookie f s = (s', resp)"
  shows "tables_follow env fresh (consent_of resp) None s s'"
  using assms
proof (cases rule: authorize_post_cases)
  case refused
  then show ?thesis by (auto intro!: tables_follow_shrink)
next
  case (granted client sender g code)
  then show ?thesis
    by (auto simp: tables_follow_def intro!: image_mset_subseteq_mono)
qed

lemma op_tables:
  assumes "run_oauth_op env now fresh jti op s = (s', resp)"
  shows "tables_follow env fresh (consent_of resp) (exchange_of env now op s) s s'"
proof (cases op)
  case (ORegister ip name uris)
  with assms show ?thesis
    by (auto simp: oauth_register_def register_client_def exchange_of_def store_error_def Let_def
        intro!: tables_follow_shrink split: prod.splits if_splits option.splits)
next
  case (OAuthorizeGet cookie uri p)
  then have "oa_codes s' = oa_codes s" "oa_refresh s' = oa_refresh s" "consent_of resp = None"
    using assms by (auto simp: authorize_get_def validate_client_def
        split: sum.splits prod.splits option.splits if_splits elim!: session_sender_frame)
  with OAuthorizeGet show ?thesis by (auto simp: exchange_of_def intro!: tables_follow_shrink)
next
  case (OAuthorizePost cookie f)
  with assms authorize_post_tables show ?thesis by (simp add: exchange_of_def)
next
  case (OToken f)
  have "consent_of resp = None"
    using assms OToken by (auto simp: token_endpoint_def elim!: token_authorization_code_cases token_refresh_cases split: if_splits)
  with assms OToken show ?thesis
    by (auto simp: token_endpoint_def exchange_of_other intro: token_code_tables token_refresh_tables tables_follow_shrink
        split: if_splits)
next
  case (ODisconnect sender consumer)
  with assms show ?thesis
    by (auto simp: connection_revoke_submit_def revoke_connection_def exchange_of_def live_refresh_def Let_def
        intro!: tables_follow_shrink split: if_splits)
next
  case (OHousekeeping walked)
  with assms housekeeping_shrinks [of now walked s] show ?thesis
    by (auto simp: exchange_of_def intro!: tables_follow_shrink)
next
  case (ODash op')
  with assms show ?thesis by (auto simp: exchange_of_def intro!: tables_follow_shrink)
qed

section \<open>Consents and tokens agree\<close>

fun agreed :: "oauth_run \<Rightarrow> bool" where
  "agreed (s, consents, exchanges) \<longleftrightarrow>
     mset exchanges + mset (map co_grant (oa_codes s)) \<subseteq># mset consents
     \<and> (\<forall>r \<in> set (oa_refresh s). live_refresh r \<longrightarrow> rf_grant r \<in> refresh_grant_of ` set consents)"

lemma agreed_code: "agreed (s, consents, exchanges) \<Longrightarrow> row \<in> set (oa_codes s) \<Longrightarrow> co_grant row \<in> set consents"
  by (auto dest!: mset_subset_eqD)

lemma exchange_was_live:
  assumes "exchange_of env now op s = Some g"
  shows "g \<in> co_grant ` set (oa_codes s)"
  using assms by (cases op) (auto simp: exchange_of_def split: if_splits option.splits sum.splits elim!: consume_auth_code_Inr)

lemma agreed_step:
  assumes "agreed x" "oauth_step env permitted x y"
  shows "agreed y"
  using assms(2,1)
proof cases
  case (oauth_step_op now fresh op s jti s' resp consents exchanges)
  let ?c = "opt_list (consent_of resp)" and ?x = "opt_list (exchange_of env now op s)"
  from oauth_step_op(4) have f: "tables_follow env fresh (consent_of resp) (exchange_of env now op s) s s'"
    by (rule op_tables)
  have a: "agreed (s, consents, exchanges)" using assms(1) oauth_step_op(1) by simp
  have "mset (map co_grant (oa_codes s')) + mset ?x \<subseteq># mset (map co_grant (oa_codes s)) + mset ?c"
    using f by (simp add: tables_follow_def)
  then have "mset exchanges + (mset (map co_grant (oa_codes s')) + mset ?x)
      \<subseteq># mset exchanges + (mset (map co_grant (oa_codes s)) + mset ?c)"
    by simp
  moreover have "mset exchanges + mset (map co_grant (oa_codes s)) + mset ?c \<subseteq># mset consents + mset ?c"
    using a by simp
  ultimately have "mset exchanges + mset ?x + mset (map co_grant (oa_codes s')) \<subseteq># mset consents + mset ?c"
    unfolding add.assoc by (subst (2) add.commute) (rule subset_mset.order_trans)
  moreover have "rf_grant r \<in> refresh_grant_of ` (set consents \<union> set ?c)" if "r \<in> set (oa_refresh s')" "live_refresh r" for r
  proof -
    from f that show ?thesis
    proof (cases rule: tables_follow_live)
      case (exchanged fr g)
      then obtain row where "row \<in> set (oa_codes s)" "g = co_grant row" using exchange_was_live by blast
      with agreed_code [OF a] exchanged(4) show ?thesis by blast
    qed (use a that in auto)
  qed
  ultimately show ?thesis using oauth_step_op(2) by simp
qed

interpretation oauth_run: stepping "oauth_step env permitted" agreed for env permitted
  by unfold_locales (rule agreed_step)

lemma token_has_consent:
  assumes "rtranclp (oauth_step env permitted) (s0, [], []) (s, consents, exchanges)"
    and "oa_codes s0 = []" "oa_refresh s0 = []"
    and "run_oauth_op env now fresh jti (OToken f) s = (s', TokenIssued rg claims refresh)"
  shows "\<exists>g \<in> set consents. rg = refresh_grant_of g
    \<and> tc_sender_id claims = cg_sender_id g \<and> tc_consumer_id claims = Some (cg_consumer_id g)
    \<and> tc_consumer_class claims = Smart \<and> tc_is_admin claims = resolve_is_admin s (cg_sender_id g)
    \<and> (tf_grant_type f = ''authorization_code'' \<longrightarrow>
         tf_client_id f = Some (cg_client_id g) \<and> tf_redirect_uri f = Some (cg_redirect_uri g)
         \<and> map_option (oe_s256 env) (tf_code_verifier f) = Some (cg_code_challenge g)
         \<and> count (mset exchanges) g < count (mset consents) g)"
proof -
  have inv: "agreed (s, consents, exchanges)"
    using oauth_run.reachable_keeps [OF assms(1)] assms(2,3) by simp
  show ?thesis
  proof (cases "tf_grant_type f = ''authorization_code''")
    case True
    with assms(4) have "token_authorization_code env now fresh jti f s = (s', TokenIssued rg claims refresh)"
      by (simp add: token_endpoint_def)
    then show ?thesis using True
    proof (cases rule: token_authorization_code_cases)
      case (exchanged code g token)
      have "oa_dash s' = oa_dash s"
        using assms(4) True by (auto simp: token_endpoint_def token_authorization_code_def consume_auth_code_def
            issue_refresh_token_def Let_def split: prod.splits sum.splits option.splits)
      moreover from exchanged(2) obtain row where row: "row \<in> set (oa_codes s)" "co_grant row = g"
        "tf_client_id f = Some (cg_client_id g)" "tf_redirect_uri f = Some (cg_redirect_uri g)"
        "map_option (oe_s256 env) (tf_code_verifier f) = Some (cg_code_challenge g)"
        by (rule exchange_of_row) blast
      moreover have "count (mset exchanges) g < count (mset consents) g"
      proof -
        have "0 < count (mset (map co_grant (oa_codes s))) g" using row(1,2) by force
        moreover have "count (mset exchanges + mset (map co_grant (oa_codes s))) g \<le> count (mset consents) g"
          using inv by (intro mset_subset_eq_count) simp
        ultimately show ?thesis unfolding count_union by linarith
      qed
      ultimately show ?thesis
        using exchanged(4) agreed_code [OF inv row(1)]
        by (auto simp: mint_token_response_def claims_new_def refresh_grant_of_def resolve_is_admin_def)
    qed simp_all
  next
    case False
    with assms(4) have "token_refresh env now fresh jti f s = (s', TokenIssued rg claims refresh)"
      by (auto simp: token_endpoint_def split: if_splits)
    then show ?thesis
    proof (cases rule: token_refresh_cases)
      case (rotated token old row)
      have "oa_dash s' = oa_dash s"
        using assms(4) False by (auto simp: token_endpoint_def token_refresh_def rotate_refresh_token_def Let_def
            split: prod.splits sum.splits option.splits if_splits)
      moreover obtain g where "g \<in> set consents" "rf_grant row = refresh_grant_of g"
        using inv rotated(3,5) by (auto simp: live_refresh_def)
      ultimately show ?thesis
        using rotated(6) False
        by (auto simp: mint_token_response_def claims_new_def refresh_grant_of_def resolve_is_admin_def)
    qed simp
  qed
qed

text \<open>
  C3: Tokens and consents agree, one to one. Starting from empty tables, whatever is registered,
  approved, exchanged, refreshed, disconnected and swept: an access token is only minted for a consent
  a person gave, for the person, the connection and the client of that consent, as an agent of the
  smart class with the administrator's flag of that moment. When it is minted for a code, the client
  presented the identifier and the redirect of the consent and the verifier whose hash is its challenge,
  and there were more such consents than such codes had been exchanged before: no consent is
  exchanged twice.
\<close>

theorem tokens_agree_with_consents:
  assumes "rtranclp (oauth_step env permitted) (s0, [], []) (s, consents, exchanges)"
    and "oa_codes s0 = []" "oa_refresh s0 = []"
    and "run_oauth_op env now fresh jti (OToken f) s = (s', TokenIssued rg claims refresh)"
  shows "\<exists>g \<in> set consents. rg = refresh_grant_of g
    \<and> tc_sender_id claims = cg_sender_id g \<and> tc_consumer_id claims = Some (cg_consumer_id g)
    \<and> tc_consumer_class claims = Smart \<and> tc_is_admin claims = resolve_is_admin s (cg_sender_id g)
    \<and> (tf_grant_type f = ''authorization_code'' \<longrightarrow>
         tf_client_id f = Some (cg_client_id g) \<and> tf_redirect_uri f = Some (cg_redirect_uri g)
         \<and> map_option (oe_s256 env) (tf_code_verifier f) = Some (cg_code_challenge g)
         \<and> count (mset exchanges) g < count (mset consents) g)"
  using assms by (rule token_has_consent)

text \<open>
  Whoever approves is signed in, and the code goes where the client was registered to receive it: a
  code is issued only for a cookie whose token verifies, in the name of its owner, for a known client, to
  a redirect that matches one the client registered, for an approved form with a PKCE challenge, and
  never under the name of a bot's own identity.
\<close>

lemma codes_go_to_registered_clients:
  assumes "authorize_post env now fresh secret cookie f s = (s', ConsentGranted g code url)"
  shows "(\<exists>token claims. cookie = Some token \<and> snd (jwt_verify (oe_dash env) now token (oa_dash s)) = Inr claims
           \<and> cg_sender_id g = tc_sender_id claims)
    \<and> (\<exists>client. lookup_client env (cg_client_id g) s = Inr (Some client)
           \<and> (\<exists>u \<in> set (cr_redirect_uris client). redirect_matches u (cg_redirect_uri g)))
    \<and> cf_decision f = ''approve'' \<and> trim (cg_code_challenge g) \<noteq> []
    \<and> system_user_for (oa_consumers s) (cg_consumer_id g) = None
    \<and> url = redirect_back (cg_redirect_uri g) ''code'' code (ap_state f)"
  using assms
proof (cases rule: authorize_post_cases)
  case (granted client sender g' code')
  then have "lookup_client env (ap_client_id f) s = Inr (Some client)" "trim (ap_code_challenge f) \<noteq> []"
    "\<exists>u \<in> set (cr_redirect_uris client). redirect_matches u (ap_redirect_uri f)"
    by (auto simp: validate_client_def list_ex_iff split: if_splits sum.splits option.splits)
  with granted show ?thesis by (auto simp: session_sender_Some)
qed simp

section \<open>Secrets that were used\<close>

definition no_collision :: "oauth_env \<Rightarrow> string \<Rightarrow> int \<Rightarrow> string option \<Rightarrow> oauth_op \<Rightarrow> oauth_state \<Rightarrow> bool" where
  "no_collision env secret now fresh op s \<longleftrightarrow> \<not> is_some_and (\<lambda>f. hash_secret env f = hash_secret env secret) fresh"

fun code_spent :: "oauth_env \<Rightarrow> string \<Rightarrow> oauth_run \<Rightarrow> bool" where
  "code_spent env code (s, _) \<longleftrightarrow> \<not> (\<exists>r \<in> set (oa_codes s). co_code_hash r = hash_secret env code)"

fun refresh_spent :: "oauth_env \<Rightarrow> string \<Rightarrow> oauth_run \<Rightarrow> bool" where
  "refresh_spent env token (s, _) \<longleftrightarrow> \<not> (\<exists>r \<in> set (oa_refresh s). live_refresh r \<and> rf_token_hash r = hash_secret env token)"

interpretation code_run: stepping "oauth_step env (no_collision env code)" "code_spent env code" for env code
proof
  fix x y assume spent: "code_spent env code x" and step: "oauth_step env (no_collision env code) x y"
  from step spent show "code_spent env code y"
  proof cases
    case (oauth_step_op now fresh op s jti s' resp consents exchanges)
    note f = tables_follow_code [OF op_tables [OF oauth_step_op(4)]]
    have "co_code_hash r \<noteq> hash_secret env code" if "r \<in> set (oa_codes s')" for r
      using f [OF that] spent oauth_step_op(1,3) by (auto simp: no_collision_def)
    with oauth_step_op(2) show ?thesis by simp
  qed
qed

interpretation refresh_run: stepping "oauth_step env (no_collision env token)" "refresh_spent env token" for env token
proof
  fix x y assume spent: "refresh_spent env token x" and step: "oauth_step env (no_collision env token) x y"
  from step spent show "refresh_spent env token y"
  proof cases
    case (oauth_step_op now fresh op s jti s' resp consents exchanges)
    note f = tables_follow_live [OF op_tables [OF oauth_step_op(4)]]
    have "rf_token_hash r \<noteq> hash_secret env token" if "r \<in> set (oa_refresh s')" "live_refresh r" for r
      using that spent oauth_step_op(1,3) by (cases rule: f [OF that]) (auto simp: no_collision_def)
    with oauth_step_op(2) show ?thesis by auto
  qed
qed

lemma code_burned_once:
  assumes "token_authorization_code env now fresh jti f s = (s1, resp)" "tf_code f = Some code"
    "tf_client_id f = Some cid" "tf_redirect_uri f = Some uri" "tf_code_verifier f = Some v"
    and "rtranclp (oauth_step env (no_collision env code)) (s1, cs, xs) (s2, cs', xs')"
    and "token_authorization_code env now' fresh' jti' f' s2 = (s3, resp')" "tf_code f' = Some code"
  shows "resp' = OAuthErr 400 (if tf_client_id f' = None \<or> tf_redirect_uri f' = None \<or> tf_code_verifier f' = None
    then ''invalid_request'' else ''invalid_grant'')"
proof -
  have "oa_codes s1 = filter (\<lambda>r. co_code_hash r \<noteq> hash_secret env code) (oa_codes s)"
    using assms(1-5) by (auto simp: token_authorization_code_def consume_auth_code_def issue_refresh_token_def Let_def
        split: prod.splits sum.splits option.splits)
  then have "code_spent env code (s2, cs', xs')"
    by (intro code_run.reachable_keeps [OF assms(6)]) simp
  then have "List.find (\<lambda>r. co_code_hash r = hash_secret env code) (oa_codes s2) = None"
    by (auto simp: find_None_iff)
  with assms(7,8) show ?thesis
    by (auto simp: token_authorization_code_def consume_auth_code_def store_error_def Let_def split: option.splits)
qed

text \<open>
  C35: A refresh token works once. When it was exchanged for a new pair, presenting it again is refused
  as an invalid grant, whatever happened in between, unless a secret drawn since has its hash.
\<close>

theorem refresh_token_works_once:
  assumes "run_oauth_op env now fresh jti (OToken f) s = (s1, TokenIssued rg claims new_refresh)"
    and "tf_grant_type f = ''refresh_token''" "tf_refresh_token f = Some token"
    and "rtranclp (oauth_step env (no_collision env token)) (s1, cs, xs) (s2, cs', xs')"
    and "run_oauth_op env now' fresh' jti' (OToken f') s2 = (s3, resp)"
    and "tf_grant_type f' = ''refresh_token''" "tf_refresh_token f' = Some token"
  shows "resp = OAuthErr 400 ''invalid_grant'' \<and> s3 = s2"
proof -
  have "token_refresh env now fresh jti f s = (s1, TokenIssued rg claims new_refresh)"
    using assms(1,2) by (simp add: token_endpoint_def)
  then have "refresh_spent env token (s1, cs, xs)"
  proof (cases rule: token_refresh_cases)
    case (rotated new refresh row)
    then show ?thesis using assms(3)
      by (auto simp: live_refresh_def dest!: subsetD [OF prune_connection_stale_subset] split: if_splits)
  qed simp
  then have "refresh_spent env token (s2, cs', xs')"
    by (rule refresh_run.reachable_keeps [OF assms(4)])
  then have "List.find (\<lambda>r. rf_token_hash r = hash_secret env token \<and> rf_revoked_at r = None) (oa_refresh s2) = None"
    by (auto simp: find_None_iff live_refresh_def)
  with assms(5-7) show ?thesis
    by (auto simp: token_endpoint_def token_refresh_def rotate_refresh_token_def store_error_def)
qed

section \<open>Disconnected connections\<close>

definition of_connection :: "string \<Rightarrow> string \<Rightarrow> refresh_grant \<Rightarrow> bool" where
  "of_connection sender consumer g \<longleftrightarrow> rg_sender_id g = sender \<and> rg_consumer_id g = consumer"

definition no_redemption :: "oauth_env \<Rightarrow> string \<Rightarrow> string \<Rightarrow> int \<Rightarrow> string option \<Rightarrow> oauth_op \<Rightarrow> oauth_state \<Rightarrow> bool" where
  "no_redemption env sender consumer now fresh op s \<longleftrightarrow>
     \<not> is_some_and (\<lambda>g. of_connection sender consumer (refresh_grant_of g)) (exchange_of env now op s)"

fun disconnected :: "string \<Rightarrow> string \<Rightarrow> oauth_run \<Rightarrow> bool" where
  "disconnected sender consumer (s, _) \<longleftrightarrow> \<not> (\<exists>r \<in> set (oa_refresh s). live_refresh r \<and> of_connection sender consumer (rf_grant r))"

interpretation disconnected_run: stepping "oauth_step env (no_redemption env sender consumer)" "disconnected sender consumer"
  for env sender consumer
proof
  fix x y assume off: "disconnected sender consumer x" and step: "oauth_step env (no_redemption env sender consumer) x y"
  from step off show "disconnected sender consumer y"
  proof cases
    case (oauth_step_op now fresh op s jti s' resp consents exchanges)
    note f = tables_follow_live [OF op_tables [OF oauth_step_op(4)]]
    have "\<not> of_connection sender consumer (rf_grant r)" if "r \<in> set (oa_refresh s')" "live_refresh r" for r
      using that off oauth_step_op(1,3) by (cases rule: f [OF that]) (auto simp: no_redemption_def)
    with oauth_step_op(2) show ?thesis by auto
  qed
qed

text \<open>
  C36: A disconnected connection gets no token any more, until its owner's consent is redeemed again:
  after the administrator disconnects it, along any run in which no code of that person and that
  connection is exchanged, the token endpoint issues nothing for them.
\<close>

theorem disconnected_gets_no_token:
  assumes "run_oauth_op env now fresh jti (ODisconnect sender consumer) s = (s1, Disconnected n)"
    and "rtranclp (oauth_step env (no_redemption env (trim sender) (trim consumer))) (s1, cs, xs) (s2, cs', xs')"
    and "no_redemption env (trim sender) (trim consumer) now' fresh' (OToken f) s2"
    and "run_oauth_op env now' fresh' jti' (OToken f) s2 = (s3, TokenIssued rg claims refresh)"
  shows "\<not> of_connection (trim sender) (trim consumer) rg"
proof -
  have "oa_refresh s1 = map (\<lambda>r. if of_connection (trim sender) (trim consumer) (rf_grant r) \<and> live_refresh r
      then r\<lparr>rf_revoked_at := Some now\<rparr> else r) (oa_refresh s)"
    using assms(1) by (auto simp: connection_revoke_submit_def revoke_connection_def of_connection_def live_refresh_def Let_def
        split: if_splits)
  then have "disconnected (trim sender) (trim consumer) (s1, cs, xs)"
    by (auto simp: live_refresh_def split: if_splits)
  then have off: "disconnected (trim sender) (trim consumer) (s2, cs', xs')"
    by (rule disconnected_run.reachable_keeps [OF assms(2)])
  show ?thesis
  proof (cases "tf_grant_type f = ''authorization_code''")
    case True
    with assms(4) have "token_authorization_code env now' fresh' jti' f s2 = (s3, TokenIssued rg claims refresh)"
      by (simp add: token_endpoint_def)
    then show ?thesis using True
    proof (cases rule: token_authorization_code_cases)
      case (exchanged code g token)
      with assms(3) show ?thesis by (auto simp: no_redemption_def mint_token_response_def)
    qed simp_all
  next
    case False
    with assms(4) have "token_refresh env now' fresh' jti' f s2 = (s3, TokenIssued rg claims refresh)"
      by (auto simp: token_endpoint_def split: if_splits)
    then show ?thesis
    proof (cases rule: token_refresh_cases)
      case (rotated token old row)
      with off show ?thesis by (auto simp: mint_token_response_def live_refresh_def)
    qed simp
  qed
qed

section \<open>Names and redirects\<close>

lemma slugify_step_simulates:
  assumes "fst a = fst b" "snd b \<longleftrightarrow> snd a \<or> fst a = []"
  shows "fst (slugify_step ch a) = fst (slug_step (\<lambda>_. False) ch b)
    \<and> (snd (slug_step (\<lambda>_. False) ch b) \<longleftrightarrow> snd (slugify_step ch a) \<or> fst (slugify_step ch a) = [])"
proof -
  have "\<not> is_ascii_uppercase (to_ascii_lower c) \<or> is_ascii_lowercase (to_ascii_lower c)" for c
    by (auto simp: to_ascii_lower_def is_ascii_uppercase_def is_ascii_lowercase_def byte_def)
  then show ?thesis
    using assms by (auto simp: slugify_step_def slug_step_def char_to_ascii_lowercase_def Let_def split: list.splits)
qed

lemma slugify_loop: "fst (fold slugify_step cs ([], False)) = slug_chars (\<lambda>_. False) cs"
proof -
  have "fst a = fst b \<Longrightarrow> (snd b \<longleftrightarrow> snd a \<or> fst a = []) \<Longrightarrow>
      fst (fold slugify_step cs a) = fst (fold (slug_step (\<lambda>_. False)) cs b)" for a b
  proof (induction cs arbitrary: a b)
    case (Cons c cs)
    show ?case using slugify_step_simulates [OF Cons.prems] by (simp add: Cons.IH)
  qed simp
  then show ?thesis by (simp add: slug_chars_def)
qed

lemma strip_one_dash:
  assumes "no_double_dash out"
  shows "rev (dropWhile (\<lambda>c. c = CHR ''-'') (rev out)) = (if ends_with ''-'' out then butlast out else out)"
proof (cases out rule: rev_cases)
  case (snoc ys y)
  with assms show ?thesis
    by (cases ys rule: rev_cases) (auto simp: ends_with_dash successively_append_iff butlast_append)
qed (simp add: ends_with_def)

text \<open>
  Names of connections are always usable. The consent page's own \<open>slugify\<close> computes the same slug as
  the memory's \<open>derive_slug\<close> without Unicode folding, which fails exactly where \<open>slugify\<close> is empty; and the
  name it picks, from the person's input or the client's name, always parses as the slug of a wiki.
\<close>

lemma connection_names_parse:
  "derive_slug utf8_chars (\<lambda>_. False) title = (if slugify title = [] then Inl (InvalidTitle title) else Inr (slugify title))
   \<and> wiki_slug_parse (connection_slug input client_name) = Inr (WikiSlug (connection_slug input client_name))"
proof -
  have eq: "derive_slug utf8_chars (\<lambda>_. False) t = (if slugify t = [] then Inl (InvalidTitle t) else Inr (slugify t))" for t
  proof -
    obtain d where "slug_prefix (slug_chars (\<lambda>_. False) (utf8_chars t)) d" using slug_chars_prefix by blast
    then have "no_double_dash (slug_chars (\<lambda>_. False) (utf8_chars t))" by (simp add: slug_prefix_def)
    from strip_one_dash [OF this] show ?thesis
      by (simp add: derive_slug_def slugify_def slugify_loop Let_def)
  qed
  have "wiki_slug_parse (slugify t) = Inr (WikiSlug (slugify t))" if "slugify t \<noteq> []" for t
    using derive_slug_valid [of utf8_chars "\<lambda>_. False" t "slugify t"] eq [of t] that by simp
  moreover have "wiki_slug_parse ''agent'' = Inr (WikiSlug ''agent'')"
    by code_simp
  ultimately show ?thesis using eq [of title] by (simp add: connection_slug_def Let_def)
qed

definition loopback_uri :: "string \<Rightarrow> string \<Rightarrow> string \<Rightarrow> string" where
  "loopback_uri host port path = ''http://'' @ host @ port @ path"

definition port_part :: "string \<Rightarrow> bool" where
  "port_part p \<longleftrightarrow> p = [] \<or> (hd p = CHR '':'' \<and> list_all is_ascii_digit (tl p))"

definition path_part :: "string \<Rightarrow> bool" where
  "path_part p \<longleftrightarrow> p = [] \<or> hd p = CHR ''/''"

lemma takeWhile_append_stop: "list_all P xs \<Longrightarrow> ys = [] \<or> \<not> P (hd ys) \<Longrightarrow> takeWhile P (xs @ ys) = xs"
  by (cases ys) (auto simp: list_all_iff takeWhile_append)

lemma port_part_chars:
  "port_part p \<Longrightarrow> CHR ''/'' \<notin> set p \<and> CHR '']'' \<notin> set p"
  by (cases p) (auto simp: port_part_def list_all_iff is_ascii_digit_def byte_def)

lemma loopback_uri_key:
  assumes "host \<in> {''localhost'', ''127.0.0.1'', ''[::1]''}" "port_part port" "path_part path"
  shows "is_loopback_redirect (loopback_uri host port path)" "loopback_key (loopback_uri host port path) = host @ path"
proof -
  have stop: "port @ path = [] \<or> hd (port @ path) \<in> {CHR '':'', CHR ''/''}"
    using assms(2,3) by (cases port; cases path) (auto simp: port_part_def path_part_def)
  have free: "CHR ''/'' \<notin> set host" using assms(1) by auto
  have authority: "until_any ''/'' (host @ port @ path) = host @ port"
  proof -
    have "list_all (\<lambda>c. c \<notin> set ''/'') (host @ port)"
      using free port_part_chars [OF assms(2)] by (auto simp: list_all_iff)
    from takeWhile_append_stop [OF this, of path] assms(3) show ?thesis
      by (auto simp: until_any_def path_part_def)
  qed
  have name: "until_any ''/:'' (h @ port @ path) = h" if "list_all (\<lambda>c. c \<notin> set ''/:'') h" for h
    using takeWhile_append_stop [OF that, of "port @ path"] stop by (auto simp: until_any_def)
  have port: "until_any '':'' (h @ port) = h" if "list_all (\<lambda>c. c \<notin> set '':'') h" for h
    using takeWhile_append_stop [OF that, of port] assms(2) by (auto simp: until_any_def port_part_def)
  note parts = loopback_uri_def is_loopback_redirect_def loopback_key_def Let_def authority
  from assms(1) consider "host = ''[::1]''" | "host \<in> {''localhost'', ''127.0.0.1''}" by auto
  then have "is_loopback_redirect (loopback_uri host port path) \<and> loopback_key (loopback_uri host port path) = host @ path"
  proof cases
    case 1
    with authority show ?thesis
      by (simp_all add: parts until_any_def)
  next
    case 2
    then have "strip_prefix ''['' (host @ port @ path) = None" "CHR '']'' \<notin> set (host @ port)"
      "list_all (\<lambda>c. c \<notin> set ''/:'') host" "list_all (\<lambda>c. c \<notin> set '':'') host"
      using port_part_chars [OF assms(2)] by (auto simp: strip_prefix_None_iff starts_with_iff)
    with 2 name [of host] port [of host] show ?thesis
      by (auto simp: parts)
  qed
  then show "is_loopback_redirect (loopback_uri host port path)" "loopback_key (loopback_uri host port path) = host @ path" by simp_all
qed

text \<open>
  A loopback callback may change its port and nothing else: two well-formed loopback redirects, each
  a local host with an optional port and an optional path, match exactly when their host and their path
  are the same.
\<close>

lemma loopback_port_is_ignored:
  assumes "host \<in> {''localhost'', ''127.0.0.1'', ''[::1]''}" "port_part port" "path_part path"
    and "host' \<in> {''localhost'', ''127.0.0.1'', ''[::1]''}" "port_part port'" "path_part path'"
  shows "redirect_matches (loopback_uri host port path) (loopback_uri host' port' path') \<longleftrightarrow> host = host' \<and> path = path'"
proof -
  have "host @ path = host' @ path' \<longleftrightarrow> host = host' \<and> path = path'"
  proof -
    have "takeWhile (\<lambda>c. c \<noteq> CHR ''/'') (h @ p) = h" if "h \<in> {''localhost'', ''127.0.0.1'', ''[::1]''}" "path_part p" for h p
      using that by (intro takeWhile_append_stop) (auto simp: path_part_def)
    with assms show ?thesis by (metis append_same_eq same_append_eq)
  qed
  moreover have "loopback_uri host port path = loopback_uri host' port' path' \<Longrightarrow> host @ path = host' @ path'"
    using loopback_uri_key(2) [OF assms(1-3)] loopback_uri_key(2) [OF assms(4-6)] by simp
  ultimately show ?thesis
    using loopback_uri_key [OF assms(1-3)] loopback_uri_key [OF assms(4-6)] by (auto simp: redirect_matches_def)
qed

lemma loopback_port_is_ignored_witness:
  "redirect_matches ''http://localhost:3118/cb'' ''http://localhost:54321/cb''
   \<and> \<not> redirect_matches ''http://localhost:3118/cb'' ''http://localhost:3118/other''"
proof -
  have "redirect_matches (loopback_uri ''localhost'' '':3118'' ''/cb'') (loopback_uri ''localhost'' '':54321'' ''/cb'')
      \<longleftrightarrow> ''localhost'' = ''localhost'' \<and> ''/cb'' = ''/cb''"
    "redirect_matches (loopback_uri ''localhost'' '':3118'' ''/cb'') (loopback_uri ''localhost'' '':3118'' ''/other'')
      \<longleftrightarrow> ''localhost'' = ''localhost'' \<and> ''/cb'' = ''/other''"
    by (rule loopback_port_is_ignored; simp add: port_part_def path_part_def is_ascii_digit_def byte_def)+
  then show ?thesis by (simp add: loopback_uri_def)
qed

text \<open>
  A redirect with user information in its authority is taken for a loopback one: it goes to
  \<open>evil.example\<close>, matches the registration of a local client, and is shown as this computer.
\<close>

lemma user_information_passes_for_loopback:
  "redirect_matches ''http://localhost:3118/cb'' ''http://localhost:1@evil.example/cb''
   \<and> redirect_target_label ''http://localhost:1@evil.example/cb'' = ''a consumer on this computer''"
  by code_simp

section \<open>The sweeps\<close>

lemma stale_not_active: "stale now r \<longleftrightarrow> \<not> active_refresh now r"
  by (auto simp: stale_def active_refresh_def)

lemma same_connection_trans:
  "same_connection a g \<Longrightarrow> same_connection b a \<longleftrightarrow> same_connection b g"
  by (auto simp: same_connection_def)

lemma keep_newest_with_active:
  assumes "list_ex (\<lambda>a. same_connection (rf_grant a) g \<and> active_refresh now a) tab"
  shows "filter (\<lambda>r. same_connection (rf_grant r) g) (keep_newest_stale now tab rows)
    = filter (active_refresh now) (filter (\<lambda>r. same_connection (rf_grant r) g) rows)"
  using assms by (induction rows) (auto simp: stale_not_active same_connection_trans cong: rev_conj_cong)

lemma keep_newest_without_active:
  assumes "\<not> list_ex (\<lambda>a. same_connection (rf_grant a) g \<and> active_refresh now a) tab" "set rows \<subseteq> set tab"
  shows "filter (\<lambda>r. same_connection (rf_grant r) g) (keep_newest_stale now tab rows)
    = (let own = filter (\<lambda>r. same_connection (rf_grant r) g) rows in if own = [] then [] else [last own])"
  using assms(2)
proof (induction rows)
  case (Cons r rest)
  show ?case
  proof (cases "same_connection (rf_grant r) g")
    case True
    have stale: "stale now r2" if "r2 \<in> set rest" "same_connection (rf_grant r2) g" for r2
      using assms(1) Cons.prems that by (auto simp: stale_not_active list_ex_iff)
    have "stale now r" using assms(1) Cons.prems True by (auto simp: stale_not_active list_ex_iff)
    moreover have "list_ex (\<lambda>r2. same_connection (rf_grant r2) (rf_grant r) \<and> stale now r2) rest
        \<longleftrightarrow> filter (\<lambda>r. same_connection (rf_grant r) g) rest \<noteq> []"
      using stale by (auto simp: list_ex_iff filter_empty_conv same_connection_trans [OF True])
    moreover have "\<not> list_ex (\<lambda>a. same_connection (rf_grant a) (rf_grant r) \<and> active_refresh now a) tab"
      using assms(1) by (simp add: same_connection_trans [OF True])
    ultimately show ?thesis using True Cons by (auto simp: Let_def)
  next
    case False
    with Cons show ?thesis by (simp add: Let_def)
  qed
qed simp

text \<open>
  Pruning never loses what a connection is bound to: of each connection that has an active token the
  active ones stay and the stale ones all go; of a connection that has none, the newest stale row stays,
  and only that.
\<close>

lemma pruning_keeps_bindings:
  "filter (\<lambda>r. same_connection (rf_grant r) g) (oa_refresh (fst (prune_stale_refresh_rows now s))) =
     (let own = filter (\<lambda>r. same_connection (rf_grant r) g) (oa_refresh s)
      in if filter (active_refresh now) own \<noteq> [] then filter (active_refresh now) own
         else if own = [] then [] else [last own])"
proof (cases "list_ex (\<lambda>a. same_connection (rf_grant a) g \<and> active_refresh now a) (oa_refresh s)")
  case True
  then show ?thesis
    using keep_newest_with_active [OF True, of "oa_refresh s"]
    by (auto simp: prune_stale_refresh_rows_def Let_def list_ex_iff filter_empty_conv)
next
  case False
  then show ?thesis
    using keep_newest_without_active [OF False, of "oa_refresh s"]
    by (auto simp: prune_stale_refresh_rows_def Let_def list_ex_iff filter_empty_conv)
qed

text \<open>The consumers the sweep removes, said without its loop.\<close>

definition dangling :: "string list \<Rightarrow> oauth_state \<Rightarrow> string \<Rightarrow> bool" where
  "dangling present s c \<longleftrightarrow> web_consumer (oa_consumers s) c \<and>
     (let own = filter (\<lambda>r. rg_consumer_id (rf_grant r) = c) (oa_refresh s)
      in own \<noteq> [] \<and> list_all (\<lambda>r. wiki_gone present (rg_wiki_id (rf_grant r))) own)"

lemma drop_consumers_filters:
  "fst (fold drop_consumer cs (s, n, d)) =
     s\<lparr>oa_refresh := filter (\<lambda>r. rg_consumer_id (rf_grant r) \<notin> set cs) (oa_refresh s),
       oa_codes := filter (\<lambda>r. cg_consumer_id (co_grant r) \<notin> set cs) (oa_codes s),
       oa_delegations := filter (\<lambda>x. dg_consumer_id x \<notin> set cs) (oa_delegations s),
       oa_consumers := filter (\<lambda>c. \<not> (cs_consumer_id c \<in> set cs \<and> cs_system_user_id c = None)) (oa_consumers s)\<rparr>"
proof (induction cs arbitrary: s n d)
  case (Cons c cs)
  obtain n1 d1 where "drop_consumer c (s, n, d) =
      (s\<lparr>oa_refresh := filter (\<lambda>r. rg_consumer_id (rf_grant r) \<noteq> c) (oa_refresh s),
         oa_codes := filter (\<lambda>r. cg_consumer_id (co_grant r) \<noteq> c) (oa_codes s),
         oa_delegations := filter (\<lambda>x. dg_consumer_id x \<noteq> c) (oa_delegations s),
         oa_consumers := filter (\<lambda>x. \<not> (cs_consumer_id x = c \<and> cs_system_user_id x = None)) (oa_consumers s)\<rparr>, n1, d1)"
    by (simp add: drop_consumer_def)
  then show ?case
    by (simp only: fold.simps comp_apply Cons.IH) (rule oauth_state.equality; auto intro!: filter_cong)
qed simp

lemma swept_consumers:
  "set (filter (\<lambda>c. list_all (\<lambda>(c', w). c' = c \<longrightarrow> wiki_gone present w)
          (filter (\<lambda>(c, _). web_consumer (oa_consumers s) c)
             (map (\<lambda>r. (rg_consumer_id (rf_grant r), rg_wiki_id (rf_grant r))) (oa_refresh s))))
        (sort (remdups (map fst (filter (\<lambda>(c, _). web_consumer (oa_consumers s) c)
             (map (\<lambda>r. (rg_consumer_id (rf_grant r), rg_wiki_id (rf_grant r))) (oa_refresh s)))))))
   = {c. dangling present s c}"
  by (auto simp: dangling_def list_all_iff filter_empty_conv image_iff Let_def) metis

text \<open>
  The sweep of dangling consumers removes exactly the web agents that have a binding and whose every
  bound wiki is gone from the disk, with their codes, tokens and delegations, and never a bot's
  registration; a tree that cannot be read removes nothing.
\<close>

lemma sweep_removes_the_dangling:
  "fst (sweep_dangling_consumers walked s) =
     (case walked of
        None \<Rightarrow> s
      | Some present \<Rightarrow>
          s\<lparr>oa_refresh := filter (\<lambda>r. \<not> dangling present s (rg_consumer_id (rf_grant r))) (oa_refresh s),
            oa_codes := filter (\<lambda>r. \<not> dangling present s (cg_consumer_id (co_grant r))) (oa_codes s),
            oa_delegations := filter (\<lambda>x. \<not> dangling present s (dg_consumer_id x)) (oa_delegations s),
            oa_consumers := filter (\<lambda>c. \<not> (dangling present s (cs_consumer_id c) \<and> cs_system_user_id c = None))
                              (oa_consumers s)\<rparr>)"
  unfolding sweep_dangling_consumers_def Let_def
  by (cases walked) (simp_all only: option.case drop_consumers_filters swept_consumers mem_Collect_eq fst_conv)

section \<open>A concrete server\<close>

definition office_env :: oauth_env where
  "office_env = \<lparr>oe_dash = desk_env, oe_s256 = id, oe_push_ok = (\<lambda>_ _. True)\<rparr>"

definition office :: oauth_state where
  "office = \<lparr>oa_dash = desk,
     oa_clients = [\<lparr>cl_client_id = ''app'', cl_client_name = ''App'',
                    cl_redirect_uris_json = sample_list_json [''https://app/cb''], cl_created_at = 0\<rparr>],
     oa_codes = [], oa_refresh = [], oa_consumers = [], oa_delegations = [], oa_wikis = Some []\<rparr>"

definition approve_form :: consent_form where
  "approve_form = \<lparr>ap_response_type = ''code'', ap_client_id = ''app'', ap_redirect_uri = ''https://app/cb'',
     ap_code_challenge = ''proof'', ap_code_challenge_method = ''S256'', ap_state = None,
     cf_decision = ''approve'', cf_connection = ''desk''\<rparr>"

definition exchange_form :: token_form where
  "exchange_form = \<lparr>tf_grant_type = ''authorization_code'', tf_code = Some ''c1'', tf_redirect_uri = Some ''https://app/cb'',
     tf_client_id = Some ''app'', tf_code_verifier = Some ''proof'', tf_refresh_token = None\<rparr>"

definition refresh_form :: token_form where
  "refresh_form = \<lparr>tf_grant_type = ''refresh_token'', tf_code = None, tf_redirect_uri = None,
     tf_client_id = None, tf_code_verifier = None, tf_refresh_token = Some ''r1''\<rparr>"

definition office_consented :: "oauth_state \<times> oauth_response" where
  "office_consented = run_oauth_op office_env 5 (Some ''c1'') ''s1'' (OAuthorizePost (Some ''old'') approve_form) office"

definition office_exchanged :: "oauth_state \<times> oauth_response" where
  "office_exchanged = run_oauth_op office_env 6 (Some ''r1'') ''j1'' (OToken exchange_form) (fst office_consented)"

definition office_rotated :: "oauth_state \<times> oauth_response" where
  "office_rotated = run_oauth_op office_env 7 (Some ''r2'') ''j2'' (OToken refresh_form) (fst office_exchanged)"

lemma issuesE: "issues r \<Longrightarrow> (\<And>g c t. r = TokenIssued g c t \<Longrightarrow> thesis) \<Longrightarrow> thesis"
  by (cases r) auto

theorem tokens_agree_with_consents_witness:
  "\<exists>rg g. rg_sender_id rg = ''alice'' \<and> rg = refresh_grant_of g \<and> oe_s256 office_env ''proof'' = cg_code_challenge g"
proof -
  have "issues (snd office_exchanged)" by code_simp
  then obtain rg claims r where out: "snd office_exchanged = TokenIssued rg claims r" by (rule issuesE)
  have c: "map_option cg_sender_id (consent_of (snd office_consented)) = Some ''alice''" by code_simp
  then obtain g where g: "consent_of (snd office_consented) = Some g" "cg_sender_id g = ''alice''" by blast
  have x: "exchange_of office_env 5 (OAuthorizePost (Some ''old'') approve_form) office = None"
    by (simp add: exchange_of_def)
  have "oauth_step office_env (\<lambda>_ _ _ _. True) (office, [], []) (fst office_consented, [] @ opt_list (consent_of (snd office_consented)),
      [] @ opt_list (exchange_of office_env 5 (OAuthorizePost (Some ''old'') approve_form) office))"
    by (rule oauth_step_op [where fresh = "Some ''c1''" and jti = "''s1''"]) (simp_all add: office_consented_def)
  then have "rtranclp (oauth_step office_env (\<lambda>_ _ _ _. True)) (office, [], []) (fst office_consented, [g], [])"
    using g x by auto
  moreover have "oa_codes office = []" "oa_refresh office = []" by (simp_all add: office_def)
  moreover have "run_oauth_op office_env 6 (Some ''r1'') ''j1'' (OToken exchange_form) (fst office_consented)
      = (fst office_exchanged, TokenIssued rg claims r)"
    using out by (metis office_exchanged_def prod.collapse)
  ultimately have "\<exists>g \<in> set [g]. rg = refresh_grant_of g
      \<and> tc_sender_id claims = cg_sender_id g \<and> tc_consumer_id claims = Some (cg_consumer_id g)
      \<and> tc_consumer_class claims = Smart \<and> tc_is_admin claims = resolve_is_admin (fst office_consented) (cg_sender_id g)
      \<and> (tf_grant_type exchange_form = ''authorization_code'' \<longrightarrow>
           tf_client_id exchange_form = Some (cg_client_id g) \<and> tf_redirect_uri exchange_form = Some (cg_redirect_uri g)
           \<and> map_option (oe_s256 office_env) (tf_code_verifier exchange_form) = Some (cg_code_challenge g)
           \<and> count (mset []) g < count (mset [g]) g)"
    using tokens_agree_with_consents [of office_env "\<lambda>_ _ _ _. True" office "fst office_consented" "[g]" "[]"] by fastforce
  then show ?thesis using g(2)
    by (intro exI [of _ rg] exI [of _ g]) (auto simp: exchange_form_def refresh_grant_of_def)
qed

lemma codes_go_to_registered_clients_witness:
  "cf_decision approve_form = ''approve'' \<and> system_user_for (oa_consumers office) ''desk'' = None"
proof -
  have "map_option cg_consumer_id (consent_of (snd office_consented)) = Some ''desk''" by code_simp
  then obtain g code url where g: "snd office_consented = ConsentGranted g code url" "cg_consumer_id g = ''desk''"
    by (cases "snd office_consented") auto
  then have "authorize_post office_env 5 (Some ''c1'') ''s1'' (Some ''old'') approve_form office
      = (fst office_consented, ConsentGranted g code url)"
    by (simp add: office_consented_def prod_eq_iff)
  from codes_go_to_registered_clients [OF this] g(2) show ?thesis by simp
qed

theorem refresh_token_works_once_witness:
  "snd (run_oauth_op office_env 8 (Some ''r3'') ''j3'' (OToken refresh_form) (fst office_rotated)) = OAuthErr 400 ''invalid_grant''"
proof -
  have "issues (snd office_rotated)" by code_simp
  then obtain rg claims r where "snd office_rotated = TokenIssued rg claims r" by (rule issuesE)
  then have first: "run_oauth_op office_env 7 (Some ''r2'') ''j2'' (OToken refresh_form) (fst office_exchanged)
      = (fst office_rotated, TokenIssued rg claims r)"
    by (metis office_rotated_def prod.collapse)
  show ?thesis
    using refresh_token_works_once [OF first _ _ rtranclp.rtrancl_refl surjective_pairing, of "''r1''" refresh_form]
    by (simp add: refresh_form_def)
qed

theorem disconnected_gets_no_token_witness:
  "snd (run_oauth_op office_env 7 None [] (ODisconnect ''alice'' ''other'') (fst office_exchanged)) = Disconnected 0"
proof -
  let ?off = "run_oauth_op office_env 7 None [] (ODisconnect ''alice'' ''other'') (fst office_exchanged)"
  let ?then = "run_oauth_op office_env 8 (Some ''r2'') ''j2'' (OToken refresh_form) (fst ?off)"
  have off: "snd ?off = Disconnected 0" by code_simp
  have tidy: "trim ''alice'' = ''alice''" "trim ''other'' = ''other''" by code_simp+
  have "issues (snd ?then)" by code_simp
  then obtain rg claims r where t: "snd ?then = TokenIssued rg claims r" by (rule issuesE)
  have "no_redemption office_env (trim ''alice'') (trim ''other'') 8 (Some ''r2'') (OToken refresh_form) (fst ?off)"
    by (simp add: no_redemption_def exchange_of_def refresh_form_def)
  then have "\<not> of_connection (trim ''alice'') (trim ''other'') rg"
    using disconnected_gets_no_token [of office_env 7 None "[]" "''alice''" "''other''" "fst office_exchanged" "fst ?off" 0
        "[]" "[]" "fst ?off" "[]" "[]"] off t
    by (metis prod.collapse rtranclp.rtrancl_refl)
  with off show ?thesis by blast
qed

text \<open>
  The consent page asks for a token that verifies, not for a session: a session its owner has ended
  everywhere still approves a connection.
\<close>

lemma ended_session_approves:
  "let s = office\<lparr>oa_dash := fst (end_all_sessions ''alice'' desk)\<rparr>
   in snd (verify_session desk_env 5 (Some ''old'') (oa_dash s)) = None
    \<and> map_option cg_sender_id (consent_of (snd (authorize_post office_env 5 (Some ''c1'') ''s1'' (Some ''old'') approve_form s)))
        = Some ''alice''"
  by code_simp

text \<open>A code that was not redeemed when its connection is disconnected brings the connection back.\<close>

lemma unredeemed_code_reconnects:
  "let s = fst (run_oauth_op office_env 6 None [] (ODisconnect ''alice'' ''desk'') (fst office_consented))
   in issues (snd (run_oauth_op office_env 7 (Some ''r1'') ''j1'' (OToken exchange_form) s))"
  by code_simp

text \<open>
  The wiki of a connection is looked up by its id alone, and ids of children are joined with a dash: the
  connection \<open>beta-notes\<close> of \<open>acme\<close> adopts, and marks as an agent's, the wiki \<open>notes\<close> of \<open>acme-beta\<close>.
\<close>

lemma consent_adopts_a_foreign_wiki:
  "child_of (WikiId ''acme'') (WikiSlug ''beta-notes'') = child_of (WikiId ''acme-beta'') (WikiSlug ''notes'')
   \<and> (let out = ensure_dedicated_wiki office_env ''acme'' ''beta-notes'' (WikiSlug ''beta-notes'')
                  (office\<lparr>oa_wikis := Some [(''acme-beta-notes'', False)]\<rparr>)
      in snd out = Inr (WikiId ''acme-beta-notes'') \<and> oa_wikis (fst out) = Some [(''acme-beta-notes'', True)])"
  by code_simp

end
