(* ===== verification/Mwe_Wal.thy ===== *)
theory Mwe_Wal
  imports Mwe_Tokens "HOL-Library.Product_Lexorder" "HOL-Library.Multiset"
begin

text \<open>
  The write-ahead log of the nightly cycle, \<open>crates/mwe-core/src/wal.rs\<close>: rows that are begun, completed
  or failed, the scans for rows that were abandoned, and the recovery at start that inverts each
  abandoned row and closes it. Tables are lists in insertion order; the status is the text of its column,
  times are instants in nanoseconds, with one reading of the clock per call. The inverse of a step and
  which of the closing updates the database accepts are parameters.
\<close>

section \<open>Statuses and rows\<close>

datatype op_status = OpPending | OpInProgress | OpDone | OpFailed

datatype wal_error = WalDb | UnknownStatus string

fun op_status_as_str :: "op_status \<Rightarrow> string" where
  "op_status_as_str OpPending = ''pending''"
| "op_status_as_str OpInProgress = ''in_progress''"
| "op_status_as_str OpDone = ''done''"
| "op_status_as_str OpFailed = ''failed''"

definition op_status_parse :: "string \<Rightarrow> wal_error + op_status" where
  "op_status_parse s =
     (if s = ''pending'' then Inr OpPending
      else if s = ''in_progress'' then Inr OpInProgress
      else if s = ''done'' then Inr OpDone
      else if s = ''failed'' then Inr OpFailed
      else Inl (UnknownStatus s))"

record rem_op_tuple =
  ro_op_id :: int
  ro_cycle_id :: string
  ro_operation_kind :: string
  ro_target_wiki_id :: "string option"
  ro_snapshot_path :: "string option"
  ro_status :: string
  ro_started_at :: int
  ro_completed_at :: "int option"
  ro_error_msg :: "string option"

record rem_op_row =
  rr_op_id :: int
  rr_cycle_id :: string
  rr_operation_kind :: string
  rr_target_wiki_id :: "string option"
  rr_snapshot_path :: "string option"
  rr_status :: op_status
  rr_started_at :: int
  rr_completed_at :: "int option"
  rr_error_msg :: "string option"

record proposal_op_tuple =
  po_op_id :: int
  po_proposal_id :: string
  po_step_idx :: int
  po_kind :: string
  po_payload_json :: "string option"
  po_status :: string
  po_started_at :: int
  po_completed_at :: "int option"
  po_error_msg :: "string option"

record proposal_op_row =
  pw_op_id :: int
  pw_proposal_id :: string
  pw_step_idx :: int
  pw_kind :: string
  pw_payload_json :: "string option"
  pw_status :: op_status
  pw_started_at :: int
  pw_completed_at :: "int option"
  pw_error_msg :: "string option"

definition DEFAULT_STALE_AFTER :: int where
  "DEFAULT_STALE_AFTER = duration_seconds (5 * 60)"

text \<open>
  \<open>chrono::Duration\<close> holds the milliseconds of an \<open>i64\<close>; a longer window falls back to none. The table hands
  out the next id of its \<open>AUTOINCREMENT\<close> counter.
\<close>

definition stale_cutoff :: "int \<Rightarrow> int \<Rightarrow> int" where
  "stale_cutoff now older_than = now - (if older_than \<le> i64_max * 1000000 then older_than else 0)"

record rem_log =
  rl_rows :: "rem_op_tuple list"
  rl_last_id :: int

definition in_flight :: "string \<Rightarrow> bool" where
  "in_flight status \<longleftrightarrow> status \<in> {''pending'', ''in_progress''}"

text \<open>Collecting a list of results stops at the first error.\<close>

fun collect_results :: "('e + 'a) list \<Rightarrow> 'e + 'a list" where
  "collect_results [] = Inr []"
| "collect_results (Inl e # rest) = Inl e"
| "collect_results (Inr x # rest) = (case collect_results rest of Inl e \<Rightarrow> Inl e | Inr xs \<Rightarrow> Inr (x # xs))"

definition proposal_row_of :: "proposal_op_tuple \<Rightarrow> wal_error + proposal_op_row" where
  "proposal_row_of r =
     (case op_status_parse (po_status r) of
        Inl e \<Rightarrow> Inl e
      | Inr st \<Rightarrow> Inr \<lparr>pw_op_id = po_op_id r, pw_proposal_id = po_proposal_id r, pw_step_idx = po_step_idx r,
                    pw_kind = po_kind r, pw_payload_json = po_payload_json r, pw_status = st,
                    pw_started_at = po_started_at r, pw_completed_at = po_completed_at r, pw_error_msg = po_error_msg r\<rparr>)"

definition scan_stale_proposal_ops :: "int \<Rightarrow> int \<Rightarrow> proposal_op_tuple list \<Rightarrow> wal_error + proposal_op_row list" where
  "scan_stale_proposal_ops now older_than tab =
     collect_results (map proposal_row_of
       (sort_key (\<lambda>r. (po_proposal_id r, - po_step_idx r))
          (filter (\<lambda>r. in_flight (po_status r) \<and> po_started_at r < stale_cutoff now older_than) tab)))"

definition begin_rem_op ::
  "int \<Rightarrow> string \<Rightarrow> string \<Rightarrow> string option \<Rightarrow> string option \<Rightarrow> rem_log \<Rightarrow> rem_log \<times> int" where
  "begin_rem_op now cycle_id operation_kind target_wiki_id snapshot_path l =
     (let i = rl_last_id l + 1
      in (\<lparr>rl_rows = rl_rows l @
             [\<lparr>ro_op_id = i, ro_cycle_id = cycle_id, ro_operation_kind = operation_kind,
               ro_target_wiki_id = target_wiki_id, ro_snapshot_path = snapshot_path,
               ro_status = op_status_as_str OpPending, ro_started_at = now, ro_completed_at = None, ro_error_msg = None\<rparr>],
           rl_last_id = i\<rparr>, i))"

definition complete_rem_op :: "int \<Rightarrow> int \<Rightarrow> rem_log \<Rightarrow> rem_log \<times> nat" where
  "complete_rem_op now op_id l =
     (l\<lparr>rl_rows := map (\<lambda>r. if ro_op_id r = op_id
          then r\<lparr>ro_status := op_status_as_str OpDone, ro_completed_at := Some now\<rparr> else r) (rl_rows l)\<rparr>,
      length (filter (\<lambda>r. ro_op_id r = op_id) (rl_rows l)))"

definition fail_rem_op :: "int \<Rightarrow> int \<Rightarrow> string \<Rightarrow> rem_log \<Rightarrow> rem_log \<times> nat" where
  "fail_rem_op now op_id reason l =
     (l\<lparr>rl_rows := map (\<lambda>r. if ro_op_id r = op_id
          then r\<lparr>ro_status := op_status_as_str OpFailed, ro_completed_at := Some now, ro_error_msg := Some reason\<rparr> else r)
        (rl_rows l)\<rparr>,
      length (filter (\<lambda>r. ro_op_id r = op_id) (rl_rows l)))"

definition rem_row_of :: "rem_op_tuple \<Rightarrow> wal_error + rem_op_row" where
  "rem_row_of r =
     (case op_status_parse (ro_status r) of
        Inl e \<Rightarrow> Inl e
      | Inr st \<Rightarrow> Inr \<lparr>rr_op_id = ro_op_id r, rr_cycle_id = ro_cycle_id r, rr_operation_kind = ro_operation_kind r,
                    rr_target_wiki_id = ro_target_wiki_id r, rr_snapshot_path = ro_snapshot_path r, rr_status = st,
                    rr_started_at = ro_started_at r, rr_completed_at = ro_completed_at r, rr_error_msg = ro_error_msg r\<rparr>)"

definition abandoned :: "int \<Rightarrow> int \<Rightarrow> rem_op_tuple \<Rightarrow> bool" where
  "abandoned now older_than r \<longleftrightarrow> in_flight (ro_status r) \<and> ro_started_at r < stale_cutoff now older_than"

definition scan_stale_rem_ops :: "int \<Rightarrow> int \<Rightarrow> rem_log \<Rightarrow> wal_error + rem_op_row list" where
  "scan_stale_rem_ops now older_than l =
     collect_results (map rem_row_of
       (sort_key (\<lambda>r. (ro_cycle_id r, ro_op_id r)) (filter (abandoned now older_than) (rl_rows l))))"

section \<open>Recovery\<close>

type_synonym op_inverse = "string \<Rightarrow> string option \<Rightarrow> string option \<Rightarrow> string + unit"

definition noop_inverse :: op_inverse where
  "noop_inverse _ _ _ = Inr ()"

record rollback_report =
  rb_rolled_back :: nat
  rb_failed_rollbacks :: nat

definition rollback_reason :: "op_inverse \<Rightarrow> string \<Rightarrow> string option \<Rightarrow> string" where
  "rollback_reason invert kind snapshot =
     (case invert kind None snapshot of
        Inr _ \<Rightarrow> ''rolled_back_by_startup''
      | Inl detail \<Rightarrow> ''rollback_failed: '' @ detail)"

definition rollback_one ::
  "int \<Rightarrow> op_inverse \<Rightarrow> (int \<Rightarrow> bool) \<Rightarrow> rem_op_row \<Rightarrow> rem_log \<times> rollback_report \<Rightarrow> rem_log \<times> rollback_report" where
  "rollback_one now invert flip_ok row acc =
     (let l = fst acc;
          counted = (case invert (rr_operation_kind row) None (rr_snapshot_path row) of
                       Inr _ \<Rightarrow> (snd acc)\<lparr>rb_rolled_back := rb_rolled_back (snd acc) + 1\<rparr>
                     | Inl _ \<Rightarrow> (snd acc)\<lparr>rb_failed_rollbacks := rb_failed_rollbacks (snd acc) + 1\<rparr>)
      in if flip_ok (rr_op_id row)
         then (fst (fail_rem_op now (rr_op_id row) (rollback_reason invert (rr_operation_kind row) (rr_snapshot_path row)) l),
               counted)
         else (l, counted\<lparr>rb_rolled_back := (if rb_rolled_back counted > 0 then rb_rolled_back counted - 1 else 0),
                          rb_failed_rollbacks := rb_failed_rollbacks counted + 1\<rparr>))"

definition rollback_stale_rems ::
  "int \<Rightarrow> int \<Rightarrow> op_inverse \<Rightarrow> (int \<Rightarrow> bool) \<Rightarrow> rem_log \<Rightarrow> rem_log \<times> (wal_error + rollback_report)" where
  "rollback_stale_rems now older_than invert flip_ok l =
     (case scan_stale_rem_ops now older_than l of
        Inl e \<Rightarrow> (l, Inl e)
      | Inr rows \<Rightarrow>
          map_prod id Inr (fold (rollback_one now invert flip_ok) rows (l, \<lparr>rb_rolled_back = 0, rb_failed_rollbacks = 0\<rparr>)))"

section \<open>The log\<close>

datatype wal_op =
    WalBegin string string "string option" "string option"
  | WalComplete int
  | WalFail int string
  | WalRecover int

fun run_wal_op :: "int \<Rightarrow> op_inverse \<Rightarrow> (int \<Rightarrow> bool) \<Rightarrow> wal_op \<Rightarrow> rem_log \<Rightarrow> rem_log" where
  "run_wal_op now invert flip_ok (WalBegin c k w p) l = fst (begin_rem_op now c k w p l)"
| "run_wal_op now invert flip_ok (WalComplete i) l = fst (complete_rem_op now i l)"
| "run_wal_op now invert flip_ok (WalFail i reason) l = fst (fail_rem_op now i reason l)"
| "run_wal_op now invert flip_ok (WalRecover older_than) l = fst (rollback_stale_rems now older_than invert flip_ok l)"

inductive wal_step :: "rem_log \<Rightarrow> rem_log \<Rightarrow> bool" where
  wal_step_op: "wal_step l (run_wal_op now invert flip_ok op l)"

definition ids_ok :: "rem_log \<Rightarrow> bool" where
  "ids_ok l \<longleftrightarrow> distinct (map ro_op_id (rl_rows l)) \<and> (\<forall>r \<in> set (rl_rows l). ro_op_id r \<le> rl_last_id l)"

lemma op_status_roundtrip: "op_status_parse s = Inr st \<longleftrightarrow> s = op_status_as_str st"
  by (cases st) (auto simp: op_status_parse_def)

lemma in_flight_parses: "in_flight s \<longleftrightarrow> op_status_parse s \<in> {Inr OpPending, Inr OpInProgress}"
  by (auto simp: in_flight_def op_status_parse_def)

lemma collect_results_Inr: "\<forall>x \<in> set xs. \<exists>y. f x = Inr y \<Longrightarrow> collect_results (map f xs) = Inr (map (projr \<circ> f) xs)"
  by (induction xs) auto

text \<open>The scan never meets a status it cannot read: the query has chosen the rows by their status.\<close>

lemma scan_stale_rem_ops_Inr:
  "scan_stale_rem_ops now older_than l = Inr (map (projr \<circ> rem_row_of)
     (sort_key (\<lambda>r. (ro_cycle_id r, ro_op_id r)) (filter (abandoned now older_than) (rl_rows l))))"
  unfolding scan_stale_rem_ops_def
  by (rule collect_results_Inr) (auto simp: abandoned_def in_flight_parses rem_row_of_def)

lemma ids_ok_map:
  assumes "ids_ok l" "\<And>r. ro_op_id (f r) = ro_op_id r"
  shows "ids_ok (l\<lparr>rl_rows := map f (rl_rows l)\<rparr>)"
  using assms by (simp add: ids_ok_def comp_def)

lemma ids_ok_begin: "ids_ok l \<Longrightarrow> ids_ok (fst (begin_rem_op now c k w p l))"
  by (force simp: ids_ok_def begin_rem_op_def Let_def)

lemma ids_ok_close:
  "ids_ok l \<Longrightarrow> ids_ok (fst (complete_rem_op now i l))" "ids_ok l \<Longrightarrow> ids_ok (fst (fail_rem_op now i reason l))"
  by (auto simp: complete_rem_op_def fail_rem_op_def intro!: ids_ok_map)

lemma ids_ok_rollback_one: "ids_ok (fst acc) \<Longrightarrow> ids_ok (fst (rollback_one now invert flip_ok row acc))"
  by (simp add: rollback_one_def ids_ok_close(2) Let_def)

lemma ids_ok_rollback: "ids_ok (fst acc) \<Longrightarrow> ids_ok (fst (fold (rollback_one now invert flip_ok) rows acc))"
  by (induction rows arbitrary: acc) (simp_all add: ids_ok_rollback_one)

interpretation wal_run: stepping wal_step ids_ok
proof
  fix l l' assume ok: "ids_ok l" and step: "wal_step l l'"
  from step show "ids_ok l'"
  proof cases
    case (wal_step_op now invert flip_ok op)
    with ok show ?thesis
      by (cases op) (auto simp: rollback_stale_rems_def ids_ok_begin ids_ok_close intro: ids_ok_rollback split: sum.split)
  qed
qed

definition closed_row :: "int \<Rightarrow> op_inverse \<Rightarrow> rem_op_tuple \<Rightarrow> rem_op_tuple" where
  "closed_row now invert r =
     r\<lparr>ro_status := ''failed'', ro_completed_at := Some now,
       ro_error_msg := Some (rollback_reason invert (ro_operation_kind r) (ro_snapshot_path r))\<rparr>"

abbreviation read_row :: "rem_op_tuple \<Rightarrow> rem_op_row" where
  "read_row r \<equiv> projr (rem_row_of r)"

lemma read_row_fields:
  assumes "in_flight (ro_status r)"
  shows "rr_op_id (read_row r) = ro_op_id r" "rr_operation_kind (read_row r) = ro_operation_kind r"
    "rr_snapshot_path (read_row r) = ro_snapshot_path r"
  using assms by (auto simp: in_flight_parses rem_row_of_def)

lemma fail_rem_op_rows:
  "fst (fail_rem_op now op_id reason (l\<lparr>rl_rows := rows\<rparr>)) = l\<lparr>rl_rows := map (\<lambda>r. if ro_op_id r = op_id
     then r\<lparr>ro_status := op_status_as_str OpFailed, ro_completed_at := Some now, ro_error_msg := Some reason\<rparr> else r) rows\<rparr>"
  by (simp add: fail_rem_op_def)

lemma fail_rem_op_closes:
  assumes "distinct (map ro_op_id R)" "t \<in> set R" "t \<notin> D" "flip_ok (ro_op_id t)"
  shows "fst (fail_rem_op now (ro_op_id t) (rollback_reason invert (ro_operation_kind t) (ro_snapshot_path t))
      (l\<lparr>rl_rows := map (\<lambda>r. if r \<in> D \<and> flip_ok (ro_op_id r) then closed_row now invert r else r) R\<rparr>))
    = l\<lparr>rl_rows := map (\<lambda>r. if r \<in> insert t D \<and> flip_ok (ro_op_id r) then closed_row now invert r else r) R\<rparr>"
proof -
  have "r = t" if "r \<in> set R" "ro_op_id r = ro_op_id t" for r
    using assms(1,2) that by (auto simp: distinct_map inj_on_def)
  then have "map (\<lambda>r. if ro_op_id r = ro_op_id t
        then r\<lparr>ro_status := op_status_as_str OpFailed, ro_completed_at := Some now,
               ro_error_msg := Some (rollback_reason invert (ro_operation_kind t) (ro_snapshot_path t))\<rparr> else r)
      (map (\<lambda>r. if r \<in> D \<and> flip_ok (ro_op_id r) then closed_row now invert r else r) R)
    = map (\<lambda>r. if r \<in> insert t D \<and> flip_ok (ro_op_id r) then closed_row now invert r else r) R"
    using assms(3,4) by (auto simp: closed_row_def)
  then show ?thesis by (simp only: fail_rem_op_rows)
qed

lemma rollback_rows:
  assumes "distinct (map ro_op_id R)" "list_all (\<lambda>t. in_flight (ro_status t)) ts" "distinct ts" "set ts \<subseteq> set R" "set ts \<inter> D = {}"
  shows "fst (fold (rollback_one now invert flip_ok) (map read_row ts)
      (l\<lparr>rl_rows := map (\<lambda>r. if r \<in> D \<and> flip_ok (ro_op_id r) then closed_row now invert r else r) R\<rparr>, report))
    = l\<lparr>rl_rows := map (\<lambda>r. if r \<in> D \<union> set ts \<and> flip_ok (ro_op_id r) then closed_row now invert r else r) R\<rparr>"
  using assms(2-5)
proof (induction ts arbitrary: D report)
  case (Cons t ts)
  let ?at = "\<lambda>D. l\<lparr>rl_rows := map (\<lambda>r. if r \<in> D \<and> flip_ok (ro_op_id r) then closed_row now invert r else r) R\<rparr>"
  have "fst (rollback_one now invert flip_ok (read_row t) (?at D, report)) = ?at (insert t D)"
  proof (cases "flip_ok (ro_op_id t)")
    case True
    with Cons.prems show ?thesis
      using fail_rem_op_closes [of R t D flip_ok now invert l] assms(1) by (auto simp: rollback_one_def read_row_fields Let_def)
  next
    case False
    with Cons.prems show ?thesis
      by (auto simp: rollback_one_def read_row_fields Let_def)
  qed
  moreover obtain l1 report' where "rollback_one now invert flip_ok (read_row t) (?at D, report) = (l1, report')"
    by (rule prod.exhaust)
  ultimately have "rollback_one now invert flip_ok (read_row t) (?at D, report) = (?at (insert t D), report')"
    by (simp only: fst_conv)
  then have "fold (rollback_one now invert flip_ok) (map read_row (t # ts)) (?at D, report)
      = fold (rollback_one now invert flip_ok) (map read_row ts) (?at (insert t D), report')"
    by (simp only: list.map fold.simps comp_apply)
  moreover have "fst (fold (rollback_one now invert flip_ok) (map read_row ts) (?at (insert t D), report'))
      = ?at (insert t D \<union> set ts)"
    using Cons.prems by (intro Cons.IH) auto
  moreover have "D \<union> set (t # ts) = insert t D \<union> set ts" by simp
  ultimately show ?case by (simp only:)
qed simp

definition inverts :: "op_inverse \<Rightarrow> rem_op_tuple \<Rightarrow> bool" where
  "inverts invert r \<longleftrightarrow> invert (ro_operation_kind r) None (ro_snapshot_path r) = Inr ()"

lemma rollback_counts:
  assumes "list_all (\<lambda>t. in_flight (ro_status t)) ts"
  shows "snd (fold (rollback_one now invert (\<lambda>_. True)) (map read_row ts) acc) =
    (snd acc)\<lparr>rb_rolled_back := rb_rolled_back (snd acc) + length (filter (inverts invert) ts),
             rb_failed_rollbacks := rb_failed_rollbacks (snd acc) + length (filter (\<lambda>r. \<not> inverts invert r) ts)\<rparr>"
  using assms
  by (induction ts arbitrary: acc) (auto simp: rollback_one_def read_row_fields inverts_def Let_def split: sum.splits)

lemma length_filter_sort: "length (filter P (sort_key f xs)) = length (filter P xs)"
  by (metis mset_filter mset_sort size_mset)

text \<open>
  Recovery closes what was abandoned and nothing else. On any log that the operations can produce,
  each row still pending or in progress from before the window is marked failed with the outcome of its
  inverse, unless the database refuses that update; every other row is left as it is, so a second
  recovery with the same window finds nothing more. When no update is refused, the report counts the rows
  whose inverse succeeded and those whose inverse failed.
\<close>

lemma recovery_closes_the_abandoned:
  assumes "rtranclp wal_step \<lparr>rl_rows = [], rl_last_id = 0\<rparr> l"
  shows "rl_rows (fst (rollback_stale_rems now older_than invert flip_ok l)) =
      map (\<lambda>r. if abandoned now older_than r \<and> flip_ok (ro_op_id r) then closed_row now invert r else r) (rl_rows l)
    \<and> scan_stale_rem_ops now older_than (fst (rollback_stale_rems now older_than invert (\<lambda>_. True) l)) = Inr []
    \<and> snd (rollback_stale_rems now older_than invert (\<lambda>_. True) l) = Inr
      \<lparr>rb_rolled_back = length (filter (\<lambda>r. abandoned now older_than r \<and> inverts invert r) (rl_rows l)),
       rb_failed_rollbacks = length (filter (\<lambda>r. abandoned now older_than r \<and> \<not> inverts invert r) (rl_rows l))\<rparr>"
proof -
  let ?ts = "sort_key (\<lambda>r. (ro_cycle_id r, ro_op_id r)) (filter (abandoned now older_than) (rl_rows l))"
  have ids: "distinct (map ro_op_id (rl_rows l))"
    using wal_run.reachable_keeps [OF assms] by (simp add: ids_ok_def)
  then have ts: "list_all (\<lambda>t. in_flight (ro_status t)) ?ts" "distinct ?ts" "set ?ts \<subseteq> set (rl_rows l)"
    by (auto simp: list_all_iff abandoned_def distinct_map)
  have run: "rollback_stale_rems now older_than invert ok l =
      map_prod id Inr (fold (rollback_one now invert ok) (map read_row ?ts) (l, \<lparr>rb_rolled_back = 0, rb_failed_rollbacks = 0\<rparr>))" for ok
    by (simp add: rollback_stale_rems_def scan_stale_rem_ops_Inr comp_def)
  have rows: "rl_rows (fst (rollback_stale_rems now older_than invert ok l)) =
      map (\<lambda>r. if abandoned now older_than r \<and> ok (ro_op_id r) then closed_row now invert r else r) (rl_rows l)" for ok
    using rollback_rows [OF ids ts, of "{}" now invert ok l "\<lparr>rb_rolled_back = 0, rb_failed_rollbacks = 0\<rparr>"]
    by (simp add: run cong: map_cong)
  then have one: "rl_rows (fst (rollback_stale_rems now older_than invert flip_ok l)) =
      map (\<lambda>r. if abandoned now older_than r \<and> flip_ok (ro_op_id r) then closed_row now invert r else r) (rl_rows l)" .
  have "filter (abandoned now older_than) (rl_rows (fst (rollback_stale_rems now older_than invert (\<lambda>_. True) l))) = []"
    by (auto simp: rows filter_empty_conv abandoned_def closed_row_def in_flight_def)
  then have two: "scan_stale_rem_ops now older_than (fst (rollback_stale_rems now older_than invert (\<lambda>_. True) l)) = Inr []"
    by (simp add: scan_stale_rem_ops_def)
  have three: "snd (rollback_stale_rems now older_than invert (\<lambda>_. True) l) = Inr
      \<lparr>rb_rolled_back = length (filter (\<lambda>r. abandoned now older_than r \<and> inverts invert r) (rl_rows l)),
       rb_failed_rollbacks = length (filter (\<lambda>r. abandoned now older_than r \<and> \<not> inverts invert r) (rl_rows l))\<rparr>"
    using rollback_counts [OF ts(1), of now invert "(l, \<lparr>rb_rolled_back = 0, rb_failed_rollbacks = 0\<rparr>)"]
    by (simp add: run length_filter_sort conj_commute)
  show ?thesis using one two three by blast
qed

section \<open>A concrete log\<close>

definition sample_log :: rem_log where
  "sample_log = fst (begin_rem_op 5 ''c1'' ''promotion'' None (Some ''snap'')
     (fst (begin_rem_op 0 ''c1'' ''revalidate'' None None \<lparr>rl_rows = [], rl_last_id = 0\<rparr>)))"

definition picky_inverse :: op_inverse where
  "picky_inverse kind payload snapshot = (if snapshot = None then Inr () else Inl ''gone'')"

lemma recovery_closes_the_abandoned_witness:
  "length (filter (abandoned 10 0) (rl_rows sample_log)) = 2
   \<and> scan_stale_rem_ops 10 0 (fst (rollback_stale_rems 10 0 picky_inverse (\<lambda>_. True) sample_log)) = Inr []"
proof
  have "wal_step \<lparr>rl_rows = [], rl_last_id = 0\<rparr> (fst (begin_rem_op 0 ''c1'' ''revalidate'' None None \<lparr>rl_rows = [], rl_last_id = 0\<rparr>))"
    "wal_step (fst (begin_rem_op 0 ''c1'' ''revalidate'' None None \<lparr>rl_rows = [], rl_last_id = 0\<rparr>)) sample_log"
    using wal_step_op [of _ 0 noop_inverse "\<lambda>_. True" "WalBegin ''c1'' ''revalidate'' None None"]
      wal_step_op [of _ 5 noop_inverse "\<lambda>_. True" "WalBegin ''c1'' ''promotion'' None (Some ''snap'')"]
    by (simp_all add: sample_log_def)
  then have "rtranclp wal_step \<lparr>rl_rows = [], rl_last_id = 0\<rparr> sample_log"
    by (meson converse_rtranclp_into_rtranclp r_into_rtranclp)
  then show "scan_stale_rem_ops 10 0 (fst (rollback_stale_rems 10 0 picky_inverse (\<lambda>_. True) sample_log)) = Inr []"
    using recovery_closes_the_abandoned by blast
qed code_simp

text \<open>
  When the database refuses the update of a row whose inverse had failed, the report counts that row
  twice and forgets another row that was rolled back.
\<close>

lemma refused_update_miscounts:
  "let out = rollback_stale_rems 10 0 picky_inverse (\<lambda>i. i = 1) sample_log
   in snd out = Inr \<lparr>rb_rolled_back = 0, rb_failed_rollbacks = 2\<rparr>
    \<and> map ro_error_msg (rl_rows (fst out)) = [Some ''rolled_back_by_startup'', None]"
  by code_simp

end
