(* ===== verification/Mwe_Enrollment.thy ===== *)
theory Mwe_Enrollment
  imports Mwe_Types
begin

text \<open>
  The identity roster of \<open>crates/mwe-core/src/enrollment.rs\<close>: the rules an id must satisfy, the
  validation of a whole enrollment file, and the two membership queries the ACL reads
  (\<open>groups_for\<close>: the groups of a user, \<open>members_for\<close>: the users of a group). A table is the list of
  its rows; SQL's \<open>ORDER BY\<close> on text is the byte order of the list type's lexicographic order.

  \<open>recall::folded_words\<close>, which validation uses to compare names, folds accents through a Unicode
  library; it is the parameter \<open>folded_words\<close>.
\<close>

section \<open>Rows, files, errors\<close>

record enrollment_user =
  eu_id :: string
  eu_aliases :: "string list"
  eu_is_admin :: bool
  eu_locale :: "string option"
  eu_timezone :: "string option"

record enrollment_group =
  eg_id :: string
  eg_members :: "string list"
  eg_scope :: "string option"

record enrollment_file =
  ef_version :: nat
  ef_users :: "enrollment_user list"
  ef_groups :: "enrollment_group list"

datatype enrollment_error =
    UnsupportedVersion nat
  | InvalidUserId string
  | InvalidGroupId string
  | DuplicateUserId string
  | DuplicateGroupId string
  | GroupCollidesWithUser string
  | DanglingMember string string
  | UnsafeSlug string
  | ReservedId string

datatype enrollment_warning =
    AliasShared string string string
  | AliasMatchesUserId string string
  | AliasShadowsGuest string string

section \<open>Identifier rules\<close>

definition is_guest :: "string \<Rightarrow> bool" where
  "is_guest ident \<longleftrightarrow> ident = ''guest''"

definition ascii_lowercase_char :: "string \<Rightarrow> bool" where
  "ascii_lowercase_char ch \<longleftrightarrow> (case ch of [c] \<Rightarrow> is_ascii_lowercase c | _ \<Rightarrow> False)"

definition ascii_digit_char :: "string \<Rightarrow> bool" where
  "ascii_digit_char ch \<longleftrightarrow> (case ch of [c] \<Rightarrow> is_ascii_digit c | _ \<Rightarrow> False)"

definition is_valid_user_id :: "string \<Rightarrow> bool" where
  "is_valid_user_id s =
     (case utf8_chars s of
        [] \<Rightarrow> False
      | first # chars \<Rightarrow>
          ascii_lowercase_char first \<and>
          list_all (\<lambda>c. ascii_lowercase_char c \<or> ascii_digit_char c \<or> c = degree_sign) chars)"

definition is_valid_group_id :: "string \<Rightarrow> bool" where
  "is_valid_group_id s =
     (case utf8_chars s of
        [] \<Rightarrow> False
      | first # chars \<Rightarrow>
          ascii_lowercase_char first \<and>
          list_all (\<lambda>c. ascii_lowercase_char c \<or> ascii_digit_char c) chars)"

definition is_filesystem_safe :: "string \<Rightarrow> bool" where
  "is_filesystem_safe s \<longleftrightarrow>
     s \<noteq> [] \<and> CHR ''/'' \<notin> set s \<and> CHR 0x5C \<notin> set s \<and> \<not> contains_sub s ''..'' \<and>
     \<not> list_ex is_whitespace (utf8_chars s)"

section \<open>Validating an enrollment file\<close>

record validation_state =
  vs_user_ids :: "string set"
  vs_user_id_keys :: "string list set"
  vs_alias_seen :: "string list \<rightharpoonup> string"
  vs_warnings :: "enrollment_warning list"

fun validate_aliases ::
  "(string \<Rightarrow> string list) \<Rightarrow> string \<Rightarrow> string list \<Rightarrow> validation_state \<Rightarrow> validation_state" where
  "validate_aliases folded_words uid [] st = st"
| "validate_aliases folded_words uid (al # als) st =
     (let key = folded_words al;
          own_key = folded_words uid;
          shared = (case vs_alias_seen st key of
                      Some prev_user \<Rightarrow> [AliasShared al prev_user uid] | None \<Rightarrow> []);
          matches = (if key \<in> vs_user_id_keys st \<and> key \<noteq> own_key
                     then [AliasMatchesUserId al uid] else []);
          guest = (if is_guest al then [AliasShadowsGuest al uid] else [])
      in validate_aliases folded_words uid als
           (st\<lparr>vs_alias_seen := (vs_alias_seen st)(key \<mapsto> uid),
               vs_warnings := vs_warnings st @ shared @ matches @ guest\<rparr>))"

fun validate_users ::
  "(string \<Rightarrow> string list) \<Rightarrow> enrollment_user list \<Rightarrow> validation_state \<Rightarrow>
   enrollment_error + validation_state" where
  "validate_users folded_words [] st = Inr st"
| "validate_users folded_words (u # us) st =
     (if \<not> is_valid_user_id (eu_id u) then Inl (InvalidUserId (eu_id u))
      else if is_guest (eu_id u) then Inl (ReservedId (eu_id u))
      else if \<not> is_filesystem_safe (eu_id u) then Inl (UnsafeSlug (eu_id u))
      else if eu_id u \<in> vs_user_ids st then Inl (DuplicateUserId (eu_id u))
      else validate_users folded_words us
             (validate_aliases folded_words (eu_id u) (eu_aliases u)
               (st\<lparr>vs_user_ids := insert (eu_id u) (vs_user_ids st),
                   vs_user_id_keys := insert (folded_words (eu_id u)) (vs_user_id_keys st)\<rparr>)))"

fun validate_groups ::
  "string set \<Rightarrow> enrollment_group list \<Rightarrow> string set \<Rightarrow> enrollment_error + unit" where
  "validate_groups user_ids [] seen = Inr ()"
| "validate_groups user_ids (g # gs) seen =
     (if \<not> is_valid_group_id (eg_id g) then Inl (InvalidGroupId (eg_id g))
      else if is_guest (eg_id g) then Inl (ReservedId (eg_id g))
      else if \<not> is_filesystem_safe (eg_id g) then Inl (UnsafeSlug (eg_id g))
      else if eg_id g \<in> seen then Inl (DuplicateGroupId (eg_id g))
      else if eg_id g \<in> user_ids then Inl (GroupCollidesWithUser (eg_id g))
      else case List.find (\<lambda>m. m \<notin> user_ids) (eg_members g) of
        Some m \<Rightarrow> Inl (DanglingMember (eg_id g) m)
      | None \<Rightarrow> validate_groups user_ids gs (insert (eg_id g) seen))"

definition empty_validation_state :: validation_state where
  "empty_validation_state =
     \<lparr>vs_user_ids = {}, vs_user_id_keys = {}, vs_alias_seen = Map.empty, vs_warnings = []\<rparr>"

definition validate ::
  "(string \<Rightarrow> string list) \<Rightarrow> enrollment_file \<Rightarrow> enrollment_error + enrollment_warning list" where
  "validate folded_words file =
     (if ef_version file \<noteq> 1 then Inl (UnsupportedVersion (ef_version file))
      else case validate_users folded_words (ef_users file) empty_validation_state of
        Inl e \<Rightarrow> Inl e
      | Inr st \<Rightarrow>
        (case validate_groups (vs_user_ids st) (ef_groups file) {} of
           Inl e \<Rightarrow> Inl e
         | Inr _ \<Rightarrow> Inr (vs_warnings st)))"

section \<open>Membership queries\<close>

definition groups_for :: "enrollment_group list \<Rightarrow> string \<Rightarrow> string list" where
  "groups_for tab user_id =
     (if user_id = [] then []
      else sort (map eg_id (filter (\<lambda>r. user_id \<in> set (eg_members r)) tab)))"

definition members_for :: "enrollment_group list \<Rightarrow> string \<Rightarrow> string list" where
  "members_for tab group_id =
     (if group_id = [] then []
      else sort (concat (map eg_members (filter (\<lambda>r. eg_id r = group_id) tab))))"

definition groups_with_scope_for ::
  "enrollment_group list \<Rightarrow> string \<Rightarrow> (string \<times> string option) list" where
  "groups_with_scope_for tab user_id =
     (if user_id = [] then []
      else map (\<lambda>r. (eg_id r, eg_scope r))
             (sort_key eg_id
               (filter (\<lambda>r. eg_id r = ''global'' \<or> user_id \<in> set (eg_members r)) tab)))"

definition ensure_global_group ::
  "string \<Rightarrow> enrollment_group list \<Rightarrow> enrollment_group list" where
  "ensure_global_group default_scope tab =
     (if ''global'' \<in> set (map eg_id tab) then tab
      else tab @ [\<lparr>eg_id = ''global'', eg_members = [], eg_scope = Some default_scope\<rparr>])"

section \<open>The roster interface\<close>

text \<open>
  What the access-control layer relies on: the two membership queries are inverse to each other on
  real (non-empty) ids.
\<close>

locale roster =
  fixes members :: "string \<Rightarrow> string list"
    and groups :: "string \<Rightarrow> string list"
  assumes membership: "u \<noteq> [] \<Longrightarrow> g \<noteq> [] \<Longrightarrow> u \<in> set (members g) \<longleftrightarrow> g \<in> set (groups u)"
    and no_anonymous_group: "groups [] = []"

lemma groups_for_members_for:
  assumes "u \<noteq> []" "g \<noteq> []"
  shows "u \<in> set (members_for tab g) \<longleftrightarrow> g \<in> set (groups_for tab u)"
  using assms by (auto simp: groups_for_def members_for_def)

interpretation enrolled: roster "members_for tab" "groups_for tab"
  for tab
  by unfold_locales (simp_all add: groups_for_members_for groups_for_def)

section \<open>Facts about the id rules\<close>

lemma ascii_lowercase_charE:
  assumes "ascii_lowercase_char ch" obtains c where "ch = [c]" "is_ascii_lowercase c"
  using assms by (auto simp: ascii_lowercase_char_def split: list.splits)

lemma name_char_okI:
  "ascii_lowercase_char ch \<Longrightarrow> wiki_name_char_ok ch"
  "ascii_digit_char ch \<Longrightarrow> wiki_name_char_ok ch"
  "wiki_name_char_ok degree_sign"
  by (auto simp: ascii_lowercase_char_def ascii_digit_char_def wiki_name_char_ok_def split: list.splits)

definition dash_free :: "string \<Rightarrow> bool" where
  "dash_free ch \<longleftrightarrow> CHR ''-'' \<notin> set ch"

lemma dash_freeI:
  "ascii_lowercase_char ch \<Longrightarrow> dash_free ch" "ascii_digit_char ch \<Longrightarrow> dash_free ch"
  "dash_free degree_sign"
  by (auto simp: ascii_lowercase_char_def ascii_digit_char_def dash_free_def is_ascii_lowercase_def
      is_ascii_digit_def byte_def split: list.splits)

lemma successively_no_dash: "CHR ''-'' \<notin> set s \<Longrightarrow> successively (\<lambda>x y. x = CHR ''-'' \<longrightarrow> y \<noteq> CHR ''-'') s"
  by (induction s rule: induct_list012) auto

lemma valid_name_is_wiki_id:
  assumes "s \<noteq> []"
    and "\<forall>c \<in> set (utf8_chars s). ascii_lowercase_char c \<or> ascii_digit_char c \<or> c = degree_sign"
  shows "wiki_id_parse s = Inr (WikiId s)"
proof -
  have "\<forall>c \<in> set (utf8_chars s). dash_free c" and ok: "\<forall>c \<in> set (utf8_chars s). wiki_name_char_ok c"
    using assms(2) by (auto intro: dash_freeI name_char_okI)
  moreover have "set s = (\<Union>c \<in> set (utf8_chars s). set c)"
    by (metis concat_utf8_chars set_concat)
  ultimately have nodash: "CHR ''-'' \<notin> set s" by (auto simp: dash_free_def)
  then have "hd s \<noteq> CHR ''-'' \<and> last s \<noteq> CHR ''-''"
    using assms(1) by (metis hd_in_set last_in_set)
  with assms(1) ok nodash show ?thesis
    by (simp add: wiki_id_parse_Inr_iff successively_no_dash)
qed

lemma utf8_chars_eq_Nil [simp]: "utf8_chars s = [] \<longleftrightarrow> s = []"
  by (cases s) auto

lemma valid_user_id_chars:
  "is_valid_user_id s \<Longrightarrow> s \<noteq> [] \<and>
     (\<forall>c \<in> set (utf8_chars s). ascii_lowercase_char c \<or> ascii_digit_char c \<or> c = degree_sign)"
  by (auto simp: is_valid_user_id_def list_all_iff split: list.splits)

lemma valid_group_id_is_valid_user_id: "is_valid_group_id s \<Longrightarrow> is_valid_user_id s"
  by (auto simp: is_valid_group_id_def is_valid_user_id_def list_all_iff split: list.splits)

section \<open>Facts about validation\<close>

lemma validate_aliases_keeps_ids [simp]:
  "vs_user_ids (validate_aliases fw uid als st) = vs_user_ids st"
  by (induction fw uid als st rule: validate_aliases.induct) (simp_all add: Let_def)

definition user_ok :: "string \<Rightarrow> bool" where
  "user_ok i \<longleftrightarrow> is_valid_user_id i \<and> \<not> is_guest i \<and> is_filesystem_safe i"

definition group_ok :: "string set \<Rightarrow> enrollment_group \<Rightarrow> bool" where
  "group_ok user_ids g \<longleftrightarrow>
     is_valid_group_id (eg_id g) \<and> \<not> is_guest (eg_id g) \<and> is_filesystem_safe (eg_id g) \<and>
     eg_id g \<notin> user_ids \<and> set (eg_members g) \<subseteq> user_ids"

lemma validate_users_iff:
  "(\<exists>st'. validate_users fw us st = Inr st') \<longleftrightarrow>
     list_all user_ok (map eu_id us) \<and> distinct (map eu_id us) \<and>
     set (map eu_id us) \<inter> vs_user_ids st = {}"
  by (induction fw us st rule: validate_users.induct) (auto simp: user_ok_def)

lemma validate_users_ids:
  "validate_users fw us st = Inr st' \<Longrightarrow> vs_user_ids st' = vs_user_ids st \<union> set (map eu_id us)"
  by (induction fw us st arbitrary: st' rule: validate_users.induct) (auto split: if_splits)

lemma find_SomeD: "List.find P xs = Some x \<Longrightarrow> P x \<and> x \<in> set xs"
  by (auto simp: find_Some_iff)

lemma validate_groups_iff:
  "validate_groups uids gs seen = Inr () \<longleftrightarrow>
     list_all (group_ok uids) gs \<and> distinct (map eg_id gs) \<and> set (map eg_id gs) \<inter> seen = {}"
proof (induction uids gs seen rule: validate_groups.induct)
  case (2 uids g gs seen)
  have "List.find (\<lambda>m. m \<notin> uids) (eg_members g) = None \<longleftrightarrow> set (eg_members g) \<subseteq> uids"
    by (auto simp: find_None_iff)
  with 2 show ?case
    by (auto simp: group_ok_def dest: find_SomeD split: option.splits)
qed simp

section \<open>Properties\<close>

text \<open>
  Every accepted user or group id is a valid wiki id. The code relies on it when it forges the
  personal wiki of a user under the user's own id without parsing it again.
\<close>

lemma valid_ids_are_wiki_ids:
  assumes "is_valid_user_id s \<or> is_valid_group_id s"
  shows "wiki_id_parse s = Inr (WikiId s)"
  using assms valid_group_id_is_valid_user_id valid_user_id_chars valid_name_is_wiki_id by blast

lemma valid_ids_are_wiki_ids_witness: "wiki_id_parse ''alice2'' = Inr (WikiId ''alice2'')"
proof -
  have "is_valid_user_id ''alice2'' \<or> is_valid_group_id ''alice2''" by code_simp
  then show ?thesis by (rule valid_ids_are_wiki_ids)
qed

text \<open>
  C40: an enrollment file is accepted exactly when its version is 1, every user id is well formed,
  not reserved and path safe, the user ids are pairwise distinct, every group id is well formed, not
  reserved, path safe, not a user id, with every member an enrolled user, and the group ids are
  pairwise distinct. Aliases never reject a file: they only produce warnings.
\<close>

theorem validate_accepts_iff:
  "(\<exists>warnings. validate folded_words file = Inr warnings) \<longleftrightarrow>
     ef_version file = 1 \<and>
     list_all user_ok (map eu_id (ef_users file)) \<and> distinct (map eu_id (ef_users file)) \<and>
     list_all (group_ok (set (map eu_id (ef_users file)))) (ef_groups file) \<and>
     distinct (map eg_id (ef_groups file))"
proof (cases "validate_users folded_words (ef_users file) empty_validation_state")
  case (Inl e)
  then have "\<not> (\<exists>st'. validate_users folded_words (ef_users file) empty_validation_state = Inr st')"
    by simp
  then have "\<not> (list_all user_ok (map eu_id (ef_users file)) \<and> distinct (map eu_id (ef_users file)))"
    unfolding validate_users_iff by (simp add: empty_validation_state_def)
  with Inl show ?thesis by (auto simp: validate_def)
next
  case (Inr st)
  then have ids: "vs_user_ids st = set (map eu_id (ef_users file))"
    using validate_users_ids by (fastforce simp: empty_validation_state_def)
  have "list_all user_ok (map eu_id (ef_users file)) \<and> distinct (map eu_id (ef_users file))"
    using validate_users_iff [of folded_words "ef_users file" empty_validation_state] Inr by blast
  moreover have "validate_groups (vs_user_ids st) (ef_groups file) {} = Inr () \<longleftrightarrow>
      list_all (group_ok (set (map eu_id (ef_users file)))) (ef_groups file) \<and>
      distinct (map eg_id (ef_groups file))"
    by (simp add: validate_groups_iff ids)
  ultimately show ?thesis
    using Inr by (auto simp: validate_def split: sum.splits)
qed

end
