(* ===== verification/Mwe_Acl.thy ===== *)
theory Mwe_Acl
  imports Mwe_Enrollment
begin

text \<open>
  The access-control decisions of \<open>crates/mwe-core/src/acl.rs\<close> (and the forgotten-author principal of
  \<open>gdpr.rs\<close>): who reads a region, who may delete, rewrite or retract a fact, who is polled about it,
  and whether an ACL change discloses it to someone new.

  The roster reaches these functions as values: \<open>sender_groups\<close> is the caller's resolved group list,
  and \<open>audience\<close> takes the membership query as an argument. The lemmas about the electorate are proved
  in the locale \<^emph>\<open>roster\<close> and used at the enrollment table.
\<close>

section \<open>The region ACL of the store\<close>

record region_acl =
  rg_subject :: principal
  rg_allow :: "principal list"
  rg_excluded :: "principal list"
  rg_sender :: "principal option"

text \<open>A \<open>HashMap\<close> is an association list, read with \<^const>\<open>map_of\<close>.\<close>

type_synonym fact_acl_map = "(fact_id \<times> region_acl) list"

section \<open>Reading\<close>

fun principal_matches :: "principal \<Rightarrow> string \<Rightarrow> string list \<Rightarrow> bool" where
  "principal_matches (User ident) sender_id sender_groups = (ident = sender_id)"
| "principal_matches (Group ident) sender_id sender_groups =
     (if ident = ''global'' then True else list_ex (\<lambda>g. g = ident) sender_groups)"

definition can_read :: "acl \<Rightarrow> string \<Rightarrow> string list \<Rightarrow> principal option \<Rightarrow> bool" where
  "can_read region_acl sender_id sender_groups sender_of_region =
     (if list_ex (\<lambda>p. principal_matches p sender_id sender_groups) (acl_excluded region_acl)
      then False
      else list_ex (\<lambda>p. principal_matches p sender_id sender_groups)
             (opt_list (acl_subject region_acl) @ acl_allow region_acl @
              opt_list sender_of_region))"

definition reader_principals :: "string \<Rightarrow> string list \<Rightarrow> string list" where
  "reader_principals sender_id sender_groups =
     [principal_to_string global_principal, principal_to_string (User sender_id)] @
     map (\<lambda>g. principal_to_string (Group g)) sender_groups"

definition reader_set ::
  "principal \<Rightarrow> principal list \<Rightarrow> principal option \<Rightarrow> principal list \<Rightarrow> string set" where
  "reader_set subject allow sender excluded =
     set (map principal_to_string (subject # allow @ opt_list sender) @
          map (\<lambda>p. ''not:'' @ principal_to_string p) excluded)"

definition is_public :: "principal \<Rightarrow> principal list \<Rightarrow> principal option \<Rightarrow> bool" where
  "is_public subject allow sender \<longleftrightarrow>
     is_global subject \<or> list_ex is_global allow \<or>
     is_some_and is_global sender"

section \<open>Acting on a fact\<close>

definition can_delete :: "principal option \<Rightarrow> string \<Rightarrow> bool \<Rightarrow> bool" where
  "can_delete sender_of_fact caller is_admin \<longleftrightarrow>
     is_admin \<or> (case sender_of_fact of Some (User s) \<Rightarrow> s = caller | _ \<Rightarrow> False)"

fun sender_is_subject :: "principal \<Rightarrow> string \<Rightarrow> string list \<Rightarrow> bool" where
  "sender_is_subject (User ident) sender_id sender_groups = (ident = sender_id)"
| "sender_is_subject (Group ident) sender_id sender_groups =
     (if ident = ''global'' then False else list_ex (\<lambda>g. g = ident) sender_groups)"

definition sender_may_rewrite ::
  "principal \<Rightarrow> principal option \<Rightarrow> string \<Rightarrow> string list \<Rightarrow> bool" where
  "sender_may_rewrite subject fact_sender sender_id sender_groups \<longleftrightarrow>
     sender_is_subject subject sender_id sender_groups \<or>
     is_some_and (\<lambda>s. sender_is_subject s sender_id sender_groups) fact_sender"

definition sender_may_retract ::
  "principal \<Rightarrow> principal option \<Rightarrow> principal list \<Rightarrow> string \<Rightarrow> string list \<Rightarrow> bool" where
  "sender_may_retract subject fact_sender allow sender_id sender_groups \<longleftrightarrow>
     sender_is_subject subject sender_id sender_groups \<or>
     is_some_and (\<lambda>s. sender_is_subject s sender_id sender_groups) fact_sender \<or>
     list_ex (\<lambda>a. sender_is_subject a sender_id sender_groups) allow"

definition widens ::
  "principal \<Rightarrow> principal list \<Rightarrow> principal \<Rightarrow> principal list \<Rightarrow> bool" where
  "widens old_subject old_allow new_subject new_allow \<longleftrightarrow>
     (let old_set = set (old_subject # old_allow)
      in list_ex (\<lambda>p. p \<notin> old_set) (new_subject # new_allow))"

section \<open>The electorate\<close>

definition REMOVED_USER_ID :: string where
  "REMOVED_USER_ID = ''_removed''"

definition removed_sender :: principal where
  "removed_sender = User REMOVED_USER_ID"

fun is_removed :: "principal \<Rightarrow> bool" where
  "is_removed (User ident) = (ident = REMOVED_USER_ID)"
| "is_removed (Group _) = False"

fun audience_add :: "(string \<Rightarrow> string list) \<Rightarrow> principal \<Rightarrow> string set \<Rightarrow> string set" where
  "audience_add members (User ident) users =
     (if is_removed (User ident) then users else insert ident users)"
| "audience_add members (Group ident) users =
     (if ident = ''global'' then users else users \<union> set (members ident))"

fun audience_remove :: "(string \<Rightarrow> string list) \<Rightarrow> principal \<Rightarrow> string set \<Rightarrow> string set" where
  "audience_remove members (User ident) users = users - {ident}"
| "audience_remove members (Group ident) users = users - set (members ident)"

definition audience ::
  "(string \<Rightarrow> string list) \<Rightarrow> principal \<Rightarrow> principal list \<Rightarrow> principal option \<Rightarrow> principal list \<Rightarrow>
   string list" where
  "audience members subject allow sender excluded =
     sorted_list_of_set
       (fold (audience_remove members) excluded
         (fold (audience_add members) (subject # allow @ opt_list sender) {}))"

section \<open>Facts about reading\<close>

text \<open>The principals that grant read access: \<open>subject \<union> allow \<union> {sender}\<close>.\<close>

definition granting :: "acl \<Rightarrow> principal option \<Rightarrow> principal set" where
  "granting region_acl sender_of_region =
     set_option (acl_subject region_acl) \<union> set (acl_allow region_acl) \<union> set_option sender_of_region"

definition matched :: "string \<Rightarrow> string list \<Rightarrow> principal set" where
  "matched u gs = {p. principal_matches p u gs}"

lemma principal_matches_iff:
  "principal_matches p u gs \<longleftrightarrow> p = global_principal \<or> p = User u \<or> (\<exists>g \<in> set gs. p = Group g)"
  by (cases p) (auto simp: global_principal_def list_ex_iff)

lemma can_read_iff:
  "can_read a u gs s \<longleftrightarrow>
     granting a s \<inter> matched u gs \<noteq> {} \<and> set (acl_excluded a) \<inter> matched u gs = {}"
  unfolding can_read_def granting_def matched_def list_ex_iff 
  by (simp add: bex_Un set_eq_iff) blast

lemma reader_principals_matched:
  "set (reader_principals u gs) = principal_to_string ` matched u gs"
proof -
  have "matched u gs = insert global_principal (insert (User u) (Group ` set gs))"
    by (auto simp: matched_def principal_matches_iff)
  then show ?thesis
    unfolding reader_principals_def by (simp add: image_image del: principal_to_string.simps)
qed

lemma principal_to_string_inj: "inj principal_to_string"
  by (rule injI) simp

lemma in_reader_principals:
  "principal_to_string p \<in> set (reader_principals u gs) \<longleftrightarrow> principal_matches p u gs"
  by (auto simp: reader_principals_matched matched_def)

lemma not_prefixed_neq: "''not:'' @ s \<noteq> principal_to_string p"
  by (cases p) auto

lemma reader_set_alt:
  "reader_set sub al snd1 ex =
     principal_to_string ` granting \<lparr>acl_subject = Some sub, acl_allow = al, acl_excluded = ex\<rparr> snd1 \<union>
     (\<lambda>p. ''not:'' @ principal_to_string p) ` set ex"
  unfolding reader_set_def granting_def by (simp add: image_Un Un_assoc del: principal_to_string.simps)

lemma reader_set_determines:
  assumes "reader_set sub al s ex = reader_set sub' al' s' ex'"
  shows "granting \<lparr>acl_subject = Some sub, acl_allow = al, acl_excluded = ex\<rparr> s =
           granting \<lparr>acl_subject = Some sub', acl_allow = al', acl_excluded = ex'\<rparr> s'"
    and "set ex = set ex'"
proof -
  have grant: "granting \<lparr>acl_subject = Some sub, acl_allow = al, acl_excluded = ex\<rparr> s =
      {p. principal_to_string p \<in> reader_set sub al s ex}" for sub al s ex
    using not_prefixed_neq unfolding reader_set_alt image_iff Un_iff mem_Collect_eq set_eq_iff
    by (metis principal_to_string_inject same_append_eq)
  have excl: "set ex = {p. ''not:'' @ principal_to_string p \<in> reader_set sub al s ex}" for sub al s ex
    using not_prefixed_neq unfolding reader_set_alt image_iff Un_iff mem_Collect_eq set_eq_iff
    by (metis principal_to_string_inject same_append_eq)
  from grant assms show "granting \<lparr>acl_subject = Some sub, acl_allow = al, acl_excluded = ex\<rparr> s =
           granting \<lparr>acl_subject = Some sub', acl_allow = al', acl_excluded = ex'\<rparr> s'"
    by simp
  show "set ex = set ex'"
    using excl [of ex sub al s] excl [of ex' sub' al' s'] assms by simp
qed

lemma sender_is_subject_iff:
  "sender_is_subject p u gs \<longleftrightarrow> p \<noteq> global_principal \<and> principal_matches p u gs"
  by (cases p) (auto simp: global_principal_def)

section \<open>The electorate, over any roster\<close>

context roster
begin

definition belongs :: "string \<Rightarrow> principal \<Rightarrow> bool" where
  "belongs u p \<longleftrightarrow> (case p of User i \<Rightarrow> i = u | Group g \<Rightarrow> u \<in> set (members g))"

lemma finite_audience_add: "finite A \<Longrightarrow> finite (fold (audience_add members) ps A)"
proof (induction ps arbitrary: A)
  case (Cons p ps)
  then show ?case by (cases p) auto
qed simp

lemma finite_audience_remove: "finite A \<Longrightarrow> finite (fold (audience_remove members) ps A)"
proof (induction ps arbitrary: A)
  case (Cons p ps)
  then show ?case by (cases p) auto
qed simp

lemma fold_audience_add:
  "u \<in> fold (audience_add members) ps A \<longleftrightarrow>
     u \<in> A \<or> (\<exists>p \<in> set ps. \<not> is_removed p \<and> \<not> is_global p \<and> belongs u p)"
proof (induction ps arbitrary: A)
  case (Cons p ps)
  then show ?case by (cases p) (auto simp: belongs_def)
qed simp

lemma fold_audience_remove:
  "u \<in> fold (audience_remove members) ps A \<longleftrightarrow> u \<in> A \<and> (\<forall>p \<in> set ps. \<not> belongs u p)"
proof (induction ps arbitrary: A)
  case (Cons p ps)
  then show ?case by (cases p) (auto simp: belongs_def)
qed simp

lemma set_audience:
  "u \<in> set (audience members subject allow sender excluded) \<longleftrightarrow>
     (\<exists>p \<in> granting \<lparr>acl_subject = Some subject, acl_allow = allow, acl_excluded = excluded\<rparr> sender.
        \<not> is_removed p \<and> \<not> is_global p \<and> belongs u p) \<and>
     (\<forall>p \<in> set excluded. \<not> belongs u p)"
  unfolding audience_def
  by (subst set_sorted_list_of_set)
    (auto simp: finite_audience_remove finite_audience_add fold_audience_remove fold_audience_add
      granting_def simp del: fold.simps)

lemma sorted_audience:
  "sorted (audience members subject allow sender excluded)"
  "distinct (audience members subject allow sender excluded)"
  by (simp_all add: audience_def)

lemma belongs_matches:
  assumes "u \<noteq> []" "principal_id p \<noteq> []" "\<not> is_global p"
  shows "belongs u p \<longleftrightarrow> principal_matches p u (groups u)"
  using assms by (cases p) (auto simp: belongs_def membership list_ex_iff)

lemma audience_iff_can_read:
  assumes "u \<noteq> []" "u \<noteq> REMOVED_USER_ID"
    and ids: "\<forall>p \<in> insert subject (set allow \<union> set_option sender \<union> set excluded).
                principal_id p \<noteq> [] \<and> \<not> is_global p"
  shows "u \<in> set (audience members subject allow sender excluded) \<longleftrightarrow>
           can_read \<lparr>acl_subject = Some subject, acl_allow = allow, acl_excluded = excluded\<rparr>
             u (groups u) sender"
proof -
  let ?a = "\<lparr>acl_subject = Some subject, acl_allow = allow, acl_excluded = excluded\<rparr>"
  have match: "belongs u p \<longleftrightarrow> principal_matches p u (groups u)"
    if "p \<in> granting ?a sender \<union> set excluded" for p
    using belongs_matches [OF assms(1)] ids that by (auto simp: granting_def)
  have removed: "\<not> is_removed p" if "belongs u p" for p
    using that assms(2) by (cases p) (auto simp: belongs_def)
  have global: "\<not> is_global p" if "p \<in> granting ?a sender" for p
    using that ids by (auto simp: granting_def)
  have "u \<in> set (audience members subject allow sender excluded) \<longleftrightarrow>
      (\<exists>p \<in> granting ?a sender. principal_matches p u (groups u)) \<and>
      (\<forall>p \<in> set excluded. \<not> principal_matches p u (groups u))"
    unfolding set_audience using match removed global by auto
  then show ?thesis unfolding can_read_iff matched_def by auto
qed

lemma electors_are_readers:
  assumes "u \<noteq> []" and "\<forall>p \<in> insert subject (set allow \<union> set_option sender \<union> set excluded). principal_id p \<noteq> []"
    and "\<forall>p \<in> set excluded. \<not> is_global p"
    and "u \<in> set (audience members subject allow sender excluded)"
  shows "can_read \<lparr>acl_subject = Some subject, acl_allow = allow, acl_excluded = excluded\<rparr>
           u (groups u) sender"
proof -
  let ?a = "\<lparr>acl_subject = Some subject, acl_allow = allow, acl_excluded = excluded\<rparr>"
  from assms(4) obtain p where "p \<in> granting ?a sender" "\<not> is_global p" "belongs u p"
    and out: "\<forall>p \<in> set excluded. \<not> belongs u p"
    unfolding set_audience by auto
  moreover from this have "principal_matches p u (groups u)"
    using belongs_matches assms(1,2) by (auto simp: granting_def)
  moreover have "\<forall>p \<in> set excluded. \<not> principal_matches p u (groups u)"
    using out belongs_matches assms(1-3) by auto
  ultimately show ?thesis unfolding can_read_iff matched_def by auto
qed

end

section \<open>Properties\<close>

text \<open>
  the read check can be asked from the reader's side. A region is readable exactly when the wire
  forms of its subject, audience and author meet the reader's own principals and those of its
  exclusions miss them; this is the equivalence that lets the store filter by a set of strings.
\<close>

lemma can_read_reader_principals:
  "can_read a sender_id sender_groups s \<longleftrightarrow>
     (principal_to_string ` granting a s) \<inter> set (reader_principals sender_id sender_groups) \<noteq> {} \<and>
     (principal_to_string ` set (acl_excluded a)) \<inter> set (reader_principals sender_id sender_groups) = {}"
  unfolding can_read_iff reader_principals_matched
  by (simp flip: image_Int [OF principal_to_string_inj])

text \<open>
  C23: an exclusion beats every grant. Whoever is excluded by name, through a group, or through the
  group of everyone does not read the region, whatever its subject, audience and author say.
\<close>

theorem exclusion_wins:
  assumes "p \<in> set (acl_excluded a)"
    and "p = global_principal \<or> p = User sender_id \<or> (\<exists>g \<in> set sender_groups. p = Group g)"
  shows "\<not> can_read a sender_id sender_groups s"
  using assms by (auto simp: can_read_iff matched_def principal_matches_iff)

theorem exclusion_wins_witness:
  "\<not> can_read \<lparr>acl_subject = Some (Group ''family''), acl_allow = [global_principal],
               acl_excluded = [User ''carol'']\<rparr> ''carol'' [''family''] (Some (User ''carol''))"
proof -
  let ?a = "\<lparr>acl_subject = Some (Group ''family''), acl_allow = [global_principal],
               acl_excluded = [User ''carol'']\<rparr>"
  have "User ''carol'' \<in> set (acl_excluded ?a)"
    and "User ''carol'' = global_principal \<or> User ''carol'' = User ''carol'' \<or>
         (\<exists>g \<in> set [''family'']. User ''carol'' = Group g)"
    by simp_all
  then show ?thesis by (rule exclusion_wins)
qed

text \<open>
  \<open>reader_set\<close> is a sound merge key. Two facts with the same reader set are readable by exactly
  the same callers, under every roster.
\<close>

lemma reader_set_same_readers:
  assumes "reader_set subject allow sender excluded = reader_set subject' allow' sender' excluded'"
  shows "can_read \<lparr>acl_subject = Some subject, acl_allow = allow, acl_excluded = excluded\<rparr> u gs sender =
         can_read \<lparr>acl_subject = Some subject', acl_allow = allow', acl_excluded = excluded'\<rparr> u gs sender'"
  using reader_set_determines [OF assms] by (simp add: can_read_iff)

lemma reader_set_same_readers_witness:
  "can_read \<lparr>acl_subject = Some (User ''a''), acl_allow = [Group ''g''], acl_excluded = []\<rparr> ''b'' [''g''] None =
   can_read \<lparr>acl_subject = Some (Group ''g''), acl_allow = [], acl_excluded = []\<rparr> ''b'' [''g''] (Some (User ''a''))"
proof -
  have "reader_set (User ''a'') [Group ''g''] None [] = reader_set (Group ''g'') [] (Some (User ''a'')) []"
    by code_simp
  then show ?thesis by (rule reader_set_same_readers)
qed

text \<open>
  A change that \<open>widens\<close> does not report gives the fact no new reader: whoever reads it after the
  change could read it before, with the same author and the same exclusions.
\<close>

lemma not_widens_no_new_reader:
  assumes "\<not> widens old_subject old_allow new_subject new_allow"
    and "can_read \<lparr>acl_subject = Some new_subject, acl_allow = new_allow, acl_excluded = ex\<rparr> u gs s"
  shows "can_read \<lparr>acl_subject = Some old_subject, acl_allow = old_allow, acl_excluded = ex\<rparr> u gs s"
proof -
  have "granting \<lparr>acl_subject = Some new_subject, acl_allow = new_allow, acl_excluded = ex\<rparr> s \<subseteq>
        granting \<lparr>acl_subject = Some old_subject, acl_allow = old_allow, acl_excluded = ex\<rparr> s"
    using assms(1) by (auto simp: widens_def granting_def list_ex_iff)
  with assms(2) show ?thesis by (auto simp: can_read_iff)
qed

lemma not_widens_no_new_reader_witness:
  "can_read \<lparr>acl_subject = Some (User ''a''), acl_allow = [Group ''g''], acl_excluded = []\<rparr> ''b'' [''g''] None"
proof -
  have "\<not> widens (User ''a'') [Group ''g''] (Group ''g'') []"
    and "can_read \<lparr>acl_subject = Some (Group ''g''), acl_allow = [], acl_excluded = []\<rparr> ''b'' [''g''] None"
    by code_simp+
  then show ?thesis by (rule not_widens_no_new_reader)
qed

text \<open>
  the authority ladder. Being the subject allows rewriting, rewriting allows retracting, and every
  right over a non-excluded fact implies reading it; but reading alone, and naming the group of
  everyone as subject, author or audience, give no authority to change the fact.
\<close>

lemma authority_ladder:
  assumes "acl_excluded a = []" "acl_subject a = Some subject" "acl_allow a = allow"
  shows "(sender_is_subject subject u gs \<longrightarrow> sender_may_rewrite subject fs u gs) \<and>
         (sender_may_rewrite subject fs u gs \<longrightarrow> sender_may_retract subject fs allow u gs) \<and>
         (sender_may_retract subject fs allow u gs \<longrightarrow> can_read a u gs fs) \<and>
         (granting a fs \<subseteq> {global_principal} \<longrightarrow> \<not> sender_may_retract subject fs allow u gs)"
proof -
  have "sender_may_retract subject fs allow u gs \<longleftrightarrow>
      (\<exists>p \<in> granting a fs. sender_is_subject p u gs)"
    using assms by (auto simp: sender_may_retract_def is_some_and_iff list_ex_iff granting_def)
  moreover have "sender_may_rewrite subject fs u gs \<Longrightarrow> sender_may_retract subject fs allow u gs"
    by (auto simp: sender_may_retract_def sender_may_rewrite_def)
  ultimately show ?thesis
    using assms(1)
    by (auto simp: sender_may_rewrite_def sender_is_subject_iff can_read_iff matched_def)
qed

lemma authority_ladder_witness:
  "\<not> sender_may_retract global_principal None [global_principal] ''bob'' [''family'']"
proof -
  let ?a = "\<lparr>acl_subject = Some global_principal, acl_allow = [global_principal], acl_excluded = []\<rparr>"
  have "acl_excluded ?a = []" "acl_subject ?a = Some global_principal"
    "acl_allow ?a = [global_principal]" by simp_all
  note ladder = authority_ladder [OF this, of "''bob''" "[''family'']" None]
  have "granting ?a None \<subseteq> {global_principal}" by (simp add: granting_def)
  with ladder show ?thesis by blast
qed

text \<open>
  The electorate of a forget request is the read audience. Over the enrollment table, and as long
  as no principal of the fact is the group of everyone, the polled users are exactly the enrolled ids
  the read check admits (the forgotten author aside), sorted and without repetition.
\<close>

lemma audience_is_readers:
  assumes "\<forall>p \<in> insert subject (set allow \<union> set_option sender \<union> set excluded).
             principal_id p \<noteq> [] \<and> \<not> is_global p"
  shows "(\<forall>u. u \<noteq> [] \<and> u \<noteq> REMOVED_USER_ID \<longrightarrow>
           u \<in> set (audience (members_for tab) subject allow sender excluded) =
           can_read \<lparr>acl_subject = Some subject, acl_allow = allow, acl_excluded = excluded\<rparr>
             u (groups_for tab u) sender) \<and>
         sorted (audience (members_for tab) subject allow sender excluded) \<and>
         distinct (audience (members_for tab) subject allow sender excluded)"
  using enrolled.audience_iff_can_read [OF _ _ assms] enrolled.sorted_audience by simp

definition family_table :: "enrollment_group list" where
  "family_table = [\<lparr>eg_id = ''family'', eg_members = [''carol'', ''alice'', ''bob''], eg_scope = None\<rparr>]"

lemma audience_is_readers_witness:
  "''alice'' \<in> set (audience (members_for family_table) (Group ''family'') [] (Some (User ''bob'')) [User ''carol''])"
proof -
  have "\<forall>p \<in> insert (Group ''family'') (set [] \<union> set_option (Some (User ''bob'')) \<union> set [User ''carol'']).
          principal_id p \<noteq> [] \<and> \<not> is_global p"
    by simp
  from audience_is_readers [OF this, of family_table, THEN conjunct1, rule_format, of "''alice''"]
  have eq: "''alice'' \<in> set (audience (members_for family_table) (Group ''family'') [] (Some (User ''bob'')) [User ''carol'']) =
      can_read \<lparr>acl_subject = Some (Group ''family''), acl_allow = [], acl_excluded = [User ''carol'']\<rparr>
        ''alice'' (groups_for family_table ''alice'') (Some (User ''bob''))"
    by (simp add: REMOVED_USER_ID_def)
  show ?thesis unfolding eq by code_simp
qed

end
