(* ===== verification/Mwe_Parser.thy ===== *)
theory Mwe_Parser
  imports Mwe_Types
begin

text \<open>
  The marker parser of \<open>crates/mwe-core/src/parser.rs\<close>: a wiki page is scanned into prose, ACL regions
  \<open>{{attrs}}body{{/}}\<close> and media embeds \<open>{{embed=id}}\<close>, malformed markers staying prose with a warning.
  One iteration of the scanner loop is \<open>parse_marker\<close>; \<open>parse_loop\<close> iterates it and \<open>scan_embeds\<close> is the
  inner loop over a region body, both terminating because every iteration moves the position past
  the marker it looked at. A warning keeps the data its English sentence is formatted from.
\<close>

text \<open>Offsets such as \<open>open + 2\<close> stay as they are written.\<close>

declare add_2_eq_Suc [simp del] add_2_eq_Suc' [simp del]

section \<open>Events and warnings\<close>

datatype parse_event =
    Prose nat nat string
  | Region nat nat region_attrs nat nat string "catalog_id list"
  | Embed nat nat catalog_id

datatype parse_warning_kind =
    UnclosedMarker
  | UnclosedRegion
  | StrayCloseMarker
  | InvalidAttr
  | InvalidPrincipal
  | InvalidFactId
  | InvalidCatalogId
  | UnknownAttr
  | NestedRegion

datatype warning_detail =
    MissingMarkerClose
  | MarkerSpansNewline
  | StrayTerminator
  | InvalidCatalogIdText string
  | MissingTerminator
  | NestedMarkers
  | AttrMissingEquals string
  | EmptyAttrKey string
  | AttrPrincipalError string string principal_parse_error
  | AllowPrincipalError string principal_parse_error
  | FactIdError fact_id_parse_error
  | UnknownAttrKey string

record parse_warning =
  pw_offset :: nat
  pw_kind :: parse_warning_kind
  pw_detail :: warning_detail

record parse_output =
  events :: "parse_event list"
  warnings :: "parse_warning list"

definition warn :: "nat \<Rightarrow> parse_warning_kind \<Rightarrow> warning_detail \<Rightarrow> parse_output \<Rightarrow> parse_output" where
  "warn off kind detail out =
     out\<lparr>warnings := warnings out @ [\<lparr>pw_offset = off, pw_kind = kind, pw_detail = detail\<rparr>]\<rparr>"

definition push_prose :: "string \<Rightarrow> nat \<Rightarrow> nat \<Rightarrow> parse_output \<Rightarrow> parse_output" where
  "push_prose text start end out =
     (if start = end then out else out\<lparr>events := events out @ [Prose start end (slice text start end)]\<rparr>)"

definition push_event :: "parse_event \<Rightarrow> parse_output \<Rightarrow> parse_output" where
  "push_event ev out = out\<lparr>events := events out @ [ev]\<rparr>"

section \<open>Marker attributes\<close>

record attr_state =
  as_attrs :: region_attrs
  as_from_canonical :: bool
  as_out :: parse_output

definition set_subject :: "principal \<Rightarrow> region_attrs \<Rightarrow> region_attrs" where
  "set_subject p attrs = attrs\<lparr>ra_acl := (ra_acl attrs)\<lparr>acl_subject := Some p\<rparr>\<rparr>"

definition push_allow :: "principal \<Rightarrow> region_attrs \<Rightarrow> region_attrs" where
  "push_allow p attrs = attrs\<lparr>ra_acl := (ra_acl attrs)\<lparr>acl_allow := acl_allow (ra_acl attrs) @ [p]\<rparr>\<rparr>"

fun parse_allow :: "nat \<Rightarrow> string list \<Rightarrow> attr_state \<Rightarrow> attr_state" where
  "parse_allow off [] st = st"
| "parse_allow off (raw # raws) st =
     parse_allow off raws
       (case principal_from_str raw of
          Inr p \<Rightarrow> st\<lparr>as_attrs := push_allow p (as_attrs st)\<rparr>
        | Inl e \<Rightarrow> st\<lparr>as_out := warn off InvalidPrincipal (AllowPrincipalError raw e) (as_out st)\<rparr>)"

definition parse_clause :: "nat \<Rightarrow> string \<Rightarrow> attr_state \<Rightarrow> attr_state" where
  "parse_clause off clause st =
     (case split_once CHR ''='' clause of
        None \<Rightarrow> st\<lparr>as_out := warn off InvalidAttr (AttrMissingEquals clause) (as_out st)\<rparr>
      | Some (key, val) \<Rightarrow>
        if key = [] then st\<lparr>as_out := warn off InvalidAttr (EmptyAttrKey clause) (as_out st)\<rparr>
        else if key = ''subject'' \<or> key = ''owner'' then
          (case principal_from_str val of
             Inr p \<Rightarrow>
               (let canonical = (key = ''subject'')
                in if canonical \<or> \<not> as_from_canonical st
                   then st\<lparr>as_attrs := set_subject p (as_attrs st), as_from_canonical := canonical\<rparr>
                   else st)
           | Inl e \<Rightarrow> st\<lparr>as_out := warn off InvalidPrincipal (AttrPrincipalError key val e) (as_out st)\<rparr>)
        else if key = ''allow'' then parse_allow off (split_on CHR '','' val) st
        else if key = ''sender'' then
          (case principal_from_str val of
             Inr p \<Rightarrow> st\<lparr>as_attrs := (as_attrs st)\<lparr>ra_sender := Some p\<rparr>\<rparr>
           | Inl e \<Rightarrow> st\<lparr>as_out := warn off InvalidPrincipal (AttrPrincipalError key val e) (as_out st)\<rparr>)
        else if key = ''external'' then
          (let trimmed = trim val
           in if trimmed \<noteq> [] then st\<lparr>as_attrs := (as_attrs st)\<lparr>ra_subject_external := Some trimmed\<rparr>\<rparr>
              else st)
        else if key = ''f'' then
          (case fact_id_parse val of
             Inr fid \<Rightarrow> st\<lparr>as_attrs := (as_attrs st)\<lparr>ra_fact_id := Some fid\<rparr>\<rparr>
           | Inl e \<Rightarrow> st\<lparr>as_out := warn off InvalidFactId (FactIdError e) (as_out st)\<rparr>)
        else st\<lparr>as_out := warn off UnknownAttr (UnknownAttrKey key) (as_out st)\<rparr>)"

definition parse_attrs :: "string \<Rightarrow> nat \<Rightarrow> parse_output \<Rightarrow> region_attrs \<times> parse_output" where
  "parse_attrs spec marker_offset out =
     (let st = fold (parse_clause marker_offset) (split_ascii_whitespace spec)
                 \<lparr>as_attrs = default_region_attrs, as_from_canonical = False, as_out = out\<rparr>
      in (as_attrs st, as_out st))"

section \<open>The body scan\<close>

text \<open>
  The condition of the inner \<open>if let\<close> chain: the offset of the \<open>}}\<close> that closes an in-region embed.
\<close>

definition embed_close :: "string \<Rightarrow> nat \<Rightarrow> nat \<Rightarrow> nat option" where
  "embed_close text term inner_attr_start =
     (if starts_with ''embed='' (slice text inner_attr_start term) then
        (case find_from (take term text) ''}}'' inner_attr_start of
           None \<Rightarrow> None
         | Some inner_close \<Rightarrow>
             if newline \<in> set (slice text inner_attr_start inner_close) then None else Some inner_close)
      else None)"

lemma embed_close_ge: "embed_close text term a = Some c \<Longrightarrow> a \<le> c \<and> c + 2 \<le> min term (length text)"
  by (auto simp: embed_close_def split: if_splits option.splits dest!: find_from_range)

function scan_embeds ::
  "string \<Rightarrow> nat \<Rightarrow> nat \<Rightarrow> catalog_id list \<Rightarrow> bool \<Rightarrow> parse_output \<Rightarrow> catalog_id list \<times> parse_output" where
  "scan_embeds text term scan embeds nested_warned out =
     (case find_from (take term text) ''{{'' scan of
        None \<Rightarrow> (embeds, out)
      | Some inner \<Rightarrow>
        (let inner_attr_start = inner + 2
         in case embed_close text term inner_attr_start of
              Some inner_close \<Rightarrow>
                (let catalog_raw = slice text (inner_attr_start + 6) inner_close
                 in case catalog_id_parse catalog_raw of
                      Inr cid \<Rightarrow> scan_embeds text term (inner_close + 2) (embeds @ [cid]) nested_warned out
                    | Inl _ \<Rightarrow>
                        scan_embeds text term (inner_close + 2) embeds nested_warned
                          (warn inner InvalidCatalogId (InvalidCatalogIdText catalog_raw) out))
            | None \<Rightarrow>
                scan_embeds text term (inner + 2) embeds True
                  (if nested_warned then out else warn inner NestedRegion NestedMarkers out)))"
  by pat_completeness auto

termination
  by (relation "measure (\<lambda>(text, term, scan, _). length text - scan)")
    (auto dest!: find_from_range embed_close_ge)

section \<open>The scanner\<close>

text \<open>
  One iteration, from the \<open>{{\<close> at \<open>open\<close>: the output it leaves and the position to continue from, with
  \<^const>\<open>None\<close> for the \<open>break\<close>.
\<close>

definition parse_marker :: "string \<Rightarrow> nat \<Rightarrow> parse_output \<Rightarrow> parse_output \<times> nat option" where
  "parse_marker text open out =
     (let after_open = open + 2 in
      case find_from text ''}}'' after_open of
        None \<Rightarrow>
          (push_prose text open (length text) (warn open UnclosedMarker MissingMarkerClose out), None)
      | Some close_attr \<Rightarrow>
        if newline \<in> set (slice text after_open close_attr) then
          (push_prose text open (open + 2) (warn open UnclosedMarker MarkerSpansNewline out),
           Some (open + 2))
        else
          (let attr_str = slice text after_open close_attr;
               marker_end = close_attr + 2
           in if attr_str = ''/'' then
                (push_prose text open marker_end (warn open StrayCloseMarker StrayTerminator out),
                 Some marker_end)
              else case strip_prefix ''embed='' attr_str of
                Some catalog_raw \<Rightarrow>
                  (case catalog_id_parse catalog_raw of
                     Inr cid \<Rightarrow> (push_event (Embed open marker_end cid) out, Some marker_end)
                   | Inl _ \<Rightarrow>
                       (push_prose text open marker_end
                          (warn open InvalidCatalogId (InvalidCatalogIdText catalog_raw) out),
                        Some marker_end))
              | None \<Rightarrow>
                (case find_from text ''{{/}}'' marker_end of
                   None \<Rightarrow>
                     (push_prose text open marker_end (warn open UnclosedRegion MissingTerminator out),
                      Some marker_end)
                 | Some term \<Rightarrow>
                     (let (embeds, out1) = scan_embeds text term marker_end [] False out;
                          (attrs, out2) = parse_attrs attr_str open out1;
                          region_end = term + 5
                      in (push_event
                            (Region open region_end attrs marker_end term
                               (slice text marker_end term) embeds) out2,
                          Some region_end)))))"

lemma parse_marker_progress:
  assumes "snd (parse_marker text open out) = Some nxt"
  shows "open < nxt"
proof (cases "find_from text ''}}'' (open + 2)")
  case None
  with assms show ?thesis by (simp add: parse_marker_def)
next
  case (Some close)
  note close = find_from_range [OF Some, simplified]
  show ?thesis
  proof (cases "find_from text ''{{/}}'' (close + 2)")
    case None
    with assms Some close show ?thesis
      by (simp add: parse_marker_def Let_def split: if_splits option.splits sum.splits)
  next
    case (Some trm)
    from assms \<open>find_from text ''}}'' (open + 2) = Some close\<close> close Some find_from_range [OF Some, simplified]
    show ?thesis
      by (simp add: parse_marker_def Let_def case_prod_beta split: if_splits option.splits sum.splits)
  qed
qed

lemma parse_marker_next:
  "(out', Some nxt) = parse_marker text open out \<Longrightarrow> pos \<le> open \<Longrightarrow> Suc (Suc open) \<le> length text \<Longrightarrow>
   length text - nxt < length text - pos"
  using parse_marker_progress [of "text" "open" out nxt] by (cases "parse_marker text open out") auto

function parse_loop :: "string \<Rightarrow> nat \<Rightarrow> parse_output \<Rightarrow> parse_output" where
  "parse_loop text pos out =
     (if pos < length text then
        (case find_from text ''{{'' pos of
           None \<Rightarrow> push_prose text pos (length text) out
         | Some open \<Rightarrow>
             (case parse_marker text open (if open > pos then push_prose text pos open out else out) of
                (out', None) \<Rightarrow> out'
              | (out', Some nxt) \<Rightarrow> parse_loop text nxt out'))
      else out)"
  by pat_completeness auto

termination
  by (relation "measure (\<lambda>(text, pos, _). length text - pos)")
    (auto dest!: find_from_range dest: parse_marker_next)

declare scan_embeds.simps [simp del] parse_loop.simps [simp del]

definition parse :: "string \<Rightarrow> parse_output" where
  "parse text = parse_loop text 0 \<lparr>events = [], warnings = []\<rparr>"

section \<open>Derived views\<close>

fun event_embeds :: "parse_event \<Rightarrow> catalog_id list" where
  "event_embeds (Embed _ _ cid) = [cid]"
| "event_embeds (Region _ _ _ _ _ _ embeds) = embeds"
| "event_embeds (Prose _ _ _) = []"

definition collect_embeds :: "string \<Rightarrow> catalog_id list" where
  "collect_embeds text = concat (map event_embeds (events (parse text)))"

fun embed_only_events :: "parse_event list \<Rightarrow> catalog_id list option" where
  "embed_only_events [] = Some []"
| "embed_only_events (Embed _ _ cid # evs) = map_option ((#) cid) (embed_only_events evs)"
| "embed_only_events (Region _ _ _ _ _ _ _ # evs) = None"
| "embed_only_events (Prose _ _ t # evs) =
     (if contains_sub t ''{{'' \<or> contains_sub t ''}}'' then None else embed_only_events evs)"

definition embed_only_markers :: "string \<Rightarrow> catalog_id list option" where
  "embed_only_markers text =
     (let parsed = parse text
      in if warnings parsed \<noteq> [] then None else embed_only_events (events parsed))"

fun strip_embed_events :: "string \<Rightarrow> nat \<Rightarrow> parse_event list \<Rightarrow> string" where
  "strip_embed_events text lst [] = drop lst text"
| "strip_embed_events text lst (Embed start end _ # evs) =
     slice text lst start @ strip_embed_events text end evs"
| "strip_embed_events text lst (_ # evs) = strip_embed_events text lst evs"

function strip_embed_pass :: "string \<Rightarrow> nat \<Rightarrow> string" where
  "strip_embed_pass out pos =
     (case find_from out ''{{embed='' pos of
        None \<Rightarrow> drop pos out
      | Some open \<Rightarrow>
        (case find_from out ''}}'' (open + 2) of
           None \<Rightarrow> drop pos out
         | Some close \<Rightarrow>
             (let raw = slice out (open + 8) close
              in (if newline \<notin> set raw \<and> (case catalog_id_parse raw of Inr _ \<Rightarrow> True | Inl _ \<Rightarrow> False)
                  then slice out pos open else slice out pos (close + 2)) @
                 strip_embed_pass out (close + 2))))"
  by pat_completeness auto

termination
  by (relation "measure (\<lambda>(out, pos). length out - pos)") (auto dest!: find_from_range)

declare strip_embed_pass.simps [simp del]

definition strip_embed_markers :: "string \<Rightarrow> string" where
  "strip_embed_markers text =
     (let out = strip_embed_events text 0 (events (parse text))
      in if contains_sub out ''{{embed='' then strip_embed_pass out 0 else out)"

section \<open>Writing markers\<close>

text \<open>The marker writers of \<open>crates/mwe-core/src/capture.rs\<close>.\<close>

definition render_marker :: "fact_id \<Rightarrow> string \<Rightarrow> string" where
  "render_marker fact_id body = ''{{f='' @ fact_id_str fact_id @ ''}}'' @ body @ ''{{/}}''"

definition render_embed_marker :: "catalog_id \<Rightarrow> string" where
  "render_embed_marker catalog_id = ''{{embed='' @ catalog_id_str catalog_id @ ''}}''"

definition full_marker_attrs ::
  "fact_id \<Rightarrow> principal \<Rightarrow> principal list \<Rightarrow> principal option \<Rightarrow> string option \<Rightarrow> string list" where
  "full_marker_attrs fact_id subject allow sender subject_external =
     [''subject='' @ principal_to_string subject] @
     (case map_option trim subject_external of
        None \<Rightarrow> []
      | Some name \<Rightarrow> if name \<noteq> [] then [''external='' @ name] else []) @
     (if allow \<noteq> [] then [''allow='' @ join '','' (map principal_to_string allow)] else []) @
     (case sender of None \<Rightarrow> [] | Some s \<Rightarrow> [''sender='' @ principal_to_string s]) @
     [''f='' @ fact_id_str fact_id]"

definition render_full_marker ::
  "fact_id \<Rightarrow> principal \<Rightarrow> principal list \<Rightarrow> principal option \<Rightarrow> string option \<Rightarrow> string \<Rightarrow> string" where
  "render_full_marker fact_id subject allow sender subject_external body =
     ''{{'' @ join '' '' (full_marker_attrs fact_id subject allow sender subject_external) @ ''}}'' @
     body @ ''{{/}}''"

section \<open>Where events come from\<close>

fun event_start :: "parse_event \<Rightarrow> nat" where
  "event_start (Prose s _ _) = s"
| "event_start (Region s _ _ _ _ _ _) = s"
| "event_start (Embed s _ _) = s"

fun event_end :: "parse_event \<Rightarrow> nat" where
  "event_end (Prose _ e _) = e"
| "event_end (Region _ e _ _ _ _ _) = e"
| "event_end (Embed _ e _) = e"

text \<open>
  What an event says about the bytes it covers. A region is an opening marker on one line that is
  neither a terminator nor an embed, a body up to the first terminator, and that terminator; its
  attributes are those of the marker.
\<close>

definition no_output :: parse_output where
  "no_output = \<lparr>events = [], warnings = []\<rparr>"

definition marker_attrs :: "string \<Rightarrow> region_attrs" where
  "marker_attrs spec = fst (parse_attrs spec 0 no_output)"

fun event_ok :: "string \<Rightarrow> parse_event \<Rightarrow> bool" where
  "event_ok text (Prose s e t) = (t = slice text s e)"
| "event_ok text (Embed s e cid) =
     (slice text s e = ''{{embed='' @ catalog_id_str cid @ ''}}'' \<and>
      catalog_id_parse (catalog_id_str cid) = Inr cid)"
| "event_ok text (Region s e attrs bs be body embeds) =
     (\<exists>attr. slice text s e = ''{{'' @ attr @ ''}}'' @ body @ ''{{/}}'' \<and>
        bs = s + 4 + length attr \<and> be = bs + length body \<and>
        newline \<notin> set attr \<and> attr \<noteq> ''/'' \<and> \<not> starts_with ''embed='' attr \<and>
        \<not> contains_sub attr ''}}'' \<and> \<not> contains_sub body ''{{/}}'' \<and>
        attrs = marker_attrs attr)"

text \<open>An offset next to an ASCII byte, or at an edge of the text.\<close>

definition cut_point :: "string \<Rightarrow> nat \<Rightarrow> bool" where
  "cut_point text i \<longleftrightarrow>
     i = 0 \<or> i = length text \<or> (i < length text \<and> is_ascii (text ! i)) \<or>
     (0 < i \<and> i \<le> length text \<and> is_ascii (text ! (i - 1)))"

fun tiles :: "string \<Rightarrow> nat \<Rightarrow> parse_event list \<Rightarrow> nat \<Rightarrow> bool" where
  "tiles text a [] b = (a = b)"
| "tiles text a (ev # evs) b =
     (event_start ev = a \<and> a < event_end ev \<and> event_end ev \<le> length text \<and>
      cut_point text (event_end ev) \<and> event_ok text ev \<and> tiles text (event_end ev) evs b)"

lemma tiles_append:
  "tiles text a (xs @ ys) c \<longleftrightarrow> (\<exists>b. tiles text a xs b \<and> tiles text b ys c)"
  by (induction xs arbitrary: a) auto

lemma tiles_concat:
  "tiles text a evs b \<Longrightarrow> a \<le> b \<and> concat (map (\<lambda>ev. slice text (event_start ev) (event_end ev)) evs) = slice text a b"
proof (induction "text" a evs b rule: tiles.induct)
  case (2 h a ev evs b)
  then show ?case using slice_append [of a "event_end ev" b h] by auto
qed simp

section \<open>The pieces of an iteration\<close>

lemma events_simps [simp]:
  "events (warn off k d out) = events out"
  "warnings (push_prose txt s e out) = warnings out"
  "warnings (push_event ev out) = warnings out"
  "events (push_event ev out) = events out @ [ev]"
  "warnings (warn off k d out) = warnings out @ [\<lparr>pw_offset = off, pw_kind = k, pw_detail = d\<rparr>]"
  by (simp_all add: warn_def push_prose_def push_event_def)

lemma events_push_prose [simp]:
  "s < e \<Longrightarrow> events (push_prose txt s e out) = events out @ [Prose s e (slice txt s e)]"
  by (simp add: push_prose_def)

lemma events_scan_embeds [simp]: "events (snd (scan_embeds h t s es nw out)) = events out"
proof (induction h t s es nw out rule: scan_embeds.induct)
  case (1 h t s es nw out)
  show ?case
  proof (cases "find_from (take t h) ''{{'' s")
    case None
    then show ?thesis by (subst scan_embeds.simps) simp
  next
    case (Some inner)
    then show ?thesis
      by (cases "embed_close h t (inner + 2)";
          cases "catalog_id_parse (slice h (inner + 2 + 6) (the (embed_close h t (inner + 2))))")
        (simp_all add: scan_embeds.simps [of h t s es nw out] Let_def "1.IH" [OF Some refl])
  qed
qed

text \<open>Reading attributes collects warnings and leaves the events alone.\<close>

lemma parse_allow_events [simp]: "events (as_out (parse_allow off raws st)) = events (as_out st)"
  by (induction raws arbitrary: st) (auto split: sum.split)

lemma parse_clause_events [simp]: "events (as_out (parse_clause off c st)) = events (as_out st)"
  by (simp add: parse_clause_def Let_def split: option.split prod.split sum.split)

lemma fold_parse_clause_events [simp]:
  "events (as_out (fold (parse_clause off) cs st)) = events (as_out st)"
  by (induction cs arbitrary: st) auto

lemma events_parse_attrs [simp]: "events (snd (parse_attrs spec off out)) = events out"
  by (simp add: parse_attrs_def Let_def)

text \<open>The marker offset only labels warnings, so the attributes of a marker text are a function of it.\<close>

definition attr_core :: "attr_state \<Rightarrow> region_attrs \<times> bool" where
  "attr_core st = (as_attrs st, as_from_canonical st)"

lemma parse_allow_core:
  "attr_core st = attr_core st' \<Longrightarrow> attr_core (parse_allow off raws st) = attr_core (parse_allow off' raws st')"
proof (induction raws arbitrary: st st')
  case (Cons raw raws)
  show ?case
    unfolding parse_allow.simps
    by (rule Cons.IH) (use Cons.prems in \<open>auto simp: attr_core_def split: sum.split\<close>)
qed simp

lemma parse_clause_core:
  assumes "attr_core st = attr_core st'"
  shows "attr_core (parse_clause off c st) = attr_core (parse_clause off' c st')"
  using assms parse_allow_core [OF assms]
  by (simp add: parse_clause_def attr_core_def Let_def split: option.split prod.split sum.split)

lemma fold_parse_clause_core:
  "attr_core st = attr_core st' \<Longrightarrow>
   attr_core (fold (parse_clause off) cs st) = attr_core (fold (parse_clause off') cs st')"
proof (induction cs arbitrary: st st')
  case (Cons c cs)
  show ?case
    unfolding fold_Cons o_apply by (rule Cons.IH) (rule parse_clause_core [OF Cons.prems])
qed simp

lemma parse_attrs_fst: "fst (parse_attrs spec off out) = marker_attrs spec"
proof -
  let ?st = "\<lambda>out. \<lparr>as_attrs = default_region_attrs, as_from_canonical = False, as_out = out\<rparr>"
  have "attr_core (?st out) = attr_core (?st no_output)" by (simp add: attr_core_def)
  from fold_parse_clause_core [OF this] show ?thesis
    by (simp add: parse_attrs_def marker_attrs_def Let_def attr_core_def)
qed

lemma slice_match_braces:
  "starts_with [a, b] (drop i h) \<Longrightarrow> slice h i (i + 2) = [a, b]"
  using slice_match [of "[a, b]" i h] by (simp add: numeral_2_eq_2)

lemma find_from_close:
  assumes "find_from h ''}}'' k = Some i"
  shows "find_from h ''}}'' k = Some i" "k \<le> i" "i + 2 \<le> length h" "slice h i (i + 2) = ''}}''"
  using assms find_from_range [OF assms] slice_match_braces [OF find_from_starts [OF assms]]
  by (simp_all add: numeral_2_eq_2)

lemma find_from_terminator:
  assumes "find_from h ''{{/}}'' k = Some i"
  shows "find_from h ''{{/}}'' k = Some i" "k \<le> i" "i + 5 \<le> length h" "slice h i (i + 5) = ''{{/}}''"
  using assms find_from_range [OF assms] find_from_slice [OF assms]
  by (simp_all add: eval_nat_numeral)

lemma cut_after_match:
  assumes "starts_with n (drop i h)" "n \<noteq> []" "is_ascii (last n)"
  shows "cut_point h (i + length n)"
proof -
  have "i + (length n - 1) < length h \<and> h ! (i + (length n - 1)) = last n"
    using starts_with_drop_nth [OF assms(1), of "length n - 1"] assms(2) by (simp add: last_conv_nth)
  moreover have "i + (length n - 1) = i + length n - 1" using assms(2) by (cases n) auto
  ultimately show ?thesis using assms(2,3) by (auto simp: cut_point_def)
qed

lemma cut_after_braces: "starts_with [a, b] (drop i h) \<Longrightarrow> is_ascii b \<Longrightarrow> cut_point h (i + 2)"
  using cut_after_match [of "[a, b]" i h] by (simp add: numeral_2_eq_2)

lemma cut_after_terminator: "find_from h ''{{/}}'' k = Some i \<Longrightarrow> cut_point h (i + 5)"
  using cut_after_match [OF find_from_starts, of h "''{{/}}''" k i]
  by (simp add: eval_nat_numeral is_ascii_def byte_def)

lemma cut_before_braces: "find_from h ''{{'' k = Some i \<Longrightarrow> cut_point h i"
  using starts_with_drop_nth [OF find_from_starts, of h "''{{''" k i 0]
  by (simp add: cut_point_def is_ascii_def byte_def)

lemma parse_marker_event:
  assumes start: "starts_with ''{{'' (drop open text)" and "open < length text"
  shows "\<exists>ev. events (fst (parse_marker text open out)) = events out @ [ev] \<and>
           event_start ev = open \<and> open < event_end ev \<and> event_end ev \<le> length text \<and>
           cut_point text (event_end ev) \<and> event_ok text ev \<and>
           event_end ev = (case snd (parse_marker text open out) of None \<Rightarrow> length text | Some nxt \<Rightarrow> nxt)"
proof (cases "find_from text ''}}'' (open + 2)")
  case None
  with assms(2) show ?thesis by (simp add: parse_marker_def cut_point_def)
next
  case (Some close)
  note cuts = cut_after_braces [OF start] cut_after_braces [OF find_from_starts [OF Some]]
  note close = find_from_close [OF Some]
  define attr where "attr = slice text (open + 2) close"
  have len: "close = open + 2 + length attr" using close by (auto simp: attr_def)
  have free: "\<not> contains_sub attr ''}}''"
    using find_from_free [OF Some] by (simp add: attr_def)
  have braces: "slice text open (open + 2) = ''{{''" by (rule slice_match_braces [OF start])
  have marker: "slice text open (close + 2) = ''{{'' @ attr @ ''}}''"
    using slice_append [of "open" "open + 2" "close + 2" "text"] slice_append [of "open + 2" close "close + 2" "text"]
      close braces by (simp add: attr_def)
  note unfold = parse_marker_def Let_def close(1) attr_def [symmetric]
  consider (nl) "newline \<in> set attr" | (stray) "attr = ''/''"
    | (embed) raw where "newline \<notin> set attr" "attr \<noteq> ''/''" "strip_prefix ''embed='' attr = Some raw"
    | (region) "newline \<notin> set attr" "attr \<noteq> ''/''" "strip_prefix ''embed='' attr = None"
    by (cases "strip_prefix ''embed='' attr") auto
  then show ?thesis
  proof cases
    case nl
    with close cuts show ?thesis by (simp add: unfold is_ascii_def byte_def)
  next
    case stray
    with close cuts show ?thesis by (simp add: unfold is_ascii_def byte_def)
  next
    case embed
    then have "attr = ''embed='' @ raw" by (simp add: strip_prefix_Some_iff)
    moreover have "\<And>cid. catalog_id_parse raw = Inr cid \<Longrightarrow> cid = CatalogId raw"
      by (elim catalog_id_parse_Inr)
    ultimately show ?thesis
      using embed close marker cuts
      by (cases "catalog_id_parse raw") (auto simp: unfold is_ascii_def byte_def)
  next
    case region
    show ?thesis
    proof (cases "find_from text ''{{/}}'' (close + 2)")
      case None
      with region close cuts show ?thesis by (simp add: unfold is_ascii_def byte_def)
    next
      case (Some trm)
      define body where "body = slice text (close + 2) trm"
      note trm = find_from_terminator [OF Some]
      have body_len: "trm = close + 2 + length body" using trm by (auto simp: body_def)
      have "slice text open (trm + 5) = ''{{'' @ attr @ ''}}'' @ body @ ''{{/}}''"
        using slice_append [of "open" "close + 2" "trm + 5" "text"] slice_append [of "close + 2" trm "trm + 5" "text"]
          trm close marker by (simp add: body_def)
      moreover have "\<not> contains_sub body ''{{/}}''"
        using find_from_free [OF Some] by (simp add: body_def)
      moreover have "\<not> starts_with ''embed='' attr"
        using region(3) by (simp add: strip_prefix_None_iff)
      moreover have "parse_marker text open out =
          (push_event
             (Region open (trm + 5) (marker_attrs attr) (close + 2) trm body
               (fst (scan_embeds text trm (close + 2) [] False out)))
             (snd (parse_attrs attr open (snd (scan_embeds text trm (close + 2) [] False out)))),
           Some (trm + 5))"
        by (simp add: unfold region trm(1) case_prod_beta parse_attrs_fst body_def)
      ultimately show ?thesis
        using region(1,2) trm(2,3) close(2) free len body_len cut_after_terminator [OF Some] by auto
    qed
  qed
qed

lemma parse_loop_tiles:
  "pos \<le> length text \<Longrightarrow> \<exists>evs. events (parse_loop text pos out) = events out @ evs \<and> tiles text pos evs (length text)"
proof (induction "length text - pos" arbitrary: pos out rule: less_induct)
  case less
  show ?case
  proof (cases "pos < length text")
    case False
    with less.prems show ?thesis
      by (subst parse_loop.simps) (simp add: exI [of _ "[]"])
  next
    case True
    show ?thesis
    proof (cases "find_from text ''{{'' pos")
      case None
      with True show ?thesis by (simp add: parse_loop.simps [of _ pos] cut_point_def)
    next
      case (Some opn)
      define out1 where "out1 = (if opn > pos then push_prose text pos opn out else out)"
      have opn: "pos \<le> opn" "opn < length text"
        using find_from_range [OF Some] by simp_all
      from parse_marker_event [OF find_from_starts [OF Some] opn(2), of out1] obtain ev
        where ev: "events (fst (parse_marker text opn out1)) = events out1 @ [ev]"
          "event_start ev = opn" "opn < event_end ev" "event_end ev \<le> length text" "event_ok text ev"
          "cut_point text (event_end ev)"
          "event_end ev = (case snd (parse_marker text opn out1) of None \<Rightarrow> length text | Some nxt \<Rightarrow> nxt)"
        by blast
      obtain pre where pre: "events out1 = events out @ pre" "tiles text pos pre opn"
        using opn cut_before_braces [OF Some] by (cases "opn > pos") (auto simp: out1_def)
      have unfold: "parse_loop text pos out = (case parse_marker text opn out1 of
          (out', None) \<Rightarrow> out' | (out', Some nxt) \<Rightarrow> parse_loop text nxt out')"
        using True Some by (simp add: parse_loop.simps [of _ pos] out1_def)
      show ?thesis
      proof (cases "parse_marker text opn out1")
        case (Pair out2 nxt)
        show ?thesis
        proof (cases nxt)
          case None
          with Pair ev unfold pre show ?thesis
            by (auto simp: tiles_append intro!: exI [of _ "pre @ [ev]"])
        next
          case (Some n)
          with Pair ev opn have "length text - n < length text - pos" "n \<le> length text" by auto
          from less.hyps [OF this, of out2] obtain evs
            where evs: "events (parse_loop text n out2) = events out2 @ evs" "tiles text n evs (length text)"
            by blast
          with Some Pair ev unfold pre show ?thesis
            by (auto simp: tiles_append intro!: exI [of _ "pre @ [ev] @ evs"])
        qed
      qed
    qed
  qed
qed

lemma parse_tiles: "tiles text 0 (events (parse text)) (length text)"
  using parse_loop_tiles [of 0 "text" "\<lparr>events = [], warnings = []\<rparr>"] by (auto simp: parse_def)

lemma tiles_event:
  "tiles text a evs b \<Longrightarrow> ev \<in> set evs \<Longrightarrow>
   event_ok text ev \<and> a \<le> event_start ev \<and> event_start ev < event_end ev \<and>
   event_end ev \<le> length text \<and> cut_point text (event_end ev) \<and>
   (cut_point text a \<longrightarrow> cut_point text (event_start ev))"
  by (induction "text" a evs b rule: tiles.induct) fastforce+

lemma cut_point_boundary:
  assumes "str_ok text" "cut_point text i"
  shows "is_char_boundary text i"
proof -
  have "is_char_boundary text i" if "0 < i" "i \<le> length text" "is_ascii (text ! (i - 1))"
    using boundary_after_ascii [OF assms(1), of "i - 1"] that by simp
  with assms(2) show ?thesis
    by (auto simp: cut_point_def intro: boundary_at_ascii)
qed

lemma starts_with_slice: "a \<le> b \<Longrightarrow> slice h a b = p @ q \<Longrightarrow> starts_with p (drop a h)"
  unfolding slice_def starts_with_iff by (metis append.assoc append_take_drop_id)

section \<open>Bodies that carry embeds only\<close>

text \<open>
  From the offset on, every \<open>{{\<close> of the text opens a well-formed embed: the shape the gate
  \<open>embed_only_markers\<close> admits, one constructor per iteration of the scanner.
\<close>

inductive embed_text :: "string \<Rightarrow> nat \<Rightarrow> catalog_id list \<Rightarrow> bool" where
  embed_text_end: "find_from body ''{{'' pos = None \<Longrightarrow> embed_text body pos []"
| embed_text_step:
    "find_from body ''{{'' pos = Some opn \<Longrightarrow> find_from body ''}}'' (opn + 2) = Some close \<Longrightarrow>
     slice body (opn + 2) close = ''embed='' @ raw \<Longrightarrow> catalog_id_parse raw = Inr cid \<Longrightarrow>
     embed_text body (close + 2) embeds \<Longrightarrow> embed_text body pos (cid # embeds)"

text \<open>A warning is never taken back.\<close>

abbreviation warned :: "parse_output \<Rightarrow> bool" where
  "warned out \<equiv> warnings out \<noteq> []"

lemma warned_scan_embeds: "warned out \<Longrightarrow> warned (snd (scan_embeds h t s es nw out))"
proof (induction h t s es nw out rule: scan_embeds.induct)
  case (1 h t s es nw out)
  show ?case
  proof (cases "find_from (take t h) ''{{'' s")
    case None
    with "1.prems" show ?thesis by (subst scan_embeds.simps) simp
  next
    case (Some inner)
    with "1.prems" show ?thesis
      by (cases "embed_close h t (inner + 2)";
          cases "catalog_id_parse (slice h (inner + 2 + 6) (the (embed_close h t (inner + 2))))")
        (simp_all add: scan_embeds.simps [of h t s es nw out] Let_def "1.IH" [OF Some refl])
  qed
qed

lemma warned_parse_allow: "warned (as_out st) \<Longrightarrow> warned (as_out (parse_allow off raws st))"
  by (induction raws arbitrary: st) (auto split: sum.split)

lemma warned_parse_clause: "warned (as_out st) \<Longrightarrow> warned (as_out (parse_clause off c st))"
  using warned_parse_allow
  by (simp add: parse_clause_def Let_def split: option.split prod.split sum.split)

lemma warned_parse_attrs: "warned out \<Longrightarrow> warned (snd (parse_attrs spec off out))"
proof -
  have "warned (as_out st) \<Longrightarrow> warned (as_out (fold (parse_clause off) cs st))" for st cs
    by (induction cs arbitrary: st) (auto simp: warned_parse_clause)
  then show "warned out \<Longrightarrow> warned (snd (parse_attrs spec off out))"
    by (simp add: parse_attrs_def Let_def)
qed

lemma warned_parse_marker: "warned out \<Longrightarrow> warned (fst (parse_marker h opn out))"
  using warned_scan_embeds warned_parse_attrs
  by (simp add: parse_marker_def Let_def case_prod_beta split: option.split sum.split)

lemma warned_parse_loop: "warned out \<Longrightarrow> warned (parse_loop h pos out)"
proof (induction h pos out rule: parse_loop.induct)
  case (1 h pos out)
  show ?case
  proof (cases "pos < length h \<and> find_from h ''{{'' pos \<noteq> None")
    case False
    with "1.prems" show ?thesis by (subst parse_loop.simps) (auto split: option.split)
  next
    case True
    then obtain opn where opn: "pos < length h" "find_from h ''{{'' pos = Some opn" by auto
    define out1 where "out1 = (if pos < opn then push_prose h pos opn out else out)"
    obtain o2 nxt where m: "parse_marker h opn out1 = (o2, nxt)" by fastforce
    have "warned o2"
      using warned_parse_marker [of out1 h opn] "1.prems" m by (simp add: out1_def)
    moreover have "warned (parse_loop h n o2)" if "nxt = Some n" for n
      using "1.IH" [OF opn, of o2 nxt n] m that \<open>warned o2\<close> by (simp add: out1_def)
    moreover have "parse_loop h pos out = (case parse_marker h opn out1 of
        (out', None) \<Rightarrow> out' | (out', Some nxt) \<Rightarrow> parse_loop h nxt out')"
      using opn by (simp add: parse_loop.simps [of h pos] out1_def)
    ultimately show ?thesis using m by (cases nxt) simp_all
  qed
qed

lemma parse_marker_quiet:
  assumes "\<not> warned (fst (parse_marker h opn out))"
    and "events (fst (parse_marker h opn out)) = events out @ [ev]"
    and "embed_only_events [ev] \<noteq> None"
  obtains close raw cid where "find_from h ''}}'' (opn + 2) = Some close"
    "slice h (opn + 2) close = ''embed='' @ raw" "catalog_id_parse raw = Inr cid"
    "parse_marker h opn out = (push_event (Embed opn (close + 2) cid) out, Some (close + 2))"
proof -
  from assms(1) obtain close where close: "find_from h ''}}'' (opn + 2) = Some close"
    by (cases "find_from h ''}}'' (opn + 2)") (auto simp: parse_marker_def)
  let ?attr = "slice h (opn + 2) close"
  from assms(1) close have attr: "newline \<notin> set ?attr" "?attr \<noteq> ''/''"
    by (auto simp: parse_marker_def Let_def split: if_splits)
  show thesis
  proof (cases "strip_prefix ''embed='' ?attr")
    case None
    with assms close attr show thesis
      by (cases "find_from h ''{{/}}'' (close + 2)")
        (auto simp: parse_marker_def Let_def case_prod_beta)
  next
    case (Some raw)
    with assms(1) close attr obtain cid where "catalog_id_parse raw = Inr cid"
      by (cases "catalog_id_parse raw") (auto simp: parse_marker_def Let_def)
    with Some close attr show thesis
      by (intro that [of close raw cid]) (auto simp: parse_marker_def Let_def strip_prefix_Some_iff)
  qed
qed

lemma embed_only_events_append:
  "embed_only_events (xs @ ys) =
     (case embed_only_events xs of None \<Rightarrow> None
      | Some es \<Rightarrow> map_option ((@) es) (embed_only_events ys))"
proof (induction xs rule: embed_only_events.induct)
  case 1
  show ?case by (cases "embed_only_events ys") simp_all
next
  case (2 s e cid evs)
  then show ?case by (cases "embed_only_events ys") (auto split: option.split)
qed auto

lemma parse_loop_embed_text:
  assumes "\<not> warned (parse_loop h pos out)"
    and "events (parse_loop h pos out) = events out @ evs" and "embed_only_events evs = Some es"
    and "pos \<le> length h"
  shows "embed_text h pos es"
  using assms
proof (induction "length h - pos" arbitrary: pos out evs es rule: less_induct)
  case less
  show ?case
  proof (cases "pos < length h \<and> find_from h ''{{'' pos \<noteq> None")
    case False
    with less.prems have none: "find_from h ''{{'' pos = None"
      by (auto simp: find_from_def)
    moreover have "es = []"
      using less.prems none
      by (cases "pos < length h") (auto simp: parse_loop.simps [of h pos] split: if_splits)
    ultimately show ?thesis by (simp add: embed_text_end)
  next
    case True
    then obtain opn where opn: "pos < length h" "find_from h ''{{'' pos = Some opn" by auto
    define out1 where "out1 = (if pos < opn then push_prose h pos opn out else out)"
    note range = find_from_range [OF opn(2), simplified]
    obtain ev where ev: "events (fst (parse_marker h opn out1)) = events out1 @ [ev]"
      using parse_marker_event [OF find_from_starts [OF opn(2)], of out1] range by auto
    have loop: "parse_loop h pos out = (case parse_marker h opn out1 of
        (out', None) \<Rightarrow> out' | (out', Some nxt) \<Rightarrow> parse_loop h nxt out')"
      using opn by (simp add: parse_loop.simps [of h pos] out1_def)
    have quiet: "\<not> warned (fst (parse_marker h opn out1))"
      using less.prems(1) warned_parse_loop unfolding loop by (auto split: prod.splits option.splits)
    obtain pre where pre: "events out1 = events out @ pre" by (cases "pos < opn") (auto simp: out1_def)
    obtain rest where rest: "events (parse_loop h pos out) = events out1 @ [ev] @ rest"
      "\<And>o2 n. parse_marker h opn out1 = (o2, Some n) \<Longrightarrow> n \<le> length h \<Longrightarrow>
         events (parse_loop h n o2) = events o2 @ rest"
    proof (cases "parse_marker h opn out1")
      case (Pair o2 nxt)
      show thesis
      proof (cases "nxt = None \<or> \<not> the nxt \<le> length h")
        case True
        with Pair ev loop that [of "[]"] parse_loop.simps [of h "the nxt" o2] show thesis
          by (cases nxt) auto
      next
        case False
        then obtain n where "nxt = Some n" "n \<le> length h" by auto
        with parse_loop_tiles [of n h o2] Pair ev loop that show thesis by auto
      qed
    qed
    with pre less.prems(2) have "evs = pre @ [ev] @ rest" by simp
    with less.prems(3) embed_only_events_append [of "[ev]" rest] obtain es1 es2 es3 where es: "embed_only_events [ev] = Some es2"
      "embed_only_events rest = Some es3" "embed_only_events pre = Some es1" "es = es1 @ es2 @ es3"
      by (auto simp: embed_only_events_append split: option.splits)
    have "es1 = []" using es(3) pre by (auto simp: out1_def push_prose_def split: if_splits)
    from es(1) obtain close raw cid where m: "find_from h ''}}'' (opn + 2) = Some close"
      "slice h (opn + 2) close = ''embed='' @ raw" "catalog_id_parse raw = Inr cid"
      "parse_marker h opn out1 = (push_event (Embed opn (close + 2) cid) out1, Some (close + 2))"
      by (auto intro: parse_marker_quiet [OF quiet ev])
    note close = find_from_close [OF m(1)]
    have "es2 = [cid]" using m(4) ev es(1) by (auto simp del: eq_commute)
    have "embed_text h (close + 2) es3"
    proof (rule less.hyps)
      show "length h - (close + 2) < length h - pos" using close range opn by simp
      show "\<not> warned (parse_loop h (close + 2) (push_event (Embed opn (close + 2) cid) out1))"
        using less.prems(1) loop m(4) by simp
      show "events (parse_loop h (close + 2) (push_event (Embed opn (close + 2) cid) out1)) =
          events (push_event (Embed opn (close + 2) cid) out1) @ rest"
        using rest(2) m(4) close by simp
    qed (use es close in auto)
    with m opn(2) es(4) \<open>es1 = []\<close> \<open>es2 = [cid]\<close> show ?thesis
      by (auto intro: embed_text_step)
  qed
qed

lemma embed_only_markers_text:
  assumes "embed_only_markers body = Some es"
  shows "embed_text body 0 es"
proof -
  have "\<not> warned (parse_loop body 0 \<lparr>events = [], warnings = []\<rparr>)"
    and "embed_only_events (events (parse_loop body 0 \<lparr>events = [], warnings = []\<rparr>)) = Some es"
    using assms by (auto simp: embed_only_markers_def parse_def Let_def split: if_splits)
  then show ?thesis by (auto intro: parse_loop_embed_text)
qed

text \<open>Inside such a body every pair of braces opens an embed, so none of them is a terminator.\<close>

lemma embed_marker_braces:
  assumes "find_from h ''}}'' (opn + 2) = Some close" "slice h (opn + 2) close = ''embed='' @ raw"
    and "catalog_id_parse raw = Inr cid" "opn + 2 \<le> j" "j < close + 2"
  shows "j < length h \<and> h ! j \<noteq> CHR ''{''"
proof (cases "j < close")
  case True
  note close = find_from_close [OF assms(1)]
  have "h ! j = slice h (opn + 2) close ! (j - (opn + 2))"
    using nth_slice [of "opn + 2" close h "j - (opn + 2)"] close True assms(4) by simp
  then have "h ! j \<in> set (''embed='' @ raw)"
    using assms(2,4) close True by (metis diff_less_mono length_slice nth_mem add_leD1)
  moreover have "CHR ''{'' \<notin> set raw"
    using catalog_id_parse_chars [OF assms(3), of "CHR ''{''"]
    by (auto simp: is_ascii_digit_def is_ascii_lowercase_def byte_def)
  ultimately show ?thesis using close True by auto
next
  case False
  have "starts_with ''}}'' (drop close h)" by (rule find_from_starts [OF assms(1)])
  from starts_with_drop_nth [OF this, of 0] starts_with_drop_nth [OF this, of 1] False assms(5)
  show ?thesis by (cases "j = close") (auto simp: less_Suc_eq eval_nat_numeral dest!: le_neq_implies_less)
qed

lemma embed_text_braces:
  "embed_text h pos es \<Longrightarrow> pos \<le> j \<Longrightarrow> starts_with ''{{'' (drop j h) \<Longrightarrow> starts_with ''{{embed='' (drop j h)"
proof (induction arbitrary: j rule: embed_text.induct)
  case (embed_text_end body pos)
  have "j \<le> length body"
    using embed_text_end.prems(2) by (cases "j \<le> length body") simp_all
  with embed_text_end find_from_None show ?case by blast
next
  case (embed_text_step body pos opn close raw cid embeds)
  consider "j < opn" | "j = opn" | "j = opn + 1" | "opn + 2 \<le> j" "j < close + 2" | "close + 2 \<le> j" by linarith
  then show ?case
  proof cases
    case 1
    with embed_text_step show ?thesis using find_from_least by blast
  next
    case 2
    have "slice body opn (opn + 2) = ''{{''"
      by (rule slice_match_braces [OF find_from_starts [OF embed_text_step.hyps(1)]])
    then have "slice body opn close = ''{{'' @ ''embed='' @ raw"
      using slice_append [of opn "opn + 2" close body] embed_text_step.hyps(3)
        find_from_close [OF embed_text_step.hyps(2)] by simp
    then show ?thesis
      using starts_with_slice [of opn close body "''{{embed=''" raw] 2
        find_from_close [OF embed_text_step.hyps(2)] by simp
  next
    case 3
    have "\<not> starts_with ''{{'' (drop j body)"
      using starts_with_drop_nth [of "''{{''" j body 1] 3 
        embed_marker_braces [OF embed_text_step.hyps(2,3,4), of "opn + 2"]
        find_from_close [OF embed_text_step.hyps(2)] by (auto simp: numeral_2_eq_2)
    with embed_text_step.prems show ?thesis by simp
  next
    case 4
    with embed_marker_braces [OF embed_text_step.hyps(2,3,4), of j]
      starts_with_drop_nth [OF embed_text_step.prems(2), of 0] show ?thesis by simp
  next
    case 5
    with embed_text_step show ?thesis by blast
  qed
qed

lemma starts_with_drop_append:
  "starts_with n (drop j (a @ b)) \<Longrightarrow> j + length n \<le> length a \<Longrightarrow> starts_with n (drop j a)"
  by (auto simp: starts_with_def)

lemma embed_text_no_terminator:
  assumes "embed_text body 0 es" "starts_with ''{{/}}'' (drop j (body @ ''{{/}}'' @ post))"
  shows "length body \<le> j"
proof (rule ccontr)
  assume lt: "\<not> length body \<le> j"
  note nths = starts_with_drop_nth [OF assms(2)]
  show False
  proof (cases "j + 2 \<le> length body")
    case True
    have "starts_with ''{{'' (drop j (body @ ''{{/}}'' @ post))"
      using assms(2) by (auto simp: starts_with_iff)
    from starts_with_drop_append [OF this] True have "starts_with ''{{'' (drop j body)"
      by (simp add: numeral_2_eq_2)
    with embed_text_braces [OF assms(1), of j] have "starts_with ''{{embed='' (drop j body)" by blast
    then have "j + 2 < length body \<and> body ! (j + 2) = CHR ''e''"
      using starts_with_drop_nth [of "''{{embed=''" j body 2] by simp
    with nths [of 2] show False by (simp add: nth_append)
  next
    case False
    with lt have "j + 2 = length body + 1" by simp
    with nths [of 2] show False by (simp add: nth_append)
  qed
qed

lemma scan_embeds_text:
  assumes "embed_text body pos es" "pos \<le> length body"
  shows "scan_embeds (pre @ body @ post) (length pre + length body) (length pre + pos) acc nw out = (acc @ es, out)"
  using assms
proof (induction arbitrary: acc rule: embed_text.induct)
  case (embed_text_end body pos)
  then show ?case by (subst scan_embeds.simps) (simp add: find_from_append)
next
  case (embed_text_step body pos opn close raw cid embeds)
  let ?h = "pre @ body @ post" and ?t = "length pre + length body"
  note close = find_from_close [OF embed_text_step.hyps(2)]
  have sl: "slice ?h (length pre + a) (length pre + b) = slice body a b" if "b \<le> length body" for a b
    using that by (simp add: slice_append_right)
  have "slice body (opn + 2) (length body) = ''embed='' @ raw @ slice body close (length body)"
    using slice_append [of "opn + 2" close "length body" body] close embed_text_step.hyps(3) by simp
  then have "starts_with ''embed='' (slice ?h (length pre + (opn + 2)) ?t)"
    using sl [of "length body" "opn + 2"] by (simp add: starts_with_iff)
  moreover have "find_from (take ?t ?h) ''}}'' (length pre + (opn + 2)) = Some (length pre + close)"
    by (simp add: find_from_append embed_text_step.hyps(2))
  moreover have "newline \<notin> set (slice ?h (length pre + (opn + 2)) (length pre + close))"
    using catalog_id_parse_chars [OF embed_text_step.hyps(4), of newline] close
    by (subst sl) (auto simp: embed_text_step.hyps(3) is_ascii_digit_def is_ascii_lowercase_def byte_def)
  ultimately have ec: "embed_close ?h ?t (length pre + opn + 2) = Some (length pre + close)"
    by (simp add: embed_close_def add.assoc)
  have "slice body (opn + 8) close = drop 6 (slice body (opn + 2) close)"
    by (simp add: slice_def drop_take add.commute)
  then have raw: "slice ?h (length pre + opn + 2 + 6) (length pre + close) = raw"
    using sl [of close "opn + 8"] close embed_text_step.hyps(3) by (simp add: add.assoc)
  have "find_from (take ?t ?h) ''{{'' (length pre + pos) = Some (length pre + opn)"
    by (simp add: find_from_append embed_text_step.hyps(1))
  then have "scan_embeds ?h ?t (length pre + pos) acc nw out =
      scan_embeds ?h ?t (length pre + (close + 2)) (acc @ [cid]) nw out"
    by (subst scan_embeds.simps, unfold Let_def, simp only: option.case ec raw embed_text_step.hyps(4) sum.case)
      (simp only: add.assoc)
  with embed_text_step.IH [of "acc @ [cid]"] close show ?case by simp
qed

lemma find_close_marker:
  assumes "CHR ''}'' \<notin> set attr"
  shows "find_from (pre @ ''{{'' @ attr @ ''}}'' @ rest) ''}}'' (length pre + 2) = Some (length pre + 2 + length attr)"
proof -
  have "find_from (attr @ ''}}'' @ rest) ''}}'' 0 = Some (length attr)"
  proof (rule find_from_eqI)
    fix j assume "j < length attr"
    then have "(attr @ ''}}'' @ rest) ! j \<in> set attr" by (simp add: nth_append)
    with assms show "\<not> starts_with ''}}'' (drop j (attr @ ''}}'' @ rest))"
      using starts_with_drop_nth [of "''}}''" j "attr @ ''}}'' @ rest" 0] by auto
  qed auto
  then show ?thesis
    using find_from_append [of "pre @ ''{{''" "attr @ ''}}'' @ rest" "''}}''" 0]
    by (simp add: numeral_2_eq_2)
qed

lemma find_terminator:
  assumes "embed_text body 0 es"
  shows "find_from (pre @ body @ ''{{/}}'' @ post) ''{{/}}'' (length pre) = Some (length pre + length body)"
proof -
  have "find_from (body @ ''{{/}}'' @ post) ''{{/}}'' 0 = Some (length body)"
  proof (rule find_from_eqI)
    fix j assume "j < length body"
    with embed_text_no_terminator [OF assms, of j post]
    show "\<not> starts_with ''{{/}}'' (drop j (body @ ''{{/}}'' @ post))" by linarith
  qed auto
  then show ?thesis
    using find_from_append [of pre "body @ ''{{/}}'' @ post" "''{{/}}''" 0] by simp
qed

lemma parse_marker_region:
  assumes attr: "CHR ''}'' \<notin> set attr" "newline \<notin> set attr" "attr \<noteq> ''/''" "\<not> starts_with ''embed='' attr"
    and quiet: "snd (parse_attrs attr (length pre) out) = out" and body: "embed_text body 0 es"
  shows "parse_marker (pre @ ''{{'' @ attr @ ''}}'' @ body @ ''{{/}}'' @ post) (length pre) out =
    (push_event (Region (length pre) (length pre + length attr + length body + 9) (marker_attrs attr)
       (length pre + length attr + 4) (length pre + length attr + 4 + length body) body es) out,
     Some (length pre + length attr + length body + 9))"
proof -
  let ?h = "pre @ ''{{'' @ attr @ ''}}'' @ body @ ''{{/}}'' @ post"
  let ?pre = "pre @ ''{{'' @ attr @ ''}}''"
  have h: "?h = ?pre @ body @ ''{{/}}'' @ post" by simp
  have len: "length ?pre = length pre + 2 + length attr + 2" by simp
  have close: "find_from ?h ''}}'' (length pre + 2) = Some (length pre + 2 + length attr)"
    using find_close_marker [OF attr(1)] by simp
  have sattr: "slice ?h (length pre + 2) (length pre + 2 + length attr) = attr"
    using slice_append_left [of "pre @ ''{{''" "attr @ ''}}'' @ body @ ''{{/}}'' @ post" 0 "length attr"]
    by (simp add: slice_def numeral_2_eq_2)
  have trm: "find_from ?h ''{{/}}'' (length pre + 2 + length attr + 2) =
      Some (length pre + 2 + length attr + 2 + length body)"
    using find_terminator [OF body, of ?pre post] unfolding h len .
  have sbody: "slice ?h (length pre + 2 + length attr + 2) (length pre + 2 + length attr + 2 + length body) = body"
    using slice_append_left [of ?pre "body @ ''{{/}}'' @ post" 0 "length body"]
    unfolding h len by (simp add: slice_def)
  have scan: "scan_embeds ?h (length pre + 2 + length attr + 2 + length body)
      (length pre + 2 + length attr + 2) [] False out = (es, out)"
    using scan_embeds_text [OF body, of ?pre "''{{/}}'' @ post" "[]" False out] unfolding h len by simp
  have strip: "strip_prefix ''embed='' attr = None" using attr(4) by (simp add: strip_prefix_None_iff)
  have "parse_marker ?h (length pre) out =
    (push_event (Region (length pre) (length pre + 2 + length attr + 2 + length body + 5) (marker_attrs attr)
       (length pre + 2 + length attr + 2) (length pre + 2 + length attr + 2 + length body) body es) out,
     Some (length pre + 2 + length attr + 2 + length body + 5))"
    unfolding parse_marker_def Let_def close option.case sattr strip trm sbody scan prod.case case_prod_beta
    using attr(2,3) quiet by (simp add: parse_attrs_fst)
  then show ?thesis by (simp add: add_ac)
qed

lemma parse_single_region:
  assumes "CHR ''}'' \<notin> set attr" "newline \<notin> set attr" "attr \<noteq> ''/''" "\<not> starts_with ''embed='' attr"
    and "snd (parse_attrs attr 0 no_output) = no_output" and "embed_only_markers body = Some es"
  shows "parse (''{{'' @ attr @ ''}}'' @ body @ ''{{/}}'') =
    \<lparr>events = [Region 0 (length attr + length body + 9) (marker_attrs attr)
                (length attr + 4) (length attr + 4 + length body) body es], warnings = []\<rparr>"
proof -
  let ?h = "''{{'' @ attr @ ''}}'' @ body @ ''{{/}}''"
  have "find_from ?h ''{{'' 0 = Some 0" by (rule find_from_eqI) auto
  moreover have "parse_marker ?h 0 no_output =
     (push_event (Region 0 (length attr + length body + 9) (marker_attrs attr)
       (length attr + 4) (length attr + 4 + length body) body es) no_output,
     Some (length attr + length body + 9))"
    using parse_marker_region [of attr "[]" no_output body es "[]"] assms embed_only_markers_text by simp
  moreover have "parse_loop ?h (length attr + length body + 9) out = out" for out
    by (subst parse_loop.simps) simp
  ultimately show ?thesis
    unfolding parse_def by (subst parse_loop.simps) (simp add: no_output_def push_event_def)
qed

section \<open>Reading back what the engine writes\<close>

text \<open>Text that can stand inside a marker clause: no clause, list or marker delimiter.\<close>

definition marker_safe :: "string \<Rightarrow> bool" where
  "marker_safe s \<longleftrightarrow> (\<forall>c \<in> set s. \<not> is_ascii_whitespace c \<and> c \<noteq> CHR '','' \<and> c \<noteq> CHR ''}'')"

definition principal_safe :: "principal \<Rightarrow> bool" where
  "principal_safe p \<longleftrightarrow> principal_id p \<noteq> [] \<and> marker_safe (principal_id p)"

lemma marker_safe_simps [simp]:
  "marker_safe []"
  "marker_safe (c # s) \<longleftrightarrow> \<not> is_ascii_whitespace c \<and> c \<noteq> CHR '','' \<and> c \<noteq> CHR ''}'' \<and> marker_safe s"
  "marker_safe (s @ t) \<longleftrightarrow> marker_safe s \<and> marker_safe t"
  by (auto simp: marker_safe_def)

lemma principal_safe_wire: "principal_safe p \<Longrightarrow> marker_safe (principal_to_string p)"
  by (cases p) (auto simp: principal_safe_def is_ascii_whitespace_def)

lemma principal_safe_parse: "principal_safe p \<Longrightarrow> principal_from_str (principal_to_string p) = Inr p"
  by (simp add: principal_safe_def principal_from_str_to_string)

lemma fact_id_safe: "fact_id_parse s = Inr f \<Longrightarrow> marker_safe s"
  unfolding marker_safe_def
  by (auto dest!: fact_id_parse_shape(2) simp: is_ascii_lower_hex_def is_ascii_whitespace_def byte_def)

lemma parse_clause_simps:
  "principal_safe p \<Longrightarrow> parse_clause off (''subject='' @ principal_to_string p) st =
     st\<lparr>as_attrs := set_subject p (as_attrs st), as_from_canonical := True\<rparr>"
  "principal_safe p \<Longrightarrow> parse_clause off (''sender='' @ principal_to_string p) st =
     st\<lparr>as_attrs := (as_attrs st)\<lparr>ra_sender := Some p\<rparr>\<rparr>"
  "fact_id_parse s = Inr f \<Longrightarrow> parse_clause off (''f='' @ s) st =
     st\<lparr>as_attrs := (as_attrs st)\<lparr>ra_fact_id := Some f\<rparr>\<rparr>"
  "trim nm = nm \<Longrightarrow> nm \<noteq> [] \<Longrightarrow> parse_clause off (''external='' @ nm) st =
     st\<lparr>as_attrs := (as_attrs st)\<lparr>ra_subject_external := Some nm\<rparr>\<rparr>"
  "parse_clause off (''allow='' @ v) st = parse_allow off (split_on CHR '','' v) st"
  by (simp_all add: parse_clause_def split_once_def principal_safe_parse del: principal_to_string.simps)

lemma parse_allow_principals:
  "\<forall>p \<in> set ps. principal_safe p \<Longrightarrow>
   parse_allow off (map principal_to_string ps) st = st\<lparr>as_attrs := fold push_allow ps (as_attrs st)\<rparr>"
  by (induction ps arbitrary: st) (simp_all add: principal_safe_parse)

lemma fold_push_allow:
  "fold push_allow ps a = a\<lparr>ra_acl := (ra_acl a)\<lparr>acl_allow := acl_allow (ra_acl a) @ ps\<rparr>\<rparr>"
  by (induction ps arbitrary: a) (simp_all add: push_allow_def)

lemma parse_clause_allow:
  assumes "\<forall>p \<in> set ps. principal_safe p" "ps \<noteq> []"
  shows "parse_clause off (''allow='' @ join '','' (map principal_to_string ps)) st =
     st\<lparr>as_attrs := fold push_allow ps (as_attrs st)\<rparr>"
proof -
  have "CHR '','' \<notin> set (principal_to_string p)" if "p \<in> set ps" for p
    using principal_safe_wire assms(1) that by (auto simp: marker_safe_def)
  then have "split_on CHR '','' (join '','' (map principal_to_string ps)) = map principal_to_string ps"
    using assms(2) by (intro split_on_join) auto
  then show ?thesis by (simp only: parse_clause_simps(5) parse_allow_principals [OF assms(1)])
qed

lemma parse_attrs_clauses:
  assumes "\<forall>w \<in> set ws. w \<noteq> [] \<and> (\<forall>c \<in> set w. \<not> is_ascii_whitespace c)"
  shows "parse_attrs (join '' '' ws) off out =
    (let st = fold (parse_clause off) ws
                \<lparr>as_attrs = default_region_attrs, as_from_canonical = False, as_out = out\<rparr>
     in (as_attrs st, as_out st))"
  by (simp only: parse_attrs_def split_ascii_whitespace_join [OF assms])

text \<open>The attribute text of the two writers reads back quietly.\<close>

definition written_attrs ::
  "fact_id \<Rightarrow> principal \<Rightarrow> principal list \<Rightarrow> principal option \<Rightarrow> string option \<Rightarrow> region_attrs" where
  "written_attrs fid subject allow sender external =
     \<lparr>ra_acl = \<lparr>acl_subject = Some subject, acl_allow = allow, acl_excluded = []\<rparr>,
      ra_sender = sender, ra_fact_id = Some fid, ra_subject_external = external\<rparr>"

lemma full_marker_attrs_mem:
  assumes "w \<in> set (full_marker_attrs fid subject allow sender external)"
  shows "w = ''subject='' @ principal_to_string subject \<or>
    (\<exists>nm. external = Some nm \<and> w = ''external='' @ trim nm) \<or>
    w = ''allow='' @ join '','' (map principal_to_string allow) \<or>
    (\<exists>s. sender = Some s \<and> w = ''sender='' @ principal_to_string s) \<or>
    w = ''f='' @ fact_id_str fid"
  using assms unfolding full_marker_attrs_def
  by (cases external; cases sender)
    (simp_all del: append_Cons append_Nil append.simps principal_to_string.simps split: if_splits, blast+)

lemma full_marker_attrs_chars:
  assumes "principal_safe subject" "\<forall>p \<in> set allow. principal_safe p" "pred_option principal_safe sender"
    and "pred_option (\<lambda>nm. trim nm = nm \<and> nm \<noteq> [] \<and> marker_safe nm) external"
    and "fact_id_parse (fact_id_str fid) = Inr fid"
    and "w \<in> set (full_marker_attrs fid subject allow sender external)"
  shows "w \<noteq> [] \<and> (\<forall>c \<in> set w. \<not> is_ascii_whitespace c \<and> c \<noteq> CHR ''}'')"
proof -
  have joined: "\<not> is_ascii_whitespace c \<and> c \<noteq> CHR ''}''"
    if "c \<in> set (join '','' (map principal_to_string allow))" for c
    using that set_join [of "'',''" "map principal_to_string allow"] assms(2) principal_safe_wire
    by (fastforce simp: marker_safe_def is_ascii_whitespace_def)
  have wire: "principal_safe p \<Longrightarrow> c \<in> set (principal_to_string p) \<Longrightarrow> \<not> is_ascii_whitespace c \<and> c \<noteq> CHR ''}''" for p c
    using principal_safe_wire by (auto simp: marker_safe_def)
  have fid: "c \<in> set (fact_id_str fid) \<Longrightarrow> \<not> is_ascii_whitespace c \<and> c \<noteq> CHR ''}''" for c
    using fact_id_safe [OF assms(5)] by (auto simp: marker_safe_def)
  have lits: "\<forall>c \<in> set ''subject='' \<union> set ''external='' \<union> set ''allow='' \<union> set ''sender='' \<union> set ''f=''.
      \<not> is_ascii_whitespace c \<and> c \<noteq> CHR ''}''"
    by (simp add: is_ascii_whitespace_def)
  from full_marker_attrs_mem [OF assms(6)] lits joined fid wire assms(1,3,4)
  show ?thesis by (elim disjE exE) (auto simp: marker_safe_def simp del: principal_to_string.simps)
qed

lemma parse_full_marker_attrs:
  assumes "principal_safe subject" "\<forall>p \<in> set allow. principal_safe p" "pred_option principal_safe sender"
    and "pred_option (\<lambda>nm. trim nm = nm \<and> nm \<noteq> [] \<and> marker_safe nm) external"
    and "fact_id_parse (fact_id_str fid) = Inr fid"
  shows "parse_attrs (join '' '' (full_marker_attrs fid subject allow sender external)) off out =
    (written_attrs fid subject allow sender external, out)"
proof -
  have "\<forall>w \<in> set (full_marker_attrs fid subject allow sender external).
      w \<noteq> [] \<and> (\<forall>c \<in> set w. \<not> is_ascii_whitespace c)"
    using full_marker_attrs_chars [OF assms] by blast
  note clauses = parse_attrs_clauses [OF this]
  note steps = parse_clause_simps(1-4) parse_clause_allow [OF assms(2)] fold_push_allow
    set_subject_def default_region_attrs_def default_acl_def written_attrs_def
  show ?thesis
    unfolding clauses unfolding full_marker_attrs_def Let_def
    using assms by (cases external; cases sender; cases "allow = []")
      (simp_all add: steps del: principal_to_string.simps append_Cons append_Nil append.simps)
qed

section \<open>Properties of the parser\<close>

text \<open>
  the events of a page tile it. They are contiguous, non-empty and in order, they cover the input
  from its first to its last byte, each one describes exactly the bytes it covers, and putting the
  covered slices side by side gives the page back: no byte of a page is lost or served twice, however
  malformed its markers are.
\<close>

lemma parse_covers_input:
  "tiles text 0 (events (parse text)) (length text) \<and>
   concat (map (\<lambda>ev. slice text (event_start ev) (event_end ev)) (events (parse text))) = text"
  using parse_tiles [of "text"] tiles_concat [OF parse_tiles [of "text"]] by simp

text \<open>
  slicing a page at the offsets of its events never panics. In a valid UTF-8 input every event's
  start and end, and the bounds of every region body, are on character boundaries within the text.
\<close>

lemma parse_offsets_on_boundaries:
  assumes "str_ok text" "ev \<in> set (events (parse text))"
  shows "checked_slice text (event_start ev) (event_end ev) \<noteq> None \<and>
         (\<forall>s e attrs bs be body embeds.
            ev = Region s e attrs bs be body embeds \<longrightarrow> checked_slice text bs be = Some body)"
proof -
  have ev: "event_ok text ev" "event_start ev < event_end ev" "event_end ev \<le> length text"
    "cut_point text (event_end ev)" "cut_point text (event_start ev)"
    using tiles_event [OF parse_tiles assms(2)] by (auto simp: cut_point_def)
  have "checked_slice text bs be = Some body" if region: "ev = Region s e attrs bs be body embeds"
    for s e attrs bs be body embeds
  proof -
    from region ev(1) obtain attr where shape: "slice text s e = ''{{'' @ attr @ ''}}'' @ body @ ''{{/}}''"
      and bs: "bs = s + 4 + length attr" and be: "be = bs + length body" by auto
    from region ev(2,3) have se: "s \<le> e" "e \<le> length text" by auto
    have at: "starts_with p (drop (s + length u) text)"
      if "''{{'' @ attr @ ''}}'' @ body @ ''{{/}}'' = u @ p @ v" for u p v
      using starts_with_slice [of s e "text" "u @ p" v] se shape that
      by (auto simp: starts_with_iff) (metis add.commute append_eq_conv_conj drop_drop)
    have "starts_with ''}}'' (drop (s + length (''{{'' @ attr)) text)"
      by (rule at [of _ _ "body @ ''{{/}}''"]) simp
    from cut_after_braces [OF this] have "cut_point text bs"
      using bs by (simp add: is_ascii_def byte_def eval_nat_numeral)
    moreover have "starts_with ''{{/}}'' (drop (s + length (''{{'' @ attr @ ''}}'' @ body)) text)"
      by (rule at [of _ _ "[]"]) simp
    then have "starts_with ''{{/}}'' (drop be text)"
      using bs be by (simp add: eval_nat_numeral add.assoc)
    then have "cut_point text be"
      using starts_with_drop_nth [of "''{{/}}''" be "text" 0] by (simp add: cut_point_def is_ascii_def byte_def)
    moreover have "e = be + 5"
      using arg_cong [OF shape, of length] bs be se by simp
    moreover have "starts_with body (drop (s + length (''{{'' @ attr @ ''}}'')) text)"
      by (rule at [of _ _ "''{{/}}''"]) simp
    from slice_match [OF this] have "slice text bs be = body"
      using bs be by (simp add: eval_nat_numeral add.assoc)
    ultimately show ?thesis
      using cut_point_boundary [OF assms(1)] be se by (simp add: checked_slice_def)
  qed
  with ev cut_point_boundary [OF assms(1)] show ?thesis by (simp add: checked_slice_def)
qed

definition sample_page :: string where
  "sample_page = ''Hi {{subject=user:bob}}secret{{/}}''"

lemma parse_offsets_on_boundaries_witness:
  "checked_slice sample_page 23 29 = Some ''secret''"
proof -
  let ?ev = "Region 3 34 (marker_attrs ''subject=user:bob'') 23 29 ''secret'' []"
  have "str_ok sample_page" and "?ev \<in> set (events (parse sample_page))" by code_simp+
  from parse_offsets_on_boundaries [OF this] show ?thesis by simp
qed

lemma parse_render_marker:
  assumes "fact_id_parse (fact_id_str fid) = Inr fid" "embed_only_markers body = Some embeds"
  shows "parse (render_marker fid body) =
    \<lparr>events = [Region 0 (length body + 47) (default_region_attrs\<lparr>ra_fact_id := Some fid\<rparr>)
                42 (42 + length body) body embeds], warnings = []\<rparr>"
proof -
  let ?attr = "''f='' @ fact_id_str fid"
  note safe = fact_id_safe [OF assms(1)]
  have len: "length ?attr = 38" using fact_id_parse_shape(1) [OF assms(1)] by simp
  have "\<forall>w \<in> set [?attr]. w \<noteq> [] \<and> (\<forall>c \<in> set w. \<not> is_ascii_whitespace c)"
    using safe by (auto simp: marker_safe_def is_ascii_whitespace_def)
  from parse_attrs_clauses [OF this] have attrs: "parse_attrs ?attr off out =
      (default_region_attrs\<lparr>ra_fact_id := Some fid\<rparr>, out)" for off out
    by (simp add: parse_clause_simps(3) [OF assms(1)] del: append_Cons)
  have "CHR ''}'' \<notin> set ?attr" "newline \<notin> set ?attr"
    using safe by (auto simp: marker_safe_def is_ascii_whitespace_def)
  then have "parse (''{{'' @ ?attr @ ''}}'' @ body @ ''{{/}}'') =
    \<lparr>events = [Region 0 (length ?attr + length body + 9) (marker_attrs ?attr)
                (length ?attr + 4) (length ?attr + 4 + length body) body embeds], warnings = []\<rparr>"
    by (rule parse_single_region) (use attrs assms(2) in \<open>simp_all del: append_Cons, simp_all\<close>)
  then show ?thesis
    unfolding len marker_attrs_def attrs by (simp add: render_marker_def add.commute)
qed

text \<open>
  C24: a captured body cannot break out of its region. When the gate admits a body (embeds are the
  only markers it carries), the marker the engine writes around it parses back to exactly one region,
  with that body byte for byte, those embeds, that fact id and no other attribute, without a warning.
\<close>

theorem captured_body_stays_in_region:
  assumes "fact_id_parse (fact_id_str fid) = Inr fid" "embed_only_markers body = Some embeds"
  shows "parse (render_marker fid body) =
    \<lparr>events = [Region 0 (length body + 47) (default_region_attrs\<lparr>ra_fact_id := Some fid\<rparr>)
                42 (42 + length body) body embeds], warnings = []\<rparr>"
  using assms by (rule parse_render_marker)

definition sample_fact :: fact_id where
  "sample_fact = FactId ''0190f3c2-7a4e-7c31-9b02-2f6a1c8e5d01''"

theorem captured_body_stays_in_region_witness:
  "parse (render_marker sample_fact ''lunch {{embed=c-2026-01-02-img-001.jpg}}'') =
    \<lparr>events = [Region 0 87 (default_region_attrs\<lparr>ra_fact_id := Some sample_fact\<rparr>) 42 82
                ''lunch {{embed=c-2026-01-02-img-001.jpg}}'' [CatalogId ''c-2026-01-02-img-001.jpg'']],
     warnings = []\<rparr>"
proof -
  have "fact_id_parse (fact_id_str sample_fact) = Inr sample_fact"
    and "embed_only_markers ''lunch {{embed=c-2026-01-02-img-001.jpg}}'' =
      Some [CatalogId ''c-2026-01-02-img-001.jpg'']"
    by code_simp+
  from captured_body_stays_in_region [OF this] show ?thesis by simp
qed

text \<open>
  C39: the export marker round-trips. For principals and an external name without white space, commas
  or braces, parsing the full marker gives back the subject, the audience, the author, the external
  name, the fact id and the body of the exported fact, without a warning.
\<close>

theorem full_marker_roundtrip:
  assumes "principal_safe subject" "\<forall>p \<in> set allow. principal_safe p" "pred_option principal_safe sender"
    and "pred_option (\<lambda>nm. trim nm = nm \<and> nm \<noteq> [] \<and> marker_safe nm) external"
    and "fact_id_parse (fact_id_str fid) = Inr fid" "embed_only_markers body = Some embeds"
  shows "\<exists>s e bs be.
    parse (render_full_marker fid subject allow sender external body) =
      \<lparr>events = [Region s e
          \<lparr>ra_acl = \<lparr>acl_subject = Some subject, acl_allow = allow, acl_excluded = []\<rparr>,
           ra_sender = sender, ra_fact_id = Some fid, ra_subject_external = external\<rparr> bs be body embeds],
       warnings = []\<rparr>"
proof -
  let ?ws = "full_marker_attrs fid subject allow sender external"
  let ?attr = "join '' '' ?ws"
  note attrs = parse_full_marker_attrs [OF assms(1-5)]
  have "c \<noteq> CHR ''}'' \<and> c \<noteq> newline" if "c \<in> set ?attr" for c
    using that set_join [of "'' ''" ?ws] full_marker_attrs_chars [OF assms(1-5)]
    by (fastforce simp: is_ascii_whitespace_def)
  then have chars: "CHR ''}'' \<notin> set ?attr" "newline \<notin> set ?attr" by blast+
  obtain rest where "?attr = ''subject='' @ rest"
    by (cases "tl ?ws") (auto simp: full_marker_attrs_def split: option.splits)
  then have "?attr \<noteq> ''/''" "\<not> starts_with ''embed='' ?attr" by simp_all
  from parse_single_region [OF chars this _ assms(6)] attrs show ?thesis
    by (auto simp: render_full_marker_def marker_attrs_def written_attrs_def)
qed

theorem full_marker_roundtrip_witness:
  "\<exists>s e bs be.
    parse (render_full_marker sample_fact (User ''bob'') [Group ''family'', global_principal]
             (Some (User ''alice'')) (Some ''Zoe'') ''hi'') =
      \<lparr>events = [Region s e
          \<lparr>ra_acl = \<lparr>acl_subject = Some (User ''bob''), acl_allow = [Group ''family'', global_principal], acl_excluded = []\<rparr>,
           ra_sender = Some (User ''alice''), ra_fact_id = Some sample_fact, ra_subject_external = Some ''Zoe''\<rparr>
          bs be ''hi'' []],
       warnings = []\<rparr>"
proof -
  have "principal_safe (User ''bob'')" "\<forall>p \<in> set [Group ''family'', global_principal]. principal_safe p"
    by code_simp+
  moreover have "pred_option principal_safe (Some (User ''alice''))"
    "pred_option (\<lambda>nm. trim nm = nm \<and> nm \<noteq> [] \<and> marker_safe nm) (Some ''Zoe'')"
    unfolding option.pred_inject by code_simp+
  moreover have "fact_id_parse (fact_id_str sample_fact) = Inr sample_fact"
    "embed_only_markers ''hi'' = Some []"
    by code_simp+
  ultimately show ?thesis by (rule full_marker_roundtrip)
qed

text \<open>
  An external name with a space does not survive the export marker: the clause splitter cuts it and
  the rest of the name is reported as an attribute without \<open>=\<close>.
\<close>

lemma external_name_with_space_is_cut:
  "case events (parse (render_full_marker sample_fact (User ''bob'') [] None (Some ''Mario Rossi'') ''hi'')) of
     [Region _ _ attrs _ _ _ _] \<Rightarrow> ra_subject_external attrs = Some ''Mario''
   | _ \<Rightarrow> False"
  by code_simp

end
