(* ===== verification/Mwe_Wiki.thy ===== *)
theory Mwe_Wiki
  imports Mwe_Types
begin

text \<open>
  The page-level vocabulary of \<open>crates/mwe-core/src/wiki.rs\<close>: page styles, the reserved page names and
  the predicates that recognise them, the lines the engine itself writes on a page, the split of a
  markdown file into frontmatter and body, and the fields of a wiki's metadata the renderer reads.
\<close>

section \<open>Page styles\<close>

datatype page_style = Prosa | ProsaTecnica | Lista

fun page_style_as_str :: "page_style \<Rightarrow> string" where
  "page_style_as_str Prosa = ''prosa''"
| "page_style_as_str ProsaTecnica = ''prosa-tecnica''"
| "page_style_as_str Lista = ''lista''"

definition page_style_parse :: "string \<Rightarrow> page_style option" where
  "page_style_parse raw =
     (let s = map to_ascii_lower (trim raw)
      in if s = ''prosa'' then Some Prosa
         else if s = ''prosa-tecnica'' then Some ProsaTecnica
         else if s = ''lista'' then Some Lista
         else None)"

definition page_style_parse_lenient :: "string option \<Rightarrow> page_style option" where
  "page_style_parse_lenient raw =
     (case map_option trim raw of
        None \<Rightarrow> None
      | Some s \<Rightarrow> if s = [] then None else page_style_parse s)"

section \<open>Reserved pages\<close>

definition PROFILE_FILENAME :: string where
  "PROFILE_FILENAME = ''@profile.md''"

definition RULES_FILENAME :: string where
  "RULES_FILENAME = ''@rules.md''"

definition PROJECTS_FILENAME :: string where
  "PROJECTS_FILENAME = ''@projects.md''"

definition PROJECT_DIARY_FILENAME :: string where
  "PROJECT_DIARY_FILENAME = ''@projects_diary.md''"

text \<open>
  \<open>Path::file_name\<close> and \<open>Path::file_stem\<close> of the standard library (Unix): the last component, with empty
  and \<open>.\<close> components skipped and none for \<open>..\<close>; the stem drops the last extension of a name that
  does not start with its only dot.
\<close>

definition file_name :: "string \<Rightarrow> string option" where
  "file_name path =
     (let comps = filter (\<lambda>c. c \<noteq> [] \<and> c \<noteq> ''.'') (split_on CHR ''/'' path)
      in if comps = [] \<or> last comps = ''..'' then None else Some (last comps))"

definition file_stem :: "string \<Rightarrow> string option" where
  "file_stem path =
     (case file_name path of
        None \<Rightarrow> None
      | Some name \<Rightarrow>
          (case rsplit_once CHR ''.'' name of
             None \<Rightarrow> Some name
           | Some (stem, ext) \<Rightarrow> if stem = [] then Some name else Some stem))"

definition names_page :: "string \<Rightarrow> string \<Rightarrow> bool" where
  "names_page source_path name =
     (case file_name source_path of
        None \<Rightarrow> False
      | Some lst \<Rightarrow>
          lst = name \<or> (case strip_prefix ''@'' name of None \<Rightarrow> False | Some bare \<Rightarrow> lst = bare))"

definition is_identity_card_page :: "string \<Rightarrow> bool" where
  "is_identity_card_page source_path = names_page source_path PROFILE_FILENAME"

definition is_rules_page :: "string \<Rightarrow> bool" where
  "is_rules_page source_path = names_page source_path RULES_FILENAME"

definition is_projects_page :: "string \<Rightarrow> bool" where
  "is_projects_page source_path = names_page source_path PROJECTS_FILENAME"

definition is_project_diary_page :: "string \<Rightarrow> bool" where
  "is_project_diary_page source_path = names_page source_path PROJECT_DIARY_FILENAME"

definition RESERVED_PAGE_STEMS :: "string list" where
  "RESERVED_PAGE_STEMS = [''rules'', ''projects'', ''project_diary'', ''projects_diary'', ''profile'']"

definition is_reserved_page_stem :: "string \<Rightarrow> bool" where
  "is_reserved_page_stem stem \<longleftrightarrow> starts_with ''@'' stem \<or> stem \<in> set RESERVED_PAGE_STEMS"

definition names_reserved_page :: "string \<Rightarrow> bool" where
  "names_reserved_page page =
     is_some_and (\<lambda>stem. is_reserved_page_stem (map to_ascii_lower stem)) (file_stem page)"

definition is_signpost_page :: "string \<Rightarrow> bool" where
  "is_signpost_page source_path \<longleftrightarrow> is_projects_page source_path \<or> is_project_diary_page source_path"

definition is_channel_page :: "string \<Rightarrow> bool" where
  "is_channel_page source_path \<longleftrightarrow> is_rules_page source_path \<or> is_signpost_page source_path"

definition names_engine_file :: "string \<Rightarrow> bool" where
  "names_engine_file page = is_some_and (starts_with ''_'') (file_name page)"

section \<open>Lines the engine writes\<close>

definition WITHDRAWN_NOTE_PREFIX :: string where
  "WITHDRAWN_NOTE_PREFIX = ''_withdrawn on ''"

definition withdrawn_note :: "string \<Rightarrow> string" where
  "withdrawn_note on = WITHDRAWN_NOTE_PREFIX @ on @ ''_''"

abbreviation middle_dot :: string where
  "middle_dot \<equiv> [CHR 0xC2, CHR 0xB7]"

definition thematic_break_of :: "string \<Rightarrow> string \<Rightarrow> bool" where
  "thematic_break_of marker trimmed \<longleftrightarrow>
     3 \<le> length (filter (\<lambda>c. c = marker) (utf8_chars trimmed)) \<and>
     list_all (\<lambda>c. c = marker \<or> is_whitespace c) (utf8_chars trimmed)"

definition link_filler :: "string \<Rightarrow> bool" where
  "link_filler s \<longleftrightarrow> list_all (\<lambda>c. c = middle_dot \<or> is_whitespace c) (utf8_chars s)"

text \<open>The loop that cuts the links out of a line: what is left, and whether a link was seen.\<close>

function cut_links :: "string \<Rightarrow> bool \<Rightarrow> string \<times> bool" where
  "cut_links rest saw_a_link =
     (case find_sub ''[['' rest of
        None \<Rightarrow> (rest, saw_a_link)
      | Some open \<Rightarrow>
        (case find_sub '']]'' (drop open rest) of
           None \<Rightarrow> (rest, saw_a_link)
         | Some close \<Rightarrow>
             if \<not> link_filler (take open rest) then (rest, saw_a_link)
             else cut_links (drop (open + close + 2) rest) True))"
  by pat_completeness auto

termination
  by (relation "measure (\<lambda>(rest, _). length rest)") (auto dest!: find_sub_bound)

declare cut_links.simps [simp del]

definition is_engine_furniture :: "string \<Rightarrow> bool" where
  "is_engine_furniture line =
     (let trimmed = trim line
      in if trimmed = [] then False
         else if starts_with WITHDRAWN_NOTE_PREFIX trimmed \<and> ends_with ''_'' trimmed then True
         else if list_ex (\<lambda>marker. thematic_break_of marker trimmed) [''-'', ''*'', ''_''] then True
         else (let (rest, saw_a_link) = cut_links trimmed False
               in saw_a_link \<and> link_filler rest))"

section \<open>Frontmatter\<close>

record markdown_doc =
  md_frontmatter :: string
  md_body :: string

definition strip_fence_line :: "string \<Rightarrow> string option" where
  "strip_fence_line raw =
     (case strip_prefix (''---'' @ [newline]) raw of
        Some rest \<Rightarrow> Some rest
      | None \<Rightarrow> strip_prefix (''---'' @ [carriage_return, newline]) raw)"

definition trim_end_cr :: "string \<Rightarrow> string" where
  "trim_end_cr s = rev (dropWhile (\<lambda>c. c = carriage_return) (rev s))"

function markdown_fence :: "string \<Rightarrow> nat \<Rightarrow> markdown_doc option" where
  "markdown_fence rest line_start =
     (let line_end = (case find_from rest [newline] line_start of None \<Rightarrow> length rest | Some i \<Rightarrow> i);
          line_clean = trim_end_cr (slice rest line_start line_end)
      in if line_clean = ''---'' then
           (let frontmatter = (if line_start = 0 then [] else trim_end_cr (take (line_start - 1) rest));
                body_start = (if line_end < length rest then line_end + 1 else length rest)
            in Some \<lparr>md_frontmatter = frontmatter, md_body = drop body_start rest\<rparr>)
         else if length rest \<le> line_end then None
         else markdown_fence rest (line_end + 1))"
  by pat_completeness auto

termination
  by (relation "measure (\<lambda>(rest, line_start). length rest - line_start)")
    (auto split: option.splits dest!: find_from_range)

declare markdown_fence.simps [simp del]

definition markdown_doc_parse :: "string \<Rightarrow> markdown_doc option" where
  "markdown_doc_parse raw =
     (case strip_fence_line raw of None \<Rightarrow> None | Some rest \<Rightarrow> markdown_fence rest 0)"

definition doc_body :: "string \<Rightarrow> string" where
  "doc_body raw = (case markdown_doc_parse raw of None \<Rightarrow> raw | Some d \<Rightarrow> md_body d)"

section \<open>Wiki metadata\<close>

definition IDENTITY_WIKI_TYPE :: string where
  "IDENTITY_WIKI_TYPE = ''wiki-user''"

text \<open>The fields of \<open>WikiMeta\<close> that decide who reads how much of a page.\<close>

record wiki_meta =
  wm_wiki_id :: wiki_id
  wm_wiki_type :: string
  wm_parent_wiki_id :: "wiki_id option"
  wm_smart :: bool
  wm_is_agent :: bool

section \<open>Facts about pages\<close>

lemma markdown_fence_suffix:
  "markdown_fence rest k = Some d \<Longrightarrow> \<exists>p. rest = p @ md_body d"
proof (induction rest k rule: markdown_fence.induct)
  case (1 rest k)
  have drop_suffix: "\<exists>p. rest = p @ drop n rest" for n by (metis append_take_drop_id)
  from "1.prems" "1.IH" drop_suffix show ?case
    by (subst (asm) markdown_fence.simps) (auto simp: Let_def split: if_splits)
qed

lemma doc_body_suffix: "\<exists>p. raw = p @ doc_body raw"
proof (cases "markdown_doc_parse raw")
  case None
  then show ?thesis by (simp add: doc_body_def)
next
  case (Some d)
  then obtain rest where "strip_fence_line raw = Some rest" "markdown_fence rest 0 = Some d"
    by (auto simp: markdown_doc_parse_def split: option.splits)
  then obtain p q where "raw = q @ rest" "rest = p @ md_body d"
    using markdown_fence_suffix
    by (fastforce simp: strip_fence_line_def strip_prefix_Some_iff split: option.splits)
  with Some show ?thesis by (simp add: doc_body_def)
qed

text \<open>
  The style of a page survives being written and read, and reading accepts nothing but the three
  styles, in any letter case and with surrounding white space.
\<close>

lemma page_style_roundtrip:
  "page_style_parse (page_style_as_str st) = Some st \<and>
   (page_style_parse raw = Some st \<longleftrightarrow> map to_ascii_lower (trim raw) = page_style_as_str st)"
proof -
  have "page_style_parse (page_style_as_str st) = Some st"
    by (cases st; simp only:; code_simp)
  moreover have "page_style_parse raw = Some st \<longleftrightarrow> map to_ascii_lower (trim raw) = page_style_as_str st"
    by (cases st) (auto simp: page_style_parse_def Let_def)
  ultimately show ?thesis ..
qed

text \<open>
  The name fence covers the sweep fence. Every page the structural sweeps keep off as a channel,
  and the identity card, in the marked or the legacy spelling and in any directory, is a name no
  model may coin.
\<close>

lemma channel_pages_are_reserved:
  assumes "is_channel_page path \<or> is_identity_card_page path"
  shows "names_reserved_page path"
proof -
  from assms obtain lst where lst: "file_name path = Some lst"
      "lst \<in> {''@rules.md'', ''rules.md'', ''@projects.md'', ''projects.md'', ''@projects_diary.md'',
              ''projects_diary.md'', ''@profile.md'', ''profile.md''}"
    by (auto simp: is_channel_page_def is_signpost_page_def is_rules_page_def is_projects_page_def
        is_project_diary_page_def is_identity_card_page_def names_page_def RULES_FILENAME_def
        PROJECTS_FILENAME_def PROJECT_DIARY_FILENAME_def PROFILE_FILENAME_def split: option.splits)
  have "\<forall>nm \<in> {''@rules.md'', ''rules.md'', ''@projects.md'', ''projects.md'', ''@projects_diary.md'',
              ''projects_diary.md'', ''@profile.md'', ''profile.md''}.
      is_some_and (\<lambda>stem. is_reserved_page_stem (map to_ascii_lower stem))
       (case rsplit_once CHR ''.'' nm of None \<Rightarrow> Some nm
        | Some (stem, ext) \<Rightarrow> if stem = [] then Some nm else Some stem)"
    by code_simp
  with lst show ?thesis by (simp only: names_reserved_page_def file_stem_def option.case)
qed

lemma channel_pages_are_reserved_witness: "names_reserved_page ''wikis/alice/rules.md''"
proof -
  have "is_channel_page ''wikis/alice/rules.md'' \<or> is_identity_card_page ''wikis/alice/rules.md''"
    by code_simp
  then show ?thesis by (rule channel_pages_are_reserved)
qed

lemma trim_id:
  assumes "\<not> is_cont (last s)" "s \<noteq> []" "\<not> is_whitespace [last s]" "\<not> is_whitespace (hd (utf8_chars s))"
  shows "trim s = s"
proof -
  have "utf8_chars s = utf8_chars (butlast s) @ [[last s]]"
    using utf8_chars_append [of "[last s]" "butlast s"] assms(1,2) by simp
  moreover have "dropWhile is_whitespace (utf8_chars s) = utf8_chars s"
    using assms(2,4) by (cases "utf8_chars s") (auto simp: dropWhile_eq_self_iff)
  ultimately have "trim s = concat (utf8_chars s)"
    using assms(3) by (simp add: trim_def)
  then show ?thesis by simp
qed

text \<open>
  The writer and the reader of a withdrawal note agree: whatever date it carries, the line the
  engine writes is recognised as its own furniture and never holds a redacted page up.
\<close>

lemma withdrawn_note_is_furniture: "is_engine_furniture (withdrawn_note on)"
proof -
  let ?n = "withdrawn_note on"
  have "hd (utf8_chars ?n) = ''_''" and "?n \<noteq> []" and "last ?n = CHR ''_''"
    by (simp_all add: withdrawn_note_def WITHDRAWN_NOTE_PREFIX_def is_cont_def byte_def)
  then have "trim ?n = ?n"
    by (intro trim_id) (simp_all add: is_cont_def byte_def is_whitespace_def whitespace_chars_def)
  then show ?thesis
    by (simp add: is_engine_furniture_def Let_def)
      (simp add: withdrawn_note_def WITHDRAWN_NOTE_PREFIX_def ends_with_def)
qed

end
