(* ===== verification/Mwe_Render.thy ===== *)
theory Mwe_Render
  imports Mwe_Acl Mwe_Parser Mwe_Wiki
begin

text \<open>
  The redacting renderer of \<open>crates/mwe-core/src/render.rs\<close>: how much of a page one reader is served.
  \<open>page_pieces\<close> is the first loop of \<open>render_for_sender_segments\<close> (events into pieces tagged with their
  section), \<open>assemble\<close> the second one (pieces into served segments), and \<open>render_for_sender_segments\<close>
  composes them with the frontmatter split, the empty-map exit and the total-redaction collapse.

  The wiki tree and the reader card a \<open>[[wiki/page]]\<close> link is asked of are read from disk and from the
  store before rendering; they are the fields of the record \<open>destinations\<close>. The administrator's
  reveal render slices the page at given offsets and can panic, so it returns an option.
\<close>

section \<open>Constants and output\<close>

definition REDACTED_INLINE_MARKER :: string where
  "REDACTED_INLINE_MARKER = ''[redacted]''"

definition FULLY_PRIVATE_CALLOUT :: string where
  "FULLY_PRIVATE_CALLOUT = ''> [!redacted] This entire page is private.'' @ [newline]"

abbreviation double_quote :: char where
  "double_quote \<equiv> CHR 0x22"

definition ACL_REVEAL_BLOCK_OPEN :: string where
  "ACL_REVEAL_BLOCK_OPEN = ''<div class='' @ [double_quote] @ ''acl-revealed'' @ [double_quote] @ ''>''"

definition ACL_REVEAL_BLOCK_CLOSE :: string where
  "ACL_REVEAL_BLOCK_CLOSE = ''</div>''"

definition ACL_REVEAL_INLINE_OPEN :: string where
  "ACL_REVEAL_INLINE_OPEN = ''<span class='' @ [double_quote] @ ''acl-revealed'' @ [double_quote] @ ''>''"

definition ACL_REVEAL_INLINE_CLOSE :: string where
  "ACL_REVEAL_INLINE_CLOSE = ''</span>''"

record render_output =
  ro_text :: string
  ro_blocks_redacted :: nat
  ro_blocks_revealed :: nat

record render_segment =
  rs_text :: string
  rs_fact_id :: "fact_id option"

record segmented_render_output =
  segments :: "render_segment list"
  blocks_redacted :: nat
  blocks_revealed :: nat

definition default_segmented :: segmented_render_output where
  "default_segmented = \<lparr>segments = [], blocks_redacted = 0, blocks_revealed = 0\<rparr>"

definition segmented_text :: "segmented_render_output \<Rightarrow> string" where
  "segmented_text out = concat (map rs_text (segments out))"

definition into_output :: "segmented_render_output \<Rightarrow> render_output" where
  "into_output out =
     \<lparr>ro_text = segmented_text out, ro_blocks_redacted = blocks_redacted out,
      ro_blocks_revealed = blocks_revealed out\<rparr>"

definition push_plain :: "string \<Rightarrow> segmented_render_output \<Rightarrow> segmented_render_output" where
  "push_plain t out =
     (if segments out \<noteq> [] \<and> rs_fact_id (last (segments out)) = None
      then out\<lparr>segments := butlast (segments out) @
                 [(last (segments out))\<lparr>rs_text := rs_text (last (segments out)) @ t\<rparr>]\<rparr>
      else out\<lparr>segments := segments out @ [\<lparr>rs_text = t, rs_fact_id = None\<rparr>]\<rparr>)"

definition push_region :: "string \<Rightarrow> fact_id option \<Rightarrow> segmented_render_output \<Rightarrow> segmented_render_output" where
  "push_region t fid out = out\<lparr>segments := segments out @ [\<lparr>rs_text = t, rs_fact_id = fid\<rparr>]\<rparr>"

definition segment_fact_id :: "region_attrs \<Rightarrow> fact_acl_map \<Rightarrow> fact_id option" where
  "segment_fact_id attrs db_acl =
     (case ra_fact_id attrs of
        None \<Rightarrow> None
      | Some fid \<Rightarrow> if map_of db_acl fid \<noteq> None then Some fid else None)"

section \<open>The reader\<close>

datatype page_for_reader = AsWritten | Whole | FactsAlone | SectionBySection

definition page_for_reader :: "wiki_meta \<Rightarrow> string \<Rightarrow> page_for_reader" where
  "page_for_reader meta sender_id =
     (if wm_smart meta then AsWritten
      else let a_persons_own = wm_wiki_type meta = IDENTITY_WIKI_TYPE \<and>
                 wm_parent_wiki_id meta = None \<and> \<not> wm_is_agent meta
           in if a_persons_own
              then (if wiki_id_str (wm_wiki_id meta) = sender_id then Whole else FactsAlone)
              else SectionBySection)"

text \<open>
  What a link is asked of: locating a wiki gives its smart flag and the address of its pages, and the
  reader card knows the pages this reader reads a fact of.
\<close>

record wiki_handle =
  wh_smart :: bool
  wh_source_path :: "string \<Rightarrow> string"

record destinations =
  dest_locate :: "wiki_id \<Rightarrow> wiki_handle option"
  dest_can_read_page :: "string \<Rightarrow> string \<Rightarrow> bool"

record reader_view =
  rv_sender_id :: string
  rv_sender_groups :: "string list"
  rv_page :: page_for_reader
  rv_may_go :: "destinations option"

definition as_written :: "string \<Rightarrow> string list \<Rightarrow> reader_view" where
  "as_written sender_id sender_groups =
     \<lparr>rv_sender_id = sender_id, rv_sender_groups = sender_groups, rv_page = AsWritten, rv_may_go = None\<rparr>"

definition anchors_a_redacted_page :: "string \<Rightarrow> bool" where
  "anchors_a_redacted_page line \<longleftrightarrow> trim line \<noteq> [] \<and> \<not> is_engine_furniture line"

definition serves_nothing :: "string \<Rightarrow> bool" where
  "serves_nothing t \<longleftrightarrow> trim t = [] \<or> trim t = trim FULLY_PRIVATE_CALLOUT"

section \<open>Links\<close>

definition SEE_ALSO_PREFIX :: string where
  "SEE_ALSO_PREFIX = ''See also:''"

definition may_follow :: "string \<Rightarrow> reader_view \<Rightarrow> bool" where
  "may_follow inner view =
     (case rv_may_go view of
        None \<Rightarrow> True
      | Some dest \<Rightarrow>
        (let target = trim (hd (split_on CHR ''|'' inner))
         in case split_once CHR ''/'' target of
              None \<Rightarrow> True
            | Some (wiki0, page0) \<Rightarrow>
              (let wiki = trim wiki0; page = trim page0
               in case wiki_id_parse wiki of
                    Inl _ \<Rightarrow> False
                  | Inr ident \<Rightarrow>
                    (case dest_locate dest ident of
                       None \<Rightarrow> False
                     | Some handle \<Rightarrow>
                         if wh_smart handle then False
                         else let rel = (case strip_suffix ''.md'' page of None \<Rightarrow> page | Some p \<Rightarrow> p) @ ''.md''
                              in dest_can_read_page dest wiki (wh_source_path handle rel)))))"

definition wikilink_alias :: "string \<Rightarrow> string option" where
  "wikilink_alias inner =
     (case split_once CHR ''|'' inner of
        None \<Rightarrow> None
      | Some (_, al) \<Rightarrow> (let a = trim al in if a = [] then None else Some a))"

definition sentence_end :: "string \<Rightarrow> bool" where
  "sentence_end ch \<longleftrightarrow>
     ch \<in> set [''.'', ''!'', ''?'', '';'', '':'', [CHR 0xE2, CHR 0x80, CHR 0xA6]]"

text \<open>The loop over \<open>char_indices\<close>: \<open>i\<close> is the byte offset of the first remaining character.\<close>

fun sentences_loop :: "string \<Rightarrow> string list \<Rightarrow> nat \<Rightarrow> nat \<Rightarrow> string list \<Rightarrow> nat \<times> string list" where
  "sentences_loop line [] i start out = (start, out)"
| "sentences_loop line (ch # chs) i start out =
     (let after = i + length ch
      in if \<not> sentence_end ch \<or> length line \<le> after then sentences_loop line chs after start out
         else if chs \<noteq> [] \<and> hd chs \<in> set [''.'', ''!'', ''?''] then sentences_loop line chs after start out
         else if chs \<noteq> [] \<and> is_whitespace (hd chs) then
           (let cut = after + length (drop after line) - length (trim_start (drop after line))
            in sentences_loop line chs after cut (out @ [slice line start cut]))
         else sentences_loop line chs after start out)"

definition sentences :: "string \<Rightarrow> string list" where
  "sentences line =
     (let (start, out) = sentences_loop line (utf8_chars line) 0 0 []
      in if start < length line \<or> out = [] then out @ [drop start line] else out)"

function sentence_loop :: "reader_view \<Rightarrow> string \<Rightarrow> string \<Rightarrow> string option" where
  "sentence_loop view rest out =
     (case find_sub ''[['' rest of
        None \<Rightarrow> Some (out @ rest)
      | Some open \<Rightarrow>
        (let before = take open rest; from_open = drop open rest
         in case find_sub '']]'' from_open of
              None \<Rightarrow> Some (out @ rest)
            | Some close \<Rightarrow>
              (let inner = slice from_open 2 close
               in if may_follow inner view
                  then sentence_loop view (drop (close + 2) from_open)
                         (out @ before @ take (close + 2) from_open)
                  else case wikilink_alias inner of
                         None \<Rightarrow> None
                       | Some al \<Rightarrow> sentence_loop view (drop (close + 2) from_open) (out @ before @ al))))"
  by pat_completeness auto

termination
  by (relation "measure (\<lambda>(_, rest, _). length rest)") (auto dest!: find_sub_bound)

declare sentence_loop.simps [simp del]

definition sentence_for_reader :: "string \<Rightarrow> reader_view \<Rightarrow> string option" where
  "sentence_for_reader sentence view = sentence_loop view sentence []"

function see_also_kept :: "reader_view \<Rightarrow> string \<Rightarrow> string list" where
  "see_also_kept view rest =
     (case find_sub ''[['' rest of
        None \<Rightarrow> []
      | Some open \<Rightarrow>
        (let from_open = drop open rest
         in case find_sub '']]'' from_open of
              None \<Rightarrow> []
            | Some close \<Rightarrow>
              (let inner = slice from_open 2 close
               in (if may_follow inner view then [''[['' @ inner @ '']]''] else []) @
                  see_also_kept view (drop (close + 2) from_open))))"
  by pat_completeness auto

termination
  by (relation "measure (\<lambda>(_, rest). length rest)") (auto dest!: find_sub_bound)

declare see_also_kept.simps [simp del]

definition list_marker :: "string \<Rightarrow> string" where
  "list_marker line =
     (let indent = length line - length (trim_start line);
          rest = drop indent line
      in if list_ex (\<lambda>m. starts_with m rest) [''- '', ''* '', ''+ ''] then take (indent + 2) line
         else let digits = length (takeWhile is_ascii_digit rest)
              in if 0 < digits \<and>
                    (starts_with ''.'' (drop digits rest) \<or> starts_with '')'' (drop digits rest)) \<and>
                    starts_with '' '' (drop (digits + 1) rest)
                 then take (indent + digits + 2) line
                 else [])"

definition line_for_reader :: "string \<Rightarrow> reader_view \<Rightarrow> string option" where
  "line_for_reader line view =
     (if rv_may_go view = None \<or> \<not> contains_sub line ''[['' then Some line
      else if starts_with SEE_ALSO_PREFIX (trim_start line) then
        (let kept = see_also_kept view line
         in if kept = [] then None
            else let indent = concat (takeWhile is_whitespace (utf8_chars line))
                 in Some (indent @ SEE_ALSO_PREFIX @ '' '' @ join '', '' kept))
      else
        (let kept = concat (List.map_filter (\<lambda>c. sentence_for_reader c view) (sentences line))
         in if trim kept = [] then None
            else let marker = list_marker line
                 in if marker \<noteq> [] \<and> \<not> starts_with marker kept then Some (marker @ trim_start kept)
                    else Some kept))"

function prose_lines :: "reader_view \<Rightarrow> string \<Rightarrow> string" where
  "prose_lines view rest =
     (case split_once newline rest of
        Some (line, rest') \<Rightarrow>
          (case line_for_reader line view of None \<Rightarrow> [] | Some l \<Rightarrow> l @ [newline]) @ prose_lines view rest'
      | None \<Rightarrow>
          if rest \<noteq> [] then (case line_for_reader rest view of None \<Rightarrow> [] | Some l \<Rightarrow> l) else [])"
  by pat_completeness auto

termination
  by (relation "measure (\<lambda>(_, rest). length rest)") (auto simp: split_once_Some_iff)

declare prose_lines.simps [simp del]

definition prose_for_reader :: "string \<Rightarrow> reader_view \<Rightarrow> string" where
  "prose_for_reader prose view =
     (if rv_may_go view = None \<or> \<not> contains_sub prose ''[['' then prose else prose_lines view prose)"

section \<open>Sections\<close>

definition opens_a_section :: "string \<Rightarrow> bool" where
  "opens_a_section line =
     (let t = trim_start line
      in starts_with ''#'' t \<and> starts_with '' '' (dropWhile (\<lambda>c. c = CHR ''#'') t))"

record heading_state =
  hs_runs :: "(bool \<times> string) list"
  hs_run_start :: nat
  hs_run_is_new :: bool
  hs_at :: nat

definition heading_step :: "string \<Rightarrow> string \<Rightarrow> heading_state \<Rightarrow> heading_state" where
  "heading_step chunk line st =
     (let st1 = (if opens_a_section line then
                   st\<lparr>hs_runs := hs_runs st @
                        (if hs_at st > hs_run_start st
                         then [(hs_run_is_new st, slice chunk (hs_run_start st) (hs_at st))] else []),
                      hs_run_start := hs_at st, hs_run_is_new := True\<rparr>
                 else st)
      in st1\<lparr>hs_at := hs_at st1 + length line\<rparr>)"

definition split_at_headings :: "string \<Rightarrow> (bool \<times> string) list" where
  "split_at_headings chunk =
     (let st = fold (heading_step chunk) (split_lines_inclusive chunk)
                 \<lparr>hs_runs = [], hs_run_start = 0, hs_run_is_new = False, hs_at = 0\<rparr>
      in if hs_at st > hs_run_start st \<or> hs_runs st = []
         then hs_runs st @ [(hs_run_is_new st, drop (hs_run_start st) chunk)] else hs_runs st)"

section \<open>Rendering for a reader\<close>

definition resolve_region_acl :: "region_attrs \<Rightarrow> fact_acl_map \<Rightarrow> acl \<times> principal option" where
  "resolve_region_acl attrs db_acl =
     (case (case ra_fact_id attrs of None \<Rightarrow> None | Some fid \<Rightarrow> map_of db_acl fid) of
        None \<Rightarrow>
          (\<lparr>acl_subject = (case acl_subject (ra_acl attrs) of Some p \<Rightarrow> Some p | None \<Rightarrow> ra_sender attrs),
            acl_allow = acl_allow (ra_acl attrs), acl_excluded = []\<rparr>, ra_sender attrs)
      | Some rec \<Rightarrow>
          (\<lparr>acl_subject = Some (rg_subject rec), acl_allow = rg_allow rec, acl_excluded = rg_excluded rec\<rparr>,
           rg_sender rec))"

definition region_visible :: "reader_view \<Rightarrow> fact_acl_map \<Rightarrow> region_attrs \<Rightarrow> bool" where
  "region_visible view db_acl attrs =
     (let (resolved, sender_of_region) = resolve_region_acl attrs db_acl
      in can_read resolved (rv_sender_id view) (rv_sender_groups view) sender_of_region)"

datatype piece =
    PieceProse string
  | PieceRegion string bool "fact_id option"

fun prose_pieces :: "reader_view \<Rightarrow> (bool \<times> string) list \<Rightarrow> nat \<Rightarrow> (nat \<times> piece) list \<times> nat" where
  "prose_pieces view [] sec = ([], sec)"
| "prose_pieces view ((opens, run) # runs) sec =
     (let sec1 = (if opens then sec + 1 else sec);
          (ps, sec2) = prose_pieces view runs sec1
      in ((sec1, PieceProse (prose_for_reader run view)) # ps, sec2))"

fun page_pieces ::
  "reader_view \<Rightarrow> fact_acl_map \<Rightarrow> string \<Rightarrow> parse_event list \<Rightarrow> nat \<Rightarrow> (nat \<times> piece) list" where
  "page_pieces view db_acl body [] sec = []"
| "page_pieces view db_acl body (Prose _ _ chunk # evs) sec =
     (let (ps, sec') = prose_pieces view (split_at_headings chunk) sec
      in ps @ page_pieces view db_acl body evs sec')"
| "page_pieces view db_acl body (Region _ _ attrs _ _ region _ # evs) sec =
     (sec, PieceRegion region (region_visible view db_acl attrs) (segment_fact_id attrs db_acl)) #
     page_pieces view db_acl body evs sec"
| "page_pieces view db_acl body (Embed start end _ # evs) sec =
     (sec, PieceProse (slice body start end)) # page_pieces view db_acl body evs sec"

fun is_region_piece :: "piece \<Rightarrow> bool" where
  "is_region_piece (PieceRegion _ _ _) = True"
| "is_region_piece (PieceProse _) = False"

fun is_visible_piece :: "piece \<Rightarrow> bool" where
  "is_visible_piece (PieceRegion _ visible _) = visible"
| "is_visible_piece (PieceProse _) = False"

definition sections_with_a_readable_fact :: "(nat \<times> piece) list \<Rightarrow> nat list" where
  "sections_with_a_readable_fact pieces = map fst (filter (\<lambda>p. is_visible_piece (snd p)) pieces)"

record assembly =
  asm_out :: segmented_render_output
  asm_visible_regions :: nat
  asm_kept_prose :: bool

fun assemble_piece :: "reader_view \<Rightarrow> nat list \<Rightarrow> nat \<times> piece \<Rightarrow> assembly \<Rightarrow> assembly" where
  "assemble_piece view readable (sec, PieceProse run) st =
     (let serve = (case rv_page view of
                     AsWritten \<Rightarrow> True | Whole \<Rightarrow> True
                   | FactsAlone \<Rightarrow> False
                   | SectionBySection \<Rightarrow> sec \<in> set readable)
      in if serve
         then st\<lparr>asm_out := push_plain run (asm_out st),
                 asm_kept_prose := asm_kept_prose st \<or> list_ex anchors_a_redacted_page (lines run)\<rparr>
         else st)"
| "assemble_piece view readable (sec, PieceRegion region visible fid) st =
     (if visible
      then st\<lparr>asm_out := (if rv_page view = FactsAlone
                           then push_plain [newline] (push_region (trim region) fid (asm_out st))
                           else push_region region fid (asm_out st)),
              asm_visible_regions := asm_visible_regions st + 1\<rparr>
      else (let out = (if rv_page view \<noteq> FactsAlone then push_plain REDACTED_INLINE_MARKER (asm_out st)
                       else asm_out st)
            in st\<lparr>asm_out := out\<lparr>blocks_redacted := blocks_redacted out + 1\<rparr>\<rparr>))"

definition assemble :: "reader_view \<Rightarrow> (nat \<times> piece) list \<Rightarrow> segmented_render_output" where
  "assemble view pieces =
     (let readable = sections_with_a_readable_fact pieces;
          n_regions = length (filter (\<lambda>p. is_region_piece (snd p)) pieces);
          st = fold (assemble_piece view readable) pieces
                 \<lparr>asm_out = default_segmented, asm_visible_regions = 0, asm_kept_prose = False\<rparr>;
          collapse_to_callout = 0 < n_regions \<and> asm_visible_regions st = 0 \<and> \<not> asm_kept_prose st
      in if collapse_to_callout
         then (asm_out st)\<lparr>segments := [\<lparr>rs_text = FULLY_PRIVATE_CALLOUT, rs_fact_id = None\<rparr>]\<rparr>
         else asm_out st)"

definition render_for_sender_segments ::
  "string \<Rightarrow> fact_acl_map \<Rightarrow> reader_view \<Rightarrow> segmented_render_output" where
  "render_for_sender_segments text db_acl view =
     (let body = doc_body text
      in if rv_page view \<noteq> AsWritten \<and> db_acl = [] then default_segmented
         else assemble view (page_pieces view db_acl body (events (parse body)) 0))"

definition render_for_sender :: "string \<Rightarrow> fact_acl_map \<Rightarrow> reader_view \<Rightarrow> render_output" where
  "render_for_sender text db_acl view = into_output (render_for_sender_segments text db_acl view)"

section \<open>The administrator's reveal\<close>

definition line_has_content :: "string \<Rightarrow> bool" where
  "line_has_content line \<longleftrightarrow> list_ex (\<lambda>c. \<not> is_whitespace c) (utf8_chars line)"

definition is_inline_region :: "string \<Rightarrow> nat \<Rightarrow> nat \<Rightarrow> bool option" where
  "is_inline_region text start end =
     (case (checked_slice text 0 start, checked_slice text end (length text)) of
        (Some before, Some after) \<Rightarrow>
          Some (line_has_content (last (split_on newline before)) \<or>
                line_has_content (hd (split_on newline after)))
      | _ \<Rightarrow> None)"

definition trim_newlines :: "string \<Rightarrow> string" where
  "trim_newlines s =
     rev (dropWhile (\<lambda>c. c = newline) (rev (dropWhile (\<lambda>c. c = newline) s)))"

definition reveal_block :: "string \<Rightarrow> string" where
  "reveal_block body =
     [newline, newline] @ ACL_REVEAL_BLOCK_OPEN @ [newline, newline] @ trim_newlines body @
     [newline, newline] @ ACL_REVEAL_BLOCK_CLOSE @ [newline, newline]"

definition reveal_inline :: "string \<Rightarrow> string" where
  "reveal_inline body = ACL_REVEAL_INLINE_OPEN @ body @ ACL_REVEAL_INLINE_CLOSE"

fun reveal_events ::
  "string \<Rightarrow> string \<Rightarrow> fact_acl_map \<Rightarrow> string \<Rightarrow> string list \<Rightarrow> parse_event list \<Rightarrow>
   segmented_render_output \<Rightarrow> segmented_render_output option" where
  "reveal_events text body db_acl u gs [] out = Some out"
| "reveal_events text body db_acl u gs (Prose _ _ chunk # evs) out =
     reveal_events text body db_acl u gs evs (push_plain chunk out)"
| "reveal_events text body db_acl u gs (Embed start end _ # evs) out =
     reveal_events text body db_acl u gs evs (push_plain (slice body start end) out)"
| "reveal_events text body db_acl u gs (Region start end attrs _ _ region _ # evs) out =
     (let (resolved, sender_of_region) = resolve_region_acl attrs db_acl;
          fid = segment_fact_id attrs db_acl
      in if can_read resolved u gs sender_of_region
         then reveal_events text body db_acl u gs evs (push_region region fid out)
         else case is_inline_region text start end of
                None \<Rightarrow> None
              | Some inline \<Rightarrow>
                  (let out1 = push_region (if inline then reveal_inline region else reveal_block region) fid out
                   in reveal_events text body db_acl u gs evs
                        (out1\<lparr>blocks_revealed := blocks_revealed out1 + 1\<rparr>)))"

definition render_admin_reveal_segments ::
  "string \<Rightarrow> fact_acl_map \<Rightarrow> string \<Rightarrow> string list \<Rightarrow> segmented_render_output option" where
  "render_admin_reveal_segments text db_acl sender_id sender_groups =
     (let body = doc_body text
      in reveal_events text body db_acl sender_id sender_groups (events (parse body)) default_segmented)"

section \<open>What the assembly depends on\<close>

definition served :: "reader_view \<Rightarrow> nat list \<Rightarrow> nat \<Rightarrow> bool" where
  "served view readable sec \<longleftrightarrow>
     (case rv_page view of AsWritten \<Rightarrow> True | Whole \<Rightarrow> True | FactsAlone \<Rightarrow> False
      | SectionBySection \<Rightarrow> sec \<in> set readable)"

text \<open>Two pieces this reader cannot tell apart.\<close>

fun piece_alike :: "reader_view \<Rightarrow> nat list \<Rightarrow> nat \<times> piece \<Rightarrow> nat \<times> piece \<Rightarrow> bool" where
  "piece_alike view readable (sec, PieceProse r) (sec', PieceProse r') =
     (sec = sec' \<and> (served view readable sec \<longrightarrow> r = r'))"
| "piece_alike view readable (sec, PieceRegion b v f) (sec', PieceRegion b' v' f') =
     (sec = sec' \<and> v = v' \<and> (v \<longrightarrow> b = b' \<and> f = f'))"
| "piece_alike view readable _ _ = False"

fun event_alike :: "reader_view \<Rightarrow> fact_acl_map \<Rightarrow> string \<Rightarrow> string \<Rightarrow> parse_event \<Rightarrow> parse_event \<Rightarrow> bool" where
  "event_alike view db b1 b2 (Prose _ _ t) (Prose _ _ t') = (t = t')"
| "event_alike view db b1 b2 (Embed s e _) (Embed s' e' _) = (slice b1 s e = slice b2 s' e')"
| "event_alike view db b1 b2 (Region _ _ a _ _ body _) (Region _ _ a' _ _ body' _) =
     (region_visible view db a = region_visible view db a' \<and>
      (region_visible view db a \<longrightarrow> body = body' \<and> segment_fact_id a db = segment_fact_id a' db))"
| "event_alike view db b1 b2 _ _ = False"

lemma piece_alike_cases:
  assumes "piece_alike view readable x y"
  obtains (prose) sec r r' where "x = (sec, PieceProse r)" "y = (sec, PieceProse r')" "served view readable sec \<Longrightarrow> r = r'"
    | (region) sec b b' v f f' where "x = (sec, PieceRegion b v f)" "y = (sec, PieceRegion b' v f')" "v \<Longrightarrow> b = b' \<and> f = f'"
  using assms by (cases "(view, readable, x, y)" rule: piece_alike.cases) auto

lemma assemble_piece_prose:
  "assemble_piece view readable (sec, PieceProse run) st =
     (if served view readable sec
      then st\<lparr>asm_out := push_plain run (asm_out st),
              asm_kept_prose := asm_kept_prose st \<or> list_ex anchors_a_redacted_page (lines run)\<rparr>
      else st)"
  by (simp add: served_def Let_def split: page_for_reader.split)

lemma assemble_piece_alike:
  assumes "piece_alike view readable x y"
  shows "assemble_piece view readable x st = assemble_piece view readable y st"
    and "is_visible_piece (snd x) = is_visible_piece (snd y)"
    and "is_region_piece (snd x) = is_region_piece (snd y)" and "fst x = fst y"
  using assms
  by (cases rule: piece_alike_cases; simp add: assemble_piece_prose del: assemble_piece.simps(1); auto)+

lemma fold_assemble_alike:
  "list_all2 (piece_alike view readable) ps qs \<Longrightarrow>
   fold (assemble_piece view readable) ps st = fold (assemble_piece view readable) qs st"
  by (induction ps qs arbitrary: st rule: list_all2_induct) (auto simp: assemble_piece_alike(1))

lemma filter_alike:
  assumes "list_all2 (piece_alike view readable) ps qs"
  shows "map fst (filter (\<lambda>p. is_visible_piece (snd p)) ps) = map fst (filter (\<lambda>p. is_visible_piece (snd p)) qs)"
    and "length (filter (\<lambda>p. is_region_piece (snd p)) ps) = length (filter (\<lambda>p. is_region_piece (snd p)) qs)"
  using assms
  by (induction ps qs rule: list_all2_induct) (auto dest: assemble_piece_alike simp: case_prod_beta)

lemma assemble_alike:
  assumes "list_all2 (piece_alike view (sections_with_a_readable_fact ps)) ps qs"
  shows "assemble view ps = assemble view qs"
  using fold_assemble_alike [OF assms] filter_alike [OF assms]
  by (simp add: assemble_def sections_with_a_readable_fact_def Let_def)

lemma page_pieces_alike:
  assumes "list_all2 (event_alike view db b1 b2) evs evs'"
  shows "list_all2 (piece_alike view readable) (page_pieces view db b1 evs sec) (page_pieces view db b2 evs' sec)"
  using assms
proof (induction evs evs' arbitrary: sec rule: list_all2_induct)
  case (Cons ev evs ev' evs')
  have refl: "list_all2 (piece_alike view readable) (fst (prose_pieces view runs sec)) (fst (prose_pieces view runs sec))"
    for runs sec
    by (induction view runs sec rule: prose_pieces.induct) (auto simp: Let_def case_prod_beta)
  from Cons.hyps(1) show ?case
    by (cases "(view, db, b1, b2, ev, ev')" rule: event_alike.cases)
      (auto simp: Let_def case_prod_beta Cons.IH refl intro!: list_all2_appendI)
qed simp

section \<open>Counting\<close>

fun region_events :: "parse_event list \<Rightarrow> (region_attrs \<times> string) list" where
  "region_events [] = []"
| "region_events (Region _ _ attrs _ _ body _ # evs) = (attrs, body) # region_events evs"
| "region_events (_ # evs) = region_events evs"

definition visible_regions :: "reader_view \<Rightarrow> fact_acl_map \<Rightarrow> parse_event list \<Rightarrow> (region_attrs \<times> string) list" where
  "visible_regions view db evs = filter (\<lambda>r. region_visible view db (fst r)) (region_events evs)"

definition hidden_regions :: "reader_view \<Rightarrow> fact_acl_map \<Rightarrow> parse_event list \<Rightarrow> (region_attrs \<times> string) list" where
  "hidden_regions view db evs = filter (\<lambda>r. \<not> region_visible view db (fst r)) (region_events evs)"

lemma push_simps [simp]:
  "blocks_redacted (push_plain t out) = blocks_redacted out"
  "blocks_revealed (push_plain t out) = blocks_revealed out"
  "blocks_redacted (push_region t f out) = blocks_redacted out"
  "blocks_revealed (push_region t f out) = blocks_revealed out"
  "segmented_text (push_region t f out) = segmented_text out @ t"
  "segmented_text (out\<lparr>blocks_redacted := n\<rparr>) = segmented_text out"
  "segmented_text (out\<lparr>blocks_revealed := n\<rparr>) = segmented_text out"
  by (simp_all add: push_plain_def push_region_def segmented_text_def)

lemma segmented_text_push_plain [simp]: "segmented_text (push_plain t out) = segmented_text out @ t"
proof (cases "segments out" rule: rev_cases)
  case Nil
  then show ?thesis by (simp add: push_plain_def segmented_text_def)
next
  case (snoc xs x)
  then show ?thesis by (simp add: push_plain_def segmented_text_def)
qed

definition hidden_piece :: "nat \<times> piece \<Rightarrow> bool" where
  "hidden_piece p \<longleftrightarrow> is_region_piece (snd p) \<and> \<not> is_visible_piece (snd p)"

lemma fold_assemble_counts:
  "blocks_redacted (asm_out (fold (assemble_piece view readable) ps st)) =
     blocks_redacted (asm_out st) + length (filter hidden_piece ps)"
  "blocks_revealed (asm_out (fold (assemble_piece view readable) ps st)) = blocks_revealed (asm_out st)"
  "asm_visible_regions (fold (assemble_piece view readable) ps st) =
     asm_visible_regions st + length (filter (\<lambda>p. is_visible_piece (snd p)) ps)"
proof (induction ps arbitrary: st)
  case (Cons p ps)
  obtain sec q where p: "p = (sec, q)" by fastforce
  { case 1 show ?case using Cons.IH(1) by (cases q) (simp_all add: p hidden_piece_def Let_def) }
  { case 2 show ?case using Cons.IH(2) by (cases q) (simp_all add: p Let_def) }
  { case 3 show ?case using Cons.IH(3) by (cases q) (simp_all add: p Let_def) }
qed simp_all

lemma prose_pieces_prose: "p \<in> set (fst (prose_pieces view runs sec)) \<Longrightarrow> \<not> is_region_piece (snd p) \<and> \<not> is_visible_piece (snd p)"
  by (induction view runs sec rule: prose_pieces.induct) (auto simp: Let_def case_prod_beta)

lemma page_pieces_regions:
  "map snd (filter (\<lambda>p. is_region_piece (snd p)) (page_pieces view db body evs sec)) =
     map (\<lambda>(a, b). PieceRegion b (region_visible view db a) (segment_fact_id a db)) (region_events evs)"
proof (induction view db body evs sec rule: page_pieces.induct)
  case (2 view db body s e chunk evs sec)
  obtain ps sec' where ps: "prose_pieces view (split_at_headings chunk) sec = (ps, sec')" by fastforce
  then have "filter (\<lambda>p. is_region_piece (snd p)) ps = []"
    using prose_pieces_prose [of _ view "split_at_headings chunk" sec] by (auto simp: filter_empty_conv)
  with 2 ps show ?case by simp
qed simp_all

lemma page_pieces_counts:
  "length (filter hidden_piece (page_pieces view db body evs sec)) = length (hidden_regions view db evs)"
  "length (filter (\<lambda>p. is_visible_piece (snd p)) (page_pieces view db body evs sec)) =
     length (visible_regions view db evs)"
  "length (filter (\<lambda>p. is_region_piece (snd p)) (page_pieces view db body evs sec)) = length (region_events evs)"
proof -
  let ?ps = "page_pieces view db body evs sec"
  let ?mk = "\<lambda>(a, b). PieceRegion b (region_visible view db a) (segment_fact_id a db)"
  have vis: "is_visible_piece q \<Longrightarrow> is_region_piece q" for q by (cases q) auto
  have count: "length (filter (\<lambda>p. is_region_piece (snd p) \<and> P (snd p)) ps) =
      length (filter P (map snd (filter (\<lambda>p. is_region_piece (snd p)) ps)))" for P ps
    by (induction ps) auto
  have via: "length (filter (\<lambda>p. is_region_piece (snd p) \<and> P (snd p)) ?ps) =
      length (filter (P \<circ> ?mk) (region_events evs))" for P
    unfolding count page_pieces_regions by (simp add: filter_map)
  show "length (filter hidden_piece ?ps) = length (hidden_regions view db evs)"
    using via [of "\<lambda>q. \<not> is_visible_piece q"]
    by (simp add: hidden_piece_def [abs_def] hidden_regions_def comp_def case_prod_beta)
  have "filter (\<lambda>p. is_visible_piece (snd p)) ?ps = filter (\<lambda>p. is_region_piece (snd p) \<and> is_visible_piece (snd p)) ?ps"
    using vis by (metis (lifting))
  then show "length (filter (\<lambda>p. is_visible_piece (snd p)) ?ps) = length (visible_regions view db evs)"
    using via [of is_visible_piece] by (simp add: visible_regions_def comp_def case_prod_beta)
  show "length (filter (\<lambda>p. is_region_piece (snd p)) ?ps) = length (region_events evs)"
    using via [of "\<lambda>_. True"] by (simp add: comp_def)
qed

lemma render_segments_unfold:
  "rv_page view = AsWritten \<or> db \<noteq> [] \<Longrightarrow>
   render_for_sender_segments txt db view =
     assemble view (page_pieces view db (doc_body txt) (events (parse (doc_body txt))) 0)"
  by (auto simp: render_for_sender_segments_def Let_def)

text \<open>In the facts-alone mode the assembly is a fold over the regions alone.\<close>

lemma facts_alone_text:
  assumes "rv_page view = FactsAlone"
  shows "segmented_text (asm_out (fold (assemble_piece view readable) ps st)) =
     segmented_text (asm_out st) @
     concat (map (\<lambda>q. case q of PieceRegion b v f \<Rightarrow> if v then trim b @ [newline] else [] | PieceProse _ \<Rightarrow> [])
       (map snd (filter (\<lambda>p. is_region_piece (snd p)) ps)))"
    and "asm_kept_prose (fold (assemble_piece view readable) ps st) = asm_kept_prose st"
proof (induction ps arbitrary: st)
  case (Cons p ps)
  obtain sec q where p: "p = (sec, q)" by fastforce
  { case 1 show ?case using Cons.IH(1) assms by (cases q) (simp_all add: p Let_def) }
  { case 2 show ?case using Cons.IH(2) assms by (cases q) (simp_all add: p Let_def) }
qed simp_all

text \<open>With no readable region, neither mode for other readers keeps any prose.\<close>

lemma fold_no_prose:
  assumes "\<And>sec. \<not> served view readable sec"
  shows "asm_kept_prose (fold (assemble_piece view readable) ps st) = asm_kept_prose st"
proof (induction ps arbitrary: st)
  case (Cons p ps)
  obtain sec q where p: "p = (sec, q)" by fastforce
  with Cons assms show ?case
    by (cases q) (simp_all add: assemble_piece_prose Let_def del: assemble_piece.simps(1))
qed simp

lemma no_visible_no_section:
  assumes "\<forall>p \<in> set ps. \<not> is_visible_piece (snd p)"
  shows "sections_with_a_readable_fact ps = []"
  using assms by (auto simp: sections_with_a_readable_fact_def filter_empty_conv)

lemma fold_nothing_without_regions:
  assumes "\<And>sec. \<not> served view readable sec" "\<forall>p \<in> set ps. \<not> is_region_piece (snd p)"
  shows "fold (assemble_piece view readable) ps st = st"
  using assms(2)
proof (induction ps arbitrary: st)
  case (Cons p ps)
  obtain sec q where p: "p = (sec, q)" by fastforce
  with Cons assms(1) show ?case
    by (cases q) (simp_all add: assemble_piece_prose del: assemble_piece.simps(1))
qed simp

text \<open>Where the fact id of a segment comes from.\<close>

lemma push_plain_segments:
  "s \<in> set (segments (push_plain t out)) \<Longrightarrow> rs_fact_id s = None \<or> s \<in> set (segments out)"
proof (cases "segments out" rule: rev_cases)
  case (snoc xs x)
  then show "s \<in> set (segments (push_plain t out)) \<Longrightarrow> rs_fact_id s = None \<or> s \<in> set (segments out)"
    by (auto simp: push_plain_def split: if_splits)
qed (auto simp: push_plain_def)

lemma push_region_segments [simp]:
  "set (segments (push_region t f out)) = insert \<lparr>rs_text = t, rs_fact_id = f\<rparr> (set (segments out))"
  by (auto simp: push_region_def)

lemma assemble_piece_segments:
  assumes "s \<in> set (segments (asm_out (assemble_piece view readable p st)))"
  shows "rs_fact_id s = None \<or> s \<in> set (segments (asm_out st)) \<or>
    (\<exists>sec b f. p = (sec, PieceRegion b True f) \<and> rs_fact_id s = f \<and> rs_text s \<in> {b, trim b})"
proof -
  obtain sec q where p: "p = (sec, q)" by fastforce
  show ?thesis
  proof (cases q)
    case (PieceProse run)
    with assms p show ?thesis
      by (auto simp: assemble_piece_prose simp del: assemble_piece.simps split: if_splits dest!: push_plain_segments)
  next
    case (PieceRegion b v f)
    with assms p show ?thesis
      by (auto simp: Let_def split: if_splits dest!: push_plain_segments)
  qed
qed

lemma fold_assemble_segments:
  "s \<in> set (segments (asm_out (fold (assemble_piece view readable) ps st))) \<Longrightarrow>
   rs_fact_id s = None \<or> s \<in> set (segments (asm_out st)) \<or>
   (\<exists>sec b f. (sec, PieceRegion b True f) \<in> set ps \<and> rs_fact_id s = f \<and> rs_text s \<in> {b, trim b})"
proof (induction ps arbitrary: st)
  case (Cons p ps)
  from Cons.IH [of "assemble_piece view readable p st"] Cons.prems
    assemble_piece_segments [of s view readable p st]
  show ?case by auto blast+
qed simp

lemma assemble_segments:
  assumes "s \<in> set (segments (assemble view ps))" "rs_fact_id s = Some fid"
  shows "\<exists>sec b. (sec, PieceRegion b True (Some fid)) \<in> set ps \<and> rs_text s \<in> {b, trim b}"
proof -
  let ?st = "\<lparr>asm_out = default_segmented, asm_visible_regions = 0, asm_kept_prose = False\<rparr>"
  have "s \<in> set (segments (asm_out (fold (assemble_piece view (sections_with_a_readable_fact ps)) ps ?st)))"
    using assms by (auto simp: assemble_def Let_def split: if_splits)
  from fold_assemble_segments [OF this] assms(2) show ?thesis
    by (auto simp: default_segmented_def)
qed

lemma page_pieces_region_event:
  assumes "(sec, PieceRegion b v f) \<in> set (page_pieces view db body evs n)"
  shows "\<exists>a. (a, b) \<in> set (region_events evs) \<and> v = region_visible view db a \<and> f = segment_fact_id a db"
proof -
  have "PieceRegion b v f \<in> set (map snd (filter (\<lambda>p. is_region_piece (snd p)) (page_pieces view db body evs n)))"
    using assms by force
  then show ?thesis unfolding page_pieces_regions by auto
qed

section \<open>Properties of the renderer\<close>

text \<open>
  C1: non-interference. Two pages that differ only in the bodies and attributes of regions the reader
  may not read are rendered identically, segment by segment and with the same counts: nothing of an
  unreadable region reaches the output, not even its length, its embeds or its fact id.
\<close>

theorem render_noninterference:
  assumes "list_all2 (event_alike view db (doc_body page1) (doc_body page2))
             (events (parse (doc_body page1))) (events (parse (doc_body page2)))"
  shows "render_for_sender_segments page1 db view = render_for_sender_segments page2 db view"
proof (cases "rv_page view \<noteq> AsWritten \<and> db = []")
  case True
  then show ?thesis by (simp add: render_for_sender_segments_def Let_def)
next
  case False
  with assms show ?thesis
    by (subst (1 2) render_segments_unfold) (auto intro!: assemble_alike page_pieces_alike)
qed

definition bob_view :: "page_for_reader \<Rightarrow> reader_view" where
  "bob_view page = \<lparr>rv_sender_id = ''bob'', rv_sender_groups = [''family''], rv_page = page, rv_may_go = None\<rparr>"

theorem render_noninterference_witness:
  "render_for_sender_segments ''Hi {{subject=user:alice}}secret{{/}}'' [] (bob_view AsWritten) =
   render_for_sender_segments ''Hi {{sender=user:carol}}other words{{/}}'' [] (bob_view AsWritten)"
proof -
  let ?p1 = "''Hi {{subject=user:alice}}secret{{/}}''" and ?p2 = "''Hi {{sender=user:carol}}other words{{/}}''"
  have "list_all2 (event_alike (bob_view AsWritten) [] (doc_body ?p1) (doc_body ?p2))
          (events (parse (doc_body ?p1))) (events (parse (doc_body ?p2)))"
    by code_simp
  then show ?thesis by (rule render_noninterference)
qed

text \<open>
  a withheld section leaves no trace either. When a page is served section by section, the prose of
  a section without a readable fact can be anything: pages that differ there are assembled identically.
\<close>

lemma withheld_sections_do_not_matter:
  assumes "rv_page view = SectionBySection"
    and "list_all2 (\<lambda>(sec, p) (sec', p'). sec = sec' \<and>
           (p = p' \<or> (sec \<notin> set (sections_with_a_readable_fact ps) \<and>
                      (\<exists>r r'. p = PieceProse r \<and> p' = PieceProse r')))) ps qs"
  shows "assemble view ps = assemble view qs"
proof (rule assemble_alike)
  have same: "piece_alike view readable (sec, p) (sec, p)" for readable sec p
    by (cases p) auto
  show "list_all2 (piece_alike view (sections_with_a_readable_fact ps)) ps qs"
    using assms(2)
    by (rule list_all2_mono) (auto simp: served_def assms(1) same)
qed

lemma withheld_sections_do_not_matter_witness:
  "assemble (bob_view SectionBySection)
     [(0, PieceProse ''public ''), (0, PieceRegion ''fact'' True None), (1, PieceProse ''# private''),
      (1, PieceRegion ''secret'' False None)] =
   assemble (bob_view SectionBySection)
     [(0, PieceProse ''public ''), (0, PieceRegion ''fact'' True None), (1, PieceProse ''# something else''),
      (1, PieceRegion ''secret'' False None)]"
proof -
  let ?ps = "[(0, PieceProse ''public ''), (0, PieceRegion ''fact'' True None), (1, PieceProse ''# private''),
      (1, PieceRegion ''secret'' False None)] :: (nat \<times> piece) list"
  have "rv_page (bob_view SectionBySection) = SectionBySection"
    by (simp add: bob_view_def)
  then show ?thesis
    by (rule withheld_sections_do_not_matter) (simp add: sections_with_a_readable_fact_def)
qed

text \<open>
  Somebody else's memory is served as its readable facts and nothing else: one trimmed fact per
  line in page order, or the single private-page callout when the page has facts and none is readable.
  No prose, heading, link or layout of the page appears, and every withheld fact is counted.
\<close>

lemma facts_alone_serves_facts:
  assumes "rv_page view = FactsAlone" "db \<noteq> []"
  shows "render_for_sender page db view =
    (let evs = events (parse (doc_body page)) in
     \<lparr>ro_text = (if region_events evs \<noteq> [] \<and> visible_regions view db evs = [] then FULLY_PRIVATE_CALLOUT
                 else concat (map (\<lambda>r. trim (snd r) @ [newline]) (visible_regions view db evs))),
      ro_blocks_redacted = length (hidden_regions view db evs), ro_blocks_revealed = 0\<rparr>)"
proof -
  define evs where "evs = events (parse (doc_body page))"
  define ps where "ps = page_pieces view db (doc_body page) evs 0"
  define st where "st = fold (assemble_piece view (sections_with_a_readable_fact ps)) ps
     \<lparr>asm_out = default_segmented, asm_visible_regions = 0, asm_kept_prose = False\<rparr>"
  note counts = page_pieces_counts [of view db "doc_body page" evs 0, folded ps_def]
  have pieces: "map (\<lambda>q. case q of PieceRegion b v f \<Rightarrow> if v then trim b @ [newline] else [] | PieceProse _ \<Rightarrow> [])
       (map snd (filter (\<lambda>p. is_region_piece (snd p)) ps)) =
      map (\<lambda>(a, b). if region_visible view db a then trim b @ [newline] else []) (region_events evs)"
    unfolding ps_def page_pieces_regions by (simp add: case_prod_beta)
  have concat_filter: "concat (map (\<lambda>(a, b). if region_visible view db a then trim b @ [newline] else []) xs) =
      concat (map (\<lambda>r. trim (snd r) @ [newline]) (filter (\<lambda>r. region_visible view db (fst r)) xs))" for xs
    by (induction xs) auto
  have shown: "segmented_text (asm_out st) = concat (map (\<lambda>r. trim (snd r) @ [newline]) (visible_regions view db evs))"
    unfolding st_def facts_alone_text(1) [OF assms(1)] pieces concat_filter visible_regions_def
    by (simp add: default_segmented_def segmented_text_def)
  have kept: "\<not> asm_kept_prose st" by (simp add: st_def facts_alone_text(2) [OF assms(1)])
  have nums: "blocks_redacted (asm_out st) = length (hidden_regions view db evs)" "blocks_revealed (asm_out st) = 0"
    "asm_visible_regions st = length (visible_regions view db evs)"
    unfolding st_def fold_assemble_counts counts by (simp_all add: default_segmented_def)
  have regions: "length (filter (\<lambda>p. is_region_piece (snd p)) ps) = length (region_events evs)"
    by (rule counts(3))
  have "render_for_sender page db view = into_output (assemble view ps)"
    unfolding render_for_sender_def ps_def evs_def using assms(2) by (simp add: render_segments_unfold)
  also have "assemble view ps = (if region_events evs \<noteq> [] \<and> visible_regions view db evs = []
      then (asm_out st)\<lparr>segments := [\<lparr>rs_text = FULLY_PRIVATE_CALLOUT, rs_fact_id = None\<rparr>]\<rparr> else asm_out st)"
    unfolding assemble_def Let_def regions st_def [symmetric] using kept nums by simp
  finally show ?thesis
    using shown nums by (auto simp: into_output_def evs_def [symmetric] Let_def segmented_text_def)
qed

definition alice_fact_map :: fact_acl_map where
  "alice_fact_map = [(sample_fact, \<lparr>rg_subject = User ''alice'', rg_allow = [], rg_excluded = [], rg_sender = None\<rparr>)]"

lemma facts_alone_serves_facts_witness:
  "ro_text (render_for_sender ''# Trip {{subject=user:alice}}secret{{/}} and {{subject=user:bob}} his {{/}}''
     alice_fact_map (bob_view FactsAlone)) = ''his'' @ [newline]"
proof -
  let ?p = "''# Trip {{subject=user:alice}}secret{{/}} and {{subject=user:bob}} his {{/}}''"
  have "rv_page (bob_view FactsAlone) = FactsAlone" "alice_fact_map \<noteq> []"
    by (simp_all add: bob_view_def alice_fact_map_def)
  from facts_alone_serves_facts [OF this, of ?p]
  have "ro_text (render_for_sender ?p alice_fact_map (bob_view FactsAlone)) =
    (let evs = events (parse (doc_body ?p)) in
     if region_events evs \<noteq> [] \<and> visible_regions (bob_view FactsAlone) alice_fact_map evs = [] then FULLY_PRIVATE_CALLOUT
     else concat (map (\<lambda>r. trim (snd r) @ [newline]) (visible_regions (bob_view FactsAlone) alice_fact_map evs)))"
    by (simp add: Let_def)
  also have "\<dots> = ''his'' @ [newline]" by code_simp
  finally show ?thesis .
qed

text \<open>
  A reader to whom nothing on the page is readable, and whose memory it is not, is told the same
  thing whatever the page holds: nothing when it has no region or no active fact, and otherwise the
  one private-page callout. Its prose, layout and bodies never show.
\<close>

lemma nothing_readable_shows_nothing:
  assumes "rv_page view = FactsAlone \<or> rv_page view = SectionBySection"
    and "visible_regions view db (events (parse (doc_body page))) = []"
  shows "ro_text (render_for_sender page db view) =
    (if db = [] \<or> region_events (events (parse (doc_body page))) = [] then [] else FULLY_PRIVATE_CALLOUT) \<and>
    serves_nothing (ro_text (render_for_sender page db view))"
proof -
  define evs where "evs = events (parse (doc_body page))"
  define ps where "ps = page_pieces view db (doc_body page) evs 0"
  let ?st = "\<lparr>asm_out = default_segmented, asm_visible_regions = 0, asm_kept_prose = False\<rparr>"
  note counts = page_pieces_counts [of view db "doc_body page" evs 0, folded ps_def]
  have invisible: "\<forall>p \<in> set ps. \<not> is_visible_piece (snd p)"
    using counts(2) assms(2) by (auto simp: evs_def [symmetric] filter_empty_conv)
  have unserved: "\<not> served view (sections_with_a_readable_fact ps) sec" for sec
    using assms(1) no_visible_no_section [OF invisible] by (auto simp: served_def)
  have "segmented_text (assemble view ps) = (if region_events evs = [] then [] else FULLY_PRIVATE_CALLOUT)"
  proof (cases "region_events evs = []")
    case True
    then have "\<forall>p \<in> set ps. \<not> is_region_piece (snd p)"
      using counts(3) by (auto simp: filter_empty_conv)
    from fold_nothing_without_regions [OF unserved this, of ?st] True counts(3) show ?thesis
      by (simp add: assemble_def Let_def default_segmented_def segmented_text_def)
  next
    case False
    then show ?thesis
      unfolding assemble_def Let_def counts(3) fold_assemble_counts counts(2) fold_no_prose [OF unserved]
      using assms(2) by (simp add: evs_def [symmetric] segmented_text_def)
  qed
  moreover have "ro_text (render_for_sender page db view) = (if db = [] then [] else segmented_text (assemble view ps))"
    using assms(1)
    by (auto simp: render_for_sender_def render_for_sender_segments_def into_output_def ps_def evs_def Let_def
        default_segmented_def segmented_text_def)
  ultimately show ?thesis
    by (auto simp: evs_def [symmetric] serves_nothing_def)
qed

lemma nothing_readable_shows_nothing_witness:
  "ro_text (render_for_sender ''# Trip {{subject=user:alice}}secret{{/}} done'' [(sample_fact, \<lparr>rg_subject = User ''alice'', rg_allow = [], rg_excluded = [], rg_sender = None\<rparr>)]
     (bob_view SectionBySection)) = FULLY_PRIVATE_CALLOUT"
proof -
  let ?p = "''# Trip {{subject=user:alice}}secret{{/}} done''"
    and ?db = "[(sample_fact, \<lparr>rg_subject = User ''alice'', rg_allow = [], rg_excluded = [], rg_sender = None\<rparr>)]"
  have "rv_page (bob_view SectionBySection) = FactsAlone \<or> rv_page (bob_view SectionBySection) = SectionBySection"
    by (simp add: bob_view_def)
  moreover have "visible_regions (bob_view SectionBySection) ?db (events (parse (doc_body ?p))) = []"
    by code_simp
  moreover have "region_events (events (parse (doc_body ?p))) \<noteq> []" by code_simp
  ultimately show ?thesis using nothing_readable_shows_nothing by simp
qed

text \<open>
  every fact id the dashboard can click through belongs to a region of the page, indexed in the
  page's ACL map, that this reader may read according to the stored record (not to the marker), and
  the segment carries that region's body, trimmed at most.
\<close>

lemma served_fact_ids_are_readable:
  assumes "s \<in> set (segments (render_for_sender_segments page db view))" "rs_fact_id s = Some fid"
  shows "\<exists>attrs body rec.
    (attrs, body) \<in> set (region_events (events (parse (doc_body page)))) \<and>
    ra_fact_id attrs = Some fid \<and> map_of db fid = Some rec \<and>
    can_read \<lparr>acl_subject = Some (rg_subject rec), acl_allow = rg_allow rec, acl_excluded = rg_excluded rec\<rparr>
      (rv_sender_id view) (rv_sender_groups view) (rg_sender rec) \<and>
    rs_text s \<in> {body, trim body}"
proof -
  have "rv_page view = AsWritten \<or> db \<noteq> []"
    using assms(1) by (auto simp: render_for_sender_segments_def default_segmented_def Let_def split: if_splits)
  with assms obtain sec b where "(sec, PieceRegion b True (Some fid)) \<in>
      set (page_pieces view db (doc_body page) (events (parse (doc_body page))) 0)" and b: "rs_text s \<in> {b, trim b}"
    using assemble_segments by (metis render_segments_unfold)
  from page_pieces_region_event [OF this(1)] obtain a where
    a: "(a, b) \<in> set (region_events (events (parse (doc_body page))))" "region_visible view db a"
       "segment_fact_id a db = Some fid" by auto
  then obtain rec where "ra_fact_id a = Some fid" "map_of db fid = Some rec"
    by (auto simp: segment_fact_id_def split: option.splits if_splits)
  with a b show ?thesis
    by (intro exI [of _ a] exI [of _ b] exI [of _ rec])
      (simp add: region_visible_def resolve_region_acl_def)
qed

definition shared_page :: string where
  "shared_page = ''Bob: '' @ render_marker sample_fact ''likes tea''"

definition shared_map :: fact_acl_map where
  "shared_map = [(sample_fact, \<lparr>rg_subject = Group ''family'', rg_allow = [], rg_excluded = [], rg_sender = None\<rparr>)]"

lemma served_fact_ids_are_readable_witness:
  "\<exists>attrs body rec.
    (attrs, body) \<in> set (region_events (events (parse (doc_body shared_page)))) \<and>
    ra_fact_id attrs = Some sample_fact \<and> map_of shared_map sample_fact = Some rec \<and>
    can_read \<lparr>acl_subject = Some (rg_subject rec), acl_allow = rg_allow rec, acl_excluded = rg_excluded rec\<rparr>
      ''bob'' [''family''] (rg_sender rec) \<and>
    ''likes tea'' \<in> {body, trim body}"
proof -
  let ?s = "\<lparr>rs_text = ''likes tea'', rs_fact_id = Some sample_fact\<rparr>"
  have "?s \<in> set (segments (render_for_sender_segments shared_page shared_map (bob_view Whole)))"
    by code_simp
  from served_fact_ids_are_readable [OF this, of sample_fact] show ?thesis
    by (simp add: bob_view_def)
qed

text \<open>
  A fact that left the index is withheld from everybody. Whatever active facts the page still has and
  whoever reads it in whatever mode, the bare marker of a fact that is not in the page's active map
  (retired, forgotten, or unknown) is not served: the marker grants nothing by itself.
\<close>

lemma retired_fact_is_withheld:
  assumes "fact_id_parse (fact_id_str fid) = Inr fid" "embed_only_markers body = Some embeds"
    and "map_of db fid = None"
  shows "serves_nothing (ro_text (render_for_sender (render_marker fid body) db view))"
proof -
  let ?page = "render_marker fid body" and ?a = "default_region_attrs\<lparr>ra_fact_id := Some fid\<rparr>"
  have doc: "doc_body ?page = ?page"
    by (simp add: doc_body_def markdown_doc_parse_def strip_fence_line_def render_marker_def)
  have hidden: "\<not> region_visible view db ?a"
    using assms(3)
    by (simp add: region_visible_def resolve_region_acl_def default_region_attrs_def default_acl_def can_read_def)
  have pieces: "page_pieces view db ?page (events (parse ?page)) 0 = [(0, PieceRegion body False None)]"
    using hidden assms(3)
    by (simp add: parse_render_marker [OF assms(1,2)] segment_fact_id_def)
  have "segmented_text (assemble view [(0, PieceRegion body False None)]) = FULLY_PRIVATE_CALLOUT"
    by (simp add: assemble_def Let_def segmented_text_def)
  then have "ro_text (render_for_sender ?page db view) \<in> {[], FULLY_PRIVATE_CALLOUT}"
    by (simp add: render_for_sender_def render_for_sender_segments_def doc pieces into_output_def Let_def
        default_segmented_def segmented_text_def)
  then show ?thesis by (auto simp: serves_nothing_def)
qed

section \<open>The reveal render\<close>

lemma is_inline_region_total:
  assumes "is_char_boundary h s" "is_char_boundary h e" "s \<le> length h" "e \<le> length h"
  shows "is_inline_region h s e \<noteq> None"
  using assms by (simp add: is_inline_region_def checked_slice_def)

lemma reveal_events_total:
  assumes "\<forall>ev \<in> set evs. is_char_boundary h (event_start ev) \<and> is_char_boundary h (event_end ev) \<and>
             event_start ev \<le> length h \<and> event_end ev \<le> length h"
  shows "\<exists>out'. reveal_events h b db u gs evs out = Some out' \<and> blocks_redacted out' = blocks_redacted out \<and>
    blocks_revealed out' = blocks_revealed out +
      length (hidden_regions \<lparr>rv_sender_id = u, rv_sender_groups = gs, rv_page = AsWritten, rv_may_go = None\<rparr> db evs)"
  using assms
proof (induction h b db u gs evs out rule: reveal_events.induct)
  case (4 h b db u gs s e attrs bs be region embeds evs out)
  obtain resolved snd_of where r: "resolve_region_acl attrs db = (resolved, snd_of)" by fastforce
  from "4.prems" have "is_inline_region h s e \<noteq> None" by (intro is_inline_region_total) auto
  then obtain inl where inl: "is_inline_region h s e = Some inl" by auto
  show ?case
  proof (cases "can_read resolved u gs snd_of")
    case True
    with "4.IH"(1) [OF r [symmetric] refl refl] "4.prems" r show ?thesis
      by (simp add: hidden_regions_def region_visible_def)
  next
    case False
    with "4.IH"(2) [OF r [symmetric] refl refl False inl refl] "4.prems" r inl show ?thesis
      by (simp add: hidden_regions_def region_visible_def Let_def)
  qed
qed (simp_all add: hidden_regions_def)

text \<open>
  The administrator's reveal hides nothing. On a page without frontmatter (valid UTF-8) it always
  produces an output, no block is redacted, and the revealed count is exactly the number of regions
  the administrator could not have read as a reader.
\<close>

lemma reveal_shows_everything:
  assumes "str_ok page" "doc_body page = page"
  shows "\<exists>out. render_admin_reveal_segments page db u gs = Some out \<and> blocks_redacted out = 0 \<and>
    blocks_revealed out = length (hidden_regions (as_written u gs) db (events (parse page)))"
proof -
  have "\<forall>ev \<in> set (events (parse page)). is_char_boundary page (event_start ev) \<and>
      is_char_boundary page (event_end ev) \<and> event_start ev \<le> length page \<and> event_end ev \<le> length page"
    using tiles_event [OF parse_tiles [of page]] cut_point_boundary [OF assms(1)]
    by (fastforce simp: cut_point_def)
  from reveal_events_total [OF this, of page db u gs default_segmented] show ?thesis
    by (simp add: render_admin_reveal_segments_def assms(2) as_written_def default_segmented_def Let_def)
qed

lemma reveal_shows_everything_witness:
  "\<exists>out. render_admin_reveal_segments sample_page [] ''alice'' [] = Some out \<and> blocks_redacted out = 0 \<and>
    blocks_revealed out = length (hidden_regions (as_written ''alice'' []) [] (events (parse sample_page)))"
proof -
  have "str_ok sample_page" "doc_body sample_page = sample_page" by code_simp+
  then show ?thesis by (rule reveal_shows_everything)
qed

text \<open>
  With frontmatter the offsets belong to the body but slice the whole file. On this page the end of
  the hidden region falls inside a two-byte character of the frontmatter and the render panics.
\<close>

definition page_with_frontmatter :: string where
  "page_with_frontmatter =
     ''---'' @ [newline] @ ''a'' @ concat (replicate 12 [CHR 0xC3, CHR 0xA0]) @ [newline] @ ''---'' @ [newline] @
     ''{{subject=user:alice}}x{{/}}''"

lemma reveal_panics_on_frontmatter:
  "str_ok page_with_frontmatter \<and> render_admin_reveal_segments page_with_frontmatter [] ''bob'' [] = None"
  by code_simp

end
