(* ===== verification/Mwe_FactIndex.thy ===== *)
theory Mwe_FactIndex
  imports Mwe_Acl Mwe_Wiki "HOL-Library.Product_Lexorder"
begin

text \<open>
  The fact store of \<open>crates/mwe-core/src/fact_index.rs\<close>. The table \<open>fact_index\<close> is the list of its rows,
  an \<open>UPDATE \<dots> WHERE\<close> is \<open>sql_update\<close> (the new table and the number of rows touched), and every
  primitive that writes the table is a function of it. \<open>now\<close> is the wall clock read by the primitive.

  Validity bounds are text columns that may hold anything; reading one as an instant
  (\<open>instant_of\<close>, nanoseconds) and writing an instant at seconds precision (\<open>bound_from_instant\<close>) is the
  crate \<open>chrono\<close>, so both are parameters, and so is SQLite's \<open>datetime\<close>. What is relied on is named
  \<open>clock_ok\<close>: writing an instant and reading it back truncates it to the second.
\<close>

section \<open>Rows\<close>

type_synonym bound = string

record fact_row =
  fr_fact_id :: fact_id
  fr_wiki_id :: string
  fr_source_path :: string
  fr_region_start :: "int option"
  fr_region_end :: "int option"
  fr_text :: string
  fr_embedding :: string
  fr_subject_id :: principal
  fr_subject_external :: "string option"
  fr_slot :: "string option"
  fr_slot_value :: "string option"
  fr_allow_ids :: "principal list"
  fr_excluded_ids :: "principal list"
  fr_sender_id :: "principal option"
  fr_fact_type :: "string option"
  fr_topics :: "string list"
  fr_created_at :: string
  fr_updated_at :: string
  fr_superseded_at :: "string option"
  fr_superseded_by :: "fact_id option"
  fr_successor_fact_id :: "fact_id option"
  fr_deleted_at :: "string option"
  fr_deleted_reason :: "string option"
  fr_last_recall_at :: "string option"
  fr_recall_count_30d :: int
  fr_valid_from :: "bound option"
  fr_valid_to :: "bound option"
  fr_decay_reason :: "string option"
  fr_salience :: "string option"
  fr_target_page :: "string option"
  fr_style :: "page_style option"
  fr_source_ref :: "string option"
  fr_authored_refs :: "string list"

type_synonym fact_table = "fact_row list"

record new_fact =
  nf_fact_id :: fact_id
  nf_wiki_id :: string
  nf_source_path :: string
  nf_region_start :: "int option"
  nf_region_end :: "int option"
  nf_text :: string
  nf_embedding :: string
  nf_subject_id :: principal
  nf_allow_ids :: "principal list"
  nf_excluded_ids :: "principal list"
  nf_sender_id :: "principal option"
  nf_fact_type :: "string option"
  nf_topics :: "string list"
  nf_valid_from :: "bound option"
  nf_valid_to :: "bound option"
  nf_salience :: "string option"
  nf_target_page :: "string option"
  nf_style :: "page_style option"
  nf_source_ref :: "string option"
  nf_authored_refs :: "string list"
  nf_subject_external :: "string option"
  nf_slot :: "string option"
  nf_slot_value :: "string option"

definition is_an_identity_kind :: "string option \<Rightarrow> bool" where
  "is_an_identity_kind fact_type \<longleftrightarrow> fact_type = Some ''bio''"

definition belongs_on_an_identity_card :: "string option \<Rightarrow> string option \<Rightarrow> bool" where
  "belongs_on_an_identity_card fact_type salience \<longleftrightarrow>
     is_an_identity_kind fact_type \<and> salience = Some ''high''"

definition is_identity_core :: "fact_row \<Rightarrow> bool" where
  "is_identity_core row = belongs_on_an_identity_card (fr_fact_type row) (fr_salience row)"

section \<open>SQL statements\<close>

definition sql_update ::
  "(fact_row \<Rightarrow> bool) \<Rightarrow> (fact_row \<Rightarrow> fact_row) \<Rightarrow> fact_table \<Rightarrow> fact_table \<times> nat" where
  "sql_update P f tab = (map (\<lambda>r. if P r then f r else r) tab, length (filter P tab))"

definition coalesce :: "'a option \<Rightarrow> 'a option \<Rightarrow> 'a option" where
  "coalesce a b = (case a of Some x \<Rightarrow> Some x | None \<Rightarrow> b)"

definition find_by_id :: "fact_table \<Rightarrow> fact_id \<Rightarrow> fact_row option" where
  "find_by_id tab fid = List.find (\<lambda>r. fr_fact_id r = fid) tab"

definition live :: "fact_id \<Rightarrow> fact_row \<Rightarrow> bool" where
  "live fid r \<longleftrightarrow> fr_fact_id r = fid \<and> fr_deleted_at r = None"

definition active :: "fact_row \<Rightarrow> bool" where
  "active r \<longleftrightarrow> fr_superseded_at r = None \<and> fr_deleted_at r = None"

section \<open>Insert\<close>

datatype fact_index_error = UniqueViolation fact_id

definition row_of_new_fact :: "string \<Rightarrow> new_fact \<Rightarrow> fact_row" where
  "row_of_new_fact now nf =
     \<lparr>fr_fact_id = nf_fact_id nf, fr_wiki_id = nf_wiki_id nf, fr_source_path = nf_source_path nf,
      fr_region_start = nf_region_start nf, fr_region_end = nf_region_end nf,
      fr_text = nf_text nf, fr_embedding = nf_embedding nf,
      fr_subject_id = nf_subject_id nf, fr_subject_external = nf_subject_external nf,
      fr_slot = nf_slot nf, fr_slot_value = nf_slot_value nf,
      fr_allow_ids = nf_allow_ids nf, fr_excluded_ids = nf_excluded_ids nf,
      fr_sender_id = nf_sender_id nf, fr_fact_type = nf_fact_type nf, fr_topics = nf_topics nf,
      fr_created_at = now, fr_updated_at = now, fr_superseded_at = None, fr_superseded_by = None,
      fr_successor_fact_id = None, fr_deleted_at = None, fr_deleted_reason = None,
      fr_last_recall_at = None, fr_recall_count_30d = 0,
      fr_valid_from = nf_valid_from nf, fr_valid_to = nf_valid_to nf, fr_decay_reason = None,
      fr_salience = nf_salience nf, fr_target_page = nf_target_page nf, fr_style = nf_style nf,
      fr_source_ref = nf_source_ref nf, fr_authored_refs = nf_authored_refs nf\<rparr>"

definition insert_with ::
  "string \<Rightarrow> new_fact \<Rightarrow> bool \<Rightarrow> fact_table \<Rightarrow> fact_index_error + (fact_table \<times> nat)" where
  "insert_with now nf ignore_conflict tab =
     (if nf_fact_id nf \<in> set (map fr_fact_id tab)
      then (if ignore_conflict then Inr (tab, 0) else Inl (UniqueViolation (nf_fact_id nf)))
      else Inr (tab @ [row_of_new_fact now nf], 1))"

definition fact_insert :: "string \<Rightarrow> new_fact \<Rightarrow> fact_table \<Rightarrow> fact_index_error + fact_table" where
  "fact_insert now nf tab = map_sum id fst (insert_with now nf False tab)"

definition insert_if_absent ::
  "string \<Rightarrow> new_fact \<Rightarrow> fact_table \<Rightarrow> fact_index_error + (fact_table \<times> nat)" where
  "insert_if_absent now nf tab = insert_with now nf True tab"

section \<open>Validity windows\<close>

definition end_not_before_start ::
  "(bound \<Rightarrow> int option) \<Rightarrow> (int \<Rightarrow> bound) \<Rightarrow> bound option \<Rightarrow> bound \<Rightarrow> int \<Rightarrow> bound" where
  "end_not_before_start instant_of bound_from_instant valid_from proposed_end closure_instant =
     (case valid_from of
        None \<Rightarrow> proposed_end
      | Some start_raw \<Rightarrow>
        (case instant_of start_raw of
           None \<Rightarrow> proposed_end
         | Some start \<Rightarrow>
           (case instant_of proposed_end of
              None \<Rightarrow> proposed_end
            | Some e \<Rightarrow>
                if e \<ge> start then proposed_end
                else if closure_instant \<ge> start then bound_from_instant closure_instant
                else start_raw)))"

definition window_is_inverted :: "(bound \<Rightarrow> int option) \<Rightarrow> bound option \<Rightarrow> bound option \<Rightarrow> bool" where
  "window_is_inverted instant_of valid_from valid_to =
     (case (Option.bind valid_from instant_of, Option.bind valid_to instant_of) of
        (Some from, Some to) \<Rightarrow> to < from
      | _ \<Rightarrow> False)"

definition current_valid_from :: "fact_table \<Rightarrow> fact_id \<Rightarrow> bound option" where
  "current_valid_from tab fid = Option.bind (find_by_id tab fid) fr_valid_from"

text \<open>The successor may still sit in the capture buffer, given here by its validity starts.\<close>

definition successor_valid_from ::
  "(fact_id \<Rightarrow> bound option option) \<Rightarrow> fact_table \<Rightarrow> fact_id \<Rightarrow> bound option" where
  "successor_valid_from buffer tab fid =
     (case find_by_id tab fid of
        Some r \<Rightarrow> fr_valid_from r
      | None \<Rightarrow> (case buffer fid of None \<Rightarrow> None | Some v \<Rightarrow> v))"

section \<open>Lifecycle mutations\<close>

definition mark_superseded ::
  "(bound \<Rightarrow> int option) \<Rightarrow> (int \<Rightarrow> bound) \<Rightarrow> (fact_id \<Rightarrow> bound option option) \<Rightarrow> string \<Rightarrow>
   fact_id \<Rightarrow> fact_id \<Rightarrow> int \<Rightarrow> fact_table \<Rightarrow> fact_table \<times> nat" where
  "mark_superseded instant_of bound_from_instant buffer now old_fact_id new_fact_id when_unstated tab =
     (let proposed = (case successor_valid_from buffer tab new_fact_id of
                        Some v \<Rightarrow> v | None \<Rightarrow> bound_from_instant when_unstated);
          closed_at = end_not_before_start instant_of bound_from_instant
                        (current_valid_from tab old_fact_id) proposed when_unstated
      in sql_update (\<lambda>r. fr_fact_id r = old_fact_id \<and> fr_superseded_at r = None \<and> fr_deleted_at r = None)
           (\<lambda>r. r\<lparr>fr_superseded_at := Some now, fr_superseded_by := Some new_fact_id, fr_updated_at := now,
                  fr_valid_to := coalesce (fr_valid_to r) (Some closed_at),
                  fr_decay_reason := coalesce (fr_decay_reason r) (Some ''contradicted'')\<rparr>) tab)"

record closed_validity =
  cv_written_valid_to :: bound
  cv_prev_valid_to :: "bound option"
  cv_prev_decay_reason :: "string option"
  cv_prev_successor_fact_id :: "fact_id option"

definition close_validity ::
  "(bound \<Rightarrow> int option) \<Rightarrow> (int \<Rightarrow> bound) \<Rightarrow> string \<Rightarrow> fact_id \<Rightarrow> bound \<Rightarrow> string \<Rightarrow> fact_id option \<Rightarrow> int \<Rightarrow>
   fact_table \<Rightarrow> fact_table \<times> closed_validity option" where
  "close_validity instant_of bound_from_instant now fid valid_to reason successor when_unstated tab =
     (case find_by_id tab fid of
        None \<Rightarrow> (tab, None)
      | Some row \<Rightarrow>
          if fr_deleted_at row \<noteq> None then (tab, None)
          else (let vt = end_not_before_start instant_of bound_from_instant (fr_valid_from row) valid_to when_unstated
                in (fst (sql_update (live fid)
                      (\<lambda>r. r\<lparr>fr_valid_to := Some vt, fr_decay_reason := Some reason,
                             fr_successor_fact_id := coalesce successor (fr_successor_fact_id r),
                             fr_updated_at := now\<rparr>) tab),
                    Some \<lparr>cv_written_valid_to = vt, cv_prev_valid_to = fr_valid_to row,
                          cv_prev_decay_reason = fr_decay_reason row,
                          cv_prev_successor_fact_id = fr_successor_fact_id row\<rparr>)))"

datatype validity_edit = Applied "bound option" "bound option" | NoSuchRow | EndBeforeStart

definition set_validity ::
  "(bound \<Rightarrow> int option) \<Rightarrow> string \<Rightarrow> fact_id \<Rightarrow> bound option \<Rightarrow> bound option \<Rightarrow> fact_table \<Rightarrow>
   fact_table \<times> validity_edit" where
  "set_validity instant_of now fid valid_from valid_to tab =
     (case find_by_id tab fid of
        None \<Rightarrow> (tab, NoSuchRow)
      | Some row \<Rightarrow>
          if fr_deleted_at row \<noteq> None then (tab, NoSuchRow)
          else (let new_from = (case valid_from of None \<Rightarrow> fr_valid_from row | Some v \<Rightarrow> Some v);
                    new_to = (case valid_to of None \<Rightarrow> fr_valid_to row | Some v \<Rightarrow> Some v)
                in if window_is_inverted instant_of new_from new_to then (tab, EndBeforeStart)
                   else (fst (sql_update (live fid)
                           (\<lambda>r. r\<lparr>fr_valid_from := new_from, fr_valid_to := new_to, fr_updated_at := now\<rparr>) tab),
                         Applied (fr_valid_from row) (fr_valid_to row))))"

definition set_fact_type ::
  "(bound \<Rightarrow> int option) \<Rightarrow> (int \<Rightarrow> bound) \<Rightarrow> string \<Rightarrow> fact_id \<Rightarrow> string \<Rightarrow> bound option \<Rightarrow> int \<Rightarrow>
   fact_table \<Rightarrow> fact_table \<times> (string option \<times> bound option) option" where
  "set_fact_type instant_of bound_from_instant now fid fact_type valid_to when_unstated tab =
     (case find_by_id tab fid of
        None \<Rightarrow> (tab, None)
      | Some row \<Rightarrow>
          if fr_deleted_at row \<noteq> None then (tab, None)
          else (let new_to = (case valid_to of
                       Some v \<Rightarrow> Some (end_not_before_start instant_of bound_from_instant (fr_valid_from row) v when_unstated)
                     | None \<Rightarrow> fr_valid_to row)
                in (fst (sql_update (live fid)
                      (\<lambda>r. r\<lparr>fr_fact_type := Some fact_type, fr_valid_to := new_to, fr_updated_at := now\<rparr>) tab),
                    Some (fr_fact_type row, fr_valid_to row))))"

section \<open>ACL mutations\<close>

record prev_acl =
  pa_subject_id :: principal
  pa_allow_ids :: "principal list"
  pa_sender_id :: "principal option"

definition prev_acl_of :: "fact_row \<Rightarrow> prev_acl" where
  "prev_acl_of row =
     \<lparr>pa_subject_id = fr_subject_id row, pa_allow_ids = fr_allow_ids row, pa_sender_id = fr_sender_id row\<rparr>"

text \<open>The list with each principal kept at its first occurrence, as both loops build it.\<close>

fun push_once :: "principal list \<Rightarrow> principal list \<Rightarrow> principal list" where
  "push_once acc [] = acc"
| "push_once acc (p # ps) = push_once (if p \<in> set acc then acc else acc @ [p]) ps"

definition set_acl ::
  "string \<Rightarrow> fact_id \<Rightarrow> principal \<Rightarrow> principal list \<Rightarrow> principal option \<Rightarrow> principal list option \<Rightarrow>
   fact_table \<Rightarrow> fact_table \<times> prev_acl option" where
  "set_acl now fid subject allow sender excluded tab =
     (case find_by_id tab fid of
        None \<Rightarrow> (tab, None)
      | Some row \<Rightarrow>
          if fr_deleted_at row \<noteq> None then (tab, None)
          else (fst (sql_update (live fid)
                  (\<lambda>r. r\<lparr>fr_subject_id := subject, fr_allow_ids := allow, fr_sender_id := sender,
                         fr_updated_at := now,
                         fr_excluded_ids := (case excluded of None \<Rightarrow> fr_excluded_ids r
                                             | Some list \<Rightarrow> push_once [] list)\<rparr>) tab),
                Some (prev_acl_of row)))"

definition restrict_to ::
  "string \<Rightarrow> fact_id \<Rightarrow> principal list \<Rightarrow> principal list \<Rightarrow> fact_table \<Rightarrow> fact_table \<times> prev_acl option" where
  "restrict_to now fid excluded readers tab =
     (case find_by_id tab fid of
        None \<Rightarrow> (tab, None)
      | Some row \<Rightarrow>
          if fr_deleted_at row \<noteq> None then (tab, None)
          else (let union = push_once [] (fr_excluded_ids row @ excluded);
                    (tab', n) = sql_update (live fid)
                      (\<lambda>r. r\<lparr>fr_excluded_ids := union, fr_allow_ids := readers, fr_updated_at := now\<rparr>) tab
                in if n = 0 then (tab', None) else (tab', Some (prev_acl_of row))))"

definition inherit_allow :: "string \<Rightarrow> fact_id \<Rightarrow> principal list \<Rightarrow> fact_table \<Rightarrow> fact_table \<times> bool" where
  "inherit_allow now fid allow tab =
     (let (tab', n) = sql_update (live fid) (\<lambda>r. r\<lparr>fr_allow_ids := allow, fr_updated_at := now\<rparr>) tab
      in (tab', 0 < n))"

definition stamp_decay_reason :: "string \<Rightarrow> fact_id \<Rightarrow> string \<Rightarrow> fact_table \<Rightarrow> fact_table \<times> nat" where
  "stamp_decay_reason now fid reason tab =
     sql_update (live fid) (\<lambda>r. r\<lparr>fr_decay_reason := Some reason, fr_updated_at := now\<rparr>) tab"

section \<open>Forgetting\<close>

definition tombstone :: "string \<Rightarrow> string \<Rightarrow> fact_row \<Rightarrow> fact_row" where
  "tombstone now reason r =
     r\<lparr>fr_deleted_at := Some now, fr_deleted_reason := Some reason, fr_updated_at := now\<rparr>"

definition mark_forgotten :: "string \<Rightarrow> fact_id \<Rightarrow> string \<Rightarrow> fact_table \<Rightarrow> fact_table \<times> nat" where
  "mark_forgotten now fid reason tab = sql_update (live fid) (tombstone now reason) tab"

definition mark_forgotten_at :: "string \<Rightarrow> fact_id \<Rightarrow> string \<Rightarrow> string \<Rightarrow> fact_table \<Rightarrow> fact_table \<times> nat" where
  "mark_forgotten_at now fid source_path reason tab =
     sql_update (\<lambda>r. live fid r \<and> fr_source_path r = source_path) (tombstone now reason) tab"

definition mark_forgotten_in_wiki :: "string \<Rightarrow> string \<Rightarrow> string \<Rightarrow> fact_table \<Rightarrow> fact_table \<times> nat" where
  "mark_forgotten_in_wiki now wiki_id reason tab =
     sql_update (\<lambda>r. fr_wiki_id r = wiki_id \<and> fr_deleted_at r = None) (tombstone now reason) tab"

definition replace_sender :: "string \<Rightarrow> principal \<Rightarrow> principal \<Rightarrow> fact_table \<Rightarrow> fact_table \<times> nat" where
  "replace_sender now from to tab =
     sql_update (\<lambda>r. fr_sender_id r = Some from \<and> fr_deleted_at r = None)
       (\<lambda>r. r\<lparr>fr_sender_id := Some to, fr_updated_at := now\<rparr>) tab"

definition retarget_subject :: "string \<Rightarrow> fact_id \<Rightarrow> principal \<Rightarrow> string \<Rightarrow> fact_table \<Rightarrow> fact_table \<times> nat" where
  "retarget_subject now fid subject name tab =
     sql_update (live fid)
       (\<lambda>r. r\<lparr>fr_subject_id := subject, fr_subject_external := coalesce (fr_subject_external r) (Some name),
              fr_updated_at := now\<rparr>) tab"

definition erase :: "fact_id \<Rightarrow> fact_table \<Rightarrow> fact_table \<times> nat" where
  "erase fid tab =
     (filter (\<lambda>r. fr_fact_id r \<noteq> fid) tab, length (filter (\<lambda>r. fr_fact_id r = fid) tab))"

definition strike_from_allow :: "string \<Rightarrow> principal \<Rightarrow> fact_table \<Rightarrow> fact_table \<times> nat" where
  "strike_from_allow now p tab =
     sql_update (\<lambda>r. fr_deleted_at r = None \<and> p \<in> set (fr_allow_ids r))
       (\<lambda>r. r\<lparr>fr_allow_ids := filter (\<lambda>q. q \<noteq> p) (fr_allow_ids r), fr_updated_at := now\<rparr>) tab"

definition by_sender :: "principal \<Rightarrow> string option \<Rightarrow> string option \<Rightarrow> fact_row \<Rightarrow> bool" where
  "by_sender sender wiki_id source_path r \<longleftrightarrow>
     fr_sender_id r = Some sender \<and> fr_deleted_at r = None \<and>
     (case wiki_id of None \<Rightarrow> True | Some w \<Rightarrow> fr_wiki_id r = w) \<and>
     (case source_path of None \<Rightarrow> True | Some p \<Rightarrow> fr_source_path r = p)"

definition mark_forgotten_by_sender ::
  "string \<Rightarrow> principal \<Rightarrow> string option \<Rightarrow> string option \<Rightarrow> string \<Rightarrow> fact_table \<Rightarrow> fact_table \<times> nat" where
  "mark_forgotten_by_sender now sender wiki_id source_path reason tab =
     sql_update (by_sender sender wiki_id source_path) (tombstone now reason) tab"

definition find_active_fact_ids_by_sender ::
  "principal \<Rightarrow> string option \<Rightarrow> string option \<Rightarrow> fact_table \<Rightarrow> fact_id list" where
  "find_active_fact_ids_by_sender sender wiki_id source_path tab =
     map fr_fact_id (filter (by_sender sender wiki_id source_path) tab)"

section \<open>Supersede chains and moves\<close>

definition clear_supersede :: "string \<Rightarrow> fact_id \<Rightarrow> fact_id \<Rightarrow> fact_table \<Rightarrow> fact_table \<times> nat" where
  "clear_supersede now fid expected_superseded_by tab =
     sql_update (\<lambda>r. fr_fact_id r = fid \<and> fr_superseded_by r = Some expected_superseded_by \<and> fr_deleted_at r = None)
       (\<lambda>r. r\<lparr>fr_superseded_at := None, fr_superseded_by := None, fr_updated_at := now\<rparr>) tab"

definition move_region ::
  "string \<Rightarrow> fact_id \<Rightarrow> string \<Rightarrow> int option \<Rightarrow> int option \<Rightarrow> fact_table \<Rightarrow> fact_table \<times> nat" where
  "move_region now fid new_source_path new_start new_end tab =
     sql_update (\<lambda>r. fr_fact_id r = fid \<and> active r)
       (\<lambda>r. r\<lparr>fr_source_path := new_source_path, fr_region_start := new_start, fr_region_end := new_end,
              fr_updated_at := now\<rparr>) tab"

definition move_to_wiki ::
  "string \<Rightarrow> fact_id \<Rightarrow> string \<Rightarrow> string \<Rightarrow> int option \<Rightarrow> int option \<Rightarrow> fact_table \<Rightarrow> fact_table \<times> nat" where
  "move_to_wiki now fid new_wiki_id new_source_path new_start new_end tab =
     sql_update (\<lambda>r. fr_fact_id r = fid \<and> active r)
       (\<lambda>r. r\<lparr>fr_wiki_id := new_wiki_id, fr_source_path := new_source_path, fr_region_start := new_start,
              fr_region_end := new_end, fr_updated_at := now\<rparr>) tab"

section \<open>Rewriting a region, recall counters, housekeeping\<close>

record region_update =
  ru_region_start :: "int option"
  ru_region_end :: "int option"
  ru_text :: string
  ru_embedding :: string

definition rewrite_region :: "string \<Rightarrow> region_update \<Rightarrow> fact_row \<Rightarrow> fact_row" where
  "rewrite_region now u r =
     r\<lparr>fr_region_start := ru_region_start u, fr_region_end := ru_region_end u, fr_text := ru_text u,
       fr_embedding := ru_embedding u, fr_updated_at := now\<rparr>"

definition update_region :: "string \<Rightarrow> fact_id \<Rightarrow> region_update \<Rightarrow> fact_table \<Rightarrow> fact_table \<times> nat" where
  "update_region now fid u tab = sql_update (\<lambda>r. fr_fact_id r = fid \<and> active r) (rewrite_region now u) tab"

definition update_region_and_authored_refs ::
  "string \<Rightarrow> fact_id \<Rightarrow> region_update \<Rightarrow> string list \<Rightarrow> fact_table \<Rightarrow> fact_table \<times> nat" where
  "update_region_and_authored_refs now fid u authored_refs tab =
     sql_update (\<lambda>r. fr_fact_id r = fid \<and> active r)
       (\<lambda>r. (rewrite_region now u r)\<lparr>fr_authored_refs := authored_refs\<rparr>) tab"

definition set_authored_refs :: "string \<Rightarrow> fact_id \<Rightarrow> string list \<Rightarrow> fact_table \<Rightarrow> fact_table \<times> nat" where
  "set_authored_refs now fid authored_refs tab =
     sql_update (\<lambda>r. fr_fact_id r = fid \<and> active r)
       (\<lambda>r. r\<lparr>fr_authored_refs := authored_refs, fr_updated_at := now\<rparr>) tab"

definition bump_one :: "string \<Rightarrow> fact_id \<Rightarrow> fact_table \<times> nat \<Rightarrow> fact_table \<times> nat" where
  "bump_one now fid st =
     (let (tab, n) = sql_update (\<lambda>r. fr_fact_id r = fid)
            (\<lambda>r. r\<lparr>fr_last_recall_at := Some now, fr_recall_count_30d := fr_recall_count_30d r + 1\<rparr>) (fst st)
      in (tab, snd st + n))"

definition bump_recall_hits :: "string \<Rightarrow> fact_id list \<Rightarrow> fact_table \<Rightarrow> fact_table \<times> nat" where
  "bump_recall_hits now hits tab = fold (bump_one now) hits (tab, 0)"

definition drop_by_source_path :: "string \<Rightarrow> fact_table \<Rightarrow> fact_table \<times> nat" where
  "drop_by_source_path source_path tab =
     (filter (\<lambda>r. fr_source_path r \<noteq> source_path) tab, length (filter (\<lambda>r. fr_source_path r = source_path) tab))"

definition clear_offsets :: "string \<Rightarrow> fact_row \<Rightarrow> fact_row" where
  "clear_offsets now r = r\<lparr>fr_region_start := None, fr_region_end := None, fr_updated_at := now\<rparr>"

definition clear_region_offsets_retired :: "string \<Rightarrow> fact_id \<Rightarrow> fact_table \<Rightarrow> fact_table \<times> nat" where
  "clear_region_offsets_retired now fid tab =
     sql_update (\<lambda>r. fr_fact_id r = fid \<and> \<not> active r) (clear_offsets now) tab"

definition clear_region_offsets_retired_on_page :: "string \<Rightarrow> string \<Rightarrow> fact_table \<Rightarrow> fact_table \<times> nat" where
  "clear_region_offsets_retired_on_page now source_path tab =
     sql_update (\<lambda>r. fr_source_path r = source_path \<and> \<not> active r \<and> fr_region_start r \<noteq> None) (clear_offsets now) tab"

definition set_wiki_id :: "string \<Rightarrow> fact_id \<Rightarrow> string \<Rightarrow> string \<Rightarrow> fact_table \<Rightarrow> fact_table \<times> nat" where
  "set_wiki_id now fid expected_wiki_id new_wiki_id tab =
     sql_update (\<lambda>r. fr_fact_id r = fid \<and> fr_wiki_id r = expected_wiki_id)
       (\<lambda>r. r\<lparr>fr_wiki_id := new_wiki_id, fr_updated_at := now\<rparr>) tab"

section \<open>The read side\<close>

definition region_acl_of :: "fact_row \<Rightarrow> region_acl" where
  "region_acl_of r =
     \<lparr>rg_subject = fr_subject_id r, rg_allow = fr_allow_ids r, rg_excluded = fr_excluded_ids r,
      rg_sender = fr_sender_id r\<rparr>"

definition page_acl_map_impl :: "bool \<Rightarrow> string \<Rightarrow> fact_table \<Rightarrow> fact_acl_map" where
  "page_acl_map_impl active_only source_path tab =
     map (\<lambda>r. (fr_fact_id r, region_acl_of r))
       (filter (\<lambda>r. fr_source_path r = source_path \<and> (active_only \<longrightarrow> active r)) tab)"

definition page_acl_map :: "string \<Rightarrow> fact_table \<Rightarrow> fact_acl_map" where
  "page_acl_map source_path tab = page_acl_map_impl False source_path tab"

definition page_acl_map_active :: "string \<Rightarrow> fact_table \<Rightarrow> fact_acl_map" where
  "page_acl_map_active source_path tab = page_acl_map_impl True source_path tab"

definition has_an_active_fact :: "string \<Rightarrow> fact_table \<Rightarrow> bool" where
  "has_an_active_fact source_path tab \<longleftrightarrow> list_ex (\<lambda>r. fr_source_path r = source_path \<and> active r) tab"

definition row_acl :: "fact_row \<Rightarrow> acl" where
  "row_acl r =
     \<lparr>acl_subject = Some (fr_subject_id r), acl_allow = fr_allow_ids r, acl_excluded = fr_excluded_ids r\<rparr>"

definition row_readable_by :: "fact_row \<Rightarrow> string \<Rightarrow> string list \<Rightarrow> bool" where
  "row_readable_by row sender_id sender_groups =
     can_read (row_acl row) sender_id sender_groups (fr_sender_id row)"

text \<open>
  The SQL read predicate, in SQL's three-valued logic (\<^const>\<open>None\<close> is NULL): the membership test of a
  NULL sender is NULL.
\<close>

definition sql_or :: "bool option \<Rightarrow> bool option \<Rightarrow> bool option" where
  "sql_or a b = (if a = Some True \<or> b = Some True then Some True
                 else if a = None \<or> b = None then None else Some False)"

definition sql_and :: "bool option \<Rightarrow> bool option \<Rightarrow> bool option" where
  "sql_and a b = (if a = Some False \<or> b = Some False then Some False
                  else if a = None \<or> b = None then None else Some True)"

definition readable_by_sql :: "string list \<Rightarrow> fact_row \<Rightarrow> bool option" where
  "readable_by_sql principals r =
     sql_and
       (Some (\<not> list_ex (\<lambda>p. principal_to_string p \<in> set principals) (fr_excluded_ids r)))
       (sql_or (Some (principal_to_string (fr_subject_id r) \<in> set principals))
         (sql_or (map_option (\<lambda>s. principal_to_string s \<in> set principals) (fr_sender_id r))
           (Some (list_ex (\<lambda>p. principal_to_string p \<in> set principals) (fr_allow_ids r)))))"

section \<open>Structured queries\<close>

text \<open>A sort value: SQLite orders NULL before numbers before text.\<close>

datatype sql_value = SqlNull | SqlInt int | SqlText string

instantiation sql_value :: linorder
begin

fun less_eq_sql_value :: "sql_value \<Rightarrow> sql_value \<Rightarrow> bool" where
  "less_eq_sql_value SqlNull _ = True"
| "less_eq_sql_value (SqlInt _) SqlNull = False"
| "less_eq_sql_value (SqlInt i) (SqlInt j) = (i \<le> j)"
| "less_eq_sql_value (SqlInt _) (SqlText _) = True"
| "less_eq_sql_value (SqlText s) (SqlText t) = (s \<le> t)"
| "less_eq_sql_value (SqlText _) _ = False"

definition less_sql_value :: "sql_value \<Rightarrow> sql_value \<Rightarrow> bool" where
  "less_sql_value a b \<longleftrightarrow> a \<le> b \<and> \<not> b \<le> a"

instance
proof
  fix x y z :: sql_value
  show "x < y \<longleftrightarrow> x \<le> y \<and> \<not> y \<le> x" by (rule less_sql_value_def)
  show "x \<le> x" by (cases x) auto
  show "x \<le> y \<Longrightarrow> y \<le> z \<Longrightarrow> x \<le> z" by (cases x; cases y; cases z) auto
  show "x \<le> y \<Longrightarrow> y \<le> x \<Longrightarrow> x = y" by (cases x; cases y) auto
  show "x \<le> y \<or> y \<le> x" by (cases x; cases y) auto
qed

end

datatype fact_sort_key =
    CreatedAt | UpdatedAt | LastRecallAt | RecallCount30d | ValidFrom | ValidTo | FactType | WikiIdKey
  | SubjectId | Salience

definition opt_text :: "string option \<Rightarrow> sql_value" where
  "opt_text x = (case x of None \<Rightarrow> SqlNull | Some s \<Rightarrow> SqlText s)"

fun order_expr :: "fact_sort_key \<Rightarrow> fact_row \<Rightarrow> sql_value" where
  "order_expr CreatedAt r = SqlText (fr_created_at r)"
| "order_expr UpdatedAt r = SqlText (fr_updated_at r)"
| "order_expr LastRecallAt r = opt_text (fr_last_recall_at r)"
| "order_expr RecallCount30d r = SqlInt (fr_recall_count_30d r)"
| "order_expr ValidFrom r = opt_text (fr_valid_from r)"
| "order_expr ValidTo r = opt_text (fr_valid_to r)"
| "order_expr FactType r = opt_text (fr_fact_type r)"
| "order_expr WikiIdKey r = SqlText (fr_wiki_id r)"
| "order_expr SubjectId r = SqlText (principal_to_string (fr_subject_id r))"
| "order_expr Salience r =
     (case fr_salience r of
        None \<Rightarrow> SqlInt 3
      | Some s \<Rightarrow> SqlInt (if s = ''high'' then 0 else if s = ''normal'' then 1 else if s = ''low'' then 2 else 3))"

definition fact_sort_key_from_token :: "string \<Rightarrow> fact_sort_key option" where
  "fact_sort_key_from_token token =
     map_of [(''created_at'', CreatedAt), (''updated_at'', UpdatedAt), (''last_recall_at'', LastRecallAt),
             (''recall_count_30d'', RecallCount30d), (''valid_from'', ValidFrom), (''valid_to'', ValidTo),
             (''fact_type'', FactType), (''wiki_id'', WikiIdKey), (''subject_id'', SubjectId),
             (''owner_id'', SubjectId), (''salience'', Salience)] token"

record fact_filters =
  ff_wiki_id :: "string option"
  ff_subject_id :: "principal option"
  ff_sender_id :: "principal option"
  ff_fact_type :: "string option"
  ff_created_after :: "string option"
  ff_created_before :: "string option"
  ff_topics_any :: "string list"
  ff_valid_at :: "string option"
  ff_limit :: nat
  ff_sort :: "(fact_sort_key \<times> bool) option"
  ff_include_inactive :: bool
  ff_readable_by :: "string list option"

definition no_filters :: fact_filters where
  "no_filters =
     \<lparr>ff_wiki_id = None, ff_subject_id = None, ff_sender_id = None, ff_fact_type = None,
      ff_created_after = None, ff_created_before = None, ff_topics_any = [], ff_valid_at = None,
      ff_limit = 0, ff_sort = None, ff_include_inactive = False, ff_readable_by = None\<rparr>"

definition sql_le :: "'a :: linorder option \<Rightarrow> 'a option \<Rightarrow> bool option" where
  "sql_le a b = (case (a, b) of (Some x, Some y) \<Rightarrow> Some (x \<le> y) | _ \<Rightarrow> None)"

definition sql_less :: "'a :: linorder option \<Rightarrow> 'a option \<Rightarrow> bool option" where
  "sql_less a b = (case (a, b) of (Some x, Some y) \<Rightarrow> Some (x < y) | _ \<Rightarrow> None)"

text \<open>The conjuncts of the WHERE clause; a row is kept when each of them is true.\<close>

definition filter_preds :: "(string \<Rightarrow> int option) \<Rightarrow> fact_filters \<Rightarrow> fact_row \<Rightarrow> bool option list" where
  "filter_preds datetime f r =
     (if ff_include_inactive f then [] else [Some (active r)]) @
     (case ff_wiki_id f of None \<Rightarrow> [] | Some w \<Rightarrow> [Some (fr_wiki_id r = w)]) @
     (case ff_subject_id f of None \<Rightarrow> [] | Some p \<Rightarrow> [Some (fr_subject_id r = p)]) @
     (case ff_sender_id f of None \<Rightarrow> [] | Some p \<Rightarrow> [map_option (\<lambda>s. s = p) (fr_sender_id r)]) @
     (case ff_fact_type f of None \<Rightarrow> [] | Some k \<Rightarrow> [map_option (\<lambda>s. s = k) (fr_fact_type r)]) @
     (case ff_created_after f of None \<Rightarrow> [] | Some a \<Rightarrow> [Some (a \<le> fr_created_at r)]) @
     (case ff_created_before f of None \<Rightarrow> [] | Some b \<Rightarrow> [Some (fr_created_at r < b)]) @
     (if ff_topics_any f = [] then [] else [Some (list_ex (\<lambda>t. t \<in> set (fr_topics r)) (ff_topics_any f))]) @
     (case ff_valid_at f of
        None \<Rightarrow> []
      | Some at \<Rightarrow>
          [sql_or (Some (fr_valid_from r = None)) (sql_le (Option.bind (fr_valid_from r) datetime) (datetime at)),
           sql_or (Some (fr_valid_to r = None)) (sql_less (datetime at) (Option.bind (fr_valid_to r) datetime))]) @
     (case ff_readable_by f of
        None \<Rightarrow> []
      | Some ps \<Rightarrow> if ps = [] then [] else [readable_by_sql ps r])"

definition matches :: "(string \<Rightarrow> int option) \<Rightarrow> fact_filters \<Rightarrow> fact_row \<Rightarrow> bool" where
  "matches datetime f r = list_all (\<lambda>p. p = Some True) (filter_preds datetime f r)"

definition order_rows :: "(fact_sort_key \<times> bool) option \<Rightarrow> fact_row list \<Rightarrow> fact_row list" where
  "order_rows srt rows =
     (let (key, desc) = (case srt of None \<Rightarrow> (CreatedAt, True) | Some s \<Rightarrow> s);
          asc = sort_key (\<lambda>r. (order_expr key r, fr_fact_id r)) rows
      in if desc then rev asc else asc)"

definition find_by_filters ::
  "(string \<Rightarrow> int option) \<Rightarrow> fact_filters \<Rightarrow> fact_table \<Rightarrow> fact_row list" where
  "find_by_filters datetime f tab =
     (let rows = order_rows (ff_sort f) (filter (matches datetime f) tab)
      in if ff_limit f > 0 then take (ff_limit f) rows else rows)"

section \<open>The operations as one step\<close>

record store_env =
  se_instant_of :: "bound \<Rightarrow> int option"
  se_bound_from_instant :: "int \<Rightarrow> bound"
  se_buffer :: "fact_id \<Rightarrow> bound option option"

datatype fact_op =
    OpInsert new_fact
  | OpInsertIfAbsent new_fact
  | OpSupersede fact_id fact_id int
  | OpClose fact_id bound string "fact_id option" int
  | OpSetValidity fact_id "bound option" "bound option"
  | OpSetFactType fact_id string "bound option" int
  | OpSetAcl fact_id principal "principal list" "principal option" "principal list option"
  | OpRestrict fact_id "principal list" "principal list"
  | OpInheritAllow fact_id "principal list"
  | OpStampDecay fact_id string
  | OpForget fact_id string
  | OpForgetAt fact_id string string
  | OpForgetWiki string string
  | OpForgetBySender principal "string option" "string option" string
  | OpReplaceSender principal principal
  | OpRetarget fact_id principal string
  | OpErase fact_id
  | OpStrike principal
  | OpClearSupersede fact_id fact_id
  | OpMoveRegion fact_id string "int option" "int option"
  | OpMoveToWiki fact_id string string "int option" "int option"
  | OpUpdateRegion fact_id region_update
  | OpUpdateRegionRefs fact_id region_update "string list"
  | OpSetRefs fact_id "string list"
  | OpBumpRecall "fact_id list"
  | OpDropByPath string
  | OpClearOffsets fact_id
  | OpClearOffsetsOnPage string
  | OpSetWikiId fact_id string string

fun run_op :: "store_env \<Rightarrow> string \<Rightarrow> fact_op \<Rightarrow> fact_table \<Rightarrow> fact_table" where
  "run_op env now (OpInsert nf) tab = (case fact_insert now nf tab of Inl _ \<Rightarrow> tab | Inr tab' \<Rightarrow> tab')"
| "run_op env now (OpInsertIfAbsent nf) tab =
     (case insert_if_absent now nf tab of Inl _ \<Rightarrow> tab | Inr (tab', _) \<Rightarrow> tab')"
| "run_op env now (OpSupersede a b w) tab =
     fst (mark_superseded (se_instant_of env) (se_bound_from_instant env) (se_buffer env) now a b w tab)"
| "run_op env now (OpClose a vt why succ w) tab =
     fst (close_validity (se_instant_of env) (se_bound_from_instant env) now a vt why succ w tab)"
| "run_op env now (OpSetValidity a vf vt) tab = fst (set_validity (se_instant_of env) now a vf vt tab)"
| "run_op env now (OpSetFactType a k vt w) tab =
     fst (set_fact_type (se_instant_of env) (se_bound_from_instant env) now a k vt w tab)"
| "run_op env now (OpSetAcl a s al snd_of ex) tab = fst (set_acl now a s al snd_of ex tab)"
| "run_op env now (OpRestrict a ex rd) tab = fst (restrict_to now a ex rd tab)"
| "run_op env now (OpInheritAllow a al) tab = fst (inherit_allow now a al tab)"
| "run_op env now (OpStampDecay a why) tab = fst (stamp_decay_reason now a why tab)"
| "run_op env now (OpForget a why) tab = fst (mark_forgotten now a why tab)"
| "run_op env now (OpForgetAt a p why) tab = fst (mark_forgotten_at now a p why tab)"
| "run_op env now (OpForgetWiki w why) tab = fst (mark_forgotten_in_wiki now w why tab)"
| "run_op env now (OpForgetBySender s w p why) tab = fst (mark_forgotten_by_sender now s w p why tab)"
| "run_op env now (OpReplaceSender f t) tab = fst (replace_sender now f t tab)"
| "run_op env now (OpRetarget a s nm) tab = fst (retarget_subject now a s nm tab)"
| "run_op env now (OpErase a) tab = fst (erase a tab)"
| "run_op env now (OpStrike p) tab = fst (strike_from_allow now p tab)"
| "run_op env now (OpClearSupersede a b) tab = fst (clear_supersede now a b tab)"
| "run_op env now (OpMoveRegion a p s e) tab = fst (move_region now a p s e tab)"
| "run_op env now (OpMoveToWiki a w p s e) tab = fst (move_to_wiki now a w p s e tab)"
| "run_op env now (OpUpdateRegion a u) tab = fst (update_region now a u tab)"
| "run_op env now (OpUpdateRegionRefs a u refs) tab = fst (update_region_and_authored_refs now a u refs tab)"
| "run_op env now (OpSetRefs a refs) tab = fst (set_authored_refs now a refs tab)"
| "run_op env now (OpBumpRecall hits) tab = fst (bump_recall_hits now hits tab)"
| "run_op env now (OpDropByPath p) tab = fst (drop_by_source_path p tab)"
| "run_op env now (OpClearOffsets a) tab = fst (clear_region_offsets_retired now a tab)"
| "run_op env now (OpClearOffsetsOnPage p) tab = fst (clear_region_offsets_retired_on_page now p tab)"
| "run_op env now (OpSetWikiId a w w') tab = fst (set_wiki_id now a w w' tab)"

definition run_ops :: "store_env \<Rightarrow> (string \<times> fact_op) list \<Rightarrow> fact_table \<Rightarrow> fact_table" where
  "run_ops env ops tab = fold (\<lambda>(now, op). run_op env now op) ops tab"

end
