(* ===== verification/Mwe_FactStore.thy ===== *)
theory Mwe_FactStore
  imports Mwe_FactIndex "HOL-Library.Multiset"
begin

text \<open>
  What the fact store guarantees: the operations as a step relation with its reachable tables, the
  invariant that ids are unique and no validity window ends before it starts, the permanence of
  tombstones, the agreement of the SQL read predicate with the row check, and what the erasure
  primitives do to who may read what.
\<close>

section \<open>Updates\<close>

named_theorems op_defs \<open>the write primitives of the store\<close>

declare sql_update_def [op_defs] fact_insert_def [op_defs] insert_if_absent_def [op_defs]
  insert_with_def [op_defs] mark_superseded_def [op_defs] inherit_allow_def [op_defs]
  stamp_decay_reason_def [op_defs] mark_forgotten_def [op_defs] mark_forgotten_at_def [op_defs]
  mark_forgotten_in_wiki_def [op_defs] mark_forgotten_by_sender_def [op_defs] replace_sender_def [op_defs]
  retarget_subject_def [op_defs] strike_from_allow_def [op_defs] clear_supersede_def [op_defs]
  move_region_def [op_defs] move_to_wiki_def [op_defs] update_region_def [op_defs]
  update_region_and_authored_refs_def [op_defs] set_authored_refs_def [op_defs]

lemma sql_update_ids:
  "(\<And>r. fr_fact_id (f r) = fr_fact_id r) \<Longrightarrow> map fr_fact_id (fst (sql_update P f tab)) = map fr_fact_id tab"
  by (simp add: sql_update_def comp_def if_distrib cong: if_cong)

lemma sql_update_rows:
  "r \<in> set (fst (sql_update P f tab)) \<Longrightarrow> r \<in> set tab \<or> (\<exists>r0 \<in> set tab. P r0 \<and> r = f r0)"
  by (auto simp: sql_update_def split: if_splits)

lemma sql_update_keeps: "r \<in> set tab \<Longrightarrow> \<not> P r \<Longrightarrow> r \<in> set (fst (sql_update P f tab))"
  by (force simp: sql_update_def)

lemma sql_update_exhausts:
  "(\<And>r. \<not> P (f r)) \<Longrightarrow> r \<in> set (fst (sql_update P f tab)) \<Longrightarrow> \<not> P r"
  by (auto simp: sql_update_def split: if_splits)

lemma find_by_id_unique:
  assumes "distinct (map fr_fact_id tab)" "r \<in> set tab"
  shows "find_by_id tab (fr_fact_id r) = Some r"
  using assms
proof (induction tab)
  case (Cons x tab)
  show ?case
  proof (cases "x = r")
    case True
    then show ?thesis by (simp add: find_by_id_def)
  next
    case False
    with Cons have "r \<in> set tab" "fr_fact_id x \<noteq> fr_fact_id r" by auto
    with Cons show ?thesis by (simp add: find_by_id_def)
  qed
qed simp

lemma find_by_id_SomeD: "find_by_id tab i = Some r \<Longrightarrow> r \<in> set tab \<and> fr_fact_id r = i"
  by (auto simp: find_by_id_def find_Some_iff)

text \<open>
  Every write primitive except the inserts, the deletions and the housekeeping of place and recall counters
  is an update of some of the rows that are not tombstoned, and it never touches the id.
\<close>

definition guarded :: "(fact_row \<Rightarrow> bool) \<Rightarrow> (fact_row \<Rightarrow> fact_row) \<Rightarrow> bool" where
  "guarded P f \<longleftrightarrow> (\<forall>r. P r \<longrightarrow> fr_deleted_at r = None) \<and> (\<forall>r. fr_fact_id (f r) = fr_fact_id r)"

fun is_update :: "fact_op \<Rightarrow> bool" where
  "is_update (OpInsert _) = False"
| "is_update (OpInsertIfAbsent _) = False"
| "is_update (OpErase _) = False"
| "is_update (OpBumpRecall _) = False"
| "is_update (OpDropByPath _) = False"
| "is_update (OpClearOffsets _) = False"
| "is_update (OpClearOffsetsOnPage _) = False"
| "is_update (OpSetWikiId _ _ _) = False"
| "is_update _ = True"

lemma fst_guarded_id: "\<exists>P f. tab = fst (sql_update P f tab) \<and> guarded P f"
  by (rule exI [of _ "\<lambda>_. False"], rule exI [of _ id]) (simp add: sql_update_def guarded_def)

lemma run_op_update:
  assumes "is_update op"
  shows "\<exists>P f. run_op env now op tab = fst (sql_update P f tab) \<and> guarded P f"
  using assms
proof (cases op)
  case (OpClose a vt why s w)
  then show ?thesis
    using fst_guarded_id
    by (cases "find_by_id tab a") (auto simp: close_validity_def Let_def guarded_def live_def intro!: exI)
next
  case (OpSetValidity a vf vt)
  then show ?thesis
    using fst_guarded_id
    by (cases "find_by_id tab a") (auto simp: set_validity_def Let_def guarded_def live_def intro!: exI)
next
  case (OpSetFactType a k vt w)
  then show ?thesis
    using fst_guarded_id
    by (cases "find_by_id tab a") (auto simp: set_fact_type_def Let_def guarded_def live_def intro!: exI)
next
  case (OpSetAcl a s al sn ex)
  then show ?thesis
    using fst_guarded_id
    by (cases "find_by_id tab a") (auto simp: set_acl_def Let_def guarded_def live_def intro!: exI)
next
  case (OpRestrict a ex rd)
  then show ?thesis
    using fst_guarded_id
    by (cases "find_by_id tab a")
      (auto simp: restrict_to_def Let_def guarded_def live_def case_prod_beta intro!: exI)
qed (auto simp: op_defs simp del: sql_update_def simp: guarded_def live_def active_def by_sender_def
    tombstone_def rewrite_region_def Let_def case_prod_beta intro!: exI)

text \<open>Housekeeping touches any row, and of a row only where it lies and how often it was recalled.\<close>

definition apart_from_bookkeeping :: "fact_row \<Rightarrow> fact_row" where
  "apart_from_bookkeeping r =
     r\<lparr>fr_wiki_id := [], fr_region_start := None, fr_region_end := None, fr_updated_at := [],
       fr_last_recall_at := None, fr_recall_count_30d := 0\<rparr>"

lemma apart_from_bookkeepingD:
  assumes "apart_from_bookkeeping r' = apart_from_bookkeeping r"
  shows "fr_fact_id r' = fr_fact_id r" "fr_deleted_at r' = fr_deleted_at r" "fr_source_path r' = fr_source_path r"
    "fr_valid_from r' = fr_valid_from r" "fr_valid_to r' = fr_valid_to r"
  using assms by (cases r; cases r'; simp add: apart_from_bookkeeping_def)+

definition bookkeeping :: "fact_table \<Rightarrow> fact_table \<Rightarrow> bool" where
  "bookkeeping tab tab' \<longleftrightarrow> map apart_from_bookkeeping tab' = map apart_from_bookkeeping tab"

lemma bookkeeping_update:
  "(\<And>r. apart_from_bookkeeping (f r) = apart_from_bookkeeping r) \<Longrightarrow> bookkeeping tab (fst (sql_update P f tab))"
  by (simp add: bookkeeping_def sql_update_def)

lemma bookkeeping_bump: "bookkeeping tab (fst (bump_recall_hits now hits tab))"
proof -
  have one: "bookkeeping (fst st) (fst (bump_one now fid st))" for fid st
    using bookkeeping_update [of "\<lambda>r. r\<lparr>fr_last_recall_at := Some now, fr_recall_count_30d := fr_recall_count_30d r + 1\<rparr>"
        "fst st" "\<lambda>r. fr_fact_id r = fid"]
    by (simp add: bump_one_def apart_from_bookkeeping_def case_prod_beta Let_def)
  have "bookkeeping (fst st) (fst (fold (bump_one now) hits st))" for st
    using one by (induction hits arbitrary: st) (simp_all add: bookkeeping_def)
  from this [of "(tab, 0)"] show ?thesis by (simp add: bump_recall_hits_def)
qed

fun keeps_books :: "fact_op \<Rightarrow> bool" where
  "keeps_books (OpBumpRecall _) = True"
| "keeps_books (OpClearOffsets _) = True"
| "keeps_books (OpClearOffsetsOnPage _) = True"
| "keeps_books (OpSetWikiId _ _ _) = True"
| "keeps_books _ = False"

lemma run_op_bookkeeping: "keeps_books op \<Longrightarrow> bookkeeping tab (run_op env now op tab)"
  by (cases op) (simp_all add: bookkeeping_bump clear_region_offsets_retired_def clear_region_offsets_retired_on_page_def
      set_wiki_id_def bookkeeping_update apart_from_bookkeeping_def clear_offsets_def)

lemma bookkeeping_rows:
  assumes "bookkeeping tab tab'"
  shows "map fr_fact_id tab' = map fr_fact_id tab"
    and "r \<in> set tab \<Longrightarrow> \<exists>r' \<in> set tab'. apart_from_bookkeeping r' = apart_from_bookkeeping r"
    and "r' \<in> set tab' \<Longrightarrow> \<exists>r \<in> set tab. apart_from_bookkeeping r' = apart_from_bookkeeping r"
proof -
  have m: "map apart_from_bookkeeping tab' = map apart_from_bookkeeping tab"
    using assms by (simp add: bookkeeping_def)
  have "fr_fact_id (apart_from_bookkeeping r) = fr_fact_id r" for r by (simp add: apart_from_bookkeeping_def)
  then show "map fr_fact_id tab' = map fr_fact_id tab"
    using arg_cong [OF m, of "map fr_fact_id"] by (simp add: comp_def)
  show "r \<in> set tab \<Longrightarrow> \<exists>r' \<in> set tab'. apart_from_bookkeeping r' = apart_from_bookkeeping r"
    using arg_cong [OF m, of set] by (metis imageE image_eqI set_map)
  show "r' \<in> set tab' \<Longrightarrow> \<exists>r \<in> set tab. apart_from_bookkeeping r' = apart_from_bookkeeping r"
    using arg_cong [OF m, of set] by (metis imageE image_eqI set_map)
qed

section \<open>The validity invariant\<close>

definition nanos :: int where
  "nanos = 1000000000"

text \<open>What the store relies on of the date library: a written bound reads back at seconds precision.\<close>

definition clock_ok :: "store_env \<Rightarrow> bool" where
  "clock_ok env \<longleftrightarrow> (\<forall>t. se_instant_of env (se_bound_from_instant env t) = Some (t - t mod nanos))"

definition aligned :: "store_env \<Rightarrow> bound option \<Rightarrow> bool" where
  "aligned env b \<longleftrightarrow> (\<forall>t. Option.bind b (se_instant_of env) = Some t \<longrightarrow> t mod nanos = 0)"

definition window_ok :: "store_env \<Rightarrow> bound option \<Rightarrow> bound option \<Rightarrow> bool" where
  "window_ok env vf vt \<longleftrightarrow> aligned env vf \<and> \<not> window_is_inverted (se_instant_of env) vf vt"

definition store_ok :: "store_env \<Rightarrow> fact_table \<Rightarrow> bool" where
  "store_ok env tab \<longleftrightarrow>
     distinct (map fr_fact_id tab) \<and> (\<forall>r \<in> set tab. window_ok env (fr_valid_from r) (fr_valid_to r))"

text \<open>
  What the callers owe: a captured window is not inverted, and a start is written at seconds
  precision (the canonical spelling of \<open>canonical_bound\<close>).
\<close>

fun op_ok :: "store_env \<Rightarrow> fact_op \<Rightarrow> bool" where
  "op_ok env (OpInsert nf) = window_ok env (nf_valid_from nf) (nf_valid_to nf)"
| "op_ok env (OpInsertIfAbsent nf) = window_ok env (nf_valid_from nf) (nf_valid_to nf)"
| "op_ok env (OpSetValidity _ vf _) = aligned env vf"
| "op_ok env _ = True"

lemma window_ok_closed:
  assumes "clock_ok env" "aligned env vf"
  shows "window_ok env vf (Some (end_not_before_start (se_instant_of env) (se_bound_from_instant env) vf e now))"
proof -
  have nanos: "0 < nanos" by (simp add: nanos_def)
  have floor: "\<not> t - t mod nanos < start" if "start \<le> t" "nanos dvd start" for start t :: int
  proof -
    have "start = nanos * (start div nanos)" using that(2) by simp
    also have "\<dots> \<le> nanos * (t div nanos)"
      using zdiv_mono1 [OF that(1) nanos] nanos by simp
    also have "\<dots> = t - t mod nanos" by (simp add: minus_mod_eq_mult_div)
    finally show ?thesis by simp
  qed
  show ?thesis
    using assms floor
    by (auto simp: window_ok_def window_is_inverted_def end_not_before_start_def clock_ok_def aligned_def
        split: option.splits)
qed

lemma window_ok_coalesce:
  assumes "clock_ok env" "window_ok env vf vt"
  shows "window_ok env vf (coalesce vt (Some (end_not_before_start (se_instant_of env) (se_bound_from_instant env) vf e now)))"
  using assms window_ok_closed by (cases vt) (auto simp: coalesce_def window_ok_def)

lemma store_ok_update:
  assumes "store_ok env tab" "\<And>r. fr_fact_id (f r) = fr_fact_id r"
    and "\<And>r. r \<in> set tab \<Longrightarrow> P r \<Longrightarrow> window_ok env (fr_valid_from (f r)) (fr_valid_to (f r))"
  shows "store_ok env (fst (sql_update P f tab))"
  using assms sql_update_ids [of f P tab, OF assms(2)]
  by (auto simp: store_ok_def dest!: sql_update_rows)

lemma store_ok_find:
  assumes "store_ok env tab" "find_by_id tab i = Some row" "r \<in> set tab" "fr_fact_id r = i"
  shows "r = row"
  using assms find_by_id_unique [of tab r] by (auto simp: store_ok_def)

lemma store_ok_insert:
  assumes "store_ok env tab" "window_ok env (nf_valid_from nf) (nf_valid_to nf)" "nf_fact_id nf \<notin> fr_fact_id ` set tab"
  shows "store_ok env (tab @ [row_of_new_fact now nf])"
  using assms by (auto simp: store_ok_def row_of_new_fact_def)

text \<open>Updates that leave the window alone keep the invariant.\<close>

definition keeps_window :: "(fact_row \<Rightarrow> fact_row) \<Rightarrow> bool" where
  "keeps_window f \<longleftrightarrow> (\<forall>r. fr_fact_id (f r) = fr_fact_id r \<and> fr_valid_from (f r) = fr_valid_from r \<and>
     fr_valid_to (f r) = fr_valid_to r)"

lemma store_ok_keeps: "store_ok env tab \<Longrightarrow> keeps_window f \<Longrightarrow> store_ok env (fst (sql_update P f tab))"
  by (rule store_ok_update) (auto simp: keeps_window_def store_ok_def)

lemma store_ok_bookkeeping:
  assumes "store_ok env tab" "bookkeeping tab tab'"
  shows "store_ok env tab'"
proof -
  have "window_ok env (fr_valid_from r') (fr_valid_to r')" if r': "r' \<in> set tab'" for r'
  proof -
    obtain r where "r \<in> set tab" "apart_from_bookkeeping r' = apart_from_bookkeeping r"
      using bookkeeping_rows(3) [OF assms(2) r'] by blast
    then show ?thesis using assms(1) apart_from_bookkeepingD(4,5) [of r' r] by (simp add: store_ok_def)
  qed
  then show ?thesis using assms(1) bookkeeping_rows(1) [OF assms(2)] by (simp add: store_ok_def)
qed

lemma mark_superseded_ok:
  assumes "clock_ok env" "store_ok env tab"
  shows "store_ok env (run_op env now (OpSupersede a b w) tab)"
proof -
  have "current_valid_from tab a = fr_valid_from r" if "r \<in> set tab" "fr_fact_id r = a" for r
    using find_by_id_unique [of tab r] assms(2) that by (simp add: current_valid_from_def store_ok_def)
  then show ?thesis
    using assms unfolding run_op.simps mark_superseded_def Let_def
    by (intro store_ok_update) (auto simp: store_ok_def window_ok_coalesce)
qed

lemma close_validity_ok:
  assumes "clock_ok env" "store_ok env tab"
  shows "store_ok env (run_op env now (OpClose a vt why succ w) tab)"
proof (cases "find_by_id tab a")
  case None
  with assms show ?thesis by (simp add: close_validity_def)
next
  case (Some row)
  have "aligned env (fr_valid_from row)"
    using find_by_id_SomeD [OF Some] assms(2) by (auto simp: store_ok_def window_ok_def)
  note closed = window_ok_closed [OF assms(1) this]
  show ?thesis
  proof (cases "fr_deleted_at row")
    case None
    have "r = row" if "r \<in> set tab" "live a r" for r
      using store_ok_find [OF assms(2) Some that(1)] that(2) by (simp add: live_def)
    with closed have "store_ok env (fst (sql_update (live a)
        (\<lambda>r. r\<lparr>fr_valid_to := Some (end_not_before_start (se_instant_of env) (se_bound_from_instant env) (fr_valid_from row) vt w),
               fr_decay_reason := Some why, fr_successor_fact_id := coalesce succ (fr_successor_fact_id r),
               fr_updated_at := now\<rparr>) tab))"
      using assms(2) by (intro store_ok_update) auto
    with Some None show ?thesis by (simp add: close_validity_def Let_def)
  next
    case (Some d)
    with \<open>find_by_id tab a = Some row\<close> assms show ?thesis by (simp add: close_validity_def)
  qed
qed

lemma set_fact_type_ok:
  assumes "clock_ok env" "store_ok env tab"
  shows "store_ok env (run_op env now (OpSetFactType a k vt w) tab)"
proof (cases "find_by_id tab a")
  case None
  with assms show ?thesis by (simp add: set_fact_type_def)
next
  case (Some row)
  have ok: "window_ok env (fr_valid_from row) (fr_valid_to row)"
    using find_by_id_SomeD [OF Some] assms(2) by (auto simp: store_ok_def)
  have "window_ok env (fr_valid_from row) (case vt of
      Some v \<Rightarrow> Some (end_not_before_start (se_instant_of env) (se_bound_from_instant env) (fr_valid_from row) v w)
    | None \<Rightarrow> fr_valid_to row)" (is "window_ok env _ ?vt")
    using ok window_ok_closed [OF assms(1)] by (cases vt) (auto simp: window_ok_def)
  moreover have "r = row" if "r \<in> set tab" "live a r" for r
    using store_ok_find [OF assms(2) Some that(1)] that(2) by (simp add: live_def)
  ultimately have "store_ok env (fst (sql_update (live a)
      (\<lambda>r. r\<lparr>fr_fact_type := Some k, fr_valid_to := ?vt, fr_updated_at := now\<rparr>) tab))"
    using assms(2) by (intro store_ok_update) auto
  with Some assms show ?thesis by (simp add: set_fact_type_def Let_def)
qed

lemma set_validity_ok:
  assumes "store_ok env tab" "aligned env vf"
  shows "store_ok env (run_op env now (OpSetValidity a vf vt) tab)"
proof (cases "find_by_id tab a")
  case None
  with assms show ?thesis by (simp add: set_validity_def)
next
  case (Some row)
  have "aligned env (fr_valid_from row)"
    using find_by_id_SomeD [OF Some] assms(1) by (auto simp: store_ok_def window_ok_def)
  with assms(2) have al: "aligned env (case vf of None \<Rightarrow> fr_valid_from row | Some v \<Rightarrow> Some v)"
    by (cases vf) auto
  with Some assms(1) show ?thesis
    by (auto simp: set_validity_def Let_def window_ok_def intro!: store_ok_update)
qed

lemma run_op_ok:
  assumes "clock_ok env" "store_ok env tab" "op_ok env op"
  shows "store_ok env (run_op env now op tab)"
proof (cases op)
  case (OpInsert nf)
  with assms store_ok_insert show ?thesis by (auto simp: fact_insert_def insert_with_def)
next
  case (OpInsertIfAbsent nf)
  with assms store_ok_insert show ?thesis by (auto simp: insert_if_absent_def insert_with_def)
next
  case (OpSetAcl a s al sn ex)
  with assms(2) show ?thesis
    by (auto simp: set_acl_def keeps_window_def split: option.split intro!: store_ok_keeps)
next
  case (OpRestrict a ex rd)
  with assms(2) show ?thesis
    by (auto simp: restrict_to_def keeps_window_def Let_def case_prod_beta split: option.split intro!: store_ok_keeps)
next
  case (OpErase a)
  with assms(2) show ?thesis
    by (auto simp: erase_def store_ok_def distinct_map intro: inj_on_subset)
next
  case (OpDropByPath p)
  with assms(2) show ?thesis
    by (auto simp: drop_by_source_path_def store_ok_def distinct_map intro: inj_on_subset)
next
  case (OpUpdateRegion a u)
  with assms(2) show ?thesis
    by (auto simp: update_region_def rewrite_region_def keeps_window_def intro!: store_ok_keeps)
next
  case (OpUpdateRegionRefs a u refs)
  with assms(2) show ?thesis
    by (auto simp: update_region_and_authored_refs_def rewrite_region_def keeps_window_def intro!: store_ok_keeps)
next
  case (OpSetRefs a refs)
  with assms(2) show ?thesis
    by (auto simp: set_authored_refs_def keeps_window_def intro!: store_ok_keeps)
next
  case (OpBumpRecall hits)
  have "keeps_books op" using OpBumpRecall by simp
  then show ?thesis by (rule store_ok_bookkeeping [OF assms(2) run_op_bookkeeping])
next
  case (OpClearOffsets a)
  then have "keeps_books op" by simp
  then show ?thesis by (rule store_ok_bookkeeping [OF assms(2) run_op_bookkeeping])
next
  case (OpClearOffsetsOnPage p)
  then have "keeps_books op" by simp
  then show ?thesis by (rule store_ok_bookkeeping [OF assms(2) run_op_bookkeeping])
next
  case (OpSetWikiId a w w')
  then have "keeps_books op" by simp
  then show ?thesis by (rule store_ok_bookkeeping [OF assms(2) run_op_bookkeeping])
qed (use assms mark_superseded_ok close_validity_ok set_fact_type_ok set_validity_ok in
    \<open>auto simp: inherit_allow_def stamp_decay_reason_def mark_forgotten_def mark_forgotten_at_def
      mark_forgotten_in_wiki_def mark_forgotten_by_sender_def replace_sender_def retarget_subject_def
      strike_from_allow_def clear_supersede_def move_region_def move_to_wiki_def tombstone_def
      keeps_window_def case_prod_beta simp del: run_op.simps(3-6) intro!: store_ok_keeps\<close>)

section \<open>Reachable tables\<close>

inductive fact_step :: "store_env \<Rightarrow> fact_table \<Rightarrow> fact_table \<Rightarrow> bool" for env where
  fact_step_op: "op_ok env op \<Longrightarrow> fact_step env tab (run_op env now op tab)"

interpretation fact_store: stepping "\<lambda>t t'. clock_ok env \<and> fact_step env t t'" "store_ok env"
  for env
  by unfold_locales (auto simp: fact_step.simps run_op_ok)

text \<open>
  C9: no sequence of store operations ever makes a validity window end before it starts, and fact ids
  stay unique. Starting from an empty store, whatever dates the closures, supersessions, corrections
  and re-typings propose and in whatever order they arrive, every reachable table has distinct ids
  and no inverted window, as long as captures come with a sound window and starts are written at
  seconds precision.
\<close>

theorem windows_never_invert:
  assumes "clock_ok env" "rtranclp (fact_step env) [] tab"
  shows "distinct (map fr_fact_id tab) \<and>
         (\<forall>r \<in> set tab. \<not> window_is_inverted (se_instant_of env) (fr_valid_from r) (fr_valid_to r))"
proof -
  have "rtranclp (\<lambda>t t'. clock_ok env \<and> fact_step env t t') [] tab"
    using assms(2) by (rule rtranclp_mono [THEN predicate2D, rotated]) (use assms(1) in auto)
  then have "store_ok env tab"
    by (rule fact_store.reachable_keeps) (simp add: store_ok_def)
  then show ?thesis by (auto simp: store_ok_def window_ok_def)
qed

text \<open>A toy calendar for the examples: a bound is as many tally marks as seconds.\<close>

definition tally_env :: store_env where
  "tally_env =
     \<lparr>se_instant_of = (\<lambda>b. if set b \<subseteq> {CHR ''+''} then Some (int (length b) * nanos)
                           else if set b \<subseteq> {CHR ''-''} then Some (- (int (length b) * nanos)) else None),
      se_bound_from_instant = (\<lambda>t. if 0 \<le> t div nanos then replicate (nat (t div nanos)) CHR ''+''
                                    else replicate (nat (- (t div nanos))) CHR ''-''),
      se_buffer = (\<lambda>_. None)\<rparr>"

lemma tally_clock_ok: "clock_ok tally_env"
  by (auto simp: clock_ok_def tally_env_def minus_mod_eq_div_mult set_replicate_conv_if not_le)

definition sample_new_fact :: "string \<Rightarrow> bound option \<Rightarrow> new_fact" where
  "sample_new_fact i vf =
     \<lparr>nf_fact_id = FactId i, nf_wiki_id = ''alice'', nf_source_path = ''wikis/alice/food.md'',
      nf_region_start = None, nf_region_end = None, nf_text = ''likes tea'', nf_embedding = [],
      nf_subject_id = User ''alice'', nf_allow_ids = [Group ''family''], nf_excluded_ids = [],
      nf_sender_id = Some (User ''bob''), nf_fact_type = None, nf_topics = [], nf_valid_from = vf,
      nf_valid_to = None, nf_salience = None, nf_target_page = None, nf_style = None, nf_source_ref = None,
      nf_authored_refs = [], nf_subject_external = None, nf_slot = None, nf_slot_value = None\<rparr>"

definition sample_table :: fact_table where
  "sample_table = run_op tally_env ''t1'' (OpClose (FactId ''a'') ''+'' ''retracted'' None 0)
     (run_op tally_env ''t0'' (OpInsert (sample_new_fact ''a'' (Some ''+++''))) [])"

lemma sample_table_reachable: "rtranclp (fact_step tally_env) [] sample_table"
proof -
  let ?op1 = "OpInsert (sample_new_fact ''a'' (Some ''+++''))"
  have "op_ok tally_env ?op1"
    by (simp add: sample_new_fact_def window_ok_def aligned_def window_is_inverted_def tally_env_def)
  then have "fact_step tally_env [] (run_op tally_env ''t0'' ?op1 [])" by (rule fact_step_op)
  moreover have "fact_step tally_env (run_op tally_env ''t0'' ?op1 []) sample_table"
    unfolding sample_table_def by (rule fact_step_op) simp
  ultimately show ?thesis by (meson rtranclp.simps r_into_rtranclp)
qed

theorem windows_never_invert_witness:
  "distinct (map fr_fact_id sample_table) \<and>
   list_all (\<lambda>r. \<not> window_is_inverted (se_instant_of tally_env) (fr_valid_from r) (fr_valid_to r)) sample_table"
  unfolding list_all_iff by (rule windows_never_invert [OF tally_clock_ok sample_table_reachable])

text \<open>
  Seconds precision is needed: with a start inside a second, a closure in the same second writes an
  end before it.
\<close>

lemma subsecond_start_can_invert:
  "let f = (\<lambda>b. if b = ''start'' then Some 10500000000 else if b = ''early'' then Some 0 else Some 10000000000);
       g = (\<lambda>t :: int. ''ten'')
   in f (g 10700000000) = Some (10700000000 - 10700000000 mod nanos) \<and>
      window_is_inverted f (Some ''start'') (Some (end_not_before_start f g (Some ''start'') ''early'' 10700000000))"
  by (simp add: nanos_def window_is_inverted_def end_not_before_start_def)

text \<open>What takes the row itself away: its erasure, or the deletion of every row of its page.\<close>

definition removes :: "fact_row \<Rightarrow> fact_op \<Rightarrow> bool" where
  "removes r op \<longleftrightarrow> op = OpErase (fr_fact_id r) \<or> op = OpDropByPath (fr_source_path r)"

lemma run_op_tombstone:
  assumes "r \<in> set tab" "fr_deleted_at r \<noteq> None" "\<not> removes r op"
  shows "\<exists>r' \<in> set (run_op env now op tab). apart_from_bookkeeping r' = apart_from_bookkeeping r"
proof -
  consider "is_update op" | "keeps_books op" | "\<not> is_update op" "\<not> keeps_books op" by blast
  then show ?thesis
  proof cases
    case 1
    from run_op_update [OF this, of env now tab] obtain P f
      where "run_op env now op tab = fst (sql_update P f tab)" "guarded P f" by blast
    with assms(1,2) have "r \<in> set (run_op env now op tab)" by (auto simp: guarded_def intro!: sql_update_keeps)
    then show ?thesis by blast
  next
    case 2
    from bookkeeping_rows(2) [OF run_op_bookkeeping [OF 2] assms(1)] show ?thesis .
  next
    case 3
    with assms have "r \<in> set (run_op env now op tab)"
      by (cases op) (auto simp: removes_def fact_insert_def insert_if_absent_def insert_with_def erase_def drop_by_source_path_def)
    then show ?thesis by blast
  qed
qed

lemma run_op_distinct_ids:
  assumes "distinct (map fr_fact_id tab)"
  shows "distinct (map fr_fact_id (run_op env now op tab))"
proof -
  consider "is_update op" | "keeps_books op" | "\<not> is_update op" "\<not> keeps_books op" by blast
  then show ?thesis
  proof cases
    case 1
    from run_op_update [OF this, of env now tab] obtain P f
      where "run_op env now op tab = fst (sql_update P f tab)" "guarded P f" by blast
    then show ?thesis using assms sql_update_ids [of f P tab] by (simp add: guarded_def)
  next
    case 2
    then show ?thesis using assms bookkeeping_rows(1) [OF run_op_bookkeeping [OF 2]] by simp
  next
    case 3
    with assms show ?thesis
      by (cases op) (auto simp: fact_insert_def insert_if_absent_def insert_with_def erase_def row_of_new_fact_def
          drop_by_source_path_def distinct_map_filter)
  qed
qed

lemma find_by_id_in: "distinct (map fr_fact_id tab) \<Longrightarrow> r \<in> set tab \<Longrightarrow> fr_fact_id r = i \<Longrightarrow> find_by_id tab i = Some r"
  using find_by_id_unique by blast

lemma run_ops_tombstone:
  assumes "distinct (map fr_fact_id tab)" "r \<in> set tab" "fr_deleted_at r \<noteq> None" "\<forall>(now, op) \<in> set ops. \<not> removes r op"
  shows "distinct (map fr_fact_id (run_ops env ops tab)) \<and>
    (\<exists>r' \<in> set (run_ops env ops tab). apart_from_bookkeeping r' = apart_from_bookkeeping r)"
  using assms unfolding run_ops_def
proof (induction ops arbitrary: tab r)
  case (Cons o1 ops)
  obtain r' where r': "r' \<in> set (run_op env (fst o1) (snd o1) tab)" "apart_from_bookkeeping r' = apart_from_bookkeeping r"
    using run_op_tombstone [of r tab "snd o1" env "fst o1"] Cons.prems(2-4) by (auto simp: case_prod_beta)
  note same = apart_from_bookkeepingD [OF r'(2)]
  have "\<forall>(now, op) \<in> set ops. \<not> removes r' op" using Cons.prems(4) by (auto simp: removes_def same)
  from Cons.IH [OF run_op_distinct_ids [OF Cons.prems(1)] r'(1) _ this] r'(2) Cons.prems(3)
  show ?case by (simp add: same case_prod_beta)
qed auto

text \<open>
  C32: a tombstone is final. Through any sequence of operations of the store (every primitive of
  \<open>fact_index.rs\<close> that writes the table), short of the erasure of that very fact and of the deletion of every
  row of its page (and of a reset of the whole memory, which is not an operation of the store), a forgotten row
  stays the row of its id, tombstoned at the same instant for the same reason, with its words, subject, readers,
  author, window, supersession and page as they were. Only the columns of housekeeping move: the wiki id repaired
  at boot, the byte offsets, the recall counters and the stamp of the last update.
\<close>

theorem tombstone_is_final:
  assumes "distinct (map fr_fact_id tab)" "r \<in> set tab" "fr_deleted_at r \<noteq> None"
    and "\<forall>(now, op) \<in> set ops. \<not> removes r op"
  shows "\<exists>r'. find_by_id (run_ops env ops tab) (fr_fact_id r) = Some r' \<and>
    apart_from_bookkeeping r' = apart_from_bookkeeping r"
proof -
  from run_ops_tombstone [OF assms] obtain r' where "distinct (map fr_fact_id (run_ops env ops tab))"
      "r' \<in> set (run_ops env ops tab)" "apart_from_bookkeeping r' = apart_from_bookkeeping r" by blast
  then show ?thesis using find_by_id_in apart_from_bookkeepingD(1) by blast
qed

definition forgotten_row :: fact_row where
  "forgotten_row = tombstone ''t1'' ''user_request'' (row_of_new_fact ''t0'' (sample_new_fact ''a'' None))"

theorem tombstone_is_final_witness:
  "\<exists>r'. find_by_id (run_ops tally_env [(''t2'', OpSetAcl (FactId ''a'') global_principal [] None None),
       (''t3'', OpClearOffsets (FactId ''a'')), (''t4'', OpBumpRecall [FactId ''a''])] [forgotten_row])
     (fr_fact_id forgotten_row) = Some r' \<and> apart_from_bookkeeping r' = apart_from_bookkeeping forgotten_row"
proof (rule tombstone_is_final)
  show "fr_deleted_at forgotten_row \<noteq> None" by (simp add: forgotten_row_def tombstone_def)
qed (simp_all add: removes_def)

section \<open>Reading the store\<close>

lemma readable_by_sql_iff:
  "readable_by_sql (reader_principals u gs) r = Some True \<longleftrightarrow> row_readable_by r u gs"
proof -
  have "row_readable_by r u gs \<longleftrightarrow>
      (principal_matches (fr_subject_id r) u gs \<or> list_ex (\<lambda>p. principal_matches p u gs) (fr_allow_ids r) \<or>
       is_some_and (\<lambda>p. principal_matches p u gs) (fr_sender_id r)) \<and>
      \<not> list_ex (\<lambda>p. principal_matches p u gs) (fr_excluded_ids r)"
    by (cases "fr_sender_id r") (auto simp: row_readable_by_def row_acl_def can_read_def)
  then show ?thesis
    unfolding readable_by_sql_def in_reader_principals
    by (cases "fr_sender_id r") (auto simp: sql_or_def sql_and_def)
qed

lemma reader_principals_nonempty [simp]: "reader_principals u gs \<noteq> []"
  by (simp add: reader_principals_def)

lemma matches_readable:
  assumes "ff_readable_by f = Some (reader_principals u gs)"
  shows "matches dt f r \<longleftrightarrow> matches dt (f\<lparr>ff_readable_by := None\<rparr>) r \<and> row_readable_by r u gs"
  using assms readable_by_sql_iff [of u gs r] by (auto simp: matches_def filter_preds_def)

lemma set_order_rows [simp]: "set (order_rows s rows) = set rows"
  by (auto simp: order_rows_def Let_def split: prod.split option.split)

text \<open>
  the ACL filter of the store is the read check. With the reader's principals as filter, a query
  returns exactly the rows that satisfy its other constraints and that the row check admits for that
  reader, a missing author (NULL in SQL) included.
\<close>

lemma query_filter_is_read_check:
  assumes "ff_readable_by f = Some (reader_principals u gs)" "ff_limit f = 0"
  shows "set (find_by_filters dt f tab) =
         {r \<in> set tab. matches dt (f\<lparr>ff_readable_by := None\<rparr>) r \<and> row_readable_by r u gs}"
  using assms(2) by (auto simp: find_by_filters_def Let_def matches_readable [OF assms(1)])

lemma query_filter_is_read_check_witness:
  "set (find_by_filters (\<lambda>_. None) (no_filters\<lparr>ff_readable_by := Some (reader_principals ''carol'' [''family''])\<rparr>)
          sample_table) =
   {r \<in> set sample_table.
      matches (\<lambda>_. None) ((no_filters\<lparr>ff_readable_by := Some (reader_principals ''carol'' [''family''])\<rparr>)
        \<lparr>ff_readable_by := None\<rparr>) r \<and> row_readable_by r ''carol'' [''family'']}"
  by (rule query_filter_is_read_check) (simp_all add: no_filters_def)

text \<open>
  The order of a query is total. Two tables with the same rows (unique ids) give the same answer,
  in the same order and under the same limit, however the rows are stored; so a reader that pages
  through a query sees every matching fact exactly once.
\<close>

lemma query_order_is_total:
  assumes "mset tab = mset tab'" "distinct (map fr_fact_id tab)"
  shows "find_by_filters dt f tab = find_by_filters dt f tab'"
proof -
  have key: "sort_key (\<lambda>r. (order_expr k r, fr_fact_id r)) (filter (matches dt f) tab) =
      sort_key (\<lambda>r. (order_expr k r, fr_fact_id r)) (filter (matches dt f) tab')" for k
  proof (rule sort_key_inj_key_eq)
    show "mset (filter (matches dt f) tab) =
        mset (sort_key (\<lambda>r. (order_expr k r, fr_fact_id r)) (filter (matches dt f) tab'))"
      using assms(1) by (simp add: mset_filter)
    show "inj_on (\<lambda>r. (order_expr k r, fr_fact_id r)) (set (filter (matches dt f) tab))"
      using assms(2) by (auto simp: distinct_map inj_on_def)
    show "sorted (map (\<lambda>r. (order_expr k r, fr_fact_id r))
        (sort_key (\<lambda>r. (order_expr k r, fr_fact_id r)) (filter (matches dt f) tab')))"
      by (rule sorted_sort_key)
  qed
  have "order_rows s (filter (matches dt f) tab) = order_rows s (filter (matches dt f) tab')" for s
    by (cases "case s of None \<Rightarrow> (CreatedAt, True) | Some x \<Rightarrow> x") (simp add: order_rows_def key)
  then show ?thesis by (simp add: find_by_filters_def)
qed

definition row_a :: fact_row where "row_a = row_of_new_fact ''t0'' (sample_new_fact ''a'' None)"
definition row_b :: fact_row where "row_b = row_of_new_fact ''t0'' (sample_new_fact ''b'' None)"

lemma query_order_is_total_witness:
  "find_by_filters (\<lambda>_. None) no_filters [row_a, row_b] = find_by_filters (\<lambda>_. None) no_filters [row_b, row_a]"
proof (rule query_order_is_total)
  show "mset [row_a, row_b] = mset [row_b, row_a]" by simp
  show "distinct (map fr_fact_id [row_a, row_b])"
    by (simp add: row_a_def row_b_def row_of_new_fact_def sample_new_fact_def)
qed

section \<open>Restricting and erasing\<close>

lemma set_push_once: "set (push_once acc ps) = set acc \<union> set ps"
  by (induction acc ps rule: push_once.induct) auto

lemma distinct_push_once: "distinct acc \<Longrightarrow> distinct (push_once acc ps)"
  by (induction acc ps rule: push_once.induct) auto

text \<open>
  An exclusion is never lost by adding another. Restricting a live fact keeps every exclusion it
  had, adds the new ones, writes each principal once, and leaves the subject and the author alone; so
  none of the people it was or is now kept from can read it afterwards.
\<close>

lemma restrict_to_accumulates:
  assumes "find_by_id tab fid = Some row" "fr_deleted_at row = None" "r \<in> set (fst (restrict_to now fid excluded readers tab))"
    and "fr_fact_id r = fid" "distinct (map fr_fact_id tab)"
  shows "set (fr_excluded_ids r) = set (fr_excluded_ids row) \<union> set excluded \<and>
         distinct (fr_excluded_ids r) \<and> fr_subject_id r = fr_subject_id row \<and> fr_sender_id r = fr_sender_id row \<and>
         (\<forall>p \<in> set (fr_excluded_ids row) \<union> set excluded. \<forall>u gs. principal_matches p u gs \<longrightarrow> \<not> row_readable_by r u gs)"
proof -
  have row: "row \<in> set tab" "fr_fact_id row = fid" using find_by_id_SomeD [OF assms(1)] by auto
  let ?f = "\<lambda>r. r\<lparr>fr_excluded_ids := push_once [] (fr_excluded_ids row @ excluded), fr_allow_ids := readers, fr_updated_at := now\<rparr>"
  have "r \<in> set (fst (sql_update (live fid) ?f tab))"
    using assms(1-3) by (simp add: restrict_to_def Let_def case_prod_beta split: if_splits)
  then consider "r \<in> set tab" "\<not> live fid r" | r0 where "r0 \<in> set tab" "live fid r0" "r = ?f r0"
    by (auto simp: sql_update_def split: if_splits)
  then have "r = ?f row"
  proof cases
    case 1
    with assms(1,4,5) find_by_id_unique [OF assms(5)] have "r = row" by fastforce
    with 1 assms(2,4) show ?thesis by (simp add: live_def)
  next
    case 2
    with assms(1,5) find_by_id_unique [OF assms(5), of r0] have "r0 = row" by (simp add: live_def)
    with 2 show ?thesis by simp
  qed
  then show ?thesis
    by (auto simp: set_push_once distinct_push_once row_readable_by_def row_acl_def can_read_def list_ex_iff)
qed

lemma restrict_to_accumulates_witness:
  "let r = hd (fst (restrict_to ''t'' (FactId ''a'') [User ''zoe''] [] [row_a\<lparr>fr_excluded_ids := [User ''carol'']\<rparr>]))
   in set (fr_excluded_ids r) = {User ''carol'', User ''zoe''}"
proof -
  let ?row = "row_a\<lparr>fr_excluded_ids := [User ''carol'']\<rparr>"
  let ?tab = "fst (restrict_to ''t'' (FactId ''a'') [User ''zoe''] [] [?row])"
  have ids: "fr_fact_id row_a = FactId ''a''" "fr_deleted_at row_a = None"
    by (simp_all add: row_a_def row_of_new_fact_def sample_new_fact_def)
  have found: "find_by_id [?row] (FactId ''a'') = Some ?row" using ids by (simp add: find_by_id_def)
  have hd: "hd ?tab \<in> set ?tab" "fr_fact_id (hd ?tab) = FactId ''a''"
    using ids by (simp_all add: restrict_to_def found sql_update_def live_def Let_def)
  have "set (fr_excluded_ids (hd ?tab)) = set (fr_excluded_ids ?row) \<union> set [User ''zoe'']"
    using restrict_to_accumulates [OF found _ hd(1) hd(2)] ids by simp
  then show ?thesis by (auto simp: Let_def)
qed

text \<open>
  Forgetting a person discloses nothing. Replacing an author by the forgotten-author principal and
  striking a principal from the audiences never let anybody read a fact they could not read before
  (the forgotten-author id itself is not an id anybody can enrol under).
\<close>

lemma erasure_discloses_nothing:
  assumes "op = OpReplaceSender p removed_sender \<or> op = OpStrike p"
    and "r' \<in> set (run_op env now op tab)" "u \<noteq> REMOVED_USER_ID" "row_readable_by r' u gs"
  shows "\<exists>r \<in> set tab. fr_fact_id r = fr_fact_id r' \<and> row_readable_by r u gs"
proof -
  have sender: "row_readable_by r u gs" if "row_readable_by (r\<lparr>fr_sender_id := Some removed_sender, fr_updated_at := now\<rparr>) u gs" for r
    using that assms(3)
    by (cases "fr_sender_id r")
      (auto simp: row_readable_by_def row_acl_def can_read_def removed_sender_def split: if_splits)
  have strike: "row_readable_by r u gs"
    if "row_readable_by (r\<lparr>fr_allow_ids := filter (\<lambda>q. q \<noteq> p) (fr_allow_ids r), fr_updated_at := now\<rparr>) u gs" for r
    using that by (auto simp: row_readable_by_def row_acl_def can_read_def list_ex_iff split: if_splits)
  from assms(1,2) have "r' \<in> set tab \<or>
      (\<exists>r \<in> set tab. r' = r\<lparr>fr_sender_id := Some removed_sender, fr_updated_at := now\<rparr>) \<or>
      (\<exists>r \<in> set tab. r' = r\<lparr>fr_allow_ids := filter (\<lambda>q. q \<noteq> p) (fr_allow_ids r), fr_updated_at := now\<rparr>)"
    by (auto simp: replace_sender_def strike_from_allow_def dest!: sql_update_rows)
  then show ?thesis
  proof (elim disjE bexE)
    fix r assume "r \<in> set tab" "r' = r\<lparr>fr_sender_id := Some removed_sender, fr_updated_at := now\<rparr>"
    with assms(4) sender show ?thesis by (intro bexI [of _ r]) simp_all
  next
    fix r assume "r \<in> set tab"
      "r' = r\<lparr>fr_allow_ids := filter (\<lambda>q. q \<noteq> p) (fr_allow_ids r), fr_updated_at := now\<rparr>"
    with assms(4) strike show ?thesis by (intro bexI [of _ r]) simp_all
  qed (use assms(4) in blast)
qed

lemma erasure_discloses_nothing_witness:
  "\<exists>r \<in> set [row_a]. fr_fact_id r = FactId ''a'' \<and> row_readable_by r ''alice'' []"
proof -
  let ?op = "OpReplaceSender (User ''bob'') removed_sender"
  let ?r = "row_a\<lparr>fr_sender_id := Some removed_sender, fr_updated_at := ''t1''\<rparr>"
  have r: "fr_fact_id ?r = FactId ''a''" by (simp add: row_a_def row_of_new_fact_def sample_new_fact_def)
  have "?r \<in> set (run_op tally_env ''t1'' ?op [row_a])"
    by (simp add: replace_sender_def sql_update_def row_a_def row_of_new_fact_def sample_new_fact_def)
  moreover have "''alice'' \<noteq> REMOVED_USER_ID" by (simp add: REMOVED_USER_ID_def)
  moreover have "row_readable_by ?r ''alice'' []"
    by (simp add: row_readable_by_def row_acl_def can_read_def row_a_def row_of_new_fact_def sample_new_fact_def)
  ultimately have "\<exists>r \<in> set [row_a]. fr_fact_id r = fr_fact_id ?r \<and> row_readable_by r ''alice'' []"
    by (rule erasure_discloses_nothing [OF disjI1, OF refl])
  then show ?thesis unfolding r .
qed

section \<open>Supersede chains\<close>

text \<open>
  A supersession is never overwritten. Once a fact has been superseded, superseding it again, by
  any successor and at any time, touches no row and changes nothing.
\<close>

lemma supersede_once:
  assumes "mark_superseded inst bfi buf now old new w tab = (tab', n)"
  shows "mark_superseded inst bfi buf2 now2 old new2 w2 tab' = (tab', 0)"
proof -
  have "\<forall>r \<in> set tab'. \<not> (fr_fact_id r = old \<and> fr_superseded_at r = None \<and> fr_deleted_at r = None)"
    unfolding arg_cong [OF assms, of fst, simplified, symmetric] mark_superseded_def Let_def
    by (intro ballI, erule sql_update_exhausts [rotated]) simp
  then show ?thesis
    unfolding mark_superseded_def sql_update_def Let_def
    by (auto simp: filter_empty_conv intro!: map_idI)
qed

lemma supersede_once_witness:
  "mark_superseded (\<lambda>_. None) (\<lambda>_. ''x'') (\<lambda>_. None) ''t2'' (FactId ''a'') (FactId ''c'') 0
     (fst (mark_superseded (\<lambda>_. None) (\<lambda>_. ''x'') (\<lambda>_. None) ''t1'' (FactId ''a'') (FactId ''b'') 0 [row_a])) =
   (fst (mark_superseded (\<lambda>_. None) (\<lambda>_. ''x'') (\<lambda>_. None) ''t1'' (FactId ''a'') (FactId ''b'') 0 [row_a]), 0)"
  by (rule supersede_once [OF surjective_pairing])

text \<open>
  Clearing a supersession makes the row active again but does not reopen the window the supersession
  closed, and the stamp \<open>contradicted\<close> stays.
\<close>

lemma clear_supersede_leaves_window_closed:
  "let t1 = fst (mark_superseded (\<lambda>_. None) (\<lambda>_. ''x'') (\<lambda>_. None) ''t1'' (FactId ''a'') (FactId ''b'') 0 [row_a]);
       r = hd (fst (clear_supersede ''t2'' (FactId ''a'') (FactId ''b'') t1))
   in active r \<and> fr_valid_to row_a = None \<and> fr_valid_to r = Some ''x'' \<and> fr_decay_reason r = Some ''contradicted''"
  by (simp add: mark_superseded_def clear_supersede_def sql_update_def row_a_def row_of_new_fact_def
      sample_new_fact_def successor_valid_from_def current_valid_from_def find_by_id_def active_def
      end_not_before_start_def coalesce_def Let_def)

end
