(* ===== verification/Mwe_Json.thy ===== *)
theory Mwe_Json
  imports Mwe_Prelude
begin

text \<open>
  JSON values as \<open>serde_json::Value\<close> and SQLite's JSON functions see them: an object is the list of its
  members. Numbers are integers: no other number is stored by the components modelled here.
\<close>

section \<open>JSON values\<close>

datatype json = JNull | JBool bool | JNum int | JStr string | JArr "json list" | JObj "(string \<times> json) list"

definition json_get :: "string \<Rightarrow> json \<Rightarrow> json option" where
  "json_get k v = (case v of JObj kvs \<Rightarrow> map_of kvs k | _ \<Rightarrow> None)"

definition as_str :: "json \<Rightarrow> string option" where
  "as_str v = (case v of JStr s \<Rightarrow> Some s | _ \<Rightarrow> None)"

definition as_array :: "json \<Rightarrow> json list option" where
  "as_array v = (case v of JArr xs \<Rightarrow> Some xs | _ \<Rightarrow> None)"

definition as_bool :: "json \<Rightarrow> bool option" where
  "as_bool v = (case v of JBool b \<Rightarrow> Some b | _ \<Rightarrow> None)"

definition json_get_str :: "string \<Rightarrow> json \<Rightarrow> string option" where
  "json_get_str k v = Option.bind (json_get k v) as_str"

lemma json_get_simps [simp]:
  "json_get k (JObj kvs) = map_of kvs k" "json_get k JNull = None" "json_get k (JBool b) = None"
  "json_get k (JNum n) = None" "json_get k (JStr s) = None" "json_get k (JArr vs) = None"
  by (simp_all add: json_get_def)

lemma as_str_simps [simp]:
  "as_str (JStr s) = Some s" "as_str JNull = None" "as_str (JBool b) = None"
  "as_str (JNum n) = None" "as_str (JObj kvs) = None" "as_str (JArr vs) = None"
  by (simp_all add: as_str_def)

section \<open>Paths\<close>

text \<open>
  SQLite's \<open>json_extract\<close> and \<open>json_set\<close> along a path of object labels: a missing label is created,
  with the objects that lead to it, and a path through a scalar changes nothing.
\<close>

fun json_path :: "string list \<Rightarrow> json \<Rightarrow> json option" where
  "json_path [] v = Some v"
| "json_path (l # ls) v = Option.bind (json_get l v) (json_path ls)"

fun put_assoc :: "'a \<Rightarrow> 'b \<Rightarrow> ('a \<times> 'b) list \<Rightarrow> ('a \<times> 'b) list" where
  "put_assoc k v [] = [(k, v)]"
| "put_assoc k v ((k', v') # kvs) = (if k = k' then (k, v) # kvs else (k', v') # put_assoc k v kvs)"

lemma map_of_put_assoc [simp]: "map_of (put_assoc k v kvs) = (map_of kvs)(k \<mapsto> v)"
  by (induction k v kvs rule: put_assoc.induct) auto

fun json_set :: "string list \<Rightarrow> json \<Rightarrow> json \<Rightarrow> json" where
  "json_set [] v _ = v"
| "json_set (l # ls) v (JObj kvs) =
     JObj (put_assoc l (json_set ls v (case map_of kvs l of None \<Rightarrow> JObj [] | Some w \<Rightarrow> w)) kvs)"
| "json_set (l # ls) v w = w"

lemma put_assoc_twice [simp]: "put_assoc k v (put_assoc k w kvs) = put_assoc k v kvs"
  by (induction k w kvs rule: put_assoc.induct) auto

lemma json_set_twice [simp]: "json_set ls v (json_set ls v w) = json_set ls v w"
proof (induction ls v w rule: json_set.induct)
  case (2 l ls v kvs)
  then show ?case by simp
qed simp_all

end
