(* ===== verification/Mwe_Proposals.thy ===== *)
theory Mwe_Proposals
  imports Mwe_FactStore Mwe_Json
begin

text \<open>
  The structure proposals of \<open>crates/mwe-core/src/proposals.rs\<close> (emit, apply, auto-apply and expire) and
  the forget vote of \<open>crates/mwe-core/src/votes.rs\<close>. The tables \<open>structure_proposals\<close> and
  \<open>structure_proposal_votes\<close> are lists of rows beside the fact table; a JSON column is the decoded value,
  or \<^const>\<open>None\<close> when its text is not JSON. Instants are nanoseconds, and \<open>to_iso\<close> writes one into a column
  of the fact table (\<open>to_rfc3339\<close>). A fresh proposal id (UUID v4) is an argument.

  The handlers of the kinds other than \<open>fact_forget\<close> are the argument \<open>handlers\<close>. The page strip after a
  resolved vote and the capture buffer behind a slot conflict are not part of the state.
\<close>

section \<open>Kinds\<close>

definition WIKI_PROMOTE :: string where "WIKI_PROMOTE = ''wiki_promote''"
definition DEDUP_MERGE :: string where "DEDUP_MERGE = ''dedup_merge''"
definition FACT_FORGET :: string where "FACT_FORGET = ''fact_forget''"
definition PAGE_CREATE :: string where "PAGE_CREATE = ''page_create''"
definition RAIL_ADD :: string where "RAIL_ADD = ''rail_add''"
definition SLOT_CONFLICT :: string where "SLOT_CONFLICT = ''slot_conflict''"
definition PAGE_JUDGED :: string where "PAGE_JUDGED = ''page_judged''"
definition CARD_RETYPE :: string where "CARD_RETYPE = ''card_retype''"
definition COMMENT_REFUSED :: string where "COMMENT_REFUSED = ''comment_refused''"
definition RECALL_TUNING :: string where "RECALL_TUNING = ''recall_tuning''"

lemmas kind_defs = WIKI_PROMOTE_def DEDUP_MERGE_def FACT_FORGET_def PAGE_CREATE_def RAIL_ADD_def
  SLOT_CONFLICT_def PAGE_JUDGED_def CARD_RETYPE_def COMMENT_REFUSED_def RECALL_TUNING_def

definition kinds_all :: "string list" where
  "kinds_all = [WIKI_PROMOTE, DEDUP_MERGE, FACT_FORGET, PAGE_CREATE, RAIL_ADD, SLOT_CONFLICT,
     PAGE_JUDGED, CARD_RETYPE, COMMENT_REFUSED, RECALL_TUNING]"

definition is_canonical :: "string \<Rightarrow> bool" where
  "is_canonical s \<longleftrightarrow> s \<in> set kinds_all"

definition is_engine_report :: "string \<Rightarrow> bool" where
  "is_engine_report s \<longleftrightarrow> s \<in> set [RECALL_TUNING]"

section \<open>Rows and errors\<close>

record proposal_row =
  pr_proposal_id :: string
  pr_kind :: string
  pr_context :: "json option"
  pr_questions :: "json option"
  pr_proposed_at :: int
  pr_timeout_at :: int
  pr_status :: string
  pr_applied_at :: "int option"
  pr_applied_by :: "string option"
  pr_apply_mode :: "string option"
  pr_answers :: "json option"
  pr_spec :: "json option"
  pr_recipient_id :: "string option"

record vote_row =
  vt_proposal_id :: string
  vt_voter_id :: string
  vt_vote :: string
  vt_voted_at :: int

record governance =
  g_proposals :: "proposal_row list"
  g_votes :: "vote_row list"
  g_facts :: fact_table

datatype apply_error =
    ApplyDb
  | ApplyJson
  | ApplyNotFound string
  | NotPending string string
  | KindNotYetImplemented string
  | UnknownKind string
  | InvalidPayload
  | HandlerIo
  | HandlerData
  | NotAuthorized string string

record apply_outcome =
  ap_proposal_id :: string
  ap_kind :: string
  ap_applied_at :: int
  ap_applied_by :: "string option"
  ap_apply_mode :: string

type_synonym kind_handlers =
  "string \<Rightarrow> json \<Rightarrow> json \<Rightarrow> fact_table \<Rightarrow> fact_table \<times> (apply_error + json option)"

definition find_proposal :: "governance \<Rightarrow> string \<Rightarrow> proposal_row option" where
  "find_proposal g pid = List.find (\<lambda>r. pr_proposal_id r = pid) (g_proposals g)"

definition pending_row :: "string \<Rightarrow> proposal_row \<Rightarrow> bool" where
  "pending_row pid r \<longleftrightarrow> pr_proposal_id r = pid \<and> pr_status r = ''pending''"

text \<open>\<open>UPDATE structure_proposals SET \<dots> WHERE proposal_id = ? AND status = 'pending'\<close>: the new state and
  the number of rows affected.\<close>

definition update_pending :: "string \<Rightarrow> (proposal_row \<Rightarrow> proposal_row) \<Rightarrow> governance \<Rightarrow> governance \<times> nat" where
  "update_pending pid f g =
     (g\<lparr>g_proposals := map (\<lambda>r. if pending_row pid r then f r else r) (g_proposals g)\<rparr>,
      length (filter (pending_row pid) (g_proposals g)))"

section \<open>Who may act\<close>

definition recipient_can_act :: "string option \<Rightarrow> string \<Rightarrow> string \<Rightarrow> bool \<Rightarrow> bool \<Rightarrow> bool" where
  "recipient_can_act recipient_id kind caller_sender_id is_admin reveal \<longleftrightarrow>
     (is_admin \<and> (reveal \<or> recipient_id = None \<and> is_engine_report kind)) \<or>
     is_some_and (\<lambda>r. is_some_and (\<lambda>u. u = caller_sender_id) (strip_prefix ''user:'' r)) recipient_id"

section \<open>The apply path\<close>

definition apply_fact_forget ::
  "(int \<Rightarrow> string) \<Rightarrow> int \<Rightarrow> json \<Rightarrow> fact_table \<Rightarrow> fact_table \<times> (apply_error + json option)" where
  "apply_fact_forget to_iso now context facts =
     (case json_get_str ''fact_id'' context of
        None \<Rightarrow> (facts, Inl InvalidPayload)
      | Some s \<Rightarrow>
          (case fact_id_parse s of
             Inl _ \<Rightarrow> (facts, Inl InvalidPayload)
           | Inr fid \<Rightarrow>
               let (facts', touched) = mark_forgotten (to_iso now) fid ''fact_forget_vote'' facts
               in (facts', Inr (Some (JObj [(''variant'', JStr ''fact_forget''), (''fact_id'', JStr s),
                                            (''tombstoned'', JNum (int touched))])))))"

definition dispatch_apply_kind ::
  "kind_handlers \<Rightarrow> (int \<Rightarrow> string) \<Rightarrow> int \<Rightarrow> string \<Rightarrow> json \<Rightarrow> json \<Rightarrow> fact_table
    \<Rightarrow> fact_table \<times> (apply_error + json option)" where
  "dispatch_apply_kind handlers to_iso now kind context answers facts =
     (if kind = FACT_FORGET then apply_fact_forget to_iso now context facts
      else if kind \<in> set [WIKI_PROMOTE, DEDUP_MERGE, SLOT_CONFLICT, CARD_RETYPE]
      then handlers kind context answers facts
      else if kind = PAGE_CREATE then (facts, Inl (KindNotYetImplemented kind))
      else (facts, Inl (UnknownKind kind)))"

definition mark_applied_as ::
  "string \<Rightarrow> int \<Rightarrow> string \<Rightarrow> string option \<Rightarrow> json \<Rightarrow> json option \<Rightarrow> governance
    \<Rightarrow> governance \<times> (apply_error + apply_outcome)" where
  "mark_applied_as mode now pid applied_by answers spec g =
     (let (g', rows_affected) =
            update_pending pid
              (\<lambda>r. r\<lparr>pr_status := ''applied'', pr_apply_mode := Some mode, pr_applied_at := Some now,
                     pr_applied_by := applied_by, pr_answers := Some answers, pr_spec := spec\<rparr>) g
      in if rows_affected = 0 then (g', Inl (NotPending pid ''race''))
         else (g', case find_proposal g' pid of
                     None \<Rightarrow> Inl ApplyDb
                   | Some r \<Rightarrow> Inr \<lparr>ap_proposal_id = pid, ap_kind = pr_kind r, ap_applied_at = now,
                                    ap_applied_by = applied_by, ap_apply_mode = mode\<rparr>))"

definition mark_applied ::
  "int \<Rightarrow> string \<Rightarrow> string option \<Rightarrow> json \<Rightarrow> json option \<Rightarrow> governance
    \<Rightarrow> governance \<times> (apply_error + apply_outcome)" where
  "mark_applied = mark_applied_as ''manual''"

definition mark_auto_applied ::
  "int \<Rightarrow> string \<Rightarrow> json \<Rightarrow> json option \<Rightarrow> governance \<Rightarrow> governance \<times> (apply_error + apply_outcome)" where
  "mark_auto_applied now pid answers spec = mark_applied_as ''auto'' now pid None answers spec"

definition apply_proposal ::
  "kind_handlers \<Rightarrow> (int \<Rightarrow> string) \<Rightarrow> int \<Rightarrow> string \<Rightarrow> json \<Rightarrow> string option \<Rightarrow> bool \<Rightarrow> bool \<Rightarrow> governance
    \<Rightarrow> governance \<times> (apply_error + apply_outcome)" where
  "apply_proposal handlers to_iso now pid answers applied_by is_admin reveal g =
     (case find_proposal g pid of
        None \<Rightarrow> (g, Inl (ApplyNotFound pid))
      | Some row \<Rightarrow>
          if pr_status row \<noteq> ''pending'' then (g, Inl (NotPending pid (pr_status row)))
          else
            let caller = (case applied_by of Some c \<Rightarrow> c | None \<Rightarrow> [])
            in if \<not> recipient_can_act (pr_recipient_id row) (pr_kind row) caller is_admin reveal
               then (g, Inl (NotAuthorized pid caller))
               else if \<not> is_canonical (pr_kind row) then (g, Inl (UnknownKind (pr_kind row)))
               else (case pr_context row of
                       None \<Rightarrow> (g, Inl ApplyJson)
                     | Some context \<Rightarrow>
                         (case dispatch_apply_kind handlers to_iso now (pr_kind row) context answers (g_facts g) of
                            (facts', Inl e) \<Rightarrow> (g\<lparr>g_facts := facts'\<rparr>, Inl e)
                          | (facts', Inr spec) \<Rightarrow>
                              mark_applied now pid applied_by answers spec (g\<lparr>g_facts := facts'\<rparr>))))"

definition auto_apply_proposal ::
  "kind_handlers \<Rightarrow> (int \<Rightarrow> string) \<Rightarrow> int \<Rightarrow> string \<Rightarrow> json \<Rightarrow> governance
    \<Rightarrow> governance \<times> (apply_error + apply_outcome)" where
  "auto_apply_proposal handlers to_iso now pid answers g =
     (case find_proposal g pid of
        None \<Rightarrow> (g, Inl (ApplyNotFound pid))
      | Some row \<Rightarrow>
          if pr_status row \<noteq> ''pending'' then (g, Inl (NotPending pid (pr_status row)))
          else if \<not> is_canonical (pr_kind row) then (g, Inl (UnknownKind (pr_kind row)))
          else (case pr_context row of
                  None \<Rightarrow> (g, Inl ApplyJson)
                | Some context \<Rightarrow>
                    (case dispatch_apply_kind handlers to_iso now (pr_kind row) context answers (g_facts g) of
                       (facts', Inl e) \<Rightarrow> (g\<lparr>g_facts := facts'\<rparr>, Inl e)
                     | (facts', Inr spec) \<Rightarrow>
                         mark_auto_applied now pid answers spec (g\<lparr>g_facts := facts'\<rparr>))))"

definition apply_fact_forget_now ::
  "kind_handlers \<Rightarrow> (int \<Rightarrow> string) \<Rightarrow> int \<Rightarrow> string \<Rightarrow> governance \<Rightarrow> governance \<times> (apply_error + unit)" where
  "apply_fact_forget_now handlers to_iso now pid g =
     (case apply_proposal handlers to_iso now pid (JObj []) None True True g of
        (g', Inl e) \<Rightarrow> (g', Inl e)
      | (g', Inr _) \<Rightarrow> (g', Inr ()))"

definition expire_pending_proposal :: "string \<Rightarrow> governance \<Rightarrow> governance \<times> nat" where
  "expire_pending_proposal pid g = update_pending pid (\<lambda>r. r\<lparr>pr_status := ''expired''\<rparr>) g"

section \<open>Emitting\<close>

definition DEFAULT_EMIT_TIMEOUT :: int where
  "DEFAULT_EMIT_TIMEOUT = 24 * 3600 * 1000000000"

definition EXPIRE_GRACE_PERIOD :: int where
  "EXPIRE_GRACE_PERIOD = 24 * 3600 * 1000000000"

datatype proposals_error = AlreadyPending | ProposalsDb | ProposalsJson

text \<open>The unique index on the pending slot conflicts; a key with a NULL part constrains nothing.\<close>

definition slot_conflict_key :: "json option \<Rightarrow> (json \<times> json \<times> json) option" where
  "slot_conflict_key context =
     (case (Option.bind context (json_get ''kept_fact_id''), Option.bind context (json_get ''slot''),
            Option.bind context (json_get ''asserted_key'')) of
        (Some a, Some b, Some c) \<Rightarrow> if JNull \<in> {a, b, c} then None else Some (a, b, c)
      | _ \<Rightarrow> None)"

definition one_question_violated :: "string \<Rightarrow> json \<Rightarrow> governance \<Rightarrow> bool" where
  "one_question_violated kind context g \<longleftrightarrow>
     kind = SLOT_CONFLICT \<and> slot_conflict_key (Some context) \<noteq> None \<and>
     list_ex (\<lambda>r. pr_kind r = SLOT_CONFLICT \<and> pr_status r = ''pending''
                  \<and> slot_conflict_key (pr_context r) = slot_conflict_key (Some context)) (g_proposals g)"

definition emit_proposal ::
  "int \<Rightarrow> string \<Rightarrow> string \<Rightarrow> json \<Rightarrow> json \<Rightarrow> int \<Rightarrow> string option \<Rightarrow> governance
    \<Rightarrow> governance \<times> (proposals_error + string)" where
  "emit_proposal now pid kind context questions timeout recipient g =
     (if \<not> is_canonical kind then (g, Inl ProposalsDb)
      else if pid \<in> set (map pr_proposal_id (g_proposals g)) then (g, Inl ProposalsDb)
      else if one_question_violated kind context g then (g, Inl AlreadyPending)
      else (g\<lparr>g_proposals := g_proposals g @
                [\<lparr>pr_proposal_id = pid, pr_kind = kind, pr_context = Some context,
                  pr_questions = Some questions, pr_proposed_at = now, pr_timeout_at = now + timeout,
                  pr_status = ''pending'', pr_applied_at = None, pr_applied_by = None,
                  pr_apply_mode = None, pr_answers = None, pr_spec = None, pr_recipient_id = recipient\<rparr>]\<rparr>,
            Inr pid))"

definition emit_applied_proposal ::
  "int \<Rightarrow> string \<Rightarrow> string \<Rightarrow> json \<Rightarrow> json \<Rightarrow> json \<Rightarrow> string option \<Rightarrow> string option \<Rightarrow> governance
    \<Rightarrow> governance \<times> (proposals_error + string)" where
  "emit_applied_proposal now pid kind context questions spec applied_by recipient g =
     (if \<not> is_canonical kind then (g, Inl ProposalsDb)
      else if pid \<in> set (map pr_proposal_id (g_proposals g)) then (g, Inl ProposalsDb)
      else (g\<lparr>g_proposals := g_proposals g @
                [\<lparr>pr_proposal_id = pid, pr_kind = kind, pr_context = Some context,
                  pr_questions = Some questions, pr_proposed_at = now, pr_timeout_at = now,
                  pr_status = ''applied'', pr_applied_at = Some now, pr_applied_by = applied_by,
                  pr_apply_mode = Some ''auto'', pr_answers = None, pr_spec = Some spec,
                  pr_recipient_id = recipient\<rparr>]\<rparr>,
            Inr pid))"

end
