(* ===== verification/Mwe_Votes.thy ===== *)
theory Mwe_Votes
  imports Mwe_Proposals
begin

text \<open>
  The forget vote of \<open>crates/mwe-core/src/votes.rs\<close> with the sweeps that close it
  (\<open>proposals.rs\<close>): a subject who did not author a fact asks for it to be forgotten, the fact's readers
  vote, a majority of NO blocks the request and silence carries it. \<open>users\<close> are the enrolled user ids
  the votes table references.
\<close>

section \<open>Votes\<close>

datatype vote = VoteYes | VoteNo

fun vote_as_str :: "vote \<Rightarrow> string" where
  "vote_as_str VoteYes = ''yes''"
| "vote_as_str VoteNo = ''no''"

datatype vote_outcome =
    Recorded int int int
  | Rejected int int
  | Applied int int int

datatype vote_error =
    VoteNotFound string
  | NotVotable string
  | NotEligible string string
  | VoteClosed string
  | AlreadyVoted string string
  | VoteDb
  | VoteJson
  | VoteApply apply_error

definition eligible_voters :: "json \<Rightarrow> string list" where
  "eligible_voters context =
     (case Option.bind (json_get ''eligible_voters'' context) as_array of
        None \<Rightarrow> []
      | Some a \<Rightarrow> List.map_filter as_str a)"

definition count_votes :: "governance \<Rightarrow> string \<Rightarrow> string \<Rightarrow> int" where
  "count_votes g pid v = int (length (filter (\<lambda>r. vt_proposal_id r = pid \<and> vt_vote r = v) (g_votes g)))"

definition tally :: "governance \<Rightarrow> string \<Rightarrow> int \<times> int" where
  "tally g pid = (count_votes g pid ''no'', count_votes g pid ''yes'')"

definition has_voted :: "governance \<Rightarrow> string \<Rightarrow> string \<Rightarrow> bool" where
  "has_voted g pid voter \<longleftrightarrow> list_ex (\<lambda>r. vt_proposal_id r = pid \<and> vt_voter_id r = voter) (g_votes g)"

definition insert_vote :: "int \<Rightarrow> string \<Rightarrow> string \<Rightarrow> vote \<Rightarrow> governance \<Rightarrow> governance" where
  "insert_vote now pid voter v g =
     g\<lparr>g_votes := g_votes g @
         [\<lparr>vt_proposal_id = pid, vt_voter_id = voter, vt_vote = vote_as_str v, vt_voted_at = now\<rparr>]\<rparr>"

definition resolve_votes ::
  "kind_handlers \<Rightarrow> (int \<Rightarrow> string) \<Rightarrow> int \<Rightarrow> string \<Rightarrow> string list \<Rightarrow> governance
    \<Rightarrow> governance \<times> (vote_error + vote_outcome)" where
  "resolve_votes handlers to_iso now pid eligible g =
     (let (no_votes, yes_votes) = tally g pid;
          eligible_n = int (length eligible)
      in if no_votes * 2 > eligible_n
         then (fst (expire_pending_proposal pid g), Inr (Rejected no_votes eligible_n))
         else if no_votes + yes_votes \<ge> eligible_n
         then (case apply_fact_forget_now handlers to_iso now pid g of
                 (g', Inl (NotPending p s)) \<Rightarrow> (g', Inr (Applied no_votes yes_votes eligible_n))
               | (g', Inl (ApplyNotFound p)) \<Rightarrow> (g', Inr (Applied no_votes yes_votes eligible_n))
               | (g', Inl e) \<Rightarrow> (g', Inl (VoteApply e))
               | (g', Inr _) \<Rightarrow> (g', Inr (Applied no_votes yes_votes eligible_n)))
         else (g, Inr (Recorded no_votes yes_votes eligible_n)))"

definition cast_vote ::
  "string list \<Rightarrow> kind_handlers \<Rightarrow> (int \<Rightarrow> string) \<Rightarrow> int \<Rightarrow> string \<Rightarrow> string \<Rightarrow> vote \<Rightarrow> governance
    \<Rightarrow> governance \<times> (vote_error + vote_outcome)" where
  "cast_vote users handlers to_iso now pid voter v g =
     (case find_proposal g pid of
        None \<Rightarrow> (g, Inl (VoteNotFound pid))
      | Some row \<Rightarrow>
          if pr_kind row \<noteq> FACT_FORGET then (g, Inl (NotVotable pid))
          else (case pr_context row of
                  None \<Rightarrow> (g, Inl VoteJson)
                | Some context \<Rightarrow>
                    let eligible = eligible_voters context
                    in if eligible = [] then (g, Inl (NotVotable pid))
                       else if pr_status row \<noteq> ''pending'' then (g, Inl (VoteClosed pid))
                       else if pr_timeout_at row \<le> now then (g, Inl (VoteClosed pid))
                       else if voter \<notin> set eligible then (g, Inl (NotEligible pid voter))
                       else if has_voted g pid voter then (g, Inl (AlreadyVoted pid voter))
                       else if voter \<notin> set users then (g, Inl VoteDb)
                       else resolve_votes handlers to_iso now pid eligible (insert_vote now pid voter v g)))"

section \<open>Opening a request\<close>

definition VOTE_WINDOW :: int where
  "VOTE_WINDOW = 7 * 24 * 3600 * 1000000000"

datatype forget_request =
    VoteOpened string fact_id "string list" int
  | AppliedImmediately fact_id

datatype forget_request_error =
    FactNotFound fact_id
  | AlreadyForgotten fact_id
  | SenderActsDirectly fact_id string
  | RequestNotAuthorized fact_id string
  | RequestEmit proposals_error

fun subject_authorizes :: "(string \<Rightarrow> string list) \<Rightarrow> principal \<Rightarrow> string \<Rightarrow> bool" where
  "subject_authorizes members (User i) requester \<longleftrightarrow> i = requester"
| "subject_authorizes members (Group i) requester \<longleftrightarrow>
     (if i = ''global'' then False else list_ex (\<lambda>m. m = requester) (members i))"

definition forget_questions :: "fact_id \<Rightarrow> json" where
  "forget_questions fid =
     JArr [JObj [(''id'', JStr ''fact_forget''),
       (''text'', JStr (''A forget request was opened for fact `'' @ fact_id_str fid @
          ''`. Silence is consent (it will be forgotten when the window closes); a NO majority of the audience blocks it.'')),
       (''options'', JArr [JObj [(''id'', JStr ''forget''), (''recommended'', JBool True)],
                           JObj [(''id'', JStr ''keep'')]])]]"

definition forget_context :: "fact_id \<Rightarrow> string \<Rightarrow> string list \<Rightarrow> json" where
  "forget_context fid requester eligible =
     JObj [(''variant'', JStr ''fact_forget''), (''fact_id'', JStr (fact_id_str fid)),
           (''requester'', JStr requester), (''eligible_voters'', JArr (map JStr eligible))]"

definition electorate :: "(string \<Rightarrow> string list) \<Rightarrow> fact_row \<Rightarrow> string \<Rightarrow> string list" where
  "electorate members row requester =
     filter (\<lambda>u. u \<noteq> requester)
       (audience members (fr_subject_id row) (fr_allow_ids row) (fr_sender_id row) (fr_excluded_ids row))"

definition open_forget_request ::
  "(string \<Rightarrow> string list) \<Rightarrow> (int \<Rightarrow> string) \<Rightarrow> int \<Rightarrow> string \<Rightarrow> fact_id \<Rightarrow> string \<Rightarrow> bool \<Rightarrow> governance
    \<Rightarrow> governance \<times> (forget_request_error + forget_request)" where
  "open_forget_request members to_iso now pid fid requester is_admin g =
     (case find_by_id (g_facts g) fid of
        None \<Rightarrow> (g, Inl (FactNotFound fid))
      | Some row \<Rightarrow>
          if fr_deleted_at row \<noteq> None then (g, Inl (AlreadyForgotten fid))
          else if fr_sender_id row = Some (User requester) then (g, Inl (SenderActsDirectly fid requester))
          else if \<not> is_admin \<and> \<not> subject_authorizes members (fr_subject_id row) requester
          then (g, Inl (RequestNotAuthorized fid requester))
          else
            let eligible = electorate members row requester
            in if eligible = []
               then (g\<lparr>g_facts := fst (mark_forgotten (to_iso now) fid ''fact_forget_sole_reader'' (g_facts g))\<rparr>,
                     Inr (AppliedImmediately fid))
               else (case emit_proposal now pid FACT_FORGET (forget_context fid requester eligible)
                            (forget_questions fid) VOTE_WINDOW (Some (''user:'' @ requester)) g of
                       (g', Inl e) \<Rightarrow> (g', Inl (RequestEmit e))
                     | (g', Inr p) \<Rightarrow> (g', Inr (VoteOpened p fid eligible (now + VOTE_WINDOW)))))"

record pending_vote =
  pv_proposal_id :: string
  pv_fact_id :: string
  pv_requester :: string
  pv_deadline :: int
  pv_dashboard_path :: string

definition proposal_dashboard_path :: "string \<Rightarrow> string" where
  "proposal_dashboard_path pid = ''/dashboard/proposals/'' @ pid @ ''/open-in-chat''"

definition pending_vote_of :: "string \<Rightarrow> proposal_row \<Rightarrow> pending_vote option" where
  "pending_vote_of voter r =
     (case pr_context r of
        None \<Rightarrow> None
      | Some context \<Rightarrow>
          if is_some_and (\<lambda>a. list_ex (\<lambda>v. as_str v = Some voter) a)
               (Option.bind (json_get ''eligible_voters'' context) as_array)
          then Some \<lparr>pv_proposal_id = pr_proposal_id r,
                     pv_fact_id = (case json_get_str ''fact_id'' context of Some s \<Rightarrow> s | None \<Rightarrow> []),
                     pv_requester = (case json_get_str ''requester'' context of Some s \<Rightarrow> s | None \<Rightarrow> []),
                     pv_deadline = pr_timeout_at r,
                     pv_dashboard_path = proposal_dashboard_path (pr_proposal_id r)\<rparr>
          else None)"

definition pending_votes_for :: "int \<Rightarrow> governance \<Rightarrow> string \<Rightarrow> pending_vote list" where
  "pending_votes_for now g voter =
     (if voter = [] then []
      else List.map_filter (pending_vote_of voter)
             (sort_key pr_timeout_at
               (filter (\<lambda>r. pr_kind r = FACT_FORGET \<and> pr_status r = ''pending'' \<and> now < pr_timeout_at r
                          \<and> \<not> has_voted g (pr_proposal_id r) voter) (g_proposals g))))"

section \<open>The sweeps\<close>

definition resolve_overdue_fact_forget ::
  "kind_handlers \<Rightarrow> (int \<Rightarrow> string) \<Rightarrow> int \<Rightarrow> string \<Rightarrow> governance
    \<Rightarrow> governance \<times> (apply_error + unit option)" where
  "resolve_overdue_fact_forget handlers to_iso now pid g =
     (case find_proposal g pid of
        None \<Rightarrow> (g, Inl ApplyDb)
      | Some row \<Rightarrow>
          (case pr_context row of
             None \<Rightarrow> (g, Inl ApplyJson)
           | Some context \<Rightarrow>
               let eligible = (case Option.bind (json_get ''eligible_voters'' context) as_array of
                                 None \<Rightarrow> 0 | Some a \<Rightarrow> length a);
                   no_votes = count_votes g pid ''no''
               in if no_votes * 2 > int eligible
                  then (fst (expire_pending_proposal pid g), Inr None)
                  else (case apply_fact_forget_now handlers to_iso now pid g of
                          (g', Inl e) \<Rightarrow> (g', Inl e)
                        | (g', Inr _) \<Rightarrow> (g', Inr (Some ())))))"

datatype answers_error =
    QuestionsJson
  | QuestionsNotArray
  | QuestionWithoutId
  | NoOptionsArray string
  | NoRecommended string
  | MissingIdValue string

definition recommended_answer :: "json \<Rightarrow> answers_error + (string \<times> json)" where
  "recommended_answer q =
     (case json_get_str ''id'' q of
        None \<Rightarrow> Inl QuestionWithoutId
      | Some qid \<Rightarrow>
          (case Option.bind (json_get ''options'' q) as_array of
             None \<Rightarrow> Inl (NoOptionsArray qid)
           | Some options \<Rightarrow>
               (case List.find (\<lambda>opt. Option.bind (json_get ''recommended'' opt) as_bool = Some True) options of
                  None \<Rightarrow> Inl (NoRecommended qid)
                | Some opt \<Rightarrow>
                    (case json_get ''value'' opt of
                       Some v \<Rightarrow> Inr (qid, v)
                     | None \<Rightarrow> (case json_get ''id'' opt of
                                  Some v \<Rightarrow> Inr (qid, v)
                                | None \<Rightarrow> Inl (MissingIdValue qid))))))"

fun recommended_answers :: "json list \<Rightarrow> (string \<times> json) list \<Rightarrow> answers_error + (string \<times> json) list" where
  "recommended_answers [] acc = Inr acc"
| "recommended_answers (q # qs) acc =
     (case recommended_answer q of
        Inl e \<Rightarrow> Inl e
      | Inr (qid, v) \<Rightarrow> recommended_answers qs ((qid, v) # filter (\<lambda>kv. fst kv \<noteq> qid) acc))"

definition build_recommended_answers :: "json option \<Rightarrow> answers_error + json" where
  "build_recommended_answers questions =
     (case questions of
        None \<Rightarrow> Inl QuestionsJson
      | Some qs \<Rightarrow>
          (case as_array qs of
             None \<Rightarrow> Inl QuestionsNotArray
           | Some arr \<Rightarrow> map_sum id JObj (recommended_answers arr [])))"

record sweep_report =
  candidates_examined :: nat
  auto_applied :: "(string \<times> string) list"
  sweep_errors :: "string list"

definition sweep_row ::
  "kind_handlers \<Rightarrow> (int \<Rightarrow> string) \<Rightarrow> int \<Rightarrow> proposal_row \<Rightarrow> governance \<times> sweep_report \<Rightarrow> governance \<times> sweep_report" where
  "sweep_row handlers to_iso now r s =
     (let (g, rep) = s; pid = pr_proposal_id r;
          failed = rep\<lparr>sweep_errors := sweep_errors rep @ [pid]\<rparr>
      in if pr_kind r = FACT_FORGET
         then (case resolve_overdue_fact_forget handlers to_iso now pid g of
                 (g', Inr (Some _)) \<Rightarrow> (g', rep\<lparr>auto_applied := auto_applied rep @ [(pid, FACT_FORGET)]\<rparr>)
               | (g', Inr None) \<Rightarrow> (g', rep)
               | (g', Inl e) \<Rightarrow> (g', failed))
         else (case build_recommended_answers (pr_questions r) of
                 Inl e \<Rightarrow> (g, failed)
               | Inr answers \<Rightarrow>
                   (case auto_apply_proposal handlers to_iso now pid answers g of
                      (g', Inr out) \<Rightarrow>
                        (g', rep\<lparr>auto_applied := auto_applied rep @ [(ap_proposal_id out, ap_kind out)]\<rparr>)
                    | (g', Inl e) \<Rightarrow> (g', failed))))"

definition auto_apply_overdue_proposals ::
  "kind_handlers \<Rightarrow> (int \<Rightarrow> string) \<Rightarrow> int \<Rightarrow> governance \<Rightarrow> governance \<times> sweep_report" where
  "auto_apply_overdue_proposals handlers to_iso now g =
     (let rows = sort_key pr_proposed_at
                   (filter (\<lambda>r. pr_status r = ''pending'' \<and> pr_timeout_at r < now) (g_proposals g))
      in fold (sweep_row handlers to_iso now) rows
           (g, \<lparr>candidates_examined = length rows, auto_applied = [], sweep_errors = []\<rparr>))"

definition expire_overdue_proposals :: "int \<Rightarrow> governance \<Rightarrow> governance \<times> nat" where
  "expire_overdue_proposals now g =
     (let overdue = (\<lambda>r. pr_status r = ''pending'' \<and> pr_timeout_at r < now - EXPIRE_GRACE_PERIOD)
      in (g\<lparr>g_proposals := map (\<lambda>r. if overdue r then r\<lparr>pr_status := ''expired''\<rparr> else r) (g_proposals g)\<rparr>,
          length (filter overdue (g_proposals g))))"

end
