(* ===== verification/Mwe_Ballot.thy ===== *)
theory Mwe_Ballot
  imports Mwe_Votes
begin

text \<open>
  What the forget vote guarantees: the operations on proposals as a step relation, the invariant that
  every resolved request was resolved by its electorate or by its deadline, the finality of a
  resolution, and what an opened request does and does not change.
\<close>

section \<open>Frames\<close>

text \<open>What no transition of a proposal changes.\<close>

definition frame :: "proposal_row \<Rightarrow> string \<times> string \<times> json option \<times> int" where
  "frame p = (pr_proposal_id p, pr_kind p, pr_context p, pr_timeout_at p)"

definition electors :: "proposal_row \<Rightarrow> string list" where
  "electors p = (case pr_context p of None \<Rightarrow> [] | Some c \<Rightarrow> eligible_voters c)"

lemma frame_eqD:
  "frame p = frame q \<Longrightarrow> pr_proposal_id p = pr_proposal_id q \<and> pr_kind p = pr_kind q
     \<and> pr_context p = pr_context q \<and> pr_timeout_at p = pr_timeout_at q \<and> electors p = electors q"
  by (simp add: frame_def electors_def)

lemma eligible_voters_forget_context [simp]: "eligible_voters (forget_context fid req el) = el"
  by (simp add: eligible_voters_def forget_context_def json_get_def as_array_def as_str_def
      map_filter_def comp_def)

lemma elector_array_forget_context [simp]:
  "Option.bind (json_get ''eligible_voters'' (forget_context fid req el)) as_array = Some (map JStr el)"
  by (simp add: forget_context_def json_get_def as_array_def)

lemma fact_id_forget_context [simp]:
  "json_get_str ''fact_id'' (forget_context fid req el) = Some (fact_id_str fid)"
  by (simp add: json_get_str_def forget_context_def json_get_def as_str_def)

lemma find_proposal_SomeD: "find_proposal g pid = Some p \<Longrightarrow> p \<in> set (g_proposals g) \<and> pr_proposal_id p = pid"
  by (auto simp: find_proposal_def find_Some_iff)

text \<open>\<open>flips pid st g g'\<close>: nothing but the pending row of \<open>pid\<close> moved, to status \<open>st\<close>.\<close>

definition flips :: "string \<Rightarrow> string \<Rightarrow> governance \<Rightarrow> governance \<Rightarrow> bool" where
  "flips pid st g g' \<longleftrightarrow> g_votes g' = g_votes g \<and>
     (\<exists>h. (\<forall>r. frame (h r) = frame r \<and> pr_status (h r) = st) \<and>
          g_proposals g' = map (\<lambda>r. if pending_row pid r then h r else r) (g_proposals g))"

lemma expire_pending_flips: "flips pid ''expired'' g (fst (expire_pending_proposal pid g))"
  unfolding flips_def expire_pending_proposal_def update_pending_def
  by (auto simp: frame_def intro!: exI [of _ "\<lambda>r. r\<lparr>pr_status := ''expired''\<rparr>"])

lemma mark_applied_flips: "flips pid ''applied'' g (fst (mark_applied_as mode now pid who answers spec g))"
  unfolding flips_def mark_applied_as_def update_pending_def
  by (auto simp: frame_def Let_def
      intro!: exI [of _ "\<lambda>r. r\<lparr>pr_status := ''applied'', pr_apply_mode := Some mode, pr_applied_at := Some now,
        pr_applied_by := who, pr_answers := Some answers, pr_spec := spec\<rparr>"])

definition same_ballots :: "governance \<Rightarrow> governance \<Rightarrow> bool" where
  "same_ballots g g' \<longleftrightarrow> g_votes g' = g_votes g \<and> g_proposals g' = g_proposals g"

lemma flips_facts [simp]: "flips pid st (g\<lparr>g_facts := f\<rparr>) g' = flips pid st g g'"
  by (simp add: flips_def)

lemma apply_proposal_flips:
  "same_ballots g (fst (apply_proposal h i now pid ans who adm rv g))
   \<or> flips pid ''applied'' g (fst (apply_proposal h i now pid ans who adm rv g))"
  using mark_applied_flips [of pid "g\<lparr>g_facts := f\<rparr>" "''manual''" now who ans for f]
  by (auto simp: apply_proposal_def same_ballots_def mark_applied_def Let_def
      split: option.splits prod.splits sum.splits)

lemma auto_apply_proposal_flips:
  "same_ballots g (fst (auto_apply_proposal h i now pid ans g))
   \<or> flips pid ''applied'' g (fst (auto_apply_proposal h i now pid ans g))"
  using mark_applied_flips [of pid "g\<lparr>g_facts := f\<rparr>" "''auto''" now None ans for f]
  by (auto simp: auto_apply_proposal_def same_ballots_def mark_auto_applied_def
      split: option.splits prod.splits sum.splits)

lemma apply_forget_now_flips:
  "same_ballots g (fst (apply_fact_forget_now h i now pid g))
   \<or> flips pid ''applied'' g (fst (apply_fact_forget_now h i now pid g))"
  using apply_proposal_flips [of g h i now pid "JObj []" None True True]
  by (auto simp: apply_fact_forget_now_def split: prod.splits sum.splits)

lemma flips_frame: "flips pid st g g' \<Longrightarrow> map frame (g_proposals g') = map frame (g_proposals g)"
  by (auto simp: flips_def)

lemma flips_row:
  assumes "flips pid st g g'" "q \<in> set (g_proposals g')"
  shows "\<exists>p \<in> set (g_proposals g). frame p = frame q \<and> (q = p \<or> pending_row pid p \<and> pr_status q = st)"
  using assms unfolding flips_def by fastforce

lemma flips_settled:
  assumes "flips pid st g g'" "p \<in> set (g_proposals g)" "pr_status p \<noteq> ''pending''"
  shows "p \<in> set (g_proposals g')"
  using assms unfolding flips_def pending_row_def by force

section \<open>The invariant\<close>

definition no_majority :: "governance \<Rightarrow> proposal_row \<Rightarrow> bool" where
  "no_majority g p \<longleftrightarrow> count_votes g (pr_proposal_id p) ''no'' * 2 > int (length (electors p))"

definition all_voted :: "governance \<Rightarrow> proposal_row \<Rightarrow> bool" where
  "all_voted g p \<longleftrightarrow> (\<forall>u \<in> set (electors p). has_voted g (pr_proposal_id p) u)"

text \<open>A forget request is applied only without a majority of NO, once everybody voted or the window
  closed, and expired only by a majority of NO or when the grace after its deadline ran out.\<close>

definition settled_ok :: "int \<Rightarrow> governance \<Rightarrow> proposal_row \<Rightarrow> bool" where
  "settled_ok now g p \<longleftrightarrow>
     (pr_status p = ''applied'' \<longrightarrow> \<not> no_majority g p \<and> (all_voted g p \<or> pr_timeout_at p < now)) \<and>
     (pr_status p = ''expired'' \<longrightarrow> no_majority g p \<or> pr_timeout_at p + EXPIRE_GRACE_PERIOD < now) \<and>
     pr_status p \<in> {''pending'', ''applied'', ''expired''}"

definition request_ok :: "proposal_row \<Rightarrow> bool" where
  "request_ok p \<longleftrightarrow> (\<exists>fid req el. pr_context p = Some (forget_context fid req el) \<and> distinct el \<and> el \<noteq> [])"

definition vote_ok :: "proposal_row list \<Rightarrow> vote_row \<Rightarrow> bool" where
  "vote_ok ps v \<longleftrightarrow> vt_vote v \<in> {''yes'', ''no''} \<and>
     (\<exists>p \<in> set ps. pr_proposal_id p = vt_proposal_id v \<and> pr_kind p = FACT_FORGET \<and> vt_voter_id v \<in> set (electors p))"

definition ballot_ok :: "int \<times> governance \<Rightarrow> bool" where
  "ballot_ok s \<longleftrightarrow> (case s of (now, g) \<Rightarrow>
     distinct (map pr_proposal_id (g_proposals g)) \<and>
     distinct (map (\<lambda>v. (vt_proposal_id v, vt_voter_id v)) (g_votes g)) \<and>
     (\<forall>v \<in> set (g_votes g). vote_ok (g_proposals g) v) \<and>
     (\<forall>p \<in> set (g_proposals g). pr_kind p = FACT_FORGET \<longrightarrow> request_ok p \<and> settled_ok now g p))"

lemma ballot_ok_later: "ballot_ok (c, g) \<Longrightarrow> c \<le> now \<Longrightarrow> ballot_ok (now, g)"
  by (fastforce simp: ballot_ok_def settled_ok_def)

lemma ballot_okD:
  assumes "ballot_ok (now, g)"
  shows "distinct (map pr_proposal_id (g_proposals g))"
    and "distinct (map (\<lambda>v. (vt_proposal_id v, vt_voter_id v)) (g_votes g))"
    and "v \<in> set (g_votes g) \<Longrightarrow> vote_ok (g_proposals g) v"
    and "p \<in> set (g_proposals g) \<Longrightarrow> pr_kind p = FACT_FORGET \<Longrightarrow> request_ok p"
    and "p \<in> set (g_proposals g) \<Longrightarrow> pr_kind p = FACT_FORGET \<Longrightarrow> settled_ok now g p"
  using assms by (auto simp: ballot_ok_def)

lemma unique_row:
  "distinct (map pr_proposal_id ps) \<Longrightarrow> p \<in> set ps \<Longrightarrow> q \<in> set ps \<Longrightarrow> pr_proposal_id p = pr_proposal_id q \<Longrightarrow> p = q"
  by (auto simp: distinct_map inj_on_def)

lemma find_proposal_unique:
  assumes "distinct (map pr_proposal_id (g_proposals g))" "p \<in> set (g_proposals g)"
  shows "find_proposal g (pr_proposal_id p) = Some p"
proof (cases "find_proposal g (pr_proposal_id p)")
  case None
  then show ?thesis
    using assms(2) by (auto simp: find_proposal_def find_None_iff)
next
  case (Some q)
  then show ?thesis
    using find_proposal_SomeD [OF Some] unique_row [OF assms(1) _ assms(2)] by blast
qed

lemma map_frame_ids: "map frame ps' = map frame ps \<Longrightarrow> map pr_proposal_id ps' = map pr_proposal_id ps"
  by (metis (no_types, lifting) frame_def fst_conv list.map_comp map_eq_conv comp_def)

lemma vote_ok_frame:
  assumes "map frame ps' = map frame ps" "vote_ok ps v"
  shows "vote_ok ps' v"
proof -
  obtain p where p: "p \<in> set ps" "pr_proposal_id p = vt_proposal_id v" "pr_kind p = FACT_FORGET"
    "vt_voter_id v \<in> set (electors p)"
    using assms(2) by (auto simp: vote_ok_def)
  have "frame p \<in> set (map frame ps')"
    using p(1) assms(1) by simp
  then obtain q where "q \<in> set ps'" "frame q = frame p" by auto
  then show ?thesis
    using p assms(2) frame_eqD [of q p] by (auto simp: vote_ok_def)
qed

lemma settled_ok_frame:
  "frame p = frame q \<Longrightarrow> no_majority g p = no_majority g q \<and> all_voted g p = all_voted g q \<and> request_ok p = request_ok q"
  by (drule frame_eqD) (simp add: no_majority_def all_voted_def request_ok_def)

lemma ballot_ok_flips:
  assumes ok: "ballot_ok (now, g)" and f: "flips pid st g g'"
    and why: "\<And>p. p \<in> set (g_proposals g) \<Longrightarrow> pending_row pid p \<Longrightarrow> pr_kind p = FACT_FORGET \<Longrightarrow>
       settled_ok now g (p\<lparr>pr_status := st\<rparr>)"
  shows "ballot_ok (now, g')"
proof -
  have votes: "g_votes g' = g_votes g"
    using f by (simp add: flips_def)
  have tallies: "no_majority g' q = no_majority g q" "all_voted g' q = all_voted g q" for q
    by (simp_all add: no_majority_def all_voted_def count_votes_def has_voted_def votes)
  have "request_ok q \<and> settled_ok now g' q" if "q \<in> set (g_proposals g')" "pr_kind q = FACT_FORGET" for q
  proof -
    note q = that
    obtain p where p: "p \<in> set (g_proposals g)" "frame p = frame q" "q = p \<or> pending_row pid p \<and> pr_status q = st"
      using flips_row [OF f q(1)] by blast
    have kind: "pr_kind p = FACT_FORGET"
      using frame_eqD [OF p(2)] q(2) by simp
    have "frame (p\<lparr>pr_status := st\<rparr>) = frame q"
      using p(2) by (simp add: frame_def)
    then show ?thesis
      using p kind ballot_okD(4,5) [OF ok p(1) kind] why [OF p(1) _ kind] settled_ok_frame [OF p(2), of g]
        settled_ok_frame [of "p\<lparr>pr_status := st\<rparr>" q g] frame_eqD [of "p\<lparr>pr_status := st\<rparr>" q]
      by (auto simp: settled_ok_def tallies)
  qed
  then show ?thesis
    using ok votes flips_frame [OF f] map_frame_ids [OF flips_frame [OF f]] vote_ok_frame
    by (auto simp: ballot_ok_def)
qed

lemma ballot_ok_same: "ballot_ok (now, g) \<Longrightarrow> same_ballots g g' \<Longrightarrow> ballot_ok (now, g')"
  by (auto simp: ballot_ok_def same_ballots_def settled_ok_def no_majority_def all_voted_def
      count_votes_def has_voted_def)

text \<open>Once as many votes as electors are in, every elector has voted.\<close>

lemma quorum_all_voted:
  assumes ok: "ballot_ok (now, g)" and p: "p \<in> set (g_proposals g)" "pr_kind p = FACT_FORGET"
    and q: "int (length (electors p)) \<le> count_votes g (pr_proposal_id p) ''no'' + count_votes g (pr_proposal_id p) ''yes''"
  shows "all_voted g p"
proof -
  define vs where "vs = filter (\<lambda>v. vt_proposal_id v = pr_proposal_id p) (g_votes g)"
  have "length vs = length (filter (\<lambda>v. vt_vote v = ''no'') vs) + length (filter (\<lambda>v. vt_vote v \<noteq> ''no'') vs)"
    by (rule sum_length_filter_compl [symmetric])
  moreover have "filter (\<lambda>v. vt_vote v \<noteq> ''no'') vs = filter (\<lambda>v. vt_vote v = ''yes'') vs"
    using ballot_okD(3) [OF ok] by (intro filter_cong) (auto simp: vs_def vote_ok_def)
  ultimately have count: "int (length vs) =
      count_votes g (pr_proposal_id p) ''no'' + count_votes g (pr_proposal_id p) ''yes''"
    by (simp add: count_votes_def vs_def conj_commute flip: of_nat_add)
  have "distinct (map vt_voter_id vs)"
    using ballot_okD(2) [OF ok] unfolding vs_def by (auto simp: distinct_map inj_on_def distinct_filter)
  then have card: "card (vt_voter_id ` set vs) = length vs"
    by (metis distinct_card length_map set_map)
  have sub: "vt_voter_id ` set vs \<subseteq> set (electors p)"
    using ballot_okD(3) [OF ok] unique_row [OF ballot_okD(1) [OF ok] p(1)]
    by (fastforce simp: vs_def vote_ok_def)
  have "card (set (electors p)) \<le> card (vt_voter_id ` set vs)"
    using q count card card_length [of "electors p"] by linarith
  then have "vt_voter_id ` set vs = set (electors p)"
    using sub by (intro card_seteq) auto
  then have "\<exists>v \<in> set vs. vt_voter_id v = u" if "u \<in> set (electors p)" for u
    using that by (auto simp flip: \<open>vt_voter_id ` set vs = set (electors p)\<close>)
  then show ?thesis
    by (auto simp: all_voted_def has_voted_def vs_def list_ex_iff)
qed

section \<open>Every operation keeps the invariant\<close>

lemma insert_vote_ok:
  assumes ok: "ballot_ok (now, g)" and p: "p \<in> set (g_proposals g)" "pr_kind p = FACT_FORGET" "pr_status p = ''pending''"
    and u: "u \<in> set (electors p)" "\<not> has_voted g (pr_proposal_id p) u"
  shows "ballot_ok (now, insert_vote t (pr_proposal_id p) u v g)"
proof -
  let ?g = "insert_vote t (pr_proposal_id p) u v g"
  have props: "g_proposals ?g = g_proposals g"
    by (simp add: insert_vote_def)
  have "settled_ok now ?g q" if "q \<in> set (g_proposals g)" "pr_kind q = FACT_FORGET" for q
  proof (cases "pr_proposal_id q = pr_proposal_id p")
    case True
    then have "q = p"
      using unique_row [OF ballot_okD(1) [OF ok] that(1) p(1)] by simp
    then show ?thesis
      using p(3) by (simp add: settled_ok_def)
  next
    case False
    then have "count_votes ?g (pr_proposal_id q) w = count_votes g (pr_proposal_id q) w"
      "has_voted ?g (pr_proposal_id q) x = has_voted g (pr_proposal_id q) x" for w x
      by (auto simp: count_votes_def has_voted_def insert_vote_def)
    then show ?thesis
      using ballot_okD(5) [OF ok that] by (simp add: settled_ok_def no_majority_def all_voted_def)
  qed
  moreover have "(pr_proposal_id p, u) \<notin> (\<lambda>v. (vt_proposal_id v, vt_voter_id v)) ` set (g_votes g)"
    using u(2) by (auto simp: has_voted_def list_ex_iff)
  then have "distinct (map (\<lambda>v. (vt_proposal_id v, vt_voter_id v)) (g_votes ?g))"
    using ballot_okD(2) [OF ok] by (simp add: insert_vote_def)
  moreover have "vote_ok (g_proposals g) w" if "w \<in> set (g_votes ?g)" for w
    using that ballot_okD(3) [OF ok] p u by (cases v) (auto simp: insert_vote_def vote_ok_def)
  ultimately show ?thesis
    using ballot_okD(1,4) [OF ok] by (simp add: ballot_ok_def props)
qed

lemma resolve_votes_ok:
  assumes ok: "ballot_ok (now, g)" and p: "p \<in> set (g_proposals g)" "pr_kind p = FACT_FORGET"
  shows "ballot_ok (now, fst (resolve_votes h i now (pr_proposal_id p) (electors p) g))"
proof -
  let ?pid = "pr_proposal_id p"
  have only: "q = p" if "q \<in> set (g_proposals g)" "pending_row ?pid q" for q
    using unique_row [OF ballot_okD(1) [OF ok] that(1) p(1)] that(2) by (simp add: pending_row_def)
  have st: "no_majority g (p\<lparr>pr_status := s\<rparr>) = no_majority g p" "all_voted g (p\<lparr>pr_status := s\<rparr>) = all_voted g p" for s
    using settled_ok_frame [of "p\<lparr>pr_status := s\<rparr>" p g] by (simp_all add: frame_def)
  consider (no) "no_majority g p"
    | (quorum) "\<not> no_majority g p" "int (length (electors p)) \<le> count_votes g ?pid ''no'' + count_votes g ?pid ''yes''"
    | (open_still) "\<not> no_majority g p" "\<not> int (length (electors p)) \<le> count_votes g ?pid ''no'' + count_votes g ?pid ''yes''"
    by blast
  then show ?thesis
  proof cases
    case no
    then have "ballot_ok (now, fst (expire_pending_proposal ?pid g))"
      using only st by (intro ballot_ok_flips [OF ok expire_pending_flips]) (auto simp: settled_ok_def)
    then show ?thesis
      using no by (simp add: resolve_votes_def tally_def no_majority_def)
  next
    case quorum
    have "settled_ok now g (p\<lparr>pr_status := ''applied''\<rparr>)"
      using quorum(1) quorum_all_voted [OF ok p quorum(2)] st by (simp add: settled_ok_def)
    then have "ballot_ok (now, fst (apply_fact_forget_now h i now ?pid g))"
      using apply_forget_now_flips [of g h i now ?pid] ballot_ok_same [OF ok] ballot_ok_flips [OF ok] only by metis
    moreover have "fst (resolve_votes h i now ?pid (electors p) g) = fst (apply_fact_forget_now h i now ?pid g)"
    proof -
      obtain g' res where "apply_fact_forget_now h i now ?pid g = (g', res)"
        by fastforce
      then show ?thesis
        using quorum by (cases res) (simp_all add: resolve_votes_def tally_def no_majority_def Let_def split: apply_error.split)
    qed
    ultimately show ?thesis by simp
  next
    case open_still
    then show ?thesis
      using ok by (simp add: resolve_votes_def tally_def no_majority_def)
  qed
qed

lemma cast_vote_cases:
  obtains (refused) e where "cast_vote users h i now pid voter v g = (g, Inl e)"
  | (counted) p where "p \<in> set (g_proposals g)" "pr_proposal_id p = pid" "pr_kind p = FACT_FORGET"
      "pr_status p = ''pending''" "now < pr_timeout_at p" "voter \<in> set (electors p)" "\<not> has_voted g pid voter"
      "cast_vote users h i now pid voter v g = resolve_votes h i now pid (electors p) (insert_vote now pid voter v g)"
proof (cases "find_proposal g pid")
  case None
  then show ?thesis
    by (intro refused) (simp add: cast_vote_def)
next
  case (Some p)
  note p = find_proposal_SomeD [OF Some]
  show ?thesis
  proof (cases "\<exists>e. cast_vote users h i now pid voter v g = (g, Inl e)")
    case True
    then show ?thesis using refused by blast
  next
    case False
    then obtain c where c: "pr_context p = Some c"
      using Some by (cases "pr_context p") (auto simp: cast_vote_def split: if_splits)
    then show ?thesis
      using Some False p
      by (intro counted [of p]) (auto simp: cast_vote_def Let_def electors_def split: if_splits)
  qed
qed

lemma cast_vote_ok:
  assumes ok: "ballot_ok (now, g)"
  shows "ballot_ok (now, fst (cast_vote users h i now pid voter v g))"
proof (cases rule: cast_vote_cases [of users h i now pid voter v g])
  case (counted p)
  have "ballot_ok (now, insert_vote now pid voter v g)"
    using insert_vote_ok [OF ok counted(1,3,4,6)] counted(2,7) by simp
  moreover have "p \<in> set (g_proposals (insert_vote now pid voter v g))"
    using counted(1) by (simp add: insert_vote_def)
  ultimately show ?thesis
    using resolve_votes_ok counted(2,3,8) by metis
qed (use ok in simp)

text \<open>Emitting: a new row with a fresh id, which no vote refers to yet.\<close>

lemma ballot_ok_append:
  assumes ok: "ballot_ok (now, g)" and fresh: "pr_proposal_id p \<notin> set (map pr_proposal_id (g_proposals g))"
    and new: "pr_kind p = FACT_FORGET \<Longrightarrow> request_ok p \<and> pr_status p = ''pending''"
  shows "ballot_ok (now, g\<lparr>g_proposals := g_proposals g @ [p]\<rparr>)"
proof -
  let ?g = "g\<lparr>g_proposals := g_proposals g @ [p]\<rparr>"
  have "settled_ok now ?g q = settled_ok now g q" for q
    by (simp add: settled_ok_def no_majority_def all_voted_def count_votes_def has_voted_def)
  moreover have "vote_ok (g_proposals g @ [p]) v" if "v \<in> set (g_votes g)" for v
    using ballot_okD(3) [OF ok that] by (auto simp: vote_ok_def)
  ultimately show ?thesis
    using ok fresh new by (auto simp: ballot_ok_def settled_ok_def)
qed

lemma ballot_ok_facts [simp]: "ballot_ok (now, g\<lparr>g_facts := f\<rparr>) = ballot_ok (now, g)"
  using ballot_ok_same [of now g "g\<lparr>g_facts := f\<rparr>"] ballot_ok_same [of now "g\<lparr>g_facts := f\<rparr>" g]
  by (auto simp: same_ballots_def)

lemma emit_proposal_ok:
  assumes "ballot_ok (now, g)"
    and "kind = FACT_FORGET \<Longrightarrow> \<exists>fid req el. context = forget_context fid req el \<and> distinct el \<and> el \<noteq> []"
  shows "ballot_ok (now, fst (emit_proposal t pid kind context questions timeout recipient g))"
  using assms by (auto simp: emit_proposal_def request_ok_def intro!: ballot_ok_append)

lemma distinct_electorate: "distinct (electorate members row requester)"
  by (simp add: electorate_def audience_def)

lemma open_forget_request_cases:
  "fst (open_forget_request members i now pid fid requester adm g) \<in>
     {g, g\<lparr>g_facts := fst (mark_forgotten (i now) fid ''fact_forget_sole_reader'' (g_facts g))\<rparr>} \<or>
   (\<exists>row. electorate members row requester \<noteq> [] \<and>
      fst (open_forget_request members i now pid fid requester adm g) =
      fst (emit_proposal now pid FACT_FORGET (forget_context fid requester (electorate members row requester))
        (forget_questions fid) VOTE_WINDOW (Some (''user:'' @ requester)) g))"
proof (cases "find_by_id (g_facts g) fid")
  case (Some row)
  let ?e = "emit_proposal now pid FACT_FORGET (forget_context fid requester (electorate members row requester))
        (forget_questions fid) VOTE_WINDOW (Some (''user:'' @ requester)) g"
  have "fst (case ?e of (g', Inl e) \<Rightarrow> (g', Inl (RequestEmit e))
        | (g', Inr p) \<Rightarrow> (g', Inr (VoteOpened p fid (electorate members row requester) (now + VOTE_WINDOW)))) = fst ?e"
    by (cases ?e; cases "snd ?e") auto
  then show ?thesis
    using Some by (auto simp: open_forget_request_def Let_def)
qed (simp add: open_forget_request_def)

lemma open_forget_request_ok:
  assumes "ballot_ok (now, g)"
  shows "ballot_ok (now, fst (open_forget_request members i now pid fid requester adm g))"
proof -
  have "ballot_ok (now, fst (emit_proposal now pid FACT_FORGET (forget_context fid requester (electorate members row requester))
      (forget_questions fid) VOTE_WINDOW rcp g))" if "electorate members row requester \<noteq> []" for row rcp
    using assms that distinct_electorate by (intro emit_proposal_ok) blast+
  then show ?thesis
    using open_forget_request_cases [of members i now pid fid requester adm g] assms by force
qed

lemma resolve_overdue_ok:
  assumes ok: "ballot_ok (now, g)" and p: "p \<in> set (g_proposals g)" "pr_kind p = FACT_FORGET" "pr_timeout_at p < now"
  shows "ballot_ok (now, fst (resolve_overdue_fact_forget h i now (pr_proposal_id p) g))"
proof -
  let ?pid = "pr_proposal_id p"
  have only: "q = p" if "q \<in> set (g_proposals g)" "pr_proposal_id q = ?pid" for q
    using unique_row [OF ballot_okD(1) [OF ok] that(1) p(1) that(2)] .
  have find: "find_proposal g ?pid = Some p"
    by (rule find_proposal_unique [OF ballot_okD(1) [OF ok] p(1)])
  obtain fid req el where c: "pr_context p = Some (forget_context fid req el)"
    using ballot_okD(4) [OF ok p(1,2)] by (auto simp: request_ok_def)
  have el: "electors p = el"
    using c by (simp add: electors_def)
  have st: "no_majority g (p\<lparr>pr_status := s\<rparr>) = no_majority g p" for s
    using settled_ok_frame [of "p\<lparr>pr_status := s\<rparr>" p g] by (simp add: frame_def)
  show ?thesis
  proof (cases "no_majority g p")
    case True
    have "ballot_ok (now, fst (expire_pending_proposal ?pid g))"
      using only st True
      by (intro ballot_ok_flips [OF ok expire_pending_flips]) (auto simp: settled_ok_def pending_row_def)
    then show ?thesis
      using True find c el by (simp add: resolve_overdue_fact_forget_def no_majority_def)
  next
    case False
    have "settled_ok now g (q\<lparr>pr_status := ''applied''\<rparr>)" if "q \<in> set (g_proposals g)" "pending_row ?pid q" for q
      using only [OF that(1)] that(2) st False p(3) by (auto simp: settled_ok_def pending_row_def)
    then have "ballot_ok (now, fst (apply_fact_forget_now h i now ?pid g))"
      using apply_forget_now_flips [of g h i now ?pid] ballot_ok_same [OF ok] ballot_ok_flips [OF ok, of ?pid "''applied''"]
      by blast
    moreover have "fst (resolve_overdue_fact_forget h i now ?pid g) = fst (apply_fact_forget_now h i now ?pid g)"
      using False find c el
      by (auto simp: resolve_overdue_fact_forget_def no_majority_def split: prod.splits sum.splits)
    ultimately show ?thesis by simp
  qed
qed

lemma apply_other_ok:
  assumes ok: "ballot_ok (now, g)" and f: "same_ballots g g' \<or> flips pid ''applied'' g g'"
    and other: "\<And>q. q \<in> set (g_proposals g) \<Longrightarrow> pr_proposal_id q = pid \<Longrightarrow> pr_kind q \<noteq> FACT_FORGET"
  shows "ballot_ok (now, g')"
  using f
proof
  assume "flips pid ''applied'' g g'"
  then show ?thesis
    by (rule ballot_ok_flips [OF ok]) (use other in \<open>auto simp: pending_row_def\<close>)
qed (rule ballot_ok_same [OF ok])

lemma expire_overdue_ok:
  assumes ok: "ballot_ok (now, g)"
  shows "ballot_ok (now, fst (expire_overdue_proposals now g))"
proof -
  define f :: "proposal_row \<Rightarrow> proposal_row" where "f = (\<lambda>r. if pr_status r = ''pending'' \<and> pr_timeout_at r < now - EXPIRE_GRACE_PERIOD
     then r\<lparr>pr_status := ''expired''\<rparr> else r)"
  let ?g = "g\<lparr>g_proposals := map f (g_proposals g)\<rparr>"
  have fr: "frame (f r) = frame r" for r
    by (simp add: f_def frame_def)
  have settled: "settled_ok now ?g (f r)" if "r \<in> set (g_proposals g)" "pr_kind r = FACT_FORGET" for r
    using ballot_okD(5) [OF ok that] settled_ok_frame [OF fr [of r], of g]
    by (auto simp: settled_ok_def no_majority_def all_voted_def count_votes_def has_voted_def f_def split: if_splits)
  have frames: "map frame (g_proposals ?g) = map frame (g_proposals g)"
    by (simp add: fr)
  have "pr_kind (f r) = FACT_FORGET \<Longrightarrow> request_ok (f r) \<and> settled_ok now ?g (f r)" if "r \<in> set (g_proposals g)" for r
    using that settled frame_eqD [OF fr [of r]] settled_ok_frame [OF fr [of r], of g] ballot_okD(4) [OF ok] by metis
  then have "ballot_ok (now, ?g)"
    using ok map_frame_ids [OF frames] vote_ok_frame [OF frames] by (auto simp: ballot_ok_def simp del: map_map)
  then show ?thesis
    by (simp add: expire_overdue_proposals_def f_def Let_def)
qed

lemma flips_or_same_frame:
  "same_ballots g g' \<or> flips pid st g g' \<Longrightarrow> map frame (g_proposals g') = map frame (g_proposals g)"
  by (auto simp: same_ballots_def flips_frame)

lemma resolve_overdue_moves:
  "(\<exists>st. same_ballots g (fst (resolve_overdue_fact_forget h i now pid g)) \<or>
         flips pid st g (fst (resolve_overdue_fact_forget h i now pid g)))"
proof -
  obtain g' res where a: "apply_fact_forget_now h i now pid g = (g', res)"
    by fastforce
  then have "same_ballots g g' \<or> flips pid ''applied'' g g'"
    using apply_forget_now_flips [of g h i now pid] by simp
  then show ?thesis
    using a expire_pending_flips [of pid g]
    by (cases res) (auto simp: resolve_overdue_fact_forget_def Let_def same_ballots_def split: option.split)
qed

lemma fst_sweep_row:
  "fst (sweep_row h i now r (g, rep)) =
     (if pr_kind r = FACT_FORGET then fst (resolve_overdue_fact_forget h i now (pr_proposal_id r) g)
      else case build_recommended_answers (pr_questions r) of
             Inl e \<Rightarrow> g | Inr a \<Rightarrow> fst (auto_apply_proposal h i now (pr_proposal_id r) a g))"
  by (auto simp: sweep_row_def Let_def split: prod.split sum.split option.split)

lemma sweep_row_ok:
  assumes ok: "ballot_ok (now, g)" and p: "p \<in> set (g_proposals g)" "frame p = frame r" and late: "pr_timeout_at r < now"
  shows "ballot_ok (now, fst (sweep_row h i now r (g, rep)))
       \<and> map frame (g_proposals (fst (sweep_row h i now r (g, rep)))) = map frame (g_proposals g)"
proof (cases "pr_kind r = FACT_FORGET")
  case True
  then show ?thesis
    using resolve_overdue_ok [OF ok p(1), of h i] frame_eqD [OF p(2)] late
      resolve_overdue_moves [of g h i now "pr_proposal_id r"] flips_or_same_frame
    by (auto simp: fst_sweep_row)
next
  case False
  have other: "pr_kind q \<noteq> FACT_FORGET" if "q \<in> set (g_proposals g)" "pr_proposal_id q = pr_proposal_id r" for q
    using unique_row [OF ballot_okD(1) [OF ok] that(1) p(1)] that(2) frame_eqD [OF p(2)] False by simp
  show ?thesis
    using False ok apply_other_ok [OF ok auto_apply_proposal_flips other] flips_or_same_frame [OF auto_apply_proposal_flips]
    by (auto simp: fst_sweep_row split: sum.split)
qed

lemma sweep_fold_ok:
  assumes "ballot_ok (now, g)" "map frame (g_proposals g) = map frame (g_proposals g0)"
    and "set rows \<subseteq> {r \<in> set (g_proposals g0). pr_timeout_at r < now}"
  shows "ballot_ok (now, fst (fold (sweep_row h i now) rows (g, rep)))"
  using assms
proof (induction rows arbitrary: g rep)
  case (Cons r rows)
  have "frame r \<in> set (map frame (g_proposals g))"
    using Cons.prems(2,3) by simp
  then obtain p where p: "p \<in> set (g_proposals g)" "frame p = frame r"
    by auto
  obtain g' rep' where s: "sweep_row h i now r (g, rep) = (g', rep')"
    by fastforce
  show ?case
    using sweep_row_ok [OF Cons.prems(1) p, of h i rep] Cons.IH [of g' rep'] Cons.prems(2,3) s by auto
qed simp

lemma auto_apply_overdue_ok:
  "ballot_ok (now, g) \<Longrightarrow> ballot_ok (now, fst (auto_apply_overdue_proposals h i now g))"
  unfolding auto_apply_overdue_proposals_def Let_def by (rule sweep_fold_ok) auto

section \<open>Runs\<close>

datatype gov_op =
    GOpen string fact_id string bool
  | GVote string string vote
  | GSweep
  | GExpire
  | GEmit string string json json int "string option"
  | GApply string json "string option" bool bool

record gov_env =
  ge_members :: "string \<Rightarrow> string list"
  ge_users :: "string list"
  ge_handlers :: kind_handlers
  ge_to_iso :: "int \<Rightarrow> string"

fun run_gov :: "gov_env \<Rightarrow> int \<Rightarrow> gov_op \<Rightarrow> governance \<Rightarrow> governance" where
  "run_gov e now (GOpen pid fid req adm) g = fst (open_forget_request (ge_members e) (ge_to_iso e) now pid fid req adm g)"
| "run_gov e now (GVote pid voter v) g = fst (cast_vote (ge_users e) (ge_handlers e) (ge_to_iso e) now pid voter v g)"
| "run_gov e now GSweep g = fst (auto_apply_overdue_proposals (ge_handlers e) (ge_to_iso e) now g)"
| "run_gov e now GExpire g = fst (expire_overdue_proposals now g)"
| "run_gov e now (GEmit pid k c q tmo rcp) g = fst (emit_proposal now pid k c q tmo rcp g)"
| "run_gov e now (GApply pid a who adm rv) g =
     fst (apply_proposal (ge_handlers e) (ge_to_iso e) now pid a who adm rv g)"

text \<open>
  Forget requests come from \<open>open_forget_request\<close> alone, and the steps considered here leave their
  resolution to the votes and the sweeps: applying one by hand is looked at below.
\<close>

fun gov_op_ok :: "governance \<Rightarrow> gov_op \<Rightarrow> bool" where
  "gov_op_ok g (GEmit pid k c q tmo rcp) \<longleftrightarrow> k \<noteq> FACT_FORGET"
| "gov_op_ok g (GApply pid a who adm rv) \<longleftrightarrow>
     list_all (\<lambda>p. pr_proposal_id p = pid \<longrightarrow> pr_kind p \<noteq> FACT_FORGET) (g_proposals g)"
| "gov_op_ok g _ \<longleftrightarrow> True"

inductive gov_step :: "gov_env \<Rightarrow> int \<times> governance \<Rightarrow> int \<times> governance \<Rightarrow> bool" for e where
  gov_step_op: "c \<le> now \<Longrightarrow> gov_op_ok g op \<Longrightarrow> gov_step e (c, g) (now, run_gov e now op g)"

lemma run_gov_ok:
  assumes "ballot_ok (c, g)" "c \<le> now" "gov_op_ok g op"
  shows "ballot_ok (now, run_gov e now op g)"
proof -
  have ok: "ballot_ok (now, g)"
    using ballot_ok_later [OF assms(1,2)] .
  show ?thesis
  proof (cases op)
    case (GApply pid a who adm rv)
    then show ?thesis
      using assms(3) apply_other_ok [OF ok apply_proposal_flips] by (auto simp: list_all_iff)
  next
    case (GEmit pid k c q tmo rcp)
    then show ?thesis
      using assms(3) ok by (auto intro!: emit_proposal_ok)
  qed (use ok in \<open>auto simp: cast_vote_ok open_forget_request_ok auto_apply_overdue_ok expire_overdue_ok\<close>)
qed

interpretation governance_run: stepping "gov_step e" ballot_ok
  for e
  by unfold_locales (auto simp: gov_step.simps run_gov_ok)

section \<open>What the vote guarantees\<close>

definition no_ballots :: "governance \<Rightarrow> bool" where
  "no_ballots g \<longleftrightarrow> g_proposals g = [] \<and> g_votes g = []"

lemma no_ballots_ok: "no_ballots g \<Longrightarrow> ballot_ok (c, g)"
  by (simp add: no_ballots_def ballot_ok_def)

text \<open>
  C4: a contribution is only taken away with the consent of its readers. In every state reachable by
  opening requests, voting, sweeping, expiring and handling other proposals, a forget request that was
  applied has no majority of NO among its electors, and either every elector has voted or its window
  is over; one that was expired was blocked by such a majority or outlived its grace. Votes come from
  electors only, one each.
\<close>

theorem forgetting_needs_consent:
  assumes "rtranclp (gov_step e) (c0, g0) (c, g)" "no_ballots g0"
    and "p \<in> set (g_proposals g)" "pr_kind p = FACT_FORGET"
  shows "(pr_status p = ''applied'' \<longrightarrow> \<not> no_majority g p \<and> (all_voted g p \<or> pr_timeout_at p < c)) \<and>
         (pr_status p = ''expired'' \<longrightarrow> no_majority g p \<or> pr_timeout_at p + EXPIRE_GRACE_PERIOD < c) \<and>
         (\<forall>v \<in> set (g_votes g). vt_proposal_id v = pr_proposal_id p \<longrightarrow> vt_voter_id v \<in> set (electors p)) \<and>
         distinct (map vt_voter_id (filter (\<lambda>v. vt_proposal_id v = pr_proposal_id p) (g_votes g)))"
proof -
  have ok: "ballot_ok (c, g)"
    using governance_run.reachable_keeps [OF assms(1)] no_ballots_ok [OF assms(2)] by blast
  have "vt_voter_id v \<in> set (electors p)" if "v \<in> set (g_votes g)" "vt_proposal_id v = pr_proposal_id p" for v
    using ballot_okD(3) [OF ok that(1)] that(2) unique_row [OF ballot_okD(1) [OF ok] _ assms(3)]
    by (auto simp: vote_ok_def)
  moreover have "distinct (map vt_voter_id (filter (\<lambda>v. vt_proposal_id v = pr_proposal_id p) (g_votes g)))"
    using ballot_okD(2) [OF ok] by (auto simp: distinct_map inj_on_def)
  ultimately show ?thesis
    using ballot_okD(5) [OF ok assms(3,4)] by (simp add: settled_ok_def)
qed

lemma resolve_votes_moves:
  "\<exists>st. same_ballots g (fst (resolve_votes h i now pid el g)) \<or> flips pid st g (fst (resolve_votes h i now pid el g))"
proof -
  obtain g' res where a: "apply_fact_forget_now h i now pid g = (g', res)"
    by fastforce
  then have "same_ballots g g' \<or> flips pid ''applied'' g g'"
    using apply_forget_now_flips [of g h i now pid] by simp
  then show ?thesis
    using a expire_pending_flips [of pid g]
    by (cases res) (auto simp: resolve_votes_def tally_def Let_def same_ballots_def split: apply_error.split)
qed

lemma moves_settled:
  "same_ballots g g' \<or> flips pid st g g' \<Longrightarrow> p \<in> set (g_proposals g) \<Longrightarrow> pr_status p \<noteq> ''pending''
     \<Longrightarrow> p \<in> set (g_proposals g')"
  using flips_settled by (auto simp: same_ballots_def)

lemma sweep_row_settled:
  assumes "p \<in> set (g_proposals (fst s))" "pr_status p \<noteq> ''pending''"
  shows "p \<in> set (g_proposals (fst (sweep_row h i now r s)))"
proof -
  obtain g rep where s: "s = (g, rep)"
    by fastforce
  have "p \<in> set (g_proposals (fst (resolve_overdue_fact_forget h i now (pr_proposal_id r) g)))"
    using resolve_overdue_moves moves_settled assms s by (metis fst_conv)
  moreover have "p \<in> set (g_proposals (fst (auto_apply_proposal h i now (pr_proposal_id r) a g)))" for a
    using moves_settled [OF auto_apply_proposal_flips] assms s by simp
  ultimately show ?thesis
    using assms s by (auto simp: fst_sweep_row split: sum.split)
qed

lemma sweep_settled:
  "p \<in> set (g_proposals (fst s)) \<Longrightarrow> pr_status p \<noteq> ''pending'' \<Longrightarrow>
     p \<in> set (g_proposals (fst (fold (sweep_row h i now) rows s)))"
  by (induction rows arbitrary: s) (auto simp: sweep_row_settled)

text \<open>
  C38: a resolution is final. A proposal that was applied or expired is never changed again, in any
  column, by any request, vote, sweep or application, whoever asks for it.
\<close>

theorem resolution_is_final:
  assumes "p \<in> set (g_proposals g)" "pr_status p \<noteq> ''pending''"
  shows "p \<in> set (g_proposals (run_gov e now op g))"
proof (cases op)
  case (GOpen pid fid req adm)
  then show ?thesis
    using open_forget_request_cases [of "ge_members e" "ge_to_iso e" now pid fid req adm g] assms
    by (auto simp: emit_proposal_def)
next
  case (GVote pid voter v)
  have "p \<in> set (g_proposals (fst (resolve_votes (ge_handlers e) (ge_to_iso e) now pid el (insert_vote now pid voter v g))))" for el
    using resolve_votes_moves [of "insert_vote now pid voter v g" "ge_handlers e" "ge_to_iso e" now pid el]
      moves_settled [of "insert_vote now pid voter v g" _ pid _ p] assms by (auto simp: insert_vote_def)
  then show ?thesis
    using GVote assms(1) cast_vote_cases [of "ge_users e" "ge_handlers e" "ge_to_iso e" now pid voter v g]
    by (metis run_gov.simps(2) fst_conv)
next
  case GSweep
  then show ?thesis
    using assms by (simp add: auto_apply_overdue_proposals_def Let_def sweep_settled)
next
  case GExpire
  then show ?thesis
    using assms by (force simp: expire_overdue_proposals_def Let_def)
next
  case (GEmit pid k c q tmo rcp)
  then show ?thesis
    using assms by (simp add: emit_proposal_def)
next
  case (GApply pid a who adm rv)
  then show ?thesis
    using moves_settled [OF apply_proposal_flips assms] by simp
qed

lemma mark_forgotten_gone:
  assumes "r \<in> set (fst (mark_forgotten now fid why tab))" "fr_fact_id r = fid"
  shows "fr_deleted_at r \<noteq> None"
proof -
  have "\<not> live fid r"
    using assms(1) unfolding mark_forgotten_def by (rule sql_update_exhausts [rotated]) (simp add: live_def tombstone_def)
  then show ?thesis
    using assms(2) by (simp add: live_def)
qed

lemma apply_forget_applies:
  assumes "find_proposal g pid = Some p" "pr_status p = ''pending''" "pr_kind p = FACT_FORGET"
    and "pr_context p = Some c" "json_get_str ''fact_id'' c = Some s" "fact_id_parse s = Inr fid"
    and "recipient_can_act (pr_recipient_id p) FACT_FORGET (case who of Some w \<Rightarrow> w | None \<Rightarrow> []) adm rv"
  shows "\<exists>g' out. apply_proposal h i now pid a who adm rv g = (g', Inr out)
       \<and> (\<forall>r \<in> set (g_facts g'). fr_fact_id r = fid \<longrightarrow> fr_deleted_at r \<noteq> None)
       \<and> (\<exists>q \<in> set (g_proposals g'). pr_proposal_id q = pid \<and> pr_status q = ''applied'')"
proof -
  obtain facts' n where mf: "mark_forgotten (i now) fid ''fact_forget_vote'' (g_facts g) = (facts', n)"
    by fastforce
  have gone: "\<forall>r \<in> set facts'. fr_fact_id r = fid \<longrightarrow> fr_deleted_at r \<noteq> None"
    using mark_forgotten_gone [of _ "i now" fid "''fact_forget_vote''" "g_facts g"] mf by auto
  define g1 where "g1 = g\<lparr>g_facts := facts'\<rparr>"
  have p: "p \<in> set (g_proposals g1)" "pending_row pid p"
    using find_proposal_SomeD [OF assms(1)] assms(2) by (simp_all add: g1_def pending_row_def)
  have canon: "is_canonical FACT_FORGET"
    by (simp add: is_canonical_def kinds_all_def)
  obtain spec where "apply_proposal h i now pid a who adm rv g = mark_applied now pid who a spec g1"
    using assms mf canon
    by (simp add: apply_proposal_def dispatch_apply_kind_def apply_fact_forget_def g1_def Let_def)
  moreover obtain g2 res where m: "mark_applied now pid who a spec g1 = (g2, res)"
    by fastforce
  have "filter (pending_row pid) (g_proposals g1) \<noteq> []"
    using p by (auto simp: filter_empty_conv)
  then have g2: "g_facts g2 = facts'" "g_proposals g2 = map (\<lambda>r. if pending_row pid r then
        r\<lparr>pr_status := ''applied'', pr_apply_mode := Some ''manual'', pr_applied_at := Some now,
          pr_applied_by := who, pr_answers := Some a, pr_spec := spec\<rparr> else r) (g_proposals g1)"
    using m by (auto simp: mark_applied_def mark_applied_as_def update_pending_def g1_def split: if_splits)
  let ?q = "p\<lparr>pr_status := ''applied'', pr_apply_mode := Some ''manual'', pr_applied_at := Some now,
          pr_applied_by := who, pr_answers := Some a, pr_spec := spec\<rparr>"
  have "?q \<in> set (g_proposals g2)"
    unfolding g2(2) set_map using p by (intro image_eqI [of _ _ p]) simp_all
  then have q: "\<exists>q \<in> set (g_proposals g2). pr_proposal_id q = pid \<and> pr_status q = ''applied''"
    using p(2) by (intro bexI [of _ ?q]) (simp_all add: pending_row_def)
  then have "find_proposal g2 pid \<noteq> None"
    by (auto simp: find_proposal_def find_None_iff)
  then have "\<exists>out. res = Inr out"
    using m \<open>filter (pending_row pid) (g_proposals g1) \<noteq> []\<close>
    by (auto simp: mark_applied_def mark_applied_as_def update_pending_def split: if_splits option.splits)
  ultimately show ?thesis
    using m g2(1) gone q by auto
qed

text \<open>
  silence is consent. A pending request whose window is over and which no majority of NO blocks is
  carried out by the sweep: the proposal becomes applied and no row of the fact stays live.
\<close>

lemma silence_carries:
  assumes "rtranclp (gov_step e) (c0, g0) (c, g)" "no_ballots g0"
    and "p \<in> set (g_proposals g)" "pr_kind p = FACT_FORGET" "pr_status p = ''pending''" "\<not> no_majority g p"
    and "pr_context p = Some ctx" "json_get_str ''fact_id'' ctx = Some s" "fact_id_parse s = Inr fid"
  shows "\<exists>g'. resolve_overdue_fact_forget h i now (pr_proposal_id p) g = (g', Inr (Some ()))
       \<and> (\<forall>r \<in> set (g_facts g'). fr_fact_id r = fid \<longrightarrow> fr_deleted_at r \<noteq> None)
       \<and> (\<exists>q \<in> set (g_proposals g'). pr_proposal_id q = pr_proposal_id p \<and> pr_status q = ''applied'')"
proof -
  have ok: "ballot_ok (c, g)"
    using governance_run.reachable_keeps [OF assms(1)] no_ballots_ok [OF assms(2)] by blast
  have find: "find_proposal g (pr_proposal_id p) = Some p"
    by (rule find_proposal_unique [OF ballot_okD(1) [OF ok] assms(3)])
  have "recipient_can_act (pr_recipient_id p) FACT_FORGET (case None of Some w \<Rightarrow> w | None \<Rightarrow> []) True True"
    by (simp add: recipient_can_act_def)
  from apply_forget_applies [OF find assms(5,4,7-9) this, of h i now "JObj []"] obtain g' out where
    a: "apply_proposal h i now (pr_proposal_id p) (JObj []) None True True g = (g', Inr out)"
    and post: "\<forall>r \<in> set (g_facts g'). fr_fact_id r = fid \<longrightarrow> fr_deleted_at r \<noteq> None"
      "\<exists>q \<in> set (g_proposals g'). pr_proposal_id q = pr_proposal_id p \<and> pr_status q = ''applied''"
    by blast
  obtain fid' req el where ctx: "ctx = forget_context fid' req el"
    using ballot_okD(4) [OF ok assms(3,4)] assms(7) by (auto simp: request_ok_def)
  then have "length el = length (electors p)"
    using assms(7) by (simp add: electors_def)
  then have "resolve_overdue_fact_forget h i now (pr_proposal_id p) g = (g', Inr (Some ()))"
    using find assms(6,7) ctx a
    by (simp add: resolve_overdue_fact_forget_def no_majority_def apply_fact_forget_now_def)
  then show ?thesis
    using post by blast
qed

text \<open>
  The electorate of a request is the fact's readership. Over the enrollment table, and as long as
  the fact is not addressed to everyone, the voters of an opened request are exactly the enrolled
  readers of the fact other than the requester (the forgotten author aside), and opening the request
  takes nothing away: the fact table is unchanged.
\<close>

lemma electorate_is_readers:
  assumes "open_forget_request (members_for tab) i now pid fid requester adm g = (g', Inr (VoteOpened q f el d))"
    and "find_by_id (g_facts g) fid = Some row"
    and "\<forall>p \<in> insert (fr_subject_id row) (set (fr_allow_ids row) \<union> set_option (fr_sender_id row) \<union> set (fr_excluded_ids row)).
           principal_id p \<noteq> [] \<and> \<not> is_global p"
    and "u \<noteq> []" "u \<noteq> REMOVED_USER_ID"
  shows "(u \<in> set el \<longleftrightarrow> u \<noteq> requester \<and> row_readable_by row u (groups_for tab u)) \<and> g_facts g' = g_facts g"
proof -
  have "el = electorate (members_for tab) row requester" "g_facts g' = g_facts g"
    using assms(1,2) by (auto simp: open_forget_request_def emit_proposal_def Let_def split: if_splits)
  then show ?thesis
    using enrolled.audience_iff_can_read [OF assms(4,5,3), of tab]
    by (auto simp: electorate_def row_readable_by_def row_acl_def)
qed

text \<open>
  The addressee of a forget request is its requester, and an addressee may apply what is addressed to
  them: whoever may open a request can carry it out at once, before anybody has voted.
\<close>

lemma find_last:
  "pid \<notin> set (map pr_proposal_id ps) \<Longrightarrow> pr_proposal_id p = pid \<Longrightarrow>
     List.find (\<lambda>r. pr_proposal_id r = pid) (ps @ [p]) = Some p"
  by (induction ps) auto

lemma requester_bypasses_the_vote:
  assumes "open_forget_request members i now pid fid requester False g = (g1, Inr (VoteOpened q fid el d))"
    and "fact_id_parse (fact_id_str fid) = Inr fid"
  shows "\<exists>g2 out. apply_proposal h i now' q a (Some requester) False False g1 = (g2, Inr out)
       \<and> (\<forall>r \<in> set (g_facts g2). fr_fact_id r = fid \<longrightarrow> fr_deleted_at r \<noteq> None)"
proof -
  obtain eligible where q: "q = pid" "pid \<notin> set (map pr_proposal_id (g_proposals g))"
    and g1: "g_proposals g1 = g_proposals g @ [\<lparr>pr_proposal_id = pid, pr_kind = FACT_FORGET,
       pr_context = Some (forget_context fid requester eligible), pr_questions = Some (forget_questions fid),
       pr_proposed_at = now, pr_timeout_at = now + VOTE_WINDOW, pr_status = ''pending'', pr_applied_at = None,
       pr_applied_by = None, pr_apply_mode = None, pr_answers = None, pr_spec = None,
       pr_recipient_id = Some (''user:'' @ requester)\<rparr>]"
    using assms(1) by (auto simp: open_forget_request_def emit_proposal_def Let_def split: option.splits if_splits)
  obtain p where p: "find_proposal g1 pid = Some p" "pr_status p = ''pending''" "pr_kind p = FACT_FORGET"
    "pr_context p = Some (forget_context fid requester eligible)" "pr_recipient_id p = Some (''user:'' @ requester)"
    using find_last [OF q(2)] g1 by (simp add: find_proposal_def)
  have "recipient_can_act (pr_recipient_id p) FACT_FORGET (case Some requester of Some w \<Rightarrow> w | None \<Rightarrow> []) False False"
    using p(5) by (simp add: recipient_can_act_def strip_prefix_Some_iff is_some_and_def strip_prefix_def starts_with_def)
  from apply_forget_applies [OF p(1-4) fact_id_forget_context assms(2) this] show ?thesis
    using q(1) by blast
qed

section \<open>A concrete vote\<close>

text \<open>Bob stated a fact about Alice that Carol may read too; Alice asks for it to be forgotten.\<close>

definition vote_fact :: fact_id where
  "vote_fact = FactId ''0190a0c8-0000-7000-8000-000000000001''"

definition vote_row_fact :: fact_row where
  "vote_row_fact = (row_of_new_fact ''t0'' (sample_new_fact ''a'' None))\<lparr>fr_fact_id := vote_fact,
     fr_subject_id := User ''alice'', fr_allow_ids := [User ''carol''], fr_excluded_ids := [],
     fr_sender_id := Some (User ''bob'')\<rparr>"

definition vote_env :: gov_env where
  "vote_env = \<lparr>ge_members = members_for [], ge_users = [''alice'', ''bob'', ''carol''],
     ge_handlers = (\<lambda>_ _ _ facts. (facts, Inl HandlerData)), ge_to_iso = (\<lambda>_. ''now'')\<rparr>"

definition vote_start :: governance where
  "vote_start = \<lparr>g_proposals = [], g_votes = [], g_facts = [vote_row_fact]\<rparr>"

definition vote_opened :: governance where
  "vote_opened = run_gov vote_env 0 (GOpen ''p1'' vote_fact ''alice'' False) vote_start"

definition vote_closed :: governance where
  "vote_closed = run_gov vote_env 2 (GVote ''p1'' ''carol'' VoteNo)
     (run_gov vote_env 1 (GVote ''p1'' ''bob'' VoteYes) vote_opened)"

lemma vote_reachable:
  "rtranclp (gov_step vote_env) (0, vote_start) (0, vote_opened)"
  "rtranclp (gov_step vote_env) (0, vote_start) (2, vote_closed)"
proof -
  have "gov_step vote_env (0, vote_start) (0, vote_opened)"
    unfolding vote_opened_def by (rule gov_step_op) simp_all
  moreover have "gov_step vote_env (0, vote_opened) (1, run_gov vote_env 1 (GVote ''p1'' ''bob'' VoteYes) vote_opened)"
    by (rule gov_step_op) simp_all
  moreover have "gov_step vote_env (1, run_gov vote_env 1 (GVote ''p1'' ''bob'' VoteYes) vote_opened) (2, vote_closed)"
    unfolding vote_closed_def by (rule gov_step_op) simp_all
  ultimately show "rtranclp (gov_step vote_env) (0, vote_start) (0, vote_opened)"
    "rtranclp (gov_step vote_env) (0, vote_start) (2, vote_closed)"
    by (auto intro: rtranclp.rtrancl_into_rtrancl)
qed

theorem forgetting_needs_consent_witness:
  "let p = hd (g_proposals vote_closed) in
     pr_status p = ''applied'' \<and> \<not> no_majority vote_closed p \<and> (all_voted vote_closed p \<or> pr_timeout_at p < 2)"
proof -
  let ?p = "hd (g_proposals vote_closed)"
  have "no_ballots vote_start" "?p \<in> set (g_proposals vote_closed)" "pr_kind ?p = FACT_FORGET"
    "pr_status ?p = ''applied''"
    by code_simp+
  then show ?thesis
    using forgetting_needs_consent [OF vote_reachable(2)] by (simp add: Let_def)
qed

theorem resolution_is_final_witness:
  "hd (g_proposals vote_closed) \<in>
     set (g_proposals (run_gov vote_env 3 (GApply ''p1'' JNull None True True) vote_closed))"
proof (rule resolution_is_final)
  show "hd (g_proposals vote_closed) \<in> set (g_proposals vote_closed)" by code_simp
  show "pr_status (hd (g_proposals vote_closed)) \<noteq> ''pending''" by code_simp
qed

lemma silence_carries_witness:
  "\<exists>g'. resolve_overdue_fact_forget (ge_handlers vote_env) (ge_to_iso vote_env) (VOTE_WINDOW + 1) ''p1'' vote_opened =
     (g', Inr (Some ()))
   \<and> list_all (\<lambda>r. fr_deleted_at r \<noteq> None) (filter (\<lambda>r. fr_fact_id r = vote_fact) (g_facts g'))"
proof -
  let ?p = "hd (g_proposals vote_opened)" and ?c = "forget_context vote_fact ''alice'' [''bob'', ''carol'']"
  have "no_ballots vote_start" "?p \<in> set (g_proposals vote_opened)" "pr_kind ?p = FACT_FORGET"
    "pr_status ?p = ''pending''" "\<not> no_majority vote_opened ?p" "pr_context ?p = Some ?c"
    "json_get_str ''fact_id'' ?c = Some (fact_id_str vote_fact)" "fact_id_parse (fact_id_str vote_fact) = Inr vote_fact"
    by code_simp+
  moreover have "pr_proposal_id ?p = ''p1''"
    by code_simp
  ultimately show ?thesis
    using silence_carries [OF vote_reachable(1), of ?p ?c "fact_id_str vote_fact" vote_fact
        "ge_handlers vote_env" "ge_to_iso vote_env" "VOTE_WINDOW + 1"]
    by (auto simp: list_all_iff)
qed

lemma electorate_is_readers_witness:
  "\<exists>g' d. open_forget_request (members_for []) (\<lambda>_. ''now'') 0 ''p1'' vote_fact ''alice'' False vote_start =
     (g', Inr (VoteOpened ''p1'' vote_fact [''bob'', ''carol''] d)) \<and> row_readable_by vote_row_fact ''carol'' (groups_for [] ''carol'')"
proof -
  let ?o = "open_forget_request (members_for []) (\<lambda>_. ''now'') 0 ''p1'' vote_fact ''alice'' False vote_start"
  have out: "snd ?o = Inr (VoteOpened ''p1'' vote_fact [''bob'', ''carol''] VOTE_WINDOW)"
    by code_simp
  then have o: "?o = (fst ?o, Inr (VoteOpened ''p1'' vote_fact [''bob'', ''carol''] VOTE_WINDOW))"
    by (metis prod.collapse)
  have "find_by_id (g_facts vote_start) vote_fact = Some vote_row_fact"
    by code_simp
  from electorate_is_readers [OF o this, of "''carol''"]
  have "row_readable_by vote_row_fact ''carol'' (groups_for [] ''carol'')"
    by (simp add: vote_row_fact_def REMOVED_USER_ID_def row_of_new_fact_def)
  then show ?thesis
    using o by blast
qed

end
