(* ===== verification/Mwe_Leases.thy ===== *)
theory Mwe_Leases
  imports Mwe_Tokens
begin

text \<open>
  The cooperative lease of \<open>crates/mwe-core/src/wiki_admin_leases.rs\<close> and the gate \<open>wiki_admin::push\<close>
  puts behind it. The table \<open>wiki_admin_leases\<close> is the list of its rows in insertion order. Instants
  are nanoseconds: the columns hold \<open>to_rfc3339\<close> text, which between the years 0 and 9999 compares as
  the instants do. The lease id is a truncated SHA-256 of clock, wiki and sender; the digest is a
  parameter (\<open>uuid_like\<close>), and a clash with an existing id is the primary key's error.

  \<open>acquire\<close> reads the table and then writes it, in two statements outside a transaction, so it is
  composed of \<open>acquire_plan\<close> (everything up to the read) and \<open>acquire_write\<close>.
\<close>

section \<open>Rows and callers\<close>

record admin_caller =
  ac_sender_id :: string
  ac_consumer_id :: "string option"
  ac_consumer_class :: consumer_class

record lease_row =
  ls_lease_id :: string
  ls_wiki_id :: string
  ls_sender_id :: string
  ls_consumer_id :: "string option"
  ls_acquired_at :: int
  ls_expires_at :: int
  ls_released_at :: "int option"

type_synonym lease_table = "lease_row list"

definition DEFAULT_TTL_SECS :: int where
  "DEFAULT_TTL_SECS = 60"

definition MAX_TTL_SECS :: int where
  "MAX_TTL_SECS = 300"

datatype acquire_error =
    AcquireRequiresSmart
  | InvalidTtl int int
  | WikiLockedByLease wiki_id "string option" string int
  | AcquireDb

datatype release_error =
    ReleaseRequiresSmart
  | NotHeldByCaller string

record acquire_outcome =
  ao_lease_id :: string
  ao_wiki_id :: wiki_id
  ao_sender_id :: string
  ao_consumer_id :: "string option"
  ao_acquired_at :: int
  ao_expires_at :: int
  ao_renewed :: bool

record release_outcome =
  ro_lease_id :: string
  ro_wiki_id :: wiki_id
  ro_released_at :: int

record active_lease =
  al_lease_id :: string
  al_sender_id :: string
  al_consumer_id :: "string option"
  al_expires_at :: int

definition held_by :: "active_lease \<Rightarrow> admin_caller \<Rightarrow> bool" where
  "held_by l caller \<longleftrightarrow> al_sender_id l = ac_sender_id caller \<and> al_consumer_id l = ac_consumer_id caller"

section \<open>The statements\<close>

definition lease_is_active :: "wiki_id \<Rightarrow> int \<Rightarrow> lease_row \<Rightarrow> bool" where
  "lease_is_active wid now r \<longleftrightarrow> ls_wiki_id r = wiki_id_str wid \<and> ls_released_at r = None \<and> now < ls_expires_at r"

fun latest_acquired :: "lease_row list \<Rightarrow> lease_row option" where
  "latest_acquired [] = None"
| "latest_acquired (r # rs) =
     (case latest_acquired rs of
        None \<Rightarrow> Some r
      | Some r' \<Rightarrow> if ls_acquired_at r < ls_acquired_at r' then Some r' else Some r)"

definition active_lease_of_row :: "lease_row \<Rightarrow> active_lease" where
  "active_lease_of_row r =
     \<lparr>al_lease_id = ls_lease_id r, al_sender_id = ls_sender_id r,
      al_consumer_id = ls_consumer_id r, al_expires_at = ls_expires_at r\<rparr>"

definition active_lease_for :: "lease_table \<Rightarrow> wiki_id \<Rightarrow> int \<Rightarrow> active_lease option" where
  "active_lease_for tab wid now =
     map_option active_lease_of_row (latest_acquired (filter (lease_is_active wid now) tab))"

datatype lease_plan = RenewLease string | InsertLease

definition acquire_plan ::
  "lease_table \<Rightarrow> admin_caller \<Rightarrow> wiki_id \<Rightarrow> int option \<Rightarrow> int \<Rightarrow> acquire_error + (lease_plan \<times> int)" where
  "acquire_plan tab caller wid ttl_sec now =
     (if \<not> is_smart (ac_consumer_class caller) then Inl AcquireRequiresSmart
      else
        let ttl = (case ttl_sec of Some t \<Rightarrow> t | None \<Rightarrow> DEFAULT_TTL_SECS)
        in if \<not> (1 \<le> ttl \<and> ttl \<le> MAX_TTL_SECS) then Inl (InvalidTtl ttl MAX_TTL_SECS)
           else (case active_lease_for tab wid now of
                   Some existing \<Rightarrow>
                     if held_by existing caller
                     then Inr (RenewLease (al_lease_id existing), now + duration_seconds ttl)
                     else Inl (WikiLockedByLease wid (al_consumer_id existing) (al_sender_id existing)
                                 (al_expires_at existing))
                 | None \<Rightarrow> Inr (InsertLease, now + duration_seconds ttl)))"

definition acquire_write ::
  "(int \<Rightarrow> wiki_id \<Rightarrow> string \<Rightarrow> string) \<Rightarrow> admin_caller \<Rightarrow> wiki_id \<Rightarrow> int \<Rightarrow> lease_plan \<times> int
    \<Rightarrow> lease_table \<Rightarrow> lease_table \<times> (acquire_error + acquire_outcome)" where
  "acquire_write uuid_like caller wid now plan tab =
     (case plan of
        (RenewLease lid, new_expires) \<Rightarrow>
          (map (\<lambda>r. if ls_lease_id r = lid then r\<lparr>ls_expires_at := new_expires\<rparr> else r) tab,
           Inr \<lparr>ao_lease_id = lid, ao_wiki_id = wid, ao_sender_id = ac_sender_id caller,
                ao_consumer_id = ac_consumer_id caller, ao_acquired_at = now,
                ao_expires_at = new_expires, ao_renewed = True\<rparr>)
      | (InsertLease, new_expires) \<Rightarrow>
          let lid = ''wal_'' @ uuid_like now wid (ac_sender_id caller)
          in if lid \<in> set (map ls_lease_id tab) then (tab, Inl AcquireDb)
             else (tab @ [\<lparr>ls_lease_id = lid, ls_wiki_id = wiki_id_str wid, ls_sender_id = ac_sender_id caller,
                           ls_consumer_id = ac_consumer_id caller, ls_acquired_at = now,
                           ls_expires_at = new_expires, ls_released_at = None\<rparr>],
                   Inr \<lparr>ao_lease_id = lid, ao_wiki_id = wid, ao_sender_id = ac_sender_id caller,
                        ao_consumer_id = ac_consumer_id caller, ao_acquired_at = now,
                        ao_expires_at = new_expires, ao_renewed = False\<rparr>))"

definition acquire ::
  "(int \<Rightarrow> wiki_id \<Rightarrow> string \<Rightarrow> string) \<Rightarrow> admin_caller \<Rightarrow> wiki_id \<Rightarrow> int option \<Rightarrow> int
    \<Rightarrow> lease_table \<Rightarrow> lease_table \<times> (acquire_error + acquire_outcome)" where
  "acquire uuid_like caller wid ttl_sec now tab =
     (case acquire_plan tab caller wid ttl_sec now of
        Inl e \<Rightarrow> (tab, Inl e)
      | Inr plan \<Rightarrow> acquire_write uuid_like caller wid now plan tab)"

definition releasable :: "admin_caller \<Rightarrow> string \<Rightarrow> lease_row \<Rightarrow> bool" where
  "releasable caller lid r \<longleftrightarrow> ls_lease_id r = lid \<and> ls_sender_id r = ac_sender_id caller
     \<and> ls_consumer_id r = ac_consumer_id caller \<and> ls_released_at r = None"

definition release ::
  "admin_caller \<Rightarrow> string \<Rightarrow> int \<Rightarrow> lease_table \<Rightarrow> lease_table \<times> (release_error + release_outcome)" where
  "release caller lid now tab =
     (if \<not> is_smart (ac_consumer_class caller) then (tab, Inl ReleaseRequiresSmart)
      else (map (\<lambda>r. if releasable caller lid r then r\<lparr>ls_released_at := Some now\<rparr> else r) tab,
            case List.find (releasable caller lid) tab of
              None \<Rightarrow> Inl (NotHeldByCaller lid)
            | Some r \<Rightarrow>
                Inr \<lparr>ro_lease_id = lid,
                     ro_wiki_id = (case wiki_id_parse (ls_wiki_id r) of Inr w \<Rightarrow> w | Inl _ \<Rightarrow> wiki_root),
                     ro_released_at = now\<rparr>))"

definition EXPIRER_CLEANUP_GRACE_SECS :: int where
  "EXPIRER_CLEANUP_GRACE_SECS = 3600"

definition EXPIRER_RELEASED_RETENTION_SECS :: int where
  "EXPIRER_RELEASED_RETENTION_SECS = 7 * 24 * 3600"

record expirer_report =
  stale_active_marked_released :: nat
  aged_released_rows_deleted :: nat

definition stale_active :: "int \<Rightarrow> lease_row \<Rightarrow> bool" where
  "stale_active cutoff r \<longleftrightarrow> ls_released_at r = None \<and> ls_expires_at r < cutoff"

definition aged_released :: "int \<Rightarrow> lease_row \<Rightarrow> bool" where
  "aged_released cutoff r \<longleftrightarrow> is_some_and (\<lambda>t. t < cutoff) (ls_released_at r)"

definition expire_stale :: "int \<Rightarrow> int \<Rightarrow> int \<Rightarrow> lease_table \<Rightarrow> lease_table \<times> expirer_report" where
  "expire_stale now cleanup_grace_secs retention_secs tab =
     (let stale_cutoff = now - duration_seconds cleanup_grace_secs;
          marked = map (\<lambda>r. if stale_active stale_cutoff r then r\<lparr>ls_released_at := Some now\<rparr> else r) tab;
          retention_cutoff = now - duration_seconds retention_secs
      in (filter (\<lambda>r. \<not> aged_released retention_cutoff r) marked,
          \<lparr>stale_active_marked_released = length (filter (stale_active stale_cutoff) tab),
           aged_released_rows_deleted = length (filter (aged_released retention_cutoff) marked)\<rparr>))"

text \<open>The gate of \<open>wiki_admin::push\<close>: only an upsert that names its wiki is gated, \<open>None\<close> lets it through.\<close>

datatype push_mode = PushCreate | PushUpsert

definition push_lease_gate ::
  "lease_table \<Rightarrow> admin_caller \<Rightarrow> push_mode \<Rightarrow> wiki_id option \<Rightarrow> int \<Rightarrow> acquire_error option" where
  "push_lease_gate tab caller mode target now =
     (case (mode, target) of
        (PushUpsert, Some wid) \<Rightarrow>
          (case active_lease_for tab wid now of
             Some l \<Rightarrow> if held_by l caller then None
                       else Some (WikiLockedByLease wid (al_consumer_id l) (al_sender_id l) (al_expires_at l))
           | None \<Rightarrow> None)
      | _ \<Rightarrow> None)"

section \<open>Runs of lease operations\<close>

datatype lease_op =
    LeaseAcquire admin_caller wiki_id "int option"
  | LeaseRelease admin_caller string
  | LeaseExpire int int

fun run_lease_op :: "(int \<Rightarrow> wiki_id \<Rightarrow> string \<Rightarrow> string) \<Rightarrow> int \<Rightarrow> lease_op \<Rightarrow> lease_table \<Rightarrow> lease_table" where
  "run_lease_op u now (LeaseAcquire caller wid ttl) tab = fst (acquire u caller wid ttl now tab)"
| "run_lease_op u now (LeaseRelease caller lid) tab = fst (release caller lid now tab)"
| "run_lease_op u now (LeaseExpire grace retention) tab = fst (expire_stale now grace retention tab)"

text \<open>The state is the clock of the last operation and the table; the clock never runs backwards.\<close>

inductive lease_step ::
  "(int \<Rightarrow> wiki_id \<Rightarrow> string \<Rightarrow> string) \<Rightarrow> int \<times> lease_table \<Rightarrow> int \<times> lease_table \<Rightarrow> bool" for u where
  lease_step_op: "c \<le> now \<Longrightarrow> lease_step u (c, tab) (now, run_lease_op u now op tab)"

definition lease_ok :: "int \<times> lease_table \<Rightarrow> bool" where
  "lease_ok s \<longleftrightarrow> distinct (map ls_lease_id (snd s))
     \<and> (\<forall>wid. \<forall>r \<in> set (snd s). \<forall>r' \<in> set (snd s).
          lease_is_active wid (fst s) r \<longrightarrow> lease_is_active wid (fst s) r' \<longrightarrow> r = r')
     \<and> (\<forall>r \<in> set (snd s). ls_expires_at r \<le> fst s + duration_seconds MAX_TTL_SECS)"

lemma lease_is_active_mono: "lease_is_active wid now r \<Longrightarrow> c \<le> now \<Longrightarrow> lease_is_active wid c r"
  by (simp add: lease_is_active_def)

lemma latest_acquired_None [simp]: "latest_acquired rs = None \<longleftrightarrow> rs = []"
  by (cases rs) (auto split: option.splits)

lemma latest_acquired_in: "latest_acquired rs = Some r \<Longrightarrow> r \<in> set rs"
  by (induction rs arbitrary: r) (auto split: option.splits if_splits)

lemma distinct_set_singleton: "distinct xs \<Longrightarrow> set xs = {x} \<Longrightarrow> xs = [x]"
  by (cases xs; cases "tl xs") auto

lemma active_lease_for_None:
  "active_lease_for tab wid now = None \<longleftrightarrow> (\<forall>r \<in> set tab. \<not> lease_is_active wid now r)"
  by (simp add: active_lease_for_def filter_empty_conv)

lemma active_lease_for_Some:
  assumes "active_lease_for tab wid now = Some l"
  obtains r where "r \<in> set tab" "lease_is_active wid now r" "l = active_lease_of_row r"
  using assms latest_acquired_in unfolding active_lease_for_def by fastforce

lemma lease_ok_later:
  assumes "lease_ok (c, tab)" "c \<le> now"
  shows "lease_ok (now, tab)"
proof -
  have "ls_expires_at r \<le> now + duration_seconds MAX_TTL_SECS" if "r \<in> set tab" for r
    using assms that unfolding lease_ok_def by force
  then show ?thesis
    using assms unfolding lease_ok_def fst_conv snd_conv by (meson lease_is_active_mono)
qed

text \<open>An update that keeps ids, activates nothing and respects the cap keeps the invariant.\<close>

lemma lease_ok_map:
  assumes ok: "lease_ok (now, tab)"
    and ids: "\<And>q. ls_lease_id (f q) = ls_lease_id q"
    and was: "\<And>w q. q \<in> set tab \<Longrightarrow> lease_is_active w now (f q) \<Longrightarrow> lease_is_active w now q"
    and cap: "\<And>q. q \<in> set tab \<Longrightarrow> ls_expires_at (f q) \<le> now + duration_seconds MAX_TTL_SECS"
  shows "lease_ok (now, map f tab)"
proof -
  have "f q = f q'" if "q \<in> set tab" "q' \<in> set tab" "lease_is_active w now (f q)" "lease_is_active w now (f q')" for w q q'
    using ok that was [of q w] was [of q' w] unfolding lease_ok_def fst_conv snd_conv by metis
  then show ?thesis
    using ok cap by (simp add: lease_ok_def comp_def ids)
qed

lemma lease_ok_release:
  assumes "lease_ok (now, tab)"
  shows "lease_ok (now, map (\<lambda>r. if P r then r\<lparr>ls_released_at := Some t\<rparr> else r) tab)"
  using assms by (intro lease_ok_map) (auto simp: lease_is_active_def lease_ok_def split: if_splits)

lemma lease_ok_filter: "lease_ok (now, tab) \<Longrightarrow> lease_ok (now, filter P tab)"
  by (auto simp: lease_ok_def distinct_map_filter)

lemma acquire_cases:
  obtains (refused) e where "acquire u caller wid ttl now tab = (tab, Inl e)"
  | (renewed) r exp out where "r \<in> set tab" "lease_is_active wid now r"
      "ls_sender_id r = ac_sender_id caller" "ls_consumer_id r = ac_consumer_id caller"
      "now < exp" "exp \<le> now + duration_seconds MAX_TTL_SECS"
      "acquire u caller wid ttl now tab =
         (map (\<lambda>q. if ls_lease_id q = ls_lease_id r then q\<lparr>ls_expires_at := exp\<rparr> else q) tab, Inr out)"
  | (inserted) r out where "\<forall>q \<in> set tab. \<not> lease_is_active wid now q"
      "ls_lease_id r \<notin> set (map ls_lease_id tab)" "ls_wiki_id r = wiki_id_str wid"
      "ls_sender_id r = ac_sender_id caller" "ls_consumer_id r = ac_consumer_id caller"
      "now < ls_expires_at r" "ls_expires_at r \<le> now + duration_seconds MAX_TTL_SECS"
      "ls_released_at r = None"
      "acquire u caller wid ttl now tab = (tab @ [r], Inr out)"
proof (cases "acquire_plan tab caller wid ttl now")
  case (Inl e)
  then show ?thesis
    by (intro refused) (simp add: acquire_def)
next
  case (Inr p)
  then obtain plan exp where p: "acquire_plan tab caller wid ttl now = Inr (plan, exp)"
    by (cases p) auto
  then have bounds: "now < exp" "exp \<le> now + duration_seconds MAX_TTL_SECS"
    by (auto simp: acquire_plan_def duration_seconds_def Let_def split: if_splits option.splits)
  show ?thesis
  proof (cases plan)
    case (RenewLease lid)
    then obtain l where l: "active_lease_for tab wid now = Some l" "held_by l caller" "al_lease_id l = lid"
      using p by (auto simp: acquire_plan_def Let_def split: if_splits option.splits)
    obtain r where "r \<in> set tab" "lease_is_active wid now r" "l = active_lease_of_row r"
      using l(1) by (rule active_lease_for_Some)
    then show ?thesis
      using l p RenewLease bounds
      by (intro renewed) (auto simp: acquire_def acquire_write_def held_by_def active_lease_of_row_def)
  next
    case InsertLease
    then have "active_lease_for tab wid now = None"
      using p by (auto simp: acquire_plan_def Let_def split: if_splits option.splits)
    then have free: "\<forall>q \<in> set tab. \<not> lease_is_active wid now q"
      by (simp add: active_lease_for_None)
    show ?thesis
    proof (cases "''wal_'' @ u now wid (ac_sender_id caller) \<in> set (map ls_lease_id tab)")
      case True
      then show ?thesis
        using p InsertLease by (intro refused) (simp add: acquire_def acquire_write_def)
    next
      case False
      let ?r = "\<lparr>ls_lease_id = ''wal_'' @ u now wid (ac_sender_id caller), ls_wiki_id = wiki_id_str wid,
        ls_sender_id = ac_sender_id caller, ls_consumer_id = ac_consumer_id caller, ls_acquired_at = now,
        ls_expires_at = exp, ls_released_at = None\<rparr>"
      obtain out where "acquire u caller wid ttl now tab = (tab @ [?r], Inr out)"
        using False p InsertLease by (simp add: acquire_def acquire_write_def Let_def)
      then show ?thesis
        using False bounds free by (intro inserted [of ?r out]) auto
    qed
  qed
qed

lemma lease_ok_acquire:
  assumes "lease_ok (now, tab)"
  shows "lease_ok (now, fst (acquire u caller wid ttl now tab))"
proof (cases rule: acquire_cases [of u caller wid ttl now tab])
  case (refused e)
  then show ?thesis
    using assms by simp
next
  case (renewed r exp out)
  let ?f = "\<lambda>q. if ls_lease_id q = ls_lease_id r then q\<lparr>ls_expires_at := exp\<rparr> else q"
  have only: "q = r" if "q \<in> set tab" "ls_lease_id q = ls_lease_id r" for q
    using assms that renewed(1) by (auto simp: lease_ok_def distinct_map inj_on_def)
  have "lease_ok (now, map ?f tab)"
    using assms renewed(2,6) only
    by (intro lease_ok_map) (auto simp: lease_is_active_def lease_ok_def split: if_splits)
  then show ?thesis
    using renewed(7) by simp
next
  case (inserted r out)
  have "\<not> (lease_is_active w now r \<and> lease_is_active w now q)" if "q \<in> set tab" for w q
    using inserted(1,3) that by (auto simp: lease_is_active_def)
  then show ?thesis
    using assms inserted by (auto simp: lease_ok_def)
qed

lemma run_lease_op_ok:
  assumes "lease_ok (c, tab)" "c \<le> now"
  shows "lease_ok (now, run_lease_op u now op tab)"
proof (cases op)
  case (LeaseExpire grace retention)
  then show ?thesis
    using lease_ok_later [OF assms] by (auto simp: expire_stale_def Let_def intro!: lease_ok_filter lease_ok_release)
next
  case (LeaseRelease caller lid)
  then show ?thesis
    using lease_ok_later [OF assms] by (auto simp: release_def intro!: lease_ok_release)
qed (use lease_ok_later [OF assms] in \<open>simp add: lease_ok_acquire\<close>)

interpretation lease_run: stepping "lease_step u" lease_ok
  for u
  by unfold_locales (auto simp: lease_step.simps run_lease_op_ok)

lemma reachable_lease_ok: "rtranclp (lease_step u) (c0, []) (c, tab) \<Longrightarrow> lease_ok (c, tab)"
  by (erule lease_run.reachable_keeps) (simp add: lease_ok_def)

section \<open>What a lease guarantees\<close>

text \<open>
  C12: a lease excludes. In every state the lease operations can reach from an empty table, run one
  after the other, a wiki has at most one active lease at any later instant; while it has one, a push
  by anybody but the holder is refused and reported with that holder.
\<close>

theorem lease_mutual_exclusion:
  assumes "rtranclp (lease_step u) (c0, []) (c, tab)" "c \<le> now"
    and "r \<in> set tab" "lease_is_active wid now r"
  shows "filter (lease_is_active wid now) tab = [r]
    \<and> push_lease_gate tab caller PushUpsert (Some wid) now =
           (if ls_sender_id r = ac_sender_id caller \<and> ls_consumer_id r = ac_consumer_id caller then None
            else Some (WikiLockedByLease wid (ls_consumer_id r) (ls_sender_id r) (ls_expires_at r)))"
proof -
  have ok: "lease_ok (now, tab)"
    using lease_ok_later [OF reachable_lease_ok [OF assms(1)] assms(2)] .
  then have "set (filter (lease_is_active wid now) tab) = {r}"
    using assms(3,4) by (auto simp: lease_ok_def)
  moreover have "distinct (filter (lease_is_active wid now) tab)"
    using ok by (auto simp: lease_ok_def distinct_map)
  ultimately have "filter (lease_is_active wid now) tab = [r]"
    by (auto simp: distinct_set_singleton)
  then show ?thesis
    by (simp add: push_lease_gate_def active_lease_for_def held_by_def active_lease_of_row_def)
qed

text \<open>
  a crashed holder cannot lock a wiki for longer than the cap. Whatever leases were taken and
  renewed, \<open>MAX_TTL_SECS\<close> after the last operation no lease on any wiki is active any more, without any
  sweep: a smart caller that asks for a lease with a TTL in range gets a new one.
\<close>

lemma lease_frees_itself:
  assumes "rtranclp (lease_step u) (c0, []) (c, tab)" "c + duration_seconds MAX_TTL_SECS \<le> now"
    and "is_smart (ac_consumer_class caller)" "1 \<le> ttl" "ttl \<le> MAX_TTL_SECS"
    and "''wal_'' @ u now wid (ac_sender_id caller) \<notin> set (map ls_lease_id tab)"
  shows "\<exists>out. snd (acquire u caller wid (Some ttl) now tab) = Inr out \<and> \<not> ao_renewed out
           \<and> ao_expires_at out = now + duration_seconds ttl
           \<and> active_lease_for (fst (acquire u caller wid (Some ttl) now tab)) wid now =
               Some \<lparr>al_lease_id = ao_lease_id out, al_sender_id = ac_sender_id caller,
                     al_consumer_id = ac_consumer_id caller, al_expires_at = ao_expires_at out\<rparr>"
proof -
  have "\<not> lease_is_active wid now r" if "r \<in> set tab" for r
    using reachable_lease_ok [OF assms(1)] assms(2) that by (force simp: lease_ok_def lease_is_active_def)
  then have free: "filter (lease_is_active wid now) tab = []"
    by (simp add: filter_empty_conv)
  then have "acquire_plan tab caller wid (Some ttl) now = Inr (InsertLease, now + duration_seconds ttl)"
    using assms(3-5) by (simp add: acquire_plan_def active_lease_for_def)
  then show ?thesis
    using assms(4,6) free
    by (simp add: acquire_def acquire_write_def Let_def active_lease_for_def lease_is_active_def
        active_lease_of_row_def duration_seconds_def)
qed

definition op_by :: "lease_op \<Rightarrow> lease_row \<Rightarrow> bool" where
  "op_by op r = (case op of
       LeaseAcquire caller _ _ \<Rightarrow> ls_sender_id r = ac_sender_id caller \<and> ls_consumer_id r = ac_consumer_id caller
     | LeaseRelease caller _ \<Rightarrow> ls_sender_id r = ac_sender_id caller \<and> ls_consumer_id r = ac_consumer_id caller
     | LeaseExpire grace _ \<Rightarrow> grace < 0)"

text \<open>
  Nobody pre-empts a lease. An active lease survives, unchanged, every acquire, renewal and
  release by another sender or another device, and every sweep of the expirer.
\<close>

lemma lease_not_preempted:
  assumes "rtranclp (lease_step u) (c0, []) (c, tab)" "c \<le> now"
    and "r \<in> set tab" "lease_is_active wid now r" "\<not> op_by op r"
  shows "r \<in> set (run_lease_op u now op tab)"
proof (cases op)
  case (LeaseAcquire caller w ttl)
  have ids: "distinct (map ls_lease_id tab)"
    using reachable_lease_ok [OF assms(1)] by (simp add: lease_ok_def)
  show ?thesis
  proof (cases rule: acquire_cases [of u caller w ttl now tab])
    case (renewed q e out)
    then have "ls_lease_id r \<noteq> ls_lease_id q"
      using ids assms(3,5) LeaseAcquire by (auto simp: distinct_map inj_on_def op_by_def)
    then show ?thesis
      using renewed(7) assms(3) LeaseAcquire by force
  qed (use assms(3) LeaseAcquire in auto)
next
  case (LeaseRelease caller lid)
  then show ?thesis
    using assms(3,5) by (force simp: release_def releasable_def op_by_def)
next
  case (LeaseExpire grace retention)
  then have "\<not> stale_active (now - duration_seconds grace) r" "ls_released_at r = None"
    using assms(4,5) by (auto simp: stale_active_def lease_is_active_def op_by_def duration_seconds_def)
  then show ?thesis
    using assms(3) LeaseExpire by (force simp: expire_stale_def Let_def aged_released_def)
qed

text \<open>
  The exclusion rests on acquisitions being run one after the other. The read and the write of an
  acquire are separate statements: when two consumers both read a free wiki before either writes,
  both get a fresh lease, and both leases are active.
\<close>

lemma interleaved_acquires_both_win:
  assumes "active_lease_for tab wid now = None"
    and "is_smart (ac_consumer_class a)" "is_smart (ac_consumer_class b)"
    and "''wal_'' @ u now wid (ac_sender_id a) \<notin> set (map ls_lease_id tab)"
    and "''wal_'' @ u now' wid (ac_sender_id b) \<notin> set (map ls_lease_id tab)"
    and "u now wid (ac_sender_id a) \<noteq> u now' wid (ac_sender_id b)" "now \<le> now'"
    and "now' < now + duration_seconds DEFAULT_TTL_SECS"
  shows "\<exists>pa pb ra rb. acquire_plan tab a wid None now = Inr pa \<and> acquire_plan tab b wid None now' = Inr pb
           \<and> filter (lease_is_active wid now')
               (fst (acquire_write u b wid now' pb (fst (acquire_write u a wid now pa tab)))) = [ra, rb]
           \<and> ls_sender_id ra = ac_sender_id a \<and> ls_consumer_id ra = ac_consumer_id a
           \<and> ls_sender_id rb = ac_sender_id b \<and> ls_consumer_id rb = ac_consumer_id b"
proof -
  have free: "\<forall>r \<in> set tab. \<not> lease_is_active wid now r"
    using assms(1) by (simp add: active_lease_for_None)
  then have free': "\<forall>r \<in> set tab. \<not> lease_is_active wid now' r"
    using assms(7) lease_is_active_mono by blast
  have "acquire_plan tab a wid None now = Inr (InsertLease, now + duration_seconds DEFAULT_TTL_SECS)"
    using assms(1,2) by (simp add: acquire_plan_def DEFAULT_TTL_SECS_def MAX_TTL_SECS_def)
  moreover have "acquire_plan tab b wid None now' = Inr (InsertLease, now' + duration_seconds DEFAULT_TTL_SECS)"
    using free' assms(3) by (simp add: acquire_plan_def DEFAULT_TTL_SECS_def MAX_TTL_SECS_def active_lease_for_None [THEN iffD2])
  moreover have "filter (lease_is_active wid now') tab = []"
    using free' by (simp add: filter_empty_conv)
  ultimately show ?thesis
    using assms(4-8)
    by (simp add: acquire_write_def Let_def lease_is_active_def duration_seconds_def DEFAULT_TTL_SECS_def)
qed

section \<open>A concrete run\<close>

definition laptop :: admin_caller where
  "laptop = \<lparr>ac_sender_id = ''alice'', ac_consumer_id = Some ''laptop'', ac_consumer_class = Smart\<rparr>"

definition desktop :: admin_caller where
  "desktop = \<lparr>ac_sender_id = ''alice'', ac_consumer_id = Some ''desktop'', ac_consumer_class = Smart\<rparr>"

text \<open>A digest that tells the first two instants apart from the later ones.\<close>

definition tally_id :: "int \<Rightarrow> wiki_id \<Rightarrow> string \<Rightarrow> string" where
  "tally_id now wid sender = (if now < 2 then ''x'' else ''y'')"

definition laptop_lease :: lease_row where
  "laptop_lease = \<lparr>ls_lease_id = ''wal_x'', ls_wiki_id = ''alice-notes'', ls_sender_id = ''alice'',
     ls_consumer_id = Some ''laptop'', ls_acquired_at = 1, ls_expires_at = 60000000001, ls_released_at = None\<rparr>"

lemma laptop_acquires:
  "run_lease_op tally_id 1 (LeaseAcquire laptop (WikiId ''alice-notes'') None) [] = [laptop_lease]"
  by (simp add: acquire_def acquire_plan_def acquire_write_def active_lease_for_def laptop_def is_smart_def
      laptop_lease_def tally_id_def Let_def DEFAULT_TTL_SECS_def MAX_TTL_SECS_def duration_seconds_def)

lemma laptop_lease_reachable: "rtranclp (lease_step tally_id) (0, []) (1, [laptop_lease])"
  using lease_step_op [of 0 1 tally_id "[]" "LeaseAcquire laptop (WikiId ''alice-notes'') None"]
  by (simp only: laptop_acquires) auto

lemmas sample_lease_defs = laptop_lease_def desktop_def lease_is_active_def is_smart_def tally_id_def
  MAX_TTL_SECS_def duration_seconds_def op_by_def EXPIRER_CLEANUP_GRACE_SECS_def

theorem lease_mutual_exclusion_witness:
  "push_lease_gate [laptop_lease] desktop PushUpsert (Some (WikiId ''alice-notes'')) 2 =
     Some (WikiLockedByLease (WikiId ''alice-notes'') (Some ''laptop'') ''alice'' 60000000001)"
  using lease_mutual_exclusion [OF laptop_lease_reachable, of 2 laptop_lease "WikiId ''alice-notes''" desktop]
  by (simp add: sample_lease_defs)

lemma lease_frees_itself_witness:
  "\<exists>out. snd (acquire tally_id desktop (WikiId ''alice-notes'') (Some 30) 300000000001 [laptop_lease]) = Inr out
     \<and> \<not> ao_renewed out"
  using lease_frees_itself [OF laptop_lease_reachable, of 300000000001 desktop 30 "WikiId ''alice-notes''"]
  by (auto simp: sample_lease_defs)

lemma lease_not_preempted_witness:
  "laptop_lease \<in> set (run_lease_op tally_id 2 (LeaseExpire EXPIRER_CLEANUP_GRACE_SECS EXPIRER_RELEASED_RETENTION_SECS) [laptop_lease])
   \<and> laptop_lease \<in> set (run_lease_op tally_id 2 (LeaseRelease desktop ''wal_x'') [laptop_lease])"
proof -
  have "lease_is_active (WikiId ''alice-notes'') 2 laptop_lease"
    "\<not> op_by (LeaseExpire EXPIRER_CLEANUP_GRACE_SECS EXPIRER_RELEASED_RETENTION_SECS) laptop_lease"
    "\<not> op_by (LeaseRelease desktop ''wal_x'') laptop_lease"
    by (simp_all add: sample_lease_defs)
  then show ?thesis
    using lease_not_preempted [OF laptop_lease_reachable, of 2 laptop_lease "WikiId ''alice-notes''"] by (simp del: run_lease_op.simps)
qed

end
