(* ===== verification/Mwe_LeaseLock.thy ===== *)
theory Mwe_LeaseLock
  imports Mwe_Leases
begin

text \<open>
  The specification the lease table implements: one lock per wiki with a holder and an expiry. A step
  carries the party that acts (nobody, for the nightly sweep). A party is granted a lock only for itself, when
  the lock is free or already its own, for at most \<open>MAX_TTL_SECS\<close>; only the holder, acting, gives it back
  early; otherwise it ends with its expiry. The rows, their ids, the audit trail and the sweep are invisible in it.
\<close>

type_synonym lease_holder = "string \<times> string option"
type_synonym lease_locks = "wiki_id \<rightharpoonup> lease_holder \<times> int"

definition unexpired :: "int \<Rightarrow> lease_locks \<Rightarrow> lease_locks" where
  "unexpired now L = (\<lambda>w. case L w of None \<Rightarrow> None | Some (h, e) \<Rightarrow> if now < e then Some (h, e) else None)"

inductive lock_step :: "lease_holder option \<Rightarrow> int \<times> lease_locks \<Rightarrow> int \<times> lease_locks \<Rightarrow> bool" where
  lock_keep: "c \<le> now \<Longrightarrow> lock_step actor (c, L) (now, unexpired now L)"
| lock_grant: "c \<le> now \<Longrightarrow> unexpired now L wid = None \<or> (\<exists>e0. unexpired now L wid = Some (h, e0)) \<Longrightarrow>
    now < e \<Longrightarrow> e \<le> now + duration_seconds MAX_TTL_SECS \<Longrightarrow>
    lock_step (Some h) (c, L) (now, (unexpired now L)(wid \<mapsto> (h, e)))"
| lock_free: "c \<le> now \<Longrightarrow> unexpired now L wid = Some (h, e) \<Longrightarrow>
    lock_step (Some h) (c, L) (now, (unexpired now L)(wid := None))"

text \<open>Runs that write down who acted, step by step.\<close>

definition logged :: "('a \<Rightarrow> 's \<Rightarrow> 's \<Rightarrow> bool) \<Rightarrow> 'a list \<times> 's \<Rightarrow> 'a list \<times> 's \<Rightarrow> bool" where
  "logged R x y \<longleftrightarrow> (\<exists>a. fst y = fst x @ [a] \<and> R a (snd x) (snd y))"

definition caller_holder :: "admin_caller \<Rightarrow> lease_holder" where
  "caller_holder caller = (ac_sender_id caller, ac_consumer_id caller)"

fun op_actor :: "lease_op \<Rightarrow> lease_holder option" where
  "op_actor (LeaseAcquire caller _ _) = Some (caller_holder caller)"
| "op_actor (LeaseRelease caller _) = Some (caller_holder caller)"
| "op_actor (LeaseExpire _ _) = None"

definition row_holder :: "lease_row \<Rightarrow> lease_holder" where
  "row_holder r = (ls_sender_id r, ls_consumer_id r)"

definition locks_of :: "int \<Rightarrow> lease_table \<Rightarrow> lease_locks" where
  "locks_of now tab = (\<lambda>wid. map_option (\<lambda>r. (row_holder r, ls_expires_at r)) (List.find (lease_is_active wid now) tab))"

definition lock_abs :: "int \<times> lease_table \<Rightarrow> int \<times> lease_locks" where
  "lock_abs s = (fst s, locks_of (fst s) (snd s))"

lemma locks_of_Some:
  assumes "lease_ok (now, tab)"
  shows "locks_of now tab wid = Some v \<longleftrightarrow>
    (\<exists>r \<in> set tab. lease_is_active wid now r \<and> v = (row_holder r, ls_expires_at r))"
proof (cases "List.find (lease_is_active wid now) tab")
  case None
  then have "locks_of now tab wid = None" "\<forall>r \<in> set tab. \<not> lease_is_active wid now r"
    by (auto simp: locks_of_def find_None_iff)
  then show ?thesis by simp
next
  case (Some q)
  then have "q \<in> set tab" "lease_is_active wid now q"
    by (auto simp: find_Some_iff)
  then show ?thesis
    using Some assms by (auto simp: locks_of_def lease_ok_def)
qed

lemma locks_eqI: "(\<And>w v. L w = Some v \<longleftrightarrow> L' w = Some v) \<Longrightarrow> L = (L' :: lease_locks)"
  by (rule ext) (metis not_None_eq)

lemma locks_of_later:
  assumes "lease_ok (c, tab)" "c \<le> now"
  shows "unexpired now (locks_of c tab) = locks_of now tab"
proof (rule locks_eqI)
  fix w v
  have "unexpired now (locks_of c tab) w = Some v \<longleftrightarrow> locks_of c tab w = Some v \<and> now < snd v"
    by (auto simp: unexpired_def split: option.splits)
  then show "unexpired now (locks_of c tab) w = Some v \<longleftrightarrow> locks_of now tab w = Some v"
    using assms(2) by (auto simp: locks_of_Some [OF assms(1)] locks_of_Some [OF lease_ok_later [OF assms]] lease_is_active_def)
qed

lemma wiki_id_str_inj: "wiki_id_str a = wiki_id_str b \<longleftrightarrow> a = b"
  by (cases a; cases b) simp

lemma unique_lease:
  "lease_ok (now, tab) \<Longrightarrow> r \<in> set tab \<Longrightarrow> q \<in> set tab \<Longrightarrow> ls_lease_id r = ls_lease_id q \<Longrightarrow> r = q"
  by (auto simp: lease_ok_def distinct_map inj_on_def)

text \<open>An update that changes no row but those of one wiki leaves the other locks alone.\<close>

lemma locks_of_update:
  assumes ok: "lease_ok (now, tab)" "lease_ok (now, map f tab)"
    and other: "\<And>q. q \<in> set tab \<Longrightarrow> f q = q \<or> \<not> lease_is_active w now q \<and> \<not> lease_is_active w now (f q)"
  shows "locks_of now (map f tab) w = locks_of now tab w"
proof -
  have "locks_of now (map f tab) w = Some v \<longleftrightarrow> locks_of now tab w = Some v" for v
    unfolding locks_of_Some [OF ok(1)] locks_of_Some [OF ok(2)] using other by (metis (no_types, opaque_lifting) image_eqI imageE set_map)
  then show ?thesis
    by (metis not_None_eq)
qed

lemma acquire_locks:
  assumes ok: "lease_ok (now, tab)"
  shows "lock_step (Some (caller_holder caller)) (now, locks_of now tab) (now, locks_of now (fst (acquire u caller wid ttl now tab)))"
proof (cases rule: acquire_cases [of u caller wid ttl now tab])
  case (refused e)
  then show ?thesis
    using lock_keep [of now now _ "locks_of now tab"] locks_of_later [OF ok] by simp
next
  case (renewed r e out)
  let ?f = "\<lambda>q. if ls_lease_id q = ls_lease_id r then q\<lparr>ls_expires_at := e\<rparr> else q"
  have ok': "lease_ok (now, map ?f tab)"
    using lease_ok_acquire [OF ok, of u caller wid ttl] renewed(7) by simp
  have only: "q = r" if "q \<in> set tab" "ls_lease_id q = ls_lease_id r" for q
    using unique_lease [OF ok that(1) renewed(1) that(2)] .
  have act: "lease_is_active wid now (?f r)" "row_holder (?f r) = row_holder r"
    using renewed(2,5) by (simp_all add: lease_is_active_def row_holder_def)
  have "?f r \<in> set (map ?f tab)"
    using renewed(1) by auto
  then have "locks_of now (map ?f tab) wid = Some (row_holder r, e)"
    using act by (subst locks_of_Some [OF ok']) (intro bexI [of _ "?f r"], auto)
  moreover have "locks_of now (map ?f tab) w = locks_of now tab w" if "w \<noteq> wid" for w
    using that renewed(2) only
    by (intro locks_of_update [OF ok ok']) (fastforce simp: lease_is_active_def wiki_id_str_inj)
  ultimately have "locks_of now (fst (acquire u caller wid ttl now tab)) = (locks_of now tab)(wid \<mapsto> (row_holder r, e))"
    using renewed(7) by auto
  moreover have "locks_of now tab wid = Some (row_holder r, ls_expires_at r)"
    using renewed(1,2) by (auto simp: locks_of_Some [OF ok])
  moreover have "row_holder r = caller_holder caller"
    using renewed(3,4) by (simp add: row_holder_def caller_holder_def)
  ultimately show ?thesis
    using lock_grant [of now now "locks_of now tab" wid "row_holder r" e] renewed(5,6) locks_of_later [OF ok] by simp
next
  case (inserted r out)
  have ok': "lease_ok (now, tab @ [r])"
    using lease_ok_acquire [OF ok, of u caller wid ttl] inserted(9) by simp
  have act: "lease_is_active w now r \<longleftrightarrow> w = wid" for w
    using inserted(3,6,8) by (auto simp: lease_is_active_def wiki_id_str_inj)
  have "locks_of now (fst (acquire u caller wid ttl now tab)) = (locks_of now tab)(wid \<mapsto> (row_holder r, ls_expires_at r))"
    using inserted(1,9)
    by (intro locks_eqI) (auto simp: locks_of_Some [OF ok'] locks_of_Some [OF ok] act)
  moreover have "locks_of now tab wid = None"
    using inserted(1) locks_of_Some [OF ok, of wid] by (cases "locks_of now tab wid") auto
  moreover have "row_holder r = caller_holder caller"
    using inserted(4,5) by (simp add: row_holder_def caller_holder_def)
  ultimately show ?thesis
    using lock_grant [of now now "locks_of now tab" wid "row_holder r" "ls_expires_at r"] inserted(6,7)
      locks_of_later [OF ok] by simp
qed

lemma release_locks:
  assumes ok: "lease_ok (now, tab)"
  shows "lock_step (Some (caller_holder caller)) (now, locks_of now tab) (now, locks_of now (fst (release caller lid now tab)))"
proof (cases "is_smart (ac_consumer_class caller) \<and> (\<exists>r \<in> set tab. \<exists>w. releasable caller lid r \<and> lease_is_active w now r)")
  case False
  let ?f = "\<lambda>r. if releasable caller lid r then r\<lparr>ls_released_at := Some now\<rparr> else r"
  have "locks_of now (map ?f tab) w = locks_of now tab w" if "is_smart (ac_consumer_class caller)" for w
    using False that by (intro locks_of_update [OF ok lease_ok_release [OF ok]]) (auto simp: lease_is_active_def)
  then have "locks_of now (fst (release caller lid now tab)) = locks_of now tab"
    by (auto simp: release_def)
  then show ?thesis
    using lock_keep [of now now _ "locks_of now tab"] locks_of_later [OF ok] by simp
next
  case True
  then obtain r w where r: "r \<in> set tab" "releasable caller lid r" "lease_is_active w now r"
    and smart: "is_smart (ac_consumer_class caller)" by blast
  let ?f = "\<lambda>r. if releasable caller lid r then r\<lparr>ls_released_at := Some now\<rparr> else r"
  have only: "q = r" if "q \<in> set tab" "releasable caller lid q" for q
    using unique_lease [OF ok that(1) r(1)] that(2) r(2) by (simp add: releasable_def)
  have ok': "lease_ok (now, map ?f tab)"
    by (rule lease_ok_release [OF ok])
  have "\<not> lease_is_active w now (?f q)" if "q \<in> set tab" for q
  proof (cases "q = r")
    case True
    then show ?thesis
      using r(2) by (simp add: lease_is_active_def)
  next
    case False
    then have "\<not> releasable caller lid q" "\<not> lease_is_active w now q"
      using only that r(1,3) ok unfolding lease_ok_def fst_conv snd_conv by blast+
    then show ?thesis by simp
  qed
  then have "\<forall>x \<in> set (map ?f tab). \<not> lease_is_active w now x"
    by (simp only: set_map ball_simps) blast
  then have "locks_of now (map ?f tab) w = None"
    by (simp only: locks_of_def option.map_disc_iff find_None_iff) blast
  moreover have "locks_of now (map ?f tab) w' = locks_of now tab w'" if "w' \<noteq> w" for w'
  proof (rule locks_of_update [OF ok ok'])
    fix q assume q: "q \<in> set tab"
    have "\<not> lease_is_active w' now r"
      using that r(3) by (auto simp: lease_is_active_def wiki_id_str_inj)
    then show "?f q = q \<or> \<not> lease_is_active w' now q \<and> \<not> lease_is_active w' now (?f q)"
      using only [OF q] by (cases "releasable caller lid q") (simp_all add: lease_is_active_def)
  qed
  ultimately have "locks_of now (fst (release caller lid now tab)) = (locks_of now tab)(w := None)"
    using smart by (auto simp: release_def)
  moreover have "locks_of now tab w = Some (row_holder r, ls_expires_at r)"
    using r by (auto simp: locks_of_Some [OF ok])
  moreover have "row_holder r = caller_holder caller"
    using r(2) by (simp add: releasable_def row_holder_def caller_holder_def)
  ultimately show ?thesis
    using lock_free [of now now "locks_of now tab" w] locks_of_later [OF ok] by simp
qed

lemma expire_locks:
  assumes ok: "lease_ok (now, tab)" and grace: "0 \<le> grace"
  shows "locks_of now (fst (expire_stale now grace retention tab)) = locks_of now tab"
proof -
  let ?f = "\<lambda>r. if stale_active (now - duration_seconds grace) r then r\<lparr>ls_released_at := Some now\<rparr> else r"
    and ?P = "\<lambda>r. \<not> aged_released (now - duration_seconds retention) r"
  have ok': "lease_ok (now, map ?f tab)"
    by (rule lease_ok_release [OF ok])
  have "locks_of now (filter ?P (map ?f tab)) w = Some v \<longleftrightarrow> locks_of now (map ?f tab) w = Some v" for w v
    unfolding locks_of_Some [OF ok'] locks_of_Some [OF lease_ok_filter [OF ok']]
    by (auto simp: lease_is_active_def aged_released_def)
  then have "locks_of now (filter ?P (map ?f tab)) = locks_of now (map ?f tab)"
    by (rule locks_eqI)
  moreover have "locks_of now (map ?f tab) w = locks_of now tab w" for w
    using grace by (intro locks_of_update [OF ok ok'])
      (auto simp: lease_is_active_def stale_active_def duration_seconds_def)
  ultimately show ?thesis
    by (auto simp: expire_stale_def Let_def)
qed

fun lease_op_sane :: "lease_op \<Rightarrow> bool" where
  "lease_op_sane (LeaseExpire grace _) \<longleftrightarrow> 0 \<le> grace"
| "lease_op_sane _ \<longleftrightarrow> True"

definition sane_lease_step ::
  "(int \<Rightarrow> wiki_id \<Rightarrow> string \<Rightarrow> string) \<Rightarrow> lease_holder option \<Rightarrow> int \<times> lease_table \<Rightarrow> int \<times> lease_table \<Rightarrow> bool" where
  "sane_lease_step u actor s s' \<longleftrightarrow>
     (\<exists>now op. fst s \<le> now \<and> lease_op_sane op \<and> op_actor op = actor \<and> s' = (now, run_lease_op u now op (snd s)))"

lemma unexpired_unexpired: "c \<le> now \<Longrightarrow> unexpired now (unexpired c L) = unexpired now L"
  by (auto simp: unexpired_def split: option.splits)

lemma lock_step_earlier:
  assumes "lock_step actor (now, unexpired now L) (now, L')" "c \<le> now"
  shows "lock_step actor (c, L) (now, L')"
  using assms
proof (cases rule: lock_step.cases)
  case lock_keep
  then show ?thesis
    using assms(2) lock_step.lock_keep by (simp add: unexpired_unexpired)
next
  case (lock_grant wid h e)
  then show ?thesis
    using assms(2) lock_step.lock_grant [of c now L wid h e] by (simp add: unexpired_unexpired)
next
  case (lock_free wid h e)
  then show ?thesis
    using assms(2) lock_step.lock_free [of c now L wid h e] by (simp add: unexpired_unexpired)
qed

lemma sane_lease_step_locks:
  assumes "lease_ok s" "sane_lease_step u actor s s'"
  shows "lock_step actor (lock_abs s) (lock_abs s')"
proof -
  obtain c tab now op where s: "s = (c, tab)" "c \<le> now" "lease_op_sane op" "s' = (now, run_lease_op u now op tab)"
      and actor: "actor = op_actor op"
    using assms(2) by (cases s) (auto simp: sane_lease_step_def)
  have ok: "lease_ok (c, tab)" "lease_ok (now, tab)"
    using assms(1) s(1) lease_ok_later [OF _ s(2)] by auto
  have "lock_step actor (now, locks_of now tab) (now, locks_of now (run_lease_op u now op tab))"
  proof (cases op)
    case (LeaseExpire grace retention)
    then show ?thesis
      using s(3) expire_locks [OF ok(2)] lock_step.lock_keep [of now now _ "locks_of now tab"] locks_of_later [OF ok(2)] by simp
  qed (simp_all add: actor acquire_locks [OF ok(2)] release_locks [OF ok(2)])
  then show ?thesis
    using s lock_step_earlier [of actor now "locks_of c tab" _ c] locks_of_later [OF ok(1) s(2)] by (simp add: lock_abs_def)
qed

interpretation lease_lock: simulation "logged (sane_lease_step u)" "\<lambda>x. lease_ok (snd x)" "logged lock_step" "map_prod id lock_abs"
  for u
proof unfold_locales
  fix x y :: "lease_holder option list \<times> int \<times> lease_table"
  assume ok: "lease_ok (snd x)" and "logged (sane_lease_step u) x y"
  then obtain a where a: "fst y = fst x @ [a]" "sane_lease_step u a (snd x) (snd y)" by (auto simp: logged_def)
  from a(2) ok show "lease_ok (snd y)"
    using run_lease_op_ok by (cases "snd x") (auto simp: sane_lease_step_def)
  from a sane_lease_step_locks [OF ok a(2)] show "logged lock_step (map_prod id lock_abs x) (map_prod id lock_abs y)"
    by (auto simp: logged_def)
qed

text \<open>
  C34: calls run one after the other, the lease table implements one lock per wiki. Seen through the lock
  abstraction, every run of acquires, renewals, releases and nightly sweeps (with a grace that is not negative)
  is a run of the specification with the same parties acting at the same steps: a lock is only ever granted to
  the party that acts, when it is free or its own, for at most the cap, and it is taken away only by its holder
  acting or by its expiry. Each acquire is one step here; two that both read a free wiki before either writes
  both win (\<open>interleaved_acquires_both_win\<close>).
\<close>

theorem leases_refine_locks:
  assumes "rtranclp (logged (sane_lease_step u)) ([], c0, []) (log, c, tab)"
  shows "rtranclp (logged lock_step) ([], c0, Map.empty) (log, c, locks_of c tab)"
proof -
  have "lease_ok (snd ([], c0, []))"
    by (simp add: lease_ok_def)
  from lease_lock.reachable_simulates [OF assms this] show ?thesis
    by (simp add: lock_abs_def locks_of_def)
qed

theorem leases_refine_locks_witness:
  "rtranclp (logged lock_step) ([], 0, Map.empty) ([Some (''alice'', Some ''laptop'')], 1, locks_of 1 [laptop_lease])"
proof (rule leases_refine_locks)
  have "sane_lease_step tally_id (Some (''alice'', Some ''laptop'')) (0, []) (1, [laptop_lease])"
    unfolding sane_lease_step_def using laptop_acquires
    by (intro exI [of _ 1] exI [of _ "LeaseAcquire laptop (WikiId ''alice-notes'') None"]) (simp add: caller_holder_def laptop_def)
  then have "logged (sane_lease_step tally_id) ([], 0, []) ([Some (''alice'', Some ''laptop'')], 1, [laptop_lease])"
    by (auto simp: logged_def)
  then show "rtranclp (logged (sane_lease_step tally_id)) ([], 0, []) ([Some (''alice'', Some ''laptop'')], 1, [laptop_lease])"
    by blast
qed

end
