(* ===== verification/Mwe_Events.thy ===== *)
theory Mwe_Events
  imports Mwe_FactIndex Mwe_Identity Mwe_Json
begin

text \<open>
  The event queue of \<open>crates/mwe-core/src/events.rs\<close> (migration \<open>0002_wiki_events.sql\<close>): addressed notices,
  the rule that decides which consumer may receive one, the drain with its page gate, and the
  acknowledgements. The two tools in front of it (\<open>mcp/tools.rs\<close>) and the retention sweep of
  \<open>housekeeping.rs\<close> close the theory.

  \<open>serde_json\<close> and SQLite's JSON functions read the same text with two parsers; both are parameters
  (\<open>ee_parse\<close>, \<open>ee_sqlite\<close>). A stamp is the text \<open>to_rfc3339\<close> writes (\<open>ee_rfc3339\<close>) and is compared as text.
  A failing database is not modelled.
\<close>

section \<open>Kinds and errors\<close>

datatype event_kind =
    StructureApplied
  | ArchiveProposed
  | DocumentIngested
  | CompileFailureStreak
  | RecallTuningProposed
  | FactMintedForYou
  | ReminderDue
  | BudgetThresholdReached

fun event_kind_as_str :: "event_kind \<Rightarrow> string" where
  "event_kind_as_str StructureApplied = ''structure_applied''"
| "event_kind_as_str ArchiveProposed = ''archive_proposed''"
| "event_kind_as_str DocumentIngested = ''document_ingested''"
| "event_kind_as_str CompileFailureStreak = ''compile_failure_streak''"
| "event_kind_as_str RecallTuningProposed = ''recall_tuning_proposed''"
| "event_kind_as_str FactMintedForYou = ''fact_minted_for_you''"
| "event_kind_as_str ReminderDue = ''reminder_due''"
| "event_kind_as_str BudgetThresholdReached = ''budget_threshold_reached''"

lemma event_kind_as_str_inj: "event_kind_as_str k = event_kind_as_str k' \<Longrightarrow> k = k'"
  by (cases k; cases k') simp_all

datatype events_error = EventsDb | EventsJson | NotAnAddressee string

section \<open>The tables\<close>

text \<open>
  A row of \<open>wiki_events\<close>. The payload is the stored text; \<open>ev_acks\<close> is the JSON value of the column,
  which only \<open>json_set\<close> writes. \<open>ed_agents\<close> is the column \<open>is_agent\<close> of the users. JSON list columns of other tables (members, delegations) are lists.
\<close>

record event_row =
  ev_id :: int
  ev_kind :: string
  ev_wiki_id :: "string option"
  ev_fact_id :: "string option"
  ev_payload :: "string option"
  ev_created_at :: string
  ev_acks :: json

record event_db =
  ed_events :: "event_row list"
  ed_next_id :: int
  ed_consumers :: consumers
  ed_last_seen :: "string \<rightharpoonup> string"
  ed_delegations :: "(string \<times> string list) list"
  ed_users :: "enrollment_user list"
  ed_agents :: "(string \<times> bool) list"
  ed_groups :: "enrollment_group list"
  ed_facts :: fact_table

text \<open>\<open>ee_labels\<close>: the object labels SQLite reads in the path \<open>'$.' || consumer_id\<close>.\<close>

record event_env =
  ee_serialize :: "json \<Rightarrow> string"
  ee_parse :: "string \<Rightarrow> json option"
  ee_sqlite :: "string \<Rightarrow> json option"
  ee_labels :: "string \<Rightarrow> string list"
  ee_rfc3339 :: "int \<Rightarrow> string"

section \<open>Who may receive a row\<close>

text \<open>\<open>json_extract(payload, '$.recipient_id')\<close>: NULL, a text, or a value that is neither.\<close>

datatype recipient = NoRecipient | RecipientText string | RecipientOther

definition json_recipient :: "json \<Rightarrow> recipient" where
  "json_recipient v =
     (case json_get ''recipient_id'' v of
        None \<Rightarrow> NoRecipient
      | Some w \<Rightarrow> (case w of JNull \<Rightarrow> NoRecipient | JStr s \<Rightarrow> RecipientText s | _ \<Rightarrow> RecipientOther))"

definition served_by_consumer :: "event_db \<Rightarrow> string \<Rightarrow> string list" where
  "served_by_consumer db consumer_id =
     concat (map (\<lambda>c. opt_list (cs_system_user_id c))
               (filter (\<lambda>c. cs_consumer_id c = consumer_id) (ed_consumers db))) @
     concat (map snd (filter (\<lambda>d. fst d = consumer_id) (ed_delegations db)))"

definition runs_as_admin :: "event_db \<Rightarrow> string \<Rightarrow> bool" where
  "runs_as_admin db consumer_id \<longleftrightarrow>
     list_ex (\<lambda>c. cs_consumer_id c = consumer_id \<and>
                  list_ex (\<lambda>u. cs_system_user_id c = Some (eu_id u) \<and> eu_is_admin u) (ed_users db))
       (ed_consumers db)"

fun recipient_served :: "event_db \<Rightarrow> bool \<Rightarrow> string \<Rightarrow> string \<Rightarrow> recipient \<Rightarrow> bool" where
  "recipient_served db operator caller_id consumer_id NoRecipient =
     (operator \<or> runs_as_admin db consumer_id)"
| "recipient_served db operator caller_id consumer_id (RecipientText r) =
     (if r = principal_to_string global_principal then True
      else case strip_prefix ''group:'' r of
        Some g \<Rightarrow>
          list_ex (\<lambda>grp. eg_id grp = g \<and>
                         list_ex (\<lambda>m. m = caller_id \<or> m \<in> set (served_by_consumer db consumer_id))
                           (eg_members grp))
            (ed_groups db)
      | None \<Rightarrow>
        (case strip_prefix ''user:'' r of
           Some u \<Rightarrow> u = caller_id \<or> u \<in> set (served_by_consumer db consumer_id)
         | None \<Rightarrow> False))"
| "recipient_served db operator caller_id consumer_id RecipientOther = False"

definition canonical_addressee :: "string \<Rightarrow> principal option" where
  "canonical_addressee recipient_id =
     (case principal_from_str recipient_id of
        Inl _ \<Rightarrow> None
      | Inr p \<Rightarrow> (if principal_to_string p = recipient_id then Some p else None))"

definition is_global_group :: "string \<Rightarrow> bool" where
  "is_global_group g \<longleftrightarrow> g = ''global''"

text \<open>The consumers configured for an addressee; the \<open>UNION\<close> drops duplicates.\<close>

definition consumers_serving :: "event_db \<Rightarrow> string \<Rightarrow> string list" where
  "consumers_serving db recipient_id =
     (case canonical_addressee recipient_id of
        None \<Rightarrow> []
      | Some (Group g) \<Rightarrow>
          (if is_global_group g then map cs_consumer_id (ed_consumers db)
           else remdups
             (map cs_consumer_id
                (filter (\<lambda>c. list_ex (\<lambda>grp. eg_id grp = g \<and>
                                 list_ex (\<lambda>m. cs_system_user_id c = Some m) (eg_members grp)) (ed_groups db))
                  (ed_consumers db)) @
              map fst
                (filter (\<lambda>d. list_ex (\<lambda>j. list_ex (\<lambda>grp. eg_id grp = g \<and>
                                 list_ex (\<lambda>m. j = m) (eg_members grp)) (ed_groups db)) (snd d))
                  (ed_delegations db))))
      | Some (User u) \<Rightarrow>
          (let whole = principal_to_string (User u);
               bare = (case strip_prefix ''user:'' whole of None \<Rightarrow> whole | Some b \<Rightarrow> b)
           in remdups
             (map cs_consumer_id (filter (\<lambda>c. cs_system_user_id c = Some bare) (ed_consumers db)) @
              map fst (filter (\<lambda>d. list_ex (\<lambda>j. j = bare) (snd d)) (ed_delegations db)))))"

section \<open>Emitting\<close>

text \<open>
  The answer carries the row id and whether the code logs that no consumer is configured for the
  addressee.
\<close>

definition insert_event ::
  "event_env \<Rightarrow> int \<Rightarrow> event_kind \<Rightarrow> string option \<Rightarrow> string option \<Rightarrow> json \<Rightarrow> event_db
    \<Rightarrow> event_db \<times> (events_error + int \<times> bool)" where
  "insert_event env now kind wiki_id fact_id payload db =
     (case (case json_get_str ''recipient_id'' payload of
              None \<Rightarrow> Inr None
            | Some r \<Rightarrow> (if canonical_addressee r \<noteq> None then Inr (Some r) else Inl (NotAnAddressee r))) of
        Inl e \<Rightarrow> (db, Inl e)
      | Inr addressed_to \<Rightarrow>
          (let ident = ed_next_id db;
               row = \<lparr>ev_id = ident, ev_kind = event_kind_as_str kind, ev_wiki_id = wiki_id,
                      ev_fact_id = fact_id,
                      ev_payload = (if payload = JNull then None else Some (ee_serialize env payload)),
                      ev_created_at = ee_rfc3339 env now, ev_acks = JObj []\<rparr>;
               db' = db\<lparr>ed_events := ed_events db @ [row], ed_next_id := ident + 1\<rparr>
           in (db', Inr (ident, is_some_and (\<lambda>r. consumers_serving db' r = []) addressed_to))))"

text \<open>
  The idempotency probe. \<open>json_extract\<close> raises on a malformed payload, and this query has no
  \<open>json_valid\<close> guard in front of it.
\<close>

definition stored_recipient :: "event_env \<Rightarrow> event_row \<Rightarrow> recipient option" where
  "stored_recipient env r =
     (case ev_payload r of None \<Rightarrow> Some NoRecipient | Some t \<Rightarrow> map_option json_recipient (ee_sqlite env t))"

definition find_recent_event_for_recipient ::
  "event_env \<Rightarrow> int \<Rightarrow> event_kind \<Rightarrow> string \<Rightarrow> string option \<Rightarrow> int \<Rightarrow> event_db \<Rightarrow> events_error + bool" where
  "find_recent_event_for_recipient env now kind fact_id recipient_id window db =
     (let cutoff = ee_rfc3339 env (now - window);
          recent = filter (\<lambda>r. ev_kind r = event_kind_as_str kind \<and> ev_fact_id r = Some fact_id \<and>
                               cutoff \<le> ev_created_at r) (ed_events db)
      in case recipient_id of
           None \<Rightarrow> Inr (recent \<noteq> [])
         | Some who \<Rightarrow>
             (if list_ex (\<lambda>r. stored_recipient env r = None) recent then Inl EventsDb
              else Inr (list_ex (\<lambda>r. stored_recipient env r = Some (RecipientText who)) recent)))"

section \<open>The page a notice names\<close>

record polled_event =
  pe_event_id :: int
  pe_kind :: string
  pe_wiki_id :: "string option"
  pe_fact_id :: "string option"
  pe_payload :: json
  pe_emitted_at :: string

record poll_outcome =
  po_events :: "polled_event list"
  po_has_more :: bool

record ack_outcome =
  ao_acked :: nat
  ao_unknown :: "int list"

definition DEFAULT_POLL_TOP_K :: int where
  "DEFAULT_POLL_TOP_K = 20"

definition MAX_POLL_TOP_K :: int where
  "MAX_POLL_TOP_K = 50"

definition PAGE_NAMING_KEYS :: "string list" where
  "PAGE_NAMING_KEYS = [''document_page'', ''source_path'', ''path'']"

text \<open>\<open>iter.find_map(f)\<close>.\<close>

fun find_map :: "('a \<Rightarrow> 'b option) \<Rightarrow> 'a list \<Rightarrow> 'b option" where
  "find_map f [] = None"
| "find_map f (x # xs) = (case f x of None \<Rightarrow> find_map f xs | Some y \<Rightarrow> Some y)"

definition page_visible_to :: "string \<Rightarrow> string \<Rightarrow> string list \<Rightarrow> fact_table \<Rightarrow> bool" where
  "page_visible_to source_path sender_id sender_groups tab \<longleftrightarrow>
     (let acls = page_acl_map_active source_path tab
      in acls = [] \<or>
         list_ex (\<lambda>(_, region).
             can_read \<lparr>acl_subject = Some (rg_subject region), acl_allow = rg_allow region,
                       acl_excluded = rg_excluded region\<rparr>
               sender_id sender_groups (rg_sender region)) acls)"

text \<open>The answers one drain has already given (\<open>PageOpenToAddressee\<close>).\<close>

record page_open =
  pg_answers :: "string \<times> string \<rightharpoonup> bool"
  pg_groups :: "string \<rightharpoonup> string list"

definition page_open_default :: page_open where
  "page_open_default = \<lparr>pg_answers = Map.empty, pg_groups = Map.empty\<rparr>"

text \<open>What the gate has to answer for a notice: nothing, a page that cannot be placed, or a page and its reader.\<close>

datatype page_question = AsksNothing | PageInNoWiki | AsksPage string string

definition page_question_of :: "string option \<Rightarrow> json \<Rightarrow> page_question" where
  "page_question_of wiki_id payload =
     (case Option.bind (json_get_str ''recipient_id'' payload) (strip_prefix ''user:'') of
        None \<Rightarrow> AsksNothing
      | Some reader \<Rightarrow>
          (if reader = [] then AsksNothing
           else case map_option trim (find_map (\<lambda>k. json_get_str k payload) PAGE_NAMING_KEYS) of
             None \<Rightarrow> AsksNothing
           | Some named \<Rightarrow>
               (if named = [] then AsksNothing
                else if starts_with ''wikis/'' named then AsksPage named reader
                else case wiki_id of
                  None \<Rightarrow> PageInNoWiki
                | Some w \<Rightarrow> (if w = [] then PageInNoWiki
                            else AsksPage (''wikis/'' @ w @ ''/'' @ named) reader))))"

definition allows :: "event_db \<Rightarrow> page_open \<Rightarrow> string option \<Rightarrow> json \<Rightarrow> page_open \<times> bool" where
  "allows db cache wiki_id payload =
     (case page_question_of wiki_id payload of
        AsksNothing \<Rightarrow> (cache, True)
      | PageInNoWiki \<Rightarrow> (cache, False)
      | AsksPage path reader \<Rightarrow>
          (case pg_answers cache (path, reader) of
             Some known \<Rightarrow> (cache, known)
           | None \<Rightarrow>
               (let cache = (if pg_groups cache reader = None
                             then cache\<lparr>pg_groups := (pg_groups cache)(reader \<mapsto> groups_for (ed_groups db) reader)\<rparr>
                             else cache);
                    groups = (case pg_groups cache reader of None \<Rightarrow> [] | Some gs \<Rightarrow> gs);
                    open = page_visible_to path reader groups (ed_facts db)
                in (cache\<lparr>pg_answers := (pg_answers cache)((path, reader) \<mapsto> open)\<rparr>, open))))"

section \<open>The drain\<close>

definition POLL_SCAN_CEILING :: int where
  "POLL_SCAN_CEILING = 10 * MAX_POLL_TOP_K"

record poll_scope =
  ps_consumer_id :: string
  ps_caller_id :: string
  ps_operator :: bool
  ps_since :: "string option"
  ps_kinds :: "string list"

definition pending_for :: "event_env \<Rightarrow> string \<Rightarrow> event_row \<Rightarrow> bool" where
  "pending_for env consumer_id r \<longleftrightarrow>
     (case json_path (ee_labels env consumer_id) (ev_acks r) of
        None \<Rightarrow> True
      | Some v \<Rightarrow> (case v of JNull \<Rightarrow> True | _ \<Rightarrow> False))"

text \<open>The \<open>WHERE\<close> clause without the cursor; a malformed payload is stepped over.\<close>

definition admitted :: "event_env \<Rightarrow> event_db \<Rightarrow> poll_scope \<Rightarrow> event_row \<Rightarrow> bool" where
  "admitted env db sc r \<longleftrightarrow>
     pending_for env (ps_consumer_id sc) r \<and>
     is_some_and (recipient_served db (ps_operator sc) (ps_caller_id sc) (ps_consumer_id sc)) (stored_recipient env r) \<and>
     (case ps_since sc of None \<Rightarrow> True | Some s \<Rightarrow> s < ev_created_at r) \<and>
     (ps_kinds sc = [] \<or> ev_kind r \<in> set (ps_kinds sc))"

definition after_cursor :: "(string \<times> int) option \<Rightarrow> event_row \<Rightarrow> bool" where
  "after_cursor after r \<longleftrightarrow>
     (case after of
        None \<Rightarrow> True
      | Some (stamp, ident) \<Rightarrow> stamp < ev_created_at r \<or> (ev_created_at r = stamp \<and> ident < ev_id r))"

definition batch_after ::
  "event_env \<Rightarrow> event_db \<Rightarrow> poll_scope \<Rightarrow> (string \<times> int) option \<Rightarrow> nat \<Rightarrow> event_row list" where
  "batch_after env db sc after batch =
     take batch (sort_key (\<lambda>r. (ev_created_at r, ev_id r))
       (filter (\<lambda>r. admitted env db sc r \<and> after_cursor after r) (ed_events db)))"

text \<open>What one drain carries from row to row.\<close>

record drain_state =
  dn_events :: "polled_event list"
  dn_page_open :: page_open
  dn_after :: "(string \<times> int) option"
  dn_examined :: nat

definition payload_value :: "event_env \<Rightarrow> event_row \<Rightarrow> json option" where
  "payload_value env r = (case ev_payload r of None \<Rightarrow> Some JNull | Some s \<Rightarrow> ee_parse env s)"

definition polled :: "event_row \<Rightarrow> json \<Rightarrow> polled_event" where
  "polled r v =
     \<lparr>pe_event_id = ev_id r, pe_kind = ev_kind r, pe_wiki_id = ev_wiki_id r, pe_fact_id = ev_fact_id r,
      pe_payload = v, pe_emitted_at = ev_created_at r\<rparr>"

fun drain_rows :: "event_env \<Rightarrow> event_db \<Rightarrow> nat \<Rightarrow> event_row list \<Rightarrow> drain_state \<Rightarrow> drain_state" where
  "drain_rows env db wanted [] st = st"
| "drain_rows env db wanted (r # rs) st =
     (let st = st\<lparr>dn_examined := Suc (dn_examined st), dn_after := Some (ev_created_at r, ev_id r)\<rparr>
      in case payload_value env r of
           None \<Rightarrow> drain_rows env db wanted rs st
         | Some v \<Rightarrow>
             (let (cache, ok) = allows db (dn_page_open st) (ev_wiki_id r) v;
                  st = st\<lparr>dn_page_open := cache\<rparr>
              in if \<not> ok then drain_rows env db wanted rs st
                 else let st = st\<lparr>dn_events := dn_events st @ [polled r v]\<rparr>
                      in if length (dn_events st) = wanted then st
                         else drain_rows env db wanted rs st))"

lemma drain_rows_examined: "dn_examined st \<le> dn_examined (drain_rows env db wanted rs st)"
proof (induction rs arbitrary: st wanted)
  case (Cons r rs)
  show ?case
    by (auto simp: Let_def intro!: order_trans [OF _ Cons.IH] split: option.splits prod.splits)
qed simp

lemma drain_rows_progress: "dn_examined st < dn_examined (drain_rows env db wanted (r # rs) st)"
  by (auto simp: Let_def less_eq_Suc_le intro!: order_trans [OF _ drain_rows_examined]
      split: option.splits prod.splits)

text \<open>
  The outer loop. The flag of the answer is \<open>ran_out\<close>: the last batch came back short. Each round that
  goes on has looked at one row at least, so the ceiling ends the search.
\<close>

function drain :: "event_env \<Rightarrow> event_db \<Rightarrow> poll_scope \<Rightarrow> nat \<Rightarrow> drain_state \<Rightarrow> drain_state \<times> bool" where
  "drain env db sc wanted st =
     (if length (dn_events st) < wanted \<and> int (dn_examined st) < POLL_SCAN_CEILING then
        (let batch = wanted - length (dn_events st);
             rows = batch_after env db sc (dn_after st) batch;
             st' = drain_rows env db wanted rows st
         in if length rows < batch then (st', True) else drain env db sc wanted st')
      else (st, False))"
  by pat_completeness auto
termination
proof (relation "measure (\<lambda>(env, db, sc, wanted, st). nat (POLL_SCAN_CEILING - int (dn_examined st)))")
  fix env db sc wanted st batch rows st'
  assume goes_on: "length (dn_events st) < wanted \<and> int (dn_examined st) < POLL_SCAN_CEILING"
    and batch: "batch = wanted - length (dn_events st)"
    and rows: "rows = batch_after env db sc (dn_after st) batch"
    and st': "st' = drain_rows env db wanted rows st" and full: "\<not> length rows < batch"
  from goes_on batch full have "rows \<noteq> []" by auto
  then have "dn_examined st < dn_examined st'"
    unfolding st' by (metis drain_rows_progress neq_Nil_conv)
  with goes_on show "((env, db, sc, wanted, st'), env, db, sc, wanted, st) \<in>
      measure (\<lambda>(env, db, sc, wanted, st). nat (POLL_SCAN_CEILING - int (dn_examined st)))"
    by simp
qed simp


declare drain.simps [simp del]

definition touch_consumer_last_seen :: "event_env \<Rightarrow> int \<Rightarrow> string \<Rightarrow> event_db \<Rightarrow> event_db" where
  "touch_consumer_last_seen env now consumer_id db =
     (if is_registered (ed_consumers db) consumer_id
      then db\<lparr>ed_last_seen := (ed_last_seen db)(consumer_id \<mapsto> ee_rfc3339 env now)\<rparr> else db)"

text \<open>\<open>top_k.clamp(1, MAX_POLL_TOP_K)\<close>.\<close>

definition poll_limit :: "int \<Rightarrow> nat" where
  "poll_limit top_k = nat (max 1 (min top_k MAX_POLL_TOP_K))"

definition poll_events ::
  "event_env \<Rightarrow> int \<Rightarrow> poll_scope \<Rightarrow> int \<Rightarrow> event_db \<Rightarrow> event_db \<times> poll_outcome" where
  "poll_events env now sc top_k db =
     (let limit = poll_limit top_k;
          wanted = limit + 1;
          (st, ran_out) = drain env db sc wanted
             \<lparr>dn_events = [], dn_page_open = page_open_default, dn_after = None, dn_examined = 0\<rparr>;
          has_more = (limit < length (dn_events st) \<or>
                      (\<not> ran_out \<and> POLL_SCAN_CEILING \<le> int (dn_examined st)))
      in (touch_consumer_last_seen env now (ps_consumer_id sc) db,
          \<lparr>po_events = take limit (dn_events st), po_has_more = has_more\<rparr>))"

section \<open>Acknowledging\<close>

definition stamp_ack :: "event_env \<Rightarrow> int \<Rightarrow> string \<Rightarrow> event_row \<Rightarrow> event_row" where
  "stamp_ack env now consumer_id r =
     r\<lparr>ev_acks := json_set (ee_labels env consumer_id) (JStr (ee_rfc3339 env now)) (ev_acks r)\<rparr>"

fun ack_each ::
  "event_env \<Rightarrow> int \<Rightarrow> string \<Rightarrow> int list \<Rightarrow> event_row list \<Rightarrow> ack_outcome \<Rightarrow> event_row list \<times> ack_outcome" where
  "ack_each env now consumer_id [] rows out = (rows, out)"
| "ack_each env now consumer_id (i # is) rows out =
     (let affected = length (filter (\<lambda>r. ev_id r = i) rows);
          rows = map (\<lambda>r. if ev_id r = i then stamp_ack env now consumer_id r else r) rows
      in ack_each env now consumer_id is rows
           (if affected = 0 then out\<lparr>ao_unknown := ao_unknown out @ [i]\<rparr>
            else out\<lparr>ao_acked := ao_acked out + 1\<rparr>))"

definition ack_events ::
  "event_env \<Rightarrow> int \<Rightarrow> string \<Rightarrow> int list \<Rightarrow> event_db \<Rightarrow> event_db \<times> ack_outcome" where
  "ack_events env now consumer_id event_ids db =
     (let none = \<lparr>ao_acked = 0, ao_unknown = []\<rparr>
      in if event_ids = [] then (db, none)
         else let (rows, out) = ack_each env now consumer_id event_ids (ed_events db) none
              in (touch_consumer_last_seen env now consumer_id (db\<lparr>ed_events := rows\<rparr>), out))"

section \<open>The tools\<close>

datatype tool_error = InvalidInput | SenderUnauthorized | ConsumerNotRegistered | InternalError

definition enforce_consumer_match :: "identity_profile \<Rightarrow> string \<Rightarrow> tool_error + unit" where
  "enforce_consumer_match identity arg =
     (case ip_consumer_id identity of
        Some token_consumer \<Rightarrow> (if token_consumer = arg then Inr () else Inl SenderUnauthorized)
      | None \<Rightarrow> (if is_admin identity then Inr () else Inl SenderUnauthorized))"

definition require_consumer_registered :: "event_db \<Rightarrow> string \<Rightarrow> tool_error + unit" where
  "require_consumer_registered db consumer_id =
     (if is_registered (ed_consumers db) consumer_id then Inr () else Inl ConsumerNotRegistered)"

record events_poll_args =
  pa_consumer_id :: string
  pa_since :: "string option"
  pa_kinds :: "string list"
  pa_top_k :: "int option"

definition call_events_poll ::
  "event_env \<Rightarrow> int \<Rightarrow> identity_profile \<Rightarrow> events_poll_args \<Rightarrow> event_db \<Rightarrow> event_db \<times> (tool_error + poll_outcome)" where
  "call_events_poll env now identity args db =
     (case enforce_consumer_match identity (pa_consumer_id args) of
        Inl e \<Rightarrow> (db, Inl e)
      | Inr _ \<Rightarrow>
          (case require_consumer_registered db (pa_consumer_id args) of
             Inl e \<Rightarrow> (db, Inl e)
           | Inr _ \<Rightarrow>
               (let (db', out) = poll_events env now
                     \<lparr>ps_consumer_id = pa_consumer_id args, ps_caller_id = ip_sender_id identity,
                      ps_operator = is_admin identity, ps_since = pa_since args, ps_kinds = pa_kinds args\<rparr>
                     (case pa_top_k args of None \<Rightarrow> DEFAULT_POLL_TOP_K | Some k \<Rightarrow> k) db
                in (db', Inr out))))"

record events_ack_args =
  aa_consumer_id :: string
  aa_event_ids :: "int list"

definition call_events_ack ::
  "event_env \<Rightarrow> int \<Rightarrow> identity_profile \<Rightarrow> events_ack_args \<Rightarrow> event_db \<Rightarrow> event_db \<times> (tool_error + ack_outcome)" where
  "call_events_ack env now identity args db =
     (case enforce_consumer_match identity (aa_consumer_id args) of
        Inl e \<Rightarrow> (db, Inl e)
      | Inr _ \<Rightarrow>
          (case require_consumer_registered db (aa_consumer_id args) of
             Inl e \<Rightarrow> (db, Inl e)
           | Inr _ \<Rightarrow>
               (if aa_event_ids args = [] then (db, Inl InvalidInput)
                else let (db', out) = ack_events env now (aa_consumer_id args) (aa_event_ids args) db
                     in (db', Inr out))))"

section \<open>Retention\<close>

definition duration_days :: "int \<Rightarrow> int" where
  "duration_days d = duration_seconds (d * 86400)"

definition EVENT_RETENTION_DAYS :: int where
  "EVENT_RETENTION_DAYS = 30"

definition ALREADY_RUNG_DAYS :: int where
  "ALREADY_RUNG_DAYS = 365"

definition purge_aged_events :: "event_env \<Rightarrow> int \<Rightarrow> event_db \<Rightarrow> event_db \<times> nat" where
  "purge_aged_events env now db =
     (let cutoff = ee_rfc3339 env (now - duration_days EVENT_RETENTION_DAYS);
          reminder_cutoff = ee_rfc3339 env (now - duration_days ALREADY_RUNG_DAYS);
          goes = (\<lambda>r. ev_created_at r < cutoff \<and>
                      (ev_kind r \<noteq> event_kind_as_str ReminderDue \<or> ev_created_at r < reminder_cutoff))
      in (db\<lparr>ed_events := filter (\<lambda>r. \<not> goes r) (ed_events db)\<rparr>, length (filter goes (ed_events db))))"

section \<open>The gate answers what the page says\<close>

text \<open>The cache is transparent: a gate with the answers already given decides as one without.\<close>

definition page_gate :: "event_db \<Rightarrow> page_question \<Rightarrow> bool" where
  "page_gate db q =
     (case q of AsksNothing \<Rightarrow> True | PageInNoWiki \<Rightarrow> False
      | AsksPage path reader \<Rightarrow> page_visible_to path reader (groups_for (ed_groups db) reader) (ed_facts db))"

definition cache_ok :: "event_db \<Rightarrow> page_open \<Rightarrow> bool" where
  "cache_ok db c \<longleftrightarrow>
     (\<forall>reader gs. pg_groups c reader = Some gs \<longrightarrow> gs = groups_for (ed_groups db) reader) \<and>
     (\<forall>path reader b. pg_answers c (path, reader) = Some b \<longrightarrow>
        b = page_visible_to path reader (groups_for (ed_groups db) reader) (ed_facts db))"

lemma cache_ok_default [simp]: "cache_ok db page_open_default"
  by (simp add: cache_ok_def page_open_default_def)

lemma allows_gate:
  assumes "cache_ok db c"
  shows "snd (allows db c w v) = page_gate db (page_question_of w v) \<and> cache_ok db (fst (allows db c w v))"
proof (cases "page_question_of w v")
  case (AsksPage path reader)
  show ?thesis
  proof (cases "pg_answers c (path, reader)")
    case (Some known)
    with AsksPage assms show ?thesis
      by (simp add: allows_def page_gate_def cache_ok_def)
  next
    case None
    with AsksPage assms show ?thesis
      by (cases "pg_groups c reader") (auto simp: allows_def page_gate_def cache_ok_def Let_def)
  qed
qed (use assms in \<open>simp_all add: allows_def page_gate_def\<close>)

section \<open>A drain reads the queue in order\<close>

definition ev_key :: "event_row \<Rightarrow> string \<times> int" where
  "ev_key r = (ev_created_at r, ev_id r)"

definition queue :: "event_env \<Rightarrow> event_db \<Rightarrow> poll_scope \<Rightarrow> event_row list" where
  "queue env db sc = sort_key ev_key (filter (admitted env db sc) (ed_events db))"

definition delivery :: "event_env \<Rightarrow> event_db \<Rightarrow> event_row \<Rightarrow> polled_event list" where
  "delivery env db r =
     (case payload_value env r of
        None \<Rightarrow> []
      | Some v \<Rightarrow> (if page_gate db (page_question_of (ev_wiki_id r) v) then [polled r v] else []))"

abbreviation deliveries :: "event_env \<Rightarrow> event_db \<Rightarrow> event_row list \<Rightarrow> polled_event list" where
  "deliveries env db rows \<equiv> concat (map (delivery env db) rows)"

definition events_ok :: "event_db \<Rightarrow> bool" where
  "events_ok db \<longleftrightarrow>
     distinct (map ev_id (ed_events db)) \<and>
     (\<forall>r \<in> set (ed_events db). ev_id r < ed_next_id db \<and> (\<exists>kvs. ev_acks r = JObj kvs))"

lemma sorted_strict_keys:
  assumes "events_ok db"
  shows "sorted_wrt (\<lambda>r r'. ev_key r < ev_key r') (queue env db sc)"
proof -
  let ?q = "queue env db sc"
  have "distinct (map ev_id (filter (admitted env db sc) (ed_events db)))"
    using assms by (auto simp: events_ok_def distinct_map_filter)
  then have "distinct (map ev_id ?q)"
    by (simp add: distinct_map queue_def)
  then have "distinct (map ev_key ?q)"
    unfolding distinct_map by (auto simp: inj_on_def ev_key_def)
  moreover have "sorted (map ev_key ?q)"
    by (simp add: queue_def)
  ultimately have "sorted_wrt (<) (map ev_key ?q)"
    by (simp add: strict_sorted_iff)
  then show ?thesis by (simp add: sorted_wrt_map)
qed

lemma after_cursor_key: "after_cursor (Some (ev_key r)) r' \<longleftrightarrow> ev_key r < ev_key r'"
  by (auto simp: after_cursor_def ev_key_def less_prod_def)

text \<open>What one batch reads, seen from the queue: the rows after the first \<open>k\<close>.\<close>

definition cursor_at :: "event_row list \<Rightarrow> nat \<Rightarrow> (string \<times> int) option" where
  "cursor_at q k = (if k = 0 then None else Some (ev_key (q ! (k - 1))))"

lemma batch_after_queue:
  assumes "events_ok db" "k \<le> length (queue env db sc)"
  shows "batch_after env db sc (cursor_at (queue env db sc) k) n = take n (drop k (queue env db sc))"
proof -
  let ?q = "queue env db sc" and ?c = "cursor_at (queue env db sc) k"
  have "filter (\<lambda>r. admitted env db sc r \<and> after_cursor ?c r) (ed_events db)
      = filter (after_cursor ?c) (filter (admitted env db sc) (ed_events db))"
    by simp
  then have "batch_after env db sc ?c n = take n (filter (after_cursor ?c) ?q)"
    by (simp add: batch_after_def queue_def filter_sort ev_key_def [abs_def])
  also have "filter (after_cursor ?c) ?q = drop k ?q"
  proof (cases k)
    case 0
    then show ?thesis by (simp add: cursor_at_def after_cursor_def)
  next
    case (Suc j)
    with assms(2) have j: "j < length ?q" by simp
    have split: "?q = take k ?q @ drop k ?q" by simp
    have sorted: "sorted_wrt (\<lambda>r r'. ev_key r < ev_key r') ?q" by (rule sorted_strict_keys [OF assms(1)])
    have "\<not> ev_key (?q ! j) < ev_key r" if "r \<in> set (take k ?q)" for r
    proof -
      from that obtain i where i: "i < k" "i < length ?q" "r = ?q ! i"
        by (auto simp: in_set_conv_nth)
      show ?thesis
      proof (cases "i = j")
        case False
        with i Suc have "i < j" by simp
        with sorted j i show ?thesis by (metis order.asym sorted_wrt_iff_nth_less)
      qed (use i in simp)
    qed
    then have low: "filter (after_cursor ?c) (take k ?q) = []"
      unfolding filter_empty_conv using Suc by (simp add: cursor_at_def after_cursor_key)
    have "ev_key (?q ! j) < ev_key r" if "r \<in> set (drop k ?q)" for r
    proof -
      from that obtain i where "i < length ?q - k" "r = drop k ?q ! i"
        by (metis in_set_conv_nth length_drop)
      then have "k + i < length ?q" "r = ?q ! (k + i)" by simp_all
      with sorted Suc show ?thesis
        unfolding sorted_wrt_iff_nth_less by (metis add_Suc less_add_Suc1)
    qed
    then have "filter (after_cursor ?c) (drop k ?q) = drop k ?q"
      unfolding filter_id_conv using Suc by (simp add: cursor_at_def after_cursor_key)
    with low show ?thesis by (metis append_Nil filter_append split)
  qed
  finally show ?thesis .
qed


text \<open>A drain that has looked at the first \<open>k\<close> rows of the queue.\<close>

definition drain_at :: "event_env \<Rightarrow> event_db \<Rightarrow> poll_scope \<Rightarrow> nat \<Rightarrow> drain_state \<Rightarrow> bool" where
  "drain_at env db sc k st \<longleftrightarrow>
     k \<le> length (queue env db sc) \<and> dn_examined st = k \<and> dn_after st = cursor_at (queue env db sc) k \<and>
     cache_ok db (dn_page_open st) \<and> dn_events st = deliveries env db (take k (queue env db sc))"

lemma drain_atD:
  assumes "drain_at env db sc k st"
  shows "k \<le> length (queue env db sc)" "dn_examined st = k" "dn_after st = cursor_at (queue env db sc) k"
    "cache_ok db (dn_page_open st)" "dn_events st = deliveries env db (take k (queue env db sc))"
  using assms by (simp_all add: drain_at_def)

text \<open>One row: either it is passed over, or it is the next delivery.\<close>

lemma drain_rows_step:
  assumes "cache_ok db (dn_page_open st)"
  obtains st' where
    "dn_events st' = dn_events st @ delivery env db r" "dn_examined st' = Suc (dn_examined st)"
    "dn_after st' = Some (ev_key r)" "cache_ok db (dn_page_open st')"
    "drain_rows env db wanted (r # rs) st =
       (if delivery env db r \<noteq> [] \<and> length (dn_events st') = wanted then st' else drain_rows env db wanted rs st')"
proof (cases "payload_value env r")
  case None
  let ?st = "st\<lparr>dn_examined := Suc (dn_examined st), dn_after := Some (ev_key r)\<rparr>"
  show ?thesis
    by (rule that [of ?st]) (use assms None in \<open>simp_all add: delivery_def ev_key_def\<close>)
next
  case (Some v)
  obtain c ok where a: "allows db (dn_page_open st) (ev_wiki_id r) v = (c, ok)" by force
  with allows_gate [OF assms, of "ev_wiki_id r" v]
  have ok: "ok = page_gate db (page_question_of (ev_wiki_id r) v)" and c: "cache_ok db c" by simp_all
  let ?st = "st\<lparr>dn_examined := Suc (dn_examined st), dn_after := Some (ev_key r), dn_page_open := c,
      dn_events := dn_events st @ delivery env db r\<rparr>"
  have same: "dn_events st = dn_events st @ [] \<Longrightarrow> st\<lparr>dn_events := dn_events st\<rparr> = st" by simp
  show ?thesis
    by (rule that [of ?st]) (use Some a ok c in \<open>auto simp: delivery_def ev_key_def Let_def\<close>)
qed

lemma take_Suc_queue: "k < length q \<Longrightarrow> deliveries env db (take (Suc k) q) = deliveries env db (take k q) @ delivery env db (q ! k)"
  by (simp add: take_Suc_conv_app_nth)

lemma length_delivery: "length (delivery env db r) \<le> 1"
  by (auto simp: delivery_def split: option.splits)

lemma length_deliveries: "length (deliveries env db rows) \<le> length rows"
proof (induction rows)
  case (Cons r rows)
  with length_delivery [of env db r] show ?case by simp
qed simp

lemma deliveries_take:
  "k \<le> k' \<Longrightarrow> deliveries env db (take k' q) = deliveries env db (take k q) @ deliveries env db (take (k' - k) (drop k q))"
  by (metis concat_append le_add_diff_inverse map_append take_add)

lemma drain_rows_at:
  assumes "drain_at env db sc k st" "length (dn_events st) < wanted"
    and "rows = take (length rows) (drop k (queue env db sc))"
  shows "\<exists>k'. k \<le> k' \<and> k' \<le> k + length rows \<and>
           drain_at env db sc k' (drain_rows env db wanted rows st) \<and>
           length (dn_events (drain_rows env db wanted rows st)) \<le> wanted \<and>
           (length (dn_events (drain_rows env db wanted rows st)) < wanted \<longrightarrow> k' = k + length rows)"
  using assms
proof (induction rows arbitrary: k st)
  case Nil
  then show ?case by (intro exI [of _ k]) simp
next
  case (Cons r rs)
  let ?q = "queue env db sc"
  have "drop k ?q \<noteq> []" using Cons.prems(3) by (cases "drop k ?q") auto
  then have k: "k < length ?q" by simp
  then have "drop k ?q = ?q ! k # drop (Suc k) ?q" by (simp add: Cons_nth_drop_Suc)
  with Cons.prems(3) have r: "r = ?q ! k" and rs: "rs = take (length rs) (drop (Suc k) ?q)" by simp_all
  obtain st' where st': "dn_events st' = dn_events st @ delivery env db r"
      "dn_examined st' = Suc (dn_examined st)" "dn_after st' = Some (ev_key r)" "cache_ok db (dn_page_open st')"
      "drain_rows env db wanted (r # rs) st =
         (if delivery env db r \<noteq> [] \<and> length (dn_events st') = wanted then st' else drain_rows env db wanted rs st')"
    using drain_rows_step drain_atD(4) [OF Cons.prems(1)] by blast
  have at: "drain_at env db sc (Suc k) st'"
    using drain_atD [OF Cons.prems(1)] st' k r
    by (simp add: drain_at_def cursor_at_def take_Suc_queue)
  show ?case
  proof (cases "delivery env db r \<noteq> [] \<and> length (dn_events st') = wanted")
    case True
    with st'(5) at show ?thesis by (intro exI [of _ "Suc k"]) simp
  next
    case False
    from length_delivery [of env db r] False st'(1) Cons.prems(2) have "length (dn_events st') < wanted"
      by (cases "delivery env db r") auto
    from Cons.IH [OF at this rs] False st'(5) show ?thesis
      by (metis (no_types, lifting) Suc_leD add_Suc_right length_Cons add_Suc)
  qed
qed

text \<open>
  The whole search: it ends at the end of the queue, or with what was wanted, or at the ceiling; and it
  never looks further than the ceiling plus one batch.
\<close>

lemma drain_reaches:
  assumes "events_ok db" "drain_at env db sc k st" "length (dn_events st) \<le> wanted"
    and "int k < POLL_SCAN_CEILING + int wanted"
  shows "\<exists>k'. drain_at env db sc k' (fst (drain env db sc wanted st)) \<and>
           length (dn_events (fst (drain env db sc wanted st))) \<le> wanted \<and>
           int k' < POLL_SCAN_CEILING + int wanted \<and>
           (if snd (drain env db sc wanted st) then k' = length (queue env db sc)
            else length (dn_events (fst (drain env db sc wanted st))) = wanted \<or> POLL_SCAN_CEILING \<le> int k')"
  using assms
proof (induction env db sc wanted st arbitrary: k rule: drain.induct)
  case (1 env db sc wanted st)
  note at = drain_atD [OF 1(3)]
  show ?case
  proof (cases "length (dn_events st) < wanted \<and> int (dn_examined st) < POLL_SCAN_CEILING")
    case False
    then have "drain env db sc wanted st = (st, False)"
      by (subst drain.simps) (simp only: if_False)
    with 1(3-5) at(2) False show ?thesis by (intro exI [of _ k]) auto
  next
    case True
    define batch where "batch = wanted - length (dn_events st)"
    define rows where "rows = batch_after env db sc (dn_after st) batch"
    define st' where "st' = drain_rows env db wanted rows st"
    have rows: "rows = take batch (drop k (queue env db sc))"
      unfolding rows_def at(3) by (rule batch_after_queue [OF 1(2) at(1)])
    then have "rows = take (length rows) (drop k (queue env db sc))" by (simp add: min_def)
    from drain_rows_at [OF 1(3) _ this, of wanted] True obtain k' where k':
        "k' \<le> k + length rows" "drain_at env db sc k' st'" "length (dn_events st') \<le> wanted"
        "length (dn_events st') < wanted \<Longrightarrow> k' = k + length rows" "k \<le> k'"
      unfolding st'_def by blast
    have bound: "int k' < POLL_SCAN_CEILING + int wanted"
      using k'(1) True at(2) rows unfolding batch_def by auto
    show ?thesis
    proof (cases "length rows < batch")
      case True
      then have all: "rows = drop k (queue env db sc)" using rows by auto
      have "length (dn_events st') \<le> length (dn_events st) + length rows"
      proof -
        have "k \<le> k'" using k'(5) .
        from deliveries_take [OF this] have "dn_events st' = dn_events st @
            deliveries env db (take (k' - k) (drop k (queue env db sc)))"
          using drain_atD(5) [OF k'(2)] at(5) by simp
        with k'(1) show ?thesis using length_deliveries by (simp add: order_trans [OF length_deliveries])
      qed
      with True have "length (dn_events st') < wanted" unfolding batch_def by linarith
      then have "k' = length (queue env db sc)" using k'(4) all at(1) by simp
      moreover have "drain env db sc wanted st = (st', True)"
        using \<open>length (dn_events st) < wanted \<and> _\<close> True
        by (subst drain.simps) (simp add: Let_def batch_def rows_def st'_def)
      ultimately show ?thesis using k'(2,3) bound by auto
    next
      case False
      have goes_on: "drain env db sc wanted st = drain env db sc wanted st'"
        using \<open>length (dn_events st) < wanted \<and> _\<close> False
        by (subst drain.simps) (simp add: Let_def batch_def rows_def st'_def)
      from 1(1) [OF \<open>length (dn_events st) < wanted \<and> _\<close> batch_def rows_def st'_def False 1(2) k'(2,3) bound]
      show ?thesis unfolding goes_on .
    qed
  qed
qed


lemma poll_reaches:
  assumes "events_ok db"
  obtains k where
    "k \<le> length (queue env db sc)" "int k \<le> POLL_SCAN_CEILING + int (poll_limit top_k)"
    "po_events (snd (poll_events env now sc top_k db)) =
       take (poll_limit top_k) (deliveries env db (take k (queue env db sc)))"
    "\<not> po_has_more (snd (poll_events env now sc top_k db)) \<Longrightarrow>
       k = length (queue env db sc) \<and>
       length (deliveries env db (take k (queue env db sc))) \<le> poll_limit top_k"
    "po_has_more (snd (poll_events env now sc top_k db)) \<Longrightarrow>
       poll_limit top_k < length (deliveries env db (take k (queue env db sc))) \<or> POLL_SCAN_CEILING \<le> int k"
proof -
  let ?init = "\<lparr>dn_events = [], dn_page_open = page_open_default, dn_after = None, dn_examined = 0\<rparr>"
  let ?w = "poll_limit top_k + 1" and ?q = "queue env db sc"
  obtain st ran_out where d: "drain env db sc ?w ?init = (st, ran_out)" by force
  have "drain_at env db sc 0 ?init" by (simp add: drain_at_def cursor_at_def)
  from drain_reaches [OF assms this, of ?w, unfolded d fst_conv snd_conv] obtain k where
      k: "drain_at env db sc k st" "length (dn_events st) \<le> ?w" "int k < POLL_SCAN_CEILING + int ?w"
      "if ran_out then k = length ?q else length (dn_events st) = ?w \<or> POLL_SCAN_CEILING \<le> int k"
    by (auto simp: POLL_SCAN_CEILING_def MAX_POLL_TOP_K_def)
  note at = drain_atD [OF k(1)]
  have out: "snd (poll_events env now sc top_k db) =
      \<lparr>po_events = take (poll_limit top_k) (dn_events st),
       po_has_more = (poll_limit top_k < length (dn_events st) \<or>
         (\<not> ran_out \<and> POLL_SCAN_CEILING \<le> int (dn_examined st)))\<rparr>"
    using d by (simp add: poll_events_def Let_def)
  show thesis
  proof (rule that [of k])
    show "k \<le> length ?q" by (rule at(1))
    show "int k \<le> POLL_SCAN_CEILING + int (poll_limit top_k)" using k(3) by simp
    show "po_events (snd (poll_events env now sc top_k db)) =
        take (poll_limit top_k) (deliveries env db (take k ?q))"
      by (simp add: out at(5))
    show "k = length ?q \<and> length (deliveries env db (take k ?q)) \<le> poll_limit top_k"
      if "\<not> po_has_more (snd (poll_events env now sc top_k db))"
      using that k(4) at(2,5) unfolding out by (auto split: if_splits)
    show "poll_limit top_k < length (deliveries env db (take k ?q)) \<or> POLL_SCAN_CEILING \<le> int k"
      if "po_has_more (snd (poll_events env now sc top_k db))"
      using that at(2,5) unfolding out by auto
  qed
qed

lemma poll_delivers_the_queue_core:
  assumes "events_ok db"
  shows "int (length (queue env db sc)) < POLL_SCAN_CEILING \<Longrightarrow>
      snd (poll_events env now sc top_k db) =
        \<lparr>po_events = take (poll_limit top_k) (deliveries env db (queue env db sc)),
         po_has_more = (poll_limit top_k < length (deliveries env db (queue env db sc)))\<rparr>"
    and "\<not> po_has_more (snd (poll_events env now sc top_k db)) \<Longrightarrow>
      po_events (snd (poll_events env now sc top_k db)) = deliveries env db (queue env db sc)"
    and "\<exists>k. int k \<le> POLL_SCAN_CEILING + int (poll_limit top_k) \<and>
      po_events (snd (poll_events env now sc top_k db)) =
        take (poll_limit top_k) (deliveries env db (take k (queue env db sc)))"
proof -
  let ?q = "queue env db sc" and ?l = "poll_limit top_k" and ?out = "snd (poll_events env now sc top_k db)"
  obtain k where k: "k \<le> length ?q" "int k \<le> POLL_SCAN_CEILING + int ?l"
      "po_events ?out = take ?l (deliveries env db (take k ?q))"
      "\<not> po_has_more ?out \<Longrightarrow> k = length ?q \<and> length (deliveries env db (take k ?q)) \<le> ?l"
      "po_has_more ?out \<Longrightarrow> ?l < length (deliveries env db (take k ?q)) \<or> POLL_SCAN_CEILING \<le> int k"
    using poll_reaches [OF assms] by metis
  have parts: "deliveries env db ?q = deliveries env db (take k ?q) @ deliveries env db (drop k ?q)"
    using deliveries_take [OF k(1), of env db ?q] by simp
  have all: "k = length ?q \<and> length (deliveries env db ?q) \<le> ?l" if "\<not> po_has_more ?out"
    using k(4) [OF that] by auto
  show "po_events ?out = deliveries env db ?q" if "\<not> po_has_more ?out"
    using k(3) all [OF that] by simp
  show "\<exists>k. int k \<le> POLL_SCAN_CEILING + int ?l \<and> po_events ?out = take ?l (deliveries env db (take k ?q))"
    using k(2,3) by blast
  show "?out = \<lparr>po_events = take ?l (deliveries env db ?q), po_has_more = (?l < length (deliveries env db ?q))\<rparr>"
    if short: "int (length ?q) < POLL_SCAN_CEILING"
  proof (cases "po_has_more ?out")
    case True
    with k(1,5) short have "?l < length (deliveries env db (take k ?q))" by auto
    with True k(3) parts show ?thesis by (intro poll_outcome.equality) simp_all
  next
    case False
    with k(3) all [OF False] show ?thesis by (intro poll_outcome.equality) simp_all
  qed
qed

text \<open>
  A poll whose queue is shorter than the scan ceiling delivers exactly what the rule allows: the first
  \<open>top_k\<close> of the pending notices of this consumer whose page its addressee may know of, oldest first, and
  \<open>has_more\<close> says precisely whether a further one exists. In general a poll looks at no more rows than
  the ceiling and one window, and \<open>has_more = false\<close> means nothing was left behind.
\<close>

lemma poll_delivers_the_queue:
  assumes "events_ok db"
  shows "(int (length (queue env db sc)) < POLL_SCAN_CEILING \<longrightarrow>
      snd (poll_events env now sc top_k db) =
        \<lparr>po_events = take (poll_limit top_k) (deliveries env db (queue env db sc)),
         po_has_more = (poll_limit top_k < length (deliveries env db (queue env db sc)))\<rparr>) \<and>
    (\<not> po_has_more (snd (poll_events env now sc top_k db)) \<longrightarrow>
      po_events (snd (poll_events env now sc top_k db)) = deliveries env db (queue env db sc)) \<and>
    (\<exists>k. int k \<le> POLL_SCAN_CEILING + int (poll_limit top_k) \<and>
      po_events (snd (poll_events env now sc top_k db)) =
        take (poll_limit top_k) (deliveries env db (take k (queue env db sc))))"
  using poll_delivers_the_queue_core [OF assms] by blast

section \<open>Who a delivery reached\<close>

lemma delivery_of:
  assumes "e \<in> set (po_events (snd (poll_events env now sc top_k db)))" "events_ok db"
  obtains r v where "r \<in> set (ed_events db)" "admitted env db sc r" "payload_value env r = Some v"
    "page_gate db (page_question_of (ev_wiki_id r) v)" "e = polled r v"
proof -
  obtain k where "po_events (snd (poll_events env now sc top_k db)) =
      take (poll_limit top_k) (deliveries env db (take k (queue env db sc)))"
    using poll_reaches [OF assms(2)] by metis
  with assms(1) obtain r where "r \<in> set (queue env db sc)" "e \<in> set (delivery env db r)"
    by (auto dest!: in_set_takeD)
  moreover from this(2) obtain v where "payload_value env r = Some v" "e = polled r v"
      "page_gate db (page_question_of (ev_wiki_id r) v)"
    by (cases "payload_value env r") (auto simp: delivery_def split: if_splits)
  ultimately show thesis by (intro that [of r v]) (auto simp: queue_def)
qed

text \<open>\<open>serde_json\<close> and SQLite read every stored payload alike.\<close>

definition payloads_agree :: "event_env \<Rightarrow> event_db \<Rightarrow> bool" where
  "payloads_agree env db \<longleftrightarrow>
     (\<forall>r \<in> set (ed_events db). \<forall>t. ev_payload r = Some t \<longrightarrow> ee_sqlite env t = ee_parse env t)"

lemma stored_recipient_value:
  assumes "payloads_agree env db" "r \<in> set (ed_events db)" "payload_value env r = Some v"
  shows "stored_recipient env r = Some (json_recipient v)"
  using assms by (auto simp: payloads_agree_def payload_value_def stored_recipient_def json_recipient_def
      split: option.splits)

text \<open>The rule written without the query: who may be handed a notice.\<close>

definition may_receive :: "event_db \<Rightarrow> bool \<Rightarrow> string \<Rightarrow> string \<Rightarrow> recipient \<Rightarrow> bool" where
  "may_receive db operator caller_id consumer_id who \<longleftrightarrow>
     (case who of
        NoRecipient \<Rightarrow> operator \<or> runs_as_admin db consumer_id
      | RecipientText r \<Rightarrow>
          r = ''global'' \<or>
          (\<exists>u. r = ''user:'' @ u \<and> (u = caller_id \<or> u \<in> set (served_by_consumer db consumer_id))) \<or>
          (\<exists>g grp. r = ''group:'' @ g \<and> grp \<in> set (ed_groups db) \<and> eg_id grp = g \<and>
             (\<exists>m \<in> set (eg_members grp). m = caller_id \<or> m \<in> set (served_by_consumer db consumer_id)))
      | RecipientOther \<Rightarrow> False)"

lemma recipient_served_iff: "recipient_served db operator caller_id cid who = may_receive db operator caller_id cid who"
proof (cases who)
  case (RecipientText r)
  show ?thesis
  proof (cases "strip_prefix ''group:'' r")
    case None
    then have "\<not> (\<exists>g. r = ''group:'' @ g)" by (auto simp: strip_prefix_def starts_with_iff split: if_splits)
    with None RecipientText show ?thesis
      by (auto simp: may_receive_def global_principal_def strip_prefix_Some_iff split: option.splits)
  next
    case (Some g)
    then have "r = ''group:'' @ g" by (simp add: strip_prefix_Some_iff)
    with Some RecipientText show ?thesis
      by (auto simp: may_receive_def global_principal_def list_ex_iff)
  qed
qed (simp_all add: may_receive_def)

text \<open>
  C11: A notice the tool hands out was meant for whoever polled: the token is bound to the consumer polled,
  or is the administrator's own; the addressee is the caller, somebody that consumer serves, a group with
  such a member, or everybody; a notice addressed to nobody goes to the operator. A notice that names a
  page goes out only when its addressee may know of the page, and one the consumer has acknowledged never does.
\<close>

theorem events_reach_their_addressee:
  assumes "events_ok db" "payloads_agree env db"
    and "call_events_poll env now identity args db = (db', Inr out)"
    and "e \<in> set (po_events out)"
  shows "(ip_consumer_id identity = Some (pa_consumer_id args) \<or>
      (ip_consumer_id identity = None \<and> ip_token_is_admin identity \<and>
       ip_token_sender_id identity = ip_sender_id identity)) \<and>
    (may_receive db (is_admin identity) (ip_sender_id identity) (pa_consumer_id args)
      (json_recipient (pe_payload e))) \<and>
    (page_gate db (page_question_of (pe_wiki_id e) (pe_payload e))) \<and>
    (\<exists>r \<in> set (ed_events db). ev_id r = pe_event_id e \<and> pending_for env (pa_consumer_id args) r)"
proof (intro conjI)
  let ?sc = "\<lparr>ps_consumer_id = pa_consumer_id args, ps_caller_id = ip_sender_id identity,
      ps_operator = is_admin identity, ps_since = pa_since args, ps_kinds = pa_kinds args\<rparr>"
  from assms(3) have m: "enforce_consumer_match identity (pa_consumer_id args) = Inr ()"
    by (auto simp: call_events_poll_def split: sum.splits)
  then show "ip_consumer_id identity = Some (pa_consumer_id args) \<or>
      (ip_consumer_id identity = None \<and> ip_token_is_admin identity \<and>
       ip_token_sender_id identity = ip_sender_id identity)"
    by (auto simp: enforce_consumer_match_def is_admin_def speaks_for_itself_def split: option.splits if_splits)
  from assms(3) m obtain k where "out = snd (poll_events env now ?sc k db)"
    by (auto simp: call_events_poll_def split: sum.splits prod.splits) (metis snd_conv)
  with assms(1,4) obtain r v where r: "r \<in> set (ed_events db)" "admitted env db ?sc r"
      "payload_value env r = Some v" "page_gate db (page_question_of (ev_wiki_id r) v)" "e = polled r v"
    using delivery_of by metis
  show "page_gate db (page_question_of (pe_wiki_id e) (pe_payload e))"
    using r(4,5) by (simp add: polled_def)
  show "\<exists>r \<in> set (ed_events db). ev_id r = pe_event_id e \<and> pending_for env (pa_consumer_id args) r"
    using r(1,2,5) by (intro bexI [of _ r]) (auto simp: polled_def admitted_def)
  from stored_recipient_value [OF assms(2) r(1,3)] r(2,5)
  show "may_receive db (is_admin identity) (ip_sender_id identity) (pa_consumer_id args)
      (json_recipient (pe_payload e))"
    by (simp add: admitted_def polled_def recipient_served_iff)
qed

text \<open>Whether the caller is the addressee in person.\<close>

fun addressed_in_person :: "event_db \<Rightarrow> string \<Rightarrow> principal \<Rightarrow> bool" where
  "addressed_in_person db caller (User u) = (u = caller)"
| "addressed_in_person db caller (Group g) =
     list_ex (\<lambda>grp. eg_id grp = g \<and> list_ex (\<lambda>m. m = caller) (eg_members grp)) (ed_groups db)"

lemma canonical_addressee_iff:
  "canonical_addressee r = Some p \<longleftrightarrow> principal_id p \<noteq> [] \<and> r = principal_to_string p"
  using principal_from_str_Inr principal_from_str_to_string
  by (auto simp: canonical_addressee_def split: sum.splits)

lemma served_by_consumer_iff:
  "u \<in> set (served_by_consumer db cid) \<longleftrightarrow>
     (\<exists>c \<in> set (ed_consumers db). cs_consumer_id c = cid \<and> cs_system_user_id c = Some u) \<or>
     (\<exists>l. (cid, l) \<in> set (ed_delegations db) \<and> u \<in> set l)"
  by (auto simp: served_by_consumer_def)

lemma consumers_serving_user:
  assumes "u \<noteq> []"
  shows "cid \<in> set (consumers_serving db (''user:'' @ u)) \<longleftrightarrow> u \<in> set (served_by_consumer db cid)"
proof -
  have "canonical_addressee (''user:'' @ u) = Some (User u)"
    using assms by (simp add: canonical_addressee_iff)
  then have "set (consumers_serving db (''user:'' @ u)) =
      cs_consumer_id ` {c \<in> set (ed_consumers db). cs_system_user_id c = Some u} \<union>
      fst ` {d \<in> set (ed_delegations db). u \<in> set (snd d)}"
    by (simp add: consumers_serving_def list_ex_iff)
  then show ?thesis unfolding served_by_consumer_iff by (simp add: image_iff) blast
qed

lemma consumers_serving_group:
  assumes "g \<noteq> []" "g \<noteq> ''global''"
  shows "cid \<in> set (consumers_serving db (''group:'' @ g)) \<longleftrightarrow>
     (\<exists>grp \<in> set (ed_groups db). eg_id grp = g \<and> (\<exists>m \<in> set (eg_members grp). m \<in> set (served_by_consumer db cid)))"
proof -
  have "canonical_addressee (''group:'' @ g) = Some (Group g)"
    using assms by (simp add: canonical_addressee_iff)
  then have "set (consumers_serving db (''group:'' @ g)) =
      cs_consumer_id ` {c \<in> set (ed_consumers db). \<exists>grp \<in> set (ed_groups db). eg_id grp = g \<and>
        (\<exists>m \<in> set (eg_members grp). cs_system_user_id c = Some m)} \<union>
      fst ` {d \<in> set (ed_delegations db). \<exists>j \<in> set (snd d). \<exists>grp \<in> set (ed_groups db). eg_id grp = g \<and>
        j \<in> set (eg_members grp)}"
    using assms(2) by (simp add: consumers_serving_def is_global_group_def list_ex_iff)
  then show ?thesis unfolding served_by_consumer_iff by (simp add: image_iff) blast
qed

text \<open>
  The delivery rule of a poll and the list of configured consumers are one rule read in two directions:
  a registered consumer is handed a notice for a canonical addressee exactly when it is on the list of
  consumers serving that addressee, or its caller is the addressee in person.
\<close>

lemma delivery_rules_agree:
  assumes "canonical_addressee r = Some p" "is_registered (ed_consumers db) cid"
  shows "recipient_served db operator caller cid (RecipientText r) \<longleftrightarrow>
      cid \<in> set (consumers_serving db r) \<or> addressed_in_person db caller p"
proof -
  from assms(1) have r: "r = principal_to_string p" and p: "principal_id p \<noteq> []"
    by (auto simp: canonical_addressee_iff)
  show ?thesis
  proof (cases p)
    case (User u)
    with r p show ?thesis
      using consumers_serving_user [of u cid db] by (auto simp: recipient_served_iff may_receive_def)
  next
    case (Group g)
    show ?thesis
    proof (cases "g = ''global''")
      case True
      from assms(2) have "cid \<in> set (map cs_consumer_id (ed_consumers db))"
        by (auto simp: is_registered_def filter_empty_conv)
      with True Group assms(1) r show ?thesis
        by (simp add: consumers_serving_def is_global_group_def global_principal_def)
    next
      case False
      with Group r p show ?thesis
        using consumers_serving_group [of g cid db]
        by (auto simp: recipient_served_iff may_receive_def list_ex_iff)
    qed
  qed
qed


section \<open>Acknowledged for good\<close>

text \<open>An id SQLite reads as one label.\<close>

definition plain_id :: "event_env \<Rightarrow> string \<Rightarrow> bool" where
  "plain_id env cid \<longleftrightarrow> ee_labels env cid = [cid]"

lemma stamp_ack_frame [simp]:
  "ev_id (stamp_ack env now c r) = ev_id r" "ev_kind (stamp_ack env now c r) = ev_kind r"
  "ev_wiki_id (stamp_ack env now c r) = ev_wiki_id r" "ev_fact_id (stamp_ack env now c r) = ev_fact_id r"
  "ev_payload (stamp_ack env now c r) = ev_payload r" "ev_created_at (stamp_ack env now c r) = ev_created_at r"
  "stamp_ack env now c (stamp_ack env now c r) = stamp_ack env now c r"
  by (simp_all add: stamp_ack_def)

lemma stamped_is_acked:
  assumes "plain_id env c" "ev_acks r = JObj kvs"
  shows "\<not> pending_for env c (stamp_ack env now c r)"
  using assms by (simp add: pending_for_def stamp_ack_def plain_id_def)

lemma stamp_keeps_others:
  assumes "plain_id env c" "plain_id env c'" "c \<noteq> c'"
  shows "pending_for env c (stamp_ack env now c' r) = pending_for env c r"
  using assms by (cases "ev_acks r") (simp_all add: pending_for_def stamp_ack_def plain_id_def)

lemma ack_each_rows:
  "fst (ack_each env now c ids rows out) =
     map (\<lambda>r. if ev_id r \<in> set ids then stamp_ack env now c r else r) rows"
proof (induction env now c ids rows out rule: ack_each.induct)
  case (2 env now c i ids rows out)
  then show ?case by (auto simp: Let_def)
qed simp

lemma ack_each_outcome:
  assumes "known = (\<lambda>i. i \<in> set (map ev_id rows))"
  shows "snd (ack_each env now c ids rows out) =
     \<lparr>ao_acked = ao_acked out + length (filter known ids),
      ao_unknown = ao_unknown out @ filter (\<lambda>i. \<not> known i) ids\<rparr>"
  using assms
proof (induction ids arbitrary: rows out)
  case (Cons i ids)
  let ?rows = "map (\<lambda>r. if ev_id r = i then stamp_ack env now c r else r) rows"
  have "map ev_id ?rows = map ev_id rows" by simp
  then have "known = (\<lambda>i. i \<in> set (map ev_id ?rows))" using Cons.prems by (simp only:)
  note IH = Cons.IH [OF this]
  have "length (filter (\<lambda>r. ev_id r = i) rows) = 0 \<longleftrightarrow> \<not> known i"
    unfolding Cons.prems by (auto simp: filter_empty_conv)
  then have "snd (ack_each env now c (i # ids) rows out) = snd (ack_each env now c ids ?rows
      (if known i then out\<lparr>ao_acked := ao_acked out + 1\<rparr> else out\<lparr>ao_unknown := ao_unknown out @ [i]\<rparr>))"
    by (simp add: Let_def)
  then show ?case unfolding IH by simp
qed simp

lemma ack_events_table:
  "ed_events (fst (ack_events env now c ids db)) =
     map (\<lambda>r. if ev_id r \<in> set ids then stamp_ack env now c r else r) (ed_events db)"
proof (cases "ids = []")
  case False
  obtain rows out where e: "ack_each env now c ids (ed_events db) \<lparr>ao_acked = 0, ao_unknown = []\<rparr> = (rows, out)"
    by force
  with ack_each_rows [of env now c ids "ed_events db"]
  have "rows = map (\<lambda>r. if ev_id r \<in> set ids then stamp_ack env now c r else r) (ed_events db)"
    by (metis fst_conv)
  with False e show ?thesis by (simp add: ack_events_def touch_consumer_last_seen_def)
qed (simp add: ack_events_def)

lemma ack_events_frame [simp]:
  "ed_next_id (fst (ack_events env now c ids db)) = ed_next_id db"
  "ed_consumers (fst (ack_events env now c ids db)) = ed_consumers db"
  "ed_delegations (fst (ack_events env now c ids db)) = ed_delegations db"
  "ed_users (fst (ack_events env now c ids db)) = ed_users db"
  "ed_agents (fst (ack_events env now c ids db)) = ed_agents db"
  "ed_groups (fst (ack_events env now c ids db)) = ed_groups db"
  "ed_facts (fst (ack_events env now c ids db)) = ed_facts db"
  by (auto simp: ack_events_def touch_consumer_last_seen_def Let_def split: prod.splits)

lemma poll_events_frame [simp]:
  "ed_events (fst (poll_events env now sc k db)) = ed_events db"
  "ed_next_id (fst (poll_events env now sc k db)) = ed_next_id db"
  "ed_consumers (fst (poll_events env now sc k db)) = ed_consumers db"
  "ed_delegations (fst (poll_events env now sc k db)) = ed_delegations db"
  "ed_users (fst (poll_events env now sc k db)) = ed_users db"
  "ed_agents (fst (poll_events env now sc k db)) = ed_agents db"
  "ed_groups (fst (poll_events env now sc k db)) = ed_groups db"
  "ed_facts (fst (poll_events env now sc k db)) = ed_facts db"
  by (auto simp: poll_events_def touch_consumer_last_seen_def Let_def split: prod.splits)

text \<open>
  Everything that happens to the queue: a notice is emitted, a consumer of \<open>cs\<close> acknowledges, anybody
  polls, the retention sweep runs, other components write their own tables.
\<close>

inductive event_step :: "event_env \<Rightarrow> string set \<Rightarrow> event_db \<Rightarrow> event_db \<Rightarrow> bool" for env cs where
  step_emit: "event_step env cs db (fst (insert_event env now kind wiki fid payload db))"
| step_ack: "c \<in> cs \<Longrightarrow> event_step env cs db (fst (ack_events env now c ids db))"
| step_poll: "event_step env cs db (fst (poll_events env now sc k db))"
| step_purge: "event_step env cs db (fst (purge_aged_events env now db))"
| step_tables: "ed_events db' = ed_events db \<Longrightarrow> ed_next_id db' = ed_next_id db \<Longrightarrow> event_step env cs db db'"

text \<open>The rows after a step: some of the old ones, possibly acknowledged, and fresh ids.\<close>

lemma event_step_rows:
  assumes "event_step env cs db db'"
  shows "ed_next_id db \<le> ed_next_id db' \<and>
    (\<forall>r' \<in> set (ed_events db'). ev_id r' = ed_next_id db \<or>
       (\<exists>r \<in> set (ed_events db). r' = r \<or> (\<exists>c \<in> cs. \<exists>now. r' = stamp_ack env now c r)))"
  using assms
proof cases
  case (step_emit now kind wiki fid payload)
  then show ?thesis by (auto simp: insert_event_def Let_def split: option.splits if_splits)
next
  case (step_ack c now ids)
  then show ?thesis by (auto simp: ack_events_table)
qed (auto simp: purge_aged_events_def Let_def)

lemma stamp_obj: "ev_acks r = JObj kvs \<Longrightarrow> plain_id env c \<Longrightarrow> \<exists>kvs'. ev_acks (stamp_ack env now c r) = JObj kvs'"
  by (simp add: stamp_ack_def plain_id_def)

lemma event_step_ok:
  assumes "events_ok db" "\<forall>c \<in> cs. plain_id env c" "event_step env cs db db'"
  shows "events_ok db'"
  using assms(3)
proof cases
  case (step_emit now kind wiki fid payload)
  then show ?thesis using assms(1)
    by (force simp: insert_event_def Let_def events_ok_def split: option.splits if_splits)
next
  case (step_ack c now ids)
  have "map ev_id (ed_events db') = map ev_id (ed_events db)"
    by (simp add: step_ack ack_events_table)
  with assms(1,2) step_ack show ?thesis
    by (auto simp: events_ok_def ack_events_table intro: stamp_obj simp del: map_map)
next
  case (step_purge now)
  then show ?thesis using assms(1)
    by (auto simp: purge_aged_events_def Let_def events_ok_def distinct_map_filter)
qed (use assms(1) in \<open>auto simp: events_ok_def\<close>)

text \<open>The id is used up, and no row under it is pending for the consumer.\<close>

definition acked_or_gone :: "event_env \<Rightarrow> string \<Rightarrow> int \<Rightarrow> event_db \<Rightarrow> bool" where
  "acked_or_gone env c i db \<longleftrightarrow>
     i < ed_next_id db \<and> (\<forall>r \<in> set (ed_events db). ev_id r = i \<longrightarrow> \<not> pending_for env c r)"

lemma event_step_acked:
  assumes "acked_or_gone env c i db" "events_ok db" "plain_id env c" "\<forall>c \<in> cs. plain_id env c"
    and "event_step env cs db db'"
  shows "acked_or_gone env c i db'"
proof -
  note rows = event_step_rows [OF assms(5)]
  have "\<not> pending_for env c r'" if r': "r' \<in> set (ed_events db')" "ev_id r' = i" for r'
  proof -
    from assms(1) r' have "ev_id r' \<noteq> ed_next_id db" by (simp add: acked_or_gone_def)
    with rows r'(1) obtain r where r: "r \<in> set (ed_events db)"
        "r' = r \<or> (\<exists>c' \<in> cs. \<exists>now. r' = stamp_ack env now c' r)" by blast
    with r'(2) have "ev_id r = i" by auto
    with r(1) assms(1) have old: "\<not> pending_for env c r" by (simp add: acked_or_gone_def)
    from r(1) assms(2) obtain kvs where "ev_acks r = JObj kvs" by (auto simp: events_ok_def)
    with r(2) old stamped_is_acked stamp_keeps_others assms(3,4) show ?thesis by metis
  qed
  with rows assms(1) show ?thesis by (auto simp: acked_or_gone_def)
qed

interpretation acks: stepping "event_step env cs"
  "\<lambda>db. events_ok db \<and> (\<forall>c \<in> cs. plain_id env c) \<and> plain_id env c \<and> acked_or_gone env c i db"
  for env cs c i
  by unfold_locales (blast intro: event_step_ok event_step_acked)

lemma ack_acks:
  assumes "events_ok db" "plain_id env c" "i \<in> set ids" "i \<in> ev_id ` set (ed_events db)"
  shows "acked_or_gone env c i (fst (ack_events env now c ids db))"
proof -
  from assms(1,4) have "i < ed_next_id db" by (auto simp: events_ok_def)
  moreover have "\<not> pending_for env c (stamp_ack env now c r)" if "r \<in> set (ed_events db)" for r
    using that assms(1) stamped_is_acked [OF assms(2)] by (auto simp: events_ok_def)
  ultimately show ?thesis
    using assms(3) by (auto simp: acked_or_gone_def ack_events_table)
qed

text \<open>
  An acknowledged notice never comes back. Once a consumer has acknowledged an event id, no later poll of
  that consumer delivers it, whatever is emitted, acknowledged by others, purged or changed in other tables
  in between. Consumer ids are ones SQLite reads as a single label.
\<close>

lemma acked_never_returns:
  assumes "events_ok db" "\<forall>c \<in> cs. plain_id env c" "c \<in> cs"
    and "i \<in> set ids" "i \<in> ev_id ` set (ed_events db)"
    and "(event_step env cs)\<^sup>*\<^sup>* (fst (ack_events env now c ids db)) db'"
    and "ps_consumer_id sc = c"
  shows "i \<notin> set (map pe_event_id (po_events (snd (poll_events env now' sc top_k db'))))"
proof
  have plain: "plain_id env c" using assms(2,3) by blast
  have "events_ok (fst (ack_events env now c ids db))"
    by (rule event_step_ok [OF assms(1,2) step_ack [OF assms(3)]])
  with ack_acks [OF assms(1) plain assms(4,5)] plain assms(2)
  have "events_ok (fst (ack_events env now c ids db)) \<and> (\<forall>c \<in> cs. plain_id env c) \<and> plain_id env c \<and>
      acked_or_gone env c i (fst (ack_events env now c ids db))"
    by blast
  from acks.reachable_keeps [OF assms(6) this]
  have inv: "events_ok db'" "acked_or_gone env c i db'" by blast+
  assume "i \<in> set (map pe_event_id (po_events (snd (poll_events env now' sc top_k db'))))"
  then obtain e where "e \<in> set (po_events (snd (poll_events env now' sc top_k db')))" "pe_event_id e = i" by auto
  with inv(1) obtain r where "r \<in> set (ed_events db')" "admitted env db' sc r" "ev_id r = i"
    by (elim delivery_of) (auto simp: polled_def)
  with inv(2) assms(7) show False by (auto simp: acked_or_gone_def admitted_def)
qed


section \<open>A consumer that polls and acknowledges\<close>

text \<open>The loop a consumer runs: poll, handle, acknowledge what came, poll again.\<close>

fun poll_and_ack ::
  "event_env \<Rightarrow> int \<Rightarrow> poll_scope \<Rightarrow> int \<Rightarrow> nat \<Rightarrow> event_db \<Rightarrow> polled_event list \<times> event_db" where
  "poll_and_ack env now sc top_k 0 db = ([], db)"
| "poll_and_ack env now sc top_k (Suc n) db =
     (let (db1, out) = poll_events env now sc top_k db;
          db2 = fst (ack_events env now (ps_consumer_id sc) (map pe_event_id (po_events out)) db1);
          (rest, db3) = poll_and_ack env now sc top_k n db2
      in (po_events out @ rest, db3))"

lemma admitted_frame:
  assumes "ed_consumers db' = ed_consumers db" "ed_delegations db' = ed_delegations db"
    "ed_users db' = ed_users db" "ed_groups db' = ed_groups db"
  shows "admitted env db' sc r = admitted env db sc r"
proof -
  have "recipient_served db' b u c who = recipient_served db b u c who" for b u c who
    using assms by (auto simp: recipient_served_iff may_receive_def runs_as_admin_def served_by_consumer_def
        split: recipient.splits)
  then show ?thesis by (auto simp: admitted_def is_some_and_def split: option.splits)
qed

lemma delivery_frame:
  "ed_groups db' = ed_groups db \<Longrightarrow> ed_facts db' = ed_facts db \<Longrightarrow> delivery env db' r = delivery env db r"
  by (auto simp: delivery_def page_gate_def split: option.splits page_question.splits)

lemma delivery_id: "e \<in> set (delivery env db r) \<Longrightarrow> pe_event_id e = ev_id r"
  by (auto simp: delivery_def polled_def split: option.splits if_splits)

lemma delivery_cases:
  obtains "delivery env db r = []" | e where "delivery env db r = [e]" "pe_event_id e = ev_id r"
  using length_delivery [of env db r] delivery_id [of _ env db r]
  by (cases "delivery env db r") auto

lemma deliveries_filter:
  "deliveries env db (filter (\<lambda>r. P (ev_id r)) q) = filter (\<lambda>e. P (pe_event_id e)) (deliveries env db q)"
proof (induction q)
  case (Cons r q)
  have "filter (\<lambda>e. P (pe_event_id e)) (delivery env db r) = (if P (ev_id r) then delivery env db r else [])"
    using delivery_id by (auto simp: filter_id_conv filter_empty_conv)
  with Cons show ?case by simp
qed simp

lemma deliveries_distinct:
  assumes "distinct (map ev_id q)"
  shows "distinct (map pe_event_id (deliveries env db q))"
  using assms
proof (induction q)
  case (Cons r q)
  have later: "pe_event_id e \<in> ev_id ` set q" if "e \<in> set (deliveries env db q)" for e
    using that by (auto dest: delivery_id)
  from Cons have new: "ev_id r \<notin> ev_id ` set q" and IH: "distinct (map pe_event_id (deliveries env db q))"
    by simp_all
  show ?case
  proof (cases rule: delivery_cases [of env db r])
    case (2 e)
    with later new have "pe_event_id e \<notin> pe_event_id ` set (deliveries env db q)" by (metis imageE)
    with 2 IH show ?thesis by simp
  qed (use IH in simp)
qed simp

lemma filter_not_in_take:
  "distinct (map f xs) \<Longrightarrow> filter (\<lambda>x. f x \<notin> f ` set (take n xs)) xs = drop n xs"
proof (induction xs arbitrary: n)
  case (Cons x xs)
  show ?case
  proof (cases n)
    case (Suc m)
    have "filter (\<lambda>y. f y \<notin> insert (f x) (f ` set (take m xs))) xs = filter (\<lambda>y. f y \<notin> f ` set (take m xs)) xs"
    proof (rule filter_cong [OF refl])
      fix y
      assume "y \<in> set xs"
      with Cons.prems have "f y \<noteq> f x" by (metis distinct.simps(2) image_eqI list.map(2) set_map)
      then show "f y \<notin> insert (f x) (f ` set (take m xs)) \<longleftrightarrow> f y \<notin> f ` set (take m xs)" by simp
    qed
    with Suc Cons show ?thesis by simp
  qed simp
qed simp

lemma queue_distinct: "events_ok db \<Longrightarrow> distinct (map ev_id (queue env db sc))"
  by (auto simp: events_ok_def queue_def distinct_map inj_on_def)

lemma filter_acked:
  assumes "\<And>r. r \<in> set rows \<Longrightarrow> ev_id r \<in> S \<Longrightarrow> \<not> P (f r)"
  shows "filter P (map (\<lambda>r. if ev_id r \<in> S then f r else r) rows) =
         filter (\<lambda>r. ev_id r \<notin> S) (filter P rows)"
  using assms by (induction rows) auto

text \<open>One round: the queue loses the rows that were acknowledged and nothing else.\<close>

lemma queue_after_ack:
  assumes "events_ok db" "plain_id env (ps_consumer_id sc)"
  shows "queue env (fst (ack_events env now (ps_consumer_id sc) ids (fst (poll_events env now sc k db)))) sc =
         filter (\<lambda>r. ev_id r \<notin> set ids) (queue env db sc)"
proof -
  let ?c = "ps_consumer_id sc"
  let ?db = "fst (ack_events env now ?c ids (fst (poll_events env now sc k db)))"
  have "admitted env ?db sc = admitted env db sc"
    by (rule ext) (rule admitted_frame, simp_all)
  moreover have "\<not> admitted env db sc (stamp_ack env now ?c r)" if "r \<in> set (ed_events db)" for r
    using that assms stamped_is_acked by (auto simp: admitted_def events_ok_def)
  then have "filter (admitted env db sc) (ed_events ?db) =
      filter (\<lambda>r. ev_id r \<notin> set ids) (filter (admitted env db sc) (ed_events db))"
    unfolding ack_events_table poll_events_frame(1) by (intro filter_acked) blast
  ultimately show ?thesis by (simp only: queue_def filter_sort)
qed

text \<open>
  C18: A consumer that keeps polling and acknowledging gets all its mail, each notice once and oldest first:
  with a queue shorter than the scan ceiling, as many rounds as there are windows deliver exactly what the
  rule allows, and the poll after them is empty with \<open>has_more = false\<close>. Two conditions. The consumer's id is one
  that the JSON path of the acknowledgement reads as that single label (\<open>plain_id\<close>: no dot, bracket or quote); an id
  with a dot is read as a path into another consumer's entry, its acknowledgement can fail to be written and the
  notice then comes back at every poll (\<open>dotted_consumers_share_acks\<close>). And the table is as the server keeps it: ids
  that differ, acknowledgements held as a JSON object.
\<close>

theorem consumer_gets_all_its_mail:
  assumes "events_ok db" "plain_id env (ps_consumer_id sc)"
    and "int (length (queue env db sc)) < POLL_SCAN_CEILING"
    and "length (deliveries env db (queue env db sc)) \<le> n * poll_limit top_k"
  shows "fst (poll_and_ack env now sc top_k n db) = deliveries env db (queue env db sc) \<and>
    snd (poll_events env now' sc top_k (snd (poll_and_ack env now sc top_k n db))) =
      \<lparr>po_events = [], po_has_more = False\<rparr>"
proof -
  have "fst (poll_and_ack env now sc top_k n db) = deliveries env db (queue env db sc) \<and>
      snd (poll_events env now' sc top_k (snd (poll_and_ack env now sc top_k n db))) =
      \<lparr>po_events = [], po_has_more = False\<rparr>"
    using assms
  proof (induction n arbitrary: db)
    case 0
    then have "deliveries env db (queue env db sc) = []" by simp
    with poll_delivers_the_queue_core(1) [OF 0(1), of env sc now' top_k] 0(3) show ?case by simp
  next
    case (Suc n)
    let ?D = "deliveries env db (queue env db sc)" and ?l = "poll_limit top_k"
    define db1 where "db1 = fst (poll_events env now sc top_k db)"
    define ids where "ids = map pe_event_id (take ?l ?D)"
    define db2 where "db2 = fst (ack_events env now (ps_consumer_id sc) ids db1)"
    have out: "po_events (snd (poll_events env now sc top_k db)) = take ?l ?D"
      using poll_delivers_the_queue_core(1) [OF Suc(2)] Suc(4) by simp
    have q: "queue env db2 sc = filter (\<lambda>r. ev_id r \<notin> set ids) (queue env db sc)"
      unfolding db2_def db1_def by (rule queue_after_ack [OF Suc(2,3)])
    have "deliveries env db2 (queue env db2 sc) = deliveries env db (queue env db2 sc)"
      by (intro arg_cong [where f = concat] map_cong refl delivery_frame) (simp_all add: db2_def db1_def)
    also have "\<dots> = filter (\<lambda>e. pe_event_id e \<notin> set ids) ?D"
      unfolding q by (rule deliveries_filter)
    also have "\<dots> = drop ?l ?D"
      unfolding ids_def set_map
      by (rule filter_not_in_take) (rule deliveries_distinct [OF queue_distinct [OF Suc(2)]])
    finally have rest: "deliveries env db2 (queue env db2 sc) = drop ?l ?D" .
    have "events_ok db1"
      using Suc(2) by (simp add: events_ok_def db1_def)
    moreover have "event_step env {ps_consumer_id sc} db1 db2"
      unfolding db2_def by (rule step_ack) simp
    ultimately have "events_ok db2"
      using event_step_ok Suc(3) by blast
    note ok = this
    have short: "int (length (queue env db2 sc)) < POLL_SCAN_CEILING"
      using Suc(4) length_filter_le [of "\<lambda>r. ev_id r \<notin> set ids" "queue env db sc"] unfolding q by linarith
    have fits: "length (deliveries env db2 (queue env db2 sc)) \<le> n * ?l"
      using Suc(5) unfolding rest by simp
    have IH: "fst (poll_and_ack env now sc top_k n db2) = drop ?l ?D"
        "snd (poll_events env now' sc top_k (snd (poll_and_ack env now sc top_k n db2))) =
          \<lparr>po_events = [], po_has_more = False\<rparr>"
      using Suc(1) [OF ok Suc(3) short fits] unfolding rest by simp_all
    have "poll_and_ack env now sc top_k (Suc n) db =
        (take ?l ?D @ fst (poll_and_ack env now sc top_k n db2), snd (poll_and_ack env now sc top_k n db2))"
      using out by (auto simp: db2_def db1_def ids_def Let_def split: prod.splits)
    with IH show ?case by simp
  qed
  then show ?thesis .
qed


section \<open>What the door and the sweep do\<close>

lemma insert_event_refuses:
  assumes "json_get_str ''recipient_id'' payload = Some r" "canonical_addressee r = None"
  shows "insert_event env now kind wiki fid payload db = (db, Inl (NotAnAddressee r))"
  using assms by (simp add: insert_event_def)

lemma insert_event_stores:
  assumes "\<And>r. json_get_str ''recipient_id'' payload = Some r \<Longrightarrow> canonical_addressee r \<noteq> None"
  shows "\<exists>row. ed_events (fst (insert_event env now kind wiki fid payload db)) = ed_events db @ [row] \<and>
     ev_id row = ed_next_id db \<and> ev_kind row = event_kind_as_str kind \<and>
     ev_payload row = (if payload = JNull then None else Some (ee_serialize env payload)) \<and>
     pending_for env c row = (ee_labels env c \<noteq> [])"
proof -
  have fresh: "pending_for env c \<lparr>ev_id = i, ev_kind = k, ev_wiki_id = w, ev_fact_id = f, ev_payload = p,
      ev_created_at = t, ev_acks = JObj []\<rparr> = (ee_labels env c \<noteq> [])" for i k w f p t
    by (cases "ee_labels env c") (simp_all add: pending_for_def)
  with assms show ?thesis
    by (cases "json_get_str ''recipient_id'' payload") (auto simp: insert_event_def Let_def)
qed

text \<open>The universal group is never a second spelling of itself.\<close>

lemma group_global_is_refused: "canonical_addressee ''group:global'' = None"
  by (simp add: canonical_addressee_def principal_from_str_def global_principal_def)

text \<open>
  Two consumer ids of which one extends the other by a dot share a slot of the JSON map: when \<open>home.bot\<close>
  acknowledges, the notice is gone for \<open>home\<close>, and when \<open>home\<close> then acknowledges, it is back for \<open>home.bot\<close>.
\<close>

lemma dotted_consumers_share_acks:
  assumes "ee_labels env ''home'' = [''home'']" "ee_labels env ''home.bot'' = [''home'', ''bot'']"
    and "ev_acks r = JObj []"
  shows "pending_for env ''home'' r" "\<not> pending_for env ''home'' (stamp_ack env now ''home.bot'' r)"
    "pending_for env ''home.bot'' (stamp_ack env now' ''home'' (stamp_ack env now ''home.bot'' r))"
  using assms by (simp_all add: pending_for_def stamp_ack_def)

text \<open>A rung reminder outlives the month every other notice has.\<close>

lemma purge_keeps_reminders:
  assumes "r \<in> set (ed_events db)" "ev_kind r = event_kind_as_str ReminderDue"
    and "ee_rfc3339 env (now - duration_days ALREADY_RUNG_DAYS) \<le> ev_created_at r"
  shows "r \<in> set (ed_events (fst (purge_aged_events env now db)))"
  using assms by (auto simp: purge_aged_events_def Let_def)

section \<open>A small queue\<close>

definition anna_notice :: json where
  "anna_notice = JObj [(''recipient_id'', JStr ''user:anna''), (''facts'', JArr [])]"

definition operator_notice :: json where
  "operator_notice = JObj [(''path'', JStr ''wikis/anna/diary.md'')]"

definition sample_event_env :: event_env where
  "sample_event_env =
     \<lparr>ee_serialize = (\<lambda>v. if v = anna_notice then ''anna'' else ''operator''),
      ee_parse = (\<lambda>t. if t = ''anna'' then Some anna_notice else if t = ''operator'' then Some operator_notice else None),
      ee_sqlite = (\<lambda>t. if t = ''anna'' then Some anna_notice else if t = ''operator'' then Some operator_notice else None),
      ee_labels = (\<lambda>c. [c]), ee_rfc3339 = (\<lambda>_. ''2026-01-01'')\<rparr>"

definition empty_event_db :: event_db where
  "empty_event_db =
     \<lparr>ed_events = [], ed_next_id = 1,
      ed_consumers = [\<lparr>cs_consumer_id = ''bot'', cs_display_name = None, cs_callback_url = None,
                       cs_kinds_subscribed = None, cs_metadata = None, cs_consumer_secret = ''s'',
                       cs_registered_at = 0, cs_system_user_id = Some ''samwise''\<rparr>],
      ed_last_seen = Map.empty, ed_delegations = [(''bot'', [''anna''])],
      ed_users = [], ed_agents = [(''samwise'', True)], ed_groups = [], ed_facts = []\<rparr>"

definition sample_event_db :: event_db where
  "sample_event_db =
     fst (insert_event sample_event_env 0 BudgetThresholdReached None None operator_notice
       (fst (insert_event sample_event_env 0 FactMintedForYou (Some ''anna'') None anna_notice empty_event_db)))"

definition bot_scope :: poll_scope where
  "bot_scope = \<lparr>ps_consumer_id = ''bot'', ps_caller_id = ''samwise'', ps_operator = False, ps_since = None, ps_kinds = []\<rparr>"

definition anna_row :: event_row where
  "anna_row = \<lparr>ev_id = 1, ev_kind = ''fact_minted_for_you'', ev_wiki_id = Some ''anna'', ev_fact_id = None,
     ev_payload = Some ''anna'', ev_created_at = ''2026-01-01'', ev_acks = JObj []\<rparr>"

lemma sample_queue: "queue sample_event_env sample_event_db bot_scope = [anna_row]"
  by code_simp

lemma sample_deliveries:
  "deliveries sample_event_env sample_event_db [anna_row] = [polled anna_row anna_notice]"
  by code_simp

lemma sample_events_ok: "events_ok sample_event_db"
  by (auto simp: events_ok_def sample_event_db_def empty_event_db_def insert_event_def Let_def json_get_str_def
      operator_notice_def anna_notice_def canonical_addressee_def principal_from_str_def)


lemma poll_delivers_the_queue_witness:
  "snd (poll_events sample_event_env 0 bot_scope 20 sample_event_db) =
     \<lparr>po_events = [polled anna_row anna_notice], po_has_more = False\<rparr>"
  using conjunct1 [OF poll_delivers_the_queue [OF sample_events_ok, of sample_event_env bot_scope 0 20]]
  unfolding sample_queue sample_deliveries
  by (simp add: POLL_SCAN_CEILING_def MAX_POLL_TOP_K_def poll_limit_def)

definition bot_identity :: identity_profile where
  "bot_identity = \<lparr>ip_sender_id = ''samwise'', ip_token_sender_id = ''samwise'', ip_device_label = ''d'',
     ip_rate_limit_id = ''r'', ip_token_jti = ''j'', ip_consumer_id = Some ''bot'', ip_token_is_admin = False,
     ip_consumer_class = Standard, ip_profile = Local\<rparr>"

definition bot_poll :: events_poll_args where
  "bot_poll = \<lparr>pa_consumer_id = ''bot'', pa_since = None, pa_kinds = [], pa_top_k = None\<rparr>"

lemma sample_poll:
  "snd (call_events_poll sample_event_env 0 bot_identity bot_poll sample_event_db) =
     Inr \<lparr>po_events = [polled anna_row anna_notice], po_has_more = False\<rparr>"
proof -
  have sc: "\<lparr>ps_consumer_id = pa_consumer_id bot_poll, ps_caller_id = ip_sender_id bot_identity,
      ps_operator = is_admin bot_identity, ps_since = pa_since bot_poll, ps_kinds = pa_kinds bot_poll\<rparr> = bot_scope"
    by (simp add: bot_poll_def bot_identity_def bot_scope_def is_admin_def)
  have gates: "enforce_consumer_match bot_identity (pa_consumer_id bot_poll) = Inr ()"
    "require_consumer_registered sample_event_db (pa_consumer_id bot_poll) = Inr ()"
    by code_simp+
  have "snd (poll_events sample_event_env 0 bot_scope DEFAULT_POLL_TOP_K sample_event_db) =
      \<lparr>po_events = [polled anna_row anna_notice], po_has_more = False\<rparr>"
    using poll_delivers_the_queue_core(1) [OF sample_events_ok, of sample_event_env bot_scope 0 DEFAULT_POLL_TOP_K]
    unfolding sample_queue sample_deliveries
    by (simp add: POLL_SCAN_CEILING_def MAX_POLL_TOP_K_def poll_limit_def DEFAULT_POLL_TOP_K_def)
  then show ?thesis
    unfolding call_events_poll_def gates sum.case sc
    by (auto simp: bot_poll_def split: prod.splits)
qed

theorem events_reach_their_addressee_witness:
  "may_receive sample_event_db False ''samwise'' ''bot'' (json_recipient anna_notice) \<and>
   \<not> may_receive sample_event_db False ''samwise'' ''bot'' (json_recipient operator_notice)"
proof -
  obtain db' where db': "call_events_poll sample_event_env 0 bot_identity bot_poll sample_event_db =
      (db', Inr \<lparr>po_events = [polled anna_row anna_notice], po_has_more = False\<rparr>)"
    using sample_poll by (metis prod.collapse)
  have "payloads_agree sample_event_env sample_event_db"
    by (simp add: payloads_agree_def sample_event_env_def)
  from events_reach_their_addressee [OF sample_events_ok this db', of "polled anna_row anna_notice"]
  have "may_receive sample_event_db False ''samwise'' ''bot'' (json_recipient anna_notice)"
    by (simp add: polled_def bot_identity_def bot_poll_def is_admin_def)
  moreover have "\<not> runs_as_admin sample_event_db ''bot''" "json_recipient operator_notice = NoRecipient"
    by code_simp+
  ultimately show ?thesis by (simp add: may_receive_def)
qed

lemma delivery_rules_agree_witness:
  "recipient_served sample_event_db False ''frodo'' ''bot'' (RecipientText ''user:anna'') \<and>
   consumers_serving sample_event_db ''user:anna'' = [''bot'']"
proof -
  have "canonical_addressee ''user:anna'' = Some (User ''anna'')"
    "is_registered (ed_consumers sample_event_db) ''bot''"
    "consumers_serving sample_event_db ''user:anna'' = [''bot'']"
    by code_simp+
  with delivery_rules_agree [OF this(1,2), of False "''frodo''"] show ?thesis by simp
qed

lemma acked_never_returns_witness:
  "1 \<notin> set (map pe_event_id (po_events (snd (poll_events sample_event_env 9 bot_scope 20
      (fst (insert_event sample_event_env 5 ArchiveProposed None None JNull
        (fst (ack_events sample_event_env 3 ''bot'' [1] sample_event_db))))))))"
proof (rule acked_never_returns [OF sample_events_ok, where cs = "{''bot''}" and c = "''bot''" and ids = "[1]"])
  show "1 \<in> ev_id ` set (ed_events sample_event_db)"
    by (simp add: sample_event_db_def empty_event_db_def insert_event_def Let_def json_get_str_def
        operator_notice_def anna_notice_def canonical_addressee_def principal_from_str_def)
  show "(event_step sample_event_env {''bot''})\<^sup>*\<^sup>* (fst (ack_events sample_event_env 3 ''bot'' [1] sample_event_db))
      (fst (insert_event sample_event_env 5 ArchiveProposed None None JNull
        (fst (ack_events sample_event_env 3 ''bot'' [1] sample_event_db))))"
    by (rule r_into_rtranclp) (rule step_emit)
qed (simp_all add: plain_id_def sample_event_env_def bot_scope_def)

theorem consumer_gets_all_its_mail_witness:
  "fst (poll_and_ack sample_event_env 0 bot_scope 20 1 sample_event_db) = [polled anna_row anna_notice]"
  using consumer_gets_all_its_mail [OF sample_events_ok, of sample_event_env bot_scope 1 20 0]
  unfolding sample_queue sample_deliveries
  by (simp add: POLL_SCAN_CEILING_def MAX_POLL_TOP_K_def poll_limit_def plain_id_def sample_event_env_def)


end
