(* ===== verification/Mwe_Reminders.thy ===== *)
theory Mwe_Reminders
  imports Mwe_Events
begin

text \<open>
  Dated commitments that come due: \<open>crates/mwe-core/src/reminders.rs\<close>, with the policy of \<open>config.rs\<close> and
  the scan of \<open>fact_index::find_due_between\<close>. Instants and durations are nanoseconds; writing and reading
  RFC 3339 text is the crate \<open>chrono\<close>: \<open>rc_parse\<close> is \<open>DateTime::parse_from_rfc3339\<close> taken to UTC, \<open>rc_secs\<close>
  is \<open>to_rfc3339_opts(Secs, true)\<close>. Leap seconds are not modelled. The sweep is
  given the instant its scheduler reads from the clock; the queue reads the same clock a moment later, and
  the model takes the two readings as one.
\<close>

section \<open>The policy\<close>

definition PLAN :: string where
  "PLAN = ''plan''"

definition duration_hours :: "int \<Rightarrow> int" where
  "duration_hours h = duration_seconds (h * 3600)"

definition CANDIDATE_WINDOW_HOURS :: int where
  "CANDIDATE_WINDOW_HOURS = 48"

record reminder_policy =
  rp_enabled :: bool
  rp_day_hour_utc :: nat
  rp_lead :: int
  rp_grace :: int
  rp_cap :: nat

definition default_reminder_policy :: reminder_policy where
  "default_reminder_policy =
     \<lparr>rp_enabled = True, rp_day_hour_utc = 7, rp_lead = 0, rp_grace = duration_hours 6, rp_cap = 50\<rparr>"

record reminders_config =
  rm_enabled :: bool
  rm_day_hour_utc :: nat
  rm_lead_secs :: nat
  rm_grace_secs :: nat
  rm_cap :: nat

text \<open>
  \<open>chrono::Duration::seconds\<close> panics above \<open>i64::MAX / 1000\<close> seconds: \<^const>\<open>None\<close>. A value that is no
  \<open>i64\<close> is replaced by \<open>i64::MAX\<close> first.
\<close>

definition chrono_seconds :: "int \<Rightarrow> int option" where
  "chrono_seconds s = (if s \<le> 9223372036854775807 div 1000 then Some (duration_seconds s) else None)"

definition saturated_i64 :: "nat \<Rightarrow> int" where
  "saturated_i64 n = min (int n) 9223372036854775807"

definition reminders_policy :: "reminders_config \<Rightarrow> reminder_policy option" where
  "reminders_policy c =
     (case chrono_seconds (saturated_i64 (rm_lead_secs c)) of
        None \<Rightarrow> None
      | Some lead \<Rightarrow>
          (case chrono_seconds (saturated_i64 (rm_grace_secs c)) of
             None \<Rightarrow> None
           | Some grace \<Rightarrow>
               Some \<lparr>rp_enabled = rm_enabled c, rp_day_hour_utc = min (rm_day_hour_utc c) 23,
                     rp_lead = lead, rp_grace = grace, rp_cap = rm_cap c\<rparr>))"

section \<open>When a commitment fires\<close>

text \<open>Seconds since midnight UTC, and the midnight itself.\<close>

definition second_of_day :: "int \<Rightarrow> int" where
  "second_of_day t = timestamp t mod 86400"

definition midnight_of :: "int \<Rightarrow> int" where
  "midnight_of t = duration_seconds (timestamp t - second_of_day t)"

definition hms :: "int \<Rightarrow> int \<times> int \<times> int" where
  "hms t = (second_of_day t div 3600, second_of_day t div 60 mod 60, second_of_day t mod 60)"

definition firing_instant :: "int \<Rightarrow> reminder_policy \<Rightarrow> int" where
  "firing_instant valid_to policy =
     (if hms valid_to = (0, 0, 0) \<or> hms valid_to = (23, 59, 59)
      then midnight_of valid_to + duration_hours (int (min (rp_day_hour_utc policy) 23))
      else valid_to - rp_lead policy)"

section \<open>Whom it rings for\<close>

record due_reminder =
  dr_fact_id :: fact_id
  dr_wiki_id :: string
  dr_recipients :: "string list"
  dr_body :: string
  dr_due_at :: string
  dr_fires_at :: int

record reminder_report =
  sr_examined :: nat
  sr_emitted :: "fact_id list"
  sr_already_rung :: nat

definition is_agent :: "(string \<times> bool) list \<Rightarrow> string \<Rightarrow> bool" where
  "is_agent agents user_id = (case map_of agents user_id of None \<Rightarrow> False | Some flag \<Rightarrow> flag)"

definition push_wire :: "string \<Rightarrow> string list \<Rightarrow> string list" where
  "push_wire ident out =
     (let wire = ''user:'' @ ident in if wire \<in> set out then out else out @ [wire])"

fun open_principal :: "enrollment_group list \<Rightarrow> principal \<Rightarrow> string list \<Rightarrow> string list" where
  "open_principal groups (User ident) out = push_wire ident out"
| "open_principal groups (Group g) out = foldl (\<lambda>out m. push_wire m out) out (members_for groups g)"

definition people_to_ring :: "event_db \<Rightarrow> fact_row \<Rightarrow> string list" where
  "people_to_ring db row =
     (let out = foldl (\<lambda>out p. open_principal (ed_groups db) p out) [] (fr_subject_id row # fr_allow_ids row)
      in filter (\<lambda>wire. \<not> is_agent (ed_agents db)
                    (case strip_prefix ''user:'' wire of None \<Rightarrow> wire | Some i \<Rightarrow> i)) out)"

section \<open>The sweep\<close>

record calendar_env =
  rc_parse :: "string \<Rightarrow> int option"
  rc_secs :: "int \<Rightarrow> string"

definition find_due_between :: "string \<Rightarrow> string \<Rightarrow> nat \<Rightarrow> fact_table \<Rightarrow> fact_row list" where
  "find_due_between from_bound to_bound limit tab =
     (let rows = sort_key (\<lambda>r. opt_text (fr_valid_to r))
        (filter (\<lambda>r. fr_superseded_at r = None \<and> fr_deleted_at r = None \<and>
                     is_some_and (\<lambda>v. from_bound \<le> v \<and> v \<le> to_bound) (fr_valid_to r)) tab)
      in if limit = 0 then rows else take limit rows)"

definition due_reminder_of :: "calendar_env \<Rightarrow> event_db \<Rightarrow> int \<Rightarrow> reminder_policy \<Rightarrow> fact_row \<Rightarrow> due_reminder option" where
  "due_reminder_of cal db now policy row =
     (if fr_fact_type row \<noteq> Some PLAN then None
      else if fr_decay_reason row \<noteq> None then None
      else case fr_valid_to row of
        None \<Rightarrow> None
      | Some valid_to \<Rightarrow>
          (case rc_parse cal valid_to of
             None \<Rightarrow> None
           | Some parsed \<Rightarrow>
               (let fires_at = firing_instant parsed policy;
                    recipients = people_to_ring db row
                in if now < fires_at \<or> fires_at \<le> now - rp_grace policy then None
                   else if recipients = [] then None
                   else Some \<lparr>dr_fact_id = fr_fact_id row, dr_wiki_id = fr_wiki_id row,
                              dr_recipients = recipients, dr_body = fr_text row, dr_due_at = valid_to,
                              dr_fires_at = fires_at\<rparr>)))"

fun due_loop ::
  "calendar_env \<Rightarrow> event_db \<Rightarrow> int \<Rightarrow> reminder_policy \<Rightarrow> fact_row list \<Rightarrow> due_reminder list \<Rightarrow> due_reminder list" where
  "due_loop cal db now policy [] due = due"
| "due_loop cal db now policy (row # rows) due =
     (if rp_cap policy \<le> length due then due
      else case due_reminder_of cal db now policy row of
        None \<Rightarrow> due_loop cal db now policy rows due
      | Some d \<Rightarrow> due_loop cal db now policy rows (due @ [d]))"

definition due_now :: "calendar_env \<Rightarrow> int \<Rightarrow> reminder_policy \<Rightarrow> event_db \<Rightarrow> due_reminder list" where
  "due_now cal now policy db =
     (if \<not> rp_enabled policy then []
      else let window = duration_hours CANDIDATE_WINDOW_HOURS;
               rows = find_due_between (rc_secs cal (now - window)) (rc_secs cal (now + window)) 0 (ed_facts db)
           in due_loop cal db now policy rows [])"

definition reminder_payload :: "calendar_env \<Rightarrow> due_reminder \<Rightarrow> string \<Rightarrow> json" where
  "reminder_payload cal r recipient =
     JObj [(''recipient_id'', JStr recipient), (''due_at'', JStr (dr_due_at r)),
           (''fires_at'', JStr (rc_secs cal (dr_fires_at r))),
           (''facts'', JArr [JObj [(''fact_id'', JStr (fact_id_str (dr_fact_id r))),
                                   (''wiki_id'', JStr (dr_wiki_id r)), (''body'', JStr (dr_body r))]]),
           (''dashboard_path'', JStr (''/dashboard/wiki/'' @ dr_wiki_id r))]"

text \<open>The two loops of the sweep; an error of the queue aborts it, with what was emitted before in place.\<close>

fun ring_people ::
  "event_env \<Rightarrow> calendar_env \<Rightarrow> int \<Rightarrow> due_reminder \<Rightarrow> string list \<Rightarrow> event_db \<Rightarrow> reminder_report
    \<Rightarrow> event_db \<times> (events_error + reminder_report)" where
  "ring_people env cal now r [] db report = (db, Inr report)"
| "ring_people env cal now r (who # people) db report =
     (case find_recent_event_for_recipient env now ReminderDue (fact_id_str (dr_fact_id r)) (Some who)
             (duration_days ALREADY_RUNG_DAYS) db of
        Inl e \<Rightarrow> (db, Inl e)
      | Inr rung \<Rightarrow>
          (if rung
           then ring_people env cal now r people db (report\<lparr>sr_already_rung := Suc (sr_already_rung report)\<rparr>)
           else case insert_event env now ReminderDue (Some (dr_wiki_id r)) (Some (fact_id_str (dr_fact_id r)))
                       (reminder_payload cal r who) db of
             (db', Inl e) \<Rightarrow> (db', Inl e)
           | (db', Inr _) \<Rightarrow>
               ring_people env cal now r people db' (report\<lparr>sr_emitted := sr_emitted report @ [dr_fact_id r]\<rparr>)))"

fun ring_all ::
  "event_env \<Rightarrow> calendar_env \<Rightarrow> int \<Rightarrow> due_reminder list \<Rightarrow> event_db \<Rightarrow> reminder_report
    \<Rightarrow> event_db \<times> (events_error + reminder_report)" where
  "ring_all env cal now [] db report = (db, Inr report)"
| "ring_all env cal now (r # rs) db report =
     (case ring_people env cal now r (dr_recipients r) db report of
        (db', Inl e) \<Rightarrow> (db', Inl e)
      | (db', Inr report') \<Rightarrow> ring_all env cal now rs db' report')"

definition sweep ::
  "event_env \<Rightarrow> calendar_env \<Rightarrow> int \<Rightarrow> reminder_policy \<Rightarrow> event_db \<Rightarrow> event_db \<times> (events_error + reminder_report)" where
  "sweep env cal now policy db =
     (let due = due_now cal now policy db
      in ring_all env cal now due db \<lparr>sr_examined = length due, sr_emitted = [], sr_already_rung = 0\<rparr>)"

section \<open>Once per person and year\<close>

text \<open>
  What is relied on: stamps compare as the instants they were written from, and SQLite extracts from a
  serialised payload the recipient that was put in.
\<close>

definition stamps_ordered :: "event_env \<Rightarrow> bool" where
  "stamps_ordered env \<longleftrightarrow> (\<forall>t t'. ee_rfc3339 env t < ee_rfc3339 env t' \<longleftrightarrow> t < t')"

definition recipients_stored :: "event_env \<Rightarrow> bool" where
  "recipients_stored env \<longleftrightarrow>
     (\<forall>v. map_option json_recipient (ee_sqlite env (ee_serialize env v)) = Some (json_recipient v))"

type_synonym ring_log = "(string \<times> string \<times> int) list"

text \<open>The rings among rows emitted at \<open>now\<close>: fact, recipient, instant.\<close>

definition rung_entry :: "event_env \<Rightarrow> int \<Rightarrow> event_row \<Rightarrow> ring_log" where
  "rung_entry env now r =
     (case ev_fact_id r of
        None \<Rightarrow> []
      | Some f \<Rightarrow> (case stored_recipient env r of Some (RecipientText w) \<Rightarrow> [(f, w, now)] | _ \<Rightarrow> []))"

definition rings_between :: "event_env \<Rightarrow> int \<Rightarrow> event_db \<Rightarrow> event_db \<Rightarrow> ring_log" where
  "rings_between env now db db' =
     concat (map (rung_entry env now) (drop (length (ed_events db)) (ed_events db')))"

definition a_year_apart :: "string \<times> string \<times> int \<Rightarrow> string \<times> string \<times> int \<Rightarrow> bool" where
  "a_year_apart x y \<longleftrightarrow>
     (case (x, y) of ((f, w, t), (f', w', t')) \<Rightarrow> f = f' \<and> w = w' \<longrightarrow> t + duration_days ALREADY_RUNG_DAYS < t')"

definition ring_on_record :: "event_env \<Rightarrow> event_db \<Rightarrow> string \<times> string \<times> int \<Rightarrow> bool" where
  "ring_on_record env db x \<longleftrightarrow>
     (case x of (f, w, t) \<Rightarrow> \<exists>r \<in> set (ed_events db). ev_kind r = event_kind_as_str ReminderDue \<and>
        ev_fact_id r = Some f \<and> stored_recipient env r = Some (RecipientText w) \<and>
        ev_created_at r = ee_rfc3339 env t)"

text \<open>The log is a year apart, and a ring that is no longer on record is more than a year old.\<close>

definition rings_ok :: "event_env \<Rightarrow> int \<times> event_db \<times> ring_log \<Rightarrow> bool" where
  "rings_ok env s \<longleftrightarrow>
     (case s of (clock, db, log) \<Rightarrow>
        sorted_wrt a_year_apart log \<and>
        (\<forall>x \<in> set log. ring_on_record env db x \<or> snd (snd x) < clock - duration_days ALREADY_RUNG_DAYS))"

lemma rings_ok_clock: "rings_ok env (clock, db, log) \<Longrightarrow> clock \<le> now \<Longrightarrow> rings_ok env (now, db, log)"
  by (force simp: rings_ok_def)

lemma rings_ok_rows:
  assumes "rings_ok env (clock, db, log)"
    and "\<And>x. ring_on_record env db x \<Longrightarrow> ring_on_record env db' x \<or> snd (snd x) < clock - duration_days ALREADY_RUNG_DAYS"
  shows "rings_ok env (clock, db', log)"
  using assms by (auto simp: rings_ok_def)

text \<open>One ring: the probe found nothing within the year, the row is stored.\<close>

lemma ring_keeps_year:
  assumes env: "stamps_ordered env" "recipients_stored env"
    and ok: "rings_ok env (now, db, log)"
    and probe: "find_recent_event_for_recipient env now ReminderDue f (Some w) (duration_days ALREADY_RUNG_DAYS) db = Inr False"
    and put: "insert_event env now ReminderDue wiki (Some f) (reminder_payload cal r w) db = (db', Inr i)"
  shows "\<exists>row. ed_events db' = ed_events db @ [row] \<and> rung_entry env now row = [(f, w, now)] \<and>
     rings_ok env (now, db', log @ [(f, w, now)])"
proof -
  from put obtain row where row: "ed_events db' = ed_events db @ [row]" "ev_kind row = event_kind_as_str ReminderDue"
      "ev_fact_id row = Some f" "ev_payload row = Some (ee_serialize env (reminder_payload cal r w))"
      "ev_created_at row = ee_rfc3339 env now"
    by (auto simp: insert_event_def Let_def reminder_payload_def json_get_str_def split: if_splits)
  have "json_recipient (reminder_payload cal r w) = RecipientText w"
    by (simp add: json_recipient_def reminder_payload_def)
  with env(2) row(4) have rec: "stored_recipient env row = Some (RecipientText w)"
    unfolding recipients_stored_def stored_recipient_def by (metis option.simps(5))
  have old: "t + duration_days ALREADY_RUNG_DAYS < now" if log: "(f, w, t) \<in> set log" for t
  proof -
    from ok log consider "ring_on_record env db (f, w, t)" | "t < now - duration_days ALREADY_RUNG_DAYS"
      by (force simp: rings_ok_def)
    then show ?thesis
    proof cases
      case 1
      then obtain q where q: "q \<in> set (ed_events db)" "ev_kind q = event_kind_as_str ReminderDue"
          "ev_fact_id q = Some f" "stored_recipient env q = Some (RecipientText w)" "ev_created_at q = ee_rfc3339 env t"
        by (auto simp: ring_on_record_def)
      with probe have "\<not> ee_rfc3339 env (now - duration_days ALREADY_RUNG_DAYS) \<le> ee_rfc3339 env t"
        by (auto simp: find_recent_event_for_recipient_def Let_def list_ex_iff split: if_splits)
      then have "t < now - duration_days ALREADY_RUNG_DAYS"
        using env(1) by (simp add: stamps_ordered_def not_le)
      then show ?thesis by simp
    qed simp
  qed
  have "ring_on_record env db' x" if "ring_on_record env db x" for x
    using that row(1) by (auto simp: ring_on_record_def)
  moreover have "ring_on_record env db' (f, w, now)"
    using row rec by (auto simp: ring_on_record_def)
  moreover have "a_year_apart x (f, w, now)" if "x \<in> set log" for x
    using that old by (cases x) (auto simp: a_year_apart_def)
  ultimately have "rings_ok env (now, db', log @ [(f, w, now)])"
    using ok by (auto simp: rings_ok_def sorted_wrt_append)
  with row rec show ?thesis by (auto simp: rung_entry_def)
qed

lemma rings_between_refl [simp]: "rings_between env now db db = []"
  by (simp add: rings_between_def)

lemma rings_between_trans:
  assumes "ed_events db' = ed_events db @ rows" "ed_events db'' = ed_events db' @ rows'"
  shows "rings_between env now db db'' = rings_between env now db db' @ rings_between env now db' db''"
  using assms by (simp add: rings_between_def)

text \<open>A loop that only appends rows and keeps the log a year apart.\<close>

definition rings_on :: "event_env \<Rightarrow> int \<Rightarrow> event_db \<Rightarrow> event_db \<Rightarrow> bool" where
  "rings_on env now db db' \<longleftrightarrow>
     (\<exists>rows. ed_events db' = ed_events db @ rows) \<and>
     (\<forall>log. rings_ok env (now, db, log) \<longrightarrow> rings_ok env (now, db', log @ rings_between env now db db'))"

lemma rings_on_refl [simp]: "rings_on env now db db"
  by (simp add: rings_on_def)

lemma rings_on_trans:
  assumes "rings_on env now db db'" "rings_on env now db' db''"
  shows "rings_on env now db db''"
proof -
  from assms obtain rows rows' where rows: "ed_events db' = ed_events db @ rows" "ed_events db'' = ed_events db' @ rows'"
    by (auto simp: rings_on_def)
  from rings_between_trans [OF this, of env now] assms show ?thesis
    unfolding rings_on_def using rows by (metis append.assoc)
qed

lemma insert_event_Inl: "insert_event env now kind wiki fid payload db = (db', Inl e) \<Longrightarrow> db' = db"
  by (auto simp: insert_event_def Let_def split: option.splits if_splits sum.splits)

lemma ring_people_rings:
  assumes "stamps_ordered env" "recipients_stored env"
  shows "rings_on env now db (fst (ring_people env cal now r people db report))"
proof (induction people arbitrary: db report)
  case (Cons who people)
  let ?f = "fact_id_str (dr_fact_id r)"
  let ?probe = "find_recent_event_for_recipient env now ReminderDue ?f (Some who) (duration_days ALREADY_RUNG_DAYS) db"
  consider e where "?probe = Inl e" | "?probe = Inr True" | "?probe = Inr False"
    by (cases ?probe) (metis (full_types))+
  then show ?case
  proof cases
    case 3
    obtain db1 res where put: "insert_event env now ReminderDue (Some (dr_wiki_id r)) (Some ?f) (reminder_payload cal r who) db
        = (db1, res)" by force
    show ?thesis
    proof (cases res)
      case (Inl e)
      with put insert_event_Inl have "db1 = db" by blast
      with 3 put Inl show ?thesis by simp
    next
      case (Inr i)
      note one = ring_keeps_year [OF assms _ 3 put [unfolded Inr]]
      have "rings_on env now db db1"
      proof -
        from put Inr obtain row where row: "ed_events db1 = ed_events db @ [row]"
          by (auto simp: insert_event_def Let_def split: option.splits if_splits sum.splits)
        moreover have "rings_ok env (now, db1, log @ rings_between env now db db1)" if ok: "rings_ok env (now, db, log)" for log
          using one [OF ok] row by (auto simp: rings_between_def)
        ultimately show ?thesis by (auto simp: rings_on_def)
      qed
      from rings_on_trans [OF this Cons] 3 put Inr show ?thesis by simp
    qed
  qed (simp_all add: Cons)
qed simp

lemma ring_all_rings:
  assumes "stamps_ordered env" "recipients_stored env"
  shows "rings_on env now db (fst (ring_all env cal now due db report))"
proof (induction due arbitrary: db report)
  case (Cons r rs)
  obtain db1 res where p: "ring_people env cal now r (dr_recipients r) db report = (db1, res)" by force
  with ring_people_rings [OF assms, of now db cal r "dr_recipients r" report] have "rings_on env now db db1" by simp
  with p Cons rings_on_trans show ?case by (cases res) (auto intro: rings_on_trans)
qed simp

lemma sweep_rings:
  assumes "stamps_ordered env" "recipients_stored env"
  shows "rings_on env now db (fst (sweep env cal now policy db))"
  unfolding sweep_def Let_def by (rule ring_all_rings [OF assms])


text \<open>
  A history of the queue with its log of rings: sweeps and retention sweeps by a clock that does not go
  back, and everything else that touches the queue.
\<close>

inductive ring_step ::
  "event_env \<Rightarrow> calendar_env \<Rightarrow> int \<times> event_db \<times> ring_log \<Rightarrow> int \<times> event_db \<times> ring_log \<Rightarrow> bool" for env cal where
  ring_sweep: "clock \<le> now \<Longrightarrow> db' = fst (sweep env cal now policy db) \<Longrightarrow>
     ring_step env cal (clock, db, log) (now, db', log @ rings_between env now db db')"
| ring_purge: "clock \<le> now \<Longrightarrow> ring_step env cal (clock, db, log) (now, fst (purge_aged_events env now db), log)"
| ring_emit: "kind \<noteq> ReminderDue \<Longrightarrow>
     ring_step env cal (clock, db, log) (clock, fst (insert_event env now kind wiki fid payload db), log)"
| ring_ack: "ring_step env cal (clock, db, log) (clock, fst (ack_events env now c ids db), log)"
| ring_poll: "ring_step env cal (clock, db, log) (clock, fst (poll_events env now sc k db), log)"
| ring_tables: "ed_events db' = ed_events db \<Longrightarrow> ring_step env cal (clock, db, log) (clock, db', log)"

lemma ring_on_record_rows:
  assumes "\<forall>r \<in> set (ed_events db). \<exists>r' \<in> set (ed_events db'). ev_kind r' = ev_kind r \<and> ev_fact_id r' = ev_fact_id r \<and>
      ev_payload r' = ev_payload r \<and> ev_created_at r' = ev_created_at r"
    and "ring_on_record env db x"
  shows "ring_on_record env db' x"
proof -
  obtain f w t where x: "x = (f, w, t)" by (cases x)
  with assms(2) obtain r where r: "r \<in> set (ed_events db)" "ev_kind r = event_kind_as_str ReminderDue"
      "ev_fact_id r = Some f" "stored_recipient env r = Some (RecipientText w)" "ev_created_at r = ee_rfc3339 env t"
    by (auto simp: ring_on_record_def)
  with assms(1) obtain r' where "r' \<in> set (ed_events db')" "ev_kind r' = ev_kind r" "ev_fact_id r' = ev_fact_id r"
      "ev_payload r' = ev_payload r" "ev_created_at r' = ev_created_at r" by blast
  moreover from this have "stored_recipient env r' = stored_recipient env r" by (simp add: stored_recipient_def)
  ultimately show ?thesis using r x unfolding ring_on_record_def by auto
qed

lemma purge_on_record:
  assumes "stamps_ordered env" "ring_on_record env db x"
  shows "ring_on_record env (fst (purge_aged_events env now db)) x \<or> snd (snd x) < now - duration_days ALREADY_RUNG_DAYS"
proof -
  obtain f w t where x: "x = (f, w, t)" by (cases x)
  with assms(2) obtain r where r: "r \<in> set (ed_events db)" "ev_kind r = event_kind_as_str ReminderDue"
      "ev_fact_id r = Some f" "stored_recipient env r = Some (RecipientText w)" "ev_created_at r = ee_rfc3339 env t"
    by (auto simp: ring_on_record_def)
  show ?thesis
  proof (cases "ee_rfc3339 env (now - duration_days ALREADY_RUNG_DAYS) \<le> ev_created_at r")
    case True
    from purge_keeps_reminders [OF r(1,2) True] r x show ?thesis by (auto simp: ring_on_record_def)
  next
    case False
    with r(5) assms(1) x show ?thesis by (simp add: stamps_ordered_def not_le)
  qed
qed

lemma ring_step_ok:
  assumes env: "stamps_ordered env" "recipients_stored env"
    and "rings_ok env s" "ring_step env cal s s'"
  shows "rings_ok env s'"
  using assms(4,3)
proof cases
  case (ring_sweep clock now db' policy db log)
  then have "rings_ok env (now, db, log)" using assms(3) rings_ok_clock by blast
  with sweep_rings [OF env] ring_sweep show ?thesis unfolding rings_on_def by blast
next
  case (ring_purge clock now db log)
  then have "rings_ok env (now, db, log)" using assms(3) rings_ok_clock by blast
  then have "rings_ok env (now, fst (purge_aged_events env now db), log)"
    by (rule rings_ok_rows) (rule purge_on_record [OF env(1)])
  with ring_purge show ?thesis by simp
next
  case (ring_emit kind clock db log now wiki fid payload)
  have "\<forall>r \<in> set (ed_events db). r \<in> set (ed_events (fst (insert_event env now kind wiki fid payload db)))"
    by (simp add: insert_event_def Let_def split: sum.splits)
  then have "ring_on_record env (fst (insert_event env now kind wiki fid payload db)) x" if "ring_on_record env db x" for x
    using that by (blast intro: ring_on_record_rows)
  then show ?thesis using assms(3) ring_emit rings_ok_rows by blast
next
  case (ring_ack clock db log now c ids)
  have "\<forall>r \<in> set (ed_events db). \<exists>r' \<in> set (ed_events (fst (ack_events env now c ids db))). ev_kind r' = ev_kind r \<and>
      ev_fact_id r' = ev_fact_id r \<and> ev_payload r' = ev_payload r \<and> ev_created_at r' = ev_created_at r"
  proof
    fix r
    assume "r \<in> set (ed_events db)"
    then have "(if ev_id r \<in> set ids then stamp_ack env now c r else r) \<in> set (ed_events (fst (ack_events env now c ids db)))"
      unfolding ack_events_table set_map by (rule imageI)
    then show "\<exists>r' \<in> set (ed_events (fst (ack_events env now c ids db))). ev_kind r' = ev_kind r \<and>
      ev_fact_id r' = ev_fact_id r \<and> ev_payload r' = ev_payload r \<and> ev_created_at r' = ev_created_at r"
      by (rule bexI [rotated]) simp
  qed
  then have "ring_on_record env (fst (ack_events env now c ids db)) x" if "ring_on_record env db x" for x
    using that by (rule ring_on_record_rows)
  then show ?thesis using assms(3) ring_ack rings_ok_rows by blast
next
  case (ring_poll clock db log now sc k)
  then have "ring_on_record env (fst (poll_events env now sc k db)) x = ring_on_record env db x" for x
    by (simp add: ring_on_record_def)
  then show ?thesis using assms(3) ring_poll rings_ok_rows by blast
next
  case (ring_tables db' db clock log)
  then have "ring_on_record env db' x = ring_on_record env db x" for x
    by (simp add: ring_on_record_def)
  then show ?thesis using assms(3) ring_tables rings_ok_rows by blast
qed

interpretation ringing: stepping "ring_step env cal"
  "\<lambda>s. stamps_ordered env \<and> recipients_stored env \<and> rings_ok env s" for env cal
  by unfold_locales (blast intro: ring_step_ok)

text \<open>
  C14: A commitment rings each of its people at most once a year. Over any history of sweeps, retention sweeps
  and other writes of the queue, by a clock that does not go back, two notices \<open>reminder_due\<close> about one
  fact for one person are more than a year apart: the row the probe reads is never purged too soon.
\<close>

theorem rings_once_a_year:
  assumes "stamps_ordered env" "recipients_stored env"
    and "(ring_step env cal)\<^sup>*\<^sup>* (clock, db, []) (clock', db', log)"
  shows "sorted_wrt (\<lambda>(f, w, t) (f', w', t'). f = f' \<and> w = w' \<longrightarrow> t + duration_days ALREADY_RUNG_DAYS < t') log"
proof -
  have "stamps_ordered env \<and> recipients_stored env \<and> rings_ok env (clock, db, [])"
    using assms(1,2) by (simp add: rings_ok_def)
  from ringing.reachable_keeps [OF assms(3) this] have "sorted_wrt a_year_apart log"
    by (auto simp: rings_ok_def)
  then show ?thesis
    by (rule sorted_wrt_mono_rel [rotated]) (auto simp: a_year_apart_def)
qed

section \<open>Every due commitment rings\<close>

lemma ring_people_appends:
  "\<exists>rows. ed_events (fst (ring_people env cal now r people db report)) = ed_events db @ rows"
proof (induction env cal now r people db report rule: ring_people.induct)
  case (2 env cal now r who people db report)
  have "\<exists>rows. ed_events db' = ed_events db @ rows" if "insert_event env now k w f p db = (db', res)" for k w f p db' res
    using that by (auto simp: insert_event_def Let_def split: option.splits if_splits sum.splits)
  with 2 show ?case
    by (auto split: sum.splits prod.splits) (metis append.assoc)
qed simp

text \<open>What the sweep leaves behind for a person it went over: a notice on record.\<close>

definition on_record :: "event_env \<Rightarrow> event_db \<Rightarrow> fact_id \<Rightarrow> string \<Rightarrow> bool" where
  "on_record env db f who \<longleftrightarrow>
     (\<exists>r \<in> set (ed_events db). ev_kind r = event_kind_as_str ReminderDue \<and>
        ev_fact_id r = Some (fact_id_str f) \<and> stored_recipient env r = Some (RecipientText who))"


lemma on_record_append: "on_record env db f who \<Longrightarrow> ed_events db' = ed_events db @ rows \<Longrightarrow> on_record env db' f who"
  by (auto simp: on_record_def)

lemma on_record_rings_on: "on_record env db f who \<Longrightarrow> rings_on env now db db' \<Longrightarrow> on_record env db' f who"
  using on_record_append by (auto simp: rings_on_def)

lemma ring_people_reaches:
  assumes "stamps_ordered env" "recipients_stored env"
    and "ring_people env cal now r people db report = (db', Inr report')" "who \<in> set people"
  shows "on_record env db' (dr_fact_id r) who"
  using assms(3,4)
proof (induction people arbitrary: db report)
  case (Cons p people)
  let ?f = "fact_id_str (dr_fact_id r)"
  let ?probe = "find_recent_event_for_recipient env now ReminderDue ?f (Some p) (duration_days ALREADY_RUNG_DAYS) db"
  from Cons.prems(1) consider "?probe = Inr True" | "?probe = Inr False"
    by (cases ?probe) auto
  then show ?case
  proof cases
    case 1
    then have here: "on_record env db (dr_fact_id r) p"
      by (auto simp: find_recent_event_for_recipient_def Let_def list_ex_iff on_record_def split: if_splits)
    from 1 Cons.prems(1) obtain report1 where rest: "ring_people env cal now r people db report1 = (db', Inr report')"
      by auto
    from ring_people_rings [OF assms(1,2), of now db cal r people report1] rest
    have "rings_on env now db db'" by simp
    with here on_record_rings_on Cons.IH [OF rest] Cons.prems(2) show ?thesis by auto
  next
    case 2
    obtain db1 res where put: "insert_event env now ReminderDue (Some (dr_wiki_id r)) (Some ?f) (reminder_payload cal r p) db
        = (db1, res)" by force
    with 2 Cons.prems(1) obtain i report1 where res: "res = Inr i"
        and rest: "ring_people env cal now r people db1 report1 = (db', Inr report')"
      by (cases res) auto
    from put res obtain row where row: "ed_events db1 = ed_events db @ [row]" "ev_kind row = event_kind_as_str ReminderDue"
        "ev_fact_id row = Some ?f" "ev_payload row = Some (ee_serialize env (reminder_payload cal r p))"
      by (auto simp: insert_event_def Let_def reminder_payload_def json_get_str_def split: if_splits)
    have "json_recipient (reminder_payload cal r p) = RecipientText p"
      by (simp add: json_recipient_def reminder_payload_def)
    with assms(2) row(4) have "stored_recipient env row = Some (RecipientText p)"
      unfolding recipients_stored_def stored_recipient_def by (metis option.simps(5))
    with row have here: "on_record env db1 (dr_fact_id r) p" by (auto simp: on_record_def)
    from ring_people_rings [OF assms(1,2), of now db1 cal r people report1] rest
    have "rings_on env now db1 db'" by simp
    with here on_record_rings_on Cons.IH [OF rest] Cons.prems(2) show ?thesis by auto
  qed
qed simp

lemma ring_all_reaches:
  assumes "stamps_ordered env" "recipients_stored env"
    and "ring_all env cal now due db report = (db', Inr report')" "r \<in> set due" "who \<in> set (dr_recipients r)"
  shows "on_record env db' (dr_fact_id r) who"
  using assms(3,4)
proof (induction due arbitrary: db report)
  case (Cons d due)
  from Cons.prems(1) obtain db1 report1 where
      first: "ring_people env cal now d (dr_recipients d) db report = (db1, Inr report1)"
      and rest: "ring_all env cal now due db1 report1 = (db', Inr report')"
    by (auto split: prod.splits sum.splits)
  show ?case
  proof (cases "r = d")
    case True
    with ring_people_reaches [OF assms(1,2) first] assms(5) have "on_record env db1 (dr_fact_id r) who" by simp
    moreover have "rings_on env now db1 db'"
      using ring_all_rings [OF assms(1,2), of now db1 cal due report1] rest by simp
    ultimately show ?thesis by (rule on_record_rings_on)
  next
    case False
    with Cons.prems(2) Cons.IH [OF rest] show ?thesis by simp
  qed
qed simp

text \<open>Below the cap, the due commitments are exactly the rows that pass the test.\<close>

lemma due_loop_all:
  assumes "length due + length (List.map_filter (due_reminder_of cal db now policy) rows) \<le> rp_cap policy"
  shows "due_loop cal db now policy rows due = due @ List.map_filter (due_reminder_of cal db now policy) rows"
  using assms
proof (induction rows arbitrary: due)
  case (Cons row rows)
  show ?case
  proof (cases "due_reminder_of cal db now policy row")
    case None
    show ?thesis
    proof (cases "rp_cap policy \<le> length due")
      case True
      from Cons.prems None
      have "length due + length (List.map_filter (due_reminder_of cal db now policy) rows) \<le> rp_cap policy" by simp
      with True have "length (List.map_filter (due_reminder_of cal db now policy) rows) = 0" by linarith
      with True None show ?thesis by simp
    next
      case False
      with None Cons show ?thesis by simp
    qed
  next
    case (Some d)
    with Cons.prems have "\<not> rp_cap policy \<le> length due" by simp
    with Some Cons.IH [of "due @ [d]"] Cons.prems show ?thesis by simp
  qed
qed (simp add: map_filter_simps)

definition candidates :: "calendar_env \<Rightarrow> int \<Rightarrow> fact_table \<Rightarrow> fact_row list" where
  "candidates cal now tab =
     find_due_between (rc_secs cal (now - duration_hours CANDIDATE_WINDOW_HOURS))
       (rc_secs cal (now + duration_hours CANDIDATE_WINDOW_HOURS)) 0 tab"

text \<open>A commitment that is due now: an open plan whose firing instant has just passed.\<close>

definition comes_due :: "calendar_env \<Rightarrow> int \<Rightarrow> reminder_policy \<Rightarrow> fact_row \<Rightarrow> bool" where
  "comes_due cal now policy row \<longleftrightarrow>
     fr_fact_type row = Some PLAN \<and> fr_decay_reason row = None \<and>
     (\<exists>v t. fr_valid_to row = Some v \<and> rc_parse cal v = Some t \<and>
        now - rp_grace policy < firing_instant t policy \<and> firing_instant t policy \<le> now)"

lemma due_reminder_of_comes_due:
  assumes "comes_due cal now policy row" "who \<in> set (people_to_ring db row)"
  obtains d where "due_reminder_of cal db now policy row = Some d" "dr_fact_id d = fr_fact_id row"
    "dr_recipients d = people_to_ring db row"
proof -
  from assms(2) have "people_to_ring db row \<noteq> []" by auto
  with assms(1) obtain d where "due_reminder_of cal db now policy row = Some d"
      "dr_fact_id d = fr_fact_id row" "dr_recipients d = people_to_ring db row"
    by (auto simp: comes_due_def due_reminder_of_def Let_def)
  then show thesis by (rule that)
qed

text \<open>
  C28: No due commitment is missed below the cap: after a sweep that did not fail, every open plan in the
  candidate window whose firing instant lies within the grace has a notice on record for each of the people
  it rings for.
\<close>

theorem due_commitments_ring:
  assumes "stamps_ordered env" "recipients_stored env" "rp_enabled policy"
    and "length (List.map_filter (due_reminder_of cal db now policy) (candidates cal now (ed_facts db))) \<le> rp_cap policy"
    and "row \<in> set (candidates cal now (ed_facts db))" "comes_due cal now policy row"
    and "who \<in> set (people_to_ring db row)"
    and "sweep env cal now policy db = (db', Inr report)"
  shows "on_record env db' (fr_fact_id row) who"
proof -
  obtain d where d: "due_reminder_of cal db now policy row = Some d" "dr_fact_id d = fr_fact_id row"
      "dr_recipients d = people_to_ring db row"
    using due_reminder_of_comes_due [OF assms(6,7)] .
  have due: "due_now cal now policy db = List.map_filter (due_reminder_of cal db now policy) (candidates cal now (ed_facts db))"
    using assms(3) due_loop_all [of "[]", simplified, OF assms(4)]
    by (simp add: due_now_def candidates_def Let_def)
  have "d \<in> set (due_now cal now policy db)"
    unfolding due List.map_filter_def using assms(5) d(1) by (simp add: image_iff) (metis option.sel)
  with ring_all_reaches [OF assms(1,2), of cal now "due_now cal now policy db" db _ db' report d who]
    assms(7,8) d show ?thesis
    by (simp add: sweep_def Let_def)
qed


section \<open>The firing instant\<close>

text \<open>A date without an hour fires on its own day; a stated instant fires the lead before it.\<close>

lemma second_of_day_range: "0 \<le> second_of_day t \<and> second_of_day t < 86400"
  by (simp add: second_of_day_def)

lemma midnight_bounds: "midnight_of t \<le> t \<and> t < midnight_of t + duration_hours 24"
proof -
  have "t = t div 1000000000 * 1000000000 + t mod 1000000000" "0 \<le> t mod 1000000000" "t mod 1000000000 < 1000000000"
    by simp_all
  then have "t div 1000000000 * 1000000000 \<le> t" "t < t div 1000000000 * 1000000000 + 1000000000"
    by linarith+
  moreover have "midnight_of t = t div 1000000000 * 1000000000 - second_of_day t * 1000000000"
    by (simp add: midnight_of_def duration_seconds_def timestamp_def)
  moreover have "duration_hours 24 = 86400 * 1000000000"
    by (simp add: duration_hours_def duration_seconds_def)
  ultimately show ?thesis
    using second_of_day_range [of t] by linarith
qed

text \<open>
  The candidate window is wide enough: with a lead of at most two days and a grace of at most one, every
  instant whose firing instant is due now lies within the 48 hours the query reaches either way.
\<close>

lemma window_reaches_the_due:
  assumes "0 \<le> rp_lead policy" "rp_lead policy \<le> duration_hours 48" "rp_grace policy \<le> duration_hours 24"
    and "now - rp_grace policy < firing_instant t policy" "firing_instant t policy \<le> now"
  shows "now - duration_hours CANDIDATE_WINDOW_HOURS \<le> t \<and> t \<le> now + duration_hours CANDIDATE_WINDOW_HOURS"
  using midnight_bounds [of t] assms
  by (auto simp: firing_instant_def duration_hours_def duration_seconds_def CANDIDATE_WINDOW_HOURS_def split: if_splits)

text \<open>With a longer lead a stated instant is past the window when it should ring, and never rings.\<close>

lemma long_lead_never_rings:
  assumes "duration_hours CANDIDATE_WINDOW_HOURS < rp_lead policy - rp_grace policy"
    and "hms t \<noteq> (0, 0, 0)" "hms t \<noteq> (23, 59, 59)"
    and "t \<le> now + duration_hours CANDIDATE_WINDOW_HOURS"
  shows "\<not> now - rp_grace policy < firing_instant t policy"
  using assms by (auto simp: firing_instant_def)

section \<open>Who is rung\<close>

lemma set_push_wire [simp]: "set (push_wire i out) = insert (''user:'' @ i) (set out)"
  by (auto simp: push_wire_def Let_def)

definition named_people :: "enrollment_group list \<Rightarrow> principal \<Rightarrow> string set" where
  "named_people groups p = (case p of User i \<Rightarrow> {i} | Group g \<Rightarrow> set (members_for groups g))"

lemma set_open_principal:
  "set (open_principal groups p out) = set out \<union> (@) ''user:'' ` named_people groups p"
proof (cases p)
  case (Group g)
  have "set (foldl (\<lambda>out m. push_wire m out) out ms) = set out \<union> (@) ''user:'' ` set ms" for ms
    by (induction ms arbitrary: out) auto
  with Group show ?thesis by (simp add: named_people_def)
qed (simp add: named_people_def)

lemma set_open_principals:
  "set (foldl (\<lambda>out p. open_principal groups p out) out ps) =
     set out \<union> (@) ''user:'' ` (\<Union>p \<in> set ps. named_people groups p)"
  by (induction ps arbitrary: out) (auto simp: set_open_principal)

lemma people_to_ring_iff:
  "''user:'' @ u \<in> set (people_to_ring db row) \<longleftrightarrow>
     \<not> is_agent (ed_agents db) u \<and>
     (\<exists>p \<in> set (fr_subject_id row # fr_allow_ids row). u \<in> named_people (ed_groups db) p)"
proof -
  have "''user:'' @ u \<in> (@) ''user:'' ` S \<longleftrightarrow> u \<in> S" for S by auto
  moreover have "strip_prefix ''user:'' (''user:'' @ u) = Some u" by simp
  ultimately show ?thesis
    unfolding people_to_ring_def Let_def set_filter set_open_principals mem_Collect_eq by simp blast
qed

text \<open>
  A reminder goes to people the fact was given to: whoever it rings for is no agent and may read the
  fact, unless the fact excludes them by name or by a group of theirs.
\<close>

lemma rings_only_the_granted:
  assumes "''user:'' @ u \<in> set (people_to_ring db row)" "u \<noteq> []"
  shows "\<not> is_agent (ed_agents db) u \<and>
     (row_readable_by row u (groups_for (ed_groups db) u) \<or>
      list_ex (\<lambda>p. principal_matches p u (groups_for (ed_groups db) u)) (fr_excluded_ids row))"
proof -
  from assms(1) obtain p where agent: "\<not> is_agent (ed_agents db) u" and p: "p \<in> set (fr_subject_id row # fr_allow_ids row)"
      "u \<in> named_people (ed_groups db) p"
    unfolding people_to_ring_iff by blast
  have "principal_matches p u (groups_for (ed_groups db) u)"
    using p(2) assms(2) enrolled.membership [of u]
    by (cases p) (auto simp: list_ex_iff named_people_def members_for_def split: if_splits)
  with p(1) have "row_readable_by row u (groups_for (ed_groups db) u) \<or>
      list_ex (\<lambda>p. principal_matches p u (groups_for (ed_groups db) u)) (fr_excluded_ids row)"
    by (auto simp: row_readable_by_def can_read_def row_acl_def list_ex_iff opt_list_def)
  with agent show ?thesis by simp
qed


text \<open>The exclusion is not asked: a person the fact excludes is sent its body.\<close>

lemma excluded_person_is_rung:
  assumes "fr_subject_id row = User ''anna''" "fr_allow_ids row = [Group ''family'']"
    and "fr_excluded_ids row = [User ''bob'']" "ed_agents db = []"
    and "ed_groups db = [\<lparr>eg_id = ''family'', eg_members = [''anna'', ''bob''], eg_scope = None\<rparr>]"
  shows "''user:bob'' \<in> set (people_to_ring db row)"
    and "\<not> row_readable_by row ''bob'' (groups_for (ed_groups db) ''bob'')"
proof -
  show "''user:bob'' \<in> set (people_to_ring db row)"
    using people_to_ring_iff [of "''bob''" db row] assms
    by (simp add: named_people_def members_for_def is_agent_def)
  show "\<not> row_readable_by row ''bob'' (groups_for (ed_groups db) ''bob'')"
    using assms(3) by (simp add: row_readable_by_def can_read_def row_acl_def)
qed

text \<open>
  The cap counts commitments that have rung already: as many of them as the cap, earlier in the window, and
  a commitment behind them is not even looked at.
\<close>

lemma rung_ones_fill_the_cap:
  assumes "\<forall>row \<in> set rows. due_reminder_of cal db now policy row \<noteq> None" "rp_cap policy \<le> length rows"
  shows "due_loop cal db now policy (rows @ later) [] = map (the \<circ> due_reminder_of cal db now policy) (take (rp_cap policy) rows)"
proof -
  have "due_loop cal db now policy (rows @ later) due =
      due @ map (the \<circ> due_reminder_of cal db now policy) (take (rp_cap policy - length due) rows)"
    if "\<forall>row \<in> set rows. due_reminder_of cal db now policy row \<noteq> None" "rp_cap policy \<le> length due + length rows"
      "length due \<le> rp_cap policy" for rows due
    using that
  proof (induction rows arbitrary: due)
    case Nil
    then show ?case by (cases later) simp_all
  next
    case (Cons row rows)
    then obtain d where d: "due_reminder_of cal db now policy row = Some d" by auto
    show ?case
    proof (cases "rp_cap policy \<le> length due")
      case False
      with Cons.prems have "Suc (length due) \<le> rp_cap policy" by simp
      with d False Cons.IH [of "due @ [d]"] Cons.prems show ?thesis
        by (simp add: take_Cons' Suc_diff_Suc)
    qed simp
  qed
  from this [of rows "[]"] assms show ?thesis by simp
qed

text \<open>A configured lead that is no \<open>Duration\<close> stops the process.\<close>

lemma huge_lead_panics: "9223372036854775 < rm_lead_secs c \<Longrightarrow> reminders_policy c = None"
  by (simp add: reminders_policy_def chrono_seconds_def saturated_i64_def min_def)

section \<open>A commitment for the examples\<close>

text \<open>Stamps as tally marks: shorter negatives and longer positives come later.\<close>

definition tally_stamp :: "int \<Rightarrow> string" where
  "tally_stamp t = (if 0 \<le> t then CHR ''b'' # replicate (nat t) CHR ''a''
                    else replicate (nat (- t)) CHR ''a'' @ ''b'')"

lemma replicate_less: "replicate m c < replicate n c \<longleftrightarrow> m < n" for c :: char
proof (induction m arbitrary: n)
  case 0
  then show ?case by (cases n) simp_all
next
  case (Suc m)
  then show ?case by (cases n) simp_all
qed

lemma replicate_end_less: "replicate m CHR ''a'' @ ''b'' < replicate n CHR ''a'' @ ''b'' \<longleftrightarrow> n < m"
proof (induction m arbitrary: n)
  case 0
  then show ?case by (cases n) (simp_all add: less_char_def)
next
  case (Suc m)
  then show ?case by (cases n) (simp_all add: less_char_def)
qed

lemma tally_stamp_less: "tally_stamp t < tally_stamp t' \<longleftrightarrow> t < t'"
proof -
  have neg: "replicate (nat (- s)) CHR ''a'' @ ''b'' < CHR ''b'' # x"
    "\<not> CHR ''b'' # x < replicate (nat (- s)) CHR ''a'' @ ''b''" if "\<not> 0 \<le> s" for s x
    using that by (cases "nat (- s)"; simp add: less_char_def)+
  show ?thesis
    using neg replicate_end_less replicate_less
    by (cases "0 \<le> t"; cases "0 \<le> t'") (auto simp: tally_stamp_def)
qed

definition tally_event_env :: event_env where
  "tally_event_env =
     \<lparr>ee_serialize = (\<lambda>v. case json_recipient v of NoRecipient \<Rightarrow> ''n'' | RecipientText s \<Rightarrow> CHR ''t'' # s | RecipientOther \<Rightarrow> ''o''),
      ee_parse = (\<lambda>_. None),
      ee_sqlite = (\<lambda>t. if t = ''n'' then Some (JObj [])
         else if t = ''o'' then Some (JObj [(''recipient_id'', JBool True)])
         else case t of c # s \<Rightarrow> Some (JObj [(''recipient_id'', JStr s)]) | [] \<Rightarrow> None),
      ee_labels = (\<lambda>c. [c]), ee_rfc3339 = tally_stamp\<rparr>"

lemma tally_event_env_ok: "stamps_ordered tally_event_env" "recipients_stored tally_event_env"
  by (auto simp: stamps_ordered_def recipients_stored_def tally_event_env_def tally_stamp_less
      json_recipient_def split: recipient.splits option.splits json.splits)


definition dentist :: fact_row where
  "dentist = row_of_new_fact ''c''
     \<lparr>nf_fact_id = FactId ''d'', nf_wiki_id = ''anna'', nf_source_path = ''wikis/anna/plans.md'',
      nf_region_start = None, nf_region_end = None, nf_text = ''dentist'', nf_embedding = [],
      nf_subject_id = User ''anna'', nf_allow_ids = [Group ''family''], nf_excluded_ids = [],
      nf_sender_id = None, nf_fact_type = Some ''plan'', nf_topics = [], nf_valid_from = None,
      nf_valid_to = Some ''m'', nf_salience = None, nf_target_page = None, nf_style = None, nf_source_ref = None,
      nf_authored_refs = [], nf_subject_external = None, nf_slot = None, nf_slot_value = None\<rparr>"

definition sample_calendar :: calendar_env where
  "sample_calendar =
     \<lparr>rc_parse = (\<lambda>v. if v = ''m'' then Some (duration_seconds 100) else None),
      rc_secs = (\<lambda>t. if t < duration_seconds 100 then ''a'' else ''z'')\<rparr>"

definition dentist_db :: event_db where
  "dentist_db = empty_event_db\<lparr>ed_facts := [dentist],
     ed_groups := [\<lparr>eg_id = ''family'', eg_members = [''samwise''], eg_scope = None\<rparr>]\<rparr>"

definition dentist_due :: due_reminder where
  "dentist_due = \<lparr>dr_fact_id = FactId ''d'', dr_wiki_id = ''anna'', dr_recipients = [''user:anna''],
     dr_body = ''dentist'', dr_due_at = ''m'', dr_fires_at = duration_seconds 100\<rparr>"

lemma dentist_candidates:
  "candidates sample_calendar (duration_seconds 101) (ed_facts dentist_db) = [dentist]"
  "due_reminder_of sample_calendar dentist_db (duration_seconds 101) default_reminder_policy dentist = Some dentist_due"
  "people_to_ring dentist_db dentist = [''user:anna'']"
  by code_simp+

lemma dentist_due_now: "due_now sample_calendar (duration_seconds 101) default_reminder_policy dentist_db = [dentist_due]"
  using dentist_candidates due_loop_all [of "[]" sample_calendar dentist_db "duration_seconds 101" default_reminder_policy "[dentist]"]
  by (simp add: due_now_def candidates_def Let_def default_reminder_policy_def)

definition dentist_row :: event_row where
  "dentist_row = \<lparr>ev_id = 1, ev_kind = ''reminder_due'', ev_wiki_id = Some ''anna'', ev_fact_id = Some ''d'',
     ev_payload = Some ''tuser:anna'', ev_created_at = tally_stamp (duration_seconds 101), ev_acks = JObj []\<rparr>"

lemma dentist_sweep:
  "\<exists>report. sweep tally_event_env sample_calendar (duration_seconds 101) default_reminder_policy dentist_db =
     (dentist_db\<lparr>ed_events := [dentist_row], ed_next_id := 2\<rparr>, Inr report)"
  unfolding sweep_def Let_def dentist_due_now
  by (simp add: dentist_due_def find_recent_event_for_recipient_def Let_def dentist_db_def empty_event_db_def
      insert_event_def reminder_payload_def json_get_str_def canonical_addressee_def principal_from_str_def
      json_recipient_def tally_event_env_def dentist_row_def)

theorem rings_once_a_year_witness:
  "\<exists>log db'. log = [(''d'', ''user:anna'', duration_seconds 101)] \<and>
     (ring_step tally_event_env sample_calendar)\<^sup>*\<^sup>* (0, dentist_db, []) (duration_seconds 101, db', log) \<and>
     sorted_wrt (\<lambda>(f, w, t) (f', w', t'). \<not> (f = f' \<and> w = w' \<and> t' \<le> t + duration_days ALREADY_RUNG_DAYS)) log"
proof -
  let ?db = "dentist_db\<lparr>ed_events := [dentist_row], ed_next_id := 2\<rparr>" and ?now = "duration_seconds 101"
  obtain report where s: "sweep tally_event_env sample_calendar ?now default_reminder_policy dentist_db = (?db, Inr report)"
    using dentist_sweep by blast
  have "stored_recipient tally_event_env dentist_row = Some (RecipientText ''user:anna'')"
    by (simp add: stored_recipient_def dentist_row_def tally_event_env_def json_recipient_def)
  then have log: "rings_between tally_event_env ?now dentist_db ?db = [(''d'', ''user:anna'', ?now)]"
    by (simp add: rings_between_def dentist_db_def empty_event_db_def rung_entry_def dentist_row_def)
  have "ring_step tally_event_env sample_calendar (0, dentist_db, []) (?now, ?db, [] @ rings_between tally_event_env ?now dentist_db ?db)"
  proof (rule ring_sweep)
    show "?db = fst (sweep tally_event_env sample_calendar ?now default_reminder_policy dentist_db)"
      unfolding s by simp
  qed (simp add: duration_seconds_def)
  then have run: "(ring_step tally_event_env sample_calendar)\<^sup>*\<^sup>* (0, dentist_db, []) (?now, ?db, [(''d'', ''user:anna'', ?now)])"
    unfolding log by (simp add: r_into_rtranclp)
  from rings_once_a_year [OF tally_event_env_ok run]
  have "sorted_wrt (\<lambda>(f, w, t) (f', w', t'). \<not> (f = f' \<and> w = w' \<and> t' \<le> t + duration_days ALREADY_RUNG_DAYS))
      [(''d'', ''user:anna'', ?now)]"
    by simp
  with run show ?thesis by blast
qed

theorem due_commitments_ring_witness:
  "\<exists>db' report. sweep tally_event_env sample_calendar (duration_seconds 101) default_reminder_policy dentist_db = (db', Inr report) \<and>
     on_record tally_event_env db' (FactId ''d'') ''user:anna''"
proof -
  obtain db' report where s: "sweep tally_event_env sample_calendar (duration_seconds 101) default_reminder_policy dentist_db = (db', Inr report)"
    using dentist_sweep by blast
  have "comes_due sample_calendar (duration_seconds 101) default_reminder_policy dentist"
    by (simp add: comes_due_def dentist_def row_of_new_fact_def PLAN_def sample_calendar_def default_reminder_policy_def
        firing_instant_def hms_def second_of_day_def timestamp_def duration_seconds_def duration_hours_def)
  moreover have "dentist \<in> set (candidates sample_calendar (duration_seconds 101) (ed_facts dentist_db))"
    by (simp add: dentist_candidates)
  moreover have "''user:anna'' \<in> set (people_to_ring dentist_db dentist)"
    by (simp add: dentist_candidates)
  moreover have "rp_enabled default_reminder_policy" by (simp add: default_reminder_policy_def)
  moreover have "length (List.map_filter (due_reminder_of sample_calendar dentist_db (duration_seconds 101) default_reminder_policy)
      (candidates sample_calendar (duration_seconds 101) (ed_facts dentist_db))) \<le> rp_cap default_reminder_policy"
    unfolding dentist_candidates(1) by (simp add: dentist_candidates(2) map_filter_simps) (simp add: default_reminder_policy_def)
  ultimately have "on_record tally_event_env db' (fr_fact_id dentist) ''user:anna''"
    using due_commitments_ring [OF tally_event_env_ok _ _ _ _ _ s] by blast
  with s show ?thesis by (auto simp: dentist_def row_of_new_fact_def)
qed

lemma window_reaches_the_due_witness:
  "- duration_hours 48 \<le> duration_hours 17 \<and> firing_instant (duration_hours 24) default_reminder_policy = duration_hours 31"
proof -
  have fires: "firing_instant (duration_hours 24) default_reminder_policy = duration_hours 31"
    by (simp add: firing_instant_def hms_def second_of_day_def midnight_of_def timestamp_def duration_seconds_def
        duration_hours_def default_reminder_policy_def)
  from window_reaches_the_due [of default_reminder_policy "duration_hours 31" "duration_hours 24"] fires
  have "duration_hours 31 - duration_hours CANDIDATE_WINDOW_HOURS \<le> duration_hours 24"
    by (simp add: default_reminder_policy_def duration_hours_def duration_seconds_def)
  with fires show ?thesis
    by (simp add: CANDIDATE_WINDOW_HOURS_def duration_hours_def duration_seconds_def)
qed

lemma rings_only_the_granted_witness:
  "row_readable_by dentist ''anna'' (groups_for (ed_groups dentist_db) ''anna'')"
proof -
  have "''user:'' @ ''anna'' \<in> set (people_to_ring dentist_db dentist)"
    by (simp add: dentist_candidates)
  from rings_only_the_granted [OF this]
  show ?thesis by (simp add: dentist_def row_of_new_fact_def)
qed


end
