(* ===== verification/Mwe_Similarity.thy ===== *)
theory Mwe_Similarity
  imports Mwe_Prelude "HOL-Library.Log_Nat"
begin

text \<open>
  How close two claims are (\<open>crates/mwe-core/src/recall.rs\<close>, the n-gram fingerprint every fold compares
  with): the set of 6-character windows of the normalised text, and the Jaccard ratio of two such sets
  in single precision. \<open>str::to_lowercase\<close> is the parameter \<open>lower\<close> (the Unicode case tables); the
  arithmetic of \<open>f32\<close> is written out: the nearest number with a 24-bit significand, ties to even.
  A number \<open>f32\<close> can hold is the rational it stands for.
\<close>

section \<open>Single precision\<close>

definition round_even :: "rat \<Rightarrow> int" where
  "round_even q =
     (let n = \<lfloor>q\<rfloor>; r = q - of_int n
      in if r < 1/2 then n else if 1/2 < r then n + 1 else if even n then n else n + 1)"

text \<open>The binary exponent: the \<open>k\<close> with \<open>2\<^sup>k\<^sup>-\<^sup>1 \<le> q < 2\<^sup>k\<close>.\<close>

definition binary_exponent :: "rat \<Rightarrow> int" where
  "binary_exponent q =
     (if 1 \<le> q then int (floorlog 2 (nat \<lfloor>q\<rfloor>)) else 1 - int (floorlog 2 (nat (\<lceil>1/q\<rceil> - 1))))"

definition f32_round :: "rat \<Rightarrow> rat" where
  "f32_round q =
     (if q \<le> 0 then 0
      else let s = 24 - binary_exponent q in of_int (round_even (q * 2 powi s)) / 2 powi s)"

lemma round_even_mono: "p \<le> q \<Longrightarrow> round_even p \<le> round_even q"
proof -
  assume le: "p \<le> q"
  show ?thesis
  proof (cases "\<lfloor>p\<rfloor> = \<lfloor>q\<rfloor>")
    case True
    then show ?thesis using le by (auto simp: round_even_def Let_def)
  next
    case False
    then have "\<lfloor>p\<rfloor> + 1 \<le> \<lfloor>q\<rfloor>" using floor_mono [OF le] by linarith
    then show ?thesis by (simp add: round_even_def Let_def)
  qed
qed

lemma round_even_of_int [simp]: "round_even (of_int n) = n"
  by (simp add: round_even_def)

lemma binary_exponent_bounds:
  assumes "0 < q"
  shows "2 powi (binary_exponent q - 1) \<le> q" "q < 2 powi binary_exponent q"
proof -
  have "2 powi (binary_exponent q - 1) \<le> q \<and> q < 2 powi binary_exponent q"
  proof (cases "1 \<le> q")
    case True
    define n k where "n = nat \<lfloor>q\<rfloor>" and "k = floorlog 2 n"
    have n: "0 < n" "of_nat n \<le> q" "q < of_nat n + 1"
    proof -
      have "1 \<le> \<lfloor>q\<rfloor>" using True by simp
      then have "of_nat n = (of_int \<lfloor>q\<rfloor> :: rat)" "0 < n" by (simp_all add: n_def)
      then show "0 < n" "of_nat n \<le> q" "q < of_nat n + 1" using floor_correct [of q] by simp_all
    qed
    have b: "2 ^ (k - 1) \<le> n" "n < 2 ^ k"
      using floorlog_bounds [of n 2] n(1) by (simp_all add: k_def)
    have k: "0 < k" unfolding k_def using n(1) floorlog_geI [of 2 1 n] by simp
    have "(2::rat) ^ (k - 1) \<le> of_nat n" using b(1) by (metis of_nat_le_iff of_nat_numeral of_nat_power)
    with n(2) have "(2::rat) ^ (k - 1) \<le> q" by linarith
    moreover have "of_nat n + 1 \<le> (2::rat) ^ k"
      using b(2) by (metis Suc_leI of_nat_Suc of_nat_le_iff of_nat_numeral of_nat_power add.commute)
    with n(3) have "q < 2 ^ k" by linarith
    moreover note this
    moreover have "binary_exponent q = int k" using True by (simp add: binary_exponent_def k_def n_def)
    moreover have "int k - 1 = int (k - 1)" using k by simp
    ultimately show ?thesis by (simp add: power_int_of_nat del: of_nat_diff)
  next
    case False
    define n k where "n = nat (\<lceil>1/q\<rceil> - 1)" and "k = floorlog 2 n"
    have "1 < 1/q" using False assms by (simp add: field_simps)
    then have n: "0 < n" "of_nat n < 1/q" "1/q \<le> of_nat n + 1"
    proof -
      have c: "2 \<le> \<lceil>1/q\<rceil>" using \<open>1 < 1/q\<close> by (simp add: le_ceiling_iff)
      then have i: "int n = \<lceil>1/q\<rceil> - 1" unfolding n_def by linarith
      then have "of_nat n = (of_int \<lceil>1/q\<rceil> - 1 :: rat)" by (metis of_int_diff of_int_1 of_int_of_nat_eq)
      moreover have "0 < n" using i c by linarith
      ultimately show "0 < n" "of_nat n < 1/q" "1/q \<le> of_nat n + 1"
        using ceiling_correct [of "1/q"] by simp_all
    qed
    have b: "2 ^ (k - 1) \<le> n" "n < 2 ^ k"
      using floorlog_bounds [of n 2] n(1) by (simp_all add: k_def)
    have k: "0 < k" unfolding k_def using n(1) floorlog_geI [of 2 1 n] by simp
    have lo: "(2::rat) ^ (k - 1) < 1/q"
      using b(1) n(2) by (metis of_nat_le_iff of_nat_numeral of_nat_power le_less_trans)
    have "of_nat n + 1 \<le> (2::rat) ^ k"
      using b(2) by (metis Suc_leI of_nat_Suc of_nat_le_iff of_nat_numeral of_nat_power add.commute)
    then have hi: "1/q \<le> 2 ^ k" using n(3) by simp
    have e: "binary_exponent q = 1 - int k" using False by (simp add: binary_exponent_def k_def n_def)
    have "1 - int k = - int (k - 1)" using k by simp
    then have "2 powi (binary_exponent q) = 1 / (2::rat) ^ (k - 1)"
      by (simp only: e) (simp add: power_int_minus divide_inverse power_int_of_nat del: of_nat_diff)
    moreover have "2 powi (binary_exponent q - 1) = 1 / (2::rat) ^ k"
      by (simp add: e power_int_minus divide_inverse power_int_of_nat)
    moreover have "q < 1 / 2 ^ (k - 1)" "1 / 2 ^ k \<le> q" using lo hi assms by (simp_all add: field_simps)
    ultimately show ?thesis by (simp only: conj_commute)
  qed
  then show "2 powi (binary_exponent q - 1) \<le> q" "q < 2 powi binary_exponent q" by auto
qed

lemma powi_add_cancel: "(2::rat) powi a * 2 powi b = 2 powi (a + b)"
  by (simp add: power_int_add)

lemma f32_round_bounds:
  assumes "0 < q"
  shows "2 powi (binary_exponent q - 1) \<le> f32_round q" "f32_round q \<le> 2 powi binary_exponent q"
proof -
  define k s where "k = binary_exponent q" and "s = 24 - k"
  have pos: "(0::rat) < 2 powi s" by simp
  have "2 powi (k - 1) * 2 powi s \<le> q * 2 powi s" "q * 2 powi s \<le> 2 powi k * 2 powi s"
    using binary_exponent_bounds [OF assms] by (simp_all add: k_def)
  then have "of_int (2 ^ 23) \<le> q * 2 powi s" "q * 2 powi s \<le> of_int (2 ^ 24)"
    by (simp_all add: powi_add_cancel s_def)
  then have "2 ^ 23 \<le> round_even (q * 2 powi s)" "round_even (q * 2 powi s) \<le> 2 ^ 24"
    using round_even_mono round_even_of_int by metis+
  then have "of_int (2 ^ 23) \<le> (of_int (round_even (q * 2 powi s)) :: rat)"
      "of_int (round_even (q * 2 powi s)) \<le> (of_int (2 ^ 24) :: rat)"
    by (simp_all only: of_int_le_iff)
  moreover have "of_int (2 ^ 23) = 2 powi (k - 1) * (2::rat) powi s" "of_int (2 ^ 24) = 2 powi k * (2::rat) powi s"
    by (simp_all add: powi_add_cancel s_def)
  moreover have "f32_round q = of_int (round_even (q * 2 powi s)) / 2 powi s"
    using assms by (simp add: f32_round_def Let_def k_def s_def)
  ultimately show "2 powi (binary_exponent q - 1) \<le> f32_round q" "f32_round q \<le> 2 powi binary_exponent q"
    using pos by (simp_all add: k_def pos_le_divide_eq pos_divide_le_eq)
qed

lemma f32_round_mono:
  assumes "p \<le> q"
  shows "f32_round p \<le> f32_round q"
proof (cases "0 < p")
  case False
  have "0 \<le> f32_round q"
  proof (cases "0 < q")
    case True
    from f32_round_bounds(1) [OF this] show ?thesis by (meson order.trans zero_le_power_int zero_le_numeral)
  qed (simp add: f32_round_def)
  then show ?thesis using False by (simp add: f32_round_def)
next
  case True
  then have q: "0 < q" using assms by simp
  consider "binary_exponent p = binary_exponent q" | "binary_exponent p < binary_exponent q"
    | "binary_exponent q < binary_exponent p" by linarith
  then show ?thesis
  proof cases
    case 1
    define s where "s = 24 - binary_exponent q"
    have "round_even (p * 2 powi s) \<le> round_even (q * 2 powi s)"
      using assms by (intro round_even_mono) simp
    then show ?thesis using True q 1 by (simp add: f32_round_def Let_def s_def divide_right_mono)
  next
    case 2
    then have "(2::rat) powi binary_exponent p \<le> 2 powi (binary_exponent q - 1)"
      by (intro power_int_increasing) auto
    then show ?thesis
      using f32_round_bounds(2) [OF True] f32_round_bounds(1) [OF q] by linarith
  next
    case 3
    then have "(2::rat) powi binary_exponent q \<le> 2 powi (binary_exponent p - 1)"
      by (intro power_int_increasing) auto
    then show ?thesis
      using binary_exponent_bounds(1) [OF True] binary_exponent_bounds(2) [OF q] assms by linarith
  qed
qed

lemma f32_round_0 [simp]: "f32_round 0 = 0"
  by (simp add: f32_round_def)

lemma f32_round_1 [simp]: "f32_round 1 = 1"
proof -
  have "floorlog 2 1 = 1" using floorlog_power [of 1 2 0] by (simp add: compute_floorlog)
  then have e: "binary_exponent 1 = 1" by (simp add: binary_exponent_def)
  have "round_even (of_int 8388608) = 8388608" by (rule round_even_of_int)
  then show ?thesis by (simp add: f32_round_def e)
qed

lemma f32_round_pos: "0 < q \<Longrightarrow> 0 < f32_round q"
  using f32_round_bounds(1) [of q] by (meson less_le_trans zero_less_numeral zero_less_power_int)

section \<open>The fingerprint\<close>

definition is_control :: "string \<Rightarrow> bool" where
  "is_control ch \<longleftrightarrow>
     (case ch of
        [c] \<Rightarrow> of_char c < (0x20 :: nat) \<or> c = CHR 0x7F
      | [c, d] \<Rightarrow> c = CHR 0xC2 \<and> 0x80 \<le> (of_char d :: nat) \<and> (of_char d :: nat) < 0xA0
      | _ \<Rightarrow> False)"

fun normalise_loop :: "bool \<Rightarrow> string list \<Rightarrow> string" where
  "normalise_loop last_was_space [] = []"
| "normalise_loop last_was_space (ch # chs) =
     (if is_control ch \<or> is_whitespace ch
      then (if last_was_space then normalise_loop True chs else CHR '' '' # normalise_loop True chs)
      else ch @ normalise_loop False chs)"

definition normalise :: "(string \<Rightarrow> string) \<Rightarrow> string \<Rightarrow> string" where
  "normalise lower s =
     (let out = normalise_loop False (utf8_chars (lower s))
      in case strip_suffix '' '' out of None \<Rightarrow> out | Some out' \<Rightarrow> out')"

fun windows :: "nat \<Rightarrow> 'a list \<Rightarrow> 'a list list" where
  "windows n [] = (if n = 0 then [[]] else [])"
| "windows n (x # xs) = (if length (x # xs) < n then [] else take n (x # xs) # windows n xs)"

definition DEFAULT_NGRAM :: nat where "DEFAULT_NGRAM = 6"

definition ngrams :: "(string \<Rightarrow> string) \<Rightarrow> string \<Rightarrow> nat \<Rightarrow> string set" where
  "ngrams lower text n =
     (let chars = utf8_chars (normalise lower text)
      in if chars = [] then {}
         else if length chars < n then {concat chars @ replicate (n - length chars) (CHR 0x00)}
         else set (map concat (windows n chars)))"

definition u32_to_f32_lossy :: "nat \<Rightarrow> rat" where
  "u32_to_f32_lossy n = f32_round (of_nat (min n (2 ^ 32 - 1)))"

definition jaccard_sets :: "string set \<Rightarrow> string set \<Rightarrow> rat" where
  "jaccard_sets a b =
     (if a = {} \<and> b = {} then 1
      else if a = {} \<or> b = {} then 0
      else let inter = card (a \<inter> b); union = card a + card b - inter
           in if union = 0 then 1 else f32_round (u32_to_f32_lossy inter / u32_to_f32_lossy union))"

definition jaccard_6gram :: "(string \<Rightarrow> string) \<Rightarrow> string \<Rightarrow> string \<Rightarrow> rat" where
  "jaccard_6gram lower a b = jaccard_sets (ngrams lower a DEFAULT_NGRAM) (ngrams lower b DEFAULT_NGRAM)"

definition DEFAULT_DEDUP_THRESHOLD :: rat where
  "DEFAULT_DEDUP_THRESHOLD = f32_round (85 / 100)"

section \<open>Facts about the ratio\<close>

lemma finite_ngrams [simp]: "finite (ngrams lower text n)"
  by (simp add: ngrams_def Let_def)

lemma u32_to_f32_lossy_mono: "m \<le> n \<Longrightarrow> u32_to_f32_lossy m \<le> u32_to_f32_lossy n"
  unfolding u32_to_f32_lossy_def by (rule f32_round_mono) (simp add: min_def)

lemma u32_to_f32_lossy_pos: "0 < n \<Longrightarrow> 0 < u32_to_f32_lossy n"
  by (simp add: u32_to_f32_lossy_def f32_round_pos)

lemma jaccard_sets_same [simp]: "finite a \<Longrightarrow> jaccard_sets a a = 1"
  using u32_to_f32_lossy_pos [of "card a"] by (cases "a = {}") (simp_all add: jaccard_sets_def Let_def card_gt_0_iff)

lemma jaccard_sets_le_1:
  assumes "finite a" "finite b"
  shows "jaccard_sets a b \<le> 1"
proof -
  let ?i = "card (a \<inter> b)" and ?u = "card a + card b - card (a \<inter> b)"
  have "?u = card (a \<union> b)" using card_Un_Int [OF assms] by simp
  then have "?i \<le> ?u" using assms by (simp add: card_mono inf.coboundedI1 le_supI1)
  then have "u32_to_f32_lossy ?i / u32_to_f32_lossy ?u \<le> 1" if "0 < ?u"
    using u32_to_f32_lossy_mono [of ?i ?u] u32_to_f32_lossy_pos [OF that] by (simp add: divide_le_eq_1)
  then show ?thesis using f32_round_mono [of _ 1] by (auto simp: jaccard_sets_def Let_def)
qed

lemma jaccard_sets_nonneg: "0 \<le> jaccard_sets a b"
proof -
  have "0 \<le> f32_round q" for q
    using f32_round_pos [of q] by (cases "0 < q") (auto simp: f32_round_def)
  then show ?thesis by (simp add: jaccard_sets_def Let_def)
qed

lemma jaccard_sets_sym: "jaccard_sets a b = jaccard_sets b a"
  by (simp add: jaccard_sets_def Let_def Int_commute add.commute conj_commute disj_commute)

end
