(* ===== verification/Mwe_Capture.thy ===== *)
theory Mwe_Capture
  imports Mwe_Proposals Mwe_Parser Mwe_Similarity
begin

text \<open>
  When a new claim is one the memory already holds (\<open>crates/mwe-core/src/capture.rs\<close>): the audience two
  claims are compared by, the search for the closest row, and the two rules that change who reads the
  row a claim folds into, with the freezing of groups into people (\<open>audience_without_the_excluded\<close> of
  \<open>ingest.rs\<close>), the audit row (\<open>disclosure_audit.rs\<close>) and the receipt (\<open>promote.rs\<close>) they leave.

  \<open>members\<close> is the roster query \<open>members_for\<close> and \<open>lower\<close> is \<open>str::to_lowercase\<close>. The lemmas show what a
  fold may do to the readers of a fact: nothing, only take some away, or join the two audiences.
\<close>

section \<open>Audiences\<close>

record claim_audience =
  au_subject :: principal
  au_allow :: "principal list"
  au_excluded :: "principal list"
  au_sender :: "principal option"

definition same_read_set_as :: "claim_audience \<Rightarrow> fact_row \<Rightarrow> bool" where
  "same_read_set_as a row \<longleftrightarrow>
     reader_set (au_subject a) (au_allow a) None (au_excluded a) =
     reader_set (fr_subject_id row) (fr_allow_ids row) None (fr_excluded_ids row)"

definition same_as_row :: "claim_audience \<Rightarrow> fact_row \<Rightarrow> bool" where
  "same_as_row a row \<longleftrightarrow> same_read_set_as a row \<and> fr_sender_id row = au_sender a"

definition restricts :: "claim_audience \<Rightarrow> fact_row \<Rightarrow> bool" where
  "restricts a row \<longleftrightarrow>
     fr_subject_id row = au_subject a \<and> fr_sender_id row = au_sender a \<and>
     list_all (\<lambda>p. p \<in> set (au_excluded a)) (fr_excluded_ids row) \<and>
     list_ex (\<lambda>p. p \<notin> set (fr_excluded_ids row)) (au_excluded a)"

record channel_scope =
  ch_wiki_id :: string
  ch_page :: string

definition channel_of :: "string \<Rightarrow> string \<Rightarrow> channel_scope option" where
  "channel_of wiki_id page =
     (case file_name page of
        None \<Rightarrow> None
      | Some name \<Rightarrow> if is_channel_page name then Some \<lparr>ch_wiki_id = wiki_id, ch_page = name\<rparr> else None)"

definition channel_holds :: "channel_scope \<Rightarrow> fact_row \<Rightarrow> bool" where
  "channel_holds scope row \<longleftrightarrow>
     fr_wiki_id row = ch_wiki_id scope \<and> names_page (fr_source_path row) (ch_page scope)"

section \<open>The closest row\<close>

definition same_channel :: "channel_scope option \<Rightarrow> fact_row \<Rightarrow> bool" where
  "same_channel channel row \<longleftrightarrow>
     (case channel of
        None \<Rightarrow> \<not> is_channel_page (fr_source_path row)
      | Some scope \<Rightarrow> channel_holds scope row)"

definition row_score :: "(string \<Rightarrow> string) \<Rightarrow> string \<Rightarrow> fact_row \<Rightarrow> rat" where
  "row_score lower body row =
     jaccard_sets (ngrams lower (strip_embed_markers body) DEFAULT_NGRAM)
       (ngrams lower (strip_embed_markers (fr_text row)) DEFAULT_NGRAM)"

fun closest_loop ::
  "(string \<Rightarrow> string) \<Rightarrow> channel_scope option \<Rightarrow> string \<Rightarrow> (fact_row \<times> rat) option \<Rightarrow> fact_row list \<Rightarrow>
   (fact_row \<times> rat) option" where
  "closest_loop lower channel body best [] = best"
| "closest_loop lower channel body best (row # rows) =
     (if \<not> same_channel channel row then closest_loop lower channel body best rows
      else let score = row_score lower body row
           in if (case best of None \<Rightarrow> -1 | Some (_, s) \<Rightarrow> s) < score
              then closest_loop lower channel body (Some (row, score)) rows
              else closest_loop lower channel body best rows)"

definition closest_by_words ::
  "(string \<Rightarrow> string) \<Rightarrow> fact_row list \<Rightarrow> channel_scope option \<Rightarrow> string \<Rightarrow> (fact_row \<times> rat) option" where
  "closest_by_words lower candidates channel body = closest_loop lower channel body None candidates"

definition best_dedup_candidate ::
  "(string \<Rightarrow> string) \<Rightarrow> fact_row list \<Rightarrow> claim_audience \<Rightarrow> channel_scope option \<Rightarrow> string \<Rightarrow>
   fact_id option \<Rightarrow> (fact_row \<times> rat) option" where
  "best_dedup_candidate lower candidates a channel body exclude =
     closest_by_words lower
       (filter (\<lambda>row. \<not> is_some_and (\<lambda>i. i = fr_fact_id row) exclude \<and> same_as_row a row) candidates)
       channel body"

text \<open>\<open>fact_index::find_active_by_subject\<close>: the candidates of every fold, oldest first.\<close>

definition find_active_by_subject :: "fact_table \<Rightarrow> principal \<Rightarrow> fact_row list" where
  "find_active_by_subject tab subject =
     sort_key fr_created_at (filter (\<lambda>r. fr_subject_id r = subject \<and> active r) tab)"

definition find_active_by_source_path :: "fact_table \<Rightarrow> string \<Rightarrow> fact_row list" where
  "find_active_by_source_path tab p = sort_key fr_created_at (filter (\<lambda>r. fr_source_path r = p \<and> active r) tab)"

section \<open>Freezing an audience\<close>

definition keep_principal :: "principal list \<Rightarrow> principal \<Rightarrow> principal list \<Rightarrow> principal list" where
  "keep_principal excluded p out =
     (if p \<notin> set excluded \<and> p \<notin> set out then out @ [p] else out)"

fun freeze_loop ::
  "principal list \<Rightarrow> (string \<Rightarrow> string list option) \<Rightarrow> principal list \<Rightarrow> principal list \<Rightarrow> principal list" where
  "freeze_loop excluded groups [] out = out"
| "freeze_loop excluded groups (User i # ps) out =
     freeze_loop excluded groups ps (keep_principal excluded (User i) out)"
| "freeze_loop excluded groups (Group i # ps) out =
     freeze_loop excluded groups ps
       (if i = ''global'' then out
        else fold (\<lambda>m. keep_principal excluded (User m)) (case groups i of None \<Rightarrow> [] | Some ms \<Rightarrow> ms) out)"

definition audience_without_the_excluded ::
  "principal list \<Rightarrow> principal list \<Rightarrow> (string \<Rightarrow> string list option) \<Rightarrow> principal list \<times> principal list" where
  "audience_without_the_excluded allow excluded groups =
     (if excluded = [] then (allow, excluded) else (freeze_loop excluded groups allow [], excluded))"

text \<open>The roster of the groups named in a list, as both callers build it.\<close>

definition roster_of :: "(string \<Rightarrow> string list) \<Rightarrow> principal list \<Rightarrow> string \<Rightarrow> string list option" where
  "roster_of members ps i = (if Group i \<in> set ps then Some (members i) else None)"

definition groups_named :: "principal list \<Rightarrow> string list" where
  "groups_named ps = List.map_filter (\<lambda>p. case p of Group i \<Rightarrow> Some i | User _ \<Rightarrow> None) ps"

definition the_same_readers_once_frozen ::
  "(string \<Rightarrow> string list) \<Rightarrow> fact_row \<Rightarrow> claim_audience \<Rightarrow> principal list option" where
  "the_same_readers_once_frozen members row a =
     (let roster = roster_of members (fr_allow_ids row @ au_allow a);
          frozen = fst (audience_without_the_excluded (fr_allow_ids row) (au_excluded a) roster);
          claim = fst (audience_without_the_excluded (au_allow a) (au_excluded a) roster)
      in if reader_set (fr_subject_id row) frozen None [] = reader_set (au_subject a) claim None []
         then Some frozen else None)"

record settled =
  st_readers :: "principal list"
  st_excluded :: "principal list"
  st_named_groups :: "string list"

definition the_audience_once_settled ::
  "(string \<Rightarrow> string list) \<Rightarrow> fact_row \<Rightarrow> claim_audience \<Rightarrow> settled option" where
  "the_audience_once_settled members row a =
     (let excluded = fold (\<lambda>p acc. if p \<in> set acc then acc else acc @ [p]) (au_excluded a) (fr_excluded_ids row);
          union = fold (\<lambda>p acc. if p \<in> set acc then acc else acc @ [p]) (au_allow a) (fr_allow_ids row);
          readers = fst (audience_without_the_excluded union excluded (roster_of members union))
      in if reader_set (fr_subject_id row) readers None excluded =
            reader_set (fr_subject_id row) (fr_allow_ids row) None (fr_excluded_ids row)
         then None
         else Some \<lparr>st_readers = readers, st_excluded = excluded,
                    st_named_groups = sort (remdups (groups_named union))\<rparr>)"

section \<open>What a change leaves behind\<close>

record disclosure_row =
  da_audit_id :: int
  da_fact_id :: fact_id
  da_wiki_id :: string
  da_actor_id :: string
  da_prev :: prev_acl
  da_new_subject :: principal
  da_new_allow :: "principal list"
  da_new_sender :: "principal option"
  da_widening :: bool
  da_ts :: string

record memory =
  mm_gov :: governance
  mm_audit :: "disclosure_row list"

text \<open>The clocks and the generator of ids a round reads, and the two queries it depends on.\<close>

record round_env =
  re_lower :: "string \<Rightarrow> string"
  re_members :: "string \<Rightarrow> string list"
  re_store :: store_env
  re_now :: string
  re_now_nanos :: int
  re_fresh_proposal :: "fact_id \<Rightarrow> string"

definition record_disclosure ::
  "string \<Rightarrow> fact_id \<Rightarrow> string \<Rightarrow> string \<Rightarrow> prev_acl \<Rightarrow> principal \<Rightarrow> principal list \<Rightarrow> principal option \<Rightarrow> bool \<Rightarrow>
   disclosure_row list \<Rightarrow> disclosure_row list \<times> int" where
  "record_disclosure now fid wiki_id actor_id prev new_subject new_allow new_sender widening audit =
     (let i = 1 + fold max (map da_audit_id audit) 0
      in (audit @ [\<lparr>da_audit_id = i, da_fact_id = fid, da_wiki_id = wiki_id, da_actor_id = actor_id,
                    da_prev = prev, da_new_subject = new_subject, da_new_allow = new_allow,
                    da_new_sender = new_sender, da_widening = widening, da_ts = now\<rparr>], i))"

definition what_changed_in_words :: "prev_acl \<Rightarrow> settled \<Rightarrow> string" where
  "what_changed_in_words prev settled =
     (let added = map principal_to_string (filter (\<lambda>p. p \<notin> set (pa_allow_ids prev)) (st_readers settled));
          resolved = filter (\<lambda>i. Group i \<notin> set (st_readers settled)) (st_named_groups settled);
          said = (if added \<noteq> [] then [''said again to a wider room, so it is readable by '' @ join '', '' added @ '' as well'']
                  else []) @
                 (if resolved \<noteq> [] then [''readers frozen to today's members of '' @ join '', '' resolved @
                    '', minus whoever it is kept from''] else [])
      in join ''; '' (if said = [] then [''kept from somebody, and its readers are named one by one''] else said))"

record applied_acl_change =
  ac_fact_id :: fact_id
  ac_wiki_id :: string
  ac_preview :: string
  ac_new_subject :: principal
  ac_new_allow :: "principal list"
  ac_prev :: prev_acl
  ac_audit_id :: int
  ac_widening :: bool
  ac_surface :: string

definition json_strings :: "string list \<Rightarrow> json" where
  "json_strings ss = JArr (map JStr ss)"

definition json_opt :: "string option \<Rightarrow> json" where
  "json_opt s = (case s of None \<Rightarrow> JNull | Some t \<Rightarrow> JStr t)"

definition principal_strings :: "principal list \<Rightarrow> string list" where
  "principal_strings ps = map principal_to_string ps"

definition acl_change_questions :: "applied_acl_change list \<Rightarrow> json" where
  "acl_change_questions changes =
     JArr [JObj [(''id'', JStr ''acl_changes''),
                 (''text'', JStr (''Change the sharing of '' @ show_nat (length changes) @ '' fact(s)?'')),
                 (''options'', JArr [JObj
                    [(''id'', JStr ''use_recommended''),
                     (''label'', JStr (join ('' '' @ [CHR 0xC2, CHR 0xB7] @ '' '') (map ac_preview changes))),
                     (''value'', JStr ''change''), (''recommended'', JBool True)]])]]"

definition acl_change_context :: "applied_acl_change list \<Rightarrow> string option \<Rightarrow> string option \<Rightarrow> json" where
  "acl_change_context changes gesture reason =
     JObj ([(''variant'', JStr ''acl_change''),
            (''changed'', JArr (map (\<lambda>c. JObj
               [(''fact_id'', JStr (fact_id_str (ac_fact_id c))), (''wiki_id'', JStr (ac_wiki_id c)),
                (''preview'', JStr (ac_preview c)),
                (''new_subject_id'', JStr (principal_to_string (ac_new_subject c))),
                (''new_allow_ids'', json_strings (principal_strings (ac_new_allow c))),
                (''prev_subject_id'', JStr (principal_to_string (pa_subject_id (ac_prev c)))),
                (''prev_allow_ids'', json_strings (principal_strings (pa_allow_ids (ac_prev c)))),
                (''widening'', JBool (ac_widening c)), (''audit_id'', JNum (ac_audit_id c)),
                (''surface'', JStr (ac_surface c))]) changes))] @
           (case gesture of None \<Rightarrow> [] | Some g \<Rightarrow> [(''gesture'', JStr g)]) @
           (case reason of None \<Rightarrow> [] | Some r \<Rightarrow> [(''reason'', JStr r)]))"

definition acl_change_record :: "applied_acl_change \<Rightarrow> json" where
  "acl_change_record c =
     JObj [(''fact_id'', JStr (fact_id_str (ac_fact_id c))),
           (''new_subject_id'', JStr (principal_to_string (ac_new_subject c))),
           (''new_allow_ids'', json_strings (principal_strings (ac_new_allow c))),
           (''new_sender_id'', json_opt (map_option principal_to_string (pa_sender_id (ac_prev c)))),
           (''prev_subject_id'', JStr (principal_to_string (pa_subject_id (ac_prev c)))),
           (''prev_allow_ids'', json_strings (principal_strings (pa_allow_ids (ac_prev c)))),
           (''prev_sender_id'', json_opt (map_option principal_to_string (pa_sender_id (ac_prev c)))),
           (''audit_id'', JNum (ac_audit_id c)), (''widening'', JBool (ac_widening c))]"

definition emit_acl_change_receipt ::
  "int \<Rightarrow> string \<Rightarrow> applied_acl_change list \<Rightarrow> string option \<Rightarrow> string option \<Rightarrow> string option \<Rightarrow> string option \<Rightarrow>
   governance \<Rightarrow> governance \<times> (proposals_error + string)" where
  "emit_acl_change_receipt now pid changes gesture reason applied_by recipient g =
     emit_applied_proposal now pid WIKI_PROMOTE (acl_change_context changes gesture reason)
       (acl_change_questions changes)
       (JObj [(''variant'', JStr ''acl_change''), (''changes'', JArr (map acl_change_record changes))])
       applied_by recipient g"

definition receipt_for_the_new_audience ::
  "round_env \<Rightarrow> string \<Rightarrow> fact_row \<Rightarrow> settled \<Rightarrow> prev_acl \<Rightarrow> int \<Rightarrow> string \<Rightarrow> governance \<Rightarrow> governance" where
  "receipt_for_the_new_audience env pid row settled prev audit_id speaker_id g =
     fst (emit_acl_change_receipt (re_now_nanos env) pid
       [\<lparr>ac_fact_id = fr_fact_id row, ac_wiki_id = fr_wiki_id row,
         ac_preview = concat (take 120 (utf8_chars (fr_text row))),
         ac_new_subject = fr_subject_id row, ac_new_allow = st_readers settled, ac_prev = prev,
         ac_audit_id = audit_id,
         ac_widening = widens (pa_subject_id prev) (pa_allow_ids prev) (fr_subject_id row) (st_readers settled),
         ac_surface = ''fact''\<rparr>]
       None (Some (what_changed_in_words prev settled)) (Some speaker_id) (Some speaker_id) g)"

text \<open>The audit row, then the receipt that names it.\<close>

definition leave_a_record ::
  "round_env \<Rightarrow> string \<Rightarrow> fact_row \<Rightarrow> settled \<Rightarrow> prev_acl \<Rightarrow> bool \<Rightarrow> string \<Rightarrow> memory \<Rightarrow> memory" where
  "leave_a_record env pid row settled prev widening speaker_id m =
     (let (audit', audit_id) = record_disclosure (re_now env) (fr_fact_id row) (fr_wiki_id row) speaker_id prev
            (fr_subject_id row) (st_readers settled) (fr_sender_id row) widening (mm_audit m)
      in m\<lparr>mm_audit := audit',
           mm_gov := receipt_for_the_new_audience env pid row settled prev audit_id speaker_id (mm_gov m)\<rparr>)"

section \<open>The two rules that change a row\<close>

definition set_facts :: "fact_table \<Rightarrow> memory \<Rightarrow> memory" where
  "set_facts tab m = m\<lparr>mm_gov := (mm_gov m)\<lparr>g_facts := tab\<rparr>\<rparr>"

definition eligible_rows ::
  "(string \<Rightarrow> string list) \<Rightarrow> claim_audience \<Rightarrow> fact_row list \<Rightarrow> (fact_row \<times> principal list) list" where
  "eligible_rows members a candidates =
     List.map_filter (\<lambda>row. map_option (Pair row) (the_same_readers_once_frozen members row a))
       (filter (restricts a) candidates)"

definition eligible_row :: "fact_id \<Rightarrow> (fact_row \<times> principal list) list \<Rightarrow> (fact_row \<times> principal list) option" where
  "eligible_row fid eligible = List.find (\<lambda>(r, _). fr_fact_id r = fid) eligible"

definition apply_exclusion_to_the_fact_already_there ::
  "round_env \<Rightarrow> string \<Rightarrow> fact_row list \<Rightarrow> claim_audience \<Rightarrow> channel_scope option \<Rightarrow> string \<Rightarrow> principal \<Rightarrow> rat \<Rightarrow>
   memory \<Rightarrow> memory \<times> (fact_row \<times> rat) option" where
  "apply_exclusion_to_the_fact_already_there env pid candidates a channel body speaker threshold m =
     (if au_excluded a = [] then (m, None) else
      case speaker of Group _ \<Rightarrow> (m, None) | User speaker_id \<Rightarrow>
      (let eligible = eligible_rows (re_members env) a candidates in
       case closest_by_words (re_lower env) (map fst eligible) channel body of
         None \<Rightarrow> (m, None)
       | Some (row, similarity) \<Rightarrow>
           if similarity < threshold then (m, None)
           else if \<not> sender_may_rewrite (fr_subject_id row) (fr_sender_id row) speaker_id [] then (m, None)
           else case eligible_row (fr_fact_id row) eligible of
             None \<Rightarrow> (m, None)
           | Some (row, readers) \<Rightarrow>
             (case restrict_to (re_now env) (fr_fact_id row) (au_excluded a) readers (g_facts (mm_gov m)) of
                (tab', None) \<Rightarrow> (set_facts tab' m, None)
              | (tab', Some prev) \<Rightarrow>
                  (leave_a_record env pid row
                     \<lparr>st_readers = readers, st_excluded = fr_excluded_ids row,
                      st_named_groups = groups_named (pa_allow_ids prev)\<rparr> prev False speaker_id (set_facts tab' m),
                   Some (row, similarity)))))"

definition carry_the_new_audience_onto_the_fact_it_folds_into ::
  "round_env \<Rightarrow> string \<Rightarrow> fact_row list \<Rightarrow> claim_audience \<Rightarrow> channel_scope option \<Rightarrow> string \<Rightarrow> principal \<Rightarrow> rat \<Rightarrow>
   memory \<Rightarrow> memory \<times> (fact_row \<times> rat) option" where
  "carry_the_new_audience_onto_the_fact_it_folds_into env pid candidates a channel body speaker threshold m =
     (case speaker of Group _ \<Rightarrow> (m, None) | User speaker_id \<Rightarrow>
      (case closest_by_words (re_lower env)
              (filter (\<lambda>row. fr_subject_id row = au_subject a \<and> fr_sender_id row = au_sender a) candidates)
              channel body of
         None \<Rightarrow> (m, None)
       | Some (row, similarity) \<Rightarrow>
           if similarity < threshold then (m, None)
           else case the_audience_once_settled (re_members env) row a of
             None \<Rightarrow> (m, None)
           | Some settled \<Rightarrow>
               if \<not> sender_may_rewrite (fr_subject_id row) (fr_sender_id row) speaker_id [] then (m, None)
               else (case restrict_to (re_now env) (fr_fact_id row) (st_excluded settled) (st_readers settled)
                             (g_facts (mm_gov m)) of
                  (tab', None) \<Rightarrow> (set_facts tab' m, None)
                | (tab', Some prev) \<Rightarrow>
                    (leave_a_record env pid row settled prev
                       (widens (pa_subject_id prev) (pa_allow_ids prev) (fr_subject_id row) (st_readers settled))
                       speaker_id (set_facts tab' m),
                     Some (row, similarity)))))"

section \<open>What freezing does to the readers\<close>

locale named_roster = roster +
  assumes nobody_unnamed: "members [] = []"

interpretation enrolled_named: named_roster "members_for tab" "groups_for tab"
  for tab
  by unfold_locales (simp add: members_for_def)

lemma set_keep_principal: "set (keep_principal ex p out) = set out \<union> ({p} - set ex)"
  by (auto simp: keep_principal_def)

lemma set_keep_members:
  "set (fold (\<lambda>m. keep_principal ex (User m)) ms out) = set out \<union> (User ` set ms - set ex)"
  by (induction ms arbitrary: out) (auto simp: set_keep_principal)

lemma in_freeze_loop:
  "p \<in> set (freeze_loop ex groups ps out) \<longleftrightarrow> p \<in> set out \<or>
     p \<notin> set ex \<and> (\<exists>i. p = User i \<and> (User i \<in> set ps \<or>
       (\<exists>g. Group g \<in> set ps \<and> g \<noteq> ''global'' \<and> i \<in> set (case groups g of None \<Rightarrow> [] | Some ms \<Rightarrow> ms))))"
proof (induction ps arbitrary: out)
  case (Cons q ps)
  show ?case
  proof (cases q)
    case (User i)
    then show ?thesis by (simp add: Cons.IH set_keep_principal) blast
  next
    case (Group g)
    then show ?thesis by (simp add: Cons.IH set_keep_members image_iff) blast
  qed
qed simp

context named_roster
begin

lemma in_frozen:
  assumes "set ps \<subseteq> set named"
  shows "p \<in> set (freeze_loop ex (roster_of members named) ps []) \<longleftrightarrow> p \<notin> set ex \<and>
    (\<exists>i. p = User i \<and> (User i \<in> set ps \<or> (\<exists>g. Group g \<in> set ps \<and> g \<noteq> ''global'' \<and> i \<in> set (members g))))"
proof -
  have "(case roster_of members named g of None \<Rightarrow> [] | Some ms \<Rightarrow> ms) = members g" if "Group g \<in> set ps" for g
    using that assms by (auto simp: roster_of_def)
  then have "(\<exists>g. Group g \<in> set ps \<and> g \<noteq> ''global'' \<and>
        i \<in> set (case roster_of members named g of None \<Rightarrow> [] | Some ms \<Rightarrow> ms)) \<longleftrightarrow>
      (\<exists>g. Group g \<in> set ps \<and> g \<noteq> ''global'' \<and> i \<in> set (members g))" for i
    by metis
  then show ?thesis unfolding in_freeze_loop by simp
qed

lemma frozen_matches_self:
  assumes "set ps \<subseteq> set named"
  shows "list_ex (\<lambda>p. principal_matches p u gs) (freeze_loop ex (roster_of members named) ps []) \<longleftrightarrow>
    User u \<in> set (freeze_loop ex (roster_of members named) ps [])"
  unfolding list_ex_iff using in_frozen [OF assms] by (metis principal_matches.simps(1))

lemma frozen_matches:
  assumes "u \<noteq> []" "Group [] \<notin> set ps" "set ps \<subseteq> set named"
  shows "list_ex (\<lambda>p. principal_matches p u (groups u)) (freeze_loop ex (roster_of members named) ps []) \<longleftrightarrow>
    User u \<notin> set ex \<and> list_ex (\<lambda>p. principal_matches p u (groups u)) (filter (\<lambda>p. p \<noteq> global_principal) ps)"
proof -
  have "u \<in> set (members g) \<longleftrightarrow> g \<in> set (groups u)" if "Group g \<in> set ps" for g
    using that assms(1,2) membership by metis
  then have "list_ex (\<lambda>p. principal_matches p u (groups u)) (filter (\<lambda>p. p \<noteq> global_principal) ps) \<longleftrightarrow>
      User u \<in> set ps \<or> (\<exists>g. Group g \<in> set ps \<and> g \<noteq> ''global'' \<and> u \<in> set (members g))"
    unfolding list_ex_iff principal_matches_iff by (auto simp: global_principal_def)
  then show ?thesis
    unfolding frozen_matches_self [OF assms(3)] in_frozen [OF assms(3)] by simp
qed

lemma frozen_only_narrows:
  assumes "u \<noteq> []" "set ps \<subseteq> set named"
    and "list_ex (\<lambda>p. principal_matches p u (groups u)) (freeze_loop ex (roster_of members named) ps [])"
  shows "list_ex (\<lambda>p. principal_matches p u (groups u)) ps"
proof -
  from assms(3) have "User u \<in> set ps \<or> (\<exists>g. Group g \<in> set ps \<and> u \<in> set (members g))"
    unfolding frozen_matches_self [OF assms(2)] in_frozen [OF assms(2)] by auto
  moreover have "g \<in> set (groups u)" if "u \<in> set (members g)" for g
    using that membership [OF assms(1)] nobody_unnamed by (cases "g = []") auto
  ultimately show ?thesis unfolding list_ex_iff principal_matches_iff by blast
qed

end

section \<open>What a fold does to the row\<close>

definition restricted_row :: "string \<Rightarrow> principal list \<Rightarrow> principal list \<Rightarrow> fact_row \<Rightarrow> fact_row" where
  "restricted_row now excluded readers row =
     row\<lparr>fr_excluded_ids := push_once [] (fr_excluded_ids row @ excluded), fr_allow_ids := readers,
         fr_updated_at := now\<rparr>"

lemma g_facts_leave_a_record [simp]:
  "g_facts (mm_gov (leave_a_record env pid row settled prev widening speaker_id m)) = g_facts (mm_gov m)"
  by (simp add: leave_a_record_def record_disclosure_def Let_def receipt_for_the_new_audience_def
      emit_acl_change_receipt_def emit_applied_proposal_def)

lemma g_facts_set_facts [simp]: "g_facts (mm_gov (set_facts tab m)) = tab"
  by (simp add: set_facts_def)

lemma restrict_to_row:
  assumes "distinct (map fr_fact_id tab)" "row \<in> set tab"
    and "restrict_to now (fr_fact_id row) excluded readers tab = (tab', Some prev)"
  shows "tab' = map (\<lambda>r. if fr_fact_id r = fr_fact_id row then restricted_row now excluded readers row else r) tab"
    and "prev = prev_acl_of row" "fr_deleted_at row = None"
proof -
  have f: "find_by_id tab (fr_fact_id row) = Some row" using find_by_id_unique [OF assms(1,2)] .
  have same: "r = row" if "r \<in> set tab" "fr_fact_id r = fr_fact_id row" for r
    using assms(1,2) that by (auto simp: distinct_map inj_on_def)
  show d: "fr_deleted_at row = None" and "prev = prev_acl_of row"
    using assms(3) by (auto simp: restrict_to_def f sql_update_def Let_def split: if_splits)
  have "tab' = map (\<lambda>r. if live (fr_fact_id row) r then r\<lparr>fr_excluded_ids := push_once [] (fr_excluded_ids row @ excluded),
      fr_allow_ids := readers, fr_updated_at := now\<rparr> else r) tab"
    using assms(3) d by (simp add: restrict_to_def f sql_update_def Let_def split: if_splits)
  also have "\<dots> = map (\<lambda>r. if fr_fact_id r = fr_fact_id row then restricted_row now excluded readers row else r) tab"
  proof (rule map_cong [OF refl])
    fix r assume "r \<in> set tab"
    then show "(if live (fr_fact_id row) r then r\<lparr>fr_excluded_ids := push_once [] (fr_excluded_ids row @ excluded),
        fr_allow_ids := readers, fr_updated_at := now\<rparr> else r) =
      (if fr_fact_id r = fr_fact_id row then restricted_row now excluded readers row else r)"
      using same [of r] d by (cases "r = row") (auto simp: live_def restricted_row_def)
  qed
  finally show "tab' = map (\<lambda>r. if fr_fact_id r = fr_fact_id row then restricted_row now excluded readers row else r) tab" .
qed

lemma restricted_row_simps [simp]:
  "fr_fact_id (restricted_row now ex rd row) = fr_fact_id row"
  "fr_text (restricted_row now ex rd row) = fr_text row"
  "fr_subject_id (restricted_row now ex rd row) = fr_subject_id row"
  "fr_sender_id (restricted_row now ex rd row) = fr_sender_id row"
  "fr_allow_ids (restricted_row now ex rd row) = rd"
  "set (fr_excluded_ids (restricted_row now ex rd row)) = set (fr_excluded_ids row) \<union> set ex"
  "active (restricted_row now ex rd row) = active row"
  "fr_valid_from (restricted_row now ex rd row) = fr_valid_from row"
  "fr_valid_to (restricted_row now ex rd row) = fr_valid_to row"
  by (simp_all add: restricted_row_def set_push_once active_def)

lemma eligible_rowsD:
  assumes "(row, readers) \<in> set (eligible_rows members a candidates)"
  shows "row \<in> set candidates" "restricts a row" "the_same_readers_once_frozen members row a = Some readers"
  using assms by (auto simp: eligible_rows_def map_filter_def)

lemma closest_loop_in:
  "closest_loop lower channel body best rows = Some (row, s) \<Longrightarrow> best = Some (row, s) \<or> row \<in> set rows"
  by (induction lower channel body best rows rule: closest_loop.induct) (auto simp: Let_def split: if_splits)

lemma closest_in: "closest_by_words lower rows channel body = Some (row, s) \<Longrightarrow> row \<in> set rows"
  using closest_loop_in by (fastforce simp: closest_by_words_def)

text \<open>A fold of the first rule is one update of one of the rows that could take it.\<close>

lemma apply_exclusion_effect:
  assumes "distinct (map fr_fact_id (g_facts (mm_gov m)))" "set candidates \<subseteq> set (g_facts (mm_gov m))"
    and "apply_exclusion_to_the_fact_already_there env pid candidates a channel body speaker threshold m =
      (m', Some (row, s))"
  obtains readers where "row \<in> set candidates" "restricts a row" "au_excluded a \<noteq> []"
    "the_same_readers_once_frozen (re_members env) row a = Some readers"
    "g_facts (mm_gov m') =
       map (\<lambda>r. if fr_fact_id r = fr_fact_id row then restricted_row (re_now env) (au_excluded a) readers row else r)
         (g_facts (mm_gov m))"
proof -
  from assms(3) obtain fid readers tab' prev where r0:
      "eligible_row fid (eligible_rows (re_members env) a candidates) = Some (row, readers)" "au_excluded a \<noteq> []"
      "restrict_to (re_now env) (fr_fact_id row) (au_excluded a) readers (g_facts (mm_gov m)) = (tab', Some prev)"
      "g_facts (mm_gov m') = tab'"
    unfolding apply_exclusion_to_the_fact_already_there_def Let_def
    by (auto split: if_split_asm principal.split_asm option.split_asm prod.split_asm)
  have r: "(row, readers) \<in> set (eligible_rows (re_members env) a candidates)"
    using r0(1) by (metis eligible_row_def find_Some_iff nth_mem)
  note r = r r0(2-)
  have "row \<in> set (g_facts (mm_gov m))" using eligible_rowsD(1) [OF r(1)] assms(2) by blast
  from restrict_to_row(1) [OF assms(1) this r(3)] eligible_rowsD [OF r(1)] r(2,4) that show ?thesis by blast
qed

lemma carry_effect:
  assumes "distinct (map fr_fact_id (g_facts (mm_gov m)))" "set candidates \<subseteq> set (g_facts (mm_gov m))"
    and "carry_the_new_audience_onto_the_fact_it_folds_into env pid candidates a channel body speaker threshold m =
      (m', Some (row, s))"
  obtains settled where "row \<in> set candidates" "fr_subject_id row = au_subject a" "fr_sender_id row = au_sender a"
    "the_audience_once_settled (re_members env) row a = Some settled"
    "g_facts (mm_gov m') =
       map (\<lambda>r. if fr_fact_id r = fr_fact_id row
                then restricted_row (re_now env) (st_excluded settled) (st_readers settled) row else r)
         (g_facts (mm_gov m))"
proof -
  from assms(3) obtain settled tab' prev where r:
      "(row, s) \<in> set (opt_list (closest_by_words (re_lower env)
        (filter (\<lambda>row. fr_subject_id row = au_subject a \<and> fr_sender_id row = au_sender a) candidates) channel body))"
      "the_audience_once_settled (re_members env) row a = Some settled"
      "restrict_to (re_now env) (fr_fact_id row) (st_excluded settled) (st_readers settled) (g_facts (mm_gov m)) = (tab', Some prev)"
      "g_facts (mm_gov m') = tab'"
    by (auto simp: carry_the_new_audience_onto_the_fact_it_folds_into_def
        split: if_splits principal.splits option.splits prod.splits)
  from r(1) have "closest_by_words (re_lower env)
      (filter (\<lambda>row. fr_subject_id row = au_subject a \<and> fr_sender_id row = au_sender a) candidates) channel body =
      Some (row, s)" by simp
  from closest_in [OF this] have c: "row \<in> set candidates" "fr_subject_id row = au_subject a" "fr_sender_id row = au_sender a" by auto
  then have "row \<in> set (g_facts (mm_gov m))" using assms(2) by blast
  from restrict_to_row(1) [OF assms(1) this r(3)] c r(2,4) that show ?thesis by blast
qed

section \<open>Who reads the fact afterwards\<close>

lemma row_readable_iff:
  "row_readable_by row u gs \<longleftrightarrow>
     \<not> list_ex (\<lambda>p. principal_matches p u gs) (fr_excluded_ids row) \<and>
     (principal_matches (fr_subject_id row) u gs \<or> list_ex (\<lambda>p. principal_matches p u gs) (fr_allow_ids row) \<or>
      list_ex (\<lambda>p. principal_matches p u gs) (opt_list (fr_sender_id row)))"
  by (simp add: row_readable_by_def row_acl_def can_read_def)

lemma list_ex_restricted:
  "list_ex P (fr_excluded_ids (restricted_row now ex rd row)) \<longleftrightarrow> list_ex P (fr_excluded_ids row) \<or> list_ex P ex"
  by (auto simp: list_ex_iff)

text \<open>Who the claim itself would reach, and the two audiences together.\<close>

definition claim_readable_by :: "claim_audience \<Rightarrow> string \<Rightarrow> string list \<Rightarrow> bool" where
  "claim_readable_by a u gs =
     can_read \<lparr>acl_subject = Some (au_subject a), acl_allow = au_allow a, acl_excluded = au_excluded a\<rparr> u gs (au_sender a)"

definition both_audiences :: "fact_row \<Rightarrow> claim_audience \<Rightarrow> acl" where
  "both_audiences row a =
     (let ex = fr_excluded_ids row @ au_excluded a; al = fr_allow_ids row @ au_allow a
      in \<lparr>acl_subject = Some (fr_subject_id row),
          acl_allow = (if ex = [] then al else filter (\<lambda>p. p \<noteq> global_principal) al), acl_excluded = ex\<rparr>)"

lemma set_fold_push: "set (fold (\<lambda>p acc. if p \<in> set acc then acc else acc @ [p]) xs ys) = set xs \<union> set ys"
  by (induction xs arbitrary: ys) auto

lemma fold_push_Nil [simp]:
  "fold (\<lambda>p acc. if p \<in> set acc then acc else acc @ [p]) xs ys = [] \<longleftrightarrow> xs = [] \<and> ys = []"
proof -
  have "set (fold (\<lambda>p acc. if p \<in> set acc then acc else acc @ [p]) xs ys) = {} \<longleftrightarrow> set xs \<union> set ys = {}"
    by (simp only: set_fold_push)
  then show ?thesis by simp
qed

text \<open>
  C19: carrying an exclusion onto a fact already in the table changes that one row and nothing else of the
  table; nobody reads it afterwards who did not read it before, and everybody the exclusion matches, by name
  or through a group, reads it no more.
\<close>

theorem fence_only_narrows:
  assumes "distinct (map fr_fact_id (g_facts (mm_gov m)))" "set candidates \<subseteq> set (g_facts (mm_gov m))"
    and "re_members env = members_for grps"
    and "apply_exclusion_to_the_fact_already_there env pid candidates a channel body speaker threshold m =
      (m', Some (row, s))"
  shows "\<exists>r'. g_facts (mm_gov m') =
      map (\<lambda>r. if fr_fact_id r = fr_fact_id row then r' else r) (g_facts (mm_gov m)) \<and>
    fr_fact_id r' = fr_fact_id row \<and> fr_text r' = fr_text row \<and>
    (\<forall>u. u \<noteq> [] \<and> row_readable_by r' u (groups_for grps u) \<longrightarrow> row_readable_by row u (groups_for grps u)) \<and>
    (\<forall>u gs. list_ex (\<lambda>p. principal_matches p u gs) (au_excluded a) \<longrightarrow> \<not> row_readable_by r' u gs)"
proof -
  obtain readers where r: "restricts a row" "au_excluded a \<noteq> []"
      "the_same_readers_once_frozen (re_members env) row a = Some readers"
      "g_facts (mm_gov m') =
         map (\<lambda>r. if fr_fact_id r = fr_fact_id row then restricted_row (re_now env) (au_excluded a) readers row else r)
           (g_facts (mm_gov m))"
    by (rule apply_exclusion_effect [OF assms(1,2,4)]) (rule that)
  let ?r = "restricted_row (re_now env) (au_excluded a) readers row"
  have readers: "readers = freeze_loop (au_excluded a)
      (roster_of (members_for grps) (fr_allow_ids row @ au_allow a)) (fr_allow_ids row) []"
    using r(2,3) assms(3) by (simp add: the_same_readers_once_frozen_def Let_def audience_without_the_excluded_def
        split: if_splits)
  have "row_readable_by row u (groups_for grps u)"
    if "u \<noteq> []" "row_readable_by ?r u (groups_for grps u)" for u
  proof -
    have "list_ex (\<lambda>p. principal_matches p u (groups_for grps u)) (fr_allow_ids row)"
      if "list_ex (\<lambda>p. principal_matches p u (groups_for grps u)) readers"
      using that unfolding readers by (rule enrolled_named.frozen_only_narrows [OF \<open>u \<noteq> []\<close>, rotated]) simp
    with that(2) show ?thesis
      unfolding row_readable_iff list_ex_restricted restricted_row_simps by blast
  qed
  moreover have "\<not> row_readable_by ?r u gs" if "list_ex (\<lambda>p. principal_matches p u gs) (au_excluded a)" for u gs
    using that unfolding row_readable_iff list_ex_restricted by simp
  ultimately show ?thesis using r(4) by (intro exI [of _ ?r]) simp
qed

text \<open>
  C13: a claim said again to a wider room gives the fact it folds into exactly the union of the two
  audiences, minus the union of the two exclusions: the freezing of groups into names loses no reader, except that
  a grant to everybody does not survive an exclusion.
\<close>

theorem wider_room_is_the_union:
  assumes "distinct (map fr_fact_id (g_facts (mm_gov m)))" "set candidates \<subseteq> set (g_facts (mm_gov m))"
    and "re_members env = members_for grps"
    and "carry_the_new_audience_onto_the_fact_it_folds_into env pid candidates a channel body speaker threshold m =
      (m', Some (row, s))"
    and "Group [] \<notin> set (fr_allow_ids row) \<union> set (au_allow a)"
  shows "\<exists>r'. g_facts (mm_gov m') =
      map (\<lambda>r. if fr_fact_id r = fr_fact_id row then r' else r) (g_facts (mm_gov m)) \<and>
    fr_fact_id r' = fr_fact_id row \<and> fr_text r' = fr_text row \<and>
    (\<forall>u. u \<noteq> [] \<longrightarrow> row_readable_by r' u (groups_for grps u) =
       can_read (both_audiences row a) u (groups_for grps u) (fr_sender_id row))"
proof -
  obtain st where st: "the_audience_once_settled (re_members env) row a = Some st"
      "g_facts (mm_gov m') =
         map (\<lambda>r. if fr_fact_id r = fr_fact_id row
                  then restricted_row (re_now env) (st_excluded st) (st_readers st) row else r)
           (g_facts (mm_gov m))"
    by (rule carry_effect [OF assms(1,2,4)]) (rule that)
  let ?r = "restricted_row (re_now env) (st_excluded st) (st_readers st) row"
  let ?ex = "fold (\<lambda>p acc. if p \<in> set acc then acc else acc @ [p]) (au_excluded a) (fr_excluded_ids row)"
  let ?al = "fold (\<lambda>p acc. if p \<in> set acc then acc else acc @ [p]) (au_allow a) (fr_allow_ids row)"
  have st': "st_excluded st = ?ex"
      "st_readers st = fst (audience_without_the_excluded ?al ?ex (roster_of (members_for grps) ?al))"
    using st(1) assms(3) by (auto simp: the_audience_once_settled_def Let_def split: if_splits)
  have "row_readable_by ?r u (groups_for grps u) =
       can_read (both_audiences row a) u (groups_for grps u) (fr_sender_id row)" if u: "u \<noteq> []" for u
  proof -
    let ?m = "\<lambda>p. principal_matches p u (groups_for grps u)"
    have ex: "list_ex ?m (fr_excluded_ids ?r) \<longleftrightarrow> list_ex ?m (fr_excluded_ids row @ au_excluded a)"
      by (auto simp: list_ex_iff st'(1) set_fold_push)
    have nog: "Group [] \<notin> set ?al" using assms(5) by (auto simp: set_fold_push)
    have al: "list_ex ?m (fr_allow_ids ?r) \<longleftrightarrow> list_ex ?m (acl_allow (both_audiences row a))"
      if "\<not> list_ex ?m (fr_excluded_ids row @ au_excluded a)"
    proof (cases "?ex = []")
      case True
      then show ?thesis
        by (auto simp: st'(2) audience_without_the_excluded_def both_audiences_def Let_def list_ex_iff set_fold_push)
    next
      case False
      have "User u \<notin> set ?ex" using that
        unfolding list_ex_iff set_fold_push set_append by force
      with False enrolled_named.frozen_matches [OF u nog order_refl, of grps ?ex]
      show ?thesis
        by (auto simp: st'(2) audience_without_the_excluded_def both_audiences_def Let_def list_ex_iff set_fold_push)
    qed
    show ?thesis
      unfolding row_readable_iff ex can_read_def using al
      by (auto simp: both_audiences_def Let_def)
  qed
  with st(2) show ?thesis by (intro exI [of _ ?r]) simp
qed

section \<open>The closest row is the closest\<close>

lemma row_score_bounds: "0 \<le> row_score lower body row" "row_score lower body row \<le> 1"
  by (simp_all add: row_score_def jaccard_sets_nonneg jaccard_sets_le_1)

lemma row_score_same: "strip_embed_markers (fr_text row) = strip_embed_markers body \<Longrightarrow> row_score lower body row = 1"
  by (simp add: row_score_def)

lemma closest_loop_best:
  assumes "case best of None \<Rightarrow> True | Some (r, s) \<Rightarrow> s = row_score lower body r \<and> same_channel channel r"
  shows "case closest_loop lower channel body best rows of
      None \<Rightarrow> best = None \<and> (\<forall>r \<in> set rows. \<not> same_channel channel r)
    | Some (r, s) \<Rightarrow> s = row_score lower body r \<and> same_channel channel r \<and>
        (\<forall>x \<in> set rows. same_channel channel x \<longrightarrow> row_score lower body x \<le> s) \<and>
        (case best of None \<Rightarrow> True | Some (_, s0) \<Rightarrow> s0 \<le> s)"
  using assms
proof (induction rows arbitrary: best)
  case (Cons row rows)
  show ?case
  proof (cases "same_channel channel row")
    case False
    with Cons.IH [OF Cons.prems] show ?thesis by (auto split: option.splits)
  next
    case True
    let ?s = "row_score lower body row"
    show ?thesis
    proof (cases "(case best of None \<Rightarrow> -1 | Some (_, s) \<Rightarrow> s) < ?s")
      case less: True
      with True Cons.IH [of "Some (row, ?s)"] show ?thesis
        by (force simp: Let_def split: option.splits)
    next
      case ge: False
      have "-1 < ?s" using row_score_bounds(1) [of lower body row] by linarith
      with ge obtain b where b: "best = Some b" by (cases best) auto
      with True ge Cons.IH [OF Cons.prems] show ?thesis
        by (force simp: Let_def split: option.splits)
    qed
  qed
qed (auto split: option.splits)

lemma closest_by_words_best:
  "case closest_by_words lower rows channel body of
      None \<Rightarrow> \<forall>r \<in> set rows. \<not> same_channel channel r
    | Some (r, s) \<Rightarrow> r \<in> set rows \<and> s = row_score lower body r \<and> same_channel channel r \<and>
        (\<forall>x \<in> set rows. same_channel channel x \<longrightarrow> row_score lower body x \<le> s)"
  using closest_loop_best [where best = None and rows = rows and lower = lower and body = body and channel = channel]
    closest_in [where lower = lower and rows = rows and body = body and channel = channel]
  by (auto simp: closest_by_words_def split: option.splits)

lemma best_dedup_candidateD:
  assumes "best_dedup_candidate lower rows a channel body exclude = Some (row, s)"
  shows "row \<in> set rows" "same_as_row a row" "s = row_score lower body row" "same_channel channel row"
    "exclude \<noteq> Some (fr_fact_id row)"
  using closest_by_words_best [where lower = lower and body = body and channel = channel and
      rows = "filter (\<lambda>row. \<not> is_some_and (\<lambda>i. i = fr_fact_id row) exclude \<and> same_as_row a row) rows"] assms
  by (auto simp: best_dedup_candidate_def)

text \<open>A claim told again word for word to the same people always finds the row it repeats.\<close>

lemma restated_claim_is_found:
  assumes "row \<in> set rows" "same_as_row a row" "same_channel channel row" "exclude \<noteq> Some (fr_fact_id row)"
    and "strip_embed_markers (fr_text row) = strip_embed_markers body"
  obtains found where "best_dedup_candidate lower rows a channel body exclude = Some (found, 1)"
proof -
  let ?rows = "filter (\<lambda>row. \<not> is_some_and (\<lambda>i. i = fr_fact_id row) exclude \<and> same_as_row a row) rows"
  have "row \<in> set ?rows" using assms(1,2,4) by (cases exclude) auto
  with closest_by_words_best [where lower = lower and rows = ?rows and body = body and channel = channel] assms(3) row_score_same [OF assms(5), of lower]
  obtain r where "best_dedup_candidate lower rows a channel body exclude = Some (r, row_score lower body r)"
      "1 \<le> row_score lower body r"
    by (force simp: best_dedup_candidate_def split: option.splits)
  with row_score_bounds(2) [of lower body r] have "best_dedup_candidate lower rows a channel body exclude = Some (r, 1)"
    by simp
  then show ?thesis by (rule that)
qed

lemma same_as_row_readers:
  assumes "same_as_row a row"
  shows "claim_readable_by a u gs = row_readable_by row u gs"
proof -
  from reader_set_determines [OF assms [unfolded same_as_row_def same_read_set_as_def, THEN conjunct1]] assms
  show ?thesis
    unfolding claim_readable_by_def row_readable_by_def row_acl_def can_read_iff same_as_row_def
    by (auto simp: granting_def)
qed

section \<open>A concrete row and claim\<close>

definition tea_env :: round_env where
  "tea_env = \<lparr>re_lower = id, re_members = members_for [\<lparr>eg_id = ''family'', eg_members = [''alice'', ''carol''], eg_scope = None\<rparr>],
     re_store = tally_env, re_now = ''t2'', re_now_nanos = 0, re_fresh_proposal = fact_id_str\<rparr>"

definition tea_memory :: memory where
  "tea_memory = \<lparr>mm_gov = \<lparr>g_proposals = [], g_votes = [], g_facts = [row_a]\<rparr>, mm_audit = []\<rparr>"

definition tea_told :: "principal list \<Rightarrow> principal list \<Rightarrow> claim_audience" where
  "tea_told allow excluded = \<lparr>au_subject = User ''alice'', au_allow = allow, au_excluded = excluded,
     au_sender = Some (User ''bob'')\<rparr>"

lemma row_a_fields [simp]:
  "fr_text row_a = ''likes tea''" "fr_subject_id row_a = User ''alice''" "fr_sender_id row_a = Some (User ''bob'')"
  "fr_allow_ids row_a = [Group ''family'']" "fr_excluded_ids row_a = []" "fr_fact_id row_a = FactId ''a''"
  "fr_deleted_at row_a = None" "fr_superseded_at row_a = None" "fr_source_path row_a = ''wikis/alice/food.md''"
  by (simp_all add: row_a_def row_of_new_fact_def sample_new_fact_def)

definition tea_fenced :: "memory \<times> (fact_row \<times> rat) option" where
  "tea_fenced = apply_exclusion_to_the_fact_already_there tea_env ''p'' [row_a]
     (tea_told [Group ''family''] [User ''carol'']) None ''likes tea'' (User ''bob'') 1 tea_memory"

definition tea_widened :: "memory \<times> (fact_row \<times> rat) option" where
  "tea_widened = carry_the_new_audience_onto_the_fact_it_folds_into tea_env ''p'' [row_a]
     (tea_told [User ''dave''] []) None ''likes tea'' (User ''bob'') 1 tea_memory"

lemma tea_closest: "closest_by_words lower [row_a] None ''likes tea'' = Some (row_a, 1)"
proof -
  have "\<not> is_channel_page ''wikis/alice/food.md''" by code_simp
  then show ?thesis by (simp add: closest_by_words_def same_channel_def row_score_same)
qed

lemma tea_fenced_row: "snd tea_fenced = Some (row_a, 1)"
  by (simp add: tea_fenced_def apply_exclusion_to_the_fact_already_there_def eligible_rows_def List.map_filter_def
      restricts_def tea_told_def the_same_readers_once_frozen_def audience_without_the_excluded_def tea_closest
      sender_may_rewrite_def eligible_row_def restrict_to_def find_by_id_def tea_memory_def sql_update_def live_def)

lemma tea_told_sides: "au_subject (tea_told al ex) = User ''alice''" "au_sender (tea_told al ex) = Some (User ''bob'')"
  by (simp_all add: tea_told_def)

lemma tea_settled: "the_audience_once_settled members row_a (tea_told [User ''dave''] []) =
  Some \<lparr>st_readers = [Group ''family'', User ''dave''], st_excluded = [], st_named_groups = [''family'']\<rparr>"
  by (simp add: the_audience_once_settled_def audience_without_the_excluded_def tea_told_def reader_set_def Let_def
      set_eq_subset groups_named_def List.map_filter_def)

lemma tea_widened_row: "snd tea_widened = Some (row_a, 1)"
  by (simp add: tea_widened_def carry_the_new_audience_onto_the_fact_it_folds_into_def tea_settled tea_closest
      tea_told_sides sender_may_rewrite_def restrict_to_def find_by_id_def tea_memory_def sql_update_def live_def)

theorem fence_only_narrows_witness:
  "\<exists>r'. g_facts (mm_gov (fst tea_fenced)) = [r'] \<and> fr_text r' = ''likes tea'' \<and>
     \<not> row_readable_by r' ''carol'' [''family'']"
proof -
  have e: "re_members tea_env = members_for [\<lparr>eg_id = ''family'', eg_members = [''alice'', ''carol''], eg_scope = None\<rparr>]"
    by (simp add: tea_env_def)
  have "tea_fenced = (fst tea_fenced, Some (row_a, 1))" using tea_fenced_row by (simp add: prod_eq_iff)
  from fence_only_narrows [OF _ _ e this [unfolded tea_fenced_def]]
  obtain r' where "g_facts (mm_gov (fst tea_fenced)) = [r']" "fr_text r' = ''likes tea''"
      "\<forall>u gs. list_ex (\<lambda>p. principal_matches p u gs) [User ''carol''] \<longrightarrow> \<not> row_readable_by r' u gs"
    by (auto simp: tea_memory_def tea_told_def tea_fenced_def)
  then show ?thesis by auto
qed

theorem wider_room_is_the_union_witness:
  "\<exists>r'. g_facts (mm_gov (fst tea_widened)) = [r'] \<and> fr_text r' = ''likes tea'' \<and> row_readable_by r' ''dave'' []"
proof -
  have e: "re_members tea_env = members_for [\<lparr>eg_id = ''family'', eg_members = [''alice'', ''carol''], eg_scope = None\<rparr>]"
    by (simp add: tea_env_def)
  have "tea_widened = (fst tea_widened, Some (row_a, 1))" using tea_widened_row by (simp add: prod_eq_iff)
  from wider_room_is_the_union [OF _ _ e this [unfolded tea_widened_def]]
  obtain r' where r: "g_facts (mm_gov (fst tea_widened)) = [r']" "fr_text r' = ''likes tea''"
      "\<forall>u. u \<noteq> [] \<longrightarrow> row_readable_by r' u (groups_for [\<lparr>eg_id = ''family'', eg_members = [''alice'', ''carol''], eg_scope = None\<rparr>] u) =
         can_read (both_audiences row_a (tea_told [User ''dave''] [])) u
           (groups_for [\<lparr>eg_id = ''family'', eg_members = [''alice'', ''carol''], eg_scope = None\<rparr>] u) (fr_sender_id row_a)"
    by (auto simp: tea_memory_def tea_told_def tea_widened_def)
  have "can_read (both_audiences row_a (tea_told [User ''dave''] [])) ''dave'' [] (fr_sender_id row_a)"
    by (simp add: both_audiences_def tea_told_def can_read_def)
  with r(3) [rule_format, of "''dave''"] have "row_readable_by r' ''dave'' []" by (simp add: groups_for_def)
  with r(1,2) show ?thesis by blast
qed

end
