(* ===== verification/Mwe_Ledgers.thy ===== *)
theory Mwe_Ledgers
  imports Mwe_Tokens
begin

text \<open>
  The small tables around a turn: the kept outcomes of \<open>crates/mwe-core/src/ingest_replay.rs\<close> (with the
  fingerprint of \<open>capture_buffer.rs\<close> and the intents of \<open>ingest.rs\<close>), the cross-consumer window of
  \<open>recent_window.rs\<close>, the failure streaks of \<open>compile_failures.rs\<close> and the settled questions of
  \<open>rem_verdicts.rs\<close>.

  Stamps are instants in nanoseconds. SHA-256 in hex is the parameter \<open>sha\<close>; writing and reading the stored
  outcome is \<open>serde_json\<close> on \<open>Wire\<close>, the parameters \<open>re_to_json\<close> and \<open>re_from_json\<close>. A failing database is not
  modelled.
\<close>

section \<open>What makes two deliveries one turn\<close>

datatype message_role = RoleUser | RoleAssistant

fun message_role_as_str :: "message_role \<Rightarrow> string" where
  "message_role_as_str RoleUser = ''user''"
| "message_role_as_str RoleAssistant = ''assistant''"

record ingest_request =
  ir_text :: string
  ir_author :: message_role
  ir_sender_id :: string
  ir_consumer_id :: "string option"
  ir_disambig_choice :: "string option"
  ir_attachments :: "catalog_id list"

record turn_key =
  tk_sender_id :: string
  tk_consumer_id :: string
  tk_author :: message_role
  tk_fingerprint :: string

definition origin_fingerprint :: "(string \<Rightarrow> string) \<Rightarrow> string \<Rightarrow> string" where
  "origin_fingerprint sha message = sha (trim message)"

definition turn_material :: "ingest_request \<Rightarrow> string" where
  "turn_material r =
     ir_text r @ concat (map (\<lambda>c. CHR 0x00 # catalog_id_str c) (ir_attachments r)) @
     (case ir_disambig_choice r of None \<Rightarrow> [] | Some choice \<Rightarrow> CHR 0x00 # choice)"

definition turn_key_of :: "(string \<Rightarrow> string) \<Rightarrow> ingest_request \<Rightarrow> turn_key" where
  "turn_key_of sha r =
     \<lparr>tk_sender_id = ir_sender_id r, tk_consumer_id = (case ir_consumer_id r of None \<Rightarrow> [] | Some c \<Rightarrow> c),
      tk_author = ir_author r, tk_fingerprint = origin_fingerprint sha (turn_material r)\<rparr>"

section \<open>The kept outcome\<close>

datatype intent_kind = Capture | Recall | Structural | Skip

fun intent_kind_as_str :: "intent_kind \<Rightarrow> string" where
  "intent_kind_as_str Capture = ''capture''"
| "intent_kind_as_str Recall = ''recall''"
| "intent_kind_as_str Structural = ''structural''"
| "intent_kind_as_str Skip = ''skip''"

definition intent_kind_parse :: "string \<Rightarrow> intent_kind option" where
  "intent_kind_parse token =
     (if token = ''capture'' then Some Capture
      else if token = ''recall'' then Some Recall
      else if token = ''structural'' then Some Structural
      else if token = ''skip'' then Some Skip else None)"

lemma intent_kind_roundtrip [simp]: "intent_kind_parse (intent_kind_as_str k) = Some k"
  by (cases k) (simp_all add: intent_kind_parse_def)

record disambig_candidate =
  dc_candidate_id :: string
  dc_description :: string

record turn_outcome =
  to_intent :: intent_kind
  to_suggested_seed :: "string option"
  to_capture_id :: "fact_id option"
  to_needs_disambig :: bool
  to_disambig_candidates :: "disambig_candidate list"
  to_notice :: "string option"
  to_llm_used :: bool

record wire_candidate =
  wc_candidate_id :: string
  wc_description :: string

record wire =
  wr_intent :: string
  wr_suggested_seed :: "string option"
  wr_capture_id :: "string option"
  wr_needs_disambig :: bool
  wr_disambig_candidates :: "wire_candidate list"
  wr_notice :: "string option"
  wr_llm_used :: bool

definition wire_of :: "turn_outcome \<Rightarrow> wire" where
  "wire_of o1 =
     \<lparr>wr_intent = intent_kind_as_str (to_intent o1), wr_suggested_seed = to_suggested_seed o1,
      wr_capture_id = map_option fact_id_str (to_capture_id o1), wr_needs_disambig = to_needs_disambig o1,
      wr_disambig_candidates =
        map (\<lambda>c. \<lparr>wc_candidate_id = dc_candidate_id c, wc_description = dc_description c\<rparr>) (to_disambig_candidates o1),
      wr_notice = to_notice o1, wr_llm_used = to_llm_used o1\<rparr>"

definition into_outcome :: "wire \<Rightarrow> turn_outcome" where
  "into_outcome w =
     \<lparr>to_intent = (case intent_kind_parse (wr_intent w) of None \<Rightarrow> Skip | Some k \<Rightarrow> k),
      to_suggested_seed = wr_suggested_seed w,
      to_capture_id = Option.bind (wr_capture_id w)
        (\<lambda>i. case fact_id_parse i of Inl _ \<Rightarrow> None | Inr f \<Rightarrow> Some f),
      to_needs_disambig = wr_needs_disambig w,
      to_disambig_candidates =
        map (\<lambda>c. \<lparr>dc_candidate_id = wc_candidate_id c, dc_description = wc_description c\<rparr>) (wr_disambig_candidates w),
      to_notice = wr_notice w, to_llm_used = wr_llm_used w\<rparr>"

record reply_row =
  ry_sender_id :: string
  ry_consumer_id :: string
  ry_author :: string
  ry_turn_hash :: string
  ry_created_at :: int
  ry_expires_at :: int
  ry_reply :: string

type_synonym replies = "reply_row list"

record replay_env =
  re_to_json :: "wire \<Rightarrow> string"
  re_from_json :: "string \<Rightarrow> wire option"

definition row_has_key :: "turn_key \<Rightarrow> reply_row \<Rightarrow> bool" where
  "row_has_key key r \<longleftrightarrow>
     ry_sender_id r = tk_sender_id key \<and> ry_consumer_id r = tk_consumer_id key \<and>
     ry_author r = message_role_as_str (tk_author key) \<and> ry_turn_hash r = tk_fingerprint key"

definition replay_of :: "replay_env \<Rightarrow> turn_key \<Rightarrow> int \<Rightarrow> replies \<Rightarrow> (turn_outcome \<times> int) option" where
  "replay_of env key now tab =
     (case List.find (\<lambda>r. row_has_key key r \<and> now < ry_expires_at r) tab of
        None \<Rightarrow> None
      | Some r \<Rightarrow>
          (case re_from_json env (ry_reply r) of
             None \<Rightarrow> None
           | Some w \<Rightarrow> Some (into_outcome w, ry_created_at r)))"

definition replay_prune :: "int \<Rightarrow> replies \<Rightarrow> replies \<times> nat" where
  "replay_prune now tab =
     (filter (\<lambda>r. \<not> ry_expires_at r \<le> now) tab, length (filter (\<lambda>r. ry_expires_at r \<le> now) tab))"

definition duration_minutes :: "int \<Rightarrow> int" where
  "duration_minutes m = duration_seconds (m * 60)"

text \<open>The primary key makes \<open>INSERT OR REPLACE\<close> drop a row of the same four parts.\<close>

definition replay_record :: "replay_env \<Rightarrow> turn_key \<Rightarrow> turn_outcome \<Rightarrow> nat \<Rightarrow> int \<Rightarrow> replies \<Rightarrow> replies" where
  "replay_record env key outcome window_minutes now tab =
     (if window_minutes = 0 then tab
      else let row = \<lparr>ry_sender_id = tk_sender_id key, ry_consumer_id = tk_consumer_id key,
                      ry_author = message_role_as_str (tk_author key), ry_turn_hash = tk_fingerprint key,
                      ry_created_at = now, ry_expires_at = now + duration_minutes (int window_minutes),
                      ry_reply = re_to_json env (wire_of outcome)\<rparr>;
               tab = filter (\<lambda>r. \<not> row_has_key key r) tab @ [row];
               tab = filter (\<lambda>r. \<not> (ry_sender_id r = tk_sender_id key \<and> \<not> row_has_key key r)) tab
           in fst (replay_prune now tab))"

section \<open>The window of recent exchanges\<close>

record exchange_row =
  xr_id :: int
  xr_user_id :: string
  xr_consumer_id :: string
  xr_channel :: string
  xr_author :: string
  xr_text :: string
  xr_occurred_at :: int

record exchange_table =
  xt_rows :: "exchange_row list"
  xt_next_id :: int

record recent_exchange =
  rx_consumer_id :: string
  rx_channel :: string
  rx_author :: message_role
  rx_text :: string
  rx_occurred_at :: int

text \<open>The newest \<open>n\<close> ids of the rows a predicate admits (\<open>ORDER BY id DESC LIMIT n\<close>).\<close>

definition newest :: "nat \<Rightarrow> exchange_row list \<Rightarrow> exchange_row list" where
  "newest n rows = take n (rev (sort_key xr_id rows))"

definition ttl_cutoff :: "int \<Rightarrow> nat \<Rightarrow> int" where
  "ttl_cutoff now ttl_hours = now - duration_seconds (int ttl_hours * 3600)"

definition exchange_row_of ::
  "int \<Rightarrow> string \<Rightarrow> string \<Rightarrow> string \<Rightarrow> message_role \<Rightarrow> string \<Rightarrow> int \<Rightarrow> exchange_row" where
  "exchange_row_of ident user_id consumer_id channel author body occurred_at =
     \<lparr>xr_id = ident, xr_user_id = user_id, xr_consumer_id = consumer_id, xr_channel = channel,
      xr_author = message_role_as_str author, xr_text = body, xr_occurred_at = occurred_at\<rparr>"

definition record_exchange ::
  "int \<Rightarrow> string \<Rightarrow> string \<Rightarrow> string \<Rightarrow> message_role \<Rightarrow> string \<Rightarrow> int \<Rightarrow> nat \<Rightarrow> nat \<Rightarrow> exchange_table \<Rightarrow> exchange_table" where
  "record_exchange now user_id consumer_id channel author body occurred_at cap ttl_hours tab =
     (if cap = 0 \<or> trim body = [] then tab
      else let row = exchange_row_of (xt_next_id tab) user_id consumer_id channel author body occurred_at;
               rows = xt_rows tab @ [row];
               rows = filter (\<lambda>r. \<not> (xr_user_id r = user_id \<and> xr_occurred_at r < ttl_cutoff now ttl_hours)) rows;
               keep = map xr_id (newest cap (filter (\<lambda>r. xr_user_id r = user_id) rows));
               rows = filter (\<lambda>r. \<not> (xr_user_id r = user_id \<and> xr_id r \<notin> set keep)) rows
           in \<lparr>xt_rows = rows, xt_next_id = xt_next_id tab + 1\<rparr>)"

datatype surface_filter = ExcludeRequester | IncludeRequester

definition recent_exchange_of :: "exchange_row \<Rightarrow> recent_exchange" where
  "recent_exchange_of r =
     \<lparr>rx_consumer_id = xr_consumer_id r, rx_channel = xr_channel r,
      rx_author = (if xr_author r = ''assistant'' then RoleAssistant else RoleUser),
      rx_text = xr_text r, rx_occurred_at = xr_occurred_at r\<rparr>"

definition own_surface :: "surface_filter \<Rightarrow> string \<Rightarrow> string option \<Rightarrow> exchange_row \<Rightarrow> bool" where
  "own_surface flt consumer channel r \<longleftrightarrow>
     (case (flt, channel) of
        (IncludeRequester, _) \<Rightarrow> False
      | (ExcludeRequester, Some ch) \<Rightarrow> xr_consumer_id r = consumer \<and> xr_channel r = ch
      | (ExcludeRequester, None) \<Rightarrow> xr_consumer_id r = consumer)"

definition fetch_window ::
  "int \<Rightarrow> string \<Rightarrow> string \<Rightarrow> string option \<Rightarrow> surface_filter \<Rightarrow> nat \<Rightarrow> nat \<Rightarrow> exchange_table \<Rightarrow> recent_exchange list" where
  "fetch_window now user_id requesting_consumer requesting_channel flt ttl_hours limit tab =
     (if limit = 0 then []
      else rev (map recent_exchange_of (newest limit
        (filter (\<lambda>r. xr_user_id r = user_id \<and> ttl_cutoff now ttl_hours \<le> xr_occurred_at r \<and>
                     \<not> own_surface flt requesting_consumer requesting_channel r) (xt_rows tab)))))"

text \<open>\<open>num_minutes\<close> rounds toward zero and negative ages count as none: \<open>nat\<close> of the floor.\<close>

definition relative_age :: "int option \<Rightarrow> int \<Rightarrow> string" where
  "relative_age occurred_at now =
     (case occurred_at of
        None \<Rightarrow> ''some time ago''
      | Some t \<Rightarrow>
          (let mins = nat ((now - t) div 60000000000)
           in if mins \<le> 1 then ''just now''
              else if mins \<le> 59 then show_nat mins @ '' min ago''
              else if mins \<le> 1439 then show_nat (mins div 60) @ '' h ago''
              else show_nat (mins div 1440) @ '' d ago''))"

section \<open>Failure streaks\<close>

definition NOTICE_THRESHOLDS :: "int list" where
  "NOTICE_THRESHOLDS = [2, 5]"

record compile_failure =
  cf_source_path :: string
  cf_consecutive :: int
  cf_last_error :: string
  cf_updated_at :: int

type_synonym compile_failures = "compile_failure list"

definition record_failure :: "int \<Rightarrow> string \<Rightarrow> string \<Rightarrow> compile_failures \<Rightarrow> compile_failures \<times> int" where
  "record_failure now source_path err tab =
     (case List.find (\<lambda>r. cf_source_path r = source_path) tab of
        None \<Rightarrow> (tab @ [\<lparr>cf_source_path = source_path, cf_consecutive = 1, cf_last_error = err, cf_updated_at = now\<rparr>], 1)
      | Some old \<Rightarrow>
          (map (\<lambda>r. if cf_source_path r = source_path
                    then r\<lparr>cf_consecutive := cf_consecutive r + 1, cf_last_error := err, cf_updated_at := now\<rparr> else r) tab,
           cf_consecutive old + 1))"

definition reset_failures :: "string \<Rightarrow> compile_failures \<Rightarrow> compile_failures" where
  "reset_failures source_path tab = filter (\<lambda>r. cf_source_path r \<noteq> source_path) tab"

definition persistent_failures :: "int \<Rightarrow> compile_failures \<Rightarrow> compile_failures" where
  "persistent_failures min_consecutive tab =
     sort_key cf_source_path (filter (\<lambda>r. min_consecutive \<le> cf_consecutive r) tab)"

definition get_failure :: "string \<Rightarrow> compile_failures \<Rightarrow> compile_failure option" where
  "get_failure source_path tab = List.find (\<lambda>r. cf_source_path r = source_path) tab"

text \<open>\<open>note_page_success\<close> and \<open>note_page_failure\<close> of the compiler; the flag says whether a notice goes out.\<close>

definition note_page_success :: "string option \<Rightarrow> compile_failures \<Rightarrow> compile_failures" where
  "note_page_success source_path tab =
     (case source_path of None \<Rightarrow> tab | Some p \<Rightarrow> reset_failures p tab)"

definition note_page_failure :: "int \<Rightarrow> string option \<Rightarrow> string \<Rightarrow> compile_failures \<Rightarrow> compile_failures \<times> int option" where
  "note_page_failure now source_path err tab =
     (case source_path of
        None \<Rightarrow> (tab, None)
      | Some p \<Rightarrow>
          (let (tab', consecutive) = record_failure now p err tab
           in (tab', if consecutive \<in> set NOTICE_THRESHOLDS then Some consecutive else None)))"

section \<open>Settled questions\<close>

record verdict_row =
  vd_kind :: string
  vd_key_hash :: string
  vd_subject_ref :: string
  vd_created_at :: int

type_synonym verdicts = "verdict_row list"

definition verdict_key :: "(string \<Rightarrow> string) \<Rightarrow> string \<Rightarrow> string \<Rightarrow> string" where
  "verdict_key sha model_id rendered_prompt = sha (model_id @ CHR 0x00 # rendered_prompt)"

definition is_settled :: "string \<Rightarrow> string \<Rightarrow> verdicts \<Rightarrow> bool" where
  "is_settled kind key_hash tab \<longleftrightarrow>
     0 < length (filter (\<lambda>r. vd_kind r = kind \<and> vd_key_hash r = key_hash) tab)"

definition record_negative :: "int \<Rightarrow> string \<Rightarrow> string \<Rightarrow> string \<Rightarrow> verdicts \<Rightarrow> verdicts" where
  "record_negative now kind key_hash subject_ref tab =
     filter (\<lambda>r. \<not> (vd_kind r = kind \<and> vd_key_hash r = key_hash)) tab @
     [\<lparr>vd_kind = kind, vd_key_hash = key_hash, vd_subject_ref = subject_ref, vd_created_at = now\<rparr>]"

definition purge_older_than :: "int \<Rightarrow> verdicts \<Rightarrow> verdicts \<times> nat" where
  "purge_older_than cutoff tab =
     (filter (\<lambda>r. \<not> vd_created_at r < cutoff) tab, length (filter (\<lambda>r. vd_created_at r < cutoff) tab))"

definition count_verdicts :: "verdicts \<Rightarrow> nat" where
  "count_verdicts tab = length tab"

section \<open>A re-delivery gets the answer that was given\<close>

definition wire_json_ok :: "replay_env \<Rightarrow> turn_outcome \<Rightarrow> bool" where
  "wire_json_ok env o1 \<longleftrightarrow> re_from_json env (re_to_json env (wire_of o1)) = Some (wire_of o1)"

definition outcome_ok :: "turn_outcome \<Rightarrow> bool" where
  "outcome_ok o1 \<longleftrightarrow>
     (case to_capture_id o1 of None \<Rightarrow> True | Some f \<Rightarrow> fact_id_parse (fact_id_str f) = Inr f)"

lemma message_role_as_str_inj: "message_role_as_str a = message_role_as_str b \<longleftrightarrow> a = b"
  by (cases a; cases b) simp_all

lemma into_outcome_wire_of:
  assumes "outcome_ok o1" shows "into_outcome (wire_of o1) = o1"
proof -
  have "map (\<lambda>c. \<lparr>dc_candidate_id = dc_candidate_id c, dc_description = dc_description c\<rparr>) cs = cs" for cs
    by (induction cs) simp_all
  then show ?thesis
    using assms
    by (cases "to_capture_id o1"; intro turn_outcome.equality)
      (simp_all add: into_outcome_def wire_of_def outcome_ok_def comp_def)
qed

lemma into_outcome_ok: "outcome_ok (into_outcome w)"
proof (cases "wr_capture_id w")
  case (Some i)
  then show ?thesis
    by (cases "fact_id_parse i") (auto simp: into_outcome_def outcome_ok_def fact_id_parse_def split: if_splits)
qed (simp add: into_outcome_def outcome_ok_def)

text \<open>The rows of one person.\<close>

abbreviation rows_of :: "string \<Rightarrow> replies \<Rightarrow> replies" where
  "rows_of s tab \<equiv> filter (\<lambda>r. ry_sender_id r = s) tab"

definition kept_row :: "replay_env \<Rightarrow> turn_key \<Rightarrow> turn_outcome \<Rightarrow> nat \<Rightarrow> int \<Rightarrow> reply_row" where
  "kept_row env key outcome window_minutes now =
     \<lparr>ry_sender_id = tk_sender_id key, ry_consumer_id = tk_consumer_id key,
      ry_author = message_role_as_str (tk_author key), ry_turn_hash = tk_fingerprint key,
      ry_created_at = now, ry_expires_at = now + duration_minutes (int window_minutes),
      ry_reply = re_to_json env (wire_of outcome)\<rparr>"

lemma kept_row_key: "row_has_key key' (kept_row env key o1 w now) \<longleftrightarrow> key' = key"
  by (auto simp: row_has_key_def kept_row_def message_role_as_str_inj)

lemma record_rows_of:
  assumes "0 < w"
  shows "rows_of (tk_sender_id key) (replay_record env key o1 w now tab) = [kept_row env key o1 w now]"
    and "s \<noteq> tk_sender_id key \<Longrightarrow>
      rows_of s (replay_record env key o1 w now tab) = filter (\<lambda>r. \<not> ry_expires_at r \<le> now) (rows_of s tab)"
proof -
  have fresh: "\<not> ry_expires_at (kept_row env key o1 w now) \<le> now" "ry_sender_id (kept_row env key o1 w now) = tk_sender_id key"
    using assms by (simp_all add: kept_row_def duration_minutes_def duration_seconds_def)
  have rec: "replay_record env key o1 w now tab =
      filter (\<lambda>r. \<not> ry_expires_at r \<le> now)
        (filter (\<lambda>r. \<not> (ry_sender_id r = tk_sender_id key \<and> \<not> row_has_key key r))
          (filter (\<lambda>r. \<not> row_has_key key r) tab @ [kept_row env key o1 w now]))"
    using assms by (simp add: replay_record_def replay_prune_def kept_row_def Let_def)
  have "row_has_key key r \<Longrightarrow> ry_sender_id r = tk_sender_id key" for r
    by (simp add: row_has_key_def)
  then show "rows_of (tk_sender_id key) (replay_record env key o1 w now tab) = [kept_row env key o1 w now]"
    unfolding rec using fresh by (auto simp: kept_row_key filter_empty_conv)
  show "rows_of s (replay_record env key o1 w now tab) = filter (\<lambda>r. \<not> ry_expires_at r \<le> now) (rows_of s tab)"
    if "s \<noteq> tk_sender_id key"
    unfolding rec using fresh that by (auto intro!: filter_cong simp: row_has_key_def)
qed

text \<open>What other people's turns and the light rounds do after a turn, on a clock that does not run backwards.\<close>

inductive others_step :: "replay_env \<Rightarrow> string \<Rightarrow> int \<times> replies \<Rightarrow> int \<times> replies \<Rightarrow> bool" for env s where
  others_record: "clock \<le> now \<Longrightarrow> tk_sender_id key \<noteq> s \<Longrightarrow>
    others_step env s (clock, tab) (now, replay_record env key o1 w now tab)"
| others_prune: "clock \<le> now \<Longrightarrow> others_step env s (clock, tab) (now, fst (replay_prune now tab))"

text \<open>The one row of the person stays, or has gone with its expiry.\<close>

definition one_reply :: "string \<Rightarrow> reply_row \<Rightarrow> int \<times> replies \<Rightarrow> bool" where
  "one_reply s row x \<longleftrightarrow> rows_of s (snd x) = [row] \<or> rows_of s (snd x) = [] \<and> ry_expires_at row \<le> fst x"

lemma one_reply_later:
  assumes "one_reply s row (clock, tab)" "clock \<le> now"
    and "rows_of s tab' = rows_of s tab \<or> rows_of s tab' = filter (\<lambda>r. \<not> ry_expires_at r \<le> now) (rows_of s tab)"
  shows "one_reply s row (now, tab')"
  using assms(1,2,3) unfolding one_reply_def fst_conv snd_conv
  by (elim disjE conjE) (simp_all only: filter.simps split: if_splits, simp_all)

lemma rows_of_prune: "rows_of s (fst (replay_prune now tab)) = filter (\<lambda>r. \<not> ry_expires_at r \<le> now) (rows_of s tab)"
  by (simp add: replay_prune_def conj_commute)

interpretation others: stepping "others_step env s" "one_reply s row" for env s row
proof unfold_locales
  fix x y
  assume inv: "one_reply s row x" and "others_step env s x y"
  from this(2) show "one_reply s row y"
  proof cases
    case (others_record clock now key tab o1 w)
    have "rows_of s (replay_record env key o1 w now tab) = rows_of s tab \<or>
        rows_of s (replay_record env key o1 w now tab) = filter (\<lambda>r. \<not> ry_expires_at r \<le> now) (rows_of s tab)"
    proof (cases "w = 0")
      case False
      then show ?thesis using record_rows_of(2) [of w s key] others_record(4) by blast
    qed (simp add: replay_record_def)
    then show ?thesis using one_reply_later inv others_record(1-3) by blast
  next
    case (others_prune clock now tab)
    then show ?thesis using one_reply_later rows_of_prune inv by blast
  qed
qed

lemma replay_of_none: "rows_of (tk_sender_id key) tab = [] \<Longrightarrow> replay_of env key now tab = None"
  by (fastforce simp: replay_of_def row_has_key_def filter_empty_conv find_Some_iff split: option.split)

lemma replay_of_rows:
  assumes "rows_of (tk_sender_id key) tab = [row]"
  shows "replay_of env key now tab =
    (if row_has_key key row \<and> now < ry_expires_at row
     then map_option (\<lambda>w. (into_outcome w, ry_created_at row)) (re_from_json env (ry_reply row)) else None)"
proof -
  have "List.find (\<lambda>r. row_has_key key r \<and> now < ry_expires_at r) tab =
      List.find (\<lambda>r. row_has_key key r \<and> now < ry_expires_at r) (rows_of (tk_sender_id key) tab)"
  proof (induction tab)
    case (Cons r tab)
    then show ?case by (cases "ry_sender_id r = tk_sender_id key") (auto simp: row_has_key_def)
  qed simp
  then show ?thesis
    unfolding replay_of_def assms by (auto split: option.splits)
qed

text \<open>
  C25: A re-delivery inside the window gets exactly the outcome its turn ended with and the instant it ended,
  and one past the window gets nothing, whatever other people's turns and the light rounds do in between, inside
  the window or after it, on a clock that does not run backwards. Any other turn key of the same person gets
  nothing: only the last one is repeatable. A turn is known by its key alone, and two turns can share one
  (\<open>media_and_choice_collide\<close>).
\<close>

theorem redelivery_gets_its_answer:
  assumes "wire_json_ok env o1" "outcome_ok o1" "0 < w"
    and "(others_step env (tk_sender_id key))\<^sup>*\<^sup>* (t, replay_record env key o1 w t tab) (clock, tab')" "clock \<le> now"
  shows "(replay_of env key now tab' = (if now < t + duration_minutes (int w) then Some (o1, t) else None)) \<and>
    (tk_sender_id key' = tk_sender_id key \<and> key' \<noteq> key \<longrightarrow> replay_of env key' now tab' = None)"
proof (intro conjI)
  let ?row = "kept_row env key o1 w t"
  have "one_reply (tk_sender_id key) ?row (t, replay_record env key o1 w t tab)"
    using record_rows_of(1) [OF assms(3)] by (simp add: one_reply_def)
  from others.reachable_keeps [OF assms(4) this]
  have rows: "rows_of (tk_sender_id key) tab' = [?row] \<or>
      rows_of (tk_sender_id key) tab' = [] \<and> t + duration_minutes (int w) \<le> now"
    using assms(5) by (auto simp: one_reply_def kept_row_def)
  have reply: "re_from_json env (ry_reply ?row) = Some (wire_of o1)"
    using assms(1) by (simp add: wire_json_ok_def kept_row_def)
  show "replay_of env key now tab' = (if now < t + duration_minutes (int w) then Some (o1, t) else None)"
    using rows
  proof (elim disjE conjE)
    assume one: "rows_of (tk_sender_id key) tab' = [?row]"
    show ?thesis
      unfolding replay_of_rows [OF one] reply
      by (auto simp: kept_row_key into_outcome_wire_of [OF assms(2)]) (simp_all add: kept_row_def)
  qed (simp add: replay_of_none)
  show "tk_sender_id key' = tk_sender_id key \<and> key' \<noteq> key \<longrightarrow> replay_of env key' now tab' = None"
  proof (intro impI, elim conjE)
    assume that: "tk_sender_id key' = tk_sender_id key" "key' \<noteq> key"
    from rows that(1) have "rows_of (tk_sender_id key') tab' = [?row] \<or> rows_of (tk_sender_id key') tab' = []" by auto
    then show "replay_of env key' now tab' = None"
      using replay_of_rows [of key' tab' ?row env now] that(2) by (auto simp: kept_row_key replay_of_none)
  qed
qed

text \<open>
  C33: Whatever text a stored row holds, an outcome that is served is well formed: its capture id, when it has
  one, is a fact id the constructor accepts, and the row was this turn's own and had not expired.
\<close>

theorem served_outcome_is_well_formed:
  assumes "replay_of env key now tab = Some (o1, t)"
  shows "outcome_ok o1 \<and> (\<exists>r \<in> set tab. row_has_key key r \<and> now < ry_expires_at r \<and> ry_created_at r = t)"
proof -
  from assms obtain r w where r: "List.find (\<lambda>r. row_has_key key r \<and> now < ry_expires_at r) tab = Some r"
      and o1: "o1 = into_outcome w" "t = ry_created_at r"
    by (auto simp: replay_of_def split: option.splits)
  from r have "r \<in> set tab \<and> row_has_key key r \<and> now < ry_expires_at r"
    by (auto simp: find_Some_iff)
  with o1 into_outcome_ok show ?thesis by auto
qed

text \<open>
  The parts of the fingerprint are not told apart: a turn that carries a media item and one that answers a
  question with that item's id are the same turn.
\<close>

lemma media_and_choice_collide:
  assumes "ir_attachments r = [CatalogId c]" "ir_disambig_choice r = None"
  shows "turn_key_of sha (r\<lparr>ir_attachments := [], ir_disambig_choice := Some c\<rparr>) = turn_key_of sha r"
  using assms by (simp add: turn_key_of_def turn_material_def)


section \<open>The window stays within its bounds\<close>

definition exchanges_ok :: "nat \<Rightarrow> exchange_table \<Rightarrow> bool" where
  "exchanges_ok cap tab \<longleftrightarrow>
     distinct (map xr_id (xt_rows tab)) \<and> (\<forall>r \<in> set (xt_rows tab). xr_id r < xt_next_id tab) \<and>
     (\<forall>u. length (filter (\<lambda>r. xr_user_id r = u) (xt_rows tab)) \<le> cap)"

inductive exchange_step :: "nat \<Rightarrow> exchange_table \<Rightarrow> exchange_table \<Rightarrow> bool" for most where
  "cap \<le> most \<Longrightarrow> exchange_step most tab (record_exchange now u c ch author body t cap ttl tab)"

lemma filter_length_mono:
  "(\<And>x. x \<in> set xs \<Longrightarrow> P x \<Longrightarrow> Q x) \<Longrightarrow> length (filter P xs) \<le> length (filter Q xs)"
  by (induction xs) auto

lemma length_filter_mem:
  assumes "distinct (map f xs)" shows "length (filter (\<lambda>x. f x \<in> S) xs) \<le> card (S \<inter> f ` set xs)"
proof -
  have "card (f ` set (filter (\<lambda>x. f x \<in> S) xs)) = length (filter (\<lambda>x. f x \<in> S) xs)"
    using assms by (metis distinct_card distinct_map_filter length_map set_map)
  moreover have "f ` set (filter (\<lambda>x. f x \<in> S) xs) = S \<inter> f ` set xs" by auto
  ultimately show ?thesis by simp
qed

lemma record_exchange_rows:
  assumes "cap \<noteq> 0" "trim body \<noteq> []" and row: "row = exchange_row_of (xt_next_id tab) u c ch author body t"
  obtains P where "xt_rows (record_exchange now u c ch author body t cap ttl tab) = filter P (xt_rows tab @ [row])"
    "\<And>r. xr_user_id r \<noteq> u \<Longrightarrow> P r"
    "distinct (map xr_id (xt_rows tab @ [row])) \<Longrightarrow> length (filter (\<lambda>r. P r \<and> xr_user_id r = u) (xt_rows tab @ [row])) \<le> cap"
proof -
  define A where "A = (\<lambda>r :: exchange_row. \<not> (xr_user_id r = u \<and> xr_occurred_at r < ttl_cutoff now ttl))"
  define keep where "keep = map xr_id (newest cap (filter (\<lambda>r. xr_user_id r = u) (filter A (xt_rows tab @ [row]))))"
  let ?P = "\<lambda>r. A r \<and> \<not> (xr_user_id r = u \<and> xr_id r \<notin> set keep)"
  show thesis
  proof (rule that [of ?P])
    show "xt_rows (record_exchange now u c ch author body t cap ttl tab) = filter ?P (xt_rows tab @ [row])"
      using assms(1,2) unfolding record_exchange_def Let_def row [symmetric] A_def [symmetric] keep_def [symmetric]
      by (simp add: conj_commute)
    show "?P r" if "xr_user_id r \<noteq> u" for r
      using that by (simp add: A_def)
    assume d: "distinct (map xr_id (xt_rows tab @ [row]))"
    have "length (filter (\<lambda>r. ?P r \<and> xr_user_id r = u) (xt_rows tab @ [row]))
        \<le> length (filter (\<lambda>r. xr_id r \<in> set keep) (xt_rows tab @ [row]))"
      by (intro filter_length_mono) auto
    also have "\<dots> \<le> card (set keep \<inter> xr_id ` set (xt_rows tab @ [row]))"
      by (rule length_filter_mem [OF d])
    also have "\<dots> \<le> card (set keep)" by (simp add: card_mono)
    also have "\<dots> \<le> cap"
      unfolding keep_def newest_def by (rule order_trans [OF card_length]) simp
    finally show "length (filter (\<lambda>r. ?P r \<and> xr_user_id r = u) (xt_rows tab @ [row])) \<le> cap" .
  qed
qed

lemma record_exchange_ok:
  assumes ok: "exchanges_ok most tab" and "cap \<le> most"
  shows "exchanges_ok most (record_exchange now u c ch author body t cap ttl tab)"
proof (cases "cap = 0 \<or> trim body = []")
  case True
  with ok show ?thesis by (simp add: record_exchange_def)
next
  case False
  let ?tab = "record_exchange now u c ch author body t cap ttl tab"
  let ?row = "exchange_row_of (xt_next_id tab) u c ch author body t"
  from False have c: "cap \<noteq> 0" "trim body \<noteq> []" by simp_all
  obtain P where P: "xt_rows ?tab = filter P (xt_rows tab @ [?row])" "\<And>r. xr_user_id r \<noteq> u \<Longrightarrow> P r"
      "distinct (map xr_id (xt_rows tab @ [?row])) \<Longrightarrow>
        length (filter (\<lambda>r. P r \<and> xr_user_id r = u) (xt_rows tab @ [?row])) \<le> cap"
    using record_exchange_rows [OF c refl, where tab = tab and now = now and u = u and c = c and ch = ch
        and author = author and t = t and ttl = ttl] by blast
  have "xt_next_id ?tab = xt_next_id tab + 1" using False by (simp add: record_exchange_def Let_def)
  moreover have d: "distinct (map xr_id (xt_rows tab @ [?row]))"
    using ok by (auto simp: exchanges_ok_def exchange_row_of_def)
  moreover have "length (filter (\<lambda>r. xr_user_id r = v) (xt_rows ?tab)) \<le> most" for v
  proof (cases "v = u")
    case True
    show ?thesis
      unfolding P(1) filter_filter True by (rule order_trans [OF P(3) [OF d] assms(2)])
  next
    case False
    then have "filter (\<lambda>r. xr_user_id r = v) (xt_rows ?tab) = filter (\<lambda>r. xr_user_id r = v) (xt_rows tab)"
      unfolding P(1) using P(2) by (auto intro!: filter_cong simp: exchange_row_of_def)
    with ok show ?thesis by (simp add: exchanges_ok_def)
  qed
  moreover have "\<forall>r \<in> set (xt_rows ?tab). xr_id r < xt_next_id tab + 1"
    unfolding P(1) using ok
    by (auto simp: exchanges_ok_def exchange_row_of_def intro: order_less_imp_le)
  moreover have "distinct (map xr_id (xt_rows ?tab))"
    unfolding P(1) by (rule distinct_map_filter [OF d])
  ultimately show ?thesis
    unfolding exchanges_ok_def by (intro conjI allI) simp_all
qed

interpretation exchanges: stepping "exchange_step most" "exchanges_ok most" for most
  by unfold_locales (auto elim!: exchange_step.cases intro: record_exchange_ok)

text \<open>
  The buffer cannot outgrow its contract: after any sequence of exchanges, whatever their clocks, nobody
  has more rows than the largest cap in force, and a requester that holds its own context is never served
  an exchange of its own surface, an expired one or somebody else's.
\<close>

lemma window_stays_bounded:
  assumes "(exchange_step most)\<^sup>*\<^sup>* \<lparr>xt_rows = [], xt_next_id = 1\<rparr> tab"
  shows "(length (filter (\<lambda>r. xr_user_id r = u) (xt_rows tab)) \<le> most) \<and>
    (length (fetch_window now u consumer channel flt ttl limit tab) \<le> min limit most) \<and>
    (x \<in> set (fetch_window now u consumer channel ExcludeRequester ttl limit tab) \<longrightarrow>
      ttl_cutoff now ttl \<le> rx_occurred_at x \<and>
      \<not> (rx_consumer_id x = consumer \<and> (channel = None \<or> channel = Some (rx_channel x))))"
proof (intro conjI)
  have "exchanges_ok most \<lparr>xt_rows = [], xt_next_id = 1\<rparr>" by (simp add: exchanges_ok_def)
  from exchanges.reachable_keeps [OF assms this]
  show rows: "length (filter (\<lambda>r. xr_user_id r = u) (xt_rows tab)) \<le> most"
    by (simp add: exchanges_ok_def)
  let ?Q = "\<lambda>r. xr_user_id r = u \<and> ttl_cutoff now ttl \<le> xr_occurred_at r \<and> \<not> own_surface flt consumer channel r"
  have "length (filter ?Q (xt_rows tab)) \<le> length (filter (\<lambda>r. xr_user_id r = u) (xt_rows tab))"
    by (rule filter_length_mono) simp
  with rows show "length (fetch_window now u consumer channel flt ttl limit tab) \<le> min limit most"
    by (auto simp: fetch_window_def newest_def)
  show "x \<in> set (fetch_window now u consumer channel ExcludeRequester ttl limit tab) \<longrightarrow>
      ttl_cutoff now ttl \<le> rx_occurred_at x \<and>
      \<not> (rx_consumer_id x = consumer \<and> (channel = None \<or> channel = Some (rx_channel x)))"
    by (auto simp: fetch_window_def newest_def recent_exchange_of_def own_surface_def
        split: if_splits option.splits dest!: in_set_takeD)
qed


section \<open>A streak is counted from the last clean compile\<close>

datatype compile_result = CleanCompile "string option" | FailedCompile "string option" string

text \<open>The ledger after a sequence of compiles, and the notices sent on the way: page and count.\<close>

fun run_compiles :: "int \<Rightarrow> compile_result list \<Rightarrow> compile_failures \<Rightarrow> compile_failures \<times> (string \<times> int) list" where
  "run_compiles now [] tab = (tab, [])"
| "run_compiles now (CleanCompile p # cs) tab = run_compiles now cs (note_page_success p tab)"
| "run_compiles now (FailedCompile p err # cs) tab =
     (let (tab1, notice) = note_page_failure now p err tab;
          (tab2, notices) = run_compiles now cs tab1
      in (tab2, map (Pair (the p)) (opt_list notice) @ notices))"

text \<open>What it should say: the failures of the page since its last clean compile, and the counts it notices.\<close>

fun streak_after :: "string \<Rightarrow> compile_result list \<Rightarrow> int \<Rightarrow> int" where
  "streak_after p [] n = n"
| "streak_after p (CleanCompile q # cs) n = streak_after p cs (if q = Some p then 0 else n)"
| "streak_after p (FailedCompile q err # cs) n = streak_after p cs (if q = Some p then n + 1 else n)"

fun streak_notices :: "string \<Rightarrow> compile_result list \<Rightarrow> int \<Rightarrow> int list" where
  "streak_notices p [] n = []"
| "streak_notices p (CleanCompile q # cs) n = streak_notices p cs (if q = Some p then 0 else n)"
| "streak_notices p (FailedCompile q err # cs) n =
     (if q = Some p then (if n + 1 = 2 \<or> n + 1 = 5 then [n + 1] else []) @ streak_notices p cs (n + 1)
      else streak_notices p cs n)"

definition ledger_says :: "compile_failures \<Rightarrow> string \<Rightarrow> int \<Rightarrow> bool" where
  "ledger_says tab p n \<longleftrightarrow>
     (case get_failure p tab of None \<Rightarrow> n = 0 | Some r \<Rightarrow> cf_consecutive r = n \<and> 0 < n)"

lemma find_map_same:
  assumes "\<And>r. r \<in> set xs \<Longrightarrow> P (f r) = P r"
  shows "List.find P (map f xs) = map_option f (List.find P xs)"
  using assms by (induction xs) auto

lemma find_append: "List.find P (xs @ ys) = (case List.find P xs of None \<Rightarrow> List.find P ys | Some x \<Rightarrow> Some x)"
  by (induction xs) auto

lemma record_failure_says:
  assumes "ledger_says tab p n"
  shows "ledger_says (fst (record_failure now p err tab)) p (n + 1)" "snd (record_failure now p err tab) = n + 1"
    and "q \<noteq> p \<Longrightarrow> get_failure q (fst (record_failure now p err tab)) = get_failure q tab"
proof -
  let ?f = "\<lambda>r. if cf_source_path r = p then r\<lparr>cf_consecutive := cf_consecutive r + 1, cf_last_error := err, cf_updated_at := now\<rparr> else r"
  have same: "List.find (\<lambda>r. cf_source_path r = v) (map ?f tab) = map_option ?f (List.find (\<lambda>r. cf_source_path r = v) tab)" for v
    by (rule find_map_same) auto
  have hit: "cf_source_path r = v" if "List.find (\<lambda>r. cf_source_path r = v) tab = Some r" for v r
    using that by (auto simp: find_Some_iff)
  show "ledger_says (fst (record_failure now p err tab)) p (n + 1)" "snd (record_failure now p err tab) = n + 1"
  proof -
    consider "get_failure p tab = None" "n = 0" | r where "get_failure p tab = Some r" "cf_consecutive r = n" "0 < n"
      using assms by (auto simp: ledger_says_def split: option.splits)
    then have "ledger_says (fst (record_failure now p err tab)) p (n + 1) \<and> snd (record_failure now p err tab) = n + 1"
    proof cases
      case 1
      then show ?thesis by (simp add: ledger_says_def get_failure_def record_failure_def find_append)
    next
      case (2 r)
      then show ?thesis
        using hit [of p r] by (simp add: ledger_says_def get_failure_def record_failure_def same)
    qed
    then show "ledger_says (fst (record_failure now p err tab)) p (n + 1)" "snd (record_failure now p err tab) = n + 1"
      by blast+
  qed
  show "get_failure q (fst (record_failure now p err tab)) = get_failure q tab" if "q \<noteq> p"
  proof (cases "get_failure p tab")
    case None
    with that show ?thesis by (simp add: get_failure_def record_failure_def find_append split: option.splits)
  next
    case (Some r)
    have "map_option ?f (get_failure q tab) = get_failure q tab"
      using that hit [of q] by (cases "get_failure q tab") (auto simp: get_failure_def)
    with Some show ?thesis by (simp add: get_failure_def record_failure_def same)
  qed
qed

lemma reset_failures_says:
  "ledger_says (reset_failures p tab) p 0" "q \<noteq> p \<Longrightarrow> get_failure q (reset_failures p tab) = get_failure q tab"
proof -
  have "List.find (\<lambda>r. cf_source_path r = p) (filter (\<lambda>r. cf_source_path r \<noteq> p) tab) = None"
    by (auto simp: find_None_iff)
  then show "ledger_says (reset_failures p tab) p 0"
    by (simp add: ledger_says_def get_failure_def reset_failures_def)
  show "q \<noteq> p \<Longrightarrow> get_failure q (reset_failures p tab) = get_failure q tab"
    by (induction tab) (auto simp: get_failure_def reset_failures_def)
qed

lemma ledger_says_cong: "get_failure p tab' = get_failure p tab \<Longrightarrow> ledger_says tab' p n = ledger_says tab p n"
  by (simp add: ledger_says_def)

lemma run_compiles_streak:
  assumes "\<And>p. ledger_says tab p (n p)"
  shows "ledger_says (fst (run_compiles now cs tab)) p (streak_after p cs (n p)) \<and>
     map snd (filter (\<lambda>x. fst x = p) (snd (run_compiles now cs tab))) = streak_notices p cs (n p)"
  using assms
proof (induction cs arbitrary: tab n)
  case Nil
  then show ?case by simp
next
  case (Cons c cs)
  show ?case
  proof (cases c)
    case (CleanCompile q)
    have "ledger_says (note_page_success q tab) r ((\<lambda>r. if q = Some r then 0 else n r) r)" for r
    proof (cases q)
      case (Some f)
      show ?thesis
      proof (cases "r = f")
        case True
        with Some show ?thesis by (simp add: note_page_success_def reset_failures_says(1))
      next
        case False
        with Cons.prems [of r] Some ledger_says_cong [OF reset_failures_says(2) [OF False]] show ?thesis
          by (simp add: note_page_success_def)
      qed
    qed (use Cons.prems in \<open>simp add: note_page_success_def\<close>)
    from Cons.IH [OF this] CleanCompile show ?thesis by simp
  next
    case (FailedCompile q err)
    show ?thesis
    proof (cases q)
      case None
      with Cons FailedCompile show ?thesis
        by (auto simp: note_page_failure_def Let_def split: prod.splits)
    next
      case (Some f)
      let ?r = "record_failure now f err tab"
      have says: "ledger_says (fst ?r) r ((\<lambda>r. if q = Some r then n r + 1 else n r) r)" for r
      proof (cases "r = f")
        case True
        with Some record_failure_says(1) [OF Cons.prems [of f]] show ?thesis by simp
      next
        case False
        with Cons.prems [of r] Some ledger_says_cong [OF record_failure_says(3) [OF Cons.prems [of f] False]]
        show ?thesis by simp
      qed
      have count: "snd ?r = n f + 1" by (rule record_failure_says(2) [OF Cons.prems])
      have run: "run_compiles now (c # cs) tab = (fst (run_compiles now cs (fst ?r)),
          (if n f + 1 \<in> {2, 5} then [(f, n f + 1)] else []) @ snd (run_compiles now cs (fst ?r)))"
        using FailedCompile Some count
        by (cases ?r) (auto simp: note_page_failure_def NOTICE_THRESHOLDS_def Let_def split: prod.splits)
      from Cons.IH [OF says] show ?thesis
        unfolding run using FailedCompile Some by auto
    qed
  qed
qed

text \<open>
  The failure ledger counts streaks: after any sequence of compiles starting from an empty ledger it holds,
  for each page, the number of failures since its last clean compile, and the operator was noticed of that
  page exactly when a streak reached two and when it reached five.
\<close>

lemma ledger_counts_streaks:
  "ledger_says (fst (run_compiles now cs [])) p (streak_after p cs 0) \<and>
   map snd (filter (\<lambda>x. fst x = p) (snd (run_compiles now cs []))) = streak_notices p cs 0"
proof -
  have "ledger_says [] p 0" for p by (simp add: ledger_says_def get_failure_def)
  from run_compiles_streak [of "[]" "\<lambda>_. 0", OF this] show ?thesis by simp
qed

section \<open>A question is settled until its memo ages\<close>

lemma is_settled_iff: "is_settled k h tab \<longleftrightarrow> (\<exists>r \<in> set tab. vd_kind r = k \<and> vd_key_hash r = h)"
  by (simp add: is_settled_def filter_empty_conv)

lemma record_negative_settles:
  "is_settled k h (record_negative now k' h' ref tab) \<longleftrightarrow> (k = k' \<and> h = h') \<or> is_settled k h tab"
  by (simp add: is_settled_iff record_negative_def bex_Un) metis

lemma purge_keeps_the_young:
  assumes "cutoff \<le> now"
  shows "is_settled k h (fst (purge_older_than cutoff (record_negative now k h ref tab)))"
  unfolding is_settled_iff purge_older_than_def record_negative_def using assms by simp

text \<open>Another model, or another prompt, is another question, as long as the model id holds no NUL.\<close>

lemma verdict_key_inj:
  assumes "inj sha" "CHR 0x00 \<notin> set m" "CHR 0x00 \<notin> set m'" "verdict_key sha m p = verdict_key sha m' p'"
  shows "m = m' \<and> p = p'"
proof -
  from assms(1,4) have eq: "m @ CHR 0x00 # p = m' @ CHR 0x00 # p'"
    by (simp add: verdict_key_def inj_eq)
  have "split_once CHR 0x00 (m @ CHR 0x00 # p) = Some (m, p)"
    using assms(2) by (subst split_once_Some_iff) simp
  moreover have "split_once CHR 0x00 (m' @ CHR 0x00 # p') = Some (m', p')"
    using assms(3) by (subst split_once_Some_iff) simp
  ultimately show ?thesis unfolding eq by simp
qed


section \<open>Examples\<close>

definition sample_turn :: turn_key where
  "sample_turn = \<lparr>tk_sender_id = ''anna'', tk_consumer_id = ''bot'', tk_author = RoleUser, tk_fingerprint = ''f''\<rparr>"

definition sample_outcome :: turn_outcome where
  "sample_outcome = \<lparr>to_intent = Recall, to_suggested_seed = Some ''hello'', to_capture_id = None,
     to_needs_disambig = False, to_disambig_candidates = [], to_notice = None, to_llm_used = True\<rparr>"

text \<open>An encoding of the stored outcomes by one of their texts is enough for the example.\<close>

definition sample_replay_env :: replay_env where
  "sample_replay_env =
     \<lparr>re_to_json = (\<lambda>w. if w = wire_of sample_outcome then ''recall'' else ''other''),
      re_from_json = (\<lambda>t. if t = ''recall'' then Some (wire_of sample_outcome) else None)\<rparr>"


theorem redelivery_gets_its_answer_witness:
  "replay_of sample_replay_env sample_turn 5
     (fst (replay_prune 3 (replay_record sample_replay_env sample_turn sample_outcome 10 2 []))) = Some (sample_outcome, 2)"
proof -
  have "(others_step sample_replay_env (tk_sender_id sample_turn))\<^sup>*\<^sup>*
      (2, replay_record sample_replay_env sample_turn sample_outcome 10 2 [])
      (3, fst (replay_prune 3 (replay_record sample_replay_env sample_turn sample_outcome 10 2 [])))"
    by (rule r_into_rtranclp, rule others_prune) simp
  from redelivery_gets_its_answer [OF _ _ _ this, of 5]
  show ?thesis
    by (simp add: wire_json_ok_def sample_replay_env_def outcome_ok_def sample_outcome_def
        duration_minutes_def duration_seconds_def)
qed

definition forged_row :: reply_row where
  "forged_row = \<lparr>ry_sender_id = ''anna'', ry_consumer_id = ''bot'', ry_author = ''user'', ry_turn_hash = ''f'',
     ry_created_at = 1, ry_expires_at = 9, ry_reply = ''forged''\<rparr>"

definition forging_env :: replay_env where
  "forging_env =
     \<lparr>re_to_json = (\<lambda>w. ''x''),
      re_from_json = (\<lambda>t. Some \<lparr>wr_intent = ''erase'', wr_suggested_seed = None, wr_capture_id = Some ''../../etc'',
        wr_needs_disambig = False, wr_disambig_candidates = [], wr_notice = None, wr_llm_used = False\<rparr>)\<rparr>"

theorem served_outcome_is_well_formed_witness:
  "\<exists>o1. replay_of forging_env sample_turn 5 [forged_row] = Some (o1, 1) \<and> outcome_ok o1 \<and> to_capture_id o1 = None"
proof -
  obtain o1 where o1: "replay_of forging_env sample_turn 5 [forged_row] = Some (o1, 1)" "to_capture_id o1 = None"
    by (simp add: replay_of_def forging_env_def forged_row_def row_has_key_def sample_turn_def into_outcome_def
        fact_id_parse_def)
  with served_outcome_is_well_formed [OF o1(1)] show ?thesis by blast
qed

lemma window_stays_bounded_witness:
  "\<exists>tab. (exchange_step 1)\<^sup>*\<^sup>* \<lparr>xt_rows = [], xt_next_id = 1\<rparr> tab \<and> xt_next_id tab = 3 \<and>
     length (filter (\<lambda>r. xr_user_id r = ''anna'') (xt_rows tab)) = 1"
proof -
  let ?one = "record_exchange 0 ''anna'' ''bot'' ''telegram'' RoleUser ''ciao'' 0 1 4 \<lparr>xt_rows = [], xt_next_id = 1\<rparr>"
  let ?two = "record_exchange 0 ''anna'' ''bot'' ''kitchen'' RoleUser ''bread'' 0 1 4 ?one"
  have "exchange_step 1 \<lparr>xt_rows = [], xt_next_id = 1\<rparr> ?one" "exchange_step 1 ?one ?two"
    by (rule exchange_step.intros, simp)+
  then have run: "(exchange_step 1)\<^sup>*\<^sup>* \<lparr>xt_rows = [], xt_next_id = 1\<rparr> ?two"
    by (meson rtranclp.rtrancl_into_rtrancl rtranclp.rtrancl_refl)
  have "xt_next_id ?two = 3" "length (filter (\<lambda>r. xr_user_id r = ''anna'') (xt_rows ?two)) = 1"
    by code_simp+
  with run window_stays_bounded [OF run, of "''anna''"] show ?thesis by blast
qed


end
