(* ===== verification/Mwe_Buffer.thy ===== *)
theory Mwe_Buffer
  imports Mwe_Capture Mwe_Ledgers
begin

text \<open>
  The captures buffer (\<open>crates/mwe-core/src/capture_buffer.rs\<close>): where a claim waits between the turn that
  captured it and the round that writes it, the claims parked behind a question, and the way back of a
  fact whose page goes away. With it, what an erasure does to the claims that wait (\<open>forget_captures\<close> of
  \<open>gdpr.rs\<close>, \<open>close_conflicts_parking\<close> of \<open>proposals.rs\<close>).

  The table \<open>capture_buffer\<close> is the list of its rows; a row carries the column \<open>recall_log_id\<close> beside the
  fields of \<open>BufferedCapture\<close>. Instants of capture are nanoseconds, the stamps the engine only stores are
  text, a vector is its stored bytes. Lemmas: one row per id, windows that do not end before they start,
  and a row that does not wait keeps its status and its columns until a step answers it. A status moves along
  \<open>held \<rightarrow> buffered \<rightarrow> promoted | skipped_dup\<close>, and back to \<open>buffered\<close> when the fact of that id is queued again.
\<close>

section \<open>Rows\<close>

datatype capture_status = Buffered | Promoted | SkippedDup | Held

fun capture_status_as_str :: "capture_status \<Rightarrow> string" where
  "capture_status_as_str Buffered = ''buffered''"
| "capture_status_as_str Promoted = ''promoted''"
| "capture_status_as_str SkippedDup = ''skipped_dup''"
| "capture_status_as_str Held = ''held''"

definition capture_status_from_db :: "string \<Rightarrow> capture_status" where
  "capture_status_from_db s =
     (if s = ''promoted'' then Promoted else if s = ''skipped_dup'' then SkippedDup
      else if s = ''held'' then Held else Buffered)"

record buffered_capture =
  cb_capture_id :: fact_id
  cb_body :: string
  cb_subject :: principal
  cb_subject_external :: "string option"
  cb_slot :: "string option"
  cb_slot_value :: "string option"
  cb_allow :: "principal list"
  cb_excluded :: "principal list"
  cb_sender :: "principal option"
  cb_fact_type :: "string option"
  cb_topics :: "string list"
  cb_supersede_hint :: "fact_id option"
  cb_status :: capture_status
  cb_captured_at :: int
  cb_processed_at :: "string option"
  cb_resolved_fact_id :: "fact_id option"
  cb_source_kind :: string
  cb_source_ref :: "string option"
  cb_valid_from :: "bound option"
  cb_valid_to :: "bound option"
  cb_decay_reason :: "string option"
  cb_style :: "page_style option"
  cb_salience :: "string option"
  cb_placement_attempts :: int
  cb_last_attempt_at :: "string option"
  cb_authored_refs :: "string list"
  cb_embedding :: "string option"
  cb_origin_message_hash :: "string option"
  cb_recall_log_id :: "int option"

type_synonym buffer = "buffered_capture list"

record capture_request =
  cr_wiki_id :: string
  cr_page :: "string option"
  cr_body :: string
  cr_subject :: principal
  cr_subject_external :: "string option"
  cr_allow :: "principal list"
  cr_sender :: "principal option"
  cr_fact_type :: "string option"
  cr_topics :: "string list"
  cr_dedup_threshold :: "rat option"
  cr_valid_from :: "bound option"
  cr_valid_to :: "bound option"
  cr_style :: "page_style option"
  cr_page_description :: "string option"
  cr_salience :: "string option"
  cr_slot :: "string option"
  cr_slot_value :: "string option"
  cr_excluded :: "principal list"
  cr_authored_refs :: "string list"

record buffer_staging =
  bs_embedding :: "string option"
  bs_origin_message_hash :: "string option"

definition default_staging :: buffer_staging where
  "default_staging = \<lparr>bs_embedding = None, bs_origin_message_hash = None\<rparr>"

text \<open>\<open>BufferStaging::build\<close>; \<open>embedder\<close> is the model, \<^const>\<open>None\<close> a fault of it.\<close>

definition build_staging ::
  "(string \<Rightarrow> string option) \<Rightarrow> (string \<Rightarrow> string) \<Rightarrow> string \<Rightarrow> string option \<Rightarrow> buffer_staging" where
  "build_staging embedder sha body origin_message =
     \<lparr>bs_embedding = embedder (strip_embed_markers body),
      bs_origin_message_hash = map_option (origin_fingerprint sha) origin_message\<rparr>"

datatype capture_buffer_error = EmptyBody | BodyContainsReserved

section \<open>Writing a claim down\<close>

definition validate_buffer_body :: "string \<Rightarrow> capture_buffer_error + unit" where
  "validate_buffer_body body =
     (if blank body then Inl EmptyBody
      else if contains_sub body ''<!--'' then Inl BodyContainsReserved
      else if (contains_sub body ''{{'' \<or> contains_sub body ''}}'') \<and> embed_only_markers body = None
      then Inl BodyContainsReserved else Inr ())"

text \<open>\<open>INSERT \<dots> ON CONFLICT(capture_id) DO NOTHING\<close>.\<close>

definition insert_row :: "buffered_capture \<Rightarrow> buffer \<Rightarrow> buffer" where
  "insert_row cap buf = (if cb_capture_id cap \<in> set (map cb_capture_id buf) then buf else buf @ [cap])"

definition capture_of ::
  "int \<Rightarrow> fact_id \<Rightarrow> capture_request \<Rightarrow> fact_id option \<Rightarrow> string \<Rightarrow> string option \<Rightarrow> buffer_staging \<Rightarrow>
   capture_status \<Rightarrow> buffered_capture" where
  "capture_of now i req hint source_kind source_ref staging status =
     \<lparr>cb_capture_id = i, cb_body = cr_body req, cb_subject = cr_subject req,
      cb_subject_external = cr_subject_external req, cb_slot = cr_slot req, cb_slot_value = cr_slot_value req,
      cb_allow = cr_allow req, cb_excluded = cr_excluded req,
      cb_sender = (case cr_sender req of None \<Rightarrow> Some (cr_subject req) | Some s \<Rightarrow> Some s),
      cb_fact_type = cr_fact_type req, cb_topics = cr_topics req, cb_supersede_hint = hint, cb_status = status,
      cb_captured_at = now, cb_processed_at = None, cb_resolved_fact_id = None, cb_source_kind = source_kind,
      cb_source_ref = source_ref, cb_valid_from = cr_valid_from req, cb_valid_to = cr_valid_to req,
      cb_decay_reason = None, cb_style = cr_style req, cb_salience = cr_salience req, cb_placement_attempts = 0,
      cb_last_attempt_at = None, cb_authored_refs = cr_authored_refs req, cb_embedding = bs_embedding staging,
      cb_origin_message_hash = bs_origin_message_hash staging, cb_recall_log_id = None\<rparr>"

text \<open>\<open>fresh\<close> is the UUID v7 drawn when the caller brings no id of its own.\<close>

definition write_capture ::
  "int \<Rightarrow> fact_id \<Rightarrow> capture_request \<Rightarrow> fact_id option \<Rightarrow> string \<Rightarrow> string option \<Rightarrow> buffer_staging \<Rightarrow>
   capture_status \<Rightarrow> fact_id option \<Rightarrow> buffer \<Rightarrow> buffer \<times> (capture_buffer_error + fact_id)" where
  "write_capture now fresh req hint source_kind source_ref staging status minted buf =
     (case validate_buffer_body (cr_body req) of
        Inl e \<Rightarrow> (buf, Inl e)
      | Inr _ \<Rightarrow>
          (let i = (case minted of Some m \<Rightarrow> m | None \<Rightarrow> fresh)
           in (insert_row (capture_of now i req hint source_kind source_ref staging status) buf, Inr i)))"

definition buffer_capture_with_source ::
  "int \<Rightarrow> fact_id \<Rightarrow> capture_request \<Rightarrow> fact_id option \<Rightarrow> string \<Rightarrow> string option \<Rightarrow> buffer_staging \<Rightarrow> buffer \<Rightarrow>
   buffer \<times> (capture_buffer_error + fact_id)" where
  "buffer_capture_with_source now fresh req hint source_kind source_ref staging buf =
     write_capture now fresh req hint source_kind source_ref staging Buffered None buf"

definition buffer_capture_staged ::
  "int \<Rightarrow> fact_id \<Rightarrow> capture_request \<Rightarrow> fact_id option \<Rightarrow> buffer_staging \<Rightarrow> buffer \<Rightarrow>
   buffer \<times> (capture_buffer_error + fact_id)" where
  "buffer_capture_staged now fresh req hint staging buf =
     buffer_capture_with_source now fresh req hint ''ingest'' None staging buf"

definition buffer_capture ::
  "int \<Rightarrow> fact_id \<Rightarrow> capture_request \<Rightarrow> fact_id option \<Rightarrow> buffer \<Rightarrow> buffer \<times> (capture_buffer_error + fact_id)" where
  "buffer_capture now fresh req hint buf =
     buffer_capture_with_source now fresh req hint ''ingest'' None default_staging buf"

definition park_capture ::
  "int \<Rightarrow> fact_id \<Rightarrow> capture_request \<Rightarrow> buffer_staging \<Rightarrow> buffer \<Rightarrow> buffer \<times> (capture_buffer_error + fact_id)" where
  "park_capture now i req staging buf =
     write_capture now i req None ''ingest'' None staging Held (Some i) buf"

section \<open>Parked claims\<close>

definition buffer_update ::
  "(buffered_capture \<Rightarrow> bool) \<Rightarrow> (buffered_capture \<Rightarrow> buffered_capture) \<Rightarrow> buffer \<Rightarrow> buffer \<times> nat" where
  "buffer_update P f buf = (map (\<lambda>r. if P r then f r else r) buf, length (filter P buf))"

definition buffer_delete :: "(buffered_capture \<Rightarrow> bool) \<Rightarrow> buffer \<Rightarrow> buffer \<times> nat" where
  "buffer_delete P buf = (filter (\<lambda>r. \<not> P r) buf, length (filter P buf))"

definition row_in :: "capture_status \<Rightarrow> fact_id \<Rightarrow> buffered_capture \<Rightarrow> bool" where
  "row_in st i r \<longleftrightarrow> cb_capture_id r = i \<and> cb_status r = st"

definition release_held :: "fact_id \<Rightarrow> buffer \<Rightarrow> buffer \<times> bool" where
  "release_held i buf =
     (let (buf', n) = buffer_update (row_in Held i) (\<lambda>r. r\<lparr>cb_status := Buffered\<rparr>) buf in (buf', 0 < n))"

definition discard_held :: "fact_id \<Rightarrow> buffer \<Rightarrow> buffer \<times> bool" where
  "discard_held i buf = (let (buf', n) = buffer_delete (row_in Held i) buf in (buf', 0 < n))"

definition parked_by :: "proposal_row \<Rightarrow> json option" where
  "parked_by r = Option.bind (pr_context r) (json_get ''parked_capture_id'')"

text \<open>The claims a pending question still names; a JSON text compares equal to the id it spells.\<close>

definition questioned_ids :: "proposal_row list \<Rightarrow> string list" where
  "questioned_ids ps =
     List.map_filter (\<lambda>r. if pr_kind r = SLOT_CONFLICT \<and> pr_status r = ''pending''
                          then Option.bind (parked_by r) as_str else None) ps"

definition sweep_orphan_held :: "int \<Rightarrow> int \<Rightarrow> proposal_row list \<Rightarrow> buffer \<Rightarrow> buffer \<times> nat" where
  "sweep_orphan_held now grace ps buf =
     buffer_delete (\<lambda>r. cb_status r = Held \<and> cb_captured_at r < now - grace \<and>
       fact_id_str (cb_capture_id r) \<notin> set (questioned_ids ps)) buf"

section \<open>Reading the queue\<close>

definition count_buffered :: "buffer \<Rightarrow> int" where
  "count_buffered buf = int (length (filter (\<lambda>r. cb_status r = Buffered) buf))"

definition sql_limit :: "int \<Rightarrow> 'a list \<Rightarrow> 'a list" where
  "sql_limit n xs = (if n < 0 then xs else take (nat n) xs)"

definition queue_key :: "buffered_capture \<Rightarrow> int \<times> string" where
  "queue_key r = (cb_captured_at r, fact_id_str (cb_capture_id r))"

definition find_all_buffered :: "int \<Rightarrow> buffer \<Rightarrow> buffered_capture list" where
  "find_all_buffered limit buf =
     sql_limit limit (sort_key queue_key (filter (\<lambda>r. cb_status r = Buffered) buf))"

definition find_recent_buffered :: "int \<Rightarrow> buffer \<Rightarrow> buffered_capture list" where
  "find_recent_buffered limit buf =
     sql_limit limit (rev (sort_key queue_key (filter (\<lambda>r. cb_status r = Buffered) buf)))"

definition is_buffered :: "fact_id \<Rightarrow> buffer \<Rightarrow> bool" where
  "is_buffered i buf \<longleftrightarrow> list_ex (row_in Buffered i) buf"

section \<open>The round's marks\<close>

definition mark_promoted :: "fact_id \<Rightarrow> string \<Rightarrow> buffer \<Rightarrow> buffer \<times> nat" where
  "mark_promoted i now buf =
     buffer_update (row_in Buffered i)
       (\<lambda>r. r\<lparr>cb_status := Promoted, cb_processed_at := Some now, cb_resolved_fact_id := Some (cb_capture_id r)\<rparr>) buf"

definition mark_placement_attempted :: "fact_id \<Rightarrow> string \<Rightarrow> buffer \<Rightarrow> buffer \<times> nat" where
  "mark_placement_attempted i now buf =
     buffer_update (row_in Buffered i)
       (\<lambda>r. r\<lparr>cb_placement_attempts := cb_placement_attempts r + 1, cb_last_attempt_at := Some now\<rparr>) buf"

definition mark_skipped_dup :: "fact_id \<Rightarrow> fact_id \<Rightarrow> string \<Rightarrow> buffer \<Rightarrow> buffer \<times> nat" where
  "mark_skipped_dup i survivor now buf =
     buffer_update (row_in Buffered i)
       (\<lambda>r. r\<lparr>cb_status := SkippedDup, cb_processed_at := Some now, cb_resolved_fact_id := Some survivor\<rparr>) buf"

definition stamp_recall_log :: "fact_id list \<Rightarrow> int \<Rightarrow> buffer \<Rightarrow> buffer \<times> nat" where
  "stamp_recall_log ids log_id buf =
     fold (\<lambda>i (b, n). let (b', k) = buffer_update (\<lambda>r. cb_capture_id r = i) (\<lambda>r. r\<lparr>cb_recall_log_id := Some log_id\<rparr>) b
                      in (b', n + k)) ids (buf, 0)"

definition recall_log_id :: "fact_id \<Rightarrow> buffer \<Rightarrow> int option" where
  "recall_log_id i buf = Option.bind (List.find (\<lambda>r. cb_capture_id r = i) buf) cb_recall_log_id"

section \<open>The way back\<close>

definition rebuffered :: "int \<Rightarrow> fact_row \<Rightarrow> buffered_capture" where
  "rebuffered now row =
     \<lparr>cb_capture_id = fr_fact_id row, cb_body = fr_text row, cb_subject = fr_subject_id row,
      cb_subject_external = fr_subject_external row, cb_slot = fr_slot row, cb_slot_value = fr_slot_value row,
      cb_allow = fr_allow_ids row, cb_excluded = fr_excluded_ids row, cb_sender = fr_sender_id row,
      cb_fact_type = fr_fact_type row, cb_topics = fr_topics row, cb_supersede_hint = None, cb_status = Buffered,
      cb_captured_at = now, cb_processed_at = None, cb_resolved_fact_id = None, cb_source_kind = ''rebuffer'',
      cb_source_ref = fr_source_ref row, cb_valid_from = fr_valid_from row, cb_valid_to = fr_valid_to row,
      cb_decay_reason = fr_decay_reason row, cb_style = fr_style row, cb_salience = fr_salience row,
      cb_placement_attempts = 0, cb_last_attempt_at = None, cb_authored_refs = fr_authored_refs row,
      cb_embedding = Some (fr_embedding row), cb_origin_message_hash = None, cb_recall_log_id = None\<rparr>"

definition upsert_rebuffered :: "buffered_capture \<Rightarrow> buffer \<Rightarrow> buffer" where
  "upsert_rebuffered cap buf =
     (if cb_capture_id cap \<in> set (map cb_capture_id buf)
      then map (\<lambda>r. if cb_capture_id r = cb_capture_id cap
                    then r\<lparr>cb_status := Buffered, cb_processed_at := None, cb_resolved_fact_id := None\<rparr> else r) buf
      else buf @ [cap])"

definition rebuffer_fact :: "int \<Rightarrow> fact_id \<Rightarrow> buffer \<times> fact_table \<Rightarrow> (buffer \<times> fact_table) \<times> bool" where
  "rebuffer_fact now i st =
     (case st of (buf, tab) \<Rightarrow>
       (case find_by_id tab i of
          None \<Rightarrow> (st, False)
        | Some row \<Rightarrow>
            if fr_deleted_at row \<noteq> None then (st, False)
            else ((upsert_rebuffered (rebuffered now row) buf, fst (erase i tab)), True)))"

section \<open>Correcting a claim that waits\<close>

definition queued :: "fact_id \<Rightarrow> buffer \<Rightarrow> buffered_capture option" where
  "queued i buf = List.find (row_in Buffered i) buf"

definition buffer_close_validity ::
  "(bound \<Rightarrow> int option) \<Rightarrow> (int \<Rightarrow> bound) \<Rightarrow> fact_id \<Rightarrow> bound \<Rightarrow> string \<Rightarrow> int \<Rightarrow> buffer \<Rightarrow>
   buffer \<times> closed_validity option" where
  "buffer_close_validity instant_of bound_from_instant i valid_to reason when_unstated buf =
     (case queued i buf of
        None \<Rightarrow> (buf, None)
      | Some prev \<Rightarrow>
          (let vt = end_not_before_start instant_of bound_from_instant (cb_valid_from prev) valid_to when_unstated
           in (fst (buffer_update (row_in Buffered i)
                 (\<lambda>r. r\<lparr>cb_valid_to := Some vt, cb_decay_reason := Some reason\<rparr>) buf),
               Some \<lparr>cv_written_valid_to = vt, cv_prev_valid_to = cb_valid_to prev,
                     cv_prev_decay_reason = cb_decay_reason prev, cv_prev_successor_fact_id = None\<rparr>)))"

definition buffer_set_validity ::
  "(bound \<Rightarrow> int option) \<Rightarrow> fact_id \<Rightarrow> bound option \<Rightarrow> bound option \<Rightarrow> buffer \<Rightarrow> buffer \<times> validity_edit" where
  "buffer_set_validity instant_of i valid_from valid_to buf =
     (case queued i buf of
        None \<Rightarrow> (buf, NoSuchRow)
      | Some prev \<Rightarrow>
          (let new_from = (case valid_from of None \<Rightarrow> cb_valid_from prev | Some v \<Rightarrow> Some v);
               new_to = (case valid_to of None \<Rightarrow> cb_valid_to prev | Some v \<Rightarrow> Some v)
           in if window_is_inverted instant_of new_from new_to then (buf, EndBeforeStart)
              else (fst (buffer_update (row_in Buffered i)
                      (\<lambda>r. r\<lparr>cb_valid_from := new_from, cb_valid_to := new_to\<rparr>) buf),
                    Applied (cb_valid_from prev) (cb_valid_to prev))))"

definition buffer_set_acl ::
  "fact_id \<Rightarrow> principal \<Rightarrow> principal list \<Rightarrow> principal option \<Rightarrow> buffer \<Rightarrow> buffer \<times> prev_acl option" where
  "buffer_set_acl i subject allow sender buf =
     (case queued i buf of
        None \<Rightarrow> (buf, None)
      | Some prev \<Rightarrow>
          (fst (buffer_update (row_in Buffered i)
             (\<lambda>r. r\<lparr>cb_subject := subject, cb_allow := allow, cb_sender := sender\<rparr>) buf),
           Some \<lparr>pa_subject_id = cb_subject prev, pa_allow_ids = cb_allow prev, pa_sender_id = cb_sender prev\<rparr>))"

definition buffer_inherit_allow :: "fact_id \<Rightarrow> principal list \<Rightarrow> buffer \<Rightarrow> buffer \<times> bool" where
  "buffer_inherit_allow i allow buf =
     (let (buf', n) = buffer_update (row_in Buffered i) (\<lambda>r. r\<lparr>cb_allow := allow\<rparr>) buf in (buf', 0 < n))"

section \<open>Forgetting a person\<close>

definition close_conflicts_parking :: "string list \<Rightarrow> proposal_row list \<Rightarrow> proposal_row list \<times> nat" where
  "close_conflicts_parking parked ps =
     fold (\<lambda>i (ps, n).
       (let hit = (\<lambda>r. pr_kind r = SLOT_CONFLICT \<and> pr_status r = ''pending'' \<and> parked_by r = Some (JStr i))
        in (map (\<lambda>r. if hit r then r\<lparr>pr_status := ''expired''\<rparr> else r) ps, n + length (filter hit ps))))
       parked (ps, 0)"

record captures_report =
  fg_captures_dropped :: nat
  fg_captures_handed_over :: nat

definition names_person :: "principal \<Rightarrow> buffered_capture \<Rightarrow> bool" where
  "names_person p r \<longleftrightarrow> cb_subject r = p \<or> cb_sender r = Some p"

definition hers_alone :: "principal \<Rightarrow> principal \<Rightarrow> buffered_capture \<Rightarrow> bool" where
  "hers_alone gone dead r \<longleftrightarrow>
     cb_subject r = gone \<and> (cb_sender r = None \<or> cb_sender r = Some gone \<or> cb_sender r = Some dead)"

definition about_her_by_another :: "principal \<Rightarrow> principal \<Rightarrow> buffered_capture \<Rightarrow> bool" where
  "about_her_by_another gone dead r \<longleftrightarrow>
     cb_subject r = gone \<and> cb_sender r \<noteq> None \<and> cb_sender r \<noteq> Some gone \<and> cb_sender r \<noteq> Some dead"

definition forget_captures ::
  "string \<Rightarrow> principal \<Rightarrow> principal \<Rightarrow> proposal_row list \<times> buffer \<Rightarrow> (proposal_row list \<times> buffer) \<times> captures_report" where
  "forget_captures user_id gone dead st =
     (case st of (ps, buf) \<Rightarrow>
       (let held = (\<lambda>r. cb_status r = Held \<and> names_person gone r);
            orphaned = map (fact_id_str \<circ> cb_capture_id) (filter held buf);
            ps1 = (if orphaned = [] then ps else fst (close_conflicts_parking orphaned ps));
            (buf1, n1) = buffer_delete held buf;
            (buf2, n2) = buffer_delete (hers_alone gone dead) buf1;
            (buf3, n3) = buffer_update (about_her_by_another gone dead)
              (\<lambda>r. r\<lparr>cb_subject := (case cb_sender r of Some s \<Rightarrow> s | None \<Rightarrow> cb_subject r),
                     cb_subject_external := coalesce (cb_subject_external r) (Some user_id)\<rparr>) buf2;
            buf4 = fst (buffer_update (\<lambda>r. cb_sender r = Some gone) (\<lambda>r. r\<lparr>cb_sender := Some dead\<rparr>) buf3)
        in ((ps1, buf4), \<lparr>fg_captures_dropped = n1 + n2, fg_captures_handed_over = n3\<rparr>)))"

text \<open>The person taken out of the reader lists of the claims (\<open>strike_from_lists\<close> on \<open>capture_buffer.allow_ids\<close>).\<close>

definition strike_from_claims :: "string \<Rightarrow> buffer \<Rightarrow> buffer \<times> nat" where
  "strike_from_claims user_id buf =
     buffer_update (\<lambda>r. User user_id \<in> set (cb_allow r))
       (\<lambda>r. r\<lparr>cb_allow := filter (\<lambda>p. p \<noteq> User user_id) (cb_allow r)\<rparr>) buf"

section \<open>The operations as one step\<close>

datatype buffer_op =
    BCapture capture_request "fact_id option" string "string option" buffer_staging fact_id
  | BPark capture_request buffer_staging fact_id
  | BRelease fact_id
  | BDiscard fact_id
  | BSweep int "proposal_row list"
  | BPromoted fact_id string
  | BSkipped fact_id fact_id string
  | BAttempted fact_id string
  | BStamp "fact_id list" int
  | BClose fact_id bound string int
  | BSetValidity fact_id "bound option" "bound option"
  | BSetAcl fact_id principal "principal list" "principal option"
  | BInherit fact_id "principal list"
  | BForget string principal principal "proposal_row list"
  | BStrike string
  | BRebuffer fact_row
  | BReset

text \<open>
  \<open>BRebuffer\<close> is the queue's half of \<open>rebuffer_fact\<close>, for the row the table holds under the id; \<open>BReset\<close> is the
  reset of the memory (\<open>apply_reset\<close> of \<open>recovery.rs\<close>), which empties the table.
\<close>

fun run_buffer_op :: "store_env \<Rightarrow> int \<Rightarrow> buffer_op \<Rightarrow> buffer \<Rightarrow> buffer" where
  "run_buffer_op env now (BCapture req hint kind ref st i) buf =
     fst (buffer_capture_with_source now i req hint kind ref st buf)"
| "run_buffer_op env now (BPark req st i) buf = fst (park_capture now i req st buf)"
| "run_buffer_op env now (BRelease i) buf = fst (release_held i buf)"
| "run_buffer_op env now (BDiscard i) buf = fst (discard_held i buf)"
| "run_buffer_op env now (BSweep grace ps) buf = fst (sweep_orphan_held now grace ps buf)"
| "run_buffer_op env now (BPromoted i done_at) buf = fst (mark_promoted i done_at buf)"
| "run_buffer_op env now (BSkipped i j done_at) buf = fst (mark_skipped_dup i j done_at buf)"
| "run_buffer_op env now (BAttempted i done_at) buf = fst (mark_placement_attempted i done_at buf)"
| "run_buffer_op env now (BStamp ids l) buf = fst (stamp_recall_log ids l buf)"
| "run_buffer_op env now (BClose i vt why w) buf =
     fst (buffer_close_validity (se_instant_of env) (se_bound_from_instant env) i vt why w buf)"
| "run_buffer_op env now (BSetValidity i vf vt) buf = fst (buffer_set_validity (se_instant_of env) i vf vt buf)"
| "run_buffer_op env now (BSetAcl i s al snd_of) buf = fst (buffer_set_acl i s al snd_of buf)"
| "run_buffer_op env now (BInherit i al) buf = fst (buffer_inherit_allow i al buf)"
| "run_buffer_op env now (BForget u gone dead ps) buf = snd (fst (forget_captures u gone dead (ps, buf)))"
| "run_buffer_op env now (BStrike u) buf = fst (strike_from_claims u buf)"
| "run_buffer_op env now (BRebuffer row) buf = upsert_rebuffered (rebuffered now row) buf"
| "run_buffer_op env now BReset buf = []"

definition run_buffer_ops :: "store_env \<Rightarrow> (int \<times> buffer_op) list \<Rightarrow> buffer \<Rightarrow> buffer" where
  "run_buffer_ops env ops buf = fold (\<lambda>(now, op). run_buffer_op env now op) ops buf"

text \<open>What the callers owe, as for the fact table: windows they write down are not inverted.\<close>

fun buffer_op_ok :: "store_env \<Rightarrow> buffer_op \<Rightarrow> bool" where
  "buffer_op_ok env (BCapture req hint kind ref st i) = window_ok env (cr_valid_from req) (cr_valid_to req)"
| "buffer_op_ok env (BPark req st i) = window_ok env (cr_valid_from req) (cr_valid_to req)"
| "buffer_op_ok env (BSetValidity i vf vt) = aligned env vf"
| "buffer_op_ok env (BRebuffer row) = window_ok env (fr_valid_from row) (fr_valid_to row)"
| "buffer_op_ok env _ = True"

inductive buffer_step :: "store_env \<Rightarrow> buffer \<Rightarrow> buffer \<Rightarrow> bool" for env where
  buffer_op: "buffer_op_ok env op \<Longrightarrow> buffer_step env buf (run_buffer_op env now op buf)"

definition buffer_ok :: "store_env \<Rightarrow> buffer \<Rightarrow> bool" where
  "buffer_ok env buf \<longleftrightarrow>
     distinct (map cb_capture_id buf) \<and> (\<forall>r \<in> set buf. window_ok env (cb_valid_from r) (cb_valid_to r))"

section \<open>Every operation, as updates and deletions\<close>

lemma buffer_update_ids:
  "(\<And>r. cb_capture_id (f r) = cb_capture_id r) \<Longrightarrow>
     map cb_capture_id (fst (buffer_update P f buf)) = map cb_capture_id buf"
  by (simp add: buffer_update_def comp_def if_distrib cong: if_cong)

lemma buffer_update_ok:
  assumes "buffer_ok env buf" "\<And>r. cb_capture_id (f r) = cb_capture_id r"
    and "\<And>r. r \<in> set buf \<Longrightarrow> P r \<Longrightarrow> window_ok env (cb_valid_from (f r)) (cb_valid_to (f r))"
  shows "buffer_ok env (fst (buffer_update P f buf))"
proof -
  have "window_ok env (cb_valid_from r) (cb_valid_to r)" if "r \<in> set (fst (buffer_update P f buf))" for r
    using that assms(1,3) by (auto simp: buffer_ok_def buffer_update_def)
  with assms(1) show ?thesis by (simp add: buffer_ok_def buffer_update_ids [OF assms(2)])
qed

lemma buffer_update_keeps_ok:
  assumes "buffer_ok env buf" "\<And>r. cb_capture_id (f r) = cb_capture_id r"
    and "\<And>r. cb_valid_from (f r) = cb_valid_from r" "\<And>r. cb_valid_to (f r) = cb_valid_to r"
  shows "buffer_ok env (fst (buffer_update P f buf))"
  using assms by (intro buffer_update_ok) (auto simp: buffer_ok_def)

lemma buffer_delete_ok: "buffer_ok env buf \<Longrightarrow> buffer_ok env (fst (buffer_delete P buf))"
  by (auto simp: buffer_ok_def buffer_delete_def distinct_map_filter)

lemma insert_row_ok:
  "buffer_ok env buf \<Longrightarrow> window_ok env (cb_valid_from cap) (cb_valid_to cap) \<Longrightarrow> buffer_ok env (insert_row cap buf)"
  by (auto simp: buffer_ok_def insert_row_def)

lemma stamp_recall_log_induct:
  assumes "Q buf" "\<And>i b. Q b \<Longrightarrow> Q (fst (buffer_update (\<lambda>r. cb_capture_id r = i) (\<lambda>r. r\<lparr>cb_recall_log_id := Some l\<rparr>) b))"
  shows "Q (fst (stamp_recall_log ids l buf))"
proof -
  have "Q (fst (fold (\<lambda>i (b, n). let (b', k) = buffer_update (\<lambda>r. cb_capture_id r = i) (\<lambda>r. r\<lparr>cb_recall_log_id := Some l\<rparr>) b
                      in (b', n + k)) ids st))" if "Q (fst st)" for st :: "buffer \<times> nat"
    using that
  proof (induction ids arbitrary: st)
    case (Cons i ids)
    then show ?case using assms(2) by (auto simp: case_prod_beta Let_def)
  qed simp
  from this [of "(buf, 0)"] assms(1) show ?thesis by (simp add: stamp_recall_log_def)
qed

lemma queued_in: "queued i buf = Some r \<Longrightarrow> r \<in> set buf \<and> cb_capture_id r = i \<and> cb_status r = Buffered"
  by (auto simp: queued_def find_Some_iff row_in_def)

lemma queued_unique:
  "buffer_ok env buf \<Longrightarrow> queued i buf = Some prev \<Longrightarrow> r \<in> set buf \<Longrightarrow> row_in Buffered i r \<Longrightarrow> r = prev"
  using queued_in [of i buf prev] by (auto simp: buffer_ok_def row_in_def distinct_map inj_on_def)

lemma write_capture_ok:
  assumes "buffer_ok env buf" "window_ok env (cr_valid_from req) (cr_valid_to req)"
  shows "buffer_ok env (fst (write_capture now fresh req hint kind ref st status minted buf))"
  using assms by (auto simp: write_capture_def Let_def capture_of_def intro!: insert_row_ok split: sum.splits)

lemma forget_captures_ok:
  "buffer_ok env buf \<Longrightarrow> buffer_ok env (snd (fst (forget_captures u gone dead (ps, buf))))"
  unfolding forget_captures_def Let_def case_prod_beta prod.case fst_conv snd_conv
  by (intro buffer_update_keeps_ok buffer_delete_ok) simp_all

lemma upsert_rebuffered_ok:
  assumes "buffer_ok env buf" "window_ok env (cb_valid_from cap) (cb_valid_to cap)"
  shows "buffer_ok env (upsert_rebuffered cap buf)"
proof -
  have "map cb_capture_id (map (\<lambda>r. if cb_capture_id r = cb_capture_id cap
      then r\<lparr>cb_status := Buffered, cb_processed_at := None, cb_resolved_fact_id := None\<rparr> else r) buf) = map cb_capture_id buf"
    by (simp add: comp_def if_distrib cong: if_cong)
  with assms show ?thesis by (auto simp: buffer_ok_def upsert_rebuffered_def simp del: map_map)
qed

lemma run_buffer_op_ok:
  assumes "clock_ok env" "buffer_ok env buf" "buffer_op_ok env op"
  shows "buffer_ok env (run_buffer_op env now op buf)"
proof (cases op)
  case (BCapture req hint kind ref st i)
  with assms show ?thesis by (simp add: buffer_capture_with_source_def write_capture_ok)
next
  case (BPark req st i)
  with assms show ?thesis by (simp add: park_capture_def write_capture_ok)
next
  case (BRebuffer row)
  with assms show ?thesis by (simp add: upsert_rebuffered_ok rebuffered_def)
next
  case BReset
  then show ?thesis by (simp add: buffer_ok_def)
next
  case (BStamp ids l)
  have "buffer_ok env (fst (stamp_recall_log ids l buf))"
    by (rule stamp_recall_log_induct [where Q = "buffer_ok env"]) (simp_all add: buffer_update_keeps_ok assms(2))
  with BStamp show ?thesis by simp
next
  case (BClose i vt why w)
  show ?thesis
  proof (cases "queued i buf")
    case None
    with BClose assms(2) show ?thesis by (simp add: buffer_close_validity_def)
  next
    case (Some prev)
    then have "aligned env (cb_valid_from prev)"
      using assms(2) queued_in [OF Some] by (auto simp: buffer_ok_def window_ok_def)
    note closed = window_ok_closed [OF assms(1) this]
    from Some BClose show ?thesis
      using queued_unique [OF assms(2) Some] closed
      by (auto simp: buffer_close_validity_def Let_def intro!: buffer_update_ok [OF assms(2)])
  qed
next
  case (BSetValidity i vf vt)
  show ?thesis
  proof (cases "queued i buf")
    case None
    with BSetValidity assms(2) show ?thesis by (simp add: buffer_set_validity_def)
  next
    case (Some prev)
    then have "aligned env (cb_valid_from prev)"
      using assms(2) queued_in [OF Some] by (auto simp: buffer_ok_def window_ok_def)
    with Some BSetValidity assms show ?thesis
      by (auto simp: buffer_set_validity_def Let_def window_ok_def intro!: buffer_update_ok [OF assms(2)]
          split: option.splits)
  qed
qed (use assms in \<open>auto simp: release_held_def discard_held_def sweep_orphan_held_def mark_promoted_def mark_skipped_dup_def
      mark_placement_attempted_def buffer_set_acl_def buffer_inherit_allow_def strike_from_claims_def case_prod_beta Let_def
      forget_captures_ok
      intro!: buffer_delete_ok buffer_update_keeps_ok split: option.splits\<close>)

interpretation capture_queue: stepping "\<lambda>b b'. clock_ok env \<and> buffer_step env b b'" "buffer_ok env"
  for env
  by unfold_locales (auto elim!: buffer_step.cases intro: run_buffer_op_ok)

section \<open>A claim out of the queue is left alone\<close>

text \<open>The operations that answer a claim which does not wait in the queue.\<close>

fun answers :: "int \<Rightarrow> buffer_op \<Rightarrow> buffered_capture \<Rightarrow> bool" where
  "answers now (BRelease i) r \<longleftrightarrow> row_in Held i r"
| "answers now (BDiscard i) r \<longleftrightarrow> row_in Held i r"
| "answers now (BSweep grace ps) r \<longleftrightarrow>
     cb_status r = Held \<and> cb_captured_at r < now - grace \<and> fact_id_str (cb_capture_id r) \<notin> set (questioned_ids ps)"
| "answers now (BForget u gone dead ps) r \<longleftrightarrow> names_person gone r"
| "answers now (BStrike u) r \<longleftrightarrow> User u \<in> set (cb_allow r)"
| "answers now (BRebuffer row) r \<longleftrightarrow> fr_fact_id row = cb_capture_id r"
| "answers now BReset r \<longleftrightarrow> True"
| "answers now op r \<longleftrightarrow> False"

definition same_but_log :: "buffered_capture \<Rightarrow> buffer \<Rightarrow> bool" where
  "same_but_log r buf \<longleftrightarrow> (\<exists>l. r\<lparr>cb_recall_log_id := l\<rparr> \<in> set buf)"

lemma same_but_log_update:
  assumes "same_but_log r buf"
    and "\<And>l. \<not> P (r\<lparr>cb_recall_log_id := l\<rparr>) \<or> (\<exists>l'. f (r\<lparr>cb_recall_log_id := l\<rparr>) = r\<lparr>cb_recall_log_id := l'\<rparr>)"
  shows "same_but_log r (fst (buffer_update P f buf))"
proof -
  from assms(1) obtain l where l: "r\<lparr>cb_recall_log_id := l\<rparr> \<in> set buf" by (auto simp: same_but_log_def)
  show ?thesis
  proof (cases "P (r\<lparr>cb_recall_log_id := l\<rparr>)")
    case True
    with assms(2) [of l] obtain l' where "f (r\<lparr>cb_recall_log_id := l\<rparr>) = r\<lparr>cb_recall_log_id := l'\<rparr>" by auto
    with True l show ?thesis
      unfolding same_but_log_def buffer_update_def fst_conv set_map image_iff by (intro exI [of _ l'] bexI [OF _ l]) simp
  next
    case False
    with l show ?thesis
      unfolding same_but_log_def buffer_update_def fst_conv set_map image_iff by (intro exI [of _ l] bexI [OF _ l]) simp
  qed
qed

lemma same_but_log_delete:
  "same_but_log r buf \<Longrightarrow> (\<And>l. \<not> P (r\<lparr>cb_recall_log_id := l\<rparr>)) \<Longrightarrow> same_but_log r (fst (buffer_delete P buf))"
  by (auto simp: same_but_log_def buffer_delete_def)

lemma same_but_log_insert: "same_but_log r buf \<Longrightarrow> same_but_log r (insert_row cap buf)"
  by (auto simp: same_but_log_def insert_row_def)

lemma same_but_log_write:
  "same_but_log r buf \<Longrightarrow> same_but_log r (fst (write_capture now fresh req hint kind ref st status minted buf))"
  by (auto simp: write_capture_def Let_def same_but_log_insert split: sum.splits)

lemma not_named [simp]: "names_person p (r\<lparr>cb_recall_log_id := l\<rparr>) = names_person p r"
  by (simp add: names_person_def)

lemma same_but_log_forget:
  assumes "same_but_log r buf" "\<not> names_person gone r"
  shows "same_but_log r (snd (fst (forget_captures u gone dead (ps, buf))))"
  unfolding forget_captures_def Let_def case_prod_beta prod.case fst_conv snd_conv
  using assms
  by (intro same_but_log_update same_but_log_delete)
    (auto simp: hers_alone_def about_her_by_another_def names_person_def)

lemma same_but_log_upsert:
  assumes "same_but_log r buf" "cb_capture_id cap \<noteq> cb_capture_id r"
  shows "same_but_log r (upsert_rebuffered cap buf)"
proof -
  from assms(1) obtain l where l: "r\<lparr>cb_recall_log_id := l\<rparr> \<in> set buf" by (auto simp: same_but_log_def)
  with assms(2) have "r\<lparr>cb_recall_log_id := l\<rparr> \<in> set (upsert_rebuffered cap buf)"
    unfolding upsert_rebuffered_def by (auto simp: image_iff intro!: bexI [OF _ l])
  then show ?thesis by (auto simp: same_but_log_def)
qed

lemma run_buffer_op_leaves:
  assumes "same_but_log r buf" "cb_status r \<noteq> Buffered" "\<not> answers now op r"
  shows "same_but_log r (run_buffer_op env now op buf)"
proof (cases op)
  case (BCapture req hint kind ref st i)
  with assms show ?thesis by (simp add: buffer_capture_with_source_def same_but_log_write)
next
  case (BPark req st i)
  with assms show ?thesis by (simp add: park_capture_def same_but_log_write)
next
  case (BRebuffer row)
  with assms show ?thesis by (simp add: same_but_log_upsert rebuffered_def)
next
  case (BStamp ids l)
  have "same_but_log r (fst (stamp_recall_log ids l buf))"
    by (rule stamp_recall_log_induct [where Q = "same_but_log r"]) (auto simp: assms(1) intro!: same_but_log_update)
  with BStamp show ?thesis by simp
qed (use assms in \<open>auto simp: release_held_def discard_held_def sweep_orphan_held_def mark_promoted_def mark_skipped_dup_def
      mark_placement_attempted_def buffer_close_validity_def buffer_set_validity_def buffer_set_acl_def buffer_inherit_allow_def
      strike_from_claims_def case_prod_beta Let_def row_in_def same_but_log_forget
      intro!: same_but_log_delete same_but_log_update split: option.splits\<close>)

text \<open>
  C20: a claim that does not wait in the queue is moved by nothing but a step that answers it. Through any
  sequence of the statements that write the table a parked, promoted or folded row keeps every column, the
  note of what recall surfaced apart, as long as none of them releases or discards it while it is parked,
  sweeps it as an orphan, forgets a person it names as subject or author, strikes a person from a reader list
  it carries, queues the fact of its own id again (which sends even a promoted row back to the queue), or
  resets the whole memory. Captures, parkings, the round's marks and the owner's corrections never touch it.
\<close>

theorem only_an_answer_moves_it:
  assumes "r \<in> set buf" "cb_status r \<noteq> Buffered" "\<forall>(now, op) \<in> set ops. \<not> answers now op r"
  shows "\<exists>l. r\<lparr>cb_recall_log_id := l\<rparr> \<in> set (run_buffer_ops env ops buf)"
proof -
  have "same_but_log r buf"
    using assms(1) unfolding same_but_log_def by (intro exI [of _ "cb_recall_log_id r"]) simp
  then have "same_but_log r (run_buffer_ops env ops buf)"
    using assms(3) unfolding run_buffer_ops_def
    by (induction ops arbitrary: buf) (auto simp: run_buffer_op_leaves assms(2))
  then show ?thesis by (simp add: same_but_log_def)
qed

lemma reachable_buffer_ok:
  assumes "clock_ok env" "rtranclp (buffer_step env) [] buf"
  shows "distinct (map cb_capture_id buf) \<and> (\<forall>r \<in> set buf. window_ok env (cb_valid_from r) (cb_valid_to r))"
proof -
  have "rtranclp (\<lambda>b b'. clock_ok env \<and> buffer_step env b b') [] buf"
    using assms(2) by (rule rtranclp_mono [THEN predicate2D, rotated]) (use assms(1) in auto)
  then have "buffer_ok env buf" by (rule capture_queue.reachable_keeps) (simp add: buffer_ok_def)
  then show ?thesis by (simp add: buffer_ok_def)
qed

definition parked_claim :: buffered_capture where
  "parked_claim = (rebuffered 0 row_a)\<lparr>cb_status := Held, cb_capture_id := FactId ''q''\<rparr>"

theorem only_an_answer_moves_it_witness:
  "\<exists>l. parked_claim\<lparr>cb_recall_log_id := l\<rparr> \<in> set (run_buffer_ops tally_env
     [(0, BRebuffer row_a), (0, BStrike ''carl''), (1, BPromoted (FactId ''q'') ''t1''), (2, BSkipped (FactId ''q'') (FactId ''a'') ''t2''),
      (3, BSetAcl (FactId ''q'') (User ''bob'') [] None), (4, BStamp [FactId ''q''] 7)] [parked_claim])"
  by (rule only_an_answer_moves_it) (simp_all add: parked_claim_def rebuffered_def)

end
