(* ===== verification/Mwe_LightDream.thy ===== *)
theory Mwe_LightDream
  imports Mwe_Buffer
begin

text \<open>
  The light dream (\<open>crates/mwe-core/src/dream_light.rs\<close>): the round that reads the queue of captures, folds
  the claims the memory already holds, and writes the rest into the fact table on the page the plan gave
  them; with the log of what recall surfaced (\<open>recall_log.rs\<close>) it records misses in, and the instant the
  memory is at (\<open>memory_now\<close> of \<open>fact_index.rs\<close>).

  The plan is an argument, as in the code: the pages of \<open>planner::build_wiki_plan\<close> with their facts. The
  embedder is an argument that may fail. The excision of a superseded region from its file is not part of
  the state. The lemmas follow a claim from the queue to its fact: none is lost, and none changes who reads it.
\<close>

section \<open>What recall surfaced\<close>

record log_row =
  lg_log_id :: int
  lg_created_at :: int
  lg_sender_id :: string
  lg_fact_ids :: "string list"
  lg_page_paths :: "string list"
  lg_topics :: "string list"

definition surfaced :: "log_row \<Rightarrow> string \<Rightarrow> string \<Rightarrow> bool" where
  "surfaced l fact_id source_path \<longleftrightarrow>
     list_ex (\<lambda>i. i = fact_id) (lg_fact_ids l) \<or> list_ex (\<lambda>p. p = source_path) (lg_page_paths l)"

record miss_row =
  ms_miss_id :: int
  ms_created_at :: int
  ms_sender_id :: string
  ms_fact_id :: string
  ms_wiki_id :: string
  ms_source_path :: string
  ms_surface :: string
  ms_similarity :: rat
  ms_restated_text :: string
  ms_log_id :: "int option"
  ms_status :: string
  ms_resolution :: "string option"
  ms_seed_topics :: "string list"

record recall_log_db =
  rl_log :: "log_row list"
  rl_next_log :: int
  rl_misses :: "miss_row list"
  rl_next_miss :: int

definition day_nanos :: int where "day_nanos = 86400 * nanos"

definition RECALL_LOG_RETENTION_DAYS :: int where "RECALL_LOG_RETENTION_DAYS = 30"
definition RECALL_MISS_RETENTION_DAYS :: int where "RECALL_MISS_RETENTION_DAYS = 90"

definition prune_log :: "int \<Rightarrow> recall_log_db \<Rightarrow> recall_log_db" where
  "prune_log clock db = db\<lparr>rl_log := filter (\<lambda>l. \<not> lg_created_at l < clock - RECALL_LOG_RETENTION_DAYS * day_nanos) (rl_log db)\<rparr>"

definition prune_misses :: "int \<Rightarrow> recall_log_db \<Rightarrow> recall_log_db" where
  "prune_misses clock db =
     db\<lparr>rl_misses := filter (\<lambda>x. \<not> ms_created_at x < clock - RECALL_MISS_RETENTION_DAYS * day_nanos) (rl_misses db)\<rparr>"

definition record_turn ::
  "int \<Rightarrow> string \<Rightarrow> int \<Rightarrow> string list \<Rightarrow> string list \<Rightarrow> string list \<Rightarrow> recall_log_db \<Rightarrow> recall_log_db \<times> int" where
  "record_turn clock sender_id now fact_ids page_paths topics db =
     (let i = rl_next_log db
      in (prune_log clock (db\<lparr>rl_log := rl_log db @
            [\<lparr>lg_log_id = i, lg_created_at = now, lg_sender_id = sender_id, lg_fact_ids = fact_ids,
              lg_page_paths = page_paths, lg_topics = topics\<rparr>], rl_next_log := i + 1\<rparr>), i))"

definition find_log :: "int \<Rightarrow> recall_log_db \<Rightarrow> log_row option" where
  "find_log i db = List.find (\<lambda>l. lg_log_id l = i) (rl_log db)"

definition record_miss :: "int \<Rightarrow> miss_row \<Rightarrow> recall_log_db \<Rightarrow> recall_log_db" where
  "record_miss clock miss db =
     prune_misses clock (db\<lparr>rl_misses := rl_misses db @ [miss\<lparr>ms_miss_id := rl_next_miss db, ms_status := ''new'',
        ms_resolution := None\<rparr>], rl_next_miss := rl_next_miss db + 1\<rparr>)"

definition recent_misses :: "nat \<Rightarrow> recall_log_db \<Rightarrow> miss_row list" where
  "recent_misses limit db = take limit (rev (sort_key ms_miss_id (rl_misses db)))"

definition pending_misses :: "nat \<Rightarrow> recall_log_db \<Rightarrow> miss_row list" where
  "pending_misses limit db = take limit (sort_key ms_miss_id (filter (\<lambda>x. ms_status x = ''new'') (rl_misses db)))"

definition set_miss_status :: "int \<Rightarrow> string \<Rightarrow> string option \<Rightarrow> recall_log_db \<Rightarrow> recall_log_db" where
  "set_miss_status i status resolution db =
     db\<lparr>rl_misses := map (\<lambda>x. if ms_miss_id x = i then x\<lparr>ms_status := status, ms_resolution := resolution\<rparr> else x)
          (rl_misses db)\<rparr>"

definition miss_count_for_fact :: "string \<Rightarrow> recall_log_db \<Rightarrow> int" where
  "miss_count_for_fact i db = int (length (filter (\<lambda>x. ms_fact_id x = i) (rl_misses db)))"

definition navigated_page_sets :: "nat \<Rightarrow> recall_log_db \<Rightarrow> string list list" where
  "navigated_page_sets limit db =
     map lg_page_paths (take limit (rev (sort_key lg_log_id (filter (\<lambda>l. 2 \<le> length (lg_page_paths l)) (rl_log db)))))"

section \<open>The instant the memory is at\<close>

text \<open>\<open>clock\<close> is the row \<open>memory.last_turn_at\<close> of the meta table.\<close>

definition memory_now :: "store_env \<Rightarrow> string option \<Rightarrow> int \<Rightarrow> fact_table \<Rightarrow> int" where
  "memory_now env clock wall tab =
     (case Option.bind clock (se_instant_of env) of
        Some t \<Rightarrow> min t wall
      | None \<Rightarrow>
          (let starts = filter (\<lambda>v. v \<le> se_bound_from_instant env wall)
                 (List.map_filter fr_valid_from (filter (\<lambda>r. fr_deleted_at r = None) tab));
               latest = (if starts = [] then None else Some (foldr max (tl starts) (hd starts)))
           in case Option.bind latest (se_instant_of env) of Some t \<Rightarrow> t | None \<Rightarrow> wall))"

section \<open>The round\<close>

record fact_for_page =
  fp_fact_id :: fact_id
  fp_text :: string
  fp_fact_type :: "string option"
  fp_subject :: principal
  fp_allow :: "principal list"
  fp_sender :: "principal option"
  fp_subject_external :: "string option"
  fp_source_wiki_id :: string
  fp_valid_from :: "bound option"
  fp_valid_to :: "bound option"
  fp_decay_reason :: "string option"
  fp_successor_fact_id :: "fact_id option"
  fp_target_page :: "string option"
  fp_style :: "page_style option"
  fp_salience :: "string option"
  fp_authored_refs :: "string list"
  fp_topics :: "string list"

text \<open>The pages of a plan in the order of their slugs.\<close>

record page_plan =
  pp_wiki_id :: string
  pp_page_path :: string
  pp_primary_facts :: "fact_for_page list"

record light_policy =
  lp_max_promotions :: int
  lp_dedup_threshold :: rat

definition default_light_policy :: light_policy where
  "default_light_policy = \<lparr>lp_max_promotions = 500, lp_dedup_threshold = DEFAULT_DEDUP_THRESHOLD\<rparr>"

record light_report =
  lr_scanned :: nat
  lr_promoted :: nat
  lr_skipped_dup :: nat
  lr_superseded :: nat
  lr_left_waiting :: nat
  lr_errors :: "string list"

definition empty_report :: light_report where
  "empty_report = \<lparr>lr_scanned = 0, lr_promoted = 0, lr_skipped_dup = 0, lr_superseded = 0, lr_left_waiting = 0,
     lr_errors = []\<rparr>"

record engine =
  en_mem :: memory
  en_buf :: buffer
  en_recall :: recall_log_db

abbreviation en_facts :: "engine \<Rightarrow> fact_table" where "en_facts e \<equiv> g_facts (mm_gov (en_mem e))"

definition PARKED_CLAIM_GRACE :: int where "PARKED_CLAIM_GRACE = 3600 * nanos"

definition same_audience :: "buffered_capture \<Rightarrow> buffered_capture \<Rightarrow> bool" where
  "same_audience a b \<longleftrightarrow>
     reader_set (cb_subject a) (cb_allow a) (cb_sender a) (cb_excluded a) =
     reader_set (cb_subject b) (cb_allow b) (cb_sender b) (cb_excluded b)"

definition audience_of_capture :: "buffered_capture \<Rightarrow> claim_audience" where
  "audience_of_capture cap =
     \<lparr>au_subject = cb_subject cap, au_allow = cb_allow cap, au_excluded = cb_excluded cap, au_sender = cb_sender cap\<rparr>"

fun principal_id :: "principal \<Rightarrow> string" where
  "principal_id (User i) = i" | "principal_id (Group i) = i"

text \<open>The wikis a page may be born in, each flagged with whether it is an agent's own.\<close>

definition wikis_on_disk :: "wiki_meta list \<Rightarrow> (string \<times> bool) list" where
  "wikis_on_disk descriptors =
     map (\<lambda>d. (wiki_id_str (wm_wiki_id d), wm_is_agent d)) (filter (\<lambda>d. \<not> wm_smart d) descriptors)"

definition home_wiki :: "buffered_capture \<Rightarrow> (string \<times> bool) list \<Rightarrow> string option" where
  "home_wiki cap on_disk =
     (let home = principal_id (cb_subject cap)
      in if map_of on_disk home \<noteq> None then Some home
         else case cb_sender cap of
           None \<Rightarrow> None
         | Some s \<Rightarrow> if map_of on_disk (principal_id s) = Some False then Some (principal_id s) else None)"

definition miss_check :: "round_env \<Rightarrow> buffered_capture \<Rightarrow> fact_row \<Rightarrow> rat \<Rightarrow> engine \<Rightarrow> engine" where
  "miss_check env cap dup score e =
     (case recall_log_id (cb_capture_id cap) (en_buf e) of
        None \<Rightarrow> e
      | Some log_id \<Rightarrow>
        (case find_log log_id (en_recall e) of
           None \<Rightarrow> e
         | Some l \<Rightarrow>
             if surfaced l (fact_id_str (fr_fact_id dup)) (fr_source_path dup) then e
             else e\<lparr>en_recall := record_miss (re_now_nanos env)
               \<lparr>ms_miss_id = 0, ms_created_at = re_now_nanos env, ms_sender_id = lg_sender_id l,
                 ms_fact_id = fact_id_str (fr_fact_id dup), ms_wiki_id = fr_wiki_id dup,
                 ms_source_path = fr_source_path dup, ms_surface = ''promotion'', ms_similarity = score,
                 ms_restated_text = cb_body cap, ms_log_id = Some log_id, ms_status = ''new'',
                 ms_resolution = None, ms_seed_topics = lg_topics l\<rparr> (en_recall e)\<rparr>))"

definition fold_into ::
  "round_env \<Rightarrow> buffered_capture \<Rightarrow> fact_row \<Rightarrow> rat \<Rightarrow> engine \<times> light_report \<Rightarrow> engine \<times> light_report" where
  "fold_into env cap dup score er =
     (case er of (e, rep) \<Rightarrow>
       (let e1 = e\<lparr>en_buf := fst (mark_skipped_dup (cb_capture_id cap) (fr_fact_id dup) (re_now env) (en_buf e))\<rparr>
        in (if is_channel_page (fr_source_path dup) then e1 else miss_check env cap dup score e1,
            rep\<lparr>lr_skipped_dup := lr_skipped_dup rep + 1\<rparr>)))"

definition plan_projection :: "buffered_capture \<Rightarrow> string \<Rightarrow> fact_for_page" where
  "plan_projection cap home =
     \<lparr>fp_fact_id = cb_capture_id cap, fp_text = cb_body cap, fp_fact_type = cb_fact_type cap,
      fp_subject = cb_subject cap, fp_allow = cb_allow cap, fp_sender = cb_sender cap,
      fp_subject_external = cb_subject_external cap, fp_source_wiki_id = home, fp_valid_from = cb_valid_from cap,
      fp_valid_to = cb_valid_to cap, fp_decay_reason = cb_decay_reason cap, fp_successor_fact_id = None,
      fp_target_page = None, fp_style = cb_style cap, fp_salience = cb_salience cap,
      fp_authored_refs = cb_authored_refs cap, fp_topics = cb_topics cap\<rparr>"

text \<open>The message of a claim with nowhere to go; the dash is the three bytes of U+2014.\<close>

definition no_wiki_message :: "buffered_capture \<Rightarrow> string" where
  "no_wiki_message cap =
     fact_id_str (cb_capture_id cap) @ '': no wiki on disk for subject '' @ principal_to_string (cb_subject cap) @
     '' '' @ [CHR 0xE2, CHR 0x80, CHR 0x94] @ '' left waiting''"

definition speaker_of :: "buffered_capture \<Rightarrow> principal" where
  "speaker_of cap = (case cb_sender cap of Some s \<Rightarrow> s | None \<Rightarrow> cb_subject cap)"

definition ordinary_duplicate ::
  "(string \<Rightarrow> string) \<Rightarrow> light_policy \<Rightarrow> buffered_capture \<Rightarrow> fact_row list \<Rightarrow> (fact_row \<times> rat) option" where
  "ordinary_duplicate lower policy cap candidates =
     (case best_dedup_candidate lower candidates (audience_of_capture cap) None (cb_body cap) (Some (cb_capture_id cap)) of
        None \<Rightarrow> None
      | Some (dup, score) \<Rightarrow>
          if lp_dedup_threshold policy \<le> score \<and> collect_embeds (fr_text dup) = collect_embeds (cb_body cap)
          then Some (dup, score) else None)"

definition screen_one ::
  "round_env \<Rightarrow> buffered_capture \<Rightarrow> (string \<times> bool) list \<Rightarrow> light_policy \<Rightarrow> engine \<times> light_report \<Rightarrow>
   (engine \<times> light_report) \<times> fact_for_page option" where
  "screen_one env cap on_disk policy er =
     (case er of (e, rep) \<Rightarrow>
       (let candidates = find_active_by_subject (en_facts e) (cb_subject cap);
            a = audience_of_capture cap; pid = re_fresh_proposal env (cb_capture_id cap)
        in case apply_exclusion_to_the_fact_already_there env pid candidates a None (cb_body cap) (speaker_of cap)
                  (lp_dedup_threshold policy) (en_mem e) of
          (m1, Some (dup, score)) \<Rightarrow> (fold_into env cap dup score (e\<lparr>en_mem := m1\<rparr>, rep), None)
        | (m1, None) \<Rightarrow>
         (case ordinary_duplicate (re_lower env) policy cap candidates of
            Some (dup, score) \<Rightarrow> (fold_into env cap dup score (e\<lparr>en_mem := m1\<rparr>, rep), None)
          | None \<Rightarrow>
           (case carry_the_new_audience_onto_the_fact_it_folds_into env pid candidates a None (cb_body cap)
                   (speaker_of cap) (lp_dedup_threshold policy) m1 of
              (m2, Some (dup, score)) \<Rightarrow> (fold_into env cap dup score (e\<lparr>en_mem := m2\<rparr>, rep), None)
            | (m2, None) \<Rightarrow>
              (case home_wiki cap on_disk of
                 None \<Rightarrow> ((e\<lparr>en_mem := m2\<rparr>, rep\<lparr>lr_errors := lr_errors rep @ [no_wiki_message cap]\<rparr>), None)
               | Some home \<Rightarrow> ((e\<lparr>en_mem := m2\<rparr>, rep), Some (plan_projection cap home)))))))"

definition queue_twin ::
  "(string \<Rightarrow> string) \<Rightarrow> light_policy \<Rightarrow> buffered_capture list \<Rightarrow> buffered_capture \<Rightarrow> buffered_capture option" where
  "queue_twin lower policy rows cap =
     List.find (\<lambda>prev. same_audience prev cap \<and>
       lp_dedup_threshold policy \<le>
         jaccard_6gram lower (strip_embed_markers (cb_body prev)) (strip_embed_markers (cb_body cap)) \<and>
       collect_embeds (cb_body prev) = collect_embeds (cb_body cap)) rows"

record waiting_queue =
  wq_for_plan :: "fact_for_page list"
  wq_rows :: "buffered_capture list"

fun screen_loop ::
  "round_env \<Rightarrow> (string \<times> bool) list \<Rightarrow> light_policy \<Rightarrow> buffered_capture list \<Rightarrow> waiting_queue \<Rightarrow>
   engine \<times> light_report \<Rightarrow> (engine \<times> light_report) \<times> waiting_queue" where
  "screen_loop env on_disk policy [] q er = (er, q)"
| "screen_loop env on_disk policy (cap # caps) q (e, rep) =
     (case queue_twin (re_lower env) policy (wq_rows q) cap of
        Some twin \<Rightarrow>
          screen_loop env on_disk policy caps q
            (e\<lparr>en_buf := fst (mark_skipped_dup (cb_capture_id cap) (cb_capture_id twin) (re_now env) (en_buf e))\<rparr>,
             rep\<lparr>lr_skipped_dup := lr_skipped_dup rep + 1\<rparr>)
      | None \<Rightarrow>
          (let (er', f) = screen_one env cap on_disk policy (e, rep)
           in screen_loop env on_disk policy caps
                (case f of None \<Rightarrow> q
                 | Some f \<Rightarrow> \<lparr>wq_for_plan = wq_for_plan q @ [f], wq_rows = wq_rows q @ [cap]\<rparr>) er'))"

definition sweep_parked :: "round_env \<Rightarrow> engine \<Rightarrow> engine" where
  "sweep_parked env e =
     e\<lparr>en_buf := fst (sweep_orphan_held (re_now_nanos env) PARKED_CLAIM_GRACE (g_proposals (mm_gov (en_mem e))) (en_buf e))\<rparr>"

definition screen_queue ::
  "round_env \<Rightarrow> (string \<times> bool) list \<Rightarrow> light_policy \<Rightarrow> engine \<Rightarrow> (engine \<times> light_report) \<times> waiting_queue" where
  "screen_queue env on_disk policy e =
     (let e1 = sweep_parked env e; captures = find_all_buffered (lp_max_promotions policy) (en_buf e1)
      in screen_loop env on_disk policy captures \<lparr>wq_for_plan = [], wq_rows = []\<rparr>
           (e1, empty_report\<lparr>lr_scanned := length captures\<rparr>))"

section \<open>A claim becomes a fact\<close>

definition captured_instant :: "round_env \<Rightarrow> string option \<Rightarrow> buffered_capture \<Rightarrow> fact_table \<Rightarrow> int" where
  "captured_instant env clock cap tab =
     (case Option.bind (cb_valid_from cap) (se_instant_of (re_store env)) of
        Some t \<Rightarrow> t | None \<Rightarrow> memory_now (re_store env) clock (re_now_nanos env) tab)"

definition promoted_fact :: "buffered_capture \<Rightarrow> string \<Rightarrow> string \<Rightarrow> string \<Rightarrow> new_fact" where
  "promoted_fact cap wiki_id page_path embedding =
     \<lparr>nf_fact_id = cb_capture_id cap, nf_wiki_id = wiki_id,
      nf_source_path = ''wikis/'' @ wiki_id @ ''/'' @ page_path, nf_region_start = None, nf_region_end = None,
      nf_text = cb_body cap, nf_embedding = embedding, nf_subject_id = cb_subject cap, nf_allow_ids = cb_allow cap,
      nf_excluded_ids = cb_excluded cap, nf_sender_id = cb_sender cap, nf_fact_type = cb_fact_type cap,
      nf_topics = cb_topics cap, nf_valid_from = cb_valid_from cap, nf_valid_to = cb_valid_to cap,
      nf_salience = cb_salience cap, nf_target_page = Some page_path, nf_style = cb_style cap,
      nf_source_ref = cb_source_ref cap, nf_authored_refs = cb_authored_refs cap,
      nf_subject_external = cb_subject_external cap, nf_slot = cb_slot cap, nf_slot_value = cb_slot_value cap\<rparr>"

definition staged_starts :: "buffer \<Rightarrow> fact_id \<Rightarrow> bound option option" where
  "staged_starts buf i = map_option cb_valid_from (List.find (\<lambda>r. cb_capture_id r = i) buf)"

definition apply_supersede_hint ::
  "round_env \<Rightarrow> string option \<Rightarrow> buffered_capture \<Rightarrow> buffer \<Rightarrow> fact_table \<Rightarrow> fact_table \<times> nat" where
  "apply_supersede_hint env clock cap buf tab =
     (case cb_supersede_hint cap of
        None \<Rightarrow> (tab, 0)
      | Some old \<Rightarrow>
        (case find_by_id tab old of
           None \<Rightarrow> (tab, 0)
         | Some row \<Rightarrow>
             if fr_superseded_at row = None \<and> fr_deleted_at row = None
             then mark_superseded (se_instant_of (re_store env)) (se_bound_from_instant (re_store env))
                    (staged_starts buf) (re_now env) old (cb_capture_id cap) (captured_instant env clock cap tab) tab
             else (tab, 0)))"

definition with_facts :: "fact_table \<Rightarrow> engine \<Rightarrow> engine" where
  "with_facts tab e = e\<lparr>en_mem := set_facts tab (en_mem e)\<rparr>"

text \<open>
  \<open>embedder\<close> answers with a vector, or with the text of its fault. A write the table refuses is an error of the
  claim too, which keeps waiting (the text of the database is left out).
\<close>

definition write_placed ::
  "round_env \<Rightarrow> (string \<Rightarrow> string + string) \<Rightarrow> string option \<Rightarrow> buffered_capture \<Rightarrow> string \<Rightarrow> string \<Rightarrow>
   engine \<times> light_report \<Rightarrow> (engine \<times> light_report) \<times> (string + unit)" where
  "write_placed env embedder clock cap wiki_id page_path er =
     (case er of (e, rep) \<Rightarrow>
       (case (case cb_embedding cap of Some v \<Rightarrow> Inr v | None \<Rightarrow> embedder (strip_embed_markers (cb_body cap))) of
          Inl fault \<Rightarrow> (er, Inl (''light dream embedder: '' @ fault))
        | Inr embedding \<Rightarrow>
          (case insert_if_absent (re_now env) (promoted_fact cap wiki_id page_path embedding) (en_facts e) of
             Inl _ \<Rightarrow> (er, Inl ''light dream fact_index'')
           | Inr (tab1, _) \<Rightarrow>
             (let tab2 = (case cb_decay_reason cap of None \<Rightarrow> tab1
                         | Some reason \<Rightarrow> fst (stamp_decay_reason (re_now env) (cb_capture_id cap) reason tab1));
                  (tab3, n) = apply_supersede_hint env clock cap (en_buf e) tab2
              in ((with_facts tab3 (e\<lparr>en_buf := fst (mark_promoted (cb_capture_id cap) (re_now env) (en_buf e))\<rparr>),
                   rep\<lparr>lr_promoted := lr_promoted rep + 1,
                       lr_superseded := lr_superseded rep + (if 0 < n then 1 else 0)\<rparr>), Inr ())))))"

text \<open>Where the plan put each claim; a later page of the plan wins.\<close>

definition placed :: "page_plan list \<Rightarrow> (string \<times> (string \<times> string)) list" where
  "placed pages =
     rev (concat (map (\<lambda>p. map (\<lambda>f. (fact_id_str (fp_fact_id f), (pp_wiki_id p, pp_page_path p))) (pp_primary_facts p)) pages))"

fun materialise_loop ::
  "round_env \<Rightarrow> (string \<Rightarrow> string + string) \<Rightarrow> string option \<Rightarrow> (string \<times> (string \<times> string)) list \<Rightarrow>
   buffered_capture list \<Rightarrow> engine \<times> light_report \<Rightarrow> engine \<times> light_report" where
  "materialise_loop env embedder clock where_to [] er = er"
| "materialise_loop env embedder clock where_to (cap # caps) (e, rep) =
     materialise_loop env embedder clock where_to caps
       (case map_of where_to (fact_id_str (cb_capture_id cap)) of
          None \<Rightarrow> (e\<lparr>en_buf := fst (mark_placement_attempted (cb_capture_id cap) (re_now env) (en_buf e))\<rparr>,
                   rep\<lparr>lr_left_waiting := lr_left_waiting rep + 1\<rparr>)
        | Some (wiki_id, page_path) \<Rightarrow>
            (case write_placed env embedder clock cap wiki_id page_path (e, rep) of
               ((e', rep'), Inl fault) \<Rightarrow>
                 (e', rep'\<lparr>lr_errors := lr_errors rep' @ [fact_id_str (cb_capture_id cap) @ '': '' @ fault]\<rparr>)
             | (er', Inr _) \<Rightarrow> er'))"

definition materialise ::
  "round_env \<Rightarrow> (string \<Rightarrow> string + string) \<Rightarrow> string option \<Rightarrow> page_plan list \<Rightarrow> waiting_queue \<Rightarrow>
   engine \<times> light_report \<Rightarrow> engine \<times> light_report" where
  "materialise env embedder clock plan q er =
     (if wq_rows q = [] then er else materialise_loop env embedder clock (placed plan) (wq_rows q) er)"

text \<open>\<open>drain_deterministically\<close>: one whole round; \<open>planner\<close> builds the plan of the screened claims.\<close>

definition drain_deterministically ::
  "round_env \<Rightarrow> (string \<Rightarrow> string + string) \<Rightarrow> string option \<Rightarrow> (fact_table \<Rightarrow> fact_for_page list \<Rightarrow> page_plan list) \<Rightarrow>
   (string \<times> bool) list \<Rightarrow> light_policy \<Rightarrow> engine \<Rightarrow> engine \<times> light_report" where
  "drain_deterministically env embedder clock planner on_disk policy e =
     (let (er, q) = screen_queue env on_disk policy e
      in if wq_for_plan q = [] then er
         else materialise env embedder clock (planner (en_facts (fst er)) (wq_for_plan q)) q er)"

section \<open>What one claim's screening changes\<close>

lemma restrict_to_None: "restrict_to now i ex rd tab = (tab', None) \<Longrightarrow> tab' = tab"
proof -
  assume r: "restrict_to now i ex rd tab = (tab', None)"
  have "map (\<lambda>r. if live i r then f r else r) tab = tab" if "filter (live i) tab = []" for f :: "fact_row \<Rightarrow> fact_row"
    using that by (intro map_idI) (metis filter_empty_conv)
  with r show ?thesis
    by (auto simp: restrict_to_def sql_update_def Let_def split: option.splits if_splits)
qed

lemma set_facts_same [simp]: "set_facts (g_facts (mm_gov m)) m = m"
  by (simp add: set_facts_def)

lemma apply_exclusion_None:
  "apply_exclusion_to_the_fact_already_there env pid rows a ch body sp th m = (m', None) \<Longrightarrow> m' = m"
  unfolding apply_exclusion_to_the_fact_already_there_def Let_def
  by (auto split: if_split_asm principal.split_asm option.split_asm prod.split_asm dest: restrict_to_None)

lemma carry_None:
  "carry_the_new_audience_onto_the_fact_it_folds_into env pid rows a ch body sp th m = (m', None) \<Longrightarrow> m' = m"
  unfolding carry_the_new_audience_onto_the_fact_it_folds_into_def Let_def
  by (auto split: if_split_asm principal.split_asm option.split_asm prod.split_asm dest: restrict_to_None)

lemma candidates_in_table: "set (find_active_by_subject tab p) \<subseteq> set tab"
  by (auto simp: find_active_by_subject_def)

lemma one_row_ids: "fr_fact_id r' = i \<Longrightarrow> map fr_fact_id (map (\<lambda>r. if fr_fact_id r = i then r' else r) tab) = map fr_fact_id tab"
  by simp

lemma miss_check_frame [simp]:
  "en_mem (miss_check env cap dup s e) = en_mem e" "en_buf (miss_check env cap dup s e) = en_buf e"
  by (simp_all add: miss_check_def split: option.splits)

lemma fold_into_effect:
  assumes "fold_into env cap dup s (e, rep) = (e', rep')"
  shows "en_mem e' = en_mem e"
    "en_buf e' = fst (mark_skipped_dup (cb_capture_id cap) (fr_fact_id dup) (re_now env) (en_buf e))"
    "lr_skipped_dup rep' = lr_skipped_dup rep + 1"
  using assms by (auto simp: fold_into_def Let_def split: if_splits)

text \<open>
  A claim that is screened either folds into a row of the table, by one of the three rules, or leaves the
  table and the buffer as they were.
\<close>

lemma screen_one_cases:
  assumes "screen_one env cap on_disk policy (e, rep) = ((e', rep'), f)"
  obtains
    (fenced) m1 dup s where
      "apply_exclusion_to_the_fact_already_there env (re_fresh_proposal env (cb_capture_id cap))
         (find_active_by_subject (en_facts e) (cb_subject cap)) (audience_of_capture cap) None (cb_body cap) (speaker_of cap)
         (lp_dedup_threshold policy) (en_mem e) = (m1, Some (dup, s))"
      "(e', rep') = fold_into env cap dup s (e\<lparr>en_mem := m1\<rparr>, rep)" "f = None"
  | (duplicate) dup s where
      "ordinary_duplicate (re_lower env) policy cap (find_active_by_subject (en_facts e) (cb_subject cap)) = Some (dup, s)"
      "(e', rep') = fold_into env cap dup s (e, rep)" "f = None"
  | (wider) m2 dup s where
      "carry_the_new_audience_onto_the_fact_it_folds_into env (re_fresh_proposal env (cb_capture_id cap))
         (find_active_by_subject (en_facts e) (cb_subject cap)) (audience_of_capture cap) None (cb_body cap) (speaker_of cap)
         (lp_dedup_threshold policy) (en_mem e) = (m2, Some (dup, s))"
      "(e', rep') = fold_into env cap dup s (e\<lparr>en_mem := m2\<rparr>, rep)" "f = None"
  | (homeless) "e' = e" "lr_skipped_dup rep' = lr_skipped_dup rep" "f = None" "home_wiki cap on_disk = None"
  | (waits) home where "e' = e" "rep' = rep" "f = Some (plan_projection cap home)" "home_wiki cap on_disk = Some home"
proof -
  let ?rows = "find_active_by_subject (en_facts e) (cb_subject cap)" and ?a = "audience_of_capture cap"
    and ?pid = "re_fresh_proposal env (cb_capture_id cap)"
  obtain m1 x1 where one: "apply_exclusion_to_the_fact_already_there env ?pid ?rows ?a None (cb_body cap) (speaker_of cap)
      (lp_dedup_threshold policy) (en_mem e) = (m1, x1)" by fastforce
  obtain m2 x2 where three: "carry_the_new_audience_onto_the_fact_it_folds_into env ?pid ?rows ?a None (cb_body cap)
      (speaker_of cap) (lp_dedup_threshold policy) m1 = (m2, x2)" by fastforce
  show ?thesis
  proof (cases x1)
    case (Some d)
    then show ?thesis
      using assms one by (cases d) (auto simp: screen_one_def Let_def intro: fenced)
  next
    case None
    with one have m1: "m1 = en_mem e" by (auto dest: apply_exclusion_None)
    show ?thesis
    proof (cases "ordinary_duplicate (re_lower env) policy cap ?rows")
      case (Some d)
      then show ?thesis
        using assms one None m1 by (cases d) (auto simp: screen_one_def Let_def intro: duplicate)
    next
      case dup: None
      show ?thesis
      proof (cases x2)
        case (Some d)
        then show ?thesis
          using assms one None dup three m1 by (cases d) (auto simp: screen_one_def Let_def intro: wider)
      next
        case x2: None
        with three m1 have m2: "m2 = en_mem e" by (auto dest: carry_None)
        show ?thesis
        proof (cases "home_wiki cap on_disk")
          case h: None
          then show ?thesis
            using assms one None dup three x2 m1 m2 by (intro homeless) (auto simp: screen_one_def Let_def)
        next
          case (Some home)
          then show ?thesis
            using assms one None dup three x2 m1 m2 by (intro waits) (auto simp: screen_one_def Let_def)
        qed
      qed
    qed
  qed
qed

lemma ordinary_duplicateD:
  assumes "ordinary_duplicate lower policy cap rows = Some (dup, s)"
  shows "dup \<in> set rows" "same_as_row (audience_of_capture cap) dup" "s = row_score lower (cb_body cap) dup"
    "lp_dedup_threshold policy \<le> s" "fr_fact_id dup \<noteq> cb_capture_id cap"
    "collect_embeds (fr_text dup) = collect_embeds (cb_body cap)"
  using assms best_dedup_candidateD [of lower rows "audience_of_capture cap" None "cb_body cap" "Some (cb_capture_id cap)"]
  by (auto simp: ordinary_duplicate_def split: option.splits if_splits)

lemma screen_one_frame:
  assumes "screen_one env cap on_disk policy (e, rep) = ((e', rep'), f)" "distinct (map fr_fact_id (en_facts e))"
  shows "map fr_fact_id (en_facts e') = map fr_fact_id (en_facts e)"
    and "f \<noteq> None \<Longrightarrow> en_buf e' = en_buf e"
    and "en_buf e' = en_buf e \<or> (\<exists>i \<in> set (map fr_fact_id (en_facts e)).
      en_buf e' = fst (mark_skipped_dup (cb_capture_id cap) i (re_now env) (en_buf e)))"
proof -
  have sub: "set (find_active_by_subject (en_facts e) (cb_subject cap)) \<subseteq> set (en_facts e)"
    by (rule candidates_in_table)
  have "map fr_fact_id (en_facts e') = map fr_fact_id (en_facts e) \<and> (f \<noteq> None \<longrightarrow> en_buf e' = en_buf e) \<and>
     (en_buf e' = en_buf e \<or> (\<exists>i \<in> set (map fr_fact_id (en_facts e)).
      en_buf e' = fst (mark_skipped_dup (cb_capture_id cap) i (re_now env) (en_buf e))))"
    using assms(1)
  proof (cases rule: screen_one_cases)
    case (fenced m1 dup s)
    obtain readers where r: "dup \<in> set (find_active_by_subject (en_facts e) (cb_subject cap))"
        "g_facts (mm_gov m1) = map (\<lambda>r. if fr_fact_id r = fr_fact_id dup
           then restricted_row (re_now env) (au_excluded (audience_of_capture cap)) readers dup else r) (en_facts e)"
      by (rule apply_exclusion_effect [OF assms(2) sub fenced(1)]) (rule that; assumption)
    from fold_into_effect [OF fenced(2) [symmetric]] r sub fenced(3) show ?thesis
      by (auto simp: one_row_ids)
  next
    case (duplicate dup s)
    from fold_into_effect [OF duplicate(2) [symmetric]] ordinary_duplicateD(1) [OF duplicate(1)] sub duplicate(3)
    show ?thesis by auto
  next
    case (wider m2 dup s)
    obtain st :: settled where r: "dup \<in> set (find_active_by_subject (en_facts e) (cb_subject cap))"
        "g_facts (mm_gov m2) = map (\<lambda>r. if fr_fact_id r = fr_fact_id dup
           then restricted_row (re_now env) (st_excluded st) (st_readers st) dup else r) (en_facts e)"
      by (rule carry_effect [OF assms(2) sub wider(1)]) (rule that; assumption)
    from fold_into_effect [OF wider(2) [symmetric]] r sub wider(3) show ?thesis
      by (auto simp: one_row_ids)
  qed auto
  then show "map fr_fact_id (en_facts e') = map fr_fact_id (en_facts e)" "f \<noteq> None \<Longrightarrow> en_buf e' = en_buf e"
    "en_buf e' = en_buf e \<or> (\<exists>i \<in> set (map fr_fact_id (en_facts e)).
      en_buf e' = fst (mark_skipped_dup (cb_capture_id cap) i (re_now env) (en_buf e)))"
    by blast+
qed

section \<open>No claim is lost\<close>

text \<open>The claim itself, without the marks the round puts on its row; and a fact that says the same.\<close>

definition claim_part :: "buffered_capture \<Rightarrow> buffered_capture" where
  "claim_part r = r\<lparr>cb_status := Buffered, cb_processed_at := None, cb_resolved_fact_id := None,
     cb_placement_attempts := 0, cb_last_attempt_at := None\<rparr>"

definition says_the_claim :: "buffered_capture \<Rightarrow> fact_row \<Rightarrow> bool" where
  "says_the_claim r f \<longleftrightarrow>
     fr_fact_id f = cb_capture_id r \<and> fr_text f = cb_body r \<and> fr_subject_id f = cb_subject r \<and>
     fr_subject_external f = cb_subject_external r \<and> fr_allow_ids f = cb_allow r \<and>
     fr_excluded_ids f = cb_excluded r \<and> fr_sender_id f = cb_sender r \<and> fr_fact_type f = cb_fact_type r \<and>
     fr_slot f = cb_slot r \<and> fr_slot_value f = cb_slot_value r \<and> fr_valid_from f = cb_valid_from r \<and>
     fr_source_ref f = cb_source_ref r \<and> fr_salience f = cb_salience r"

abbreviation waiting :: "fact_id \<Rightarrow> buffer \<Rightarrow> bool" where
  "waiting i buf \<equiv> \<exists>t \<in> set buf. row_in Buffered i t"

text \<open>
  Where a claim can be: still waiting; written as a fact of its own; or folded, into a fact or into
  another claim that still waits. \<open>known\<close> are the facts there were before.
\<close>

definition whereabouts :: "fact_id set \<Rightarrow> buffered_capture \<Rightarrow> engine \<Rightarrow> bool" where
  "whereabouts known r e \<longleftrightarrow>
     (\<exists>r' \<in> set (en_buf e). cb_capture_id r' = cb_capture_id r \<and> claim_part r' = claim_part r \<and>
       (cb_status r' = Buffered \<or>
        cb_status r' = Promoted \<and>
          (\<exists>f \<in> set (en_facts e). fr_fact_id f = cb_capture_id r \<and> (cb_capture_id r \<notin> known \<longrightarrow> says_the_claim r f)) \<or>
        cb_status r' = SkippedDup \<and>
          (\<exists>i. cb_resolved_fact_id r' = Some i \<and> (i \<in> fr_fact_id ` set (en_facts e) \<or> waiting i (en_buf e)))))"

lemma claim_part_id: "claim_part r' = claim_part r \<Longrightarrow> cb_capture_id r' = cb_capture_id r"
  by (drule arg_cong [where f = cb_capture_id]) (simp add: claim_part_def)

lemma in_buffer_update: "r \<in> set (fst (buffer_update P f buf)) \<longleftrightarrow> (\<exists>x \<in> set buf. r = (if P x then f x else x))"
  by (auto simp: buffer_update_def)

lemma mark_skipped_rows:
  "set (fst (mark_skipped_dup i j now buf)) =
     (\<lambda>r. if row_in Buffered i r then r\<lparr>cb_status := SkippedDup, cb_processed_at := Some now, cb_resolved_fact_id := Some j\<rparr> else r) ` set buf"
  by (auto simp: mark_skipped_dup_def buffer_update_def)

lemma mark_skipped_ids: "map cb_capture_id (fst (mark_skipped_dup i j now buf)) = map cb_capture_id buf"
  by (simp add: mark_skipped_dup_def buffer_update_ids)

text \<open>During the screening a claim folded into another one is folded into one that was accepted.\<close>

definition accounted :: "buffered_capture \<Rightarrow> fact_id set \<Rightarrow> buffer \<Rightarrow> bool" where
  "accounted r landing buf \<longleftrightarrow>
     (\<exists>r' \<in> set buf. claim_part r' = claim_part r \<and>
       (cb_status r' = Buffered \<or> cb_status r' = SkippedDup \<and> (\<exists>i \<in> landing. cb_resolved_fact_id r' = Some i)))"

lemma accounted_mono: "accounted r A buf \<Longrightarrow> A \<subseteq> B \<Longrightarrow> accounted r B buf"
  by (auto simp: accounted_def)

lemma accounted_skip:
  assumes "accounted r A buf" "j \<in> A"
  shows "accounted r A (fst (mark_skipped_dup i j now buf))"
proof -
  from assms(1) obtain x where x: "x \<in> set buf" "claim_part x = claim_part r"
      "cb_status x = Buffered \<or> cb_status x = SkippedDup \<and> (\<exists>i \<in> A. cb_resolved_fact_id x = Some i)"
    by (auto simp: accounted_def)
  let ?x = "if row_in Buffered i x then x\<lparr>cb_status := SkippedDup, cb_processed_at := Some now, cb_resolved_fact_id := Some j\<rparr> else x"
  have "?x \<in> set (fst (mark_skipped_dup i j now buf))" using x(1) by (simp add: mark_skipped_rows)
  moreover have "claim_part ?x = claim_part r" using x(2) by (simp add: claim_part_def)
  moreover have "cb_status ?x = Buffered \<or> cb_status ?x = SkippedDup \<and> (\<exists>i \<in> A. cb_resolved_fact_id ?x = Some i)"
    using x(3) assms(2) by auto
  ultimately show ?thesis unfolding accounted_def by blast
qed

text \<open>What the screening loop keeps: the claims to come and the accepted ones wait, each once.\<close>

definition screening_ok :: "buffered_capture list \<Rightarrow> buffered_capture list \<Rightarrow> engine \<Rightarrow> bool" where
  "screening_ok caps rows e \<longleftrightarrow>
     distinct (map cb_capture_id (en_buf e)) \<and> distinct (map fr_fact_id (en_facts e)) \<and>
     distinct (map cb_capture_id (rows @ caps)) \<and>
     (\<forall>r \<in> set (rows @ caps). r \<in> set (en_buf e) \<and> cb_status r = Buffered)"

lemma screening_ok_skip:
  assumes "screening_ok (cap # caps) rows e" "en_buf e' = fst (mark_skipped_dup (cb_capture_id cap) j now (en_buf e))"
    and "map fr_fact_id (en_facts e') = map fr_fact_id (en_facts e)"
  shows "screening_ok caps rows e'"
proof -
  have "r \<in> set (en_buf e')" if "r \<in> set (rows @ caps)" for r
  proof -
    have "cb_capture_id r \<in> cb_capture_id ` set (rows @ caps)" using that by (rule imageI)
    moreover have "cb_capture_id cap \<notin> cb_capture_id ` set (rows @ caps)" using assms(1) by (auto simp: screening_ok_def)
    ultimately have "cb_capture_id r \<noteq> cb_capture_id cap" by metis
    moreover have "r \<in> set (en_buf e)" using that assms(1) by (auto simp: screening_ok_def)
    ultimately show ?thesis unfolding assms(2) mark_skipped_rows
      by (intro image_eqI [where x = r]) (simp_all add: row_in_def)
  qed
  with assms show ?thesis by (auto simp: screening_ok_def mark_skipped_ids simp flip: set_map)
qed

lemma screening_ok_same:
  "screening_ok (cap # caps) rows e \<Longrightarrow> en_buf e' = en_buf e \<Longrightarrow>
   map fr_fact_id (en_facts e') = map fr_fact_id (en_facts e) \<Longrightarrow> screening_ok caps rows e'"
  by (auto simp: screening_ok_def)

lemma screening_ok_accept:
  "screening_ok (cap # caps) rows e \<Longrightarrow> en_buf e' = en_buf e \<Longrightarrow>
   map fr_fact_id (en_facts e') = map fr_fact_id (en_facts e) \<Longrightarrow> screening_ok caps (rows @ [cap]) e'"
  by (auto simp: screening_ok_def)

lemma queue_twin_in: "queue_twin lower policy rows cap = Some twin \<Longrightarrow> twin \<in> set rows"
  by (auto simp: queue_twin_def find_Some_iff)

lemma screen_loop_accounts:
  assumes "screening_ok caps (wq_rows q) e"
    and "\<forall>r \<in> R. accounted r (fr_fact_id ` set (en_facts e) \<union> cb_capture_id ` set (wq_rows q)) (en_buf e)"
    and "screen_loop env on_disk policy caps q (e, rep) = ((e', rep'), q')"
  shows "screening_ok [] (wq_rows q') e' \<and> map fr_fact_id (en_facts e') = map fr_fact_id (en_facts e) \<and>
    (\<forall>r \<in> R. accounted r (fr_fact_id ` set (en_facts e') \<union> cb_capture_id ` set (wq_rows q')) (en_buf e'))"
  using assms
proof (induction caps arbitrary: q e rep)
  case (Cons cap caps)
  show ?case
  proof (cases "queue_twin (re_lower env) policy (wq_rows q) cap")
    case (Some twin)
    let ?e = "e\<lparr>en_buf := fst (mark_skipped_dup (cb_capture_id cap) (cb_capture_id twin) (re_now env) (en_buf e))\<rparr>"
    have ok: "screening_ok caps (wq_rows q) ?e"
      by (rule screening_ok_skip [OF Cons.prems(1)]) simp_all
    have "cb_capture_id twin \<in> fr_fact_id ` set (en_facts e) \<union> cb_capture_id ` set (wq_rows q)"
      using queue_twin_in [OF Some] by auto
    then have acc: "\<forall>r \<in> R. accounted r (fr_fact_id ` set (en_facts ?e) \<union> cb_capture_id ` set (wq_rows q)) (en_buf ?e)"
      using Cons.prems(2) accounted_skip by auto
    from Cons.IH [OF ok acc] Cons.prems(3) Some show ?thesis by simp
  next
    case None
    obtain e1 rep1 f where one: "screen_one env cap on_disk policy (e, rep) = ((e1, rep1), f)"
      by (metis prod.exhaust)
    have d: "distinct (map fr_fact_id (en_facts e))" using Cons.prems(1) by (simp add: screening_ok_def)
    note frame = screen_one_frame [OF one d]
    have ids: "fr_fact_id ` set (en_facts e1) = fr_fact_id ` set (en_facts e)"
      using frame(1) by (metis set_map)
    show ?thesis
    proof (cases f)
      case (Some x)
      let ?q = "\<lparr>wq_for_plan = wq_for_plan q @ [x], wq_rows = wq_rows q @ [cap]\<rparr>"
      have ok: "screening_ok caps (wq_rows ?q) e1"
        using screening_ok_accept [OF Cons.prems(1) _ frame(1)] frame(2) Some by simp
      have acc: "\<forall>r \<in> R. accounted r (fr_fact_id ` set (en_facts e1) \<union> cb_capture_id ` set (wq_rows ?q)) (en_buf e1)"
      proof
        fix r assume "r \<in> R"
        with Cons.prems(2) have "accounted r (fr_fact_id ` set (en_facts e) \<union> cb_capture_id ` set (wq_rows q)) (en_buf e)"
          by blast
        then have "accounted r (fr_fact_id ` set (en_facts e) \<union> cb_capture_id ` set (wq_rows ?q)) (en_buf e)"
          by (rule accounted_mono) auto
        with ids frame(2) Some show "accounted r (fr_fact_id ` set (en_facts e1) \<union> cb_capture_id ` set (wq_rows ?q)) (en_buf e1)"
          by simp
      qed
      from Cons.IH [OF ok acc] Cons.prems(3) None one Some frame(1) show ?thesis by simp
    next
      case f: None
      have "screening_ok caps (wq_rows q) e1 \<and>
          (\<forall>r \<in> R. accounted r (fr_fact_id ` set (en_facts e1) \<union> cb_capture_id ` set (wq_rows q)) (en_buf e1))"
        using frame(3)
      proof
        assume b: "en_buf e1 = en_buf e"
        with screening_ok_same [OF Cons.prems(1) b frame(1)] Cons.prems(2) ids show ?thesis by simp
      next
        assume "\<exists>i \<in> set (map fr_fact_id (en_facts e)).
          en_buf e1 = fst (mark_skipped_dup (cb_capture_id cap) i (re_now env) (en_buf e))"
        then obtain i where i: "i \<in> fr_fact_id ` set (en_facts e)"
            "en_buf e1 = fst (mark_skipped_dup (cb_capture_id cap) i (re_now env) (en_buf e))" by auto
        with screening_ok_skip [OF Cons.prems(1) i(2) frame(1)] Cons.prems(2) ids accounted_skip show ?thesis
          by simp
      qed
      with Cons.IH [of q e1 rep1] Cons.prems(3) None one f frame(1) show ?thesis by simp
    qed
  qed
qed simp


text \<open>The columns a round may still write on a fact, blanked.\<close>

definition as_claimed :: "fact_row \<Rightarrow> fact_row" where
  "as_claimed f = f\<lparr>fr_superseded_at := None, fr_superseded_by := None, fr_updated_at := [], fr_valid_to := None,
     fr_decay_reason := None\<rparr>"

lemma says_as_claimed: "as_claimed f' = as_claimed f \<Longrightarrow> says_the_claim r f' \<longleftrightarrow> says_the_claim r f"
  by (cases f; cases f') (simp add: as_claimed_def says_the_claim_def)

lemma as_claimed_id: "as_claimed f' = as_claimed f \<Longrightarrow> fr_fact_id f' = fr_fact_id f"
  by (cases f; cases f') (simp add: as_claimed_def)

lemma says_claim_part: "claim_part r' = claim_part r \<Longrightarrow> says_the_claim r' f \<longleftrightarrow> says_the_claim r f"
  by (cases r; cases r') (simp add: claim_part_def says_the_claim_def)

lemma as_claimed_update:
  "(\<And>r. as_claimed (f r) = as_claimed r) \<Longrightarrow> map as_claimed (fst (sql_update P f tab)) = map as_claimed tab"
  by (simp add: sql_update_def)

lemma as_claimed_stamp: "map as_claimed (fst (stamp_decay_reason now i why tab)) = map as_claimed tab"
  unfolding stamp_decay_reason_def by (rule as_claimed_update) (simp add: as_claimed_def)

lemma as_claimed_hint: "map as_claimed (fst (apply_supersede_hint env clock cap buf tab)) = map as_claimed tab"
proof -
  have "map as_claimed (fst (mark_superseded io bi b now old i w tab)) = map as_claimed tab" for io bi b now old i w
    unfolding mark_superseded_def Let_def by (rule as_claimed_update) (simp add: as_claimed_def)
  then show ?thesis by (simp add: apply_supersede_hint_def split: option.splits)
qed

text \<open>Writing a placed claim: nothing at all, or its fact in the table and its row promoted.\<close>

lemma write_placed_effect:
  assumes "write_placed env embedder clock cap w p (e, rep) = ((e', rep'), res)"
  obtains "e' = e" "\<exists>fault. res = Inl fault"
  | new where "says_the_claim cap new"
      "map as_claimed (en_facts e') =
         map as_claimed (if cb_capture_id cap \<in> set (map fr_fact_id (en_facts e)) then en_facts e else en_facts e @ [new])"
      "en_buf e' = fst (mark_promoted (cb_capture_id cap) (re_now env) (en_buf e))" "res = Inr ()"
proof (cases "case cb_embedding cap of Some v \<Rightarrow> Inr v | None \<Rightarrow> embedder (strip_embed_markers (cb_body cap))")
  case (Inl fault)
  with assms have "e' = e" "res = Inl (''light dream embedder: '' @ fault)" by (auto simp: write_placed_def)
  with that(1) show ?thesis by blast
next
  case (Inr v)
  let ?new = "row_of_new_fact (re_now env) (promoted_fact cap w p v)"
  let ?tab1 = "if cb_capture_id cap \<in> set (map fr_fact_id (en_facts e)) then en_facts e else en_facts e @ [?new]"
  obtain tab1 k where ins: "insert_if_absent (re_now env) (promoted_fact cap w p v) (en_facts e) = Inr (tab1, k)"
      and tab1: "tab1 = ?tab1"
    by (cases "cb_capture_id cap \<in> set (map fr_fact_id (en_facts e))")
      (auto simp: insert_if_absent_def insert_with_def promoted_fact_def)
  define tab2 where "tab2 = (case cb_decay_reason cap of None \<Rightarrow> tab1
     | Some reason \<Rightarrow> fst (stamp_decay_reason (re_now env) (cb_capture_id cap) reason tab1))"
  obtain tab3 n where h: "apply_supersede_hint env clock cap (en_buf e) tab2 = (tab3, n)" by fastforce
  from assms Inr ins h [unfolded tab2_def] have r: "en_facts e' = tab3"
      "en_buf e' = fst (mark_promoted (cb_capture_id cap) (re_now env) (en_buf e))" "res = Inr ()"
    by (auto simp: write_placed_def Let_def with_facts_def set_facts_def)
  have "map as_claimed tab3 = map as_claimed tab2"
    using as_claimed_hint [of env clock cap "en_buf e" tab2] h by simp
  also have "\<dots> = map as_claimed ?tab1"
    unfolding tab2_def tab1 by (cases "cb_decay_reason cap") (simp_all add: as_claimed_stamp)
  finally have "map as_claimed (en_facts e') = map as_claimed ?tab1" using r(1) by simp
  moreover have "says_the_claim cap ?new"
    by (simp add: says_the_claim_def row_of_new_fact_def promoted_fact_def)
  ultimately show ?thesis using that(2) r(2,3) by blast
qed

text \<open>A step that only marks rows, and promotes one only when its fact is there, loses no claim.\<close>

lemma whereabouts_step:
  assumes "whereabouts known r e"
    and "set (en_buf e') = h ` set (en_buf e)"
    and "\<And>x. claim_part (h x) = claim_part x"
    and "\<And>x. x \<in> set (en_buf e) \<Longrightarrow>
      cb_status (h x) = cb_status x \<and> cb_resolved_fact_id (h x) = cb_resolved_fact_id x \<or>
      cb_status x = Buffered \<and> cb_status (h x) = Promoted \<and>
        (\<exists>f \<in> set (en_facts e'). fr_fact_id f = cb_capture_id x \<and> (cb_capture_id x \<notin> known \<longrightarrow> says_the_claim x f))"
    and "\<And>f. f \<in> set (en_facts e) \<Longrightarrow> \<exists>f' \<in> set (en_facts e'). as_claimed f' = as_claimed f"
  shows "whereabouts known r e'"
proof -
  from assms(1) obtain x where x: "x \<in> set (en_buf e)" "cb_capture_id x = cb_capture_id r" "claim_part x = claim_part r"
    and st: "cb_status x = Buffered \<or>
      cb_status x = Promoted \<and>
        (\<exists>f \<in> set (en_facts e). fr_fact_id f = cb_capture_id r \<and> (cb_capture_id r \<notin> known \<longrightarrow> says_the_claim r f)) \<or>
      cb_status x = SkippedDup \<and>
        (\<exists>i. cb_resolved_fact_id x = Some i \<and> (i \<in> fr_fact_id ` set (en_facts e) \<or> waiting i (en_buf e)))"
    unfolding whereabouts_def by blast
  have kept: "\<exists>f' \<in> set (en_facts e'). fr_fact_id f' = i \<and> (P \<longrightarrow> says_the_claim r f')"
    if "f \<in> set (en_facts e)" "fr_fact_id f = i" "P \<longrightarrow> says_the_claim r f" for f i P
    using assms(5) [OF that(1)] that(2,3) by (metis as_claimed_id says_as_claimed)
  have landed: "i \<in> fr_fact_id ` set (en_facts e') \<or> waiting i (en_buf e')"
    if "i \<in> fr_fact_id ` set (en_facts e) \<or> waiting i (en_buf e)" for i
    using that
  proof
    assume "i \<in> fr_fact_id ` set (en_facts e)"
    then obtain f where "f \<in> set (en_facts e)" "fr_fact_id f = i" by blast
    then have "\<exists>f' \<in> set (en_facts e'). fr_fact_id f' = i" using kept [of f i False] by blast
    then show ?thesis by auto
  next
    assume "waiting i (en_buf e)"
    then obtain y where y: "y \<in> set (en_buf e)" "cb_capture_id y = i" "cb_status y = Buffered"
      by (auto simp: row_in_def)
    have "h y \<in> set (en_buf e')" "cb_capture_id (h y) = i"
      using y(1,2) assms(2) claim_part_id [OF assms(3)] by auto
    then show ?thesis using assms(4) [OF y(1)] y(2,3) by (force simp: row_in_def)
  qed
  have "h x \<in> set (en_buf e')" "claim_part (h x) = claim_part r" "cb_capture_id (h x) = cb_capture_id r"
    using x assms(2,3) claim_part_id [OF assms(3)] by auto
  moreover have "cb_status (h x) = Buffered \<or>
      cb_status (h x) = Promoted \<and>
        (\<exists>f \<in> set (en_facts e'). fr_fact_id f = cb_capture_id r \<and> (cb_capture_id r \<notin> known \<longrightarrow> says_the_claim r f)) \<or>
      cb_status (h x) = SkippedDup \<and>
        (\<exists>i. cb_resolved_fact_id (h x) = Some i \<and> (i \<in> fr_fact_id ` set (en_facts e') \<or> waiting i (en_buf e')))"
    using assms(4) [OF x(1)]
  proof
    assume same: "cb_status (h x) = cb_status x \<and> cb_resolved_fact_id (h x) = cb_resolved_fact_id x"
    from st show ?thesis
    proof (elim disjE conjE)
      assume "cb_status x = Promoted"
        "\<exists>f \<in> set (en_facts e). fr_fact_id f = cb_capture_id r \<and> (cb_capture_id r \<notin> known \<longrightarrow> says_the_claim r f)"
      with same kept show ?thesis by metis
    next
      assume "cb_status x = SkippedDup"
        "\<exists>i. cb_resolved_fact_id x = Some i \<and> (i \<in> fr_fact_id ` set (en_facts e) \<or> waiting i (en_buf e))"
      with same landed show ?thesis by metis
    qed (use same in simp)
  next
    assume "cb_status x = Buffered \<and> cb_status (h x) = Promoted \<and>
        (\<exists>f \<in> set (en_facts e'). fr_fact_id f = cb_capture_id x \<and> (cb_capture_id x \<notin> known \<longrightarrow> says_the_claim x f))"
    with x(2) says_claim_part [OF x(3)] show ?thesis by auto
  qed
  ultimately show ?thesis unfolding whereabouts_def by blast
qed

text \<open>What the writing loop keeps: the claims to come wait, and a fact with such an id is an old one.\<close>

definition placing_ok :: "fact_id set \<Rightarrow> buffered_capture list \<Rightarrow> engine \<Rightarrow> bool" where
  "placing_ok known caps e \<longleftrightarrow>
     distinct (map cb_capture_id (en_buf e)) \<and> distinct (map cb_capture_id caps) \<and>
     (\<forall>c \<in> set caps. c \<in> set (en_buf e) \<and>
       (cb_capture_id c \<in> fr_fact_id ` set (en_facts e) \<longrightarrow> cb_capture_id c \<in> known))"

lemma same_id_same_row:
  "distinct (map cb_capture_id buf) \<Longrightarrow> x \<in> set buf \<Longrightarrow> y \<in> set buf \<Longrightarrow> cb_capture_id x = cb_capture_id y \<Longrightarrow> x = y"
  by (simp add: distinct_map inj_on_def)

lemma placing_ok_step:
  assumes "placing_ok known (cap # caps) e"
    and "en_buf e' = fst (buffer_update (row_in Buffered (cb_capture_id cap)) g (en_buf e))"
    and "\<And>x. cb_capture_id (g x) = cb_capture_id x"
    and "fr_fact_id ` set (en_facts e') \<subseteq> insert (cb_capture_id cap) (fr_fact_id ` set (en_facts e))"
  shows "placing_ok known caps e'"
proof -
  have "c \<in> set (en_buf e') \<and> (cb_capture_id c \<in> fr_fact_id ` set (en_facts e') \<longrightarrow> cb_capture_id c \<in> known)"
    if c: "c \<in> set caps" for c
  proof -
    have "cb_capture_id c \<in> cb_capture_id ` set caps" using c by (rule imageI)
    moreover have "cb_capture_id cap \<notin> cb_capture_id ` set caps" using assms(1) by (simp add: placing_ok_def)
    ultimately have ne: "cb_capture_id c \<noteq> cb_capture_id cap" by metis
    have old: "c \<in> set (en_buf e)" "cb_capture_id c \<in> fr_fact_id ` set (en_facts e) \<longrightarrow> cb_capture_id c \<in> known"
      using assms(1) c by (simp_all add: placing_ok_def)
    have "c \<in> set (en_buf e')"
      unfolding assms(2) in_buffer_update using old(1) ne by (intro bexI [of _ c]) (simp_all add: row_in_def)
    moreover have "cb_capture_id c \<in> fr_fact_id ` set (en_facts e') \<longrightarrow> cb_capture_id c \<in> known"
      using assms(4) ne old(2) by blast
    ultimately show ?thesis by blast
  qed
  moreover have "map cb_capture_id (en_buf e') = map cb_capture_id (en_buf e)"
    unfolding assms(2) by (rule buffer_update_ids) (rule assms(3))
  ultimately show ?thesis using assms(1) by (simp add: placing_ok_def)
qed

lemma attempt_keeps_whereabouts:
  assumes "whereabouts known r e" "en_facts e' = en_facts e"
    and "en_buf e' = fst (mark_placement_attempted i now (en_buf e))"
  shows "whereabouts known r e'"
proof (rule whereabouts_step [OF assms(1),
    where h = "\<lambda>r. if row_in Buffered i r then r\<lparr>cb_placement_attempts := cb_placement_attempts r + 1,
      cb_last_attempt_at := Some now\<rparr> else r"])
  show "set (en_buf e') = (\<lambda>r. if row_in Buffered i r then r\<lparr>cb_placement_attempts := cb_placement_attempts r + 1,
      cb_last_attempt_at := Some now\<rparr> else r) ` set (en_buf e)"
    by (simp add: assms(3) mark_placement_attempted_def buffer_update_def)
qed (auto simp: assms(2) claim_part_def)

lemma same_image:
  assumes "g ` A = g ` B" "a \<in> A"
  shows "\<exists>b \<in> B. g b = g a"
proof -
  have "g a \<in> g ` B" using assms by blast
  then show ?thesis by auto
qed

lemma promotion_keeps_whereabouts:
  assumes ok: "placing_ok known (cap # caps) e" and w: "whereabouts known r e"
    and new: "says_the_claim cap new"
    and tab: "map as_claimed (en_facts e') = map as_claimed
      (if cb_capture_id cap \<in> set (map fr_fact_id (en_facts e)) then en_facts e else en_facts e @ [new])"
    and buf: "en_buf e' = fst (mark_promoted (cb_capture_id cap) now (en_buf e))"
  shows "whereabouts known r e' \<and>
    fr_fact_id ` set (en_facts e') \<subseteq> insert (cb_capture_id cap) (fr_fact_id ` set (en_facts e))"
proof -
  let ?tab = "if cb_capture_id cap \<in> set (map fr_fact_id (en_facts e)) then en_facts e else en_facts e @ [new]"
  let ?h = "\<lambda>r. if row_in Buffered (cb_capture_id cap) r
    then r\<lparr>cb_status := Promoted, cb_processed_at := Some now, cb_resolved_fact_id := Some (cb_capture_id r)\<rparr> else r"
  have same: "as_claimed ` set (en_facts e') = as_claimed ` set ?tab" using tab by (metis set_map)
  note found = same_image [OF same [symmetric]] and from_tab = same_image [OF same]
  have nid: "fr_fact_id new = cb_capture_id cap" using new by (simp add: says_the_claim_def)
  have known: "cb_capture_id cap \<in> fr_fact_id ` set (en_facts e) \<Longrightarrow> cb_capture_id cap \<in> known"
    using ok by (simp add: placing_ok_def)
  have "\<exists>f \<in> set ?tab. fr_fact_id f = cb_capture_id cap \<and> (cb_capture_id cap \<notin> known \<longrightarrow> says_the_claim cap f)"
    using known nid new by auto
  then obtain f where f: "f \<in> set ?tab" "fr_fact_id f = cb_capture_id cap"
      "cb_capture_id cap \<notin> known \<longrightarrow> says_the_claim cap f" by blast
  obtain f' where f': "f' \<in> set (en_facts e')" "as_claimed f' = as_claimed f" using found [OF f(1)] by blast
  have landed: "\<exists>f \<in> set (en_facts e'). fr_fact_id f = cb_capture_id cap \<and>
      (cb_capture_id cap \<notin> known \<longrightarrow> says_the_claim cap f)"
    using f' f(2,3) as_claimed_id [OF f'(2)] says_as_claimed [OF f'(2)] by auto
  have row: "x = cap" if "x \<in> set (en_buf e)" "row_in Buffered (cb_capture_id cap) x" for x
    using that ok by (auto simp: placing_ok_def row_in_def intro: same_id_same_row)
  have "whereabouts known r e'"
  proof (rule whereabouts_step [OF w, where h = ?h])
    show "set (en_buf e') = ?h ` set (en_buf e)" by (simp add: buf mark_promoted_def buffer_update_def)
    show "claim_part (?h x) = claim_part x" for x by (simp add: claim_part_def)
    fix x assume x: "x \<in> set (en_buf e)"
    show "cb_status (?h x) = cb_status x \<and> cb_resolved_fact_id (?h x) = cb_resolved_fact_id x \<or>
        cb_status x = Buffered \<and> cb_status (?h x) = Promoted \<and>
          (\<exists>f \<in> set (en_facts e'). fr_fact_id f = cb_capture_id x \<and> (cb_capture_id x \<notin> known \<longrightarrow> says_the_claim x f))"
      using row [OF x] landed by (cases "row_in Buffered (cb_capture_id cap) x") (auto simp: row_in_def)
  next
    fix f assume "f \<in> set (en_facts e)"
    then show "\<exists>f' \<in> set (en_facts e'). as_claimed f' = as_claimed f" by (intro found) simp
  qed
  moreover have "fr_fact_id f \<in> insert (cb_capture_id cap) (fr_fact_id ` set (en_facts e))"
    if f: "f \<in> set (en_facts e')" for f
  proof -
    obtain f' where "f' \<in> set ?tab" "as_claimed f' = as_claimed f" using from_tab [OF f] by blast
    then have "f' \<in> set (en_facts e) \<or> f' = new" "fr_fact_id f = fr_fact_id f'"
      using as_claimed_id [of f' f] by (auto split: if_splits)
    then show ?thesis using nid by auto
  qed
  ultimately show ?thesis by blast
qed

lemma materialise_loop_keeps:
  assumes "placing_ok known caps e" "whereabouts known r e"
    and "materialise_loop env embedder clock where_to caps (e, rep) = (e', rep')"
  shows "whereabouts known r e'"
  using assms
proof (induction caps arbitrary: e rep)
  case (Cons cap caps)
  show ?case
  proof (cases "map_of where_to (fact_id_str (cb_capture_id cap))")
    case None
    let ?e = "e\<lparr>en_buf := fst (mark_placement_attempted (cb_capture_id cap) (re_now env) (en_buf e))\<rparr>"
    have "placing_ok known caps ?e"
      by (rule placing_ok_step [OF Cons.prems(1), where g = "\<lambda>r. r\<lparr>cb_placement_attempts := cb_placement_attempts r + 1,
          cb_last_attempt_at := Some (re_now env)\<rparr>"]) (auto simp: mark_placement_attempted_def)
    moreover have "whereabouts known r ?e"
      by (rule attempt_keeps_whereabouts [OF Cons.prems(2)]) simp_all
    ultimately show ?thesis using Cons.IH Cons.prems(3) None by simp
  next
    case (Some wp)
    obtain w p where wp: "wp = (w, p)" by (cases wp)
    obtain e1 rep1 res where one: "write_placed env embedder clock cap w p (e, rep) = ((e1, rep1), res)"
      by (metis prod.exhaust)
    have "placing_ok known caps e1 \<and> whereabouts known r e1"
    proof (rule write_placed_effect [OF one])
      assume "e1 = e"
      then show ?thesis using Cons.prems(1,2) by (simp add: placing_ok_def)
    next
      fix new assume n: "says_the_claim cap new"
        "map as_claimed (en_facts e1) = map as_claimed
          (if cb_capture_id cap \<in> set (map fr_fact_id (en_facts e)) then en_facts e else en_facts e @ [new])"
        "en_buf e1 = fst (mark_promoted (cb_capture_id cap) (re_now env) (en_buf e))"
      note k = promotion_keeps_whereabouts [OF Cons.prems(1,2) n]
      have "placing_ok known caps e1"
        by (rule placing_ok_step [OF Cons.prems(1) n(3) [unfolded mark_promoted_def]]) (use k in simp_all)
      with k show ?thesis by blast
    qed
    then show ?thesis using Cons.IH Cons.prems(3) Some wp one by (auto split: sum.splits)
  qed
qed simp

lemma in_sql_limit: "x \<in> set (sql_limit n xs) \<Longrightarrow> x \<in> set xs"
  by (auto simp: sql_limit_def dest: in_set_takeD split: if_splits)

lemma distinct_sql_limit: "distinct (map f xs) \<Longrightarrow> distinct (map f (sql_limit n xs))"
  by (simp add: sql_limit_def distinct_take flip: take_map)

lemma find_all_buffered_sub: "set (find_all_buffered n buf) \<subseteq> {r \<in> set buf. cb_status r = Buffered}"
proof
  fix x assume "x \<in> set (find_all_buffered n buf)"
  then have "x \<in> set (sort_key queue_key (filter (\<lambda>r. cb_status r = Buffered) buf))"
    unfolding find_all_buffered_def by (rule in_sql_limit)
  then show "x \<in> {r \<in> set buf. cb_status r = Buffered}" by simp
qed

lemma find_all_buffered_distinct:
  assumes "distinct (map cb_capture_id buf)"
  shows "distinct (map cb_capture_id (find_all_buffered n buf))"
proof -
  have "distinct buf" "inj_on cb_capture_id (set buf)" using assms by (simp_all add: distinct_map)
  then have "distinct (map cb_capture_id (sort_key queue_key (filter (\<lambda>r. cb_status r = Buffered) buf)))"
    unfolding distinct_map by (auto intro: inj_on_subset)
  then show ?thesis unfolding find_all_buffered_def by (rule distinct_sql_limit)
qed

lemma accounted_whereabouts:
  assumes "accounted r (fr_fact_id ` set (en_facts e) \<union> cb_capture_id ` set rows) (en_buf e)" "screening_ok [] rows e"
  shows "whereabouts known r e"
proof -
  from assms(1) obtain r' where r': "r' \<in> set (en_buf e)" "claim_part r' = claim_part r"
    "cb_status r' = Buffered \<or> cb_status r' = SkippedDup \<and>
      (\<exists>i \<in> fr_fact_id ` set (en_facts e) \<union> cb_capture_id ` set rows. cb_resolved_fact_id r' = Some i)"
    by (auto simp: accounted_def)
  have "waiting i (en_buf e)" if "i \<in> cb_capture_id ` set rows" for i
    using that assms(2) by (auto simp: screening_ok_def row_in_def)
  then have "cb_status r' = Buffered \<or> cb_status r' = Promoted \<and>
      (\<exists>f \<in> set (en_facts e). fr_fact_id f = cb_capture_id r \<and> (cb_capture_id r \<notin> known \<longrightarrow> says_the_claim r f)) \<or>
    cb_status r' = SkippedDup \<and>
      (\<exists>i. cb_resolved_fact_id r' = Some i \<and> (i \<in> fr_fact_id ` set (en_facts e) \<or> waiting i (en_buf e)))"
    using r'(3) by (elim disjE conjE bexE UnE) simp_all
  then show ?thesis
    unfolding whereabouts_def using r'(1,2) claim_part_id [OF r'(2)] by (intro bexI [of _ r'] conjI)
qed

lemma sweep_parked_frame:
  "en_facts (sweep_parked env e) = en_facts e"
  "r \<in> set (en_buf e) \<Longrightarrow> cb_status r = Buffered \<Longrightarrow> r \<in> set (en_buf (sweep_parked env e))"
  "distinct (map cb_capture_id (en_buf e)) \<Longrightarrow> distinct (map cb_capture_id (en_buf (sweep_parked env e)))"
  by (auto simp: sweep_parked_def sweep_orphan_held_def buffer_delete_def distinct_map_filter)

text \<open>The screening of a whole queue, then the writing.\<close>

lemma screen_queue_accounts:
  assumes "distinct (map cb_capture_id (en_buf e))" "distinct (map fr_fact_id (en_facts e))"
    and "screen_queue env on_disk policy e = ((e', rep'), q)"
    and "r \<in> set (en_buf e)" "cb_status r = Buffered"
  shows "screening_ok [] (wq_rows q) e' \<and> map fr_fact_id (en_facts e') = map fr_fact_id (en_facts e) \<and>
    accounted r (fr_fact_id ` set (en_facts e') \<union> cb_capture_id ` set (wq_rows q)) (en_buf e')"
proof -
  let ?e = "sweep_parked env e" and ?q = "\<lparr>wq_for_plan = [], wq_rows = []\<rparr> :: waiting_queue"
  let ?caps = "find_all_buffered (lp_max_promotions policy) (en_buf ?e)"
  note sw = sweep_parked_frame(1) [of env e] sweep_parked_frame(2) [OF assms(4,5), of env]
    sweep_parked_frame(3) [OF assms(1), of env]
  have ok: "screening_ok ?caps (wq_rows ?q) ?e"
    using sw find_all_buffered_distinct [OF sw(3), of "lp_max_promotions policy"]
      find_all_buffered_sub [of "lp_max_promotions policy" "en_buf ?e"] assms(2)
    by (auto simp: screening_ok_def)
  have acc: "\<forall>r' \<in> {r}. accounted r' (fr_fact_id ` set (en_facts ?e) \<union> cb_capture_id ` set (wq_rows ?q)) (en_buf ?e)"
    using sw(2) assms(5) by (auto simp: accounted_def)
  have loop: "screen_loop env on_disk policy ?caps ?q (?e, empty_report\<lparr>lr_scanned := length ?caps\<rparr>) = ((e', rep'), q)"
    using assms(3) by (simp add: screen_queue_def Let_def)
  from screen_loop_accounts [OF ok acc loop] sw(1) show ?thesis by simp
qed

lemma no_claim_is_lost_core:
  assumes "distinct (map cb_capture_id (en_buf e))" "distinct (map fr_fact_id (en_facts e))"
    and "r \<in> set (en_buf e)" "cb_status r = Buffered"
    and "drain_deterministically env embedder clock planner on_disk policy e = (e', rep)"
  shows "whereabouts (fr_fact_id ` set (en_facts e)) r e'"
proof -
  obtain e1 rep1 q where sq: "screen_queue env on_disk policy e = ((e1, rep1), q)" by (metis prod.exhaust)
  note s = screen_queue_accounts [OF assms(1,2) sq assms(3,4)]
  have w: "whereabouts known r e1" for known
    using s by (intro accounted_whereabouts [of r e1 "wq_rows q"]) auto
  have ids: "fr_fact_id ` set (en_facts e1) = fr_fact_id ` set (en_facts e)" using s by (metis set_map)
  show ?thesis
  proof (cases "wq_for_plan q = [] \<or> wq_rows q = []")
    case True
    with assms(5) sq w show ?thesis by (auto simp: drain_deterministically_def materialise_def split: if_splits)
  next
    case False
    then have "materialise_loop env embedder clock (placed (planner (en_facts e1) (wq_for_plan q))) (wq_rows q) (e1, rep1) = (e', rep)"
      using assms(5) sq by (simp add: drain_deterministically_def materialise_def)
    moreover have "placing_ok (fr_fact_id ` set (en_facts e)) (wq_rows q) e1"
      using s ids by (auto simp: placing_ok_def screening_ok_def)
    ultimately show ?thesis using materialise_loop_keeps w by blast
  qed
qed

section \<open>Nobody reads what they were not told\<close>

lemma fenced_readers:
  assumes "the_same_readers_once_frozen (members_for grps) row a = Some readers" "au_excluded a \<noteq> []" "u \<noteq> []"
    and "row_readable_by (restricted_row now (au_excluded a) readers row) u (groups_for grps u)"
  shows "row_readable_by row u (groups_for grps u)"
proof -
  let ?m = "\<lambda>p. principal_matches p u (groups_for grps u)"
  have "readers = freeze_loop (au_excluded a)
      (roster_of (members_for grps) (fr_allow_ids row @ au_allow a)) (fr_allow_ids row) []"
    using assms(1,2) by (simp add: the_same_readers_once_frozen_def Let_def audience_without_the_excluded_def
        split: if_splits)
  then have "list_ex ?m readers \<Longrightarrow> list_ex ?m (fr_allow_ids row)"
    using enrolled_named.frozen_only_narrows [where tab = grps and ps = "fr_allow_ids row" and
        named = "fr_allow_ids row @ au_allow a" and ex = "au_excluded a", OF assms(3)] by simp
  then show ?thesis
    using assms(4) unfolding row_readable_iff list_ex_restricted restricted_row_simps by blast
qed

lemma carry_readers:
  assumes "the_audience_once_settled (members_for grps) row a = Some st" "u \<noteq> []"
    and "fr_subject_id row = au_subject a" "fr_sender_id row = au_sender a"
    and "row_readable_by (restricted_row now (st_excluded st) (st_readers st) row) u (groups_for grps u)"
  shows "row_readable_by row u (groups_for grps u) \<or> claim_readable_by a u (groups_for grps u)"
proof -
  let ?m = "\<lambda>p. principal_matches p u (groups_for grps u)"
  let ?ex = "fold (\<lambda>p acc. if p \<in> set acc then acc else acc @ [p]) (au_excluded a) (fr_excluded_ids row)"
  let ?al = "fold (\<lambda>p acc. if p \<in> set acc then acc else acc @ [p]) (au_allow a) (fr_allow_ids row)"
  have st: "st_excluded st = ?ex"
      "st_readers st = fst (audience_without_the_excluded ?al ?ex (roster_of (members_for grps) ?al))"
    using assms(1) by (auto simp: the_audience_once_settled_def Let_def split: if_splits)
  have told: "list_ex ?m ?al" if "list_ex ?m (st_readers st)"
    using that enrolled_named.frozen_only_narrows [where tab = grps and ps = ?al and ex = ?ex and named = ?al, OF assms(2) order_refl]
    by (auto simp: st(2) audience_without_the_excluded_def split: if_splits)
  have out: "\<not> list_ex ?m (fr_excluded_ids row)" "\<not> list_ex ?m (au_excluded a)"
    using assms(5) unfolding row_readable_iff list_ex_restricted st(1) by (auto simp: list_ex_iff set_fold_push)
  have split: "list_ex ?m ?al \<longleftrightarrow> list_ex ?m (fr_allow_ids row) \<or> list_ex ?m (au_allow a)"
    unfolding list_ex_iff set_fold_push by blast
  have "?m (fr_subject_id row) \<or> list_ex ?m (st_readers st) \<or> list_ex ?m (opt_list (fr_sender_id row))"
    using assms(5) unfolding row_readable_iff restricted_row_simps by blast
  then show ?thesis
    using told out assms(3,4) unfolding row_readable_iff claim_readable_by_def can_read_def split by auto
qed

lemma carry_close:
  assumes "carry_the_new_audience_onto_the_fact_it_folds_into env pid candidates a channel body speaker threshold m =
    (m', Some (row, s))"
  shows "threshold \<le> row_score (re_lower env) body row"
proof -
  from assms have "(row, s) \<in> set (opt_list (closest_by_words (re_lower env)
        (filter (\<lambda>row. fr_subject_id row = au_subject a \<and> fr_sender_id row = au_sender a) candidates) channel body))"
      "threshold \<le> s"
    by (auto simp: carry_the_new_audience_onto_the_fact_it_folds_into_def
        split: if_splits principal.splits option.splits prod.splits)
  then have c: "closest_by_words (re_lower env)
      (filter (\<lambda>row. fr_subject_id row = au_subject a \<and> fr_sender_id row = au_sender a) candidates) channel body =
      Some (row, s)" by simp
  show ?thesis
    using closest_by_words_best [where lower = "re_lower env" and channel = channel and body = body and
        rows = "filter (\<lambda>row. fr_subject_id row = au_subject a \<and> fr_sender_id row = au_sender a) candidates"]
      \<open>threshold \<le> s\<close> unfolding c by simp
qed

text \<open>
  What a round may show: a fact its reader could read before, in the same words; or one a claim told
  them, the claim's own or one whose words are as close as the threshold asks.
\<close>

definition was_told ::
  "enrollment_group list \<Rightarrow> (string \<Rightarrow> string) \<Rightarrow> rat \<Rightarrow> buffered_capture set \<Rightarrow> fact_row \<Rightarrow> string \<Rightarrow> bool" where
  "was_told grps lower threshold told f u \<longleftrightarrow>
     (\<exists>r \<in> told. claim_readable_by (audience_of_capture r) u (groups_for grps u) \<and>
       (fr_fact_id f = cb_capture_id r \<and> fr_text f = cb_body r \<or> threshold \<le> row_score lower (cb_body r) f))"

definition could_read :: "enrollment_group list \<Rightarrow> fact_table \<Rightarrow> fact_row \<Rightarrow> string \<Rightarrow> bool" where
  "could_read grps before f u \<longleftrightarrow>
     (\<exists>g \<in> set before. fr_fact_id g = fr_fact_id f \<and> fr_text g = fr_text f \<and> row_readable_by g u (groups_for grps u))"

definition shows_nothing_new ::
  "enrollment_group list \<Rightarrow> (string \<Rightarrow> string) \<Rightarrow> rat \<Rightarrow> buffered_capture set \<Rightarrow> fact_table \<Rightarrow> fact_table \<Rightarrow> bool" where
  "shows_nothing_new grps lower threshold told before now \<longleftrightarrow>
     (\<forall>f \<in> set now. \<forall>u. u \<noteq> [] \<longrightarrow> row_readable_by f u (groups_for grps u) \<longrightarrow>
       could_read grps before f u \<or> was_told grps lower threshold told f u)"

lemma shows_nothing_new_refl: "shows_nothing_new grps lower th told tab tab"
  by (auto simp: shows_nothing_new_def could_read_def)

lemma shows_nothing_new_trans:
  assumes "shows_nothing_new grps lower th told t1 t2" "shows_nothing_new grps lower th told t2 t3"
  shows "shows_nothing_new grps lower th told t1 t3"
  unfolding shows_nothing_new_def
proof (intro ballI allI impI)
  fix f u assume f: "f \<in> set t3" "u \<noteq> []" "row_readable_by f u (groups_for grps u)"
  then consider g where "g \<in> set t2" "fr_fact_id g = fr_fact_id f" "fr_text g = fr_text f" "row_readable_by g u (groups_for grps u)"
    | "was_told grps lower th told f u"
    using assms(2) unfolding shows_nothing_new_def could_read_def by blast
  then show "could_read grps t1 f u \<or> was_told grps lower th told f u"
  proof cases
    case (1 g)
    then have "could_read grps t1 g u \<or> was_told grps lower th told g u"
      using assms(1) f(2) unfolding shows_nothing_new_def by blast
    with 1(2,3) show ?thesis by (simp add: could_read_def was_told_def row_score_def)
  qed simp
qed

lemma shows_nothing_new_one_row:
  assumes "row \<in> set tab" "fr_fact_id r' = fr_fact_id row" "fr_text r' = fr_text row"
    and "\<And>u. u \<noteq> [] \<Longrightarrow> row_readable_by r' u (groups_for grps u) \<Longrightarrow>
      row_readable_by row u (groups_for grps u) \<or> was_told grps lower th told row u"
  shows "shows_nothing_new grps lower th told tab (map (\<lambda>r. if fr_fact_id r = fr_fact_id row then r' else r) tab)"
  unfolding shows_nothing_new_def
proof (intro ballI allI impI)
  fix f u assume f: "f \<in> set (map (\<lambda>r. if fr_fact_id r = fr_fact_id row then r' else r) tab)" "u \<noteq> []"
    "row_readable_by f u (groups_for grps u)"
  then consider "f \<in> set tab" | "f = r'" by (auto split: if_splits)
  then show "could_read grps tab f u \<or> was_told grps lower th told f u"
  proof cases
    case 2
    with assms(4) [OF f(2)] f(3) assms(1-3) show ?thesis
      by (auto simp: could_read_def was_told_def row_score_def)
  qed (use f in \<open>auto simp: could_read_def\<close>)
qed

lemma shows_nothing_new_more:
  "shows_nothing_new grps lower th A t1 t2 \<Longrightarrow> A \<subseteq> B \<Longrightarrow> shows_nothing_new grps lower th B t1 t2"
  by (fastforce simp: shows_nothing_new_def was_told_def)

lemma screen_one_shows_nothing_new:
  assumes "screen_one env cap on_disk policy (e, rep) = ((e', rep'), f)" "distinct (map fr_fact_id (en_facts e))"
    and "re_members env = members_for grps"
  shows "shows_nothing_new grps (re_lower env) (lp_dedup_threshold policy) {cap} (en_facts e) (en_facts e')"
  using assms(1)
proof (cases rule: screen_one_cases)
  case (fenced m1 dup s)
  let ?a = "audience_of_capture cap"
  have sub: "set (find_active_by_subject (en_facts e) (cb_subject cap)) \<subseteq> set (en_facts e)"
    by (rule candidates_in_table)
  obtain readers where r: "dup \<in> set (find_active_by_subject (en_facts e) (cb_subject cap))" "au_excluded ?a \<noteq> []"
      "the_same_readers_once_frozen (re_members env) dup ?a = Some readers"
      "g_facts (mm_gov m1) = map (\<lambda>r. if fr_fact_id r = fr_fact_id dup
         then restricted_row (re_now env) (au_excluded ?a) readers dup else r) (en_facts e)"
    by (rule apply_exclusion_effect [OF assms(2) sub fenced(1)]) (rule that; assumption)
  have facts: "en_facts e' = map (\<lambda>r. if fr_fact_id r = fr_fact_id dup
         then restricted_row (re_now env) (au_excluded ?a) readers dup else r) (en_facts e)"
    using fold_into_effect(1) [OF fenced(2) [symmetric]] r(4) by simp
  show ?thesis unfolding facts
  proof (rule shows_nothing_new_one_row)
    show "dup \<in> set (en_facts e)" using r(1) sub by blast
    show "row_readable_by dup u (groups_for grps u) \<or> was_told grps (re_lower env) (lp_dedup_threshold policy) {cap} dup u"
      if "u \<noteq> []" "row_readable_by (restricted_row (re_now env) (au_excluded ?a) readers dup) u (groups_for grps u)" for u
      using fenced_readers [OF r(3) [unfolded assms(3)] r(2) that] by simp
  qed simp_all
next
  case (duplicate dup s)
  then show ?thesis using fold_into_effect(1) [OF duplicate(2) [symmetric]] by (simp add: shows_nothing_new_refl)
next
  case (wider m2 dup s)
  let ?a = "audience_of_capture cap"
  have sub: "set (find_active_by_subject (en_facts e) (cb_subject cap)) \<subseteq> set (en_facts e)"
    by (rule candidates_in_table)
  obtain st :: settled where r: "dup \<in> set (find_active_by_subject (en_facts e) (cb_subject cap))"
      "fr_subject_id dup = au_subject ?a" "fr_sender_id dup = au_sender ?a"
      "the_audience_once_settled (re_members env) dup ?a = Some st"
      "g_facts (mm_gov m2) = map (\<lambda>r. if fr_fact_id r = fr_fact_id dup
         then restricted_row (re_now env) (st_excluded st) (st_readers st) dup else r) (en_facts e)"
    by (rule carry_effect [OF assms(2) sub wider(1)]) (rule that; assumption)
  have facts: "en_facts e' = map (\<lambda>r. if fr_fact_id r = fr_fact_id dup
         then restricted_row (re_now env) (st_excluded st) (st_readers st) dup else r) (en_facts e)"
    using fold_into_effect(1) [OF wider(2) [symmetric]] r(5) by simp
  show ?thesis unfolding facts
  proof (rule shows_nothing_new_one_row)
    show "dup \<in> set (en_facts e)" using r(1) sub by blast
    show "row_readable_by dup u (groups_for grps u) \<or> was_told grps (re_lower env) (lp_dedup_threshold policy) {cap} dup u"
      if "u \<noteq> []" "row_readable_by (restricted_row (re_now env) (st_excluded st) (st_readers st) dup) u (groups_for grps u)" for u
      using carry_readers [OF r(4) [unfolded assms(3)] that(1) r(2,3) that(2)] carry_close [OF wider(1)]
      by (auto simp: was_told_def)
  qed simp_all
qed (simp_all add: shows_nothing_new_refl)

lemma screen_loop_shows_nothing_new:
  assumes "screen_loop env on_disk policy caps q (e, rep) = ((e', rep'), q')" "distinct (map fr_fact_id (en_facts e))"
    and "re_members env = members_for grps" "set caps \<subseteq> told"
  shows "shows_nothing_new grps (re_lower env) (lp_dedup_threshold policy) told (en_facts e) (en_facts e') \<and>
    set (wq_rows q') \<subseteq> set (wq_rows q) \<union> set caps"
  using assms(1,2,4)
proof (induction caps arbitrary: q e rep)
  case Nil
  then show ?case by (simp add: shows_nothing_new_refl)
next
  case (Cons cap caps)
  show ?case
  proof (cases "queue_twin (re_lower env) policy (wq_rows q) cap")
    case (Some twin)
    let ?e = "e\<lparr>en_buf := fst (mark_skipped_dup (cb_capture_id cap) (cb_capture_id twin) (re_now env) (en_buf e))\<rparr>"
    show ?thesis using Cons.IH [where e = ?e and q = q] Cons.prems Some by auto
  next
    case None
    obtain e1 rep1 f where one: "screen_one env cap on_disk policy (e, rep) = ((e1, rep1), f)"
      by (metis prod.exhaust)
    have step: "shows_nothing_new grps (re_lower env) (lp_dedup_threshold policy) told (en_facts e) (en_facts e1)"
      by (rule shows_nothing_new_more [OF screen_one_shows_nothing_new [OF one Cons.prems(2) assms(3)]])
        (use Cons.prems(3) in simp)
    have d: "distinct (map fr_fact_id (en_facts e1))" using screen_one_frame(1) [OF one Cons.prems(2)] Cons.prems(2) by simp
    let ?q = "case f of None \<Rightarrow> q | Some f \<Rightarrow> \<lparr>wq_for_plan = wq_for_plan q @ [f], wq_rows = wq_rows q @ [cap]\<rparr>"
    have "shows_nothing_new grps (re_lower env) (lp_dedup_threshold policy) told (en_facts e1) (en_facts e') \<and>
        set (wq_rows q') \<subseteq> set (wq_rows ?q) \<union> set caps"
      using Cons.IH [where e = e1 and q = ?q] Cons.prems(1,3) None one d by simp
    moreover have "set (wq_rows ?q) \<subseteq> set (wq_rows q) \<union> {cap}" by (auto split: option.splits)
    ultimately show ?thesis using shows_nothing_new_trans [OF step] by auto
  qed
qed

lemma readable_as_claimed:
  "as_claimed f' = as_claimed f \<Longrightarrow> row_readable_by f' u gs = row_readable_by f u gs \<and> fr_text f' = fr_text f"
  by (cases f; cases f') (simp add: as_claimed_def row_readable_iff)

lemma says_the_claim_readers:
  "says_the_claim r f \<Longrightarrow> row_readable_by f u gs = claim_readable_by (audience_of_capture r) u gs \<and>
    fr_fact_id f = cb_capture_id r \<and> fr_text f = cb_body r"
  by (auto simp: says_the_claim_def row_readable_iff claim_readable_by_def audience_of_capture_def can_read_def)

lemma write_placed_shows_nothing_new:
  assumes "write_placed env embedder clock cap w p (e, rep) = ((e', rep'), res)" "cap \<in> told"
  shows "shows_nothing_new grps lower th told (en_facts e) (en_facts e')"
  using assms(1)
proof (cases rule: write_placed_effect)
  case 1
  then show ?thesis by (simp add: shows_nothing_new_refl)
next
  case (2 new)
  let ?tab = "if cb_capture_id cap \<in> set (map fr_fact_id (en_facts e)) then en_facts e else en_facts e @ [new]"
  have same: "as_claimed ` set (en_facts e') = as_claimed ` set ?tab" using 2(2) by (metis set_map)
  have from_old: "\<exists>g \<in> set (en_facts e) \<union> {new}. as_claimed g = as_claimed f" if f: "f \<in> set (en_facts e')" for f
  proof -
    obtain g where "g \<in> set ?tab" "as_claimed g = as_claimed f" using same_image [OF same f] by blast
    then show ?thesis by (auto split: if_splits)
  qed
  show ?thesis unfolding shows_nothing_new_def
  proof (intro ballI allI impI)
    fix f u assume f: "f \<in> set (en_facts e')" "u \<noteq> []" "row_readable_by f u (groups_for grps u)"
    from from_old [OF f(1)] obtain g where g: "g \<in> set (en_facts e) \<union> {new}" "as_claimed g = as_claimed f" by blast
    note same = readable_as_claimed [OF g(2), of u "groups_for grps u"] as_claimed_id [OF g(2)]
    show "could_read grps (en_facts e) f u \<or> was_told grps lower th told f u"
    proof (cases "g = new")
      case True
      with same f(3) says_the_claim_readers [OF 2(1), of u "groups_for grps u"] assms(2) show ?thesis
        by (auto simp: was_told_def)
    next
      case False
      with same f(3) g(1) show ?thesis by (auto simp: could_read_def)
    qed
  qed
qed

lemma materialise_loop_shows_nothing_new:
  assumes "materialise_loop env embedder clock where_to caps (e, rep) = (e', rep')" "set caps \<subseteq> told"
  shows "shows_nothing_new grps lower th told (en_facts e) (en_facts e')"
  using assms
proof (induction caps arbitrary: e rep)
  case Nil
  then show ?case by (simp add: shows_nothing_new_refl)
next
  case (Cons cap caps)
  show ?case
  proof (cases "map_of where_to (fact_id_str (cb_capture_id cap))")
    case None
    let ?e = "e\<lparr>en_buf := fst (mark_placement_attempted (cb_capture_id cap) (re_now env) (en_buf e))\<rparr>"
    show ?thesis using Cons.IH [where e = ?e] Cons.prems None by simp
  next
    case (Some wp)
    obtain w p where wp: "wp = (w, p)" by (cases wp)
    obtain e1 rep1 res where one: "write_placed env embedder clock cap w p (e, rep) = ((e1, rep1), res)"
      by (metis prod.exhaust)
    have "shows_nothing_new grps lower th told (en_facts e1) (en_facts e')"
      using Cons.IH [where e = e1] Cons.prems Some wp one by (auto split: sum.splits)
    moreover have "shows_nothing_new grps lower th told (en_facts e) (en_facts e1)"
      using write_placed_shows_nothing_new [OF one] Cons.prems(2) by simp
    ultimately show ?thesis by (blast intro: shows_nothing_new_trans)
  qed
qed

lemma drain_shows_nothing_new:
  assumes "distinct (map fr_fact_id (en_facts e))" "re_members env = members_for grps"
    and "drain_deterministically env embedder clock planner on_disk policy e = (e', rep)"
  shows "shows_nothing_new grps (re_lower env) (lp_dedup_threshold policy)
    {r \<in> set (en_buf e). cb_status r = Buffered} (en_facts e) (en_facts e')"
proof -
  let ?e = "sweep_parked env e" and ?q = "\<lparr>wq_for_plan = [], wq_rows = []\<rparr> :: waiting_queue"
  let ?told = "{r \<in> set (en_buf e). cb_status r = Buffered}" and ?th = "lp_dedup_threshold policy"
  let ?caps = "find_all_buffered (lp_max_promotions policy) (en_buf ?e)"
  obtain e1 rep1 q where sq: "screen_queue env on_disk policy e = ((e1, rep1), q)" by (metis prod.exhaust)
  then have loop: "screen_loop env on_disk policy ?caps ?q (?e, empty_report\<lparr>lr_scanned := length ?caps\<rparr>) = ((e1, rep1), q)"
    by (simp add: screen_queue_def Let_def)
  have caps: "set ?caps \<subseteq> ?told"
    using find_all_buffered_sub [of "lp_max_promotions policy" "en_buf ?e"]
    by (auto simp: sweep_parked_def sweep_orphan_held_def buffer_delete_def)
  have d: "distinct (map fr_fact_id (en_facts ?e))" using assms(1) by (simp add: sweep_parked_frame)
  note s = screen_loop_shows_nothing_new [OF loop d assms(2) caps, unfolded sweep_parked_frame(1)]
  have rows: "set (wq_rows q) \<subseteq> ?told" using s caps by auto
  show ?thesis
  proof (cases "wq_for_plan q = [] \<or> wq_rows q = []")
    case True
    with assms(3) sq s show ?thesis by (auto simp: drain_deterministically_def materialise_def split: if_splits)
  next
    case False
    then have "materialise_loop env embedder clock (placed (planner (en_facts e1) (wq_for_plan q))) (wq_rows q) (e1, rep1) = (e', rep)"
      using assms(3) sq by (simp add: drain_deterministically_def materialise_def)
    from materialise_loop_shows_nothing_new [OF this rows] s show ?thesis
      by (blast intro: shows_nothing_new_trans)
  qed
qed

section \<open>The guarantees of a round\<close>

text \<open>
  C5: a round of the light dream loses no claim. A claim that waits in the queue still waits
  afterwards, or a fact with its id is in the table, saying the claim word for word with its own readers when it is
  new, or it is folded, and what it was folded into is a fact of the table or a claim that waits.
\<close>

theorem no_claim_is_lost:
  assumes "distinct (map cb_capture_id (en_buf e))" "distinct (map fr_fact_id (en_facts e))"
    and "r \<in> set (en_buf e)" "cb_status r = Buffered"
    and "drain_deterministically env embedder clock planner on_disk policy e = (e', rep)"
  shows "whereabouts (fr_fact_id ` set (en_facts e)) r e'"
  using assms by (rule no_claim_is_lost_core)

text \<open>
  C2: a round of the light dream shows nobody anything new. Whoever reads a fact afterwards read a fact of
  the same id and the same words before it, or may read a claim that waited in the queue: the very claim
  the fact was written from, or one whose words are as close to the fact as the threshold asks.
\<close>

theorem nobody_reads_what_they_were_not_told:
  assumes "distinct (map fr_fact_id (en_facts e))" "re_members env = members_for grps"
    and "drain_deterministically env embedder clock planner on_disk policy e = (e', rep)"
    and "f \<in> set (en_facts e')" "u \<noteq> []" "row_readable_by f u (groups_for grps u)"
  shows "(\<exists>g \<in> set (en_facts e). fr_fact_id g = fr_fact_id f \<and> fr_text g = fr_text f \<and>
      row_readable_by g u (groups_for grps u)) \<or>
    (\<exists>r \<in> set (en_buf e). cb_status r = Buffered \<and> claim_readable_by (audience_of_capture r) u (groups_for grps u) \<and>
      (fr_fact_id f = cb_capture_id r \<and> fr_text f = cb_body r \<or>
       lp_dedup_threshold policy \<le> row_score (re_lower env) (cb_body r) f))"
  using drain_shows_nothing_new [OF assms(1,2,3)] assms(4-6)
  by (auto simp: shows_nothing_new_def could_read_def was_told_def)

text \<open>The columns that say where a fact is written, when, and how often it is recalled, blanked.\<close>

definition apart_from_its_place :: "fact_row \<Rightarrow> fact_row" where
  "apart_from_its_place f = f\<lparr>fr_wiki_id := [], fr_source_path := [], fr_region_start := None, fr_region_end := None,
     fr_target_page := None, fr_created_at := [], fr_updated_at := [], fr_last_recall_at := None, fr_recall_count_30d := 0\<rparr>"

text \<open>What of a row is not carried through the queue: its retirement and the successor a closure named.\<close>

definition unretired :: "fact_row \<Rightarrow> fact_row" where
  "unretired f = f\<lparr>fr_superseded_at := None, fr_superseded_by := None, fr_successor_fact_id := None, fr_deleted_reason := None\<rparr>"

definition carries_retirement :: "fact_row \<Rightarrow> bool" where
  "carries_retirement f \<longleftrightarrow>
     fr_superseded_at f \<noteq> None \<or> fr_superseded_by f \<noteq> None \<or> fr_successor_fact_id f \<noteq> None \<or> fr_deleted_reason f \<noteq> None"

lemma unretired_id: "\<not> carries_retirement f \<Longrightarrow> unretired f = f"
  by (cases f) (simp add: unretired_def carries_retirement_def)

lemma stamp_last:
  "i \<notin> set (map fr_fact_id tab) \<Longrightarrow> fr_fact_id new = i \<Longrightarrow> fr_deleted_at new = None \<Longrightarrow>
   fst (stamp_decay_reason now i why (tab @ [new])) = tab @ [new\<lparr>fr_decay_reason := Some why, fr_updated_at := now\<rparr>]"
  by (auto simp: stamp_decay_reason_def sql_update_def live_def image_iff intro!: map_idI)

text \<open>The way back and the writing of the claim, for any live row.\<close>

lemma rebuffer_and_write:
  assumes "find_by_id (en_facts e) i = Some row" "fr_deleted_at row = None" "i \<notin> set (map cb_capture_id (en_buf e))"
    and "rebuffer_fact now i (en_buf e, en_facts e) = ((buf, tab), ok)"
  shows "ok \<and> find_by_id tab i = None \<and> queued i buf = Some (rebuffered now row) \<and>
    (\<exists>e' rep' f. write_placed env embedder clock (rebuffered now row) w p (with_facts tab (e\<lparr>en_buf := buf\<rparr>), rep) =
        ((e', rep'), Inr ()) \<and>
      find_by_id (en_facts e') i = Some f \<and> apart_from_its_place f = apart_from_its_place (unretired row))"
proof -
  have id: "fr_fact_id row = i" using assms(1) by (auto simp: find_by_id_def find_Some_iff)
  have r: "ok" "tab = filter (\<lambda>r. fr_fact_id r \<noteq> i) (en_facts e)" "buf = en_buf e @ [rebuffered now row]"
    using assms id by (auto simp: rebuffer_fact_def erase_def upsert_rebuffered_def rebuffered_def)
  have fresh: "i \<notin> set (map fr_fact_id tab)" using r(2) by auto
  have gone: "find_by_id tab i = None" using fresh by (auto simp: find_by_id_def find_None_iff)
  have last: "find_by_id (tab @ [f]) i = Some f" if "fr_fact_id f = i" for f
    using gone that by (auto simp: find_by_id_def find_append split: option.splits)
  have q: "queued i buf = Some (rebuffered now row)"
  proof -
    have "queued i (en_buf e) = None" using assms(3) by (auto simp: queued_def find_None_iff row_in_def)
    then show ?thesis using r(3) id by (simp add: queued_def find_append row_in_def rebuffered_def)
  qed
  let ?c = "rebuffered now row" and ?e = "with_facts tab (e\<lparr>en_buf := buf\<rparr>)"
  let ?new = "row_of_new_fact (re_now env) (promoted_fact ?c w p (fr_embedding row))"
  let ?f = "case fr_decay_reason row of None \<Rightarrow> ?new
    | Some why \<Rightarrow> ?new\<lparr>fr_decay_reason := Some why, fr_updated_at := re_now env\<rparr>"
  have facts: "en_facts ?e = tab" by (simp add: with_facts_def set_facts_def)
  have nid: "fr_fact_id ?new = i" "fr_deleted_at ?new = None" "nf_fact_id (promoted_fact ?c w p v) = i" for v
    using id by (simp_all add: row_of_new_fact_def promoted_fact_def rebuffered_def)
  have ins: "insert_if_absent (re_now env) (promoted_fact ?c w p (fr_embedding row)) tab = Inr (tab @ [?new], 1)"
    using fresh nid by (simp add: insert_if_absent_def insert_with_def)
  have cap: "cb_embedding ?c = Some (fr_embedding row)" "cb_decay_reason ?c = fr_decay_reason row"
      "cb_supersede_hint ?c = None" "cb_capture_id ?c = i"
    using id by (simp_all add: rebuffered_def)
  obtain e' rep' where w: "write_placed env embedder clock ?c w p (?e, rep) = ((e', rep'), Inr ())" "en_facts e' = tab @ [?f]"
    using stamp_last [OF fresh nid(1,2)] ins
    by (cases "fr_decay_reason row")
      (simp_all add: write_placed_def Let_def facts cap apply_supersede_hint_def set_facts_def with_facts_def [of "_ @ _"])
  have "apart_from_its_place ?f = apart_from_its_place (unretired row)"
    using assms(2) by (cases row; cases "fr_decay_reason row")
      (auto simp: apart_from_its_place_def unretired_def row_of_new_fact_def promoted_fact_def rebuffered_def)
  moreover have "fr_fact_id ?f = i" using nid by (simp split: option.split)
  ultimately show ?thesis
    using r(1) gone q w last [of ?f] by (intro conjI exI [of _ e'] exI [of _ rep'] exI [of _ ?f]) simp_all
qed

text \<open>
  C22: the way back loses nothing of a fact that stands. A fact that is neither deleted nor superseded, that no
  closure has given a successor and that has no row of its own in the buffer, put back in the queue and written
  again, says the same, of the same person, to the same readers, with the same window, kind and reasons. New are
  only its wiki, its page (with the page a plan carries for it) and its offsets, the dates of its creation and of
  its last update, and its recall counters; the model of the embedder is not asked.
\<close>

theorem rebuffered_fact_comes_back:
  assumes "find_by_id (en_facts e) i = Some row" "fr_deleted_at row = None" "\<not> carries_retirement row"
    and "i \<notin> set (map cb_capture_id (en_buf e))" "rebuffer_fact now i (en_buf e, en_facts e) = ((buf, tab), ok)"
  shows "ok \<and> find_by_id tab i = None \<and> queued i buf = Some (rebuffered now row) \<and>
    (\<exists>e' rep' f. write_placed env embedder clock (rebuffered now row) w p (with_facts tab (e\<lparr>en_buf := buf\<rparr>), rep) =
        ((e', rep'), Inr ()) \<and>
      find_by_id (en_facts e') i = Some f \<and> apart_from_its_place f = apart_from_its_place row)"
  using rebuffer_and_write [OF assms(1,2,4,5)] unfolding unretired_id [OF assms(3)] .

text \<open>
  What is lost is the mark of a retirement. A live fact that a closure gave a successor comes back without the
  link, so nothing says any more what took its place; and a superseded row, were one handed in, comes back active.
\<close>

lemma rebuffering_loses_the_successor:
  assumes "find_by_id (en_facts e) i = Some row" "fr_deleted_at row = None" "i \<notin> set (map cb_capture_id (en_buf e))"
    and "rebuffer_fact now i (en_buf e, en_facts e) = ((buf, tab), ok)"
  shows "\<exists>e' rep' f. write_placed env embedder clock (rebuffered now row) w p (with_facts tab (e\<lparr>en_buf := buf\<rparr>), rep) =
      ((e', rep'), Inr ()) \<and>
    find_by_id (en_facts e') i = Some f \<and> fr_successor_fact_id f = None \<and> active f"
proof -
  have out: "fr_successor_fact_id f = None \<and> active f"
    if "apart_from_its_place f = apart_from_its_place (unretired row)" for f
  proof -
    have "fr_successor_fact_id (apart_from_its_place f) = fr_successor_fact_id (apart_from_its_place (unretired row))"
      "fr_superseded_at (apart_from_its_place f) = fr_superseded_at (apart_from_its_place (unretired row))"
      "fr_deleted_at (apart_from_its_place f) = fr_deleted_at (apart_from_its_place (unretired row))"
      using that by simp_all
    then show ?thesis using assms(2) by (simp add: apart_from_its_place_def unretired_def active_def)
  qed
  with rebuffer_and_write [OF assms, of env embedder clock w p rep] show ?thesis by blast
qed

section \<open>Where the folds go astray\<close>

text \<open>
  Two waiting claims are compared by their reader sets alone, so who the claim is about and who says it may
  change places: with the words equal, the later of the two is folded and its subject is gone.
\<close>

lemma swapped_subject_same_audience:
  "same_audience
     (r\<lparr>cb_subject := User x, cb_sender := Some (User y), cb_allow := [], cb_excluded := []\<rparr>)
     (r\<lparr>cb_subject := User y, cb_sender := Some (User x), cb_allow := [], cb_excluded := []\<rparr>)"
  by (auto simp: same_audience_def reader_set_def)

lemma swapped_subject_folds:
  assumes "lp_dedup_threshold policy \<le> 1"
  shows "queue_twin lower policy
     [r\<lparr>cb_subject := User x, cb_sender := Some (User y), cb_allow := [], cb_excluded := []\<rparr>]
     (r\<lparr>cb_subject := User y, cb_sender := Some (User x), cb_allow := [], cb_excluded := []\<rparr>) \<noteq> None"
  using swapped_subject_same_audience [where r = r and x = x and y = y] assms
  by (simp add: queue_twin_def jaccard_6gram_def)

text \<open>
  A claim that corrects a fact, and whose words are close to it, is folded into the very fact it corrects:
  the screening never reads the hint.
\<close>

lemma correction_is_folded_into_its_target:
  assumes "ordinary_duplicate (re_lower env) policy cap (find_active_by_subject (en_facts e) (cb_subject cap)) = Some (dup, s)"
    and "cb_excluded cap = []" "cb_supersede_hint cap = Some (fr_fact_id dup)"
    and "screen_one env cap on_disk policy (e, rep) = ((e', rep'), f)"
  shows "f = None \<and> en_facts e' = en_facts e \<and>
    en_buf e' = fst (mark_skipped_dup (cb_capture_id cap) (fr_fact_id dup) (re_now env) (en_buf e))"
proof -
  have "apply_exclusion_to_the_fact_already_there env pid rows (audience_of_capture cap) ch body sp th m = (m, None)"
    for pid rows ch body sp th m
    using assms(2) by (simp add: apply_exclusion_to_the_fact_already_there_def audience_of_capture_def)
  with assms(1,4) have "(e', rep') = fold_into env cap dup s (e\<lparr>en_mem := en_mem e\<rparr>, rep)" "f = None"
    by (auto simp: screen_one_def Let_def)
  with fold_into_effect [of env cap dup s e rep e' rep'] show ?thesis by simp
qed

text \<open>
  A fact that was promoted still has its row in the buffer, and putting the fact back in the queue revives
  that row as it was at the promotion: whatever was changed on the fact since is dropped with it, who it is
  kept from included.
\<close>

lemma rebuffering_revives_the_old_row:
  assumes "find_by_id tab i = Some row" "fr_deleted_at row = None"
    and "distinct (map cb_capture_id buf)" "r \<in> set buf" "cb_capture_id r = i"
    and "rebuffer_fact now i (buf, tab) = ((buf', tab'), ok)"
  shows "find_by_id tab' i = None \<and>
    queued i buf' = Some (r\<lparr>cb_status := Buffered, cb_processed_at := None, cb_resolved_fact_id := None\<rparr>)"
proof -
  have id: "fr_fact_id row = i" using assms(1) by (auto simp: find_by_id_def find_Some_iff)
  let ?g = "\<lambda>r. if cb_capture_id r = i
    then r\<lparr>cb_status := Buffered, cb_processed_at := None, cb_resolved_fact_id := None\<rparr> else r"
  have "cb_capture_id (rebuffered now row) = i" using id by (simp add: rebuffered_def)
  moreover have "i \<in> set (map cb_capture_id buf)" using assms(4,5) by auto
  ultimately have r: "tab' = filter (\<lambda>r. fr_fact_id r \<noteq> i) tab" "buf' = map ?g buf"
    using assms(1,2,6) id by (auto simp: rebuffer_fact_def erase_def upsert_rebuffered_def)
  have "find_by_id tab' i = None" using r(1) by (simp add: find_by_id_def find_None_iff)
  moreover have "List.find (row_in Buffered i) (map ?g buf) = Some (?g r)"
    using assms(3-5)
  proof (induction buf)
    case (Cons x buf)
    show ?case
    proof (cases "cb_capture_id x = i")
      case True
      have "x = r" by (rule same_id_same_row [OF Cons.prems(1)]) (use Cons.prems(2,3) True in simp_all)
      with True show ?thesis by (simp add: row_in_def)
    next
      case False
      with Cons show ?thesis by (auto simp: row_in_def)
    qed
  qed simp
  ultimately show ?thesis using r(2) assms(5) by (simp add: queued_def)
qed

section \<open>A concrete round\<close>

definition morning_claim :: buffered_capture where
  "morning_claim = \<lparr>cb_capture_id = FactId ''b'', cb_body = ''walks at six'', cb_subject = User ''bob'',
     cb_subject_external = None, cb_slot = None, cb_slot_value = None, cb_allow = [User ''carol''], cb_excluded = [],
     cb_sender = Some (User ''alice''), cb_fact_type = None, cb_topics = [], cb_supersede_hint = None,
     cb_status = Buffered, cb_captured_at = 0, cb_processed_at = None, cb_resolved_fact_id = None,
     cb_source_kind = ''ingest'', cb_source_ref = None, cb_valid_from = None, cb_valid_to = None,
     cb_decay_reason = None, cb_style = None, cb_salience = None, cb_placement_attempts = 0,
     cb_last_attempt_at = None, cb_authored_refs = [], cb_embedding = Some [], cb_origin_message_hash = None,
     cb_recall_log_id = None\<rparr>"

definition quiet_env :: round_env where
  "quiet_env = \<lparr>re_lower = id, re_members = members_for [], re_store = tally_env, re_now = ''t2'', re_now_nanos = 0,
     re_fresh_proposal = fact_id_str\<rparr>"

definition quiet_engine :: "buffer \<Rightarrow> engine" where
  "quiet_engine buf = \<lparr>en_mem = \<lparr>mm_gov = \<lparr>g_proposals = [], g_votes = [], g_facts = [row_a]\<rparr>, mm_audit = []\<rparr>,
     en_buf = buf, en_recall = \<lparr>rl_log = [], rl_next_log = 1, rl_misses = [], rl_next_miss = 1\<rparr>\<rparr>"

definition one_page :: "fact_table \<Rightarrow> fact_for_page list \<Rightarrow> page_plan list" where
  "one_page tab fs = [\<lparr>pp_wiki_id = ''bob'', pp_page_path = ''habits.md'', pp_primary_facts = fs\<rparr>]"

definition quiet_round :: "engine \<times> light_report" where
  "quiet_round = drain_deterministically quiet_env (\<lambda>_. Inl ''offline'') None one_page [(''bob'', False)]
     default_light_policy (quiet_engine [morning_claim])"

definition morning_fact :: fact_row where
  "morning_fact = row_of_new_fact ''t2'' (promoted_fact morning_claim ''bob'' ''habits.md'' [])"

lemma quiet_round_facts: "en_facts (fst quiet_round) = [row_a, morning_fact]"
  by (simp add: quiet_round_def drain_deterministically_def screen_queue_def sweep_parked_def sweep_orphan_held_def
      buffer_delete_def quiet_engine_def find_all_buffered_def default_light_policy_def sql_limit_def morning_claim_def
      queue_twin_def screen_one_def find_active_by_subject_def row_a_def row_of_new_fact_def sample_new_fact_def
      apply_exclusion_to_the_fact_already_there_def carry_the_new_audience_onto_the_fact_it_folds_into_def
      audience_of_capture_def speaker_of_def ordinary_duplicate_def best_dedup_candidate_def closest_by_words_def
      home_wiki_def materialise_def placed_def one_page_def plan_projection_def write_placed_def insert_if_absent_def
      insert_with_def promoted_fact_def apply_supersede_hint_def with_facts_def set_facts_def morning_fact_def
      quiet_env_def Let_def ex_bool_eq)

theorem no_claim_is_lost_witness:
  "whereabouts {FactId ''a''} morning_claim (fst quiet_round)"
proof -
  have "drain_deterministically quiet_env (\<lambda>_. Inl ''offline'') None one_page [(''bob'', False)]
     default_light_policy (quiet_engine [morning_claim]) = (fst quiet_round, snd quiet_round)"
    by (simp add: quiet_round_def)
  from no_claim_is_lost [OF _ _ _ _ this, of morning_claim] show ?thesis
    by (simp add: quiet_engine_def morning_claim_def row_a_def row_of_new_fact_def sample_new_fact_def)
qed

theorem nobody_reads_what_they_were_not_told_witness:
  "claim_readable_by (audience_of_capture morning_claim) ''carol'' []"
proof -
  have d: "drain_deterministically quiet_env (\<lambda>_. Inl ''offline'') None one_page [(''bob'', False)]
     default_light_policy (quiet_engine [morning_claim]) = (fst quiet_round, snd quiet_round)"
    by (simp add: quiet_round_def)
  have facts: "en_facts (quiet_engine [morning_claim]) = [row_a]" "en_buf (quiet_engine [morning_claim]) = [morning_claim]"
    by (simp_all add: quiet_engine_def)
  have "row_readable_by morning_fact ''carol'' (groups_for [] ''carol'')" "fr_fact_id morning_fact \<noteq> fr_fact_id row_a"
    by (simp_all add: row_readable_iff morning_fact_def morning_claim_def row_of_new_fact_def promoted_fact_def
        row_a_def sample_new_fact_def)
  with nobody_reads_what_they_were_not_told [OF _ _ d, of "[]" morning_fact "''carol''"] show ?thesis
    by (simp add: facts quiet_round_facts quiet_env_def groups_for_def)
qed

theorem rebuffered_fact_comes_back_witness:
  "find_by_id (snd (fst (rebuffer_fact 0 (FactId ''a'') ([morning_claim], [row_a])))) (FactId ''a'') = None \<and>
   queued (FactId ''a'') (fst (fst (rebuffer_fact 0 (FactId ''a'') ([morning_claim], [row_a])))) =
     Some (rebuffered 0 row_a)"
proof -
  let ?e = "quiet_engine [morning_claim]"
  obtain buf tab ok where r: "rebuffer_fact 0 (FactId ''a'') (en_buf ?e, en_facts ?e) = ((buf, tab), ok)"
    by (metis prod.exhaust)
  have "find_by_id (en_facts ?e) (FactId ''a'') = Some row_a" "fr_deleted_at row_a = None" "\<not> carries_retirement row_a"
      "FactId ''a'' \<notin> set (map cb_capture_id (en_buf ?e))"
    by (simp_all add: quiet_engine_def find_by_id_def row_a_def row_of_new_fact_def sample_new_fact_def morning_claim_def
        carries_retirement_def)
  from rebuffered_fact_comes_back [OF this r] r show ?thesis by (simp add: quiet_engine_def)
qed

end
