(* ===== verification/Mwe_Erasure.thy ===== *)
theory Mwe_Erasure
  imports Mwe_Buffer Mwe_Events Mwe_Slug
begin

text \<open>
  Taking memory away: the erasure of a person (\<open>gdpr.rs\<close>) and the disposal of the facts of a page
  (\<open>page.rs\<close>) or of a wiki (\<open>wiki_delete.rs\<close>).

  Three things are arguments. The tree of wikis answers with the place of a wiki; cutting a region from its
  page succeeds or not; and moving a fact to a page of another wiki is refused, or says where the fact now
  lies. The pages, the blobs, the trash and the training spool on disk are not part of the state. The lemmas
  follow one fact through the steps: what was the person's is gone, what was somebody else's is kept.
\<close>

section \<open>What becomes of one fact\<close>

datatype fact_fate = Destroy | HandOver principal | Disown | Untouched

definition fate_of :: "fact_row \<Rightarrow> principal \<Rightarrow> fact_fate" where
  "fate_of row gone =
     (if fr_subject_id row = gone
      then if is_rules_page (fr_source_path row) then Destroy
           else case fr_sender_id row of
             None \<Rightarrow> Destroy
           | Some s \<Rightarrow> if s \<noteq> gone \<and> \<not> is_removed s then HandOver s else Destroy
      else if fr_sender_id row = Some gone then Disown else Untouched)"

definition FORGET_REASON :: string where "FORGET_REASON = ''gdpr_erasure''"

text \<open>A wiki on disk: its directory under the work directory, and whether it is a smart one.\<close>

record wiki_place =
  wp_rel_dir :: string
  wp_smart :: bool

text \<open>
  \<open>ev_json\<close> reads a payload as SQLite does; \<open>ev_hers\<close> are the ids of the person's wiki and everything under it; \<open>ev_strip\<close> whether the prose of a
  retired fact could be cut from its page; \<open>ev_refile\<close> the path and the region a fact gets on the page of another
  wiki, or \<^const>\<open>None\<close> when the move is refused.
\<close>

record erasure_env =
  ev_now :: string
  ev_now_nanos :: int
  ev_hers :: "string list"
  ev_place :: "wiki_id \<Rightarrow> wiki_place option"
  ev_strip :: "fact_row \<Rightarrow> bool"
  ev_refile :: "fact_row \<Rightarrow> string \<Rightarrow> wiki_id \<Rightarrow> string \<Rightarrow> (string \<times> int \<times> int) option"
  ev_slug :: "string \<Rightarrow> slug_error + string"
  ev_json :: "string \<Rightarrow> json option"

record forget_report =
  fo_facts_handed_over :: nat
  fo_facts_moved :: nat
  fo_facts_unplaced :: nat
  fo_facts_tombstoned :: nat
  fo_facts_left_as_tombstone :: nat
  fo_facts_disowned :: nat
  fo_allow_lists_pruned :: nat
  fo_captures_handed_over :: nat
  fo_captures_dropped :: nat
  fo_notices_removed :: nat
  fo_personal_rows_removed :: nat
  fo_audit_rows_anonymised :: nat
  fo_lists_amended :: nat
  fo_consumers_dismantled :: "string list"
  fo_oauth_rows_removed :: nat
  fo_wikis_erased :: nat

definition no_forgetting :: forget_report where
  "no_forgetting = \<lparr>fo_facts_handed_over = 0, fo_facts_moved = 0, fo_facts_unplaced = 0, fo_facts_tombstoned = 0,
     fo_facts_left_as_tombstone = 0, fo_facts_disowned = 0, fo_allow_lists_pruned = 0, fo_captures_handed_over = 0,
     fo_captures_dropped = 0, fo_notices_removed = 0, fo_personal_rows_removed = 0, fo_audit_rows_anonymised = 0,
     fo_lists_amended = 0, fo_consumers_dismantled = [], fo_oauth_rows_removed = 0, fo_wikis_erased = 0\<rparr>"

type_synonym shelf = "buffer \<times> fact_table"

definition tombstone_fact :: "erasure_env \<Rightarrow> fact_row \<Rightarrow> fact_table \<times> forget_report \<Rightarrow> fact_table \<times> forget_report" where
  "tombstone_fact env row tr =
     (case tr of (tab, rep) \<Rightarrow>
       (let tab1 = fst (mark_forgotten (ev_now env) (fr_fact_id row) FORGET_REASON tab);
            rep1 = rep\<lparr>fo_facts_tombstoned := fo_facts_tombstoned rep + 1\<rparr>;
            prose_gone = (fr_wiki_id row \<in> set (ev_hers env) \<or> ev_strip env row)
        in if prose_gone then (fst (erase (fr_fact_id row) tab1), rep1)
           else (tab1, rep1\<lparr>fo_facts_left_as_tombstone := fo_facts_left_as_tombstone rep1 + 1\<rparr>)))"

section \<open>The facts about the person\<close>

definition sort_fact ::
  "erasure_env \<Rightarrow> string \<Rightarrow> fact_row \<Rightarrow> fact_table \<times> forget_report \<Rightarrow> fact_table \<times> forget_report" where
  "sort_fact env user_id row tr =
     (case tr of (tab, rep) \<Rightarrow>
       (case fate_of row (User user_id) of
          HandOver keeper \<Rightarrow>
            (fst (retarget_subject (ev_now env) (fr_fact_id row) keeper user_id tab),
             rep\<lparr>fo_facts_handed_over := fo_facts_handed_over rep + 1\<rparr>)
        | Destroy \<Rightarrow> tombstone_fact env row (tab, rep)
        | _ \<Rightarrow> (tab, rep)))"

section \<open>Leaving the wikis that go\<close>

definition locate :: "erasure_env \<Rightarrow> string \<Rightarrow> (wiki_id \<times> wiki_place) option" where
  "locate env i = (case wiki_id_parse i of Inl _ \<Rightarrow> None | Inr w \<Rightarrow> map_option (Pair w) (ev_place env w))"

definition destination_wiki :: "erasure_env \<Rightarrow> principal \<Rightarrow> wiki_id option" where
  "destination_wiki env subject =
     (case (case subject of User i \<Rightarrow> Some i | Group i \<Rightarrow> if i \<noteq> ''global'' then Some i else None) of
        None \<Rightarrow> None
      | Some i \<Rightarrow>
          if i \<in> set (ev_hers env) then None
          else case locate env i of
            None \<Rightarrow> None
          | Some (w, p) \<Rightarrow> if wp_smart p then None else Some w)"

definition destination_page :: "erasure_env \<Rightarrow> fact_row \<Rightarrow> string \<Rightarrow> string" where
  "destination_page env row source_page =
     (case Option.bind (fr_subject_external row) (\<lambda>name. case ev_slug env name of Inl _ \<Rightarrow> None | Inr s \<Rightarrow> Some s) of
        None \<Rightarrow> source_page
      | Some slug \<Rightarrow> slug @ ''.md'')"

definition relocate ::
  "erasure_env \<Rightarrow> fact_row \<Rightarrow> shelf \<times> forget_report \<Rightarrow> shelf \<times> forget_report" where
  "relocate env row sr =
     (case sr of ((buf, tab), rep) \<Rightarrow>
       (let give_back = (fst (rebuffer_fact (ev_now_nanos env) (fr_fact_id row) (buf, tab)),
                         rep\<lparr>fo_facts_unplaced := fo_facts_unplaced rep + 1\<rparr>)
        in case (destination_wiki env (fr_subject_id row), locate env (fr_wiki_id row)) of
             (Some dest, Some (_, source)) \<Rightarrow>
               (let source_page = (case strip_prefix (wp_rel_dir source @ ''/'') (fr_source_path row) of
                                     Some p \<Rightarrow> p | None \<Rightarrow> fr_source_path row)
                in case ev_refile env row source_page dest (destination_page env row source_page) of
                     None \<Rightarrow> give_back
                   | Some (path, s, e) \<Rightarrow>
                       ((buf, fst (move_to_wiki (ev_now env) (fr_fact_id row) (wiki_id_str dest) path (Some s) (Some e) tab)),
                        rep\<lparr>fo_facts_moved := fo_facts_moved rep + 1\<rparr>))
           | _ \<Rightarrow> give_back))"

definition find_active_in_wiki :: "fact_table \<Rightarrow> string \<Rightarrow> fact_row list" where
  "find_active_in_wiki tab w = sort_key fr_created_at (filter (\<lambda>r. fr_wiki_id r = w \<and> active r) tab)"

definition empty_wiki :: "erasure_env \<Rightarrow> string \<Rightarrow> shelf \<times> forget_report \<Rightarrow> shelf \<times> forget_report" where
  "empty_wiki env w sr = fold (relocate env) (find_active_in_wiki (snd (fst sr)) w) sr"

section \<open>The tables that carry a user id\<close>

text \<open>
  The tables the other parts do not describe: rows of named columns. The proposals, the events, the buffer
  and the facts have their own types, and the sweep over the lists below treats them there.
\<close>

datatype sql_cell = CellNull | CellText string | CellArray "string list"

type_synonym sql_row = "string \<Rightarrow> sql_cell"
type_synonym sql_tables = "string \<Rightarrow> sql_row list"

datatype id_form = Bare | Wire

fun spell :: "string \<Rightarrow> id_form \<Rightarrow> string" where
  "spell user_id Bare = user_id"
| "spell user_id Wire = principal_to_string (User user_id)"

definition PERSONAL_ROWS :: "(string \<times> string \<times> id_form) list" where
  "PERSONAL_ROWS =
     [(''recall_traces'', ''sender_id'', Bare), (''recall_log'', ''sender_id'', Bare),
      (''recall_misses'', ''sender_id'', Bare), (''ingest_replies'', ''sender_id'', Bare),
      (''wiki_admin_leases'', ''sender_id'', Bare), (''wiki_briefing_items'', ''source_ref'', Wire),
      (''document_jobs'', ''subject_id'', Wire)]"

definition AUDIT_COLUMNS :: "(string \<times> string \<times> id_form) list" where
  "AUDIT_COLUMNS =
     [(''tool_executions'', ''sender_id'', Bare), (''wiki_admin_op_log'', ''sender_id'', Bare),
      (''archive_proposals'', ''decided_by'', Bare), (''structure_proposals'', ''applied_by'', Bare),
      (''disclosure_audit'', ''actor_id'', Bare), (''disclosure_audit'', ''prev_subject_id'', Wire),
      (''disclosure_audit'', ''new_subject_id'', Wire), (''disclosure_audit'', ''prev_sender_id'', Wire),
      (''disclosure_audit'', ''new_sender_id'', Wire), (''document_jobs'', ''sender_id'', Wire)]"

definition MEMBERSHIP_LISTS :: "(string \<times> string \<times> id_form) list" where
  "MEMBERSHIP_LISTS =
     [(''enrollment_groups'', ''members'', Bare), (''consumer_delegations'', ''allowed_sender_ids'', Bare),
      (''smart_wikis'', ''shared_with'', Wire), (''media_catalog'', ''allow_ids'', Wire),
      (''capture_buffer'', ''allow_ids'', Wire), (''disclosure_audit'', ''prev_allow_ids'', Wire),
      (''disclosure_audit'', ''new_allow_ids'', Wire)]"

record memory_world =
  wl_users :: "(string \<times> bool) list"
  wl_forgotten :: "string list"
  wl_facts :: fact_table
  wl_buf :: buffer
  wl_proposals :: "proposal_row list"
  wl_events :: "event_row list"
  wl_tables :: sql_tables

definition delete_where :: "string \<Rightarrow> (sql_row \<Rightarrow> bool) \<Rightarrow> sql_tables \<Rightarrow> sql_tables \<times> nat" where
  "delete_where t P ts = (ts(t := filter (\<lambda>r. \<not> P r) (ts t)), length (filter P (ts t)))"

definition update_where :: "string \<Rightarrow> (sql_row \<Rightarrow> bool) \<Rightarrow> (sql_row \<Rightarrow> sql_row) \<Rightarrow> sql_tables \<Rightarrow> sql_tables \<times> nat" where
  "update_where t P f ts = (ts(t := map (\<lambda>r. if P r then f r else r) (ts t)), length (filter P (ts t)))"

definition delete_personal :: "string \<Rightarrow> string \<times> string \<times> id_form \<Rightarrow> sql_tables \<Rightarrow> sql_tables \<times> nat" where
  "delete_personal user_id tcf ts =
     (case tcf of (t, c, form) \<Rightarrow> delete_where t (\<lambda>r. r c = CellText (spell user_id form)) ts)"

definition drop_personal_rows :: "string \<Rightarrow> sql_tables \<Rightarrow> sql_tables \<times> nat" where
  "drop_personal_rows user_id ts =
     (let jobs = map (\<lambda>r. r ''job_id'')
            (filter (\<lambda>r. r ''subject_id'' = CellText (spell user_id Wire)) (ts ''document_jobs''));
          ts0 = fst (delete_where ''document_job_segments'' (\<lambda>r. r ''job_id'' \<in> set jobs) ts)
      in fold (\<lambda>tcf (ts, n). let (ts', k) = delete_personal user_id tcf ts in (ts', n + k)) PERSONAL_ROWS (ts0, 0))"

definition event_recipient :: "erasure_env \<Rightarrow> event_row \<Rightarrow> recipient" where
  "event_recipient env r =
     (case Option.bind (ev_payload r) (ev_json env) of None \<Rightarrow> NoRecipient | Some v \<Rightarrow> json_recipient v)"

definition drop_notices :: "erasure_env \<Rightarrow> principal \<Rightarrow> memory_world \<Rightarrow> memory_world \<times> nat" where
  "drop_notices env gone w =
     (let wire = principal_to_string gone;
          told = (\<lambda>r. event_recipient env r = RecipientText wire);
          asked = (\<lambda>p. pr_recipient_id p = Some wire)
      in (w\<lparr>wl_events := filter (\<lambda>r. \<not> told r) (wl_events w),
            wl_proposals := filter (\<lambda>p. \<not> asked p) (wl_proposals w)\<rparr>,
          length (filter told (wl_events w)) + length (filter asked (wl_proposals w))))"

definition anonymise_column :: "string \<Rightarrow> string \<times> string \<times> id_form \<Rightarrow> memory_world \<Rightarrow> memory_world \<times> nat" where
  "anonymise_column user_id tcf w =
     (case tcf of (t, c, form) \<Rightarrow>
       if t = ''structure_proposals'' then
         (w\<lparr>wl_proposals := map (\<lambda>p. if pr_applied_by p = Some (spell user_id form)
                                     then p\<lparr>pr_applied_by := Some (spell REMOVED_USER_ID form)\<rparr> else p) (wl_proposals w)\<rparr>,
          length (filter (\<lambda>p. pr_applied_by p = Some (spell user_id form)) (wl_proposals w)))
       else (let (ts, n) = update_where t (\<lambda>r. r c = CellText (spell user_id form))
                             (\<lambda>r. r(c := CellText (spell REMOVED_USER_ID form))) (wl_tables w)
             in (w\<lparr>wl_tables := ts\<rparr>, n)))"

definition anonymise_audit :: "string \<Rightarrow> memory_world \<Rightarrow> memory_world \<times> nat" where
  "anonymise_audit user_id w =
     fold (\<lambda>tcf (w, n). let (w', k) = anonymise_column user_id tcf w in (w', n + k)) AUDIT_COLUMNS (w, 0)"

fun cell_array_has :: "string \<Rightarrow> sql_cell \<Rightarrow> bool" where
  "cell_array_has x (CellArray xs) \<longleftrightarrow> x \<in> set xs"
| "cell_array_has x v \<longleftrightarrow> False"

fun cell_array_without :: "string \<Rightarrow> sql_cell \<Rightarrow> sql_cell" where
  "cell_array_without x (CellArray xs) = CellArray (filter (\<lambda>y. y \<noteq> x) xs)"
| "cell_array_without x v = v"

definition strike_column :: "string \<Rightarrow> string \<times> string \<times> id_form \<Rightarrow> memory_world \<Rightarrow> memory_world \<times> nat" where
  "strike_column user_id tcf w =
     (case tcf of (t, c, form) \<Rightarrow>
       if t = ''capture_buffer'' then
         (let (buf, n) = buffer_update (\<lambda>r. User user_id \<in> set (cb_allow r))
                           (\<lambda>r. r\<lparr>cb_allow := filter (\<lambda>p. p \<noteq> User user_id) (cb_allow r)\<rparr>) (wl_buf w)
          in (w\<lparr>wl_buf := buf\<rparr>, n))
       else (let (ts, n) = update_where t (\<lambda>r. cell_array_has (spell user_id form) (r c))
                             (\<lambda>r. r(c := cell_array_without (spell user_id form) (r c))) (wl_tables w)
             in (w\<lparr>wl_tables := ts\<rparr>, n)))"

definition strike_from_lists :: "string \<Rightarrow> memory_world \<Rightarrow> memory_world \<times> nat" where
  "strike_from_lists user_id w =
     fold (\<lambda>tcf (w, n). let (w', k) = strike_column user_id tcf w in (w', n + k)) MEMBERSHIP_LISTS (w, 0)"

section \<open>The account\<close>

definition record_forgotten_id :: "string \<Rightarrow> string list \<Rightarrow> string list" where
  "record_forgotten_id user_id ids = (if user_id \<in> set ids then ids else ids @ [user_id])"

definition is_forgotten :: "string \<Rightarrow> string list \<Rightarrow> bool" where
  "is_forgotten user_id ids \<longleftrightarrow> user_id \<in> set ids"

text \<open>\<open>reject_if_forgotten\<close>: the test every creation of a user makes first; the message is the id's own.\<close>

definition reject_if_forgotten :: "(string \<Rightarrow> string) \<Rightarrow> string \<Rightarrow> string list \<Rightarrow> string + unit" where
  "reject_if_forgotten refusal user_id ids = (if is_forgotten user_id ids then Inl (refusal user_id) else Inr ())"

record user_removal =
  ur_consumers_dismantled :: "string list"
  ur_oauth_rows_removed :: nat

fun cell_text :: "sql_cell \<Rightarrow> string option" where
  "cell_text (CellText s) = Some s"
| "cell_text v = None"

definition dismantle_consumer :: "string \<Rightarrow> sql_tables \<Rightarrow> sql_tables" where
  "dismantle_consumer c ts =
     fold (\<lambda>t ts. fst (delete_where t (\<lambda>r. r ''consumer_id'' = CellText c) ts))
       [''consumer_delegations'', ''webagentoauth_codes'', ''webagentoauth_refresh'', ''consumers''] ts"

definition remove_user :: "string \<Rightarrow> memory_world \<Rightarrow> memory_world \<times> user_removal option" where
  "remove_user user_id w =
     (if user_id \<notin> fst ` set (wl_users w) then (w, None)
      else let mine = List.map_filter (\<lambda>r. if r ''system_user_id'' = CellText user_id then cell_text (r ''consumer_id'') else None)
                        (wl_tables w ''consumers'');
               ts1 = fold dismantle_consumer mine (wl_tables w);
               (ts2, n) = delete_where ''webagentoauth_codes'' (\<lambda>r. r ''sender_id'' = CellText user_id) ts1;
               (ts3, k) = delete_where ''webagentoauth_refresh'' (\<lambda>r. r ''sender_id'' = CellText user_id) ts2;
               ts4 = fst (delete_where ''recent_exchanges'' (\<lambda>r. r ''user_id'' = CellText user_id) ts3)
           in (w\<lparr>wl_tables := ts4, wl_users := filter (\<lambda>u. fst u \<noteq> user_id) (wl_users w)\<rparr>,
               Some \<lparr>ur_consumers_dismantled = mine, ur_oauth_rows_removed = n + k\<rparr>))"

section \<open>The erasure\<close>

definition WIKI_DELETE_REASON :: string where "WIKI_DELETE_REASON = ''wiki_deleted''"

text \<open>The net of the last step: every row of the wikis that is not yet a tombstone becomes one.\<close>

definition tombstone_wikis :: "string \<Rightarrow> string list \<Rightarrow> fact_table \<Rightarrow> fact_table \<times> nat" where
  "tombstone_wikis now ws tab =
     fold (\<lambda>w (tab, n). let (tab', k) = mark_forgotten_in_wiki now w WIKI_DELETE_REASON tab in (tab', n + k)) ws (tab, 0)"

datatype gdpr_error = IsDeploymentAdmin string

definition forget_facts ::
  "erasure_env \<Rightarrow> string \<Rightarrow> shelf \<Rightarrow> shelf \<times> forget_report" where
  "forget_facts env user_id sh =
     (case sh of (buf, tab) \<Rightarrow>
       (let gone = User user_id;
            (tab1, rep1) = fold (sort_fact env user_id) (find_active_by_subject tab gone) (tab, no_forgetting);
            (tab2, disowned) = replace_sender (ev_now env) gone removed_sender tab1;
            (tab3, pruned) = strike_from_allow (ev_now env) gone tab2
        in fold (empty_wiki env) (ev_hers env)
             ((buf, tab3), rep1\<lparr>fo_facts_disowned := disowned, fo_allow_lists_pruned := pruned\<rparr>)))"

definition forget_user ::
  "erasure_env \<Rightarrow> string \<Rightarrow> memory_world \<Rightarrow> memory_world \<times> (gdpr_error + forget_report option)" where
  "forget_user env user_id w =
     (case map_of (wl_users w) user_id of
        None \<Rightarrow> (w, Inr None)
      | Some True \<Rightarrow> (w, Inl (IsDeploymentAdmin user_id))
      | Some False \<Rightarrow>
          (let gone = User user_id;
               ((buf1, tab1), rep1) = forget_facts env user_id (wl_buf w, wl_facts w);
               ((ps1, buf2), cap) = forget_captures user_id gone removed_sender (wl_proposals w, buf1);
               w1 = w\<lparr>wl_facts := tab1, wl_buf := buf2, wl_proposals := ps1\<rparr>;
               (ts2, personal) = drop_personal_rows user_id (wl_tables w1);
               (w3, notices) = drop_notices env gone (w1\<lparr>wl_tables := ts2\<rparr>);
               (w4, audit) = anonymise_audit user_id w3;
               (w5, lists) = strike_from_lists user_id w4;
               w6 = w5\<lparr>wl_forgotten := record_forgotten_id user_id (wl_forgotten w5)\<rparr>;
               (w7, removal) = remove_user user_id w6;
               (tab8, left) = tombstone_wikis (ev_now env) (ev_hers env) (wl_facts w7)
           in (w7\<lparr>wl_facts := tab8\<rparr>,
               Inr (Some (rep1\<lparr>fo_captures_dropped := fg_captures_dropped cap,
                 fo_captures_handed_over := fg_captures_handed_over cap, fo_personal_rows_removed := personal,
                 fo_notices_removed := notices, fo_audit_rows_anonymised := audit, fo_lists_amended := lists,
                 fo_consumers_dismantled := (case removal of None \<Rightarrow> [] | Some r \<Rightarrow> ur_consumers_dismantled r),
                 fo_oauth_rows_removed := (case removal of None \<Rightarrow> 0 | Some r \<Rightarrow> ur_oauth_rows_removed r),
                 fo_wikis_erased := length (ev_hers env),
                 fo_facts_tombstoned := fo_facts_tombstoned rep1 + left\<rparr>)))))"

text \<open>What the operator is shown before confirming.\<close>

record forget_preview =
  fv_facts_destroyed :: nat
  fv_facts_handed_over :: nat
  fv_facts_disowned :: nat
  fv_wikis :: nat

definition find_active_by_sender :: "fact_table \<Rightarrow> principal \<Rightarrow> fact_row list" where
  "find_active_by_sender tab p = sort_key fr_created_at (filter (\<lambda>r. fr_sender_id r = Some p \<and> active r) tab)"

definition forget_preview_of :: "erasure_env \<Rightarrow> string \<Rightarrow> memory_world \<Rightarrow> forget_preview option" where
  "forget_preview_of env user_id w =
     (if user_id \<notin> fst ` set (wl_users w) then None
      else let gone = User user_id; about = find_active_by_subject (wl_facts w) gone
           in Some \<lparr>fv_facts_destroyed = length (filter (\<lambda>r. fate_of r gone = Destroy) about),
                fv_facts_handed_over = length (filter (\<lambda>r. \<exists>k. fate_of r gone = HandOver k) about),
                fv_facts_disowned = length (filter (\<lambda>r. fate_of r gone = Disown) (find_active_by_sender (wl_facts w) gone)),
                fv_wikis = length (ev_hers env)\<rparr>)"

section \<open>A page or a wiki goes\<close>

datatype deletion_mode = SenderKeyed | TombstoneAll | Dissolve

datatype page_action = Tombstone | Evacuate

datatype page_error = DissolveIsWholeWikiOnly

definition existing_home_wiki :: "erasure_env \<Rightarrow> principal \<Rightarrow> string option" where
  "existing_home_wiki env p =
     (case (case p of User i \<Rightarrow> Some i | Group i \<Rightarrow> if i \<noteq> ''global'' then Some i else None) of
        None \<Rightarrow> None
      | Some i \<Rightarrow> (case locate env i of None \<Rightarrow> None | Some _ \<Rightarrow> Some i))"

definition decide :: "erasure_env \<Rightarrow> principal \<Rightarrow> principal \<Rightarrow> principal \<Rightarrow> page_action" where
  "decide env responsible subject deleter =
     (if responsible = deleter then Tombstone
      else if existing_home_wiki env responsible \<noteq> None then Evacuate
      else if subject = deleter then Tombstone
      else if existing_home_wiki env subject \<noteq> None then Evacuate
      else Tombstone)"

definition responsible_for :: "fact_row \<Rightarrow> principal" where
  "responsible_for row = (case fr_sender_id row of Some s \<Rightarrow> s | None \<Rightarrow> fr_subject_id row)"

record deletion_outcome =
  do_facts_tombstoned :: nat
  do_facts_evacuated :: nat

definition dispose_fact ::
  "erasure_env \<Rightarrow> string \<Rightarrow> (fact_row \<Rightarrow> page_action) \<Rightarrow> fact_row \<Rightarrow> shelf \<times> deletion_outcome \<Rightarrow> shelf \<times> deletion_outcome" where
  "dispose_fact env reason act row so =
     (case so of ((buf, tab), out) \<Rightarrow>
       (case act row of
          Tombstone \<Rightarrow> ((buf, fst (mark_forgotten (ev_now env) (fr_fact_id row) reason tab)),
                        out\<lparr>do_facts_tombstoned := do_facts_tombstoned out + 1\<rparr>)
        | Evacuate \<Rightarrow> (fst (rebuffer_fact (ev_now_nanos env) (fr_fact_id row) (buf, tab)),
                       out\<lparr>do_facts_evacuated := do_facts_evacuated out + 1\<rparr>)))"

definition sender_keyed :: "erasure_env \<Rightarrow> principal \<Rightarrow> fact_row \<Rightarrow> page_action" where
  "sender_keyed env deleter row = decide env (responsible_for row) (fr_subject_id row) deleter"

definition delete_page_direct ::
  "erasure_env \<Rightarrow> string \<Rightarrow> principal \<Rightarrow> string \<Rightarrow> deletion_mode \<Rightarrow> shelf \<Rightarrow> shelf \<times> (page_error + deletion_outcome)" where
  "delete_page_direct env source_path deleter reason mode sh =
     (let rows = find_active_by_source_path (snd sh) source_path;
          none = \<lparr>do_facts_tombstoned = 0, do_facts_evacuated = 0\<rparr>
      in case mode of
           Dissolve \<Rightarrow> (sh, if rows = [] then Inr none else Inl DissolveIsWholeWikiOnly)
         | TombstoneAll \<Rightarrow> (let (sh', out) = fold (dispose_fact env reason (\<lambda>_. Tombstone)) rows (sh, none) in (sh', Inr out))
         | SenderKeyed \<Rightarrow> (let (sh', out) = fold (dispose_fact env reason (sender_keyed env deleter)) rows (sh, none)
                           in (sh', Inr out)))"

definition dispose_wiki_facts ::
  "erasure_env \<Rightarrow> principal \<Rightarrow> deletion_mode \<Rightarrow> string \<Rightarrow> shelf \<times> deletion_outcome \<Rightarrow> shelf \<times> deletion_outcome" where
  "dispose_wiki_facts env deleter mode w so =
     (case so of ((buf, tab), out) \<Rightarrow>
       (case mode of
          TombstoneAll \<Rightarrow>
            (let (tab', n) = mark_forgotten_in_wiki (ev_now env) w WIKI_DELETE_REASON tab
             in ((buf, tab'), out\<lparr>do_facts_tombstoned := do_facts_tombstoned out + n\<rparr>))
        | Dissolve \<Rightarrow> fold (dispose_fact env WIKI_DELETE_REASON (\<lambda>_. Evacuate)) (find_active_in_wiki tab w) so
        | SenderKeyed \<Rightarrow> fold (dispose_fact env WIKI_DELETE_REASON (sender_keyed env deleter)) (find_active_in_wiki tab w) so))"

text \<open>The guard on the wiki of a living principal, then every wiki of the subtree in turn.\<close>

datatype wiki_delete_error = WikiNotFound wiki_id | IdentityWiki wiki_id string

fun identity_principal :: "string \<Rightarrow> wiki_id \<Rightarrow> principal option" where
  "identity_principal t i =
     (if t = ''wiki-user'' then Some (User (wiki_id_str i))
      else if t = ''wiki-group'' then Some (Group (wiki_id_str i)) else None)"

definition delete_wiki_facts ::
  "erasure_env \<Rightarrow> (principal \<Rightarrow> bool) \<Rightarrow> (string \<times> wiki_id list) option \<Rightarrow> wiki_id \<Rightarrow> principal \<Rightarrow> deletion_mode \<Rightarrow> shelf \<Rightarrow>
   shelf \<times> (wiki_delete_error + deletion_outcome)" where
  "delete_wiki_facts env enrolled node target deleter mode sh =
     (case node of
        None \<Rightarrow> (sh, Inl (WikiNotFound target))
      | Some (t, subtree) \<Rightarrow>
          if is_some_and enrolled (identity_principal t target) then (sh, Inl (IdentityWiki target t))
          else let (sh', out) = fold (dispose_wiki_facts env deleter mode) (map wiki_id_str subtree)
                     (sh, \<lparr>do_facts_tombstoned = 0, do_facts_evacuated = 0\<rparr>)
               in (sh', Inr out))"

section \<open>Columns\<close>

definition column :: "string \<Rightarrow> string \<Rightarrow> sql_tables \<Rightarrow> sql_cell set" where
  "column t c ts = (\<lambda>r. r c) ` set (ts t)"

lemma column_delete: "column t c (fst (delete_where t' P ts)) \<subseteq> column t c ts"
  by (auto simp: column_def delete_where_def)

lemma column_update_other:
  "(t', c') \<noteq> (t, c) \<Longrightarrow> column t c (fst (update_where t' P (\<lambda>r. r(c' := g r)) ts)) = column t c ts"
proof (cases "t' = t")
  case True
  assume "(t', c') \<noteq> (t, c)"
  with True have "(\<lambda>r. (if P r then r(c' := g r) else r) c) = (\<lambda>r. r c)" by auto
  then show ?thesis
    unfolding True column_def update_where_def fst_conv fun_upd_same set_map image_image by (simp only:)
qed (simp add: column_def update_where_def)

lemma column_update_this:
  "v \<in> column t c (fst (update_where t P (\<lambda>r. r(c := g r)) ts)) \<Longrightarrow>
     \<exists>r \<in> set (ts t). v = (if P r then g r else r c)"
  by (auto simp: column_def update_where_def image_iff split: if_splits)

lemma fold_count_keeps:
  assumes "\<And>x w. K (fst (f x w)) = K w"
  shows "K (fst (fold (\<lambda>x (w, n). let (w', k) = f x w in (w', n + k)) xs (w, n))) = K w"
proof (induction xs arbitrary: w n)
  case (Cons x xs)
  obtain w' k where "f x w = (w', k)" by fastforce
  with Cons assms [of x w] show ?case by simp
qed simp

lemma fold_count_inv:
  assumes "\<And>x w. x \<in> set xs \<Longrightarrow> Q w \<Longrightarrow> Q (fst (f x w))" "Q w"
  shows "Q (fst (fold (\<lambda>x (w, n). let (w', k) = f x w in (w', n + k)) xs (w, n)))"
  using assms
proof (induction xs arbitrary: w n)
  case (Cons x xs)
  obtain w' k where f: "f x w = (w', k)" by fastforce
  have "Q w'" using Cons.prems(1) [of x w] Cons.prems(2) f by simp
  then show ?case using Cons.IH [of w' "n + k"] Cons.prems(1) f by simp
qed simp

text \<open>A property each step establishes for its own entry, and no step destroys, holds for all.\<close>

lemma fold_count_each:
  assumes "\<And>w. Q x (fst (f x w))" "\<And>y w. y \<in> set xs \<Longrightarrow> Q x w \<Longrightarrow> Q x (fst (f y w))" "x \<in> set xs"
  shows "Q x (fst (fold (\<lambda>x (w, n). let (w', k) = f x w in (w', n + k)) xs (w, n)))"
  using assms(2,3)
proof (induction xs arbitrary: w n)
  case (Cons y xs)
  obtain w' k where f: "f y w = (w', k)" by fastforce
  show ?case
  proof (cases "y = x")
    case True
    with assms(1) [of w] f have "Q x w'" by simp
    moreover have "\<And>z w. z \<in> set xs \<Longrightarrow> Q x w \<Longrightarrow> Q x (fst (f z w))" using Cons.prems(1) by simp
    ultimately show ?thesis using fold_count_inv [of xs "Q x" f w' "n + k"] f by simp
  next
    case False
    then show ?thesis using Cons.IH [of w' "n + k"] Cons.prems f by simp
  qed
qed simp

text \<open>Every entry of the three lists is for a column of its own.\<close>

definition entry_column :: "string \<times> string \<times> id_form \<Rightarrow> string \<times> string" where
  "entry_column x = (fst x, fst (snd x))"

lemma entries_distinct: "distinct (map entry_column (PERSONAL_ROWS @ AUDIT_COLUMNS @ MEMBERSHIP_LISTS))"
  by (simp add: entry_column_def PERSONAL_ROWS_def AUDIT_COLUMNS_def MEMBERSHIP_LISTS_def)

lemma same_entry:
  assumes "x \<in> set xs" "y \<in> set xs" "entry_column x = entry_column y"
    and "xs = PERSONAL_ROWS \<or> xs = AUDIT_COLUMNS \<or> xs = MEMBERSHIP_LISTS"
  shows "x = y"
proof -
  have "distinct (map entry_column xs)" using assms(4) entries_distinct by auto
  then show ?thesis using assms(1-3) by (simp add: distinct_map inj_on_def)
qed

lemma other_entry:
  assumes "x \<in> set PERSONAL_ROWS \<and> y \<in> set AUDIT_COLUMNS \<or> x \<in> set PERSONAL_ROWS \<and> y \<in> set MEMBERSHIP_LISTS \<or>
    x \<in> set AUDIT_COLUMNS \<and> y \<in> set MEMBERSHIP_LISTS"
  shows "entry_column x \<noteq> entry_column y"
proof
  assume same: "entry_column x = entry_column y"
  have "entry_column ` set PERSONAL_ROWS \<inter> entry_column ` set AUDIT_COLUMNS = {}"
      "entry_column ` set PERSONAL_ROWS \<inter> entry_column ` set MEMBERSHIP_LISTS = {}"
      "entry_column ` set AUDIT_COLUMNS \<inter> entry_column ` set MEMBERSHIP_LISTS = {}"
    using entries_distinct by (simp_all only: map_append distinct_append set_append set_map) blast+
  moreover have "z \<in> set zs \<Longrightarrow> entry_column z \<in> entry_column ` set zs" for z zs by (rule imageI)
  ultimately show False using assms same by (metis disjoint_iff)
qed

lemma other_entry_column:
  assumes "x \<in> set PERSONAL_ROWS \<and> y \<in> set AUDIT_COLUMNS \<or> x \<in> set PERSONAL_ROWS \<and> y \<in> set MEMBERSHIP_LISTS \<or>
    x \<in> set AUDIT_COLUMNS \<and> y \<in> set MEMBERSHIP_LISTS"
  shows "entry_column y \<noteq> (fst x, fst (snd x))"
  using other_entry [OF assms] by (auto simp: entry_column_def)

lemma spell_inj: "spell a form = spell b form \<longleftrightarrow> a = b"
  by (cases form) simp_all

abbreviation names_in :: "string \<Rightarrow> string \<times> string \<times> id_form \<Rightarrow> sql_tables \<Rightarrow> bool" where
  "names_in u x ts \<equiv> CellText (spell u (snd (snd x))) \<in> column (fst x) (fst (snd x)) ts"

abbreviation grants_in :: "string \<Rightarrow> string \<times> string \<times> id_form \<Rightarrow> sql_tables \<Rightarrow> bool" where
  "grants_in u x ts \<equiv> \<exists>v \<in> column (fst x) (fst (snd x)) ts. cell_array_has (spell u (snd (snd x))) v"

lemma delete_personal_effect:
  "column t c (fst (delete_personal u x ts)) \<subseteq> column t c ts" "\<not> names_in u x (fst (delete_personal u x ts))"
  using column_delete by (auto simp: delete_personal_def delete_where_def column_def split: prod.splits)

lemma anonymise_column_simps:
  "t \<noteq> ''structure_proposals'' \<Longrightarrow> wl_tables (fst (anonymise_column u (t, c, form) w)) =
     fst (update_where t (\<lambda>r. r c = CellText (spell u form)) (\<lambda>r. r(c := CellText (spell REMOVED_USER_ID form))) (wl_tables w))"
  "wl_tables (fst (anonymise_column u (''structure_proposals'', c, form) w)) = wl_tables w"
  "wl_buf (fst (anonymise_column u x w)) = wl_buf w" "wl_facts (fst (anonymise_column u x w)) = wl_facts w"
  "wl_users (fst (anonymise_column u x w)) = wl_users w" "wl_events (fst (anonymise_column u x w)) = wl_events w"
  "wl_forgotten (fst (anonymise_column u x w)) = wl_forgotten w"
  "t \<noteq> ''structure_proposals'' \<Longrightarrow> wl_proposals (fst (anonymise_column u (t, c, form) w)) = wl_proposals w"
  by (simp_all add: anonymise_column_def Let_def split: prod.split)

lemma strike_column_simps:
  "t \<noteq> ''capture_buffer'' \<Longrightarrow> wl_tables (fst (strike_column u (t, c, form) w)) =
     fst (update_where t (\<lambda>r. cell_array_has (spell u form) (r c)) (\<lambda>r. r(c := cell_array_without (spell u form) (r c))) (wl_tables w))"
  "wl_tables (fst (strike_column u (''capture_buffer'', c, form) w)) = wl_tables w"
  "wl_facts (fst (strike_column u x w)) = wl_facts w" "wl_proposals (fst (strike_column u x w)) = wl_proposals w"
  "wl_users (fst (strike_column u x w)) = wl_users w" "wl_events (fst (strike_column u x w)) = wl_events w"
  "wl_forgotten (fst (strike_column u x w)) = wl_forgotten w"
  by (simp_all add: strike_column_def Let_def split: prod.split)

lemma anonymise_column_other:
  "entry_column x \<noteq> (t, c) \<Longrightarrow> column t c (wl_tables (fst (anonymise_column u x w))) = column t c (wl_tables w)"
  using column_update_other
  by (cases x; cases "fst x = ''structure_proposals''") (auto simp: anonymise_column_simps entry_column_def)

lemma anonymise_column_this:
  assumes "u \<noteq> REMOVED_USER_ID" "fst x \<noteq> ''structure_proposals''"
  shows "\<not> names_in u x (wl_tables (fst (anonymise_column u x w)))"
proof -
  obtain t c form where x: "x = (t, c, form)" by (cases x) auto
  have "CellText (spell u form) \<notin> column t c (wl_tables (fst (anonymise_column u (t, c, form) w)))"
    using assms x column_update_this [of "CellText (spell u form)" t c "\<lambda>r. r c = CellText (spell u form)"
        "\<lambda>r. CellText (spell REMOVED_USER_ID form)" "wl_tables w"]
    by (auto simp: anonymise_column_simps spell_inj split: if_splits)
  then show ?thesis by (simp add: x)
qed

lemma anonymise_column_proposals:
  "u \<noteq> REMOVED_USER_ID \<Longrightarrow> p \<in> set (wl_proposals (fst (anonymise_column u (''structure_proposals'', c, form) w))) \<Longrightarrow>
     pr_applied_by p \<noteq> Some (spell u form)"
  by (auto simp: anonymise_column_def spell_inj split: if_splits)

lemma strike_column_other:
  "entry_column x \<noteq> (t, c) \<Longrightarrow> column t c (wl_tables (fst (strike_column u x w))) = column t c (wl_tables w)"
  using column_update_other
  by (cases x; cases "fst x = ''capture_buffer''") (auto simp: strike_column_simps entry_column_def)

lemma array_without: "\<not> cell_array_has s (cell_array_without s v)"
  by (cases v) auto

lemma strike_column_this:
  assumes "fst x \<noteq> ''capture_buffer''"
  shows "\<not> grants_in u x (wl_tables (fst (strike_column u x w)))"
proof -
  obtain t c form where x: "x = (t, c, form)" by (cases x) auto
  have "\<not> cell_array_has (spell u form) v" if "v \<in> column t c (wl_tables (fst (strike_column u (t, c, form) w)))" for v
  proof -
    have "v \<in> column t c (fst (update_where t (\<lambda>r. cell_array_has (spell u form) (r c))
        (\<lambda>r. r(c := cell_array_without (spell u form) (r c))) (wl_tables w)))"
      using that assms x by (simp add: strike_column_simps)
    from column_update_this [OF this] obtain r where
      "v = (if cell_array_has (spell u form) (r c) then cell_array_without (spell u form) (r c) else r c)" by blast
    then show ?thesis using array_without by (cases "cell_array_has (spell u form) (r c)") simp_all
  qed
  then show ?thesis by (auto simp: x)
qed

lemma strike_column_queue:
  "wl_buf (fst (strike_column u (''capture_buffer'', c, form) w)) = fst (strike_from_claims u (wl_buf w))"
  by (simp add: strike_column_def strike_from_claims_def case_prod_beta Let_def)

lemma strike_column_buffer:
  "wl_buf (fst (strike_column u (t, c, form) w)) =
     (if t = ''capture_buffer''
      then map (\<lambda>r. if User u \<in> set (cb_allow r)
                    then r\<lparr>cb_allow := filter (\<lambda>p. p \<noteq> User u) (cb_allow r)\<rparr> else r) (wl_buf w)
      else wl_buf w)"
  by (simp add: strike_column_def buffer_update_def Let_def split: prod.split)

section \<open>A fact apart from where it is\<close>

definition unplaced :: "fact_row \<Rightarrow> fact_row" where
  "unplaced r = r\<lparr>fr_wiki_id := [], fr_source_path := [], fr_region_start := None, fr_region_end := None,
     fr_updated_at := []\<rparr>"

lemma unplaced_fields:
  assumes "unplaced r = unplaced r0"
  shows "fr_fact_id r = fr_fact_id r0" "fr_subject_id r = fr_subject_id r0" "fr_sender_id r = fr_sender_id r0"
    "fr_allow_ids r = fr_allow_ids r0" "fr_text r = fr_text r0" "active r = active r0"
    "fr_deleted_at r = fr_deleted_at r0" "fr_superseded_at r = fr_superseded_at r0"
  using assms by (cases r; cases r0; simp add: unplaced_def active_def)+

lemma in_update: "r \<in> set (fst (sql_update P f tab)) \<longleftrightarrow> (\<exists>r0 \<in> set tab. r = (if P r0 then f r0 else r0))"
  by (auto simp: sql_update_def)

lemma rebuffer_rows: "snd (fst (rebuffer_fact now i (buf, tab))) = tab \<or>
    snd (fst (rebuffer_fact now i (buf, tab))) = filter (\<lambda>r. fr_fact_id r \<noteq> i) tab"
  by (simp add: rebuffer_fact_def erase_def split: option.split)

text \<open>Relocating one fact: nothing appears in the table that was not there, its place apart.\<close>

lemma relocate_rows:
  assumes "r \<in> set (snd (fst (relocate env row sr)))"
  shows "\<exists>r0 \<in> set (snd (fst sr)). unplaced r = unplaced r0"
proof -
  obtain buf tab rep where sr: "sr = ((buf, tab), rep)" by (cases sr) auto
  let ?given = "snd (fst (rebuffer_fact (ev_now_nanos env) (fr_fact_id row) (buf, tab)))"
  have "snd (fst (relocate env row sr)) = ?given \<or>
    (\<exists>w p s e. snd (fst (relocate env row sr)) = fst (move_to_wiki (ev_now env) (fr_fact_id row) w p s e tab))"
    by (auto simp: relocate_def sr Let_def split: option.splits prod.splits)
  then show ?thesis
  proof
    assume "snd (fst (relocate env row sr)) = ?given"
    then have "r \<in> set ?given" using assms by simp
    then have "r \<in> set tab" using rebuffer_rows [of "ev_now_nanos env" "fr_fact_id row" buf tab] by auto
    then show ?thesis by (auto simp: sr)
  next
    assume "\<exists>w p s e. snd (fst (relocate env row sr)) = fst (move_to_wiki (ev_now env) (fr_fact_id row) w p s e tab)"
    then obtain w p s e where "r \<in> set (fst (move_to_wiki (ev_now env) (fr_fact_id row) w p s e tab))" using assms by auto
    then obtain r0 where "r0 \<in> set tab" "unplaced r = unplaced r0"
      by (auto simp: move_to_wiki_def in_update unplaced_def)
    then show ?thesis by (auto simp: sr)
  qed
qed

lemma fold_relocate_rows:
  "r \<in> set (snd (fst (fold (relocate env) rows sr))) \<Longrightarrow> \<exists>r0 \<in> set (snd (fst sr)). unplaced r = unplaced r0"
proof (induction rows arbitrary: sr)
  case (Cons row rows)
  from Cons.IH [of "relocate env row sr"] Cons.prems
  obtain r1 where r1: "r1 \<in> set (snd (fst (relocate env row sr)))" "unplaced r = unplaced r1" by (metis fold_simps(2))
  from relocate_rows [OF r1(1)] r1(2) show ?case by simp
qed auto

lemma fold_empty_rows:
  "r \<in> set (snd (fst (fold (empty_wiki env) ws sr))) \<Longrightarrow> \<exists>r0 \<in> set (snd (fst sr)). unplaced r = unplaced r0"
proof (induction ws arbitrary: sr)
  case (Cons w ws)
  from Cons.IH [of "empty_wiki env w sr"] Cons.prems
  obtain r1 where r1: "r1 \<in> set (snd (fst (empty_wiki env w sr)))" "unplaced r = unplaced r1" by (metis fold_simps(2))
  from fold_relocate_rows [OF r1(1) [unfolded empty_wiki_def]] r1(2) show ?case by auto
qed auto

section \<open>Nothing names the person\<close>

definition clear_of :: "principal \<Rightarrow> fact_row \<Rightarrow> bool" where
  "clear_of gone r \<longleftrightarrow> fr_subject_id r \<noteq> gone \<and> fr_sender_id r \<noteq> Some gone \<and> gone \<notin> set (fr_allow_ids r)"

lemma fate_about:
  "fr_subject_id row = gone \<Longrightarrow> fate_of row gone = Destroy \<or>
     (\<exists>k. fate_of row gone = HandOver k \<and> k \<noteq> gone \<and> \<not> is_removed k \<and> fr_sender_id row = Some k)"
  by (auto simp: fate_of_def split: option.splits)

lemma sort_fact_rows:
  assumes "r \<in> set (fst (sort_fact env u row (tab, rep)))" "fr_subject_id row = User u" "active r" "fr_subject_id r = User u"
  shows "r \<in> set tab \<and> fr_fact_id r \<noteq> fr_fact_id row"
  using fate_about [OF assms(2)]
proof (elim disjE exE conjE)
  assume f: "fate_of row (User u) = Destroy"
  have "r \<in> set (fst (mark_forgotten (ev_now env) (fr_fact_id row) FORGET_REASON tab))"
    using assms(1) f by (auto simp: sort_fact_def tombstone_fact_def Let_def erase_def split: if_splits)
  then obtain r0 where r0: "r0 \<in> set tab" "r = (if live (fr_fact_id row) r0 then tombstone (ev_now env) FORGET_REASON r0 else r0)"
    by (auto simp: mark_forgotten_def in_update)
  have "\<not> live (fr_fact_id row) r0" using r0(2) assms(3) by (auto simp: tombstone_def active_def)
  with r0 assms(3) show ?thesis by (auto simp: live_def active_def)
next
  fix k assume "fate_of row (User u) = HandOver k" "k \<noteq> User u"
  with assms(1) obtain r0 where r0: "r0 \<in> set tab" "r = (if live (fr_fact_id row) r0
      then r0\<lparr>fr_subject_id := k, fr_subject_external := coalesce (fr_subject_external r0) (Some u),
        fr_updated_at := ev_now env\<rparr> else r0)"
    by (auto simp: sort_fact_def retarget_subject_def in_update)
  have "\<not> live (fr_fact_id row) r0" using r0(2) assms(4) \<open>k \<noteq> User u\<close> by auto
  with r0 assms(3) show ?thesis by (auto simp: live_def active_def)
qed

lemma sort_facts_rows:
  assumes "\<forall>row \<in> set rows. fr_subject_id row = User u"
    and "\<forall>r \<in> set tab. active r \<and> fr_subject_id r = User u \<longrightarrow> fr_fact_id r \<in> fr_fact_id ` set rows"
    and "r \<in> set (fst (fold (sort_fact env u) rows (tab, rep)))" "active r"
  shows "fr_subject_id r \<noteq> User u"
  using assms
proof (induction rows arbitrary: tab rep)
  case (Cons row rows)
  obtain tab' rep' where s: "sort_fact env u row (tab, rep) = (tab', rep')" by fastforce
  have "fr_fact_id x \<in> fr_fact_id ` set rows" if "x \<in> set tab'" "active x" "fr_subject_id x = User u" for x
    using sort_fact_rows [of x env u row tab rep] that s Cons.prems(1,2) by auto
  then show ?case using Cons.IH [of tab' rep'] Cons.prems(1,3,4) s by simp
qed auto

lemma forget_facts_clear:
  assumes "forget_facts env u (buf, tab) = ((buf', tab'), rep)" "u \<noteq> REMOVED_USER_ID" "r \<in> set tab'" "active r"
  shows "clear_of (User u) r"
proof -
  let ?rows = "find_active_by_subject tab (User u)"
  obtain tab1 rep1 where s: "fold (sort_fact env u) ?rows (tab, no_forgetting) = (tab1, rep1)" by fastforce
  let ?tab2 = "fst (replace_sender (ev_now env) (User u) removed_sender tab1)"
  let ?tab3 = "fst (strike_from_allow (ev_now env) (User u) ?tab2)"
  obtain rep3 where "fold (empty_wiki env) (ev_hers env) ((buf, ?tab3), rep3) = ((buf', tab'), rep)"
    using assms(1) s by (auto simp: forget_facts_def case_prod_beta Let_def)
  with assms(3) fold_empty_rows [of r env "ev_hers env" "((buf, ?tab3), rep3)"]
  obtain r3 where r3: "r3 \<in> set ?tab3" "unplaced r = unplaced r3" by auto
  from r3(1) obtain r2 where r2: "r2 \<in> set ?tab2"
      "r3 = (if fr_deleted_at r2 = None \<and> User u \<in> set (fr_allow_ids r2)
        then r2\<lparr>fr_allow_ids := filter (\<lambda>q. q \<noteq> User u) (fr_allow_ids r2), fr_updated_at := ev_now env\<rparr> else r2)"
    by (auto simp: strike_from_allow_def in_update)
  from r2(1) obtain r1 where r1: "r1 \<in> set tab1"
      "r2 = (if fr_sender_id r1 = Some (User u) \<and> fr_deleted_at r1 = None
        then r1\<lparr>fr_sender_id := Some removed_sender, fr_updated_at := ev_now env\<rparr> else r1)"
    by (auto simp: replace_sender_def in_update)
  have "active r3" using assms(4) unplaced_fields(6) [OF r3(2)] by simp
  then have act: "active r1" "active r2" using r1(2) r2(2) by (auto simp: active_def split: if_splits)
  have "fr_subject_id r1 \<noteq> User u"
  proof (rule sort_facts_rows [of ?rows u tab r1 env no_forgetting])
    show "\<forall>row \<in> set ?rows. fr_subject_id row = User u" by (simp add: find_active_by_subject_def)
    show "\<forall>r \<in> set tab. active r \<and> fr_subject_id r = User u \<longrightarrow> fr_fact_id r \<in> fr_fact_id ` set ?rows"
      by (auto simp: find_active_by_subject_def)
    show "r1 \<in> set (fst (fold (sort_fact env u) ?rows (tab, no_forgetting)))" using r1(1) s by simp
  qed (rule act)
  moreover have "removed_sender \<noteq> User u" using assms(2) by (simp add: removed_sender_def)
  ultimately have "clear_of (User u) r3"
    using act r1(2) r2(2) by (auto simp: clear_of_def active_def split: if_splits)
  then show ?thesis using unplaced_fields [OF r3(2)] by (simp add: clear_of_def)
qed

lemma forget_captures_clear:
  assumes "c \<in> set (snd (fst (forget_captures u (User u) removed_sender (ps, buf))))" "u \<noteq> REMOVED_USER_ID"
  shows "\<not> names_person (User u) c"
proof -
  have "removed_sender \<noteq> User u" using assms(2) by (simp add: removed_sender_def)
  with assms(1) show ?thesis
    by (auto simp: forget_captures_def Let_def buffer_delete_def buffer_update_def names_person_def hers_alone_def
        about_her_by_another_def split: if_splits option.splits)
qed


section \<open>The tables after the sweep\<close>

lemma drop_personal_rows_effect:
  shows "column t c (fst (drop_personal_rows u ts)) \<subseteq> column t c ts"
    and "x \<in> set PERSONAL_ROWS \<Longrightarrow> \<not> names_in u x (fst (drop_personal_rows u ts))"
proof -
  let ?jobs = "map (\<lambda>r. r ''job_id'') (filter (\<lambda>r. r ''subject_id'' = CellText (spell u Wire)) (ts ''document_jobs''))"
  let ?ts = "fst (delete_where ''document_job_segments'' (\<lambda>r. r ''job_id'' \<in> set ?jobs) ts)"
  have d: "fst (drop_personal_rows u ts) = fst (fold (\<lambda>x (ts, n). let (ts', k) = delete_personal u x ts in (ts', n + k)) PERSONAL_ROWS (?ts, 0))"
    by (simp add: drop_personal_rows_def Let_def)
  have "column t c (fst (fold (\<lambda>x (ts, n). let (ts', k) = delete_personal u x ts in (ts', n + k)) PERSONAL_ROWS (?ts, 0))) \<subseteq> column t c ts"
    by (rule fold_count_inv [where Q = "\<lambda>v. column t c v \<subseteq> column t c ts"])
      (use delete_personal_effect(1) column_delete in blast)+
  then show "column t c (fst (drop_personal_rows u ts)) \<subseteq> column t c ts" unfolding d .
  show "\<not> names_in u x (fst (drop_personal_rows u ts))" if "x \<in> set PERSONAL_ROWS"
    unfolding d
    by (rule fold_count_each [where Q = "\<lambda>x ts. \<not> names_in u x ts"]) (use that delete_personal_effect in blast)+
qed

lemma audit_of_proposals:
  "\<forall>x \<in> set AUDIT_COLUMNS. fst x = ''structure_proposals'' \<longrightarrow> x = (''structure_proposals'', ''applied_by'', Bare)"
  by (simp add: AUDIT_COLUMNS_def)

lemma anonymise_audit_effect:
  assumes "u \<noteq> REMOVED_USER_ID"
  shows "(\<And>x. x \<in> set AUDIT_COLUMNS \<Longrightarrow> entry_column x \<noteq> (t, c)) \<Longrightarrow>
      column t c (wl_tables (fst (anonymise_audit u w))) = column t c (wl_tables w)"
    and "x \<in> set AUDIT_COLUMNS \<Longrightarrow> fst x \<noteq> ''structure_proposals'' \<Longrightarrow> \<not> names_in u x (wl_tables (fst (anonymise_audit u w)))"
    and "p \<in> set (wl_proposals (fst (anonymise_audit u w))) \<Longrightarrow> pr_applied_by p \<noteq> Some u"
proof -
  show "column t c (wl_tables (fst (anonymise_audit u w))) = column t c (wl_tables w)"
    if "\<And>x. x \<in> set AUDIT_COLUMNS \<Longrightarrow> entry_column x \<noteq> (t, c)"
    unfolding anonymise_audit_def
    by (rule fold_count_inv [where Q = "\<lambda>v. column t c (wl_tables v) = column t c (wl_tables w)"])
      (use anonymise_column_other that in simp_all)
  show "\<not> names_in u x (wl_tables (fst (anonymise_audit u w)))"
    if x: "x \<in> set AUDIT_COLUMNS" "fst x \<noteq> ''structure_proposals''"
    unfolding anonymise_audit_def
  proof (rule fold_count_each [where Q = "\<lambda>x w. \<not> names_in u x (wl_tables w)"])
    show "\<not> names_in u x (wl_tables (fst (anonymise_column u x w)))" for w
      by (rule anonymise_column_this [OF assms x(2)])
    show "\<not> names_in u x (wl_tables (fst (anonymise_column u y w)))"
      if "y \<in> set AUDIT_COLUMNS" "\<not> names_in u x (wl_tables w)" for y w
    proof (cases "y = x")
      case False
      then have "entry_column y \<noteq> (fst x, fst (snd x))"
        using same_entry [OF that(1) x(1)] by (auto simp: entry_column_def)
      then show ?thesis using anonymise_column_other that(2) by simp
    qed (use anonymise_column_this [OF assms x(2)] in simp)
  qed (rule x(1))
  have keep: "\<forall>p \<in> set (wl_proposals (fst (anonymise_column u y w))). pr_applied_by p \<noteq> Some u"
    if y: "y \<in> set AUDIT_COLUMNS" and p: "\<forall>p \<in> set (wl_proposals w). pr_applied_by p \<noteq> Some u" for y w
  proof (cases "fst y = ''structure_proposals''")
    case True
    with y audit_of_proposals have "y = (''structure_proposals'', ''applied_by'', Bare)" by blast
    then show ?thesis by (intro ballI) (use anonymise_column_proposals [OF assms, where form = Bare] in simp)
  next
    case False
    obtain t c form where "y = (t, c, form)" by (cases y) auto
    then show ?thesis using p False by (simp add: anonymise_column_simps(8))
  qed
  have "\<forall>p \<in> set (wl_proposals (fst (anonymise_audit u w))). pr_applied_by p \<noteq> Some u"
    unfolding anonymise_audit_def
  proof (rule fold_count_each [where Q = "\<lambda>x w. \<forall>p \<in> set (wl_proposals w). pr_applied_by p \<noteq> Some u" and
        x = "(''structure_proposals'', ''applied_by'', Bare)"])
    show "\<forall>p \<in> set (wl_proposals (fst (anonymise_column u (''structure_proposals'', ''applied_by'', Bare) w))).
        pr_applied_by p \<noteq> Some u" for w
      by (intro ballI) (use anonymise_column_proposals [OF assms, where form = Bare] in simp)
    show "\<forall>p \<in> set (wl_proposals (fst (anonymise_column u y w))). pr_applied_by p \<noteq> Some u"
      if "y \<in> set AUDIT_COLUMNS" "\<forall>p \<in> set (wl_proposals w). pr_applied_by p \<noteq> Some u" for y w
      by (rule keep [OF that])
  qed (simp add: AUDIT_COLUMNS_def)
  then show "p \<in> set (wl_proposals (fst (anonymise_audit u w))) \<Longrightarrow> pr_applied_by p \<noteq> Some u" by blast
qed

lemma strike_from_lists_effect:
  shows "(\<And>x. x \<in> set MEMBERSHIP_LISTS \<Longrightarrow> entry_column x \<noteq> (t, c)) \<Longrightarrow>
      column t c (wl_tables (fst (strike_from_lists u w))) = column t c (wl_tables w)"
    and "x \<in> set MEMBERSHIP_LISTS \<Longrightarrow> fst x \<noteq> ''capture_buffer'' \<Longrightarrow> \<not> grants_in u x (wl_tables (fst (strike_from_lists u w)))"
    and "\<forall>r \<in> set (wl_buf w). \<not> names_person (User u) r \<Longrightarrow>
      \<forall>r \<in> set (wl_buf (fst (strike_from_lists u w))). \<not> names_person (User u) r \<and> User u \<notin> set (cb_allow r)"
proof -
  show "column t c (wl_tables (fst (strike_from_lists u w))) = column t c (wl_tables w)"
    if "\<And>x. x \<in> set MEMBERSHIP_LISTS \<Longrightarrow> entry_column x \<noteq> (t, c)"
    unfolding strike_from_lists_def
    by (rule fold_count_inv [where Q = "\<lambda>v. column t c (wl_tables v) = column t c (wl_tables w)"])
      (use strike_column_other that in simp_all)
  show "\<not> grants_in u x (wl_tables (fst (strike_from_lists u w)))"
    if x: "x \<in> set MEMBERSHIP_LISTS" "fst x \<noteq> ''capture_buffer''"
    unfolding strike_from_lists_def
  proof (rule fold_count_each [where Q = "\<lambda>x w. \<not> grants_in u x (wl_tables w)"])
    show "\<not> grants_in u x (wl_tables (fst (strike_column u x w)))" for w
      by (rule strike_column_this [OF x(2)])
    show "\<not> grants_in u x (wl_tables (fst (strike_column u y w)))"
      if "y \<in> set MEMBERSHIP_LISTS" "\<not> grants_in u x (wl_tables w)" for y w
    proof (cases "y = x")
      case False
      then have "entry_column y \<noteq> (fst x, fst (snd x))"
        using same_entry [OF that(1) x(1)] by (auto simp: entry_column_def)
      then show ?thesis using strike_column_other that(2) by simp
    qed (use strike_column_this [OF x(2)] in simp)
  qed (rule x(1))
  assume b: "\<forall>r \<in> set (wl_buf w). \<not> names_person (User u) r"
  have "\<forall>r \<in> set (wl_buf (fst (strike_from_lists u w))). \<not> names_person (User u) r"
    unfolding strike_from_lists_def
    by (rule fold_count_inv [where Q = "\<lambda>w. \<forall>r \<in> set (wl_buf w). \<not> names_person (User u) r"])
      (use b in \<open>auto simp: strike_column_buffer names_person_def split: if_splits\<close>)
  moreover have "\<forall>r \<in> set (wl_buf (fst (strike_from_lists u w))). User u \<notin> set (cb_allow r)"
    unfolding strike_from_lists_def
    by (rule fold_count_each [where Q = "\<lambda>x w. \<forall>r \<in> set (wl_buf w). User u \<notin> set (cb_allow r)" and
          x = "(''capture_buffer'', ''allow_ids'', Wire)"])
      (auto simp: strike_column_buffer MEMBERSHIP_LISTS_def split: if_splits)
  ultimately show "\<forall>r \<in> set (wl_buf (fst (strike_from_lists u w))). \<not> names_person (User u) r \<and> User u \<notin> set (cb_allow r)"
    by blast
qed


section \<open>The erasure is whole\<close>

lemma strike_from_lists_frame:
  "wl_facts (fst (strike_from_lists u w)) = wl_facts w" "wl_proposals (fst (strike_from_lists u w)) = wl_proposals w"
  "wl_users (fst (strike_from_lists u w)) = wl_users w" "wl_events (fst (strike_from_lists u w)) = wl_events w"
  "wl_forgotten (fst (strike_from_lists u w)) = wl_forgotten w"
  unfolding strike_from_lists_def by (rule fold_count_keeps; simp add: strike_column_simps)+

lemma anonymise_audit_frame:
  "wl_facts (fst (anonymise_audit u w)) = wl_facts w" "wl_buf (fst (anonymise_audit u w)) = wl_buf w"
  "wl_users (fst (anonymise_audit u w)) = wl_users w" "wl_events (fst (anonymise_audit u w)) = wl_events w"
  "wl_forgotten (fst (anonymise_audit u w)) = wl_forgotten w"
  unfolding anonymise_audit_def by (rule fold_count_keeps; simp add: anonymise_column_simps)+

lemma anonymise_audit_recipients:
  "\<forall>p \<in> set (wl_proposals w). pr_recipient_id p \<noteq> x \<Longrightarrow>
   \<forall>p \<in> set (wl_proposals (fst (anonymise_audit u w))). pr_recipient_id p \<noteq> x"
  unfolding anonymise_audit_def
  by (rule fold_count_inv [where Q = "\<lambda>w. \<forall>p \<in> set (wl_proposals w). pr_recipient_id p \<noteq> x"])
    (auto simp: anonymise_column_def Let_def split: prod.splits if_splits)

lemma remove_user_fst:
  "fst (remove_user u w) =
     (if u \<notin> fst ` set (wl_users w) then w
      else w\<lparr>wl_tables := fst (delete_where ''recent_exchanges'' (\<lambda>r. r ''user_id'' = CellText u)
          (fst (delete_where ''webagentoauth_refresh'' (\<lambda>r. r ''sender_id'' = CellText u)
            (fst (delete_where ''webagentoauth_codes'' (\<lambda>r. r ''sender_id'' = CellText u)
              (fold dismantle_consumer
                (List.map_filter (\<lambda>r. if r ''system_user_id'' = CellText u then cell_text (r ''consumer_id'') else None)
                  (wl_tables w ''consumers'')) (wl_tables w))))))),
        wl_users := filter (\<lambda>v. fst v \<noteq> u) (wl_users w)\<rparr>)"
  unfolding remove_user_def Let_def by (simp only: split_beta fst_conv if_distrib [of fst])

lemma remove_user_frame:
  "wl_facts (fst (remove_user u w)) = wl_facts w" "wl_buf (fst (remove_user u w)) = wl_buf w"
  "wl_proposals (fst (remove_user u w)) = wl_proposals w" "wl_events (fst (remove_user u w)) = wl_events w"
  "wl_forgotten (fst (remove_user u w)) = wl_forgotten w"
  by (simp_all add: remove_user_fst)

lemma remove_user_users: "u \<notin> fst ` set (wl_users (fst (remove_user u w)))"
  by (auto simp: remove_user_fst)

lemma fold_column_subset:
  "(\<And>x ts. column t c (f x ts) \<subseteq> column t c ts) \<Longrightarrow> column t c (fold f xs ts) \<subseteq> column t c ts"
proof (induction xs arbitrary: ts)
  case (Cons x xs)
  from Cons.IH [OF Cons.prems, of "f x ts"] Cons.prems [of x ts] show ?case by auto
qed simp

lemma remove_user_columns: "column t c (wl_tables (fst (remove_user u w))) \<subseteq> column t c (wl_tables w)"
proof (cases "u \<in> fst ` set (wl_users w)")
  case True
  let ?mine = "List.map_filter (\<lambda>r. if r ''system_user_id'' = CellText u then cell_text (r ''consumer_id'') else None)
    (wl_tables w ''consumers'')"
  let ?ts1 = "fold dismantle_consumer ?mine (wl_tables w)"
  have d: "column t c (dismantle_consumer x ts) \<subseteq> column t c ts" for x ts
    unfolding dismantle_consumer_def by (intro fold_column_subset column_delete)
  have "column t c (wl_tables (fst (remove_user u w))) \<subseteq> column t c ?ts1"
    using True column_delete by (simp add: remove_user_fst) (blast dest: subsetD [OF column_delete])
  also have "\<dots> \<subseteq> column t c (wl_tables w)" by (intro fold_column_subset d)
  finally show ?thesis .
qed (simp add: remove_user_def)

lemma tombstone_wikis_rows:
  "r \<in> set (fst (tombstone_wikis now ws tab)) \<Longrightarrow> active r \<Longrightarrow> r \<in> set tab"
proof -
  assume a: "active r" and r: "r \<in> set (fst (tombstone_wikis now ws tab))"
  have "\<forall>r \<in> set (fst (tombstone_wikis now ws tab)). active r \<longrightarrow> r \<in> set tab"
    unfolding tombstone_wikis_def
    by (rule fold_count_inv [where Q = "\<lambda>x. \<forall>r \<in> set x. active r \<longrightarrow> r \<in> set tab"])
      (auto simp: mark_forgotten_in_wiki_def in_update tombstone_def active_def split: if_splits)
  with a r show ?thesis by blast
qed

definition swept :: "erasure_env \<Rightarrow> string \<Rightarrow> memory_world \<Rightarrow> memory_world" where
  "swept env u w = fst (strike_from_lists u (fst (anonymise_audit u (fst (drop_notices env (User u)
     (w\<lparr>wl_tables := fst (drop_personal_rows u (wl_tables w))\<rparr>))))))"

lemma forget_user_steps:
  assumes "forget_user env u w = (w', Inr (Some rep))"
  obtains buf1 tab1 rep1 ps1 buf2 cap w5 w7 where
    "forget_facts env u (wl_buf w, wl_facts w) = ((buf1, tab1), rep1)"
    "forget_captures u (User u) removed_sender (wl_proposals w, buf1) = ((ps1, buf2), cap)"
    "w5 = swept env u (w\<lparr>wl_facts := tab1, wl_buf := buf2, wl_proposals := ps1\<rparr>)"
    "w7 = fst (remove_user u (w5\<lparr>wl_forgotten := record_forgotten_id u (wl_forgotten w5)\<rparr>))"
    "w' = w7\<lparr>wl_facts := fst (tombstone_wikis (ev_now env) (ev_hers env) (wl_facts w7))\<rparr>"
proof -
  obtain buf1 tab1 rep1 where f: "forget_facts env u (wl_buf w, wl_facts w) = ((buf1, tab1), rep1)"
    by (metis prod.exhaust)
  obtain ps1 buf2 cap where c: "forget_captures u (User u) removed_sender (wl_proposals w, buf1) = ((ps1, buf2), cap)"
    by (metis prod.exhaust)
  show ?thesis
    by (rule that [OF f c refl refl])
      (use assms f c in \<open>auto simp: forget_user_def swept_def case_prod_beta Let_def split: option.splits bool.splits\<close>)
qed

lemma swept_frame:
  "wl_facts (swept env u w) = wl_facts w" "wl_users (swept env u w) = wl_users w"
  "wl_forgotten (swept env u w) = wl_forgotten w"
  by (simp_all add: swept_def strike_from_lists_frame anonymise_audit_frame drop_notices_def Let_def)

lemma swept_buffer:
  "\<forall>r \<in> set (wl_buf w). \<not> names_person (User u) r \<Longrightarrow>
   \<forall>r \<in> set (wl_buf (swept env u w)). \<not> names_person (User u) r \<and> User u \<notin> set (cb_allow r)"
  unfolding swept_def
  by (rule strike_from_lists_effect(3)) (simp add: anonymise_audit_frame drop_notices_def Let_def)

lemma swept_notices:
  assumes "u \<noteq> REMOVED_USER_ID"
  shows "(\<forall>p \<in> set (wl_proposals (swept env u w)).
      pr_recipient_id p \<noteq> Some (principal_to_string (User u)) \<and> pr_applied_by p \<noteq> Some u) \<and>
    (\<forall>e \<in> set (wl_events (swept env u w)). event_recipient env e \<noteq> RecipientText (principal_to_string (User u)))"
proof -
  let ?w3 = "fst (drop_notices env (User u) (w\<lparr>wl_tables := fst (drop_personal_rows u (wl_tables w))\<rparr>))"
  have "\<forall>p \<in> set (wl_proposals ?w3). pr_recipient_id p \<noteq> Some (principal_to_string (User u))"
    "\<forall>e \<in> set (wl_events ?w3). event_recipient env e \<noteq> RecipientText (principal_to_string (User u))"
    by (auto simp: drop_notices_def Let_def)
  with anonymise_audit_recipients [OF this(1), of u] anonymise_audit_effect(3) [OF assms] show ?thesis
    unfolding swept_def strike_from_lists_frame anonymise_audit_frame by blast
qed

lemma swept_tables:
  assumes "u \<noteq> REMOVED_USER_ID"
  shows "x \<in> set PERSONAL_ROWS \<Longrightarrow> \<not> names_in u x (wl_tables (swept env u w))"
    and "x \<in> set AUDIT_COLUMNS \<Longrightarrow> fst x \<noteq> ''structure_proposals'' \<Longrightarrow> \<not> names_in u x (wl_tables (swept env u w))"
    and "x \<in> set MEMBERSHIP_LISTS \<Longrightarrow> fst x \<noteq> ''capture_buffer'' \<Longrightarrow> \<not> grants_in u x (wl_tables (swept env u w))"
proof -
  let ?ts = "fst (drop_personal_rows u (wl_tables w))"
  let ?w3 = "fst (drop_notices env (User u) (w\<lparr>wl_tables := ?ts\<rparr>))"
  have t3: "wl_tables ?w3 = ?ts" by (simp add: drop_notices_def Let_def)
  let ?w4 = "fst (anonymise_audit u ?w3)"
  have s: "swept env u w = fst (strike_from_lists u ?w4)" by (simp add: swept_def)
  have keep5: "column (fst x) (fst (snd x)) (wl_tables (swept env u w)) = column (fst x) (fst (snd x)) (wl_tables ?w4)"
    if "x \<in> set PERSONAL_ROWS \<or> x \<in> set AUDIT_COLUMNS" for x
    unfolding s by (rule strike_from_lists_effect(1), rule other_entry_column) (use that in blast)
  show "\<not> names_in u x (wl_tables (swept env u w))" if "x \<in> set PERSONAL_ROWS"
  proof -
    have "column (fst x) (fst (snd x)) (wl_tables ?w4) = column (fst x) (fst (snd x)) (wl_tables ?w3)"
      by (rule anonymise_audit_effect(1) [OF assms], rule other_entry_column) (use that in blast)
    then show ?thesis using keep5 that drop_personal_rows_effect(2) [OF that] t3 by simp
  qed
  show "\<not> names_in u x (wl_tables (swept env u w))" if "x \<in> set AUDIT_COLUMNS" "fst x \<noteq> ''structure_proposals''"
    using keep5 anonymise_audit_effect(2) [OF assms that] that(1) by simp
  show "\<not> grants_in u x (wl_tables (swept env u w))" if "x \<in> set MEMBERSHIP_LISTS" "fst x \<noteq> ''capture_buffer''"
    unfolding s by (rule strike_from_lists_effect(2) [OF that])
qed

text \<open>
  C6: an erasure that returns leaves the person nowhere it looks. The account is gone and its id spent; no
  active fact and no waiting claim has the person as its subject, its sender or a reader; no notice or proposal is
  addressed to them or records that they applied it; and none of the columns of the three lists names them.
\<close>

theorem forgotten_person_is_nowhere:
  assumes "forget_user env u w = (w', Inr (Some rep))" "u \<noteq> REMOVED_USER_ID"
  shows "u \<notin> fst ` set (wl_users w') \<and> is_forgotten u (wl_forgotten w') \<and>
    (\<forall>r \<in> set (wl_facts w'). active r \<longrightarrow> clear_of (User u) r) \<and>
    (\<forall>c \<in> set (wl_buf w'). \<not> names_person (User u) c \<and> User u \<notin> set (cb_allow c)) \<and>
    (\<forall>p \<in> set (wl_proposals w').
      pr_recipient_id p \<noteq> Some (principal_to_string (User u)) \<and> pr_applied_by p \<noteq> Some u) \<and>
    (\<forall>e \<in> set (wl_events w'). event_recipient env e \<noteq> RecipientText (principal_to_string (User u))) \<and>
    (\<forall>x \<in> set PERSONAL_ROWS \<union> {x \<in> set AUDIT_COLUMNS. fst x \<noteq> ''structure_proposals''}. \<not> names_in u x (wl_tables w')) \<and>
    (\<forall>x \<in> {x \<in> set MEMBERSHIP_LISTS. fst x \<noteq> ''capture_buffer''}. \<not> grants_in u x (wl_tables w'))"
proof -
  obtain buf1 tab1 rep1 ps1 buf2 cap w5 w7 where s:
    "forget_facts env u (wl_buf w, wl_facts w) = ((buf1, tab1), rep1)"
    "forget_captures u (User u) removed_sender (wl_proposals w, buf1) = ((ps1, buf2), cap)"
    "w5 = swept env u (w\<lparr>wl_facts := tab1, wl_buf := buf2, wl_proposals := ps1\<rparr>)"
    "w7 = fst (remove_user u (w5\<lparr>wl_forgotten := record_forgotten_id u (wl_forgotten w5)\<rparr>))"
    "w' = w7\<lparr>wl_facts := fst (tombstone_wikis (ev_now env) (ev_hers env) (wl_facts w7))\<rparr>"
    by (rule forget_user_steps [OF assms(1)]) (rule that)
  have users: "u \<notin> fst ` set (wl_users w')" unfolding s(5) s(4) using remove_user_users by simp
  have spent: "is_forgotten u (wl_forgotten w')"
    by (simp add: s(4,5) remove_user_frame record_forgotten_id_def is_forgotten_def)
  have facts: "clear_of (User u) r" if "r \<in> set (wl_facts w')" "active r" for r
  proof -
    have "wl_facts w7 = tab1" by (simp add: s(3,4) remove_user_frame swept_frame)
    with that have "r \<in> set tab1"
      using tombstone_wikis_rows [of r "ev_now env" "ev_hers env" tab1] by (simp add: s(5))
    from forget_facts_clear [OF s(1) assms(2) this that(2)] show ?thesis .
  qed
  have "\<forall>c \<in> set buf2. \<not> names_person (User u) c"
    using forget_captures_clear [of _ u "wl_proposals w" buf1] assms(2) s(2) by simp
  then have buf: "\<forall>c \<in> set (wl_buf w'). \<not> names_person (User u) c \<and> User u \<notin> set (cb_allow c)"
    using swept_buffer [of "w\<lparr>wl_facts := tab1, wl_buf := buf2, wl_proposals := ps1\<rparr>" u env]
    by (simp add: s(3-5) remove_user_frame)
  have told: "(\<forall>p \<in> set (wl_proposals w').
      pr_recipient_id p \<noteq> Some (principal_to_string (User u)) \<and> pr_applied_by p \<noteq> Some u) \<and>
    (\<forall>e \<in> set (wl_events w'). event_recipient env e \<noteq> RecipientText (principal_to_string (User u)))"
    using swept_notices [OF assms(2)] by (simp add: s(3-5) remove_user_frame)
  have col: "column t c (wl_tables w') \<subseteq> column t c (wl_tables w5)" for t c
    using remove_user_columns [of t c u "w5\<lparr>wl_forgotten := record_forgotten_id u (wl_forgotten w5)\<rparr>"]
    by (simp add: s(4,5))
  have rows: "\<not> names_in u x (wl_tables w')"
    if "x \<in> set PERSONAL_ROWS \<union> {x \<in> set AUDIT_COLUMNS. fst x \<noteq> ''structure_proposals''}" for x
    using that swept_tables(1,2) [OF assms(2)] subsetD [OF col] unfolding s(3) by blast
  have lists: "\<not> grants_in u x (wl_tables w')"
    if "x \<in> {x \<in> set MEMBERSHIP_LISTS. fst x \<noteq> ''capture_buffer''}" for x
    using that swept_tables(3) [OF assms(2)] subsetD [OF col] unfolding s(3) by blast
  show ?thesis using users spent facts buf told rows lists by blast
qed

lemma forget_user_returns:
  "map_of (wl_users w) u = Some False \<Longrightarrow> \<exists>rep. forget_user env u w = (fst (forget_user env u w), Inr (Some rep))"
  by (simp add: forget_user_def case_prod_beta Let_def)

text \<open>A house of two: what Bob told of himself, and what Ann told of Bob.\<close>

definition house_env :: erasure_env where
  "house_env = \<lparr>ev_now = ''t9'', ev_now_nanos = 9, ev_hers = [''bob''],
     ev_place = (\<lambda>w. if wiki_id_str w \<in> {''ann'', ''bob''} then Some \<lparr>wp_rel_dir = wiki_id_str w, wp_smart = False\<rparr> else None),
     ev_strip = (\<lambda>_. True), ev_refile = (\<lambda>_ _ d p. Some (wiki_id_str d @ ''/'' @ p, 0, 5)), ev_slug = Inr,
     ev_json = (\<lambda>_. None)\<rparr>"

definition bobs_own :: fact_row where
  "bobs_own = row_a\<lparr>fr_subject_id := User ''bob'', fr_sender_id := Some (User ''bob''), fr_wiki_id := ''bob''\<rparr>"

definition anns_of_bob :: fact_row where
  "anns_of_bob = row_b\<lparr>fr_subject_id := User ''bob'', fr_sender_id := Some (User ''ann''), fr_wiki_id := ''bob''\<rparr>"

definition house :: memory_world where
  "house = \<lparr>wl_users = [(''ann'', True), (''bob'', False)], wl_forgotten = [], wl_facts = [bobs_own, anns_of_bob],
     wl_buf = [], wl_proposals = [], wl_events = [], wl_tables = (\<lambda>_. [])\<rparr>"

theorem forgotten_person_is_nowhere_witness:
  "''bob'' \<notin> fst ` set (wl_users (fst (forget_user house_env ''bob'' house))) \<and>
   is_forgotten ''bob'' (wl_forgotten (fst (forget_user house_env ''bob'' house)))"
proof -
  have "map_of (wl_users house) ''bob'' = Some False" by (simp add: house_def)
  from forget_user_returns [OF this] obtain rep where
    r: "forget_user house_env ''bob'' house = (fst (forget_user house_env ''bob'' house), Inr (Some rep))" by blast
  show ?thesis using forgotten_person_is_nowhere [OF r] by (simp add: REMOVED_USER_ID_def)
qed

end
