(* ===== verification/Mwe_Kept.thy ===== *)
theory Mwe_Kept
  imports Mwe_Erasure
begin

text \<open>
  The other half of an erasure: what it must not take. One fact of somebody else is followed through every step
  of \<^const>\<open>forget_user\<close>, from the table of facts to the queue when no wiki will have it.
\<close>

section \<open>What was somebody else's is kept\<close>

definition has_fact :: "fact_id \<Rightarrow> string \<Rightarrow> fact_table \<Rightarrow> bool" where
  "has_fact i said tab \<longleftrightarrow> (\<exists>r \<in> set tab. fr_fact_id r = i \<and> fr_text r = said \<and> active r)"

definition waits :: "fact_id \<Rightarrow> string \<Rightarrow> principal \<Rightarrow> buffer \<Rightarrow> bool" where
  "waits i said gone buf \<longleftrightarrow>
     (\<exists>c \<in> set buf. cb_capture_id c = i \<and> cb_body c = said \<and> cb_status c = Buffered \<and> \<not> hers_alone gone removed_sender c)"

text \<open>The rows of the buffer that share the fact's id say the same, and are not the person's alone.\<close>

definition echoes :: "fact_id \<Rightarrow> string \<Rightarrow> principal \<Rightarrow> buffer \<Rightarrow> bool" where
  "echoes i said gone buf \<longleftrightarrow>
     (\<forall>c \<in> set buf. cb_capture_id c = i \<longrightarrow> cb_body c = said \<and> \<not> hers_alone gone removed_sender c)"

definition kept :: "fact_id \<Rightarrow> string \<Rightarrow> principal \<Rightarrow> shelf \<Rightarrow> bool" where
  "kept i said gone sh \<longleftrightarrow>
     distinct (map fr_fact_id (snd sh)) \<and> echoes i said gone (fst sh) \<and>
     (\<forall>r \<in> set (snd sh). active r \<longrightarrow> fr_subject_id r \<noteq> gone) \<and> (has_fact i said (snd sh) \<or> waits i said gone (fst sh))"

lemma sort_fact_keeps:
  assumes "has_fact i said tab" "fr_fact_id row = i \<Longrightarrow> fate_of row (User u) \<noteq> Destroy"
  shows "has_fact i said (fst (sort_fact env u row (tab, rep)))"
proof -
  from assms(1) obtain r where r: "r \<in> set tab" "fr_fact_id r = i" "fr_text r = said" "active r"
    by (auto simp: has_fact_def)
  show ?thesis
  proof (cases "fate_of row (User u)")
    case Destroy
    with assms(2) r(2) have ne: "\<not> live (fr_fact_id row) r" "fr_fact_id r \<noteq> fr_fact_id row" by (auto simp: live_def)
    then have "r \<in> set (fst (mark_forgotten (ev_now env) (fr_fact_id row) FORGET_REASON tab))"
      using r(1) by (auto simp: mark_forgotten_def in_update)
    then have "r \<in> set (fst (sort_fact env u row (tab, rep)))"
      using Destroy ne(2) by (auto simp: sort_fact_def tombstone_fact_def Let_def erase_def)
    with r show ?thesis by (auto simp: has_fact_def)
  next
    case (HandOver k)
    let ?f = "\<lambda>r. r\<lparr>fr_subject_id := k, fr_subject_external := coalesce (fr_subject_external r) (Some u),
        fr_updated_at := ev_now env\<rparr>"
    let ?r = "if live (fr_fact_id row) r then ?f r else r"
    have "?r \<in> set (fst (sort_fact env u row (tab, rep)))"
      using HandOver r(1) by (auto simp: sort_fact_def retarget_subject_def in_update)
    moreover have "fr_fact_id ?r = i" "fr_text ?r = said" "active ?r" using r(2-4) by (simp_all add: active_def)
    ultimately show ?thesis unfolding has_fact_def by blast
  qed (use assms(1) in \<open>simp_all add: sort_fact_def\<close>)
qed

lemma sort_facts_keep:
  assumes "has_fact i said tab" "\<forall>row \<in> set rows. fr_fact_id row = i \<longrightarrow> fate_of row (User u) \<noteq> Destroy"
  shows "has_fact i said (fst (fold (sort_fact env u) rows (tab, rep)))"
  using assms
proof (induction rows arbitrary: tab rep)
  case (Cons row rows)
  obtain tab' rep' where "sort_fact env u row (tab, rep) = (tab', rep')" by fastforce
  with Cons.IH [of tab' rep'] Cons.prems sort_fact_keeps [of i said tab row u env rep] show ?case by simp
qed simp

lemma sort_fact_ids: "distinct (map fr_fact_id tab) \<Longrightarrow> distinct (map fr_fact_id (fst (sort_fact env u row (tab, rep))))"
  by (cases "fate_of row (User u)")
    (auto simp: sort_fact_def tombstone_fact_def Let_def erase_def mark_forgotten_def retarget_subject_def tombstone_def
      sql_update_ids distinct_map_filter)

lemma sort_facts_ids:
  "distinct (map fr_fact_id tab) \<Longrightarrow> distinct (map fr_fact_id (fst (fold (sort_fact env u) rows (tab, rep))))"
proof (induction rows arbitrary: tab rep)
  case (Cons row rows)
  obtain tab' rep' where "sort_fact env u row (tab, rep) = (tab', rep')" by fastforce
  with Cons.IH [of tab' rep'] Cons.prems sort_fact_ids [of tab env u row rep] show ?case by simp
qed simp

lemma has_fact_update:
  assumes "has_fact i said tab" "\<And>r. fr_fact_id (f r) = fr_fact_id r \<and> fr_text (f r) = fr_text r \<and> active (f r) = active r"
  shows "has_fact i said (fst (sql_update P f tab))"
proof -
  from assms(1) obtain r where r: "r \<in> set tab" "fr_fact_id r = i" "fr_text r = said" "active r" by (auto simp: has_fact_def)
  then have "(if P r then f r else r) \<in> set (fst (sql_update P f tab))" by (auto simp: sql_update_def)
  with r assms(2) [of r] show ?thesis unfolding has_fact_def by (intro bexI) auto
qed

lemma rebuffer_keeps:
  assumes "kept i said gone (buf, tab)"
  shows "kept i said gone (fst (rebuffer_fact now j (buf, tab)))"
proof (cases "find_by_id tab j")
  case None
  with assms show ?thesis by (simp add: rebuffer_fact_def)
next
  case (Some row)
  then have row: "row \<in> set tab" "fr_fact_id row = j" by (auto simp: find_by_id_def find_Some_iff)
  show ?thesis
  proof (cases "fr_deleted_at row")
    case (Some d)
    with \<open>find_by_id tab j = Some row\<close> assms show ?thesis by (simp add: rebuffer_fact_def)
  next
    case None
    let ?c = "rebuffered now row" and ?tab = "filter (\<lambda>r. fr_fact_id r \<noteq> j) tab"
    let ?g = "\<lambda>r. if cb_capture_id r = j
      then r\<lparr>cb_status := Buffered, cb_processed_at := None, cb_resolved_fact_id := None\<rparr> else r"
    have res: "fst (rebuffer_fact now j (buf, tab)) = (upsert_rebuffered ?c buf, ?tab)"
      using Some None by (simp add: rebuffer_fact_def erase_def)
    have up: "upsert_rebuffered ?c buf = (if j \<in> set (map cb_capture_id buf) then map ?g buf else buf @ [?c])"
      using row(2) by (simp add: upsert_rebuffered_def rebuffered_def)
    have d: "distinct (map fr_fact_id tab)" and ec: "echoes i said gone buf"
      and su: "\<forall>r \<in> set tab. active r \<longrightarrow> fr_subject_id r \<noteq> gone" and k: "has_fact i said tab \<or> waits i said gone buf"
      using assms by (simp_all add: kept_def)
    have w_up: "waits i said gone (upsert_rebuffered ?c buf)" if "waits i said gone buf"
    proof -
      from that obtain c where c: "c \<in> set buf" "cb_capture_id c = i" "cb_body c = said" "cb_status c = Buffered"
          "\<not> hers_alone gone removed_sender c" by (auto simp: waits_def)
      have "?g c \<in> set (map ?g buf)" using c(1) by simp
      moreover have "cb_capture_id (?g c) = i" "cb_body (?g c) = said" "cb_status (?g c) = Buffered"
          "\<not> hers_alone gone removed_sender (?g c)" using c by (simp_all add: hers_alone_def)
      ultimately have "waits i said gone (map ?g buf)" unfolding waits_def by blast
      moreover have "waits i said gone (buf @ [?c])" using that by (auto simp: waits_def)
      ultimately show ?thesis by (simp add: up)
    qed
    have here: "i = j" "fr_text row = said" "active row" if "has_fact i said tab" "\<not> has_fact i said ?tab"
    proof -
      from that(1) obtain r where r: "r \<in> set tab" "fr_fact_id r = i" "fr_text r = said" "active r" by (auto simp: has_fact_def)
      with that(2) show "i = j" by (auto simp: has_fact_def)
      with r row d have "r = row" by (simp add: distinct_map inj_on_def)
      with r show "fr_text row = said" "active row" by simp_all
    qed
    have now_waits: "waits i said gone (upsert_rebuffered ?c buf)" if "has_fact i said tab" "\<not> has_fact i said ?tab"
    proof (cases "j \<in> set (map cb_capture_id buf)")
      case True
      then obtain c where c: "c \<in> set buf" "cb_capture_id c = j" by auto
      then have "?g c \<in> set (map ?g buf)" "cb_capture_id (?g c) = i" "cb_body (?g c) = said" "cb_status (?g c) = Buffered"
          "\<not> hers_alone gone removed_sender (?g c)"
        using ec here(1) [OF that] by (auto simp: echoes_def hers_alone_def)
      with True show ?thesis unfolding up waits_def by auto
    next
      case False
      have "fr_subject_id row \<noteq> gone" using su row(1) here(3) [OF that] by blast
      then have "cb_capture_id ?c = i" "cb_body ?c = said" "cb_status ?c = Buffered" "\<not> hers_alone gone removed_sender ?c"
        using here [OF that] row(2) by (simp_all add: rebuffered_def hers_alone_def)
      with False show ?thesis unfolding up waits_def by auto
    qed
    have "echoes i said gone (upsert_rebuffered ?c buf)"
      unfolding up echoes_def
    proof (intro ballI impI)
      fix c assume c: "c \<in> set (if j \<in> set (map cb_capture_id buf) then map ?g buf else buf @ [?c])" "cb_capture_id c = i"
      show "cb_body c = said \<and> \<not> hers_alone gone removed_sender c"
      proof (cases "c = ?c \<and> j \<notin> set (map cb_capture_id buf)")
        case True
        then have "i = j" using c(2) row(2) by (simp add: rebuffered_def)
        with True have "\<not> waits i said gone buf" by (auto simp: waits_def)
        with k have h: "has_fact i said tab" by simp
        then have "\<not> has_fact i said ?tab" using \<open>i = j\<close> by (auto simp: has_fact_def)
        from here [OF h this] su row(1) True show ?thesis by (simp add: rebuffered_def hers_alone_def)
      next
        case False
        then obtain c0 where "c0 \<in> set buf" "c = ?g c0 \<or> c = c0" using c(1) by (auto split: if_splits)
        then show ?thesis using ec c(2) by (auto simp: echoes_def hers_alone_def split: if_splits)
      qed
    qed
    moreover have "distinct (map fr_fact_id ?tab)" using d by (simp add: distinct_map_filter)
    moreover have "\<forall>r \<in> set ?tab. active r \<longrightarrow> fr_subject_id r \<noteq> gone" using su by simp
    moreover have "has_fact i said ?tab \<or> waits i said gone (upsert_rebuffered ?c buf)"
      using k w_up now_waits by blast
    ultimately show ?thesis unfolding kept_def res fst_conv snd_conv by blast
  qed
qed

lemma move_keeps:
  assumes "kept i said gone (buf, tab)"
  shows "kept i said gone (buf, fst (move_to_wiki now j w p s e tab))"
proof -
  let ?tab = "fst (move_to_wiki now j w p s e tab)"
  have "map fr_fact_id ?tab = map fr_fact_id tab"
    unfolding move_to_wiki_def by (rule sql_update_ids) simp
  moreover have "has_fact i said tab \<Longrightarrow> has_fact i said ?tab"
    unfolding move_to_wiki_def by (rule has_fact_update) (auto simp: active_def)
  moreover have "fr_subject_id r \<noteq> gone" if "r \<in> set ?tab" "active r" for r
  proof -
    from that(1) obtain r0 where r0: "r0 \<in> set tab" "unplaced r = unplaced r0"
      by (auto simp: move_to_wiki_def in_update unplaced_def)
    with assms that(2) unplaced_fields(2,6) [OF r0(2)] show ?thesis by (simp add: kept_def)
  qed
  ultimately show ?thesis using assms unfolding kept_def fst_conv snd_conv by metis
qed

lemma relocate_keeps: "kept i said gone (fst sr) \<Longrightarrow> kept i said gone (fst (relocate env row sr))"
  by (cases sr) (auto simp: relocate_def Let_def rebuffer_keeps move_keeps split: option.split prod.split)

lemma fold_relocate_keeps: "kept i said gone (fst sr) \<Longrightarrow> kept i said gone (fst (fold (relocate env) rows sr))"
  by (induction rows arbitrary: sr) (simp_all add: relocate_keeps)

lemma fold_empty_keeps: "kept i said gone (fst sr) \<Longrightarrow> kept i said gone (fst (fold (empty_wiki env) ws sr))"
  by (induction ws arbitrary: sr) (simp_all add: empty_wiki_def fold_relocate_keeps)


section \<open>No active fact stays in a wiki that goes\<close>

definition vacated :: "fact_id \<Rightarrow> string list \<Rightarrow> fact_table \<Rightarrow> bool" where
  "vacated i ws tab \<longleftrightarrow> (\<forall>r \<in> set tab. fr_fact_id r = i \<and> active r \<longrightarrow> fr_wiki_id r \<notin> set ws)"

lemma destination_outside: "destination_wiki env s = Some d \<Longrightarrow> wiki_id_str d \<notin> set (ev_hers env)"
  by (auto simp: destination_wiki_def locate_def wiki_id_parse_Inr_iff split: principal.splits if_splits option.splits sum.splits)

lemma relocate_cases:
  obtains "snd (fst (relocate env row sr)) = snd (fst (rebuffer_fact (ev_now_nanos env) (fr_fact_id row) (fst sr)))"
  | d p s e where "wiki_id_str d \<notin> set (ev_hers env)"
      "snd (fst (relocate env row sr)) = fst (move_to_wiki (ev_now env) (fr_fact_id row) (wiki_id_str d) p s e (snd (fst sr)))"
proof -
  obtain buf tab rep where sr: "sr = ((buf, tab), rep)" by (cases sr) auto
  have "snd (fst (relocate env row sr)) = snd (fst (rebuffer_fact (ev_now_nanos env) (fr_fact_id row) (buf, tab))) \<or>
    (\<exists>d p s e. destination_wiki env (fr_subject_id row) = Some d \<and> snd (fst (relocate env row sr)) =
       fst (move_to_wiki (ev_now env) (fr_fact_id row) (wiki_id_str d) p s e tab))"
    by (auto simp: relocate_def sr Let_def split: option.splits prod.splits)
  with that destination_outside [of env "fr_subject_id row"] show ?thesis by (auto simp: sr)
qed

lemma relocate_ids:
  assumes "distinct (map fr_fact_id (snd (fst sr)))"
  shows "distinct (map fr_fact_id (snd (fst (relocate env row sr))))"
proof (cases rule: relocate_cases [of env row sr])
  case 1
  obtain buf tab rep where "sr = ((buf, tab), rep)" by (cases sr) auto
  with 1 assms rebuffer_rows [of "ev_now_nanos env" "fr_fact_id row" buf tab] show ?thesis by (auto simp: distinct_map_filter)
next
  case (2 d p s e)
  have "map fr_fact_id (snd (fst (relocate env row sr))) = map fr_fact_id (snd (fst sr))"
    unfolding 2(2) move_to_wiki_def by (rule sql_update_ids) simp
  with assms show ?thesis by simp
qed

lemma relocate_stays_vacated:
  assumes "vacated i ws (snd (fst sr))" "set ws \<subseteq> set (ev_hers env)"
  shows "vacated i ws (snd (fst (relocate env row sr)))"
proof (cases rule: relocate_cases [of env row sr])
  case 1
  obtain buf tab rep where "sr = ((buf, tab), rep)" by (cases sr) auto
  with 1 assms(1) rebuffer_rows [of "ev_now_nanos env" "fr_fact_id row" buf tab] show ?thesis by (auto simp: vacated_def)
next
  case (2 d p s e)
  show ?thesis
    unfolding 2(2) vacated_def
  proof (intro ballI impI)
    fix r assume r: "r \<in> set (fst (move_to_wiki (ev_now env) (fr_fact_id row) (wiki_id_str d) p s e (snd (fst sr))))"
      "fr_fact_id r = i \<and> active r"
    show "fr_wiki_id r \<notin> set ws"
    proof (cases "r \<in> set (snd (fst sr))")
      case True
      with assms(1) r(2) show ?thesis by (auto simp: vacated_def)
    next
      case False
      with r(1) have "fr_wiki_id r = wiki_id_str d" by (auto simp: move_to_wiki_def in_update split: if_splits)
      with 2(1) assms(2) show ?thesis by auto
    qed
  qed
qed

lemma relocate_vacates:
  assumes "distinct (map fr_fact_id (snd (fst sr)))"
  shows "vacated (fr_fact_id row) (ev_hers env) (snd (fst (relocate env row sr)))"
proof (cases rule: relocate_cases [of env row sr])
  case 1
  obtain buf tab rep where sr: "sr = ((buf, tab), rep)" by (cases sr) auto
  have "\<not> active r" if "r \<in> set (snd (fst (rebuffer_fact (ev_now_nanos env) (fr_fact_id row) (buf, tab))))"
      "fr_fact_id r = fr_fact_id row" for r
  proof (cases "r \<in> set tab")
    case True
    with assms sr that(2) find_by_id_unique [of tab r] have f: "find_by_id tab (fr_fact_id row) = Some r" by simp
    show ?thesis
    proof
      assume "active r"
      with f that show False by (simp add: rebuffer_fact_def erase_def active_def)
    qed
  next
    case False
    with that rebuffer_rows [of "ev_now_nanos env" "fr_fact_id row" buf tab] show ?thesis by auto
  qed
  with 1 sr show ?thesis by (auto simp: vacated_def)
next
  case (2 d p s e)
  have "fr_wiki_id r = wiki_id_str d"
    if r: "r \<in> set (fst (move_to_wiki (ev_now env) (fr_fact_id row) (wiki_id_str d) p s e (snd (fst sr))))"
      "fr_fact_id r = fr_fact_id row" "active r" for r
  proof -
    let ?f = "\<lambda>r. r\<lparr>fr_wiki_id := wiki_id_str d, fr_source_path := p, fr_region_start := s, fr_region_end := e,
      fr_updated_at := ev_now env\<rparr>"
    obtain r0 where r0: "r = (if fr_fact_id r0 = fr_fact_id row \<and> active r0 then ?f r0 else r0)"
      using r(1) by (auto simp: move_to_wiki_def in_update)
    have "fr_fact_id (?f r0) = fr_fact_id r0" "active (?f r0) = active r0" "fr_wiki_id (?f r0) = wiki_id_str d"
      by (simp_all add: active_def)
    with r0 r(2,3) show ?thesis by metis
  qed
  with 2 show ?thesis unfolding vacated_def by auto
qed

lemma relocate_all_vacate:
  assumes "distinct (map fr_fact_id (snd (fst sr)))" "set ws \<subseteq> set (ev_hers env)"
    "i \<in> fr_fact_id ` set rows \<or> vacated i ws (snd (fst sr))"
  shows "vacated i ws (snd (fst (fold (relocate env) rows sr)))"
  using assms
proof (induction rows arbitrary: sr)
  case (Cons row rows)
  let ?sr = "relocate env row sr"
  have "i \<in> fr_fact_id ` set rows \<or> vacated i ws (snd (fst ?sr))"
  proof (cases "i = fr_fact_id row")
    case True
    with relocate_vacates [OF Cons.prems(1), of row env] Cons.prems(2) show ?thesis by (auto simp: vacated_def)
  qed (use Cons.prems(2,3) relocate_stays_vacated [of i ws sr env row] in auto)
  with Cons.IH [of ?sr] Cons.prems(2) relocate_ids [OF Cons.prems(1)] show ?case by simp
qed simp

lemma fold_relocate_ids:
  "distinct (map fr_fact_id (snd (fst sr))) \<Longrightarrow> distinct (map fr_fact_id (snd (fst (fold (relocate env) rows sr))))"
  by (induction rows arbitrary: sr) (simp_all add: relocate_ids)

lemma fold_empty_vacates:
  assumes "distinct (map fr_fact_id (snd (fst sr)))" "set vs \<union> set ws \<subseteq> set (ev_hers env)" "vacated i vs (snd (fst sr))"
  shows "vacated i (vs @ ws) (snd (fst (fold (empty_wiki env) ws sr)))"
  using assms
proof (induction ws arbitrary: sr vs)
  case (Cons w ws)
  let ?rows = "find_active_in_wiki (snd (fst sr)) w" and ?sr = "empty_wiki env w sr"
  have "vacated i vs (snd (fst ?sr))"
    unfolding empty_wiki_def by (rule relocate_all_vacate) (use Cons.prems in auto)
  moreover have "vacated i [w] (snd (fst ?sr))"
    unfolding empty_wiki_def
  proof (rule relocate_all_vacate)
    show "i \<in> fr_fact_id ` set ?rows \<or> vacated i [w] (snd (fst sr))"
      by (auto simp: vacated_def find_active_in_wiki_def)
  qed (use Cons.prems in auto)
  ultimately have "vacated i (vs @ [w]) (snd (fst ?sr))" by (auto simp: vacated_def)
  moreover have "distinct (map fr_fact_id (snd (fst ?sr)))"
    unfolding empty_wiki_def using fold_relocate_ids Cons.prems(1) by blast
  ultimately show ?case using Cons.IH [of ?sr "vs @ [w]"] Cons.prems(2) by simp
qed simp

section \<open>The steps after the facts\<close>

definition has_claim :: "fact_id \<Rightarrow> string \<Rightarrow> buffer \<Rightarrow> bool" where
  "has_claim i said buf \<longleftrightarrow> (\<exists>c \<in> set buf. cb_capture_id c = i \<and> cb_body c = said \<and> cb_status c = Buffered)"

lemma has_claim_update:
  assumes "has_claim i said buf"
    "\<And>c. cb_capture_id (f c) = cb_capture_id c \<and> cb_body (f c) = cb_body c \<and> cb_status (f c) = cb_status c"
  shows "has_claim i said (map (\<lambda>c. if P c then f c else c) buf)"
proof -
  from assms(1) obtain c where c: "c \<in> set buf" "cb_capture_id c = i" "cb_body c = said" "cb_status c = Buffered"
    by (auto simp: has_claim_def)
  then have "(if P c then f c else c) \<in> set (map (\<lambda>c. if P c then f c else c) buf)" by auto
  with c assms(2) [of c] show ?thesis unfolding has_claim_def by (intro bexI) auto
qed

lemma forget_captures_keep:
  assumes "waits i said gone buf" "gone = User u"
  shows "has_claim i said (snd (fst (forget_captures u gone removed_sender (ps, buf))))"
proof -
  from assms(1) have c: "has_claim i said (filter (\<lambda>r. \<not> hers_alone gone removed_sender r)
      (filter (\<lambda>r. \<not> (cb_status r = Held \<and> names_person gone r)) buf))"
    by (auto simp: waits_def has_claim_def)
  show ?thesis
    unfolding forget_captures_def Let_def buffer_delete_def buffer_update_def prod.case fst_conv snd_conv
    by (intro has_claim_update c) simp_all
qed

lemma swept_claims: "has_claim i said (wl_buf w) \<Longrightarrow> has_claim i said (wl_buf (swept env u w))"
  unfolding swept_def strike_from_lists_def
  by (rule fold_count_inv [where Q = "\<lambda>w. has_claim i said (wl_buf w)"])
    (auto simp: strike_column_buffer anonymise_audit_frame drop_notices_def Let_def intro!: has_claim_update split: if_splits)

lemma tombstone_wikis_spare:
  "r \<in> set tab \<Longrightarrow> fr_wiki_id r \<notin> set ws \<Longrightarrow> r \<in> set (fst (tombstone_wikis now ws tab))"
  unfolding tombstone_wikis_def
  by (rule fold_count_inv [where Q = "\<lambda>x. r \<in> set x"]) (auto simp: mark_forgotten_in_wiki_def in_update intro!: bexI [of _ r])

lemma forget_facts_keep:
  assumes "forget_facts env u (buf, tab) = ((buf', tab'), rep)" "distinct (map fr_fact_id tab)"
    "r \<in> set tab" "active r" "fate_of r (User u) \<noteq> Destroy" "echoes (fr_fact_id r) (fr_text r) (User u) buf"
  shows "kept (fr_fact_id r) (fr_text r) (User u) (buf', tab') \<and> vacated (fr_fact_id r) (ev_hers env) tab'"
proof -
  let ?i = "fr_fact_id r" and ?said = "fr_text r" and ?gone = "User u"
  let ?rows = "find_active_by_subject tab ?gone"
  obtain tab1 rep1 where s: "fold (sort_fact env u) ?rows (tab, no_forgetting) = (tab1, rep1)" by fastforce
  let ?tab2 = "fst (replace_sender (ev_now env) ?gone removed_sender tab1)"
  let ?tab3 = "fst (strike_from_allow (ev_now env) ?gone ?tab2)"
  obtain rep3 where e: "fold (empty_wiki env) (ev_hers env) ((buf, ?tab3), rep3) = ((buf', tab'), rep)"
    using assms(1) s by (auto simp: forget_facts_def case_prod_beta Let_def)
  have "has_fact ?i ?said tab" using assms(3,4) by (auto simp: has_fact_def)
  moreover have "fate_of row ?gone \<noteq> Destroy" if "row \<in> set ?rows" "fr_fact_id row = ?i" for row
  proof -
    have "row = r" using assms(2,3) that by (auto simp: find_active_by_subject_def distinct_map inj_on_def)
    with assms(5) show ?thesis by simp
  qed
  ultimately have "has_fact ?i ?said tab1" using sort_facts_keep [of ?i ?said tab ?rows u env no_forgetting] s by simp
  then have "has_fact ?i ?said ?tab2"
    unfolding replace_sender_def by (rule has_fact_update) (simp add: active_def)
  then have "has_fact ?i ?said ?tab3"
    unfolding strike_from_allow_def by (rule has_fact_update) (simp add: active_def)
  moreover have ids: "distinct (map fr_fact_id ?tab3)"
    using sort_facts_ids [OF assms(2), of env u ?rows no_forgetting] s
    by (simp add: replace_sender_def strike_from_allow_def sql_update_ids)
  moreover have "fr_subject_id x \<noteq> ?gone" if "x \<in> set ?tab3" "active x" for x
  proof -
    from that(1) obtain x1 where x1: "x1 \<in> set tab1" "fr_subject_id x = fr_subject_id x1" "active x = active x1"
      by (auto simp: strike_from_allow_def replace_sender_def in_update active_def)
    have "fr_subject_id x1 \<noteq> User u"
      by (rule sort_facts_rows [of ?rows u tab x1 env no_forgetting])
        (use x1 that(2) s in \<open>auto simp: find_active_by_subject_def\<close>)
    with x1 show ?thesis by simp
  qed
  ultimately have "kept ?i ?said ?gone (buf, ?tab3)" using assms(6) by (simp add: kept_def)
  then have "kept ?i ?said ?gone (buf', tab')"
    using fold_empty_keeps [of ?i ?said ?gone "((buf, ?tab3), rep3)" env "ev_hers env"] e by simp
  moreover have "vacated ?i (ev_hers env) tab'"
    using fold_empty_vacates [of "((buf, ?tab3), rep3)" "[]" "ev_hers env" env ?i] ids e by (simp add: vacated_def)
  ultimately show ?thesis ..
qed

text \<open>
  C7: an erasure keeps what was somebody else's. An active fact that is not to be destroyed, because it is about
  another, or because another person told it, is at the end still an active fact with its id and its words, or
  waits in the queue under that id with those words for a new place, provided what the queue held under that id
  said the same and was not the person's alone.
\<close>

theorem others_memory_is_kept:
  assumes "forget_user env u w = (w', Inr (Some rep))" "distinct (map fr_fact_id (wl_facts w))"
    "r \<in> set (wl_facts w)" "active r" "fate_of r (User u) \<noteq> Destroy"
    "\<forall>c \<in> set (wl_buf w). cb_capture_id c = fr_fact_id r \<longrightarrow>
      cb_body c = fr_text r \<and> \<not> hers_alone (User u) removed_sender c"
  shows "(\<exists>r' \<in> set (wl_facts w'). fr_fact_id r' = fr_fact_id r \<and> fr_text r' = fr_text r \<and> active r') \<or>
    (\<exists>c \<in> set (wl_buf w'). cb_capture_id c = fr_fact_id r \<and> cb_body c = fr_text r \<and> cb_status c = Buffered)"
proof -
  obtain buf1 tab1 rep1 ps1 buf2 cap w5 w7 where s:
    "forget_facts env u (wl_buf w, wl_facts w) = ((buf1, tab1), rep1)"
    "forget_captures u (User u) removed_sender (wl_proposals w, buf1) = ((ps1, buf2), cap)"
    "w5 = swept env u (w\<lparr>wl_facts := tab1, wl_buf := buf2, wl_proposals := ps1\<rparr>)"
    "w7 = fst (remove_user u (w5\<lparr>wl_forgotten := record_forgotten_id u (wl_forgotten w5)\<rparr>))"
    "w' = w7\<lparr>wl_facts := fst (tombstone_wikis (ev_now env) (ev_hers env) (wl_facts w7))\<rparr>"
    by (rule forget_user_steps [OF assms(1)]) (rule that)
  from forget_facts_keep [OF s(1) assms(2-5)] assms(6)
  have k: "kept (fr_fact_id r) (fr_text r) (User u) (buf1, tab1)" "vacated (fr_fact_id r) (ev_hers env) tab1"
    by (simp_all add: echoes_def)
  have facts: "wl_facts w' = fst (tombstone_wikis (ev_now env) (ev_hers env) tab1)"
    by (simp add: s(3-5) remove_user_frame swept_frame)
  have buf: "wl_buf w' = wl_buf (swept env u (w\<lparr>wl_facts := tab1, wl_buf := buf2, wl_proposals := ps1\<rparr>))"
    by (simp add: s(3-5) remove_user_frame)
  from k(1) consider "has_fact (fr_fact_id r) (fr_text r) tab1" | "waits (fr_fact_id r) (fr_text r) (User u) buf1"
    by (auto simp: kept_def)
  then show ?thesis
  proof cases
    case 1
    then obtain r' where r': "r' \<in> set tab1" "fr_fact_id r' = fr_fact_id r" "fr_text r' = fr_text r" "active r'"
      by (auto simp: has_fact_def)
    with k(2) have "r' \<in> set (wl_facts w')" unfolding facts by (intro tombstone_wikis_spare) (auto simp: vacated_def)
    with r' show ?thesis by blast
  next
    case 2
    then have "has_claim (fr_fact_id r) (fr_text r) buf2"
      using forget_captures_keep [of _ _ "User u" buf1 u "wl_proposals w"] s(2) by simp
    then have "has_claim (fr_fact_id r) (fr_text r) (wl_buf w')" unfolding buf by (intro swept_claims) simp
    then show ?thesis by (auto simp: has_claim_def)
  qed
qed

theorem others_memory_is_kept_witness:
  "(\<exists>r' \<in> set (wl_facts (fst (forget_user house_env ''bob'' house))).
      fr_fact_id r' = fr_fact_id anns_of_bob \<and> fr_text r' = fr_text anns_of_bob \<and> active r') \<or>
   (\<exists>c \<in> set (wl_buf (fst (forget_user house_env ''bob'' house))).
      cb_capture_id c = fr_fact_id anns_of_bob \<and> cb_body c = fr_text anns_of_bob \<and> cb_status c = Buffered)"
proof -
  have "map_of (wl_users house) ''bob'' = Some False" by (simp add: house_def)
  from forget_user_returns [OF this] obtain rep where
    r: "forget_user house_env ''bob'' house = (fst (forget_user house_env ''bob'' house), Inr (Some rep))" by blast
  have page: "\<not> is_rules_page ''wikis/alice/food.md''" by code_simp
  show ?thesis
    by (rule others_memory_is_kept [OF r])
      (simp_all add: house_def bobs_own_def anns_of_bob_def row_a_def row_b_def row_of_new_fact_def sample_new_fact_def
        active_def fate_of_def REMOVED_USER_ID_def page)
qed

section \<open>A page goes\<close>

text \<open>What one disposal leaves: a tombstone, or a claim that waits and no row.\<close>

definition disposed :: "erasure_env \<Rightarrow> string \<Rightarrow> page_action \<Rightarrow> fact_row \<Rightarrow> shelf \<Rightarrow> bool" where
  "disposed env reason a r sh =
     (case a of
        Tombstone \<Rightarrow> tombstone (ev_now env) reason r \<in> set (snd sh)
      | Evacuate \<Rightarrow> fr_fact_id r \<notin> fr_fact_id ` set (snd sh) \<and> has_claim (fr_fact_id r) (fr_text r) (fst sh))"

definition speaks :: "fact_id \<Rightarrow> string \<Rightarrow> buffer \<Rightarrow> bool" where
  "speaks i said buf \<longleftrightarrow> (\<forall>c \<in> set buf. cb_capture_id c = i \<longrightarrow> cb_body c = said)"

lemma upsert_claims: "has_claim i said buf \<Longrightarrow> has_claim i said (upsert_rebuffered cap buf)"
proof -
  assume h: "has_claim i said buf"
  then obtain c where c: "c \<in> set buf" "cb_capture_id c = i" "cb_body c = said" "cb_status c = Buffered"
    by (auto simp: has_claim_def)
  let ?g = "\<lambda>r. if cb_capture_id r = cb_capture_id cap
    then r\<lparr>cb_status := Buffered, cb_processed_at := None, cb_resolved_fact_id := None\<rparr> else r"
  have "?g c \<in> set (map ?g buf)" "cb_capture_id (?g c) = i" "cb_body (?g c) = said" "cb_status (?g c) = Buffered"
    using c by simp_all
  then have "has_claim i said (map ?g buf)" unfolding has_claim_def by blast
  moreover have "has_claim i said (buf @ [cap])" using h by (auto simp: has_claim_def)
  ultimately show ?thesis by (simp add: upsert_rebuffered_def)
qed

lemma upsert_speaks:
  assumes "speaks i said buf" "cb_capture_id cap \<noteq> i"
  shows "speaks i said (upsert_rebuffered cap buf)"
  using assms by (auto simp: speaks_def upsert_rebuffered_def)

lemma upsert_own:
  assumes "speaks i said buf" "cb_capture_id cap = i" "cb_body cap = said" "cb_status cap = Buffered"
  shows "has_claim i said (upsert_rebuffered cap buf)"
proof (cases "i \<in> set (map cb_capture_id buf)")
  case True
  then obtain c where c: "c \<in> set buf" "cb_capture_id c = i" by auto
  let ?g = "\<lambda>r. if cb_capture_id r = cb_capture_id cap
    then r\<lparr>cb_status := Buffered, cb_processed_at := None, cb_resolved_fact_id := None\<rparr> else r"
  have "?g c \<in> set (map ?g buf)" "cb_capture_id (?g c) = i" "cb_body (?g c) = said" "cb_status (?g c) = Buffered"
    using assms c by (simp_all add: speaks_def)
  then have "has_claim i said (map ?g buf)" unfolding has_claim_def by blast
  with True assms(2) show ?thesis by (simp add: upsert_rebuffered_def)
qed (use assms in \<open>auto simp: upsert_rebuffered_def has_claim_def\<close>)

lemma dispose_shelf:
  assumes "distinct (map fr_fact_id tab)" "row \<in> set tab" "active row"
  shows "fst (dispose_fact env reason act row ((buf, tab), out)) =
    (case act row of
       Tombstone \<Rightarrow> (buf, fst (mark_forgotten (ev_now env) (fr_fact_id row) reason tab))
     | Evacuate \<Rightarrow> (upsert_rebuffered (rebuffered (ev_now_nanos env) row) buf, filter (\<lambda>r. fr_fact_id r \<noteq> fr_fact_id row) tab))"
  using find_by_id_unique [OF assms(1,2)] assms(3)
  by (cases "act row") (simp_all add: dispose_fact_def rebuffer_fact_def erase_def active_def)

lemma dispose_frame:
  assumes "distinct (map fr_fact_id tab)" "row \<in> set tab" "active row" "fr_fact_id row \<noteq> i"
    "fst (dispose_fact env reason act row ((buf, tab), out)) = (buf', tab')"
  shows "distinct (map fr_fact_id tab') \<and> (\<forall>r. fr_fact_id r = i \<longrightarrow> r \<in> set tab \<longrightarrow> r \<in> set tab') \<and>
    fr_fact_id ` set tab' \<subseteq> fr_fact_id ` set tab \<and> (has_claim i said buf \<longrightarrow> has_claim i said buf') \<and>
    (speaks i said buf \<longrightarrow> speaks i said buf')"
proof (cases "act row")
  case Tombstone
  with assms(5) dispose_shelf [OF assms(1-3), of env reason act buf out]
  have e: "buf' = buf" "tab' = fst (mark_forgotten (ev_now env) (fr_fact_id row) reason tab)" by simp_all
  have ids: "map fr_fact_id tab' = map fr_fact_id tab"
    unfolding e mark_forgotten_def by (rule sql_update_ids) (simp add: tombstone_def)
  then have "fr_fact_id ` set tab' = fr_fact_id ` set tab" by (metis set_map)
  moreover have "r \<in> set tab'" if "fr_fact_id r = i" "r \<in> set tab" for r
    unfolding e mark_forgotten_def in_update
    by (rule bexI [of _ r]) (use that assms(4) in \<open>auto simp: live_def\<close>)
  ultimately show ?thesis using ids assms(1) e(1) by simp
next
  case Evacuate
  with assms(5) dispose_shelf [OF assms(1-3), of env reason act buf out]
  have e: "buf' = upsert_rebuffered (rebuffered (ev_now_nanos env) row) buf"
      "tab' = filter (\<lambda>r. fr_fact_id r \<noteq> fr_fact_id row) tab" by simp_all
  have "speaks i said buf \<Longrightarrow> speaks i said buf'"
    unfolding e(1) by (rule upsert_speaks) (use assms(4) in \<open>simp_all add: rebuffered_def\<close>)
  moreover have "has_claim i said buf \<Longrightarrow> has_claim i said buf'" unfolding e(1) by (rule upsert_claims)
  moreover have "distinct (map fr_fact_id tab')" using assms(1) e(2) by (simp add: distinct_map_filter)
  moreover have "fr_fact_id ` set tab' \<subseteq> fr_fact_id ` set tab" using e(2) by auto
  ultimately show ?thesis using assms(4) e(2) by simp
qed

lemma dispose_own:
  assumes "distinct (map fr_fact_id tab)" "row \<in> set tab" "active row" "speaks (fr_fact_id row) (fr_text row) buf"
  shows "disposed env reason (act row) row (fst (dispose_fact env reason act row ((buf, tab), out)))"
  unfolding dispose_shelf [OF assms(1-3)]
  using assms by (cases "act row")
    (auto simp: disposed_def mark_forgotten_def in_update live_def active_def rebuffered_def intro!: upsert_own bexI [of _ row])

lemma dispose_other:
  assumes "distinct (map fr_fact_id (snd sh))" "row \<in> set (snd sh)" "active row" "fr_fact_id row \<noteq> fr_fact_id r"
    "disposed env reason a r sh"
  shows "disposed env reason a r (fst (dispose_fact env reason act row (sh, out)))"
proof -
  obtain buf tab where sh: "sh = (buf, tab)" by fastforce
  obtain buf' tab' where e: "fst (dispose_fact env reason act row ((buf, tab), out)) = (buf', tab')" by fastforce
  from dispose_frame [OF _ _ assms(3,4) e, of "fr_text r"] assms(1,2) sh
  have "\<And>x. fr_fact_id x = fr_fact_id r \<Longrightarrow> x \<in> set tab \<Longrightarrow> x \<in> set tab'" "fr_fact_id ` set tab' \<subseteq> fr_fact_id ` set tab"
    "has_claim (fr_fact_id r) (fr_text r) buf \<Longrightarrow> has_claim (fr_fact_id r) (fr_text r) buf'" by auto
  with assms(5) show ?thesis unfolding sh e by (cases a) (auto simp: disposed_def tombstone_def)
qed

lemma dispose_keeps_disposed:
  assumes "distinct (map fr_fact_id (snd sh))" "set rows \<subseteq> set (snd sh)" "distinct (map fr_fact_id rows)"
    "\<forall>row \<in> set rows. active row \<and> fr_fact_id row \<noteq> fr_fact_id r" "disposed env reason a r sh"
  shows "disposed env reason a r (fst (fold (dispose_fact env reason act) rows (sh, out)))"
  using assms
proof (induction rows arbitrary: sh out)
  case (Cons row rows)
  obtain buf tab where sh: "sh = (buf, tab)" by fastforce
  obtain buf' tab' out' where e: "dispose_fact env reason act row ((buf, tab), out) = ((buf', tab'), out')"
    by (metis prod.exhaust)
  then have f: "fst (dispose_fact env reason act row ((buf, tab), out)) = (buf', tab')" by simp
  have row: "distinct (map fr_fact_id tab)" "row \<in> set tab" "active row" using Cons.prems sh by simp_all
  have d: "distinct (map fr_fact_id tab')" using dispose_frame [OF row _ f, of "fr_fact_id r"] Cons.prems(4) by simp
  have sub: "x \<in> set tab'" if "x \<in> set rows" for x
  proof -
    have "fr_fact_id row \<noteq> fr_fact_id x" "x \<in> set tab" using Cons.prems(2,3) sh that by auto
    with dispose_frame [OF row _ f, of "fr_fact_id x"] show ?thesis by simp
  qed
  have dis: "disposed env reason a r (buf', tab')"
    using dispose_other [of sh row r env reason a act out] Cons.prems(1,2,4,5) sh f by simp
  show ?case
    using Cons.IH [of "(buf', tab')" out'] Cons.prems(3,4) d sub dis e sh by auto
qed simp

lemma fold_dispose:
  assumes "distinct (map fr_fact_id (snd sh))" "set rows \<subseteq> set (snd sh)" "distinct (map fr_fact_id rows)"
    "\<forall>row \<in> set rows. active row \<and> speaks (fr_fact_id row) (fr_text row) (fst sh)"
    "r \<in> set rows"
  shows "disposed env reason (act r) r (fst (fold (dispose_fact env reason act) rows (sh, out)))"
  using assms
proof (induction rows arbitrary: sh out)
  case (Cons row rows)
  obtain buf tab where sh: "sh = (buf, tab)" by fastforce
  obtain buf' tab' out' where e: "dispose_fact env reason act row ((buf, tab), out) = ((buf', tab'), out')"
    by (metis prod.exhaust)
  then have f: "fst (dispose_fact env reason act row ((buf, tab), out)) = (buf', tab')" by simp
  have row: "distinct (map fr_fact_id tab)" "row \<in> set tab" "active row" using Cons.prems sh by simp_all
  have x: "x \<in> set tab' \<and> active x \<and> speaks (fr_fact_id x) (fr_text x) buf' \<and> fr_fact_id x \<noteq> fr_fact_id row"
    if "x \<in> set rows" for x
  proof -
    have "fr_fact_id row \<noteq> fr_fact_id x" "x \<in> set tab" "active x" "speaks (fr_fact_id x) (fr_text x) buf"
      using Cons.prems sh that by auto
    with dispose_frame [OF row _ f, of "fr_fact_id x" "fr_text x"] show ?thesis by auto
  qed
  have d: "distinct (map fr_fact_id tab')"
    using dispose_shelf [OF row, of env reason act buf out] f row(1)
    by (cases "act row") (auto simp: mark_forgotten_def sql_update_ids tombstone_def distinct_map_filter)
  show ?case
  proof (cases "r = row")
    case True
    have "disposed env reason (act row) row (buf', tab')"
      using dispose_own [OF row, of buf env reason act out] Cons.prems(4) sh f by simp
    then have "disposed env reason (act row) row (fst (fold (dispose_fact env reason act) rows ((buf', tab'), out')))"
      by (intro dispose_keeps_disposed) (use d x Cons.prems(3) in auto)
    with True e sh show ?thesis by simp
  next
    case False
    have "disposed env reason (act r) r (fst (fold (dispose_fact env reason act) rows ((buf', tab'), out')))"
      by (rule Cons.IH) (use d x Cons.prems(3,5) False in auto)
    with e sh show ?thesis by simp
  qed
qed simp

text \<open>
  C21: deleting a page gives back what was not the deleter's. Of the active facts of the page, one whose author,
  or failing that its subject, is another person with a wiki of their own leaves the table and waits in the queue
  with its words for a new page; every other becomes a tombstone with the given reason. The queue is assumed to
  hold no other words under the ids of these facts.
\<close>

theorem deleted_page_gives_back:
  assumes "delete_page_direct env path deleter reason SenderKeyed (buf, tab) = (sh', res)"
    "distinct (map fr_fact_id tab)" "r \<in> set tab" "active r" "fr_source_path r = path"
    "\<forall>x \<in> set tab. speaks (fr_fact_id x) (fr_text x) buf"
  shows "(if responsible_for r \<noteq> deleter \<and> (existing_home_wiki env (responsible_for r) \<noteq> None \<or>
              fr_subject_id r \<noteq> deleter \<and> existing_home_wiki env (fr_subject_id r) \<noteq> None)
          then fr_fact_id r \<notin> fr_fact_id ` set (snd sh') \<and>
            (\<exists>c \<in> set (fst sh'). cb_capture_id c = fr_fact_id r \<and> cb_body c = fr_text r \<and> cb_status c = Buffered)
          else tombstone (ev_now env) reason r \<in> set (snd sh'))"
proof -
  let ?rows = "find_active_by_source_path tab path" and ?act = "sender_keyed env deleter"
  have sh': "sh' = fst (fold (dispose_fact env reason ?act) ?rows ((buf, tab), \<lparr>do_facts_tombstoned = 0, do_facts_evacuated = 0\<rparr>))"
    using assms(1) by (simp add: delete_page_direct_def case_prod_beta Let_def)
  have "disposed env reason (?act r) r sh'"
    unfolding sh'
  proof (rule fold_dispose)
    show "distinct (map fr_fact_id ?rows)"
      using assms(2) by (auto simp: find_active_by_source_path_def distinct_map inj_on_def distinct_filter)
  qed (use assms(2-6) in \<open>auto simp: find_active_by_source_path_def\<close>)
  then show ?thesis
    by (auto simp: disposed_def sender_keyed_def decide_def has_claim_def split: if_splits)
qed

theorem deleted_page_gives_back_witness:
  "fr_fact_id anns_of_bob \<notin> fr_fact_id ` set (snd (fst (delete_page_direct house_env ''wikis/alice/food.md'' (User ''bob'')
      ''r'' SenderKeyed ([], [bobs_own, anns_of_bob])))) \<and>
   (\<exists>c \<in> set (fst (fst (delete_page_direct house_env ''wikis/alice/food.md'' (User ''bob'')
      ''r'' SenderKeyed ([], [bobs_own, anns_of_bob])))).
     cb_capture_id c = fr_fact_id anns_of_bob \<and> cb_body c = fr_text anns_of_bob \<and> cb_status c = Buffered)"
proof -
  let ?d = "delete_page_direct house_env ''wikis/alice/food.md'' (User ''bob'') ''r'' SenderKeyed ([], [bobs_own, anns_of_bob])"
  have "?d = (fst ?d, snd ?d)" by simp
  moreover have "responsible_for anns_of_bob \<noteq> User ''bob'' \<and> existing_home_wiki house_env (responsible_for anns_of_bob) \<noteq> None"
    by code_simp
  ultimately show ?thesis
    using deleted_page_gives_back [of house_env "''wikis/alice/food.md''" "User ''bob''" "''r''" "[]"
        "[bobs_own, anns_of_bob]" "fst ?d" "snd ?d" anns_of_bob]
    by (simp add: bobs_own_def anns_of_bob_def row_a_def row_b_def row_of_new_fact_def sample_new_fact_def active_def speaks_def)
qed

section \<open>What the erasure does not reach\<close>

text \<open>
  Only active facts about the person are destroyed. The row of a value that was corrected since stays, with its
  words and the person as its subject: as it was, on a page of another wiki, or as a tombstone in their own.
\<close>

definition bobs_old :: "string \<Rightarrow> fact_row" where
  "bobs_old w = bobs_own\<lparr>fr_superseded_at := Some ''t1'', fr_wiki_id := w\<rparr>"

lemma erased_house_facts:
  assumes "\<forall>r \<in> set tab. active r \<longrightarrow> fr_subject_id r \<noteq> User ''bob'' \<and> fr_wiki_id r \<noteq> ''bob''"
  shows "wl_facts (fst (forget_user house_env ''bob'' (house\<lparr>wl_facts := tab\<rparr>))) =
    fst (mark_forgotten_in_wiki ''t9'' ''bob'' WIKI_DELETE_REASON (fst (strike_from_allow ''t9'' (User ''bob'')
      (fst (replace_sender ''t9'' (User ''bob'') removed_sender tab)))))"
proof -
  have "map_of (wl_users (house\<lparr>wl_facts := tab\<rparr>)) ''bob'' = Some False" by (simp add: house_def)
  from forget_user_returns [OF this, of house_env] obtain rep where
    r: "forget_user house_env ''bob'' (house\<lparr>wl_facts := tab\<rparr>) = (fst (forget_user house_env ''bob'' (house\<lparr>wl_facts := tab\<rparr>)), Inr (Some rep))"
    by blast
  have "filter (\<lambda>r. fr_subject_id r = User ''bob'' \<and> active r) tab = []" by (rule filter_False) (use assms in auto)
  then have none: "find_active_by_subject tab (User ''bob'') = []" by (simp add: find_active_by_subject_def)
  have still: "active r \<longrightarrow> fr_wiki_id r \<noteq> ''bob''" if "r \<in> set (fst (strike_from_allow ''t9'' (User ''bob'')
      (fst (replace_sender ''t9'' (User ''bob'') removed_sender tab))))" for r
  proof -
    from that obtain r0 where "r0 \<in> set tab" "fr_wiki_id r = fr_wiki_id r0" "active r = active r0"
      by (auto simp: strike_from_allow_def replace_sender_def in_update active_def)
    with assms show ?thesis by simp
  qed
  then have "filter (\<lambda>r. fr_wiki_id r = ''bob'' \<and> active r) (fst (strike_from_allow ''t9'' (User ''bob'')
      (fst (replace_sender ''t9'' (User ''bob'') removed_sender tab)))) = []"
    by (intro filter_False) blast
  then have empty: "find_active_in_wiki (fst (strike_from_allow ''t9'' (User ''bob'')
      (fst (replace_sender ''t9'' (User ''bob'') removed_sender tab)))) ''bob'' = []"
    by (simp add: find_active_in_wiki_def)
  show ?thesis
    by (rule forget_user_steps [OF r])
      (simp add: remove_user_frame swept_frame forget_facts_def none empty house_env_def house_def tombstone_wikis_def
        empty_wiki_def case_prod_beta Let_def)
qed

lemma superseded_words_survive:
  "\<exists>r \<in> set (wl_facts (fst (forget_user house_env ''bob'' (house\<lparr>wl_facts := [bobs_old w]\<rparr>)))).
     fr_subject_id r = User ''bob'' \<and> fr_text r = fr_text bobs_own \<and> (w \<noteq> ''bob'' \<longrightarrow> fr_deleted_at r = None)"
  by (subst erased_house_facts)
    (simp_all add: bobs_old_def bobs_own_def row_a_def row_of_new_fact_def sample_new_fact_def active_def
      mark_forgotten_in_wiki_def strike_from_allow_def replace_sender_def sql_update_def tombstone_def)

text \<open>Nor does any step read the lists of the excluded: the id stays on the facts it was shut out of.\<close>

lemma exclusions_survive:
  "\<exists>r \<in> set (wl_facts (fst (forget_user house_env ''bob'' (house\<lparr>wl_facts := [row_a\<lparr>fr_excluded_ids := [User ''bob'']\<rparr>]\<rparr>)))).
     active r \<and> User ''bob'' \<in> set (fr_excluded_ids r)"
  by (subst erased_house_facts)
    (simp_all add: row_a_def row_of_new_fact_def sample_new_fact_def active_def
      mark_forgotten_in_wiki_def strike_from_allow_def replace_sender_def sql_update_def tombstone_def)

end
