(* ===== verification/Mwe_Accounts.thy ===== *)
theory Mwe_Accounts
  imports Mwe_Sessions Mwe_Erasure
begin

text \<open>
  The people of a deployment: adding and editing a user, inviting and accepting, the first administrator, the
  break-glass reset, and the identities of bots (\<open>routes/users.rs\<close>, \<open>routes/invitations.rs\<close>, \<open>routes/setup.rs\<close>,
  the standard consumers of \<open>routes/tokens.rs\<close>, the rules of \<open>enrollment.rs\<close> they call, \<open>admin-reset\<close> of the server).

  A row of \<open>enrollment_users\<close> is a \<^typ>\<open>dash_user\<close> beside its further columns in \<open>at_columns\<close>. The folding of a
  name into words (\<open>recall::folded_words\<close>) is an argument; a message shown again with the form is a constructor.
\<close>

section \<open>State\<close>

record account_columns =
  ac_aliases :: "string list"
  ac_is_agent :: bool
  ac_timezone :: "string option"
  ac_locale :: "string option"

record invitation_row =
  iv_invitation_id :: string
  iv_user_id :: string
  iv_created_at :: int
  iv_expires_at :: int
  iv_consumed_at :: "int option"
  iv_invited_by :: string

record accounts =
  at_dash :: dash_state
  at_columns :: "string \<rightharpoonup> account_columns"
  at_groups :: "string list"
  at_forgotten :: "string list"
  at_invitations :: "invitation_row list"
  at_delegations :: "string \<rightharpoonup> string list"

record accounts_env =
  an_dash :: dash_env
  an_fold :: "string \<Rightarrow> string list"
  an_invitation_ttl_hours :: int

definition duration_hours :: "int \<Rightarrow> int" where "duration_hours h = duration_seconds (h * 3600)"

definition user_ids :: "accounts \<Rightarrow> string set" where
  "user_ids w = du_user_id ` set (ds_users (at_dash w))"

definition account_is_agent :: "accounts \<Rightarrow> string \<Rightarrow> bool" where
  "account_is_agent w user = (case at_columns w user of None \<Rightarrow> False | Some c \<Rightarrow> ac_is_agent c)"

definition is_system_user :: "accounts \<Rightarrow> string \<Rightarrow> bool" where
  "is_system_user w user \<longleftrightarrow> ds_credentials (at_dash w) user = None"

section \<open>What a form is refused for\<close>

record name_collision =
  nc_name :: string
  nc_user_id :: string
  nc_existing :: string
  nc_is_user_id :: bool

datatype account_refusal =
    ChooseUserId | BadIdShape | GuestIsReserved | IdNotFilesystemSafe | UserIdExists string | IdIsAGroup string
  | IdIsSpent string | EnterEmail | ImplausibleEmail | EmailTaken string | BadTimezone | BadLocale
  | RowExists string | NameTaken name_collision | UnknownUser | UseAdminReset | IsAnAgent string | DeadInvitation | PasswordTooShort
  | PasswordsDiffer | NoAllowedSender | UnknownAllowedSender string | IdIsNoWikiId | HumanWithLogin string
  | GuestHoldsNoToken | NotASystemUser string | NeedsConsumerId | AdminExists | InvalidFile enrollment_error

definition reject_if_agent :: "accounts \<Rightarrow> string \<Rightarrow> account_refusal option" where
  "reject_if_agent w user = (if account_is_agent w user then Some (IsAnAgent user) else None)"

definition reject_spent_id :: "accounts \<Rightarrow> string \<Rightarrow> account_refusal option" where
  "reject_spent_id w user =
     (case reject_if_forgotten id user (at_forgotten w) of Inl m \<Rightarrow> Some (IdIsSpent m) | Inr _ \<Rightarrow> None)"

definition validate_user_id_for_create :: "accounts \<Rightarrow> string \<Rightarrow> account_refusal option" where
  "validate_user_id_for_create w user =
     (if user = [] then Some ChooseUserId
      else if \<not> is_valid_user_id user then Some BadIdShape
      else if is_guest user then Some GuestIsReserved
      else if \<not> is_filesystem_safe user then Some IdNotFilesystemSafe
      else if user \<in> user_ids w then Some (UserIdExists user)
      else if user \<in> set (at_groups w) then Some (IdIsAGroup user)
      else reject_spent_id w user)"

definition is_plausible_email :: "string \<Rightarrow> bool" where
  "is_plausible_email s =
     (case split_on CHR ''@'' s of
        [lcl, domain] \<Rightarrow> lcl \<noteq> [] \<and> domain \<noteq> [] \<and> CHR ''.'' \<in> set domain \<and> \<not> list_ex is_whitespace (utf8_chars s)
      | _ \<Rightarrow> False)"

definition validate_email_for_account :: "accounts \<Rightarrow> string \<Rightarrow> string option \<Rightarrow> account_refusal option" where
  "validate_email_for_account w email exclude_user_id =
     (if email = [] then Some EnterEmail
      else if \<not> is_plausible_email email then Some ImplausibleEmail
      else if list_ex (\<lambda>u. du_email u = Some email \<and> exclude_user_id \<noteq> Some (du_user_id u)) (ds_users (at_dash w))
      then Some (EmailTaken email) else None)"

definition parse_tag :: "nat \<Rightarrow> account_refusal \<Rightarrow> string \<Rightarrow> account_refusal + string option" where
  "parse_tag longest refusal raw =
     (let t = trim raw
      in if t = [] then Inr None
         else if longest < length t \<or> list_ex is_whitespace (utf8_chars t) then Inl refusal else Inr (Some t))"

definition parse_locale_field :: "string \<Rightarrow> account_refusal + string option" where
  "parse_locale_field = parse_tag 32 BadLocale"

definition parse_timezone_field :: "string \<Rightarrow> account_refusal + string option" where
  "parse_timezone_field = parse_tag 64 BadTimezone"

definition parse_engine_columns :: "string \<Rightarrow> string \<Rightarrow> account_refusal + (string option \<times> string option)" where
  "parse_engine_columns timezone locale =
     (case parse_timezone_field timezone of
        Inl e \<Rightarrow> Inl e
      | Inr tz \<Rightarrow> (case parse_locale_field locale of Inl e \<Rightarrow> Inl e | Inr l \<Rightarrow> Inr (tz, l)))"

definition parse_aliases :: "string \<Rightarrow> string list" where
  "parse_aliases raw = filter (\<lambda>s. s \<noteq> []) (map trim (split_on CHR '','' raw))"

definition list_users :: "accounts \<Rightarrow> (string \<times> string list) list" where
  "list_users w =
     sort_key fst (map (\<lambda>u. (du_user_id u, case at_columns w (du_user_id u) of None \<Rightarrow> [] | Some c \<Rightarrow> ac_aliases c))
       (ds_users (at_dash w)))"

fun name_holder :: "(string \<Rightarrow> string list) \<Rightarrow> string \<Rightarrow> (string \<times> string list) list \<Rightarrow> name_collision option" where
  "name_holder fld name [] = None"
| "name_holder fld name ((user, aliases) # others) =
     (if fld user = fld name then Some \<lparr>nc_name = name, nc_user_id = user, nc_existing = user, nc_is_user_id = True\<rparr>
      else case List.find (\<lambda>a. fld a = fld name) aliases of
        Some a \<Rightarrow> Some \<lparr>nc_name = name, nc_user_id = user, nc_existing = a, nc_is_user_id = False\<rparr>
      | None \<Rightarrow> name_holder fld name others)"

fun collision_loop ::
  "(string \<Rightarrow> string list) \<Rightarrow> string \<Rightarrow> (string \<times> string list) list \<Rightarrow> string list \<Rightarrow> name_collision option" where
  "collision_loop fld for_user users [] = None"
| "collision_loop fld for_user users (n # names) =
     (let name = trim n
      in if fld name = [] \<or> fld name = fld for_user then collision_loop fld for_user users names
         else case name_holder fld name (filter (\<lambda>u. fst u \<noteq> for_user) users) of
           Some c \<Rightarrow> Some c
         | None \<Rightarrow> collision_loop fld for_user users names)"

definition first_name_collision :: "accounts_env \<Rightarrow> accounts \<Rightarrow> string \<Rightarrow> string list \<Rightarrow> name_collision option" where
  "first_name_collision env w for_user names = collision_loop (an_fold env) for_user (list_users w) names"

section \<open>Users\<close>

record new_user_form =
  nu_user_id :: string
  nu_email :: string
  nu_aliases :: string
  nu_timezone :: string
  nu_locale :: string

definition set_dash :: "dash_state \<Rightarrow> accounts \<Rightarrow> accounts" where "set_dash d w = w\<lparr>at_dash := d\<rparr>"

definition insert_user :: "dash_user \<Rightarrow> account_columns \<Rightarrow> accounts \<Rightarrow> accounts" where
  "insert_user u c w =
     w\<lparr>at_dash := (at_dash w)\<lparr>ds_users := ds_users (at_dash w) @ [u]\<rparr>,
       at_columns := (at_columns w)(du_user_id u \<mapsto> c)\<rparr>"

definition insert_invitation :: "int \<Rightarrow> string \<Rightarrow> int \<Rightarrow> string \<Rightarrow> string \<Rightarrow> accounts \<Rightarrow> accounts" where
  "insert_invitation now fresh hours user actor w =
     w\<lparr>at_invitations := at_invitations w @
       [\<lparr>iv_invitation_id = fresh, iv_user_id = user, iv_created_at = now, iv_expires_at = now + duration_hours hours,
         iv_consumed_at = None, iv_invited_by = actor\<rparr>]\<rparr>"

definition new_submit ::
  "accounts_env \<Rightarrow> int \<Rightarrow> string \<Rightarrow> string \<Rightarrow> new_user_form \<Rightarrow> accounts \<Rightarrow> accounts \<times> account_refusal option" where
  "new_submit env now fresh actor form w =
     (let user = trim (nu_user_id form); email = trim (nu_email form); aliases = parse_aliases (nu_aliases form)
      in case validate_user_id_for_create w user of
           Some e \<Rightarrow> (w, Some e)
         | None \<Rightarrow>
        (case validate_email_for_account w email None of
           Some e \<Rightarrow> (w, Some e)
         | None \<Rightarrow>
        (case parse_engine_columns (nu_timezone form) (nu_locale form) of
           Inl e \<Rightarrow> (w, Some e)
         | Inr (tz, locale) \<Rightarrow>
        (case first_name_collision env w user aliases of
           Some c \<Rightarrow> (w, Some (NameTaken c))
         | None \<Rightarrow>
             (insert_invitation now fresh (an_invitation_ttl_hours env) user actor
               (insert_user \<lparr>du_user_id = user, du_email = Some email, du_is_admin = False, du_require_2fa = False\<rparr>
                 \<lparr>ac_aliases = aliases, ac_is_agent = False, ac_timezone = tz, ac_locale = locale\<rparr> w), None)))))"

record edit_user_form =
  eu_email :: string
  eu_new_aliases :: string
  eu_new_timezone :: string
  eu_new_locale :: string
  eu_require_2fa :: bool

definition edit_submit :: "accounts_env \<Rightarrow> string \<Rightarrow> edit_user_form \<Rightarrow> accounts \<Rightarrow> accounts \<times> account_refusal option" where
  "edit_submit env user form w =
     (let email = trim (eu_email form); aliases = parse_aliases (eu_new_aliases form)
      in if user \<notin> user_ids w then (w, Some UnknownUser)
         else case validate_email_for_account w email (Some user) of
           Some e \<Rightarrow> (w, Some e)
         | None \<Rightarrow>
        (case parse_engine_columns (eu_new_timezone form) (eu_new_locale form) of
           Inl e \<Rightarrow> (w, Some e)
         | Inr (tz, locale) \<Rightarrow>
        (case first_name_collision env w user aliases of
           Some c \<Rightarrow> (w, Some (NameTaken c))
         | None \<Rightarrow>
             (w\<lparr>at_dash := (at_dash w)\<lparr>ds_users := map (\<lambda>u. if du_user_id u = user
                  then u\<lparr>du_email := Some email, du_require_2fa := eu_require_2fa form\<rparr> else u) (ds_users (at_dash w))\<rparr>,
                at_columns := (at_columns w)(user := map_option (\<lambda>c. c\<lparr>ac_aliases := aliases, ac_timezone := tz,
                  ac_locale := locale\<rparr>) (at_columns w user))\<rparr>, None))))"

definition reset_2fa :: "string \<Rightarrow> accounts \<Rightarrow> accounts" where
  "reset_2fa user w = set_dash (twofa_disable user (at_dash w)) w"

section \<open>Invitations\<close>

definition reinvite ::
  "accounts_env \<Rightarrow> int \<Rightarrow> string \<Rightarrow> string \<Rightarrow> string \<Rightarrow> accounts \<Rightarrow> accounts \<times> account_refusal option" where
  "reinvite env now fresh actor user w =
     (case find_user (at_dash w) user of
        None \<Rightarrow> (w, Some UnknownUser)
      | Some u \<Rightarrow>
          if du_is_admin u then (w, Some UseAdminReset)
          else case reject_if_agent w user of
            Some e \<Rightarrow> (w, Some e)
          | None \<Rightarrow>
              (insert_invitation now fresh (an_invitation_ttl_hours env) user actor
                (w\<lparr>at_invitations := filter (\<lambda>r. \<not> (iv_user_id r = user \<and> iv_consumed_at r = None)) (at_invitations w)\<rparr>),
               None))"

definition lookup_live_invitation :: "int \<Rightarrow> string \<Rightarrow> accounts \<Rightarrow> (string \<times> bool) option" where
  "lookup_live_invitation now i w =
     (case List.find (\<lambda>r. iv_invitation_id r = i \<and> iv_consumed_at r = None \<and> now < iv_expires_at r) (at_invitations w) of
        None \<Rightarrow> None
      | Some r \<Rightarrow> map_option (\<lambda>u. (iv_user_id r, du_is_admin u)) (find_user (at_dash w) (iv_user_id r)))"

text \<open>The two halves of an acceptance: the checks on what was read, and the transaction that writes.\<close>

definition accept_refusal :: "accounts_env \<Rightarrow> string \<Rightarrow> string \<Rightarrow> string \<Rightarrow> accounts \<Rightarrow> account_refusal option" where
  "accept_refusal env user pw confirm w =
     (if length pw < de_min_password_len (an_dash env) then Some PasswordTooShort
      else if pw \<noteq> confirm then Some PasswordsDiffer
      else reject_if_agent w user)"

definition accept_write :: "accounts_env \<Rightarrow> int \<Rightarrow> string \<Rightarrow> string \<Rightarrow> string \<Rightarrow> accounts \<Rightarrow> accounts" where
  "accept_write env now i user pw w =
     w\<lparr>at_dash := (at_dash w)\<lparr>ds_credentials := (ds_credentials (at_dash w))(user \<mapsto> de_password_hash (an_dash env) pw)\<rparr>,
       at_invitations := map (\<lambda>r. if iv_invitation_id r = i \<and> iv_consumed_at r = None
                                  then r\<lparr>iv_consumed_at := Some now\<rparr> else r) (at_invitations w)\<rparr>"

definition accept_submit ::
  "accounts_env \<Rightarrow> int \<Rightarrow> string \<Rightarrow> string \<Rightarrow> string \<Rightarrow> string \<Rightarrow> accounts \<Rightarrow> accounts \<times> (account_refusal + token_claims)" where
  "accept_submit env now fresh i pw confirm w =
     (case lookup_live_invitation now i w of
        None \<Rightarrow> (w, Inl DeadInvitation)
      | Some (user, admin) \<Rightarrow>
          (case accept_refusal env user pw confirm w of
             Some e \<Rightarrow> (w, Inl e)
           | None \<Rightarrow>
               (let w' = accept_write env now i user pw w
                in (w', Inr (issue_session_cookie (an_dash env) now fresh user admin (at_dash w'))))))"

text \<open>\<open>mwe-mcp admin-reset\<close>.\<close>

definition admin_reset ::
  "int \<Rightarrow> string \<Rightarrow> int \<Rightarrow> string \<Rightarrow> string \<Rightarrow> bool \<Rightarrow> accounts \<Rightarrow> accounts \<times> account_refusal option" where
  "admin_reset now fresh ttl_hours actor user clear_2fa w =
     (if user \<notin> user_ids w then (w, Some UnknownUser)
      else let w1 = (if clear_2fa then reset_2fa user w else w)
           in (insert_invitation now fresh ttl_hours user actor w1, None))"

section \<open>The first administrator\<close>

record setup_form =
  sf_email :: string
  sf_admin_id :: string
  sf_password :: string
  sf_confirm :: string

definition validate_setup :: "accounts_env \<Rightarrow> string \<Rightarrow> string \<Rightarrow> string \<Rightarrow> string \<Rightarrow> account_refusal option" where
  "validate_setup env email admin_id pw confirm =
     (if email = [] then Some EnterEmail
      else if \<not> is_plausible_email email then Some ImplausibleEmail
      else if admin_id = [] then Some ChooseUserId
      else if length pw < de_min_password_len (an_dash env) then Some PasswordTooShort
      else if pw \<noteq> confirm then Some PasswordsDiffer else None)"

definition admin_exists :: "accounts \<Rightarrow> bool" where
  "admin_exists w = list_ex du_is_admin (ds_users (at_dash w))"

definition setup_submit ::
  "accounts_env \<Rightarrow> int \<Rightarrow> string \<Rightarrow> setup_form \<Rightarrow> accounts \<Rightarrow> accounts \<times> (account_refusal + token_claims)" where
  "setup_submit env now fresh form w =
     (let email = trim (sf_email form); admin_id = trim (sf_admin_id form); pw = sf_password form;
          file = \<lparr>ef_version = 1, ef_users = [\<lparr>eu_id = admin_id, eu_aliases = [], eu_is_admin = True, eu_locale = None,
                    eu_timezone = None\<rparr>], ef_groups = []\<rparr>
      in if admin_exists w then (w, Inl AdminExists)
         else case validate_setup env email admin_id pw (sf_confirm form) of
           Some e \<Rightarrow> (w, Inl e)
         | None \<Rightarrow>
        (case validate (an_fold env) file of
           Inl e \<Rightarrow> (w, Inl (InvalidFile e))
         | Inr _ \<Rightarrow>
        (case reject_spent_id w admin_id of
           Some e \<Rightarrow> (w, Inl e)
         | None \<Rightarrow>
             if admin_id \<in> user_ids w then (w, Inl (RowExists admin_id)) else
             (let w1 = insert_user \<lparr>du_user_id = admin_id, du_email = Some email, du_is_admin = True, du_require_2fa = False\<rparr>
                         \<lparr>ac_aliases = [], ac_is_agent = False, ac_timezone = None, ac_locale = None\<rparr> w;
                  d = (at_dash w1)\<lparr>ds_credentials := (ds_credentials (at_dash w1))(admin_id \<mapsto> de_password_hash (an_dash env) pw)\<rparr>
              in (set_dash d w1, Inr (issue_session_cookie (an_dash env) now fresh admin_id True d))))))"

section \<open>Bots\<close>

definition ensure_system_user :: "accounts \<Rightarrow> string \<Rightarrow> accounts \<times> account_refusal option" where
  "ensure_system_user w agent =
     (if \<not> is_valid_user_id agent \<or> \<not> is_filesystem_safe agent then (w, Some BadIdShape)
      else if is_guest agent then (w, Some GuestIsReserved)
      else case wiki_id_parse agent of
        Inl _ \<Rightarrow> (w, Some IdIsNoWikiId)
      | Inr _ \<Rightarrow>
          if agent \<in> user_ids w then (w, if is_system_user w agent then None else Some (HumanWithLogin agent))
          else if agent \<in> set (at_groups w) then (w, Some (IdIsAGroup agent))
          else (insert_user \<lparr>du_user_id = agent, du_email = None, du_is_admin = False, du_require_2fa = False\<rparr>
                  \<lparr>ac_aliases = [], ac_is_agent = False, ac_timezone = None, ac_locale = None\<rparr> w, None))"

definition resolve_standard_sender ::
  "string \<Rightarrow> string list \<Rightarrow> accounts \<Rightarrow> accounts \<times> (account_refusal + string \<times> bool)" where
  "resolve_standard_sender agent allowed w =
     (if allowed = [] then (w, Inl NoAllowedSender)
      else case List.find (\<lambda>a. a \<notin> user_ids w \<and> \<not> is_guest a) allowed of
        Some bad \<Rightarrow> (w, Inl (UnknownAllowedSender bad))
      | None \<Rightarrow>
          (case ensure_system_user w agent of
             (w', Some e) \<Rightarrow> (w', Inl e)
           | (w', None) \<Rightarrow> (w'\<lparr>at_delegations := (at_delegations w')(agent \<mapsto> allowed)\<rparr>, Inr (agent, False))))"

definition validate_token_identity :: "accounts \<Rightarrow> string \<Rightarrow> consumer_class \<Rightarrow> bool \<Rightarrow> account_refusal option" where
  "validate_token_identity w sender cls has_consumer_id =
     (if is_guest sender then Some GuestHoldsNoToken
      else if is_standard cls then
        (if \<not> is_system_user w sender then Some (NotASystemUser sender)
         else if \<not> has_consumer_id then Some NeedsConsumerId else None)
      else None)"

text \<open>Issuing a standard token: \<open>Some\<close> sender the token was signed for.\<close>

definition issue_standard :: "string \<Rightarrow> string list \<Rightarrow> accounts \<Rightarrow> accounts \<times> (account_refusal + string)" where
  "issue_standard consumer_id allowed w =
     (case resolve_standard_sender consumer_id allowed w of
        (w', Inl e) \<Rightarrow> (w', Inl e)
      | (w', Inr (sender, _)) \<Rightarrow>
          (case validate_token_identity w' sender Standard True of
             Some e \<Rightarrow> (w', Inl e)
           | None \<Rightarrow> (w', Inr sender)))"

text \<open>The first request of such a token marks its sender (\<open>ensure_agent_identity\<close> from the middleware).\<close>

definition account_mark_agent :: "string \<Rightarrow> accounts \<Rightarrow> accounts" where
  "account_mark_agent user w =
     w\<lparr>at_columns := (at_columns w)(user := map_option (\<lambda>c. c\<lparr>ac_is_agent := True\<rparr>) (at_columns w user))\<rparr>"

section \<open>Leaving\<close>

text \<open>
  The account's part of an erasure: the id is spent, the row goes, and with it by foreign key what hangs on it.
\<close>

definition erase_account :: "string \<Rightarrow> accounts \<Rightarrow> accounts" where
  "erase_account user w =
     w\<lparr>at_forgotten := record_forgotten_id user (at_forgotten w), at_dash := erase_person user (at_dash w),
       at_columns := (at_columns w)(user := None),
       at_invitations := filter (\<lambda>r. iv_user_id r \<noteq> user) (at_invitations w)\<rparr>"

section \<open>Runs\<close>

datatype account_op =
    ANew string new_user_form
  | AEdit string edit_user_form
  | AReset2fa string
  | AReinvite string string
  | AAccept string string string
  | AAdminReset int string string bool
  | ASetup setup_form
  | AStandard string "string list"
  | AConnect string
  | AErase string

text \<open>The state after an operation, and the invitation it accepted.\<close>

fun run_account_op ::
  "accounts_env \<Rightarrow> int \<Rightarrow> string \<Rightarrow> account_op \<Rightarrow> accounts \<Rightarrow> accounts \<times> string list" where
  "run_account_op env now fresh (ANew actor form) w = (fst (new_submit env now fresh actor form w), [])"
| "run_account_op env now fresh (AEdit user form) w = (fst (edit_submit env user form w), [])"
| "run_account_op env now fresh (AReset2fa user) w = (reset_2fa user w, [])"
| "run_account_op env now fresh (AReinvite actor user) w = (fst (reinvite env now fresh actor user w), [])"
| "run_account_op env now fresh (AAccept i pw confirm) w =
     map_prod id (\<lambda>res. case res of Inl _ \<Rightarrow> [] | Inr _ \<Rightarrow> [i]) (accept_submit env now fresh i pw confirm w)"
| "run_account_op env now fresh (AAdminReset ttl actor user clear) w =
     (fst (admin_reset now fresh ttl actor user clear w), [])"
| "run_account_op env now fresh (ASetup form) w = (fst (setup_submit env now fresh form w), [])"
| "run_account_op env now fresh (AStandard consumer_id allowed) w = (fst (issue_standard consumer_id allowed w), [])"
| "run_account_op env now fresh (AConnect user) w = (account_mark_agent user w, [])"
| "run_account_op env now fresh (AErase user) w = (erase_account user w, [])"

text \<open>A run: the accounts, the random ids drawn so far and the invitations accepted so far.\<close>

type_synonym account_run = "accounts \<times> string set \<times> string list"

inductive account_step :: "accounts_env \<Rightarrow> (account_op \<Rightarrow> accounts \<Rightarrow> bool) \<Rightarrow> account_run \<Rightarrow> account_run \<Rightarrow> bool"
  for env permitted where
  account_step_op: "fresh \<notin> seen \<Longrightarrow> permitted op w \<Longrightarrow> run_account_op env now fresh op w = (w', ids) \<Longrightarrow>
    account_step env permitted (w, seen, used) (w', insert fresh seen, ids @ used)"

section \<open>An invitation opens once\<close>

lemma setup_frame:
  "at_invitations (insert_user u c w) = at_invitations w" "at_invitations (set_dash d w) = at_invitations w"
  "at_invitations (reset_2fa user w) = at_invitations w" "at_invitations (account_mark_agent user w) = at_invitations w"
  "at_invitations (fst (issue_standard cid allowed w)) = at_invitations w"
  "at_invitations (fst (edit_submit env user form w)) = at_invitations w"
  "at_invitations (fst (setup_submit env now fresh sform w)) = at_invitations w"
  by (simp_all add: insert_user_def set_dash_def reset_2fa_def account_mark_agent_def issue_standard_def
      resolve_standard_sender_def ensure_system_user_def edit_submit_def setup_submit_def Let_def split: option.split sum.split prod.split)

definition marks_used :: "int \<Rightarrow> string \<Rightarrow> invitation_row \<Rightarrow> invitation_row" where
  "marks_used now i r = (if iv_invitation_id r = i \<and> iv_consumed_at r = None then r\<lparr>iv_consumed_at := Some now\<rparr> else r)"

lemma live_invitation:
  assumes "lookup_live_invitation now i w = Some x"
  obtains r where "r \<in> set (at_invitations w)" "iv_invitation_id r = i" "iv_consumed_at r = None"
  using assms that by (auto simp: lookup_live_invitation_def split: option.splits dest!: find_SomeD)

lemma accept_submit_Inr:
  assumes "accept_submit env now fresh i pw confirm w = (w', Inr c)"
  obtains user admin where "lookup_live_invitation now i w = Some (user, admin)"
    "accept_refusal env user pw confirm w = None" "w' = accept_write env now i user pw w"
    "c = issue_session_cookie (an_dash env) now fresh user admin (at_dash w')"
proof (cases "lookup_live_invitation now i w")
  case (Some x)
  obtain user admin where x: "x = (user, admin)" by fastforce
  show ?thesis
    by (rule that [of user admin], cases "accept_refusal env user pw confirm w")
      (use assms Some x in \<open>auto simp: accept_submit_def Let_def split: option.splits\<close>)
qed (use assms in \<open>simp add: accept_submit_def\<close>)

text \<open>What an operation does to the invitations: drop some, drop some and add a fresh one, or use one that was open.\<close>

lemma op_invitations:
  assumes "run_account_op env now fresh op w = (w', ids)"
  obtains P where "ids = []" "at_invitations w' = filter P (at_invitations w)"
  | P r where "ids = []" "at_invitations w' = filter P (at_invitations w) @ [r]" "iv_invitation_id r = fresh" "iv_consumed_at r = None"
  | i r where "ids = [i]" "r \<in> set (at_invitations w)" "iv_invitation_id r = i" "iv_consumed_at r = None"
      "at_invitations w' = map (marks_used now i) (at_invitations w)"
proof -
  have all: "at_invitations w = filter (\<lambda>_. True) (at_invitations w)" by simp
  note stays = that(1) [of "\<lambda>_. True"] and adds = that(2) [of "\<lambda>_. True"]
  show ?thesis
  proof (cases op)
    case (ANew actor form)
    have "at_invitations w' = at_invitations w \<or>
        (\<exists>r. at_invitations w' = at_invitations w @ [r] \<and> iv_invitation_id r = fresh \<and> iv_consumed_at r = None)"
      using assms ANew by (auto simp: new_submit_def Let_def insert_invitation_def setup_frame split: option.splits sum.splits prod.splits)
    then show ?thesis using stays adds assms ANew by auto
  next
    case (AReinvite actor user)
    show ?thesis
    proof (cases "snd (reinvite env now fresh actor user w)")
      case None
      then have "\<exists>r. at_invitations w' = filter (\<lambda>r. \<not> (iv_user_id r = user \<and> iv_consumed_at r = None)) (at_invitations w) @ [r] \<and>
          iv_invitation_id r = fresh \<and> iv_consumed_at r = None"
        using assms AReinvite by (auto simp: reinvite_def insert_invitation_def split: option.splits if_splits)
      then show ?thesis using that(2) assms AReinvite by auto
    next
      case (Some e)
      then have "w' = w" using assms AReinvite by (auto simp: reinvite_def split: option.splits if_splits)
      then show ?thesis using stays assms AReinvite by auto
    qed
  next
    case (AAccept i pw confirm)
    show ?thesis
    proof (cases "snd (accept_submit env now fresh i pw confirm w)")
      case (Inl e)
      then have "w' = w \<and> ids = []"
        using assms AAccept by (auto simp: accept_submit_def Let_def split: option.splits)
      then show ?thesis using stays by auto
    next
      case (Inr c)
      then have r: "accept_submit env now fresh i pw confirm w = (w', Inr c)" "ids = [i]"
        using assms AAccept by (cases "accept_submit env now fresh i pw confirm w"; simp)+
      obtain user admin where l: "lookup_live_invitation now i w = Some (user, admin)" "w' = accept_write env now i user pw w"
        by (rule accept_submit_Inr [OF r(1)]) (rule that; assumption)
      from l(1) obtain r where "r \<in> set (at_invitations w)" "iv_invitation_id r = i" "iv_consumed_at r = None"
        by (rule live_invitation)
      moreover have "at_invitations w' = map (marks_used now i) (at_invitations w)"
        by (simp add: l(2) accept_write_def marks_used_def fun_eq_iff)
      ultimately show ?thesis using that(3) r(2) by blast
    qed
  next
    case (AAdminReset ttl actor user clear)
    have "at_invitations w' = at_invitations w \<or>
        (\<exists>r. at_invitations w' = at_invitations w @ [r] \<and> iv_invitation_id r = fresh \<and> iv_consumed_at r = None)"
      using assms AAdminReset
      by (cases clear) (auto simp: admin_reset_def Let_def insert_invitation_def setup_frame)
    then show ?thesis using stays adds assms AAdminReset by auto
  next
    case (AErase user)
    then show ?thesis using that(1) assms by (auto simp: erase_account_def erase_person_def Let_def)
  qed (use stays assms setup_frame in auto)
qed

definition invitations_ok :: "account_run \<Rightarrow> bool" where
  "invitations_ok x \<longleftrightarrow> (case x of (w, seen, used) \<Rightarrow>
     distinct (map iv_invitation_id (at_invitations w)) \<and> iv_invitation_id ` set (at_invitations w) \<subseteq> seen \<and>
     distinct used \<and> set used \<subseteq> seen \<and>
     (\<forall>r \<in> set (at_invitations w). iv_invitation_id r \<in> set used \<longrightarrow> iv_consumed_at r \<noteq> None))"

lemma marks_used_id [simp]: "iv_invitation_id (marks_used now i r) = iv_invitation_id r"
  by (simp add: marks_used_def)

lemma invitations_ok_step:
  assumes "invitations_ok x" "account_step env permitted x y"
  shows "invitations_ok y"
  using assms(2)
proof cases
  case (account_step_op fresh seen op w now w' ids used)
  have ok: "distinct (map iv_invitation_id (at_invitations w))" "iv_invitation_id ` set (at_invitations w) \<subseteq> seen"
      "distinct used" "set used \<subseteq> seen"
      "\<forall>r \<in> set (at_invitations w). iv_invitation_id r \<in> set used \<longrightarrow> iv_consumed_at r \<noteq> None"
    using assms(1) account_step_op(1) by (auto simp: invitations_ok_def)
  from account_step_op(5) show ?thesis
  proof (cases rule: op_invitations)
    case (1 P)
    then show ?thesis using ok account_step_op(2) by (auto simp: invitations_ok_def distinct_map_filter)
  next
    case (2 P r)
    then show ?thesis using ok account_step_op(2,3) by (auto simp: invitations_ok_def distinct_map_filter)
  next
    case (3 i r)
    have "i \<notin> set used" using ok(5) 3 by auto
    moreover have "i \<in> seen" using ok(2) 3 by auto
    moreover have "map iv_invitation_id (at_invitations w') = map iv_invitation_id (at_invitations w)"
      by (simp add: 3(5) comp_def)
    moreover have "iv_consumed_at q \<noteq> None" if "q \<in> set (at_invitations w')" "iv_invitation_id q \<in> set (i # used)" for q
    proof -
      from that(1) obtain q0 where q0: "q0 \<in> set (at_invitations w)" "q = marks_used now i q0" by (auto simp: 3(5))
      with that(2) ok(5) show ?thesis by (auto simp: marks_used_def split: if_splits)
    qed
    moreover have "iv_invitation_id ` set (at_invitations w') = iv_invitation_id ` set (at_invitations w)"
      by (simp add: 3(5) image_image)
    ultimately show ?thesis using ok account_step_op(2) 3(1) by (auto simp: invitations_ok_def)
  qed
qed

interpretation invitations: stepping "account_step env permitted" invitations_ok for env permitted
  by unfold_locales (rule invitations_ok_step)

text \<open>
  C16: requests served one after the other, an invitation opens one account once. However users are added, edited,
  invited again, reset and erased, no invitation id is accepted twice, and once accepted it is never open again. Two
  conditions: the random ids do not repeat, and each acceptance runs from its read to its commit before the next one
  starts. Without the second, two acceptances that both read the invitation open both go through
  (\<open>invitation_accepted_twice\<close>): the handler reads it before its transaction.
\<close>

theorem invitation_opens_once:
  assumes "rtranclp (account_step env permitted) (w0, seen0, []) (w, seen, used)"
    and "distinct (map iv_invitation_id (at_invitations w0))" "iv_invitation_id ` set (at_invitations w0) \<subseteq> seen0"
  shows "distinct used \<and> (\<forall>i \<in> set used. \<forall>now. lookup_live_invitation now i w = None)"
proof -
  have "invitations_ok (w, seen, used)"
    by (rule invitations.reachable_keeps [OF assms(1)]) (use assms(2,3) in \<open>simp add: invitations_ok_def\<close>)
  then have "distinct used" "\<forall>r \<in> set (at_invitations w). iv_invitation_id r \<in> set used \<longrightarrow> iv_consumed_at r \<noteq> None"
    by (simp_all add: invitations_ok_def)
  moreover have "lookup_live_invitation now i w = None" if "i \<in> set used" for i now
  proof (cases "lookup_live_invitation now i w")
    case (Some x)
    then obtain r where "r \<in> set (at_invitations w)" "iv_invitation_id r = i" "iv_consumed_at r = None"
      by (rule live_invitation)
    with calculation(2) that show ?thesis by auto
  qed
  ultimately show ?thesis by blast
qed

section \<open>A bot or a person with a login\<close>

definition exclusive :: "accounts \<Rightarrow> bool" where
  "exclusive w \<longleftrightarrow> (\<forall>u. account_is_agent w u \<longrightarrow> is_system_user w u)"

text \<open>The first request of a bot's token comes while its sender still has no login.\<close>

fun connects_bots_only :: "account_op \<Rightarrow> accounts \<Rightarrow> bool" where
  "connects_bots_only (AConnect u) w = is_system_user w u"
| "connects_bots_only _ w = True"

lemma exclusive_insert:
  "exclusive w \<Longrightarrow> \<not> ac_is_agent c \<Longrightarrow> exclusive (insert_user u c w)"
  by (auto simp: exclusive_def insert_user_def account_is_agent_def is_system_user_def)

lemma exclusive_frame [simp]:
  "exclusive (w\<lparr>at_invitations := rs\<rparr>) = exclusive w" "exclusive (w\<lparr>at_delegations := ds\<rparr>) = exclusive w"
  "exclusive (insert_invitation now fresh h u a w) = exclusive w"
  by (simp_all add: exclusive_def account_is_agent_def is_system_user_def insert_invitation_def)

lemma exclusive_columns:
  "exclusive w \<Longrightarrow> (\<And>c. ac_is_agent (f c) = ac_is_agent c) \<Longrightarrow>
    exclusive (w\<lparr>at_columns := (at_columns w)(u := map_option f (at_columns w u))\<rparr>)"
  by (auto simp: exclusive_def account_is_agent_def is_system_user_def split: option.splits if_splits)

lemma exclusive_dash:
  "exclusive w \<Longrightarrow> ds_credentials d = ds_credentials (at_dash w) \<Longrightarrow> exclusive (w\<lparr>at_dash := d\<rparr>)"
  by (simp add: exclusive_def account_is_agent_def is_system_user_def)

lemma exclusive_step:
  assumes "exclusive w" "connects_bots_only op w" "run_account_op env now fresh op w = (w', ids)"
  shows "exclusive w'"
proof (cases op)
  case (ANew actor form)
  then show ?thesis
    using assms by (auto simp: new_submit_def Let_def exclusive_insert split: option.splits sum.splits prod.splits)
next
  case (AEdit user form)
  have "exclusive (fst (edit_submit env user form w))"
    using assms(1) exclusive_columns [OF exclusive_dash [OF assms(1)]]
    by (simp add: edit_submit_def Let_def split: option.split sum.split prod.split)
  then show ?thesis using assms(3) AEdit by simp
next
  case (AReset2fa user)
  then show ?thesis
    using assms by (auto simp: reset_2fa_def set_dash_def twofa_disable_def intro!: exclusive_dash)
next
  case (AReinvite actor user)
  then show ?thesis using assms by (auto simp: reinvite_def split: option.splits if_splits)
next
  case (AAccept i pw confirm)
  show ?thesis
  proof (cases "snd (accept_submit env now fresh i pw confirm w)")
    case (Inl e)
    then have "w' = w" using assms(3) AAccept by (auto simp: accept_submit_def Let_def split: option.splits)
    then show ?thesis using assms(1) by simp
  next
    case (Inr c)
    then have r: "accept_submit env now fresh i pw confirm w = (w', Inr c)"
      using assms(3) AAccept by (cases "accept_submit env now fresh i pw confirm w") simp
    obtain user where l: "accept_refusal env user pw confirm w = None" "w' = accept_write env now i user pw w"
      by (rule accept_submit_Inr [OF r]) (rule that; assumption)
    from l(1) have "\<not> account_is_agent w user" by (simp add: accept_refusal_def reject_if_agent_def split: if_splits)
    then show ?thesis
      using assms(1) by (auto simp: l(2) accept_write_def exclusive_def account_is_agent_def is_system_user_def)
  qed
next
  case (AAdminReset ttl actor user clear)
  then show ?thesis
    using assms by (auto simp: admin_reset_def Let_def reset_2fa_def set_dash_def twofa_disable_def intro!: exclusive_dash)
next
  case (ASetup form)
  have "exclusive (fst (setup_submit env now fresh form w))"
    using assms(1)
    by (auto simp: setup_submit_def Let_def set_dash_def insert_user_def exclusive_def account_is_agent_def is_system_user_def
        split: option.splits sum.splits if_splits)
  then show ?thesis using assms(3) ASetup by simp
next
  case (AStandard consumer_id allowed)
  then show ?thesis
    using assms exclusive_insert [OF assms(1)]
    by (auto simp: issue_standard_def resolve_standard_sender_def ensure_system_user_def split: option.splits sum.splits if_splits prod.splits)
next
  case (AConnect user)
  then show ?thesis
    using assms by (auto simp: account_mark_agent_def exclusive_def account_is_agent_def is_system_user_def split: option.splits if_splits)
next
  case (AErase user)
  then show ?thesis
    using assms by (auto simp: erase_account_def erase_person_def Let_def exclusive_def account_is_agent_def is_system_user_def)
qed

definition exclusive_run :: "account_run \<Rightarrow> bool" where "exclusive_run x \<longleftrightarrow> exclusive (fst x)"

interpretation bots: stepping "account_step env connects_bots_only" exclusive_run for env
proof
  fix x y assume "exclusive_run x" "account_step env connects_bots_only x y"
  from this(2,1) show "exclusive_run y" by cases (auto simp: exclusive_run_def dest: exclusive_step)
qed

text \<open>
  C17: an identity is a person with a login or a bot, never both. From accounts where no bot has a password, no
  sequence of additions, edits, invitations, acceptances, resets, erasures and bot tokens gives one a password, as
  long as the first request of a bot's token comes while its sender has no login.
\<close>

theorem bots_have_no_login:
  assumes "rtranclp (account_step env connects_bots_only) (w0, seen0, used0) (w, seen, used)"
    and "\<forall>u. account_is_agent w0 u \<longrightarrow> is_system_user w0 u" "account_is_agent w u"
  shows "ds_credentials (at_dash w) u = None"
proof -
  have "exclusive_run (w, seen, used)"
    by (rule bots.reachable_keeps [OF assms(1)]) (use assms(2) in \<open>simp add: exclusive_run_def exclusive_def\<close>)
  with assms(3) show ?thesis by (simp add: exclusive_run_def exclusive_def is_system_user_def)
qed

section \<open>What does not hold\<close>

text \<open>
  The acceptance reads the invitation and writes later, without looking whether its update found the row still
  open: of two acceptances that both read it open, both set the password and sign in.
\<close>

lemma invitation_accepted_twice:
  "lookup_live_invitation now i (accept_write env now i user pw1 w) = None \<and>
    ds_credentials (at_dash (accept_write env now i user pw2 (accept_write env now i user pw1 w))) user =
      Some (de_password_hash (an_dash env) pw2)"
proof -
  have rows: "at_invitations (accept_write env now i user pw1 w) = map (marks_used now i) (at_invitations w)"
    by (simp add: accept_write_def marks_used_def fun_eq_iff)
  have "lookup_live_invitation now i (accept_write env now i user pw1 w) = None"
  proof (cases "lookup_live_invitation now i (accept_write env now i user pw1 w)")
    case (Some x)
    then obtain r where r: "r \<in> set (at_invitations (accept_write env now i user pw1 w))" "iv_invitation_id r = i"
        "iv_consumed_at r = None"
      by (rule live_invitation)
    from r(1) obtain r0 where r0: "r = marks_used now i r0" unfolding rows set_map by blast
    show ?thesis
    proof (cases "iv_consumed_at r0")
      case None
      moreover have "iv_invitation_id r0 = i" using r(2) r0 marks_used_id by metis
      ultimately have "iv_consumed_at r = Some now" using r0 by (simp add: marks_used_def)
      with r(3) show ?thesis by simp
    next
      case (Some c)
      with r0 r(3) show ?thesis by (simp add: marks_used_def)
    qed
  qed
  then show ?thesis by (simp add: accept_write_def)
qed

text \<open>
  Neither acceptance nor the break-glass reset behind it ends the sessions that are open: a cookie is judged
  after a new password exactly as before, where a password reset by mail signs out everywhere.
\<close>

lemma new_password_keeps_sessions:
  assumes "accept_submit env now fresh i pw confirm w = (w', Inr c)"
  shows "snd (verify_session d now' cookie (at_dash w')) = snd (verify_session d now' cookie (at_dash w))"
proof -
  obtain user where w': "w' = accept_write env now i user pw w"
    by (rule accept_submit_Inr [OF assms]) (rule that; assumption)
  show ?thesis
  proof (cases cookie)
    case (Some tok)
    obtain cache res where v: "verify (de_tokens d) (de_secret d) (ds_revocations (at_dash w)) now' tok (ds_blacklist (at_dash w)) =
      (cache, res)" by fastforce
    then have "jwt_verify d now' tok (at_dash w) = ((at_dash w)\<lparr>ds_blacklist := cache\<rparr>, res)"
        "jwt_verify d now' tok (at_dash w') = ((at_dash w')\<lparr>ds_blacklist := cache\<rparr>, res)"
      by (simp_all add: jwt_verify_def w' accept_write_def)
    moreover have "session_generation (at_dash w') u = session_generation (at_dash w) u" for u
      by (simp add: w' accept_write_def)
    ultimately show ?thesis by (cases res) (simp_all add: verify_session_def Some)
  qed (simp add: verify_session_def)
qed

text \<open>
  The generation of a person's sessions goes with the account, and a missing one counts as zero: a session that
  was ended by signing out everywhere is a session again once the person is erased.
\<close>

lemma erasure_revives_sessions:
  assumes "snd (jwt_verify d now tok (at_dash w)) = Inr c" "tc_device_label c = SESSION_DEVICE_LABEL"
    "tc_sender_id c = user" "0 \<le> claim_gen c"
  shows "snd (verify_session d now (Some tok) (at_dash (erase_account user w))) = Some c"
proof -
  have "snd (jwt_verify d now tok (at_dash (erase_account user w))) = Inr c"
    using assms(1) by (simp add: jwt_verify_def erase_account_def erase_person_def Let_def split: prod.splits)
  then obtain s' where s': "jwt_verify d now tok (at_dash (erase_account user w)) = (s', Inr c)" by (metis prod.collapse)
  have "session_generation s' user = 0"
    using jwt_verify_gen [of d now tok "at_dash (erase_account user w)" user] s'
    by (simp add: erase_account_def erase_person_def Let_def session_generation_def)
  then show ?thesis using s' assms(2-4) by (simp add: verify_session_def claim_gen_def)
qed

text \<open>A house: Ann runs it, Bob answers to another name as well, and somebody was erased as Carl.\<close>

definition house_columns :: "string list \<Rightarrow> account_columns" where
  "house_columns aliases = \<lparr>ac_aliases = aliases, ac_is_agent = False, ac_timezone = None, ac_locale = None\<rparr>"

definition household :: accounts where
  "household = \<lparr>at_dash = desk\<lparr>ds_users :=
       [\<lparr>du_user_id = ''ann'', du_email = Some ''a@x.it'', du_is_admin = True, du_require_2fa = False\<rparr>,
        \<lparr>du_user_id = ''bob'', du_email = Some ''b@x.it'', du_is_admin = False, du_require_2fa = False\<rparr>],
       ds_credentials := [''ann'' \<mapsto> ''secret-a'']\<rparr>,
     at_columns = [''ann'' \<mapsto> house_columns [], ''bob'' \<mapsto> house_columns [''bobby'']], at_groups = [''family''],
     at_forgotten = [''carl''], at_invitations = [], at_delegations = Map.empty\<rparr>"

definition household_env :: accounts_env where
  "household_env = \<lparr>an_dash = desk_env, an_fold = (\<lambda>s. if s = [] then [] else [s]), an_invitation_ttl_hours = 24\<rparr>"

definition new_person :: "string \<Rightarrow> new_user_form" where
  "new_person i = \<lparr>nu_user_id = i, nu_email = ''new@x.it'', nu_aliases = [], nu_timezone = [], nu_locale = []\<rparr>"

text \<open>
  The id of an erased person is refused to a person, and given to a bot: a standard token for it makes the user.
\<close>

lemma spent_id_enrols_as_bot:
  "snd (new_submit household_env 0 ''i1'' ''ann'' (new_person ''carl'') household) = Some (IdIsSpent ''carl'') \<and>
   snd (issue_standard ''carl'' [''bob''] household) = Inr ''carl'' \<and>
   map du_user_id (ds_users (at_dash (fst (issue_standard ''carl'' [''bob''] household)))) = [''ann'', ''bob'', ''carl'']"
  by code_simp

text \<open>The aliases of a new person are compared with the names of the others, their id is not.\<close>

lemma alias_becomes_an_id:
  "snd (new_submit household_env 0 ''i1'' ''ann'' (new_person ''bobby'') household) = None \<and>
   snd (edit_submit household_env ''ann'' \<lparr>eu_email = ''a@x.it'', eu_new_aliases = ''bobby'', eu_new_timezone = [],
     eu_new_locale = [], eu_require_2fa = False\<rparr> household) =
   Some (NameTaken \<lparr>nc_name = ''bobby'', nc_user_id = ''bob'', nc_existing = ''bobby'', nc_is_user_id = False\<rparr>)"
  by code_simp

text \<open>
  The mark of a bot is set by the first request of its token: a token issued for a person who has not accepted
  their invitation yet makes them a bot with a login once they have.
\<close>

definition invited_bob :: accounts where
  "invited_bob = fst (reinvite household_env 0 ''i1'' ''ann'' ''bob'' household)"

definition bob_both :: accounts where
  "bob_both = account_mark_agent ''bob'' (fst (accept_submit household_env 1 ''j1'' ''i1'' ''pass-word'' ''pass-word''
     (fst (issue_standard ''bob'' [''ann''] invited_bob))))"

lemma bot_with_a_login:
  "snd (issue_standard ''bob'' [''ann''] invited_bob) = Inr ''bob'' \<and> account_is_agent bob_both ''bob'' \<and>
   \<not> is_system_user bob_both ''bob''"
  by code_simp

section \<open>The properties at work\<close>

lemma bob_accepts:
  "run_account_op household_env 1 ''j1'' (AAccept ''i1'' ''pass-word'' ''pass-word'') invited_bob =
     (fst (run_account_op household_env 1 ''j1'' (AAccept ''i1'' ''pass-word'' ''pass-word'') invited_bob), [''i1''])"
proof -
  have "snd (run_account_op household_env 1 ''j1'' (AAccept ''i1'' ''pass-word'' ''pass-word'') invited_bob) = [''i1'']"
    by code_simp
  then show ?thesis by (metis prod.collapse)
qed

lemma household_run:
  assumes "permitted (AReinvite ''ann'' ''bob'') household" "permitted (AAccept ''i1'' ''pass-word'' ''pass-word'') invited_bob"
  shows "rtranclp (account_step household_env permitted) (household, {}, [])
    (fst (run_account_op household_env 1 ''j1'' (AAccept ''i1'' ''pass-word'' ''pass-word'') invited_bob), {''i1'', ''j1''}, [''i1''])"
proof -
  have "account_step household_env permitted (household, {}, []) (invited_bob, insert ''i1'' {}, [] @ [])"
    by (rule account_step_op [where op = "AReinvite ''ann'' ''bob''" and now = 0]) (use assms in \<open>simp_all add: invited_bob_def\<close>)
  moreover have "account_step household_env permitted (invited_bob, {''i1''}, [])
      (fst (run_account_op household_env 1 ''j1'' (AAccept ''i1'' ''pass-word'' ''pass-word'') invited_bob),
       insert ''j1'' {''i1''}, [''i1''] @ [])"
    by (rule account_step_op [where op = "AAccept ''i1'' ''pass-word'' ''pass-word''" and now = 1])
      (use assms(2) bob_accepts in simp_all)
  ultimately show ?thesis by (simp add: insert_commute)
qed

theorem invitation_opens_once_witness:
  "distinct [''i1''] \<and> lookup_live_invitation 5 ''i1''
     (fst (run_account_op household_env 1 ''j1'' (AAccept ''i1'' ''pass-word'' ''pass-word'') invited_bob)) = None"
  using invitation_opens_once [OF household_run [of "\<lambda>_ _. True"]] by (simp add: household_def)

theorem bots_have_no_login_witness:
  "ds_credentials (at_dash (account_mark_agent ''bob'' household)) ''bob'' = None"
proof (rule bots_have_no_login)
  have "account_step household_env connects_bots_only (household, {}, []) (account_mark_agent ''bob'' household, insert ''i1'' {}, [] @ [])"
    by (rule account_step_op [where op = "AConnect ''bob''" and now = 0])
      (simp_all add: is_system_user_def household_def)
  then show "rtranclp (account_step household_env connects_bots_only) (household, {}, [])
      (account_mark_agent ''bob'' household, insert ''i1'' {}, [] @ [])" ..
  show "\<forall>u. account_is_agent household u \<longrightarrow> is_system_user household u"
    by (simp add: account_is_agent_def household_def house_columns_def split: option.split)
  show "account_is_agent (account_mark_agent ''bob'' household) ''bob''"
    by (simp add: account_is_agent_def account_mark_agent_def household_def)
qed

end
