(* ===== verification/Spec2Isabelle.thy ===== *)
theory Spec2Isabelle
  imports Mwe_OAuth Mwe_Wal Mwe_Render Mwe_Ballot Mwe_LeaseLock Mwe_Reminders Mwe_LightDream Mwe_Kept Mwe_Accounts
begin

text \<open>
  Verification of the core of mwe-mcp, a memory server that keeps facts about people in Markdown
  wikis, serves each page redacted for its reader, and puts some changes to a vote. The Rust
  sources are under \<open>src/crates\<close>; each theory names the file it models.

  \<^bold>\<open>Parts and theories.\<close> Strings are UTF-8 byte lists (type \<open>string\<close>), a struct is a record, an enum a
  datatype, a fallible function returns \<open>error + result\<close> with every error a value. An SQL table is the
  list of its rows, a statement a function on it, and the wall clock an argument.

    \<^item> \<open>Mwe_Prelude\<close>: strings, UTF-8, searching and splitting as \<open>str\<close> does them; the locales \<open>stepping\<close>
      (a step relation with an invariant) and \<open>simulation\<close> (an abstraction into another system).
    \<^item> \<open>Mwe_Types\<close> (\<open>types.rs\<close>): principals, fact, catalog and wiki ids with their parsers.
    \<^item> \<open>Mwe_Enrollment\<close> (\<open>enrollment.rs\<close>): the enrollment file and its validation, the roster queries; the
      locale \<open>roster\<close> is what access control asks of them, interpreted on the enrollment table.
    \<^item> \<open>Mwe_Acl\<close> (\<open>acl.rs\<close>): who may read, rewrite, retract; reader sets, widening, the audience.
    \<^item> \<open>Mwe_Parser\<close> (\<open>parser.rs\<close>, marker writers of \<open>capture.rs\<close>): the region and embed scanner.
    \<^item> \<open>Mwe_Wiki\<close> (\<open>wiki.rs\<close>): page styles, page-name classifiers, frontmatter. \<open>Mwe_Slug\<close> (\<open>slug.rs\<close>).
    \<^item> \<open>Mwe_Render\<close> (\<open>render.rs\<close>): the redacted page in its four modes and the administrator's reveal.
    \<^item> \<open>Mwe_FactIndex\<close>, \<open>Mwe_FactStore\<close> (\<open>fact_index.rs\<close>): the fact table, its write primitives and queries;
      the operations as a step relation with the invariant of unique ids and validity windows.
    \<^item> \<open>Mwe_Json\<close>: the JSON values the stored payloads are made of, with the accessors of \<open>serde_json\<close> used.
    \<^item> \<open>Mwe_Proposals\<close>, \<open>Mwe_Votes\<close>, \<open>Mwe_Ballot\<close> (\<open>proposals.rs\<close>, \<open>votes.rs\<close>): proposals, the forget vote
      and its sweeps; the invariant that a resolution was earned.
    \<^item> \<open>Mwe_Leases\<close>, \<open>Mwe_LeaseLock\<close> (\<open>wiki_admin_leases.rs\<close>, the gate of \<open>wiki_admin.rs\<close>): leases, mutual
      exclusion, and the refinement of one lock per wiki.
    \<^item> \<open>Mwe_Tokens\<close> (\<open>jwt.rs\<close>): claims, verification, revocation and the blacklist cache; the locale \<open>ttl_cache\<close> is
      a snapshot reloaded when it is a minute old, interpreted here and on the delegations.
    \<^item> \<open>Mwe_Identity\<close> (\<open>delegations.rs\<close>, \<open>consumers.rs\<close>, \<open>mcp/auth.rs\<close>, \<open>mcp/state.rs\<close>): who a request speaks for.
    \<^item> \<open>Mwe_Sessions\<close> (\<open>auth/session.rs\<close>, \<open>twofa.rs\<close> and the routes \<open>login\<close>, \<open>auth_link\<close>, \<open>two_factor\<close>, \<open>logout\<close>,
      \<open>settings\<close>, \<open>password_reset\<close> of the dashboard): signing in, the session layer, signing out.
    \<^item> \<open>Mwe_OAuth\<close> (\<open>oauth_server.rs\<close>, \<open>webagentoauth.rs\<close>, the sweeps of \<open>housekeeping.rs\<close>): clients, consent, codes,
      rotating tokens. The step relation keeps the consents given and the codes exchanged beside the
      state, so that agreement between them is an invariant.
    \<^item> \<open>Mwe_Wal\<close> (\<open>wal.rs\<close>): the journal of the nightly cycle and its recovery at start.
    \<^item> \<open>Mwe_RateLimit\<close> (\<open>mcp/ratelimit.rs\<close>, the dashboard's \<open>ratelimit.rs\<close>, profiles of \<open>config.rs\<close>): the locale
      \<open>axis\<close> is one ceiling, interpreted on each of the four windows of a bucket.
    \<^item> \<open>Mwe_Accounts\<close> (\<open>routes/users.rs\<close>, \<open>invitations.rs\<close>, \<open>setup.rs\<close>, \<open>tokens.rs\<close>, \<open>admin-reset\<close> of the server): who is
      enrolled: adding, editing, inviting and accepting, the first administrator, the identities of bots.

    \<^item> \<open>Mwe_Similarity\<close> (\<open>recall.rs\<close>): when two texts are near duplicates: character n-grams and their Jaccard
      quotient, rounded to single precision as the code computes it.
    \<^item> \<open>Mwe_Capture\<close> (\<open>capture.rs\<close>, \<open>ingest.rs\<close>, \<open>disclosure_audit.rs\<close>, \<open>promote.rs\<close>): what a claim does to the fact it
      repeats: carrying a wider audience onto it, or fencing it off, with the receipt and the audit row.
    \<^item> \<open>Mwe_Buffer\<close> (\<open>capture_buffer.rs\<close>): the queue of claims that wait for a page: writing, parking, releasing,
      promoting, skipping, correcting, giving a fact back.
    \<^item> \<open>Mwe_LightDream\<close> (\<open>dream_light.rs\<close>, \<open>recall_log.rs\<close>): the round that empties the queue: folding
      duplicates, projecting the rest for the planner, writing what was placed.
    \<^item> \<open>Mwe_Erasure\<close>, \<open>Mwe_Kept\<close> (\<open>gdpr.rs\<close>, \<open>page.rs\<close>, \<open>wiki_delete.rs\<close>): the erasure of a person across the facts, the
      queue, the notices and every table that carries a user id; the disposal of the facts of a page or a wiki.
    \<^item> \<open>Mwe_Events\<close> (\<open>events.rs\<close>, the tools \<open>mcp/tools/poll\<close> and \<open>ack\<close>, the purge of \<open>housekeeping.rs\<close>): the
      queue of messages to the consumers: who is served what, acknowledgements, deadlines, ageing.
    \<^item> \<open>Mwe_Reminders\<close> (\<open>reminders.rs\<close>, its part of \<open>config.rs\<close>): the daily scan for commitments about to fall
      due, the message it enqueues, and the record in the queue that keeps it from ringing twice.
    \<^item> \<open>Mwe_Ledgers\<close> (\<open>ingest_replay.rs\<close>, \<open>recent_window.rs\<close>, \<open>compile_failures.rs\<close>, \<open>rem_verdicts.rs\<close>): what is
      remembered across turns: answers to redelivered turns, the recent turns, failures, verdicts.

  \<^bold>\<open>How they interact.\<close> The renderer parses a page, looks each region's fact up in the map the fact index
  gives it and asks access control; the query surface asks the same question in SQL. A vote computes
  its electorate with access control over the roster and resolves into a tombstone of the fact index,
  which takes the fact out of the renderer's map. The properties of this theory cross these lines:
  the surfaces agree, forgetting reaches the page, and what the OAuth server issues after a consent on
  the dashboard speaks at the MCP endpoint for the person who consented. Sessions, links, OAuth tokens
  and MCP bearers are all tokens of one signer, told apart by their claims; the dashboard, the OAuth
  endpoints and the MCP middleware share \<open>verify\<close> and its revocation table. Reminders read the fact table,
  ask access control whom a fact may be told to, and write into the event queue, whose rows they also
  read back as their own memory. A claim enters the queue, the light round compares it with the facts and the
  rest of the queue, and it becomes a fact or is folded into one; a page that goes hands facts back to the
  queue. The erasure runs over all of these, and spends the id of an account.

  \<^bold>\<open>What is shown.\<close> Reading: exclusion wins, the read check agrees with its SQL form, with reader sets
  and with the polled audience; no output depends on what a reader may not read. Parsing: events tile
  the page at character boundaries, an admitted body cannot break out of its region, markers
  round-trip. Storing: no validity window ends before it starts, tombstones are final, queries are
  totally ordered, erasure discloses nothing. Voting: a contribution is only taken away with the
  consent of its readers, resolutions are final, silence carries. Leases and limits: exclusion,
  bounded locking, at most twice a ceiling in any stretch of its window, isolation of tokens. Identity:
  a session takes every factor its person has and ends when they sign out, a revocation or a withdrawn
  delegation holds within a minute, nobody is spoken for without a delegation, a token of a connection
  answers to one consent and is used once. Recovery: abandoned steps are closed and nothing else is.
  Delivery: an event reaches only whom it is addressed to, a polling consumer gets all of its mail and
  what it acknowledged never again; a commitment rings once a year and only for who may read it; a
  turn delivered twice gets the first answer. Remembering: nobody comes to read by a round of the queue what
  they were not told, no claim is lost in it, a claim that is decided stays decided, a wider room adds
  readers and a fence only takes them away. Forgetting: an erased person is named nowhere the erasure
  looks, and what somebody else told is kept; a deleted page gives back what was not the deleter's.
  Accounts: an invitation opens once, no bot gets a password. Lemmas named in the findings of the manifest show where the code
  departs from what it says, each on a concrete state.

  \<^bold>\<open>Parameters.\<close> Code outside the repository is an argument: reading and writing instants (chrono) and
  SQLite's \<open>datetime\<close>, the Unicode decomposition behind slugs, SHA-256 behind lease ids and secrets, fresh UUIDs and
  random secrets, signing and decoding of tokens, password hashing, one-time codes and the JSON of lists.
  What is relied on is a named hypothesis (\<open>clock_ok\<close>, \<open>timestamps_ok\<close>, \<open>json_lists_ok\<close>, \<open>unforged\<close>,
  \<open>no_collision\<close>). The handlers of the proposal kinds that are
  not modelled, and whether a link may be followed, are arguments as well. So are the embedder and the plan of
  the light round (models), lower-casing and folding of Unicode text, and for the erasure whether prose could be
  cut from a page and a fact moved to another. Columns that hold
  \<open>to_rfc3339\<close> text are instants in nanoseconds where the code only compares them.

  \<^bold>\<open>Bounds.\<close> No definition uses fuel: the scanners terminate by a measure on the unread input, the other
  recursions are structural. Counters of the rate limiters are 32-bit words; their bound assumes fewer
  than \<open>2^32\<close> calls per process.

  \<^bold>\<open>Not modelled.\<close> Model and embedder calls and everything built on their output (the classification of a
  message, the nightly cycle, compiler, planner, ranking and navigation of recall), the file tree and its atomic
  writes, HTTP routing and HTML, mail, media, backups and configuration. Concurrency is modelled where the code reads and writes in separate
  statements and a claim depends on it (\<open>interleaved_acquires_both_win\<close>, \<open>invitation_accepted_twice\<close>); elsewhere a call is one step.
\<close>

section \<open>One access rule on every surface\<close>

lemma map_of_page_acl_map_active:
  assumes "distinct (map fr_fact_id tab)" "r \<in> set tab" "fr_source_path r = path" "active r"
  shows "map_of (page_acl_map_active path tab) (fr_fact_id r) = Some (region_acl_of r)"
proof (rule map_of_is_SomeI)
  have "map fst (page_acl_map_active path tab) =
      map fr_fact_id (filter (\<lambda>r. fr_source_path r = path \<and> active r) tab)"
    by (simp add: page_acl_map_active_def page_acl_map_impl_def comp_def)
  then show "distinct (map fst (page_acl_map_active path tab))"
    using assms(1) by (simp add: distinct_map_filter)
  show "(fr_fact_id r, region_acl_of r) \<in> set (page_acl_map_active path tab)"
    using assms by (auto simp: page_acl_map_active_def page_acl_map_impl_def)
qed

lemma not_in_page_acl_map_active:
  assumes "distinct (map fr_fact_id tab)" "r \<in> set tab" "\<not> active r"
  shows "map_of (page_acl_map_active path tab) (fr_fact_id r) = None"
proof -
  have "x = r" if "x \<in> set tab" "fr_fact_id x = fr_fact_id r" for x
    using assms(1,2) that by (auto simp: distinct_map inj_on_def)
  then show ?thesis
    using assms(3) by (auto simp: page_acl_map_active_def page_acl_map_impl_def map_of_eq_None_iff)
qed

text \<open>
  C37: the surfaces agree on who reads what. For an active fact on its page, the renderer shows the
  region to a reader exactly when the structured query with that reader's principals returns the row,
  whatever other regions, rows and attributes in the marker there are: a page and a query never give
  different answers about the same fact.
\<close>

theorem surfaces_agree:
  assumes "distinct (map fr_fact_id tab)" "r \<in> set tab" "active r"
    and "ra_fact_id attrs = Some (fr_fact_id r)"
  shows "region_visible view (page_acl_map_active (fr_source_path r) tab) attrs \<longleftrightarrow>
         r \<in> set (find_by_filters dt
           (no_filters\<lparr>ff_readable_by := Some (reader_principals (rv_sender_id view) (rv_sender_groups view))\<rparr>) tab)"
proof -
  let ?f = "no_filters\<lparr>ff_readable_by := Some (reader_principals (rv_sender_id view) (rv_sender_groups view))\<rparr>"
  have "matches dt ?f r \<longleftrightarrow> row_readable_by r (rv_sender_id view) (rv_sender_groups view)"
    using assms(3) readable_by_sql_iff [of "rv_sender_id view" "rv_sender_groups view" r]
    by (simp add: matches_def filter_preds_def no_filters_def)
  then have "r \<in> set (find_by_filters dt ?f tab) \<longleftrightarrow> row_readable_by r (rv_sender_id view) (rv_sender_groups view)"
    using assms(2) by (simp add: find_by_filters_def no_filters_def)
  moreover have "map_of (page_acl_map_active (fr_source_path r) tab) (fr_fact_id r) = Some (region_acl_of r)"
    using map_of_page_acl_map_active [OF assms(1,2) refl assms(3)] .
  ultimately show ?thesis
    using assms(4)
    by (simp add: region_visible_def resolve_region_acl_def region_acl_of_def row_readable_by_def row_acl_def)
qed

section \<open>Forgetting reaches the page\<close>

lemma forgotten_row_in_table:
  assumes "find_by_id tab fid = Some row"
  shows "\<exists>r \<in> set (run_op env now (OpForget fid why) tab).
    fr_fact_id r = fid \<and> fr_source_path r = fr_source_path row \<and> fr_deleted_at r \<noteq> None"
proof -
  have r: "row \<in> set tab" "fr_fact_id row = fid"
    using find_by_id_SomeD [OF assms] by simp_all
  let ?r = "if live fid row then tombstone now why row else row"
  have "?r \<in> set (run_op env now (OpForget fid why) tab)"
    using r(1) by (auto simp: mark_forgotten_def sql_update_def)
  moreover have "fr_fact_id ?r = fid" "fr_source_path ?r = fr_source_path row" "fr_deleted_at ?r \<noteq> None"
    using r(2) by (auto simp: tombstone_def live_def)
  ultimately show ?thesis by blast
qed

lemma forgotten_leaves_the_map:
  assumes "distinct (map fr_fact_id tab)" "find_by_id tab fid = Some row" "\<forall>(now, op) \<in> set ops. \<not> removes row op"
  shows "map_of (page_acl_map_active path (run_ops env ops (run_op env now (OpForget fid why) tab))) fid = None"
proof -
  let ?tab = "run_op env now (OpForget fid why) tab"
  obtain r where r: "r \<in> set ?tab" "fr_fact_id r = fid" "fr_source_path r = fr_source_path row" "fr_deleted_at r \<noteq> None"
    using forgotten_row_in_table [OF assms(2)] by blast
  have "fr_fact_id row = fid" using find_by_id_SomeD [OF assms(2)] by simp
  then have "\<forall>(now, op) \<in> set ops. \<not> removes r op"
    using assms(3) r(2,3) by (auto simp: removes_def)
  from run_ops_tombstone [OF run_op_distinct_ids [OF assms(1)] r(1,4) this]
  obtain r' where r': "distinct (map fr_fact_id (run_ops env ops ?tab))" "r' \<in> set (run_ops env ops ?tab)"
      "apart_from_bookkeeping r' = apart_from_bookkeeping r" by blast
  note same = apart_from_bookkeepingD [OF r'(3)]
  have "\<not> active r'" using r(4) same(2) by (simp add: active_def)
  with not_in_page_acl_map_active [OF r'(1,2)] same(1) r(2) show ?thesis by simp
qed

text \<open>
  A marker that names a fact and grants nothing of its own, as the engine writes them: no subject, no readers, no
  author.
\<close>

definition bare_marker_of :: "fact_id \<Rightarrow> region_attrs \<Rightarrow> bool" where
  "bare_marker_of fid a \<longleftrightarrow>
     ra_fact_id a = Some fid \<and> acl_subject (ra_acl a) = None \<and> acl_allow (ra_acl a) = [] \<and> ra_sender a = None"

text \<open>Two pages that are the same but for what stands between the bare markers of a fact.\<close>

fun alike_but_fact :: "fact_id \<Rightarrow> string \<Rightarrow> string \<Rightarrow> parse_event \<Rightarrow> parse_event \<Rightarrow> bool" where
  "alike_but_fact fid b1 b2 (Prose _ _ t) (Prose _ _ t') = (t = t')"
| "alike_but_fact fid b1 b2 (Embed s e _) (Embed s' e' _) = (Mwe_Prelude.slice b1 s e = Mwe_Prelude.slice b2 s' e')"
| "alike_but_fact fid b1 b2 (Region _ _ a _ _ body _) (Region _ _ a' _ _ body' _) =
     (a = a' \<and> (body = body' \<or> bare_marker_of fid a))"
| "alike_but_fact fid b1 b2 _ _ = False"

lemma bare_marker_hidden:
  assumes "map_of db fid = None" "bare_marker_of fid a"
  shows "\<not> region_visible view db a"
  using assms by (simp add: bare_marker_of_def region_visible_def resolve_region_acl_def can_read_def)

lemma alike_but_fact_alike:
  assumes "map_of db fid = None" "alike_but_fact fid b1 b2 ev ev'"
  shows "event_alike view db b1 b2 ev ev'"
  using assms(2) bare_marker_hidden [OF assms(1)]
  by (cases "(fid, b1, b2, ev, ev')" rule: alike_but_fact.cases) auto

lemma unknown_fact_not_served:
  assumes "map_of db fid = None"
  shows "Some fid \<notin> rs_fact_id ` set (segments (render_for_sender_segments page db view))"
proof
  assume "Some fid \<in> rs_fact_id ` set (segments (render_for_sender_segments page db view))"
  then obtain s where s: "s \<in> set (segments (render_for_sender_segments page db view))" "rs_fact_id s = Some fid" by force
  then have "rv_page view = AsWritten \<or> db \<noteq> []"
    by (auto simp: render_for_sender_segments_def default_segmented_def Let_def split: if_splits)
  from s(1) [unfolded render_segments_unfold [OF this]] obtain sec b where
    "(sec, PieceRegion b True (Some fid)) \<in> set (page_pieces view db (doc_body page) (events (parse (doc_body page))) 0)"
    using assemble_segments [OF _ s(2)] by blast
  from page_pieces_region_event [OF this] obtain a where "segment_fact_id a db = Some fid" by auto
  with assms show False by (auto simp: segment_fact_id_def split: option.splits if_splits)
qed

text \<open>
  C29: what was forgotten stays unreadable. After a fact is forgotten, and after any further operations of the
  store (re-inserting, restoring, re-sharing, moving, rewriting; only the removal of the row itself is excluded, by
  its erasure or with every row of its page), the page any reader is served, in any mode, is the same whatever
  stands between the bare markers of that fact: two files that agree everywhere else are served identically,
  segment by segment and with the same counts, and no segment carries its id. The other facts and the prose of the
  page are whatever they are. A bare marker names the fact and carries no subject, readers or author of its own;
  the administrator's reveal is a separate render.
\<close>

theorem forgotten_fact_stays_withheld:
  assumes "distinct (map fr_fact_id tab)" "find_by_id tab fid = Some row" "\<forall>(now, op) \<in> set ops. \<not> removes row op"
    and "db = page_acl_map_active path (run_ops env ops (run_op env now (OpForget fid why) tab))"
    and "list_all2 (alike_but_fact fid (doc_body page1) (doc_body page2))
           (events (parse (doc_body page1))) (events (parse (doc_body page2)))"
  shows "render_for_sender_segments page1 db view = render_for_sender_segments page2 db view \<and>
    Some fid \<notin> rs_fact_id ` set (segments (render_for_sender_segments page1 db view))"
proof
  have gone: "map_of db fid = None"
    unfolding assms(4) by (rule forgotten_leaves_the_map [OF assms(1-3)])
  then show "Some fid \<notin> rs_fact_id ` set (segments (render_for_sender_segments page1 db view))"
    by (rule unknown_fact_not_served)
  have "list_all2 (event_alike view db (doc_body page1) (doc_body page2))
      (events (parse (doc_body page1))) (events (parse (doc_body page2)))"
    using assms(5) alike_but_fact_alike [OF gone] by (rule list_all2_mono)
  then show "render_for_sender_segments page1 db view = render_for_sender_segments page2 db view"
    by (cases "rv_page view \<noteq> AsWritten \<and> db = []")
      (simp add: render_for_sender_segments_def Let_def,
       subst (1 2) render_segments_unfold, auto intro!: assemble_alike page_pieces_alike)
qed

text \<open>A page that holds nothing but the bare marker of the fact serves nothing at all.\<close>

lemma forgotten_fact_alone_serves_nothing:
  assumes "distinct (map fr_fact_id tab)" "find_by_id tab fid = Some row" "\<forall>(now, op) \<in> set ops. \<not> removes row op"
    and "fact_id_parse (fact_id_str fid) = Inr fid" "embed_only_markers body = Some embeds"
  shows "serves_nothing (ro_text (render_for_sender (render_marker fid body)
           (page_acl_map_active path (run_ops env ops (run_op env now (OpForget fid why) tab))) view))"
  by (rule retired_fact_is_withheld [OF assms(4,5) forgotten_leaves_the_map [OF assms(1-3)]])

section \<open>A connection is its owner\<close>

text \<open>
  C26: A connected client is the person who approved it, and nobody else. The bearer token the OAuth server
  issues, presented to the MCP endpoint before or after any other traffic there, is either refused or
  authenticates its request as the person who gave the consent, as the connection named on the consent
  page, never as a standard consumer, and never for another person, whatever the request asks to act as.
\<close>

theorem connections_speak_for_their_owner:
  assumes "rtranclp (oauth_step env permitted) (s0, [], []) (s, consents, exchanges)"
    and "oa_codes s0 = []" "oa_refresh s0 = []"
    and "run_oauth_op env now fresh jti (OToken f) s = (s', TokenIssued rg claims refresh)"
    and "extract_bearer tenv (hr_authorization req) = Some bearer"
    and "te_decode tenv secret (timestamp later) bearer = Inr claims"
    and "jwt_auth_middleware tenv secret later fresh' req m = (m', Authenticated p)"
  shows "\<exists>g \<in> set consents. ip_sender_id p = cg_sender_id g \<and> ip_consumer_id p = Some (cg_consumer_id g)
    \<and> \<not> is_standard (ip_consumer_class p) \<and> (is_admin p \<longrightarrow> resolve_is_admin s (cg_sender_id g))"
proof -
  obtain g where g: "g \<in> set consents" "tc_sender_id claims = cg_sender_id g" "tc_consumer_id claims = Some (cg_consumer_id g)"
    "tc_consumer_class claims = Smart" "tc_is_admin claims = resolve_is_admin s (cg_sender_id g)"
    using token_has_consent [OF assms(1-4)] by blast
  from assms(7) obtain token bl c where c: "extract_bearer tenv (hr_authorization req) = Some token"
    "verify tenv secret (ms_revocations m) later token (ms_blacklist m) = (bl, Inr c)"
    "act_as tenv later (resolve_act_as tenv (hr_act_as req)) (from_claims c)
       (wire_agent later fresh' (from_claims c) (m\<lparr>ms_blacklist := bl\<rparr>)) = (m', Authenticated p)"
    by (rule middleware_Authenticated)
  then have "c = claims"
    using assms(5,6) by (auto simp: verify_def verify_offline_def split: sum.splits prod.splits bool.splits)
  with c(3) g(4) have "p = from_claims claims"
    by (auto simp: is_standard_def from_claims_def elim: act_as_cases)
  with g show ?thesis
    by (intro bexI [of _ g]) (auto simp: from_claims_def is_standard_def is_admin_def)
qed

section \<open>A concrete store and page\<close>

definition tea_row :: fact_row where
  "tea_row = (row_of_new_fact ''t0'' (sample_new_fact ''a'' None))\<lparr>fr_fact_id := sample_fact,
     fr_subject_id := Group ''family'', fr_source_path := ''family/about.md''\<rparr>"

lemma tea_row_simps [simp]:
  "fr_fact_id tea_row = sample_fact" "active tea_row" "fr_source_path tea_row = ''family/about.md''"
  by (simp_all add: tea_row_def active_def row_of_new_fact_def)

theorem surfaces_agree_witness:
  "region_visible (bob_view Whole) (page_acl_map_active ''family/about.md'' [tea_row])
     (default_region_attrs\<lparr>ra_fact_id := Some sample_fact\<rparr>) \<longleftrightarrow>
   tea_row \<in> set (find_by_filters (\<lambda>_. None)
     (no_filters\<lparr>ff_readable_by := Some (reader_principals ''bob'' [''family''])\<rparr>) [tea_row])"
  using surfaces_agree [of "[tea_row]" tea_row "default_region_attrs\<lparr>ra_fact_id := Some sample_fact\<rparr>" "bob_view Whole" "\<lambda>_. None"]
  by (simp add: bob_view_def)

definition jam_row :: fact_row where
  "jam_row = tea_row\<lparr>fr_fact_id := FactId ''0190f3c2-7a4e-7c31-9b02-2f6a1c8e5d02''\<rparr>"

definition breakfast_page :: "string \<Rightarrow> string" where
  "breakfast_page body = ''Breakfast: '' @ render_marker sample_fact body @ '' and '' @ render_marker (fr_fact_id jam_row) ''likes jam''"

definition breakfast_map :: fact_acl_map where
  "breakfast_map = page_acl_map_active ''family/about.md''
     (run_ops tally_env [(''t2'', OpClearSupersede sample_fact sample_fact),
        (''t3'', OpSetAcl sample_fact global_principal [] None None), (''t4'', OpBumpRecall [sample_fact])]
       (run_op tally_env ''t1'' (OpForget sample_fact ''user_request'') [tea_row, jam_row]))"

text \<open>Bob still reads of the jam, and the same of two files that say different things of the tea.\<close>

theorem forgotten_fact_stays_withheld_witness:
  "render_for_sender_segments (breakfast_page ''likes tea'') breakfast_map (bob_view AsWritten) =
     render_for_sender_segments (breakfast_page ''never drinks tea'') breakfast_map (bob_view AsWritten) \<and>
   blocks_redacted (render_for_sender_segments (breakfast_page ''likes tea'') breakfast_map (bob_view AsWritten)) = 1"
proof
  let ?p = "breakfast_page ''likes tea''" and ?q = "breakfast_page ''never drinks tea''"
  have tab: "distinct (map fr_fact_id [tea_row, jam_row])" "find_by_id [tea_row, jam_row] sample_fact = Some tea_row"
    by (simp_all add: jam_row_def sample_fact_def find_by_id_def)
  have "list_all2 (alike_but_fact sample_fact (doc_body ?p) (doc_body ?q)) (events (parse (doc_body ?p))) (events (parse (doc_body ?q)))"
    by code_simp
  from forgotten_fact_stays_withheld [OF tab _ breakfast_map_def this]
  show "render_for_sender_segments ?p breakfast_map (bob_view AsWritten) = render_for_sender_segments ?q breakfast_map (bob_view AsWritten)"
    by (simp add: removes_def)
  show "blocks_redacted (render_for_sender_segments ?p breakfast_map (bob_view AsWritten)) = 1"
    by code_simp
qed

fun token_of :: "oauth_response \<Rightarrow> token_claims option" where
  "token_of (TokenIssued rg claims refresh) = Some claims"
| "token_of _ = None"

fun caller_of :: "auth_response \<Rightarrow> identity_profile option" where
  "caller_of (Authenticated p) = Some p"
| "caller_of _ = None"

definition connected_env :: token_env where
  "connected_env = sample_env\<lparr>te_decode := (\<lambda>_ _ t.
     case token_of (snd office_exchanged) of
       Some c \<Rightarrow> if t = ''tok'' then Inr c else Inl (KindInvalidToken, [])
     | None \<Rightarrow> Inl (KindInvalidToken, []))\<rparr>"

definition connected_request :: http_request where
  "connected_request = \<lparr>hr_authorization = Some ''Bearer tok'', hr_act_as = None\<rparr>"

theorem connections_speak_for_their_owner_witness:
  "map_option ip_sender_id (caller_of (snd (jwt_auth_middleware connected_env ''k'' 9 ''f'' connected_request sample_server)))
     = Some ''alice''"
proof -
  let ?call = "jwt_auth_middleware connected_env ''k'' 9 ''f'' connected_request sample_server"
  have "caller_of (snd ?call) \<noteq> None" by code_simp
  then obtain p where p: "snd ?call = Authenticated p" by (cases "snd ?call") auto
  have bearer: "extract_bearer connected_env (hr_authorization connected_request) = Some ''tok''" by code_simp
  have "token_of (snd office_exchanged) \<noteq> None" by code_simp
  then obtain rg claims r where t: "snd office_exchanged = TokenIssued rg claims r"
    by (cases "snd office_exchanged") auto
  have "map_option cg_sender_id (consent_of (snd office_consented)) = Some ''alice''" by code_simp
  then obtain g where g: "consent_of (snd office_consented) = Some g" "cg_sender_id g = ''alice''" by blast
  have "oauth_step office_env (\<lambda>_ _ _ _. True) (office, [], [])
      (fst office_consented, [] @ opt_list (consent_of (snd office_consented)),
       [] @ opt_list (exchange_of office_env 5 (OAuthorizePost (Some ''old'') approve_form) office))"
    by (rule oauth_step_op [where fresh = "Some ''c1''" and jti = "''s1''"]) (simp_all add: office_consented_def)
  then have run: "rtranclp (oauth_step office_env (\<lambda>_ _ _ _. True)) (office, [], []) (fst office_consented, [g], [])"
    using g(1) by (auto simp: exchange_of_def)
  have start: "oa_codes office = []" "oa_refresh office = []" by (simp_all add: office_def)
  have issued: "run_oauth_op office_env 6 (Some ''r1'') ''j1'' (OToken exchange_form) (fst office_consented)
      = (fst office_exchanged, TokenIssued rg claims r)"
    using t by (metis office_exchanged_def prod.collapse)
  have decoded: "te_decode connected_env ''k'' (timestamp 9) ''tok'' = Inr claims"
    by (simp add: connected_env_def t)
  have "?call = (fst ?call, Authenticated p)" using p by (metis prod.collapse)
  from connections_speak_for_their_owner [OF run start issued bearer decoded this] g(2) p show ?thesis by simp
qed

end
